(* ===== verification/Lart_Prelude.thy ===== *)
theory Lart_Prelude
  imports Main
begin

text \<open>
  The prelude of the development: what the models of all components share.

  The effects of the code are explicit values. A fragment of the runtime or of an abstract
  domain can return, leave the process through \<open>__lart_cancel\<close> (the path is pruned and
  its exit status is a success), trap through \<open>domain_mixin::fail\<close>, or reach code whose
  behaviour the language leaves undefined (a table read out of range, \<open>__builtin_unreachable\<close>,
  an integer division by zero). That is the type \<open>outcome\<close>. A fragment that also calls
  \<open>__lart_choose\<close> has one outcome per choice: its model is the list of the outcomes of
  all the paths, in the order in which the forking runtime explores them; that is \<open>run\<close>.
\<close>

section \<open>Collections of facts\<close>

named_theorems outcome_simps "equations of the outcome and run combinators"
named_theorems table_simps "unfolding of the look-up tables and of their index functions"
named_theorems gamma_simps "membership in the concretisations of the abstract domains"

section \<open>Outcomes of a single path\<close>

datatype 'a outcome = Ret 'a | Cancel | Fault string | Undef

fun obind :: "'a outcome \<Rightarrow> ('a \<Rightarrow> 'b outcome) \<Rightarrow> 'b outcome" where
  "obind (Ret x) f = f x"
| "obind Cancel f = Cancel"
| "obind (Fault m) f = Fault m"
| "obind Undef f = Undef"

fun omap :: "('a \<Rightarrow> 'b) \<Rightarrow> 'a outcome \<Rightarrow> 'b outcome" where
  "omap f (Ret x) = Ret (f x)"
| "omap f Cancel = Cancel"
| "omap f (Fault m) = Fault m"
| "omap f Undef = Undef"

lemma obind_eq_Ret [outcome_simps]:
  "obind m f = Ret y \<longleftrightarrow> (\<exists>x. m = Ret x \<and> f x = Ret y)"
  by (cases m) auto

lemma omap_eq_Ret [outcome_simps]: "omap f m = Ret y \<longleftrightarrow> (\<exists>x. m = Ret x \<and> y = f x)"
  by (cases m) auto

lemma obind_assoc: "obind (obind m f) g = obind m (\<lambda>x. obind (f x) g)"
  by (cases m) auto

lemma omap_obind: "omap f m = obind m (\<lambda>x. Ret (f x))"
  by (cases m) auto

section \<open>Runs: the outcomes of all paths\<close>

type_synonym 'a run = "'a outcome list"

abbreviation rret :: "'a \<Rightarrow> 'a run" where
  "rret x \<equiv> [Ret x]"

definition rbind :: "'a run \<Rightarrow> ('a \<Rightarrow> 'b run) \<Rightarrow> 'b run" where
  "rbind r f = concat (map (\<lambda>m. case m of Ret x \<Rightarrow> f x | Cancel \<Rightarrow> [Cancel]
                                  | Fault s \<Rightarrow> [Fault s] | Undef \<Rightarrow> [Undef]) r)"

definition returns :: "'a run \<Rightarrow> 'a set" where
  "returns r = {x. Ret x \<in> set r}"

text \<open>A run is safe when no path of it traps or is undefined.\<close>

definition safe_run :: "'a run \<Rightarrow> bool" where
  "safe_run r = list_all (\<lambda>m. case m of Ret _ \<Rightarrow> True | Cancel \<Rightarrow> True | _ \<Rightarrow> False) r"

lemma rbind_simps [simp]:
  "rbind [] f = []"
  "rbind (Ret x # r) f = f x @ rbind r f"
  "rbind (Cancel # r) f = Cancel # rbind r f"
  "rbind (Fault s # r) f = Fault s # rbind r f"
  "rbind (Undef # r) f = Undef # rbind r f"
  by (simp_all add: rbind_def)

lemma rbind_append [simp]: "rbind (r @ s) f = rbind r f @ rbind s f"
  by (simp add: rbind_def)

lemma rbind_rret_right [simp]: "rbind r (\<lambda>x. [Ret x]) = r"
proof (induction r)
  case Nil
  then show ?case by simp
next
  case (Cons m r)
  then show ?case by (cases m) auto
qed

lemma rbind_assoc: "rbind (rbind r f) g = rbind r (\<lambda>x. rbind (f x) g)"
proof (induction r)
  case Nil
  then show ?case by simp
next
  case (Cons m r)
  then show ?case by (cases m) auto
qed

lemma in_returns [outcome_simps]: "x \<in> returns r \<longleftrightarrow> Ret x \<in> set r"
  by (simp add: returns_def)

lemma returns_simps [simp]:
  "returns [] = {}"
  "returns (Ret x # r) = insert x (returns r)"
  "returns (Cancel # r) = returns r"
  "returns (Fault msg # r) = returns r"
  "returns (Undef # r) = returns r"
  "returns (q @ r) = returns q \<union> returns r"
  by (auto simp: returns_def)

lemma returns_map_Ret [simp]: "returns (map (\<lambda>x. Ret (f x)) xs) = f ` set xs"
  by (auto simp: returns_def)

lemma returns_map_Ret' [simp]: "returns (map Ret xs) = set xs"
  by (auto simp: returns_def)

lemma returns_rbind [simp]: "returns (rbind r f) = (\<Union>x \<in> returns r. returns (f x))"
proof (induction r)
  case Nil
  then show ?case by simp
next
  case (Cons m r)
  then show ?case by (cases m) auto
qed

lemma returns_rbindI: "x \<in> returns r \<Longrightarrow> y \<in> returns (f x) \<Longrightarrow> y \<in> returns (rbind r f)"
  by auto

lemma rbind_cong_returns:
  "(\<And>x. x \<in> returns r \<Longrightarrow> f x = g x) \<Longrightarrow> rbind r f = rbind r g"
proof (induction r)
  case Nil
  then show ?case by simp
next
  case (Cons m r)
  then show ?case by (cases m) auto
qed

lemma returns_of_outcome: "returns [m] = (case m of Ret x \<Rightarrow> {x} | _ \<Rightarrow> {})"
  by (cases m) auto

section \<open>Soundness of outcomes and runs\<close>

text \<open>
  What it means that an analysis step loses nothing: the step delivers a result that still
  describes the concrete execution (\<open>P\<close>), or it stops the whole analysis with a trap. To prune
  the path, or to run into undefined behaviour, loses the execution. A run is sound when one of
  its paths is.
\<close>

definition osound :: "'a outcome \<Rightarrow> ('a \<Rightarrow> bool) \<Rightarrow> bool" where
  "osound m P = (case m of Ret x \<Rightarrow> P x | Cancel \<Rightarrow> False | Fault _ \<Rightarrow> True | Undef \<Rightarrow> False)"

definition rsound :: "'a run \<Rightarrow> ('a \<Rightarrow> bool) \<Rightarrow> bool" where
  "rsound r P = list_ex (\<lambda>m. osound m P) r"

lemma osound_simps [simp]:
  "osound (Ret x) P = P x" "\<not> osound Cancel P" "osound (Fault msg) P" "\<not> osound Undef P"
  by (simp_all add: osound_def)

lemma osound_obind:
  "osound m P \<Longrightarrow> (\<And>x. P x \<Longrightarrow> osound (f x) Q) \<Longrightarrow> osound (obind m f) Q"
  by (cases m) auto

lemma osound_omap: "osound (omap f m) P = osound m (\<lambda>x. P (f x))"
  by (cases m) auto

lemma osound_mono: "osound m P \<Longrightarrow> (\<And>x. P x \<Longrightarrow> Q x) \<Longrightarrow> osound m Q"
  by (cases m) auto

lemma rsound_simps [simp]:
  "\<not> rsound [] P"
  "rsound (m # r) P \<longleftrightarrow> osound m P \<or> rsound r P"
  "rsound (r @ q) P \<longleftrightarrow> rsound r P \<or> rsound q P"
  by (auto simp: rsound_def)

lemma rsound_returns: "x \<in> returns r \<Longrightarrow> P x \<Longrightarrow> rsound r P"
  by (force simp: rsound_def list_ex_iff returns_def)

lemma rsound_rbind:
  "rsound r P \<Longrightarrow> (\<And>x. P x \<Longrightarrow> rsound (f x) Q) \<Longrightarrow> rsound (rbind r f) Q"
proof (induction r)
  case Nil
  then show ?case by simp
next
  case (Cons m r)
  then show ?case by (cases m) auto
qed

lemma rsound_mono: "rsound r P \<Longrightarrow> (\<And>x. P x \<Longrightarrow> Q x) \<Longrightarrow> rsound r Q"
  by (auto simp: rsound_def list_ex_iff intro: osound_mono)

section \<open>Look-up tables\<close>

text \<open>
  The domains with finitely many values store their operations in two-dimensional constant
  arrays indexed by the numbers of the enumerators. A read outside the array is undefined.
\<close>

definition table :: "'a list list \<Rightarrow> nat \<Rightarrow> nat \<Rightarrow> 'a outcome" where
  "table t i j = (if i < length t \<and> j < length (t ! i) then Ret (t ! i ! j) else Undef)"

lemma table_defined:
  "length t = n \<Longrightarrow> (\<And>r. r \<in> set t \<Longrightarrow> length r = m) \<Longrightarrow> i < n \<Longrightarrow> j < m \<Longrightarrow>
    table t i j = Ret (t ! i ! j)"
  by (simp add: table_def)

section \<open>Decimal numbers\<close>

definition digit :: "nat \<Rightarrow> char" where
  "digit n = char_of (48 + n)"

fun nat_string :: "nat \<Rightarrow> string" where
  "nat_string n = (if n < 10 then [digit n] else nat_string (n div 10) @ [digit (n mod 10)])"

declare nat_string.simps [simp del]

fun digits_value :: "nat \<Rightarrow> string \<Rightarrow> nat" where
  "digits_value n [] = n"
| "digits_value n (c # cs) = digits_value (10 * n + (of_char c - 48)) cs"

lemma digits_value_append: "digits_value n (xs @ ys) = digits_value (digits_value n xs) ys"
  by (induction xs arbitrary: n) auto

lemma digit_value: "n < 10 \<Longrightarrow> of_char (digit n) - (48 :: nat) = n"
  by (simp add: digit_def)

lemma nat_string_value: "digits_value 0 (nat_string n) = n"
proof (induction n rule: nat_string.induct)
  case (1 n)
  then show ?case
    by (subst nat_string.simps) (simp add: digits_value_append digit_value)
qed

end
