(* ===== verification/Runtime_Choose.thy ===== *)
theory Runtime_Choose
  imports Lart_Prelude "HOL-Library.Word"
begin

text \<open>
  Non-deterministic choice of the native runtime: \<open>runtime/native/choose.cpp\<close> with the parts
  of \<open>config.hpp\<close>, \<open>trace.hpp\<close>, \<open>fault.cpp\<close> and \<open>lart.cpp\<close> it uses. The runtime explores the
  alternatives of a choice by forking, so a choice is modelled in continuation-passing style:
  the continuation is the rest of the program, run once by every process the choice creates.
\<close>

section \<open>Processes and shared memory\<close>

text \<open>
  The configuration is written once, at start-up, except for \<open>error_found\<close>: the structure is
  mapped shared, so that a fault in a child is visible in its ancestors. The immutable fields
  are the record \<open>config\<close>, the mutable one is the record \<open>shared\<close>.
\<close>

record config =
  backtrace :: bool
  trace_choices :: bool
  ask_choices :: bool
  choose_bound :: "32 word"
  choose_increasing :: bool
  no_fail_mode :: bool
  trace_file :: "nat option"

definition default_config :: config where
  "default_config = \<lparr>backtrace = False, trace_choices = False, ask_choices = False,
     choose_bound = 0, choose_increasing = False, no_fail_mode = False, trace_file = None\<rparr>"

record shared =
  error_found :: bool

text \<open>The memory of one process: the number of choices made, their trace, and the integers that
  are still to be read from the standard input.\<close>

record proc =
  depth :: "32 word"
  choices :: "int list"
  input :: "int list"

text \<open>
  The rest of the execution of a process: from the shared memory to the exit code and the shared
  memory at its end, or \<open>None\<close> when it does not end.
\<close>

type_synonym 'z exec = "'z shared_scheme \<Rightarrow> (int \<times> 'z shared_scheme) option"
type_synonym 'z cont = "int \<Rightarrow> proc \<Rightarrow> 'z exec"

section \<open>Ending a process\<close>

definition push_choice :: "int \<Rightarrow> proc \<Rightarrow> proc" where
  "push_choice c p = p\<lparr>choices := choices p @ [c]\<rparr>"

text \<open>\<open>__lart_cancel\<close> leaves with \<open>EXIT_SUCCESS\<close>.\<close>

definition lart_cancel :: "'z exec" where
  "lart_cancel sh = Some (0, sh)"

definition fault_exit :: "config \<Rightarrow> 'z exec" where
  "fault_exit cfg sh = Some (if no_fail_mode cfg then 0 else 1, sh\<lparr>error_found := True\<rparr>)"

text \<open>
  The code a waiting process leaves with, if it leaves: a child that failed, an error found
  anywhere, and the bound on the depth, in this order.
\<close>

definition check_terminate :: "config \<Rightarrow> proc \<Rightarrow> int \<Rightarrow> 'z shared_scheme \<Rightarrow> int option" where
  "check_terminate cfg p status sh =
    (if status \<noteq> 0 then Some status
     else if error_found sh then Some 0
     else if choose_bound cfg \<noteq> 0 \<and> depth p \<ge> choose_bound cfg then Some 0
     else None)"

section \<open>The choice operator\<close>

text \<open>What \<open>choose\<close> does with a result before it returns it.\<close>

definition finish_choice :: "config \<Rightarrow> int \<Rightarrow> proc \<Rightarrow> proc" where
  "finish_choice cfg r p =
    (let q = (if trace_choices cfg then push_choice r p else p) in q\<lparr>depth := depth q + 1\<rparr>)"

text \<open>
  \<open>wstatus\<close> is the encoding of an exit code in the status that \<open>wait\<close> stores: it belongs to the
  operating system and is a parameter. Forking calls the continuation for the child, waits for
  its end, and goes on in the parent.
\<close>

definition fork_wait ::
  "(int \<Rightarrow> int) \<Rightarrow> config \<Rightarrow> proc \<Rightarrow> 'z exec \<Rightarrow> 'z exec \<Rightarrow> 'z exec" where
  "fork_wait wstatus cfg p child parent sh =
    (case child sh of None \<Rightarrow> None
     | Some (code, sh') \<Rightarrow>
         (case check_terminate cfg p (wstatus code) sh' of
            Some code' \<Rightarrow> Some (code', sh')
          | None \<Rightarrow> parent sh'))"

text \<open>
  The decreasing strategy: the parent goes on through \<open>choose\<close>, so that the recursion passes
  through \<open>finish_choice\<close> once more for every alternative. The recursion need not end.
\<close>

partial_function (option) fork_choose_dec ::
  "(int \<Rightarrow> int) \<Rightarrow> config \<Rightarrow> int \<Rightarrow> proc \<Rightarrow> 'z cont \<Rightarrow> 'z shared_scheme
    \<Rightarrow> (int \<times> 'z shared_scheme) option" where
  "fork_choose_dec wstatus cfg count p k sh =
    (if count = 1 then k 0 p sh
     else (case k (count - 1) p sh of None \<Rightarrow> None
       | Some (code, sh') \<Rightarrow>
          (case check_terminate cfg p (wstatus code) sh' of
             Some code' \<Rightarrow> Some (code', sh')
           | None \<Rightarrow>
              fork_choose_dec wstatus cfg (count - 1) p (\<lambda>r q. k r (finish_choice cfg r q)) sh')))"

text \<open>The increasing strategy: a loop over \<open>i\<close> that returns \<open>count - 1\<close> in every process.\<close>

fun fork_choose_inc_loop ::
  "(int \<Rightarrow> int) \<Rightarrow> config \<Rightarrow> nat \<Rightarrow> int \<Rightarrow> proc \<Rightarrow> 'z cont \<Rightarrow> 'z exec" where
  "fork_choose_inc_loop wstatus cfg 0 count p k sh = k (count - 1) p sh"
| "fork_choose_inc_loop wstatus cfg (Suc n) count p k sh =
     fork_wait wstatus cfg p (k (count - 1) p)
       (fork_choose_inc_loop wstatus cfg n count p k) sh"

definition fork_choose_inc ::
  "(int \<Rightarrow> int) \<Rightarrow> config \<Rightarrow> int \<Rightarrow> proc \<Rightarrow> 'z cont \<Rightarrow> 'z exec" where
  "fork_choose_inc wstatus cfg count = fork_choose_inc_loop wstatus cfg (nat (count - 1)) count"

text \<open>With \<open>ask_choices\<close> the result is read by \<open>scanf\<close>, and stays 0 when there is nothing to read.\<close>

definition rt_choose ::
  "(int \<Rightarrow> int) \<Rightarrow> config \<Rightarrow> int \<Rightarrow> proc \<Rightarrow> 'z cont \<Rightarrow> 'z exec" where
  "rt_choose wstatus cfg count p k =
    (let k' = (\<lambda>r q. k r (finish_choice cfg r q)) in
     if ask_choices cfg then
       (case input p of [] \<Rightarrow> k' 0 p | i # js \<Rightarrow> k' i (p\<lparr>input := js\<rparr>))
     else if choose_increasing cfg then fork_choose_inc wstatus cfg count p k'
     else fork_choose_dec wstatus cfg count p k')"

section \<open>What a choice explores\<close>

text \<open>The alternatives of a choice, run one after the other until a process leaves.\<close>

fun explore ::
  "(int \<Rightarrow> int) \<Rightarrow> config \<Rightarrow> proc \<Rightarrow> (int \<times> proc) list \<Rightarrow> 'z cont \<Rightarrow> 'z exec" where
  "explore wstatus cfg p [] k sh = None"
| "explore wstatus cfg p [(r, q)] k sh = k r q sh"
| "explore wstatus cfg p ((r, q) # rest) k sh =
     fork_wait wstatus cfg p (k r q) (explore wstatus cfg p rest k) sh"

text \<open>The alternatives of the decreasing strategy, with the process each of them runs in.\<close>

fun dec_alternatives :: "config \<Rightarrow> proc \<Rightarrow> nat \<Rightarrow> (int \<times> proc) list" where
  "dec_alternatives cfg p 0 = []"
| "dec_alternatives cfg p (Suc n) =
     (int n, p) # map (\<lambda>(r, q). (r, finish_choice cfg r q)) (dec_alternatives cfg p n)"

text \<open>The order in which the default configuration explores: the abstract choice operator.\<close>

definition lart_choose :: "int \<Rightarrow> int run" where
  "lart_choose count = (if count \<ge> 1 then map (\<lambda>i. Ret (int i)) (rev [0..<nat count]) else [Undef])"

lemma returns_lart_choose: "returns (lart_choose n) = {i. 0 \<le> i \<and> i < n}"
proof (cases "n \<ge> 1")
  case True
  have "int ` {0..<nat n} = {i. 0 \<le> i \<and> i < n}"
  proof (intro equalityI subsetI)
    fix i assume "i \<in> {i. 0 \<le> i \<and> i < n}"
    then have "i = int (nat i)" and "nat i \<in> {0..<nat n}" by auto
    then show "i \<in> int ` {0..<nat n}" by (rule image_eqI)
  qed auto
  with True show ?thesis by (simp add: lart_choose_def)
next
  case False
  then show ?thesis by (auto simp: lart_choose_def)
qed

lemma lart_choose_member [intro]: "0 \<le> i \<Longrightarrow> i < n \<Longrightarrow> i \<in> returns (lart_choose n)"
  by (simp add: returns_lart_choose)

lemma lart_choose_safe: "1 \<le> n \<Longrightarrow> safe_run (lart_choose n)"
  by (simp add: lart_choose_def safe_run_def list_all_iff)

lemma explore_Cons:
  "rest \<noteq> [] \<Longrightarrow> explore wstatus cfg p ((r, q) # rest) k sh =
     fork_wait wstatus cfg p (k r q) (explore wstatus cfg p rest k) sh"
  by (cases rest) auto

lemma explore_map:
  "explore wstatus cfg p (map (\<lambda>(r, q). (r, f r q)) rs) k sh =
     explore wstatus cfg p rs (\<lambda>r q. k r (f r q)) sh"
proof (induction rs arbitrary: sh)
  case Nil
  then show ?case by simp
next
  case (Cons x rs)
  then show ?case
    by (cases x; cases rs) (auto simp: fork_wait_def split: option.splits)
qed

lemma dec_alternatives_Nil [simp]: "dec_alternatives cfg p n = [] \<longleftrightarrow> n = 0"
  by (cases n) auto

lemma fork_choose_dec_explores:
  "fork_choose_dec wstatus cfg (int (Suc n)) p k sh =
     explore wstatus cfg p (dec_alternatives cfg p (Suc n)) k sh"
proof (induction n arbitrary: k sh)
  case 0
  show ?case by (simp add: fork_choose_dec.simps)
next
  case (Suc n)
  have ne: "map (\<lambda>(r, q). (r, finish_choice cfg r q)) (dec_alternatives cfg p (Suc n)) \<noteq> []"
    by simp
  show ?case
    by (subst fork_choose_dec.simps, subst dec_alternatives.simps, subst explore_Cons [OF ne])
       (use Suc.IH in \<open>simp add: fork_wait_def explore_map del: dec_alternatives.simps cong: option.case_cong\<close>)
qed

lemma choose_dec_explores:
  assumes "\<not> ask_choices cfg" "\<not> choose_increasing cfg"
  shows "rt_choose wstatus cfg (int (Suc n)) p k sh =
    explore wstatus cfg p (map (\<lambda>(r, q). (r, finish_choice cfg r q)) (dec_alternatives cfg p (Suc n))) k sh"
  unfolding rt_choose_def Let_def explore_map fork_choose_dec_explores [symmetric]
  using assms by simp

lemma dec_alternatives_results:
  "map fst (dec_alternatives cfg p n) = map int (rev [0..<n])"
proof (induction n)
  case 0
  then show ?case by simp
next
  case (Suc n)
  have "map fst (map (\<lambda>(r, q). (r, finish_choice cfg r q)) (dec_alternatives cfg p n))
        = map fst (dec_alternatives cfg p n)"
    by (induction "dec_alternatives cfg p n") auto
  then show ?case using Suc by simp
qed

lemma inc_loop_explores:
  "fork_choose_inc_loop wstatus cfg n count p k sh =
     explore wstatus cfg p (replicate (Suc n) (count - 1, p)) k sh"
  by (induction n arbitrary: sh) (auto simp: fork_wait_def split: option.splits)

section \<open>Properties\<close>

text \<open>
  The increasing strategy of the forking choice runs the rest of the program count times, but
  every time with the same result, count - 1: the smaller alternatives are never explored.
\<close>

theorem choose_increasing_repeats_last:
  assumes "\<not> ask_choices cfg" "choose_increasing cfg"
  shows "rt_choose wstatus cfg (int (Suc n)) p k sh =
    explore wstatus cfg p (replicate (Suc n) (int n, finish_choice cfg (int n) p)) k sh"
proof -
  have "rt_choose wstatus cfg (int (Suc n)) p k sh =
    explore wstatus cfg p (replicate (Suc n) (int n, p)) (\<lambda>r q. k r (finish_choice cfg r q)) sh"
    using assms by (simp add: rt_choose_def fork_choose_inc_def inc_loop_explores del: replicate_Suc)
  also have "\<dots> = explore wstatus cfg p
      (map (\<lambda>(r, q). (r, finish_choice cfg r q)) (replicate (Suc n) (int n, p))) k sh"
    by (rule explore_map [symmetric])
  finally show ?thesis by simp
qed

lemma fork_choose_dec_diverges:
  assumes "count \<le> 0" "wstatus 0 = 0" "choose_bound cfg = 0" "\<not> error_found sh"
  shows "fork_choose_dec wstatus cfg count p (\<lambda>r q sh. Some (0, sh)) sh = None"
proof -
  have "\<not> (count \<le> 0 \<and> wstatus 0 = 0 \<and> choose_bound cfg = 0 \<and> \<not> error_found sh \<and>
      (\<forall>r q sh. k r q sh = Some (0, sh)))"
    if "fork_choose_dec wstatus cfg count p k sh = Some y" for k y
  proof (rule fork_choose_dec.raw_induct [where P = "\<lambda>wstatus cfg count p k sh y. \<not> (count \<le> 0 \<and>
      wstatus 0 = 0 \<and> choose_bound cfg = 0 \<and> \<not> error_found sh \<and> (\<forall>r q sh. k r q sh = Some (0, sh)))",
      OF _ that], rule notI, elim conjE, goal_cases)
    case (1 f wstatus cfg count p k sh y)
    then have "check_terminate cfg p 0 sh = None"
      by (simp add: check_terminate_def)
    then have "f wstatus cfg (count - 1) p (\<lambda>r q. k r (finish_choice cfg r q)) sh = Some y"
      using 1 by simp
    from 1(1) [OF this] show False
      using 1 by simp
  qed
  with assms show ?thesis
    by (cases "fork_choose_dec wstatus cfg count p (\<lambda>r q sh. Some (0, sh)) sh") auto
qed

text \<open>
  A choice among no alternatives does not end: with the default strategy, a count of zero or less
  and a program that always succeeds, the parent forks a child for one negative number after
  another and never returns.
\<close>

theorem choose_of_nothing_diverges:
  assumes "count \<le> 0" "\<not> ask_choices cfg" "\<not> choose_increasing cfg"
    and "wstatus 0 = 0" "choose_bound cfg = 0" "\<not> error_found sh"
  shows "rt_choose wstatus cfg count p (\<lambda>r q sh. Some (0, sh)) sh = None"
  using assms fork_choose_dec_diverges by (fastforce simp: rt_choose_def)



end
