(* ===== verification/Tristate.thy ===== *)
theory Tristate
  imports Lart_Prelude Runtime_Choose
begin

text \<open>
  The three-valued booleans of \<open>lava/include/lava/support/tristate.hpp\<close>: the type, its
  conversions, the overloads of the logical operators, and their meaning as sets of booleans.
\<close>

section \<open>The type and its constructors\<close>

datatype tristate = false_value | true_value | maybe_value

definition tristate_default :: tristate where
  "tristate_default = false_value"

text \<open>The explicit constructor from a byte casts it to the enumeration without a check.\<close>

definition tristate_of_byte :: "nat \<Rightarrow> tristate outcome" where
  "tristate_of_byte v = (if v = 0 then Ret false_value else if v = 1 then Ret true_value
                         else if v = 2 then Ret maybe_value else Undef)"

definition tristate_value :: "tristate \<Rightarrow> nat" where
  "tristate_value t = (case t of false_value \<Rightarrow> 0 | true_value \<Rightarrow> 1 | maybe_value \<Rightarrow> 2)"

definition tristate_of_bool :: "bool \<Rightarrow> tristate" where
  "tristate_of_bool v = (if v then true_value else false_value)"

definition tri_to_bool :: "tristate \<Rightarrow> bool" where
  "tri_to_bool t \<longleftrightarrow> t = true_value"

definition tri_maybe :: "tristate \<Rightarrow> bool" where
  "tri_maybe t \<longleftrightarrow> t = maybe_value"

section \<open>The logical operators\<close>

definition tri_not :: "tristate \<Rightarrow> tristate" where
  "tri_not t = (if t = false_value then tristate_of_bool True
                else if t = true_value then tristate_of_bool False
                else maybe_value)"

definition tri_and :: "tristate \<Rightarrow> tristate \<Rightarrow> tristate" where
  "tri_and a b =
    (if tri_to_bool (tri_not a) \<or> tri_to_bool (tri_not b) then tristate_of_bool False
     else if tri_to_bool a \<and> tri_to_bool b then tristate_of_bool True
     else maybe_value)"

definition tri_and_tb :: "tristate \<Rightarrow> bool \<Rightarrow> tristate" where
  "tri_and_tb a b = (if b then a else tristate_of_bool False)"

definition tri_and_bt :: "bool \<Rightarrow> tristate \<Rightarrow> tristate" where
  "tri_and_bt a b = (if a then b else tristate_of_bool False)"

definition tri_and_mt :: "tristate \<Rightarrow> tristate" where
  "tri_and_mt b = (if tri_to_bool (tri_not b) then tristate_of_bool False else maybe_value)"

definition tri_and_tm :: "tristate \<Rightarrow> tristate" where
  "tri_and_tm a = (if tri_to_bool (tri_not a) then tristate_of_bool False else maybe_value)"

definition tri_or :: "tristate \<Rightarrow> tristate \<Rightarrow> tristate" where
  "tri_or a b =
    (if tri_to_bool (tri_not a) \<and> tri_to_bool (tri_not b) then tristate_of_bool False
     else if tri_to_bool a \<or> tri_to_bool b then tristate_of_bool True
     else maybe_value)"

definition tri_or_tb :: "tristate \<Rightarrow> bool \<Rightarrow> tristate" where
  "tri_or_tb a b = (if b then tristate_of_bool True else a)"

definition tri_or_bt :: "bool \<Rightarrow> tristate \<Rightarrow> tristate" where
  "tri_or_bt a b = (if a then tristate_of_bool True else b)"

definition tri_or_mt :: "tristate \<Rightarrow> tristate" where
  "tri_or_mt b = (if tri_to_bool b then tristate_of_bool True else maybe_value)"

definition tri_or_tm :: "tristate \<Rightarrow> tristate" where
  "tri_or_tm a = (if tri_to_bool a then tristate_of_bool True else maybe_value)"

definition tri_eq :: "tristate \<Rightarrow> tristate \<Rightarrow> tristate" where
  "tri_eq a b = (if tri_maybe a \<or> tri_maybe b then maybe_value
                 else tri_or (tri_and a b) (tri_and (tri_not a) (tri_not b)))"

definition tri_eq_tb :: "tristate \<Rightarrow> bool \<Rightarrow> tristate" where
  "tri_eq_tb a b = tri_eq a (tristate_of_bool b)"

definition tri_eq_bt :: "bool \<Rightarrow> tristate \<Rightarrow> tristate" where
  "tri_eq_bt a b = tri_eq (tristate_of_bool a) b"

definition tri_eq_mt :: "tristate \<Rightarrow> tristate" where
  "tri_eq_mt b = tri_eq maybe_value b"

definition tri_eq_tm :: "tristate \<Rightarrow> tristate" where
  "tri_eq_tm a = tri_eq a maybe_value"

text \<open>The disequality is the negated conjunction or the conjunction of the negations, as written.\<close>

definition tri_ne :: "tristate \<Rightarrow> tristate \<Rightarrow> tristate" where
  "tri_ne a b = (if tri_maybe a \<or> tri_maybe b then maybe_value
                 else tri_or (tri_not (tri_and a b)) (tri_and (tri_not a) (tri_not b)))"

definition tri_ne_tb :: "tristate \<Rightarrow> bool \<Rightarrow> tristate" where
  "tri_ne_tb a b = tri_ne a (tristate_of_bool b)"

definition tri_ne_bt :: "bool \<Rightarrow> tristate \<Rightarrow> tristate" where
  "tri_ne_bt a b = tri_ne (tristate_of_bool a) b"

definition tri_ne_mt :: "tristate \<Rightarrow> tristate" where
  "tri_ne_mt b = tri_ne maybe_value b"

definition tri_ne_tm :: "tristate \<Rightarrow> tristate" where
  "tri_ne_tm a = tri_ne a maybe_value"

section \<open>Printing and lifting\<close>

definition tri_str :: "tristate \<Rightarrow> string" where
  "tri_str t = (case t of true_value \<Rightarrow> ''true'' | false_value \<Rightarrow> ''false'' | maybe_value \<Rightarrow> ''maybe'')"

definition tri_lift :: "bool \<Rightarrow> tristate" where
  "tri_lift v = tristate_of_bool v"

text \<open>Lowering asks the runtime for one of two alternatives, and returns it as a boolean.\<close>

definition tri_lower :: "tristate \<Rightarrow> bool run" where
  "tri_lower t = (if t = maybe_value then rbind (lart_choose 2) (\<lambda>c. rret (c \<noteq> 0))
                  else rret (tristate_value t \<noteq> 0))"

lemmas tri_defs = tri_not_def tri_and_def tri_or_def tri_eq_def tri_ne_def tri_to_bool_def
  tri_maybe_def tristate_of_bool_def tri_lift_def tri_and_tb_def tri_and_bt_def tri_and_mt_def
  tri_and_tm_def tri_or_tb_def tri_or_bt_def tri_or_mt_def tri_or_tm_def tri_eq_tb_def
  tri_eq_bt_def tri_eq_mt_def tri_eq_tm_def tri_ne_tb_def tri_ne_bt_def tri_ne_mt_def tri_ne_tm_def

section \<open>Meaning: sets of booleans\<close>

fun tri_gamma :: "tristate \<Rightarrow> bool set" where
  "tri_gamma false_value = {False}"
| "tri_gamma true_value = {True}"
| "tri_gamma maybe_value = UNIV"

lemma tri_gamma_mem [gamma_simps]:
  "b \<in> tri_gamma t \<longleftrightarrow> (t = maybe_value \<or> (b \<longleftrightarrow> t = true_value))"
  by (cases t) auto

lemma tri_gamma_nonempty: "tri_gamma t \<noteq> {}"
  by (cases t) auto

lemma tri_gamma_inj: "tri_gamma s = tri_gamma t \<longleftrightarrow> s = t"
  by (cases s; cases t) (auto simp: set_eq_iff)

lemma tri_gamma_of_bool [simp]: "tri_gamma (tristate_of_bool b) = {b}"
  by (cases b) (auto simp: tristate_of_bool_def)

lemma tri_byte_roundtrip: "tristate_of_byte (tristate_value t) = Ret t"
  by (cases t) (simp_all add: tristate_of_byte_def tristate_value_def)

lemma tri_not_image: "tri_gamma (tri_not t) = Not ` tri_gamma t"
  by (cases t) (auto simp: tri_defs image_iff)

lemma tri_and_image: "tri_gamma (tri_and a b) = {x \<and> y | x y. x \<in> tri_gamma a \<and> y \<in> tri_gamma b}"
  by (cases a; cases b) (auto simp: tri_defs)

lemma tri_or_image: "tri_gamma (tri_or a b) = {x \<or> y | x y. x \<in> tri_gamma a \<and> y \<in> tri_gamma b}"
  by (cases a; cases b) (auto simp: tri_defs)

lemma tri_eq_image: "tri_gamma (tri_eq a b) = {x = y | x y. x \<in> tri_gamma a \<and> y \<in> tri_gamma b}"
  by (cases a; cases b) (auto simp: tri_defs)

lemma tri_de_morgan:
  "tri_not (tri_and a b) = tri_or (tri_not a) (tri_not b)"
  "tri_not (tri_or a b) = tri_and (tri_not a) (tri_not b)"
  by (cases a; cases b; simp add: tri_defs)+

lemma tri_mixed:
  "tri_and_tb a c = tri_and a (tristate_of_bool c)"
  "tri_and_bt c b = tri_and (tristate_of_bool c) b"
  "tri_and_mt b = tri_and maybe_value b"
  "tri_and_tm a = tri_and a maybe_value"
  "tri_or_tb a c = tri_or a (tristate_of_bool c)"
  "tri_or_bt c b = tri_or (tristate_of_bool c) b"
  "tri_or_mt b = tri_or maybe_value b"
  "tri_or_tm a = tri_or a maybe_value"
  by (cases a; cases b; cases c; simp add: tri_defs)+

lemma returns_tri_lower: "returns (tri_lower t) = tri_gamma t"
proof (cases t)
  case maybe_value
  have "lart_choose 2 = [Ret 1, Ret 0]"
    by (simp add: lart_choose_def upt_rec)
  with maybe_value show ?thesis
    by (auto simp: tri_lower_def)
qed (auto simp: tri_lower_def tristate_value_def)

lemma tri_lower_exhaustive: "b \<in> tri_gamma t \<Longrightarrow> rsound (tri_lower t) (\<lambda>c. c = b)"
  by (rule rsound_returns [of b]) (auto simp: returns_tri_lower)

section \<open>Properties\<close>

text \<open>
  The three-valued negation, conjunction, disjunction and equality are exact: the truth values
  that the result stands for are precisely the results of the boolean connective on the truth
  values the operands stand for.
\<close>

theorem tri_connectives_exact:
  "tri_gamma (tri_not a) = Not ` tri_gamma a \<and>
   tri_gamma (tri_and a b) = {x \<and> y | x y. x \<in> tri_gamma a \<and> y \<in> tri_gamma b} \<and>
   tri_gamma (tri_or a b) = {x \<or> y | x y. x \<in> tri_gamma a \<and> y \<in> tri_gamma b} \<and>
   tri_gamma (tri_eq a b) = {x = y | x y. x \<in> tri_gamma a \<and> y \<in> tri_gamma b}"
  by (intro conjI tri_not_image tri_and_image tri_or_image tri_eq_image)

text \<open>
  The three-valued disequality is exact on all pairs of operands but (false, false), which it
  calls different.
\<close>

theorem tri_disequality_exact_iff:
  "tri_gamma (tri_ne a b) = {x \<noteq> y | x y. x \<in> tri_gamma a \<and> y \<in> tri_gamma b} \<longleftrightarrow>
    (a, b) \<noteq> (false_value, false_value)"
  by (cases a; cases b) (simp_all add: tri_defs set_eq_iff ex_bool_eq all_bool_eq)

text \<open>
  Lowering a three-valued boolean explores each of the truth values it stands for exactly once,
  and traps on none.
\<close>

theorem tri_lower_alternatives:
  "returns (tri_lower t) = tri_gamma t \<and> length (tri_lower t) = card (tri_gamma t) \<and> safe_run (tri_lower t)"
proof -
  have "lart_choose 2 = [Ret 1, Ret 0]"
    by (simp add: lart_choose_def upt_rec)
  then have "length (tri_lower t) = card (tri_gamma t) \<and> safe_run (tri_lower t)"
    by (cases t) (simp_all add: tri_lower_def safe_run_def card_UNIV_bool)
  then show ?thesis by (simp add: returns_tri_lower)
qed

end
