(* ===== verification/Op_Tag.thy ===== *)
theory Op_Tag
  imports Lart_Prelude
begin

text \<open>
  The tags of the operations, \<open>lava/include/lava/support/operations.hpp\<close>, and the tag domain
  of \<open>op.hpp\<close>, the domain whose value is the tag of the operation that made it.
\<close>

section \<open>The tags\<close>

datatype (plugins only: code size) op_tag =
      tag_unknown | tag_any | tag_lift | tag_lower | tag_join | tag_meet | tag_alloca
    | tag_store | tag_load | tag_add | tag_sub | tag_mul | tag_sdiv | tag_udiv | tag_srem
    | tag_urem | tag_fadd | tag_fsub | tag_fmul | tag_fdiv | tag_frem | tag_fneg | tag_op_and
    | tag_op_or | tag_op_xor | tag_zfit | tag_zext | tag_sext | tag_trunc | tag_fptrunc
    | tag_sitofp | tag_uitofp | tag_fptosi | tag_fptoui | tag_fpext | tag_inttoptr
    | tag_ptrtoint | tag_ne | tag_eq | tag_slt | tag_sgt | tag_sle | tag_sge | tag_ult | tag_ugt
    | tag_ule | tag_uge | tag_foeq | tag_fogt | tag_foge | tag_folt | tag_fole | tag_fone
    | tag_ford | tag_funo | tag_fueq | tag_fugt | tag_fuge | tag_fult | tag_fule | tag_fune
    | tag_ffalse | tag_ftrue | tag_shl | tag_lshr | tag_ashr | tag_concat | tag_extract
    | tag_malloc | tag_realloc | tag_dealloca | tag_free

primrec op_to_string :: "op_tag \<Rightarrow> string" where
  "op_to_string tag_unknown = ''unknown''"
| "op_to_string tag_any = ''any''"
| "op_to_string tag_lift = ''lift''"
| "op_to_string tag_lower = ''lower''"
| "op_to_string tag_join = ''join''"
| "op_to_string tag_meet = ''meet''"
| "op_to_string tag_alloca = ''alloca''"
| "op_to_string tag_store = ''store''"
| "op_to_string tag_load = ''load''"
| "op_to_string tag_add = ''add''"
| "op_to_string tag_sub = ''sub''"
| "op_to_string tag_mul = ''mul''"
| "op_to_string tag_sdiv = ''sdiv''"
| "op_to_string tag_udiv = ''udiv''"
| "op_to_string tag_srem = ''srem''"
| "op_to_string tag_urem = ''urem''"
| "op_to_string tag_fadd = ''fadd''"
| "op_to_string tag_fsub = ''fsub''"
| "op_to_string tag_fmul = ''fmul''"
| "op_to_string tag_fdiv = ''fdiv''"
| "op_to_string tag_frem = ''frem''"
| "op_to_string tag_fneg = ''fneg''"
| "op_to_string tag_op_and = ''op_and''"
| "op_to_string tag_op_or = ''op_or''"
| "op_to_string tag_op_xor = ''op_xor''"
| "op_to_string tag_zfit = ''zfit''"
| "op_to_string tag_zext = ''zext''"
| "op_to_string tag_sext = ''sext''"
| "op_to_string tag_trunc = ''trunc''"
| "op_to_string tag_fptrunc = ''fptrunc''"
| "op_to_string tag_sitofp = ''sitofp''"
| "op_to_string tag_uitofp = ''uitofp''"
| "op_to_string tag_fptosi = ''fptosi''"
| "op_to_string tag_fptoui = ''fptoui''"
| "op_to_string tag_fpext = ''fpext''"
| "op_to_string tag_inttoptr = ''inttoptr''"
| "op_to_string tag_ptrtoint = ''ptrtoint''"
| "op_to_string tag_ne = ''ne''"
| "op_to_string tag_eq = ''eq''"
| "op_to_string tag_slt = ''slt''"
| "op_to_string tag_sgt = ''sgt''"
| "op_to_string tag_sle = ''sle''"
| "op_to_string tag_sge = ''sge''"
| "op_to_string tag_ult = ''ult''"
| "op_to_string tag_ugt = ''ugt''"
| "op_to_string tag_ule = ''ule''"
| "op_to_string tag_uge = ''uge''"
| "op_to_string tag_foeq = ''foeq''"
| "op_to_string tag_fogt = ''fogt''"
| "op_to_string tag_foge = ''foge''"
| "op_to_string tag_folt = ''folt''"
| "op_to_string tag_fole = ''fole''"
| "op_to_string tag_fone = ''fone''"
| "op_to_string tag_ford = ''ford''"
| "op_to_string tag_funo = ''funo''"
| "op_to_string tag_fueq = ''fueq''"
| "op_to_string tag_fugt = ''fugt''"
| "op_to_string tag_fuge = ''fuge''"
| "op_to_string tag_fult = ''fult''"
| "op_to_string tag_fule = ''fule''"
| "op_to_string tag_fune = ''fune''"
| "op_to_string tag_ffalse = ''ffalse''"
| "op_to_string tag_ftrue = ''ftrue''"
| "op_to_string tag_shl = ''shl''"
| "op_to_string tag_lshr = ''lshr''"
| "op_to_string tag_ashr = ''ashr''"
| "op_to_string tag_concat = ''concat''"
| "op_to_string tag_extract = ''extract''"
| "op_to_string tag_malloc = ''malloc''"
| "op_to_string tag_realloc = ''realloc''"
| "op_to_string tag_dealloca = ''dealloca''"
| "op_to_string tag_free = ''free''"

text \<open>The number of an enumerator, and the enumerators in their order.\<close>

primrec tag_number :: "op_tag \<Rightarrow> nat" where
  "tag_number tag_unknown = 0"
| "tag_number tag_any = 1"
| "tag_number tag_lift = 2"
| "tag_number tag_lower = 3"
| "tag_number tag_join = 4"
| "tag_number tag_meet = 5"
| "tag_number tag_alloca = 6"
| "tag_number tag_store = 7"
| "tag_number tag_load = 8"
| "tag_number tag_add = 9"
| "tag_number tag_sub = 10"
| "tag_number tag_mul = 11"
| "tag_number tag_sdiv = 12"
| "tag_number tag_udiv = 13"
| "tag_number tag_srem = 14"
| "tag_number tag_urem = 15"
| "tag_number tag_fadd = 16"
| "tag_number tag_fsub = 17"
| "tag_number tag_fmul = 18"
| "tag_number tag_fdiv = 19"
| "tag_number tag_frem = 20"
| "tag_number tag_fneg = 21"
| "tag_number tag_op_and = 22"
| "tag_number tag_op_or = 23"
| "tag_number tag_op_xor = 24"
| "tag_number tag_zfit = 25"
| "tag_number tag_zext = 26"
| "tag_number tag_sext = 27"
| "tag_number tag_trunc = 28"
| "tag_number tag_fptrunc = 29"
| "tag_number tag_sitofp = 30"
| "tag_number tag_uitofp = 31"
| "tag_number tag_fptosi = 32"
| "tag_number tag_fptoui = 33"
| "tag_number tag_fpext = 34"
| "tag_number tag_inttoptr = 35"
| "tag_number tag_ptrtoint = 36"
| "tag_number tag_ne = 37"
| "tag_number tag_eq = 38"
| "tag_number tag_slt = 39"
| "tag_number tag_sgt = 40"
| "tag_number tag_sle = 41"
| "tag_number tag_sge = 42"
| "tag_number tag_ult = 43"
| "tag_number tag_ugt = 44"
| "tag_number tag_ule = 45"
| "tag_number tag_uge = 46"
| "tag_number tag_foeq = 47"
| "tag_number tag_fogt = 48"
| "tag_number tag_foge = 49"
| "tag_number tag_folt = 50"
| "tag_number tag_fole = 51"
| "tag_number tag_fone = 52"
| "tag_number tag_ford = 53"
| "tag_number tag_funo = 54"
| "tag_number tag_fueq = 55"
| "tag_number tag_fugt = 56"
| "tag_number tag_fuge = 57"
| "tag_number tag_fult = 58"
| "tag_number tag_fule = 59"
| "tag_number tag_fune = 60"
| "tag_number tag_ffalse = 61"
| "tag_number tag_ftrue = 62"
| "tag_number tag_shl = 63"
| "tag_number tag_lshr = 64"
| "tag_number tag_ashr = 65"
| "tag_number tag_concat = 66"
| "tag_number tag_extract = 67"
| "tag_number tag_malloc = 68"
| "tag_number tag_realloc = 69"
| "tag_number tag_dealloca = 70"
| "tag_number tag_free = 71"

definition all_tags :: "op_tag list" where
  "all_tags =
    [tag_unknown, tag_any, tag_lift, tag_lower, tag_join, tag_meet, tag_alloca, tag_store,
     tag_load, tag_add, tag_sub, tag_mul, tag_sdiv, tag_udiv, tag_srem, tag_urem, tag_fadd,
     tag_fsub, tag_fmul, tag_fdiv, tag_frem, tag_fneg, tag_op_and, tag_op_or, tag_op_xor,
     tag_zfit, tag_zext, tag_sext, tag_trunc, tag_fptrunc, tag_sitofp, tag_uitofp,
     tag_fptosi, tag_fptoui, tag_fpext, tag_inttoptr, tag_ptrtoint, tag_ne, tag_eq, tag_slt,
     tag_sgt, tag_sle, tag_sge, tag_ult, tag_ugt, tag_ule, tag_uge, tag_foeq, tag_fogt,
     tag_foge, tag_folt, tag_fole, tag_fone, tag_ford, tag_funo, tag_fueq, tag_fugt,
     tag_fuge, tag_fult, tag_fule, tag_fune, tag_ffalse, tag_ftrue, tag_shl, tag_lshr,
     tag_ashr, tag_concat, tag_extract, tag_malloc, tag_realloc, tag_dealloca, tag_free]"

lemma all_tags_number: "all_tags ! tag_number t = t"
  by (cases t) (simp_all add: all_tags_def)

lemma tag_number_inj: "tag_number t = tag_number u \<longleftrightarrow> t = u"
  by (metis all_tags_number)

text \<open>The enumerators are ordered by their numbers.\<close>

instantiation op_tag :: linorder
begin

definition less_eq_op_tag :: "op_tag \<Rightarrow> op_tag \<Rightarrow> bool" where
  "less_eq_op_tag t u \<longleftrightarrow> tag_number t \<le> tag_number u"

definition less_op_tag :: "op_tag \<Rightarrow> op_tag \<Rightarrow> bool" where
  "less_op_tag t u \<longleftrightarrow> tag_number t < tag_number u"

instance
  by standard (auto simp: less_eq_op_tag_def less_op_tag_def tag_number_inj)

end

section \<open>The methods of the tag domain\<close>

text \<open>
  The tag domain has one method for every operation, and the method of an operation returns the
  tag of that operation. The lists name the methods in the order of the source.
\<close>

definition optag_bin_tags :: "op_tag list" where
  "optag_bin_tags =
    [tag_add, tag_fadd, tag_sub, tag_fsub, tag_mul, tag_fmul, tag_udiv, tag_sdiv, tag_fdiv,
     tag_urem, tag_srem, tag_frem, tag_shl, tag_lshr, tag_ashr, tag_op_and, tag_op_or,
     tag_op_xor, tag_foeq, tag_fogt, tag_foge, tag_folt, tag_fole, tag_fone, tag_ford,
     tag_funo, tag_fueq, tag_fugt, tag_fuge, tag_fult, tag_fule, tag_fune, tag_eq, tag_ne,
     tag_ugt, tag_uge, tag_ult, tag_ule, tag_sgt, tag_sge, tag_slt, tag_sle, tag_ffalse,
     tag_ftrue]"

definition optag_cast_tags :: "op_tag list" where
  "optag_cast_tags =
    [tag_fpext, tag_fptosi, tag_fptoui, tag_fptrunc, tag_inttoptr, tag_ptrtoint, tag_sext,
     tag_sitofp, tag_trunc, tag_uitofp, tag_zext, tag_zfit]"

definition optag_bop_tags :: "op_tag list" where
  "optag_bop_tags =
    [tag_add, tag_sub, tag_mul, tag_sdiv, tag_udiv, tag_srem, tag_urem, tag_fadd, tag_fsub,
     tag_fmul, tag_fdiv, tag_frem, tag_shl, tag_ashr, tag_lshr, tag_op_and, tag_op_or,
     tag_op_xor, tag_eq, tag_ne, tag_ugt, tag_uge, tag_ult, tag_ule, tag_sgt, tag_sge,
     tag_slt, tag_sle, tag_foeq, tag_fogt, tag_foge, tag_folt, tag_fole, tag_ford, tag_funo,
     tag_fueq, tag_fugt, tag_fuge, tag_fult, tag_fule, tag_ffalse, tag_ftrue]"

definition optag_bun_tags :: "op_tag list" where
  "optag_bun_tags =
    [tag_trunc, tag_fptrunc, tag_sitofp, tag_uitofp, tag_zext, tag_zfit, tag_sext,
     tag_fpext, tag_fptosi, tag_fptoui]"

end
