(* ===== verification/Domain_Base.thy ===== *)
theory Domain_Base
  imports Tristate Op_Tag "HOL-Library.Signed_Division"
begin

text \<open>
  What every abstract domain has: the numbers of \<open>lava/include/lava/support/base.hpp\<close> with the
  dispatch over their widths, the default operations of \<open>domain_mixin\<close>, and the interface
  through which the templates of the library (\<open>product\<close>, \<open>with_history\<close>, \<open>relational\<close>) use a
  domain. A template parameter \<open>typename domain\<close> is a record of operations; the laws a domain
  promises are locales over such a record.
\<close>

section \<open>Numbers and their widths\<close>

text \<open>\<open>cast< s, w >\<close>: a conversion to \<open>bool\<close> tests for zero, the others reduce modulo \<open>2 ^ w\<close>.\<close>

definition number_cast :: "bool \<Rightarrow> nat \<Rightarrow> int \<Rightarrow> int" where
  "number_cast signedness w v =
    (if w = 1 then of_bool (v \<noteq> 0)
     else if signedness then (v + 2 ^ (w - 1)) mod 2 ^ w - 2 ^ (w - 1)
     else v mod 2 ^ w)"

definition number_min :: "bool \<Rightarrow> nat \<Rightarrow> int" where
  "number_min signedness w = (if w = 1 \<or> \<not> signedness then 0 else - (2 ^ (w - 1)))"

definition number_max :: "bool \<Rightarrow> nat \<Rightarrow> int" where
  "number_max signedness w =
    (if w = 1 then 1 else if signedness then 2 ^ (w - 1) - 1 else 2 ^ w - 1)"

text \<open>\<open>call\<close> instantiates a function at one of five widths; another width is unreachable.\<close>

definition number_call :: "bool \<Rightarrow> nat \<Rightarrow> (int list \<Rightarrow> 'a) \<Rightarrow> int list \<Rightarrow> 'a outcome" where
  "number_call signedness bw fn args =
    (if bw = 1 then Ret (fn (map (number_cast signedness 1) args))
     else if bw = 8 then Ret (fn (map (number_cast signedness 8) args))
     else if bw = 16 then Ret (fn (map (number_cast signedness 16) args))
     else if bw = 32 then Ret (fn (map (number_cast signedness 32) args))
     else if bw = 64 then Ret (fn (map (number_cast signedness 64) args))
     else Undef)"

definition callu :: "nat \<Rightarrow> (int list \<Rightarrow> 'a) \<Rightarrow> int list \<Rightarrow> 'a outcome" where
  "callu bw fn args = number_call False bw fn args"

definition calls :: "nat \<Rightarrow> (int list \<Rightarrow> 'a) \<Rightarrow> int list \<Rightarrow> 'a outcome" where
  "calls bw fn args = number_call True bw fn args"

lemma number_cast_range:
  assumes "0 < w"
  shows "number_min signedness w \<le> number_cast signedness w v"
    and "number_cast signedness w v \<le> number_max signedness w"
proof -
  have pos: "(0::int) < 2 ^ w" by simp
  have half: "(2::int) ^ w = 2 * 2 ^ (w - 1)"
    using assms by (cases w) auto
  show "number_min signedness w \<le> number_cast signedness w v"
    using pos_mod_sign [OF pos, of "v + 2 ^ (w - 1)"] pos_mod_sign [OF pos, of v]
    by (auto simp: number_min_def number_cast_def)
  show "number_cast signedness w v \<le> number_max signedness w"
    using pos_mod_bound [OF pos, of "v + 2 ^ (w - 1)"] pos_mod_bound [OF pos, of v] half
    by (auto simp: number_max_def number_cast_def)
qed

lemma number_cast_idem:
  assumes "number_min signedness w \<le> v" and "v \<le> number_max signedness w" and "0 < w"
  shows "number_cast signedness w v = v"
proof -
  have half: "(2::int) ^ w = 2 * 2 ^ (w - 1)"
    using assms(3) by (cases w) auto
  show ?thesis
    using assms half
    by (auto simp: number_min_def number_max_def number_cast_def mod_pos_pos_trivial
        split: if_splits)
qed

lemma number_cast_congruent: "w \<noteq> 1 \<Longrightarrow> number_cast signedness w v mod 2 ^ w = v mod 2 ^ w"
  by (auto simp: number_cast_def mod_diff_left_eq)

lemma number_call_defined:
  "bw \<in> {1, 8, 16, 32, 64} \<Longrightarrow>
    number_call signedness bw fn args = Ret (fn (map (number_cast signedness bw) args))"
  by (auto simp: number_call_def)

section \<open>Values that are lifted\<close>

text \<open>The arguments of \<open>lift\<close>: the C type decides which branch of \<open>if constexpr\<close> is compiled.\<close>

datatype c_value =
    c_bool bool
  | c_int bool nat int
  | c_float
  | c_array nat nat
  | c_pointer nat

datatype lift_entry = lift_i1 | lift_i8 | lift_i16 | lift_i32 | lift_i64
  | lift_si8 | lift_si16 | lift_si32 | lift_si64

definition lift_argument :: "lift_entry \<Rightarrow> int \<Rightarrow> c_value" where
  "lift_argument e v =
    (case e of lift_i1 \<Rightarrow> c_bool (v \<noteq> 0)
     | lift_i8 \<Rightarrow> c_int False 8 (number_cast False 8 v)
     | lift_i16 \<Rightarrow> c_int False 16 (number_cast False 16 v)
     | lift_i32 \<Rightarrow> c_int False 32 (number_cast False 32 v)
     | lift_i64 \<Rightarrow> c_int False 64 (number_cast False 64 v)
     | lift_si8 \<Rightarrow> c_int True 8 (number_cast True 8 v)
     | lift_si16 \<Rightarrow> c_int True 16 (number_cast True 16 v)
     | lift_si32 \<Rightarrow> c_int True 32 (number_cast True 32 v)
     | lift_si64 \<Rightarrow> c_int True 64 (number_cast True 64 v))"

text \<open>The number a C value stands for, when it is one.\<close>

fun c_number :: "c_value \<Rightarrow> int option" where
  "c_number (c_bool b) = Some (of_bool b)"
| "c_number (c_int s w v) = Some v"
| "c_number (c_pointer p) = Some (int p)"
| "c_number c_float = None"
| "c_number (c_array b n) = None"

section \<open>The default operations\<close>

definition mixin_bin_tags :: "op_tag list" where
  "mixin_bin_tags =
    [tag_join, tag_meet, tag_add, tag_sub, tag_mul, tag_sdiv, tag_udiv, tag_srem, tag_urem,
     tag_fadd, tag_fsub, tag_fmul, tag_fdiv, tag_frem, tag_shl, tag_ashr, tag_lshr,
     tag_op_and, tag_op_or, tag_op_xor, tag_eq, tag_ne, tag_ugt, tag_uge, tag_ult, tag_ule,
     tag_sgt, tag_sge, tag_slt, tag_sle, tag_foeq, tag_fogt, tag_foge, tag_folt, tag_fole,
     tag_fone, tag_ford, tag_funo, tag_fueq, tag_fugt, tag_fuge, tag_fult, tag_fule,
     tag_fune, tag_ffalse, tag_ftrue, tag_concat]"

definition mixin_cast_tags :: "op_tag list" where
  "mixin_cast_tags =
    [tag_trunc, tag_fptrunc, tag_sitofp, tag_uitofp, tag_zext, tag_zfit, tag_sext,
     tag_fpext, tag_fptosi, tag_fptoui, tag_load]"

definition mixin_bop_tags :: "op_tag list" where
  "mixin_bop_tags =
    [tag_add, tag_sub, tag_mul, tag_sdiv, tag_udiv, tag_srem, tag_urem, tag_fadd, tag_fsub,
     tag_fmul, tag_fdiv, tag_frem, tag_shl, tag_ashr, tag_lshr, tag_op_and, tag_op_or,
     tag_op_xor, tag_eq, tag_ne, tag_ugt, tag_uge, tag_ult, tag_ule, tag_sgt, tag_sge,
     tag_slt, tag_sle, tag_foeq, tag_fogt, tag_foge, tag_folt, tag_fole, tag_fone, tag_ford,
     tag_funo, tag_fueq, tag_fugt, tag_fuge, tag_fult, tag_fule, tag_fune, tag_ffalse,
     tag_ftrue, tag_concat]"

definition mixin_bun_tags :: "op_tag list" where
  "mixin_bun_tags =
    [tag_trunc, tag_fptrunc, tag_sitofp, tag_uitofp, tag_zext, tag_zfit, tag_sext,
     tag_fpext, tag_fptosi, tag_fptoui]"

text \<open>The word a default operation is reported with is the name of the operation.\<close>

definition mixin_name :: "op_tag \<Rightarrow> string" where
  "mixin_name t = (if t = tag_op_and then ''and'' else if t = tag_op_or then ''or''
                   else if t = tag_op_xor then ''xor'' else op_to_string t)"

text \<open>A tag that names no method of the mixin has no call: the program does not compile.\<close>

definition mixin_bin :: "op_tag \<Rightarrow> 'v \<Rightarrow> 'v \<Rightarrow> 'v outcome" where
  "mixin_bin t a b = (if t \<in> set mixin_bin_tags then Fault (mixin_name t) else Undef)"

definition mixin_cast :: "op_tag \<Rightarrow> 'v \<Rightarrow> nat \<Rightarrow> 'v outcome" where
  "mixin_cast t a bw = (if t \<in> set mixin_cast_tags then Fault (mixin_name t) else Undef)"

text \<open>
  A backward operation refines the operands of an operation from its result. It works in place,
  on cells that other values may share, so it acts on a store of values; the default one prints
  a warning and changes nothing.
\<close>

type_synonym 'v store = "nat \<Rightarrow> 'v"

definition mixin_bop :: "op_tag \<Rightarrow> nat \<Rightarrow> nat \<Rightarrow> nat \<Rightarrow> 'v store \<Rightarrow> 'v store run" where
  "mixin_bop t r a b s = (if t \<in> set mixin_bop_tags then rret s else [Undef])"

definition mixin_bun :: "op_tag \<Rightarrow> nat \<Rightarrow> nat \<Rightarrow> 'v store \<Rightarrow> 'v store run" where
  "mixin_bun t r a s = (if t \<in> set mixin_bun_tags then rret s else [Undef])"

section \<open>A domain as a template parameter\<close>

record 'v domain =
  dom_lift :: "c_value \<Rightarrow> 'v outcome"
  dom_any :: "'v outcome"
  dom_any_range :: "int \<Rightarrow> int \<Rightarrow> 'v outcome"
  dom_assume :: "'v \<Rightarrow> bool \<Rightarrow> 'v outcome"
  dom_to_tristate :: "'v \<Rightarrow> tristate outcome"
  dom_bin :: "op_tag \<Rightarrow> 'v \<Rightarrow> 'v \<Rightarrow> 'v outcome"
  dom_cast :: "op_tag \<Rightarrow> 'v \<Rightarrow> nat \<Rightarrow> 'v outcome"
  dom_bop :: "op_tag \<Rightarrow> nat \<Rightarrow> nat \<Rightarrow> nat \<Rightarrow> 'v store \<Rightarrow> 'v store run"
  dom_bun :: "op_tag \<Rightarrow> nat \<Rightarrow> nat \<Rightarrow> 'v store \<Rightarrow> 'v store run"

text \<open>
  The branch that the instrumentation leaves in the program: the condition is turned into a
  three-valued boolean and lowered (\<open>__lamp_to_i1\<close>), and the edge that is taken assumes it.
\<close>

definition branch_on :: "'v domain \<Rightarrow> 'v \<Rightarrow> (bool \<times> 'v) run" where
  "branch_on D a =
    rbind [dom_to_tristate D a] (\<lambda>t. rbind (tri_lower t) (\<lambda>c. [omap (Pair c) (dom_assume D a c)]))"

section \<open>Concrete operations\<close>

text \<open>
  The numbers the program computes with, as unbounded integers: the signed reading of the
  operations that have one. The result is absent where the language defines none.
\<close>

definition conc_int :: "op_tag \<Rightarrow> int \<Rightarrow> int \<Rightarrow> int option" where
  "conc_int t x y =
    (if t = tag_add then Some (x + y) else if t = tag_sub then Some (x - y)
     else if t = tag_mul then Some (x * y)
     else if t = tag_sdiv then (if y = 0 then None else Some (x sdiv y))
     else if t = tag_srem then (if y = 0 then None else Some (x smod y))
     else if t = tag_eq then Some (of_bool (x = y)) else if t = tag_ne then Some (of_bool (x \<noteq> y))
     else if t = tag_slt then Some (of_bool (x < y)) else if t = tag_sgt then Some (of_bool (x > y))
     else if t = tag_sle then Some (of_bool (x \<le> y)) else if t = tag_sge then Some (of_bool (x \<ge> y))
     else None)"

section \<open>Contracts\<close>

text \<open>Forward operations: the abstract result describes the concrete one.\<close>

locale forward_sound =
  fixes D :: "'v domain" and gamma :: "'v \<Rightarrow> 'c set"
    and conc :: "op_tag \<Rightarrow> 'c \<Rightarrow> 'c \<Rightarrow> 'c option" and ops :: "op_tag set"
  assumes bin_sound:
    "\<lbrakk>t \<in> ops; x \<in> gamma a; y \<in> gamma b; conc t x y = Some z\<rbrakk>
      \<Longrightarrow> osound (dom_bin D t a b) (\<lambda>c. z \<in> gamma c)"

text \<open>Branching: the condition's truth value is foreseen, and assuming it keeps the value.\<close>

locale branch_sound =
  fixes D :: "'v domain" and gamma :: "'v \<Rightarrow> 'c set" and truth :: "'c \<Rightarrow> bool"
  assumes tristate_sound:
      "x \<in> gamma a \<Longrightarrow> osound (dom_to_tristate D a) (\<lambda>t. truth x \<in> tri_gamma t)"
    and assume_sound:
      "x \<in> gamma a \<Longrightarrow> osound (dom_assume D a (truth x)) (\<lambda>b. x \<in> gamma b)"
begin

lemma branch_on_sound:
  assumes "x \<in> gamma a"
  shows "rsound (branch_on D a) (\<lambda>(c, b). c = truth x \<and> x \<in> gamma b)"
  unfolding branch_on_def
proof (rule rsound_rbind)
  show "rsound [dom_to_tristate D a] (\<lambda>t. truth x \<in> tri_gamma t)"
    using tristate_sound [OF assms] by simp
  fix t assume t: "truth x \<in> tri_gamma t"
  show "rsound (rbind (tri_lower t) (\<lambda>c. [omap (Pair c) (dom_assume D a c)]))
         (\<lambda>(c, b). c = truth x \<and> x \<in> gamma b)"
    by (rule rsound_rbind [OF tri_lower_exhaustive [OF t]])
       (use assume_sound [OF assms] in \<open>simp add: osound_omap\<close>)
qed

end

text \<open>
  Backward operations: a valuation of the cells that obeys the operation is kept. Whether the two
  operands may be one cell (\<open>shared\<close>) is a question of each domain.
\<close>

definition store_holds :: "('v \<Rightarrow> 'c set) \<Rightarrow> 'v store \<Rightarrow> (nat \<Rightarrow> 'c) \<Rightarrow> bool" where
  "store_holds gamma s \<sigma> \<longleftrightarrow> (\<forall>i. \<sigma> i \<in> gamma (s i))"

locale backward_sound =
  fixes D :: "'v domain" and gamma :: "'v \<Rightarrow> 'c set"
    and conc :: "op_tag \<Rightarrow> 'c \<Rightarrow> 'c \<Rightarrow> 'c option" and bops :: "op_tag set" and shared :: bool
  assumes bop_sound:
    "\<lbrakk>t \<in> bops; store_holds gamma s \<sigma>; conc t (\<sigma> a) (\<sigma> b) = Some (\<sigma> r);
      a \<noteq> b \<or> shared; r \<noteq> a; r \<noteq> b\<rbrakk>
      \<Longrightarrow> rsound (dom_bop D t r a b s) (\<lambda>s'. store_holds gamma s' \<sigma>)"

lemma store_holdsI: "(\<And>i. \<sigma> i \<in> gamma (s i)) \<Longrightarrow> store_holds gamma s \<sigma>"
  by (simp add: store_holds_def)

lemma store_holdsD: "store_holds gamma s \<sigma> \<Longrightarrow> \<sigma> i \<in> gamma (s i)"
  by (simp add: store_holds_def)

lemma store_holds_upd:
  "store_holds gamma s \<sigma> \<Longrightarrow> \<sigma> a \<in> gamma v \<Longrightarrow> store_holds gamma (s(a := v)) \<sigma>"
  by (simp add: store_holds_def)

lemma mixin_bop_sound:
  "t \<in> set mixin_bop_tags \<Longrightarrow> store_holds gamma s \<sigma> \<Longrightarrow>
    rsound (mixin_bop t r a b s) (\<lambda>s'. store_holds gamma s' \<sigma>)"
  by (simp add: mixin_bop_def)

section \<open>Properties\<close>

text \<open>
  The conversion of a lifted number to a width other than one bit is the two-complement (or
  unsigned) reading: the result is the only number in the range of the type that is congruent to
  the argument modulo two to the width.
\<close>

theorem number_cast_unique:
  assumes "1 < w"
  shows "(number_min sgnd w \<le> u \<and> u \<le> number_max sgnd w \<and> u mod 2 ^ w = v mod 2 ^ w) = (u = number_cast sgnd w v)"
proof
  assume u: "number_min sgnd w \<le> u \<and> u \<le> number_max sgnd w \<and> u mod 2 ^ w = v mod 2 ^ w"
  then have "number_cast sgnd w u = number_cast sgnd w v"
    using assms mod_add_cong [of u "2 ^ w" v "2 ^ (w - 1)" "2 ^ (w - 1)"] by (simp add: number_cast_def)
  with u assms show "u = number_cast sgnd w v"
    using number_cast_idem [of sgnd w u] by simp
next
  assume "u = number_cast sgnd w v"
  with assms show "number_min sgnd w \<le> u \<and> u \<le> number_max sgnd w \<and> u mod 2 ^ w = v mod 2 ^ w"
    using number_cast_range [of w sgnd v] number_cast_congruent [of w sgnd v] by simp
qed

end
