(* ===== verification/Trivial_Domains.thy ===== *)
theory Trivial_Domains
  imports Domain_Base
begin

text \<open>
  The domains that know nothing: \<open>lava/include/lava/unit.hpp\<close> (one value), the placeholder
  \<open>bitvec_interval.hpp\<close> (every operation returns the default value), \<open>empty.hpp\<close> (the minimal
  example, all of whose operations are the defaults of the mixin), and the tag domain of
  \<open>support/op.hpp\<close>. Their branches are always explored both ways.
\<close>

section \<open>The unit domain\<close>

text \<open>Its value carries no data; \<open>()\<close> stands for the empty structure.\<close>

definition unit_bin_tags :: "op_tag list" where
  "unit_bin_tags =
    [tag_add, tag_fadd, tag_sub, tag_fsub, tag_mul, tag_fmul, tag_udiv, tag_sdiv, tag_fdiv,
     tag_urem, tag_srem, tag_frem, tag_shl, tag_lshr, tag_ashr, tag_op_and, tag_op_or,
     tag_op_xor, tag_foeq, tag_fogt, tag_foge, tag_folt, tag_fole, tag_fone, tag_ford,
     tag_funo, tag_fueq, tag_fugt, tag_fuge, tag_fult, tag_fule, tag_fune, tag_eq, tag_ne,
     tag_ugt, tag_uge, tag_ult, tag_ule, tag_sgt, tag_sge, tag_slt, tag_sle, tag_ffalse,
     tag_ftrue]"

definition unit_cast_tags :: "op_tag list" where
  "unit_cast_tags =
    [tag_fpext, tag_fptosi, tag_fptoui, tag_fptrunc, tag_inttoptr, tag_ptrtoint, tag_sext,
     tag_sitofp, tag_trunc, tag_uitofp, tag_zext, tag_zfit, tag_load]"

definition unit_bin :: "op_tag \<Rightarrow> unit \<Rightarrow> unit \<Rightarrow> unit outcome" where
  "unit_bin t a b = (if t \<in> set unit_bin_tags then Ret () else mixin_bin t a b)"

definition unit_cast :: "op_tag \<Rightarrow> unit \<Rightarrow> nat \<Rightarrow> unit outcome" where
  "unit_cast t a bw = (if t \<in> set unit_cast_tags then Ret () else mixin_cast t a bw)"

definition unit_domain :: "unit domain" where
  "unit_domain =
    \<lparr>dom_lift = (\<lambda>v. Ret ()), dom_any = Ret (), dom_any_range = (\<lambda>lo hi. Ret ()),
     dom_assume = (\<lambda>a c. Ret a), dom_to_tristate = (\<lambda>a. Ret maybe_value),
     dom_bin = unit_bin, dom_cast = unit_cast, dom_bop = mixin_bop, dom_bun = mixin_bun\<rparr>"

section \<open>The placeholder of the bit-vector intervals\<close>

record bitvec_interval =
  bvi_left :: nat
  bvi_right :: nat
  bvi_bw :: nat
  bvi_signed :: bool

definition bvi_default :: bitvec_interval where
  "bvi_default = \<lparr>bvi_left = 0, bvi_right = 0, bvi_bw = 0, bvi_signed = False\<rparr>"

definition bvi_bin_tags :: "op_tag list" where
  "bvi_bin_tags =
    [tag_add, tag_fadd, tag_sub, tag_fsub, tag_mul, tag_fmul, tag_udiv, tag_sdiv, tag_fdiv,
     tag_urem, tag_srem, tag_frem, tag_shl, tag_lshr, tag_ashr, tag_op_and, tag_op_or,
     tag_op_xor, tag_foeq, tag_fogt, tag_foge, tag_folt, tag_fole, tag_fone, tag_ford,
     tag_funo, tag_fueq, tag_fugt, tag_fuge, tag_fult, tag_fule, tag_fune, tag_eq, tag_ne,
     tag_ugt, tag_uge, tag_ult, tag_ule, tag_sgt, tag_sge, tag_slt, tag_sle, tag_ffalse,
     tag_ftrue]"

definition bvi_cast_tags :: "op_tag list" where
  "bvi_cast_tags =
    [tag_fpext, tag_fptosi, tag_fptoui, tag_fptrunc, tag_inttoptr, tag_ptrtoint, tag_sext,
     tag_sitofp, tag_trunc, tag_uitofp, tag_zext, tag_zfit, tag_load]"

definition bvi_bin ::
  "op_tag \<Rightarrow> bitvec_interval \<Rightarrow> bitvec_interval \<Rightarrow> bitvec_interval outcome" where
  "bvi_bin t a b = (if t \<in> set bvi_bin_tags then Ret bvi_default else mixin_bin t a b)"

definition bvi_cast :: "op_tag \<Rightarrow> bitvec_interval \<Rightarrow> nat \<Rightarrow> bitvec_interval outcome" where
  "bvi_cast t a bw = (if t \<in> set bvi_cast_tags then Ret bvi_default else mixin_cast t a bw)"

definition bvi_domain :: "bitvec_interval domain" where
  "bvi_domain =
    \<lparr>dom_lift = (\<lambda>v. Ret bvi_default), dom_any = Ret bvi_default,
     dom_any_range = (\<lambda>lo hi. Ret bvi_default),
     dom_assume = (\<lambda>a c. Ret a), dom_to_tristate = (\<lambda>a. Ret maybe_value),
     dom_bin = bvi_bin, dom_cast = bvi_cast, dom_bop = mixin_bop, dom_bun = mixin_bun\<rparr>"

section \<open>The minimal domain\<close>

definition empty_domain :: "unit domain" where
  "empty_domain =
    \<lparr>dom_lift = (\<lambda>v. Ret ()), dom_any = Ret (), dom_any_range = (\<lambda>lo hi. Ret ()),
     dom_assume = (\<lambda>a c. Ret a), dom_to_tristate = (\<lambda>a. Ret maybe_value),
     dom_bin = mixin_bin, dom_cast = mixin_cast, dom_bop = mixin_bop, dom_bun = mixin_bun\<rparr>"

section \<open>The tag domain\<close>

definition optag_bin :: "op_tag \<Rightarrow> op_tag \<Rightarrow> op_tag \<Rightarrow> op_tag outcome" where
  "optag_bin t a b = (if t \<in> set optag_bin_tags then Ret t else mixin_bin t a b)"

definition optag_cast :: "op_tag \<Rightarrow> op_tag \<Rightarrow> nat \<Rightarrow> op_tag outcome" where
  "optag_cast t a bw = (if t \<in> set optag_cast_tags then Ret t else mixin_cast t a bw)"

definition optag_bop :: "op_tag \<Rightarrow> nat \<Rightarrow> nat \<Rightarrow> nat \<Rightarrow> op_tag store \<Rightarrow> op_tag store run" where
  "optag_bop t r a b s = (if t \<in> set optag_bop_tags then rret s else mixin_bop t r a b s)"

definition optag_bun :: "op_tag \<Rightarrow> nat \<Rightarrow> nat \<Rightarrow> op_tag store \<Rightarrow> op_tag store run" where
  "optag_bun t r a s = (if t \<in> set optag_bun_tags then rret s else mixin_bun t r a s)"

definition optag_domain :: "op_tag domain" where
  "optag_domain =
    \<lparr>dom_lift = (\<lambda>v. Ret tag_lift), dom_any = Ret tag_any, dom_any_range = (\<lambda>lo hi. Ret tag_any),
     dom_assume = (\<lambda>a c. Ret a), dom_to_tristate = (\<lambda>a. Fault ''unsupported''),
     dom_bin = optag_bin, dom_cast = optag_cast, dom_bop = optag_bop, dom_bun = optag_bun\<rparr>"

section \<open>The contracts\<close>

text \<open>A domain whose values stand for everything keeps every contract that it answers.\<close>


interpretation un: forward_sound unit_domain "\<lambda>_. UNIV" conc_int UNIV
  by unfold_locales
     (auto simp: unit_domain_def unit_bin_def unit_bin_tags_def conc_int_def split: if_splits)

interpretation un_branch: branch_sound unit_domain "\<lambda>_. UNIV" "\<lambda>x :: int. x \<noteq> 0"
  by unfold_locales (auto simp: unit_domain_def)

interpretation bvi: forward_sound bvi_domain "\<lambda>_. UNIV" conc_int UNIV
  by unfold_locales
     (auto simp: bvi_domain_def bvi_bin_def bvi_bin_tags_def conc_int_def split: if_splits)

interpretation bvi_branch: branch_sound bvi_domain "\<lambda>_. UNIV" "\<lambda>x :: int. x \<noteq> 0"
  by unfold_locales (auto simp: bvi_domain_def)

interpretation ot: forward_sound optag_domain "\<lambda>_. UNIV" conc_int UNIV
  by unfold_locales
     (auto simp: optag_domain_def optag_bin_def optag_bin_tags_def conc_int_def split: if_splits)

text \<open>The branch of the tag domain alone cannot be taken: its condition has no truth value.\<close>

lemma optag_branch: "branch_on optag_domain a = [Fault ''unsupported'']"
  by (simp add: branch_on_def optag_domain_def)

text \<open>The tag domain keeps the last operation.\<close>

lemma optag_bin_tag: "optag_bin t a b = Ret c \<Longrightarrow> c = t"
  by (auto simp: optag_bin_def mixin_bin_def split: if_splits)

lemma optag_cast_tag: "optag_cast t a bw = Ret c \<Longrightarrow> c = t"
  by (auto simp: optag_cast_def mixin_cast_def split: if_splits)

end
