(* ===== verification/Product_Domain.thy ===== *)
theory Product_Domain
  imports Trivial_Domains
begin

text \<open>
  The product of two domains, \<open>lava/include/lava/support/product.hpp\<close>: a function from the records
  of the components to the record of the product. Every operation is done on the first component
  and then on the second one. A product with the tag domain is what \<open>relational.hpp\<close> calls
  \<open>tagged\<close>.
\<close>

section \<open>Definitions\<close>

datatype tristate_strategy = to_tristate_first | to_tristate_second | to_tristate_disabled

definition default_product_config :: tristate_strategy where
  "default_product_config = to_tristate_disabled"

definition product_bin_tags :: "op_tag list" where
  "product_bin_tags =
    [tag_join, tag_meet, tag_add, tag_sub, tag_mul, tag_sdiv, tag_udiv, tag_srem, tag_urem,
     tag_fadd, tag_fsub, tag_fmul, tag_fdiv, tag_frem, tag_shl, tag_ashr, tag_lshr,
     tag_op_and, tag_op_or, tag_op_xor, tag_eq, tag_ne, tag_ugt, tag_uge, tag_ult, tag_ule,
     tag_sgt, tag_sge, tag_slt, tag_sle, tag_foeq, tag_fogt, tag_foge, tag_folt, tag_fole,
     tag_fone, tag_ford, tag_funo, tag_fueq, tag_fugt, tag_fuge, tag_fult, tag_fule,
     tag_fune, tag_ffalse, tag_ftrue, tag_concat]"

definition product_cast_tags :: "op_tag list" where
  "product_cast_tags =
    [tag_trunc, tag_fptrunc, tag_sitofp, tag_uitofp, tag_zext, tag_zfit, tag_sext,
     tag_fpext, tag_fptosi, tag_fptoui, tag_load]"

definition product_bop_tags :: "op_tag list" where
  "product_bop_tags =
    [tag_add, tag_sub, tag_mul, tag_sdiv, tag_udiv, tag_srem, tag_urem, tag_fadd, tag_fsub,
     tag_fmul, tag_fdiv, tag_frem, tag_shl, tag_ashr, tag_lshr, tag_op_and, tag_op_or,
     tag_op_xor, tag_eq, tag_ne, tag_ugt, tag_uge, tag_ult, tag_ule, tag_sgt, tag_sge,
     tag_slt, tag_sle, tag_foeq, tag_fogt, tag_foge, tag_folt, tag_fole, tag_ford, tag_funo,
     tag_fueq, tag_fugt, tag_fuge, tag_fult, tag_fule, tag_ffalse, tag_ftrue]"

definition product_bun_tags :: "op_tag list" where
  "product_bun_tags =
    [tag_trunc, tag_fptrunc, tag_sitofp, tag_uitofp, tag_zext, tag_zfit, tag_sext,
     tag_fpext, tag_fptosi, tag_fptoui]"

definition product_to_tristate ::
  "tristate_strategy \<Rightarrow> 'a domain \<Rightarrow> 'b domain \<Rightarrow> 'a \<times> 'b \<Rightarrow> tristate outcome" where
  "product_to_tristate cfg A B v =
    (case cfg of to_tristate_first \<Rightarrow> dom_to_tristate A (fst v)
     | to_tristate_second \<Rightarrow> dom_to_tristate B (snd v)
     | to_tristate_disabled \<Rightarrow> Fault ''to_tristate is disabled'')"

text \<open>Both components, evaluated in order.\<close>

definition both :: "'a outcome \<Rightarrow> 'b outcome \<Rightarrow> ('a \<times> 'b) outcome" where
  "both m n = obind m (\<lambda>a. omap (Pair a) n)"

definition product_bin ::
  "'a domain \<Rightarrow> 'b domain \<Rightarrow> op_tag \<Rightarrow> 'a \<times> 'b \<Rightarrow> 'a \<times> 'b \<Rightarrow> ('a \<times> 'b) outcome" where
  "product_bin A B t a b =
    (if t \<in> set product_bin_tags
     then both (dom_bin A t (fst a) (fst b)) (dom_bin B t (snd a) (snd b))
     else mixin_bin t a b)"

definition product_cast ::
  "'a domain \<Rightarrow> 'b domain \<Rightarrow> op_tag \<Rightarrow> 'a \<times> 'b \<Rightarrow> nat \<Rightarrow> ('a \<times> 'b) outcome" where
  "product_cast A B t a bw =
    (if t \<in> set product_cast_tags
     then both (dom_cast A t (fst a) bw) (dom_cast B t (snd a) bw)
     else mixin_cast t a bw)"

definition product_assume :: "'a domain \<Rightarrow> 'b domain \<Rightarrow> 'a \<times> 'b \<Rightarrow> bool \<Rightarrow> ('a \<times> 'b) outcome" where
  "product_assume A B a c = both (dom_assume A (fst a) c) (dom_assume B (snd a) c)"

text \<open>The backward operations run on the first components of the cells, then on the second ones.\<close>

definition both_stores ::
  "('a store \<Rightarrow> 'a store run) \<Rightarrow> ('b store \<Rightarrow> 'b store run) \<Rightarrow> ('a \<times> 'b) store \<Rightarrow> ('a \<times> 'b) store run" where
  "both_stores f g s =
    rbind (f (\<lambda>i. fst (s i))) (\<lambda>s1.
    rbind (g (\<lambda>i. snd (s i))) (\<lambda>s2. rret (\<lambda>i. (s1 i, s2 i))))"

definition product_bop ::
  "'a domain \<Rightarrow> 'b domain \<Rightarrow> op_tag \<Rightarrow> nat \<Rightarrow> nat \<Rightarrow> nat \<Rightarrow> ('a \<times> 'b) store \<Rightarrow> ('a \<times> 'b) store run" where
  "product_bop A B t r a b s =
    (if t \<in> set product_bop_tags
     then both_stores (dom_bop A t r a b) (dom_bop B t r a b) s
     else mixin_bop t r a b s)"

definition product_bun ::
  "'a domain \<Rightarrow> 'b domain \<Rightarrow> op_tag \<Rightarrow> nat \<Rightarrow> nat \<Rightarrow> ('a \<times> 'b) store \<Rightarrow> ('a \<times> 'b) store run" where
  "product_bun A B t r a s =
    (if t \<in> set product_bun_tags
     then both_stores (dom_bun A t r a) (dom_bun B t r a) s
     else mixin_bun t r a s)"

definition product_domain ::
  "tristate_strategy \<Rightarrow> 'a domain \<Rightarrow> 'b domain \<Rightarrow> ('a \<times> 'b) domain" where
  "product_domain cfg A B =
    \<lparr>dom_lift = (\<lambda>v. both (dom_lift A v) (dom_lift B v)),
     dom_any = both (dom_any A) (dom_any B),
     dom_any_range = (\<lambda>lo hi. both (dom_any_range A lo hi) (dom_any_range B lo hi)),
     dom_assume = product_assume A B,
     dom_to_tristate = product_to_tristate cfg A B,
     dom_bin = product_bin A B, dom_cast = product_cast A B,
     dom_bop = product_bop A B, dom_bun = product_bun A B\<rparr>"

text \<open>\<open>relational.hpp\<close>: a domain tagged with the operation that made the value.\<close>

definition tagged_domain :: "'d domain \<Rightarrow> ('d \<times> op_tag) domain" where
  "tagged_domain D = product_domain to_tristate_first D optag_domain"

section \<open>The contract of a product\<close>

definition product_gamma :: "('a \<Rightarrow> 'c set) \<Rightarrow> ('b \<Rightarrow> 'c set) \<Rightarrow> 'a \<times> 'b \<Rightarrow> 'c set" where
  "product_gamma gA gB p = gA (fst p) \<inter> gB (snd p)"

lemma osound_both:
  "osound m (\<lambda>a. x \<in> gA a) \<Longrightarrow> osound n (\<lambda>b. x \<in> gB b) \<Longrightarrow>
    osound (both m n) (\<lambda>p. x \<in> product_gamma gA gB p)"
  by (cases m; cases n) (auto simp: both_def product_gamma_def)

locale product_sound =
  left: forward_sound A gA conc ops + right: forward_sound B gB conc ops
  for A :: "'a domain" and gA :: "'a \<Rightarrow> 'c set" and B :: "'b domain" and gB :: "'b \<Rightarrow> 'c set"
    and conc ops +
  fixes cfg :: tristate_strategy
  assumes in_product: "t \<in> ops \<Longrightarrow> conc t x y = Some z \<Longrightarrow> t \<in> set product_bin_tags"

sublocale product_sound \<subseteq> prod: forward_sound "product_domain cfg A B" "product_gamma gA gB" conc ops
proof
  fix t a b x y z
  assume t: "t \<in> ops" and x: "x \<in> product_gamma gA gB a" and y: "y \<in> product_gamma gA gB b"
    and z: "conc t x y = Some z"
  have "osound (dom_bin A t (fst a) (fst b)) (\<lambda>c. z \<in> gA c)"
    using left.bin_sound [OF t _ _ z] x y by (simp add: product_gamma_def)
  moreover have "osound (dom_bin B t (snd a) (snd b)) (\<lambda>c. z \<in> gB c)"
    using right.bin_sound [OF t _ _ z] x y by (simp add: product_gamma_def)
  ultimately show "osound (dom_bin (product_domain cfg A B) t a b) (\<lambda>c. z \<in> product_gamma gA gB c)"
    using in_product [OF t z] by (simp add: product_domain_def product_bin_def osound_both)
qed

text \<open>The tag domain keeps the contract of every operation it has a tag for.\<close>

lemma optag_forward_sound:
  assumes "\<And>t x y z. conc t x y = Some z \<Longrightarrow> t \<in> set optag_bin_tags"
  shows "forward_sound optag_domain (\<lambda>_. UNIV) conc ops"
  by unfold_locales (use assms in \<open>auto simp: optag_domain_def optag_bin_def\<close>)

text \<open>The tag of a tagged result is the operation, and the value is the domain's.\<close>

lemma tagged_bin:
  assumes "t \<in> set optag_bin_tags"
  shows "dom_bin (tagged_domain D) t a b = omap (\<lambda>c. (c, t)) (dom_bin D t (fst a) (fst b))"
proof -
  have "t \<in> set product_bin_tags"
    using assms by (auto simp: optag_bin_tags_def product_bin_tags_def)
  then show ?thesis
    using assms
    by (cases "dom_bin D t (fst a) (fst b)")
       (simp_all add: tagged_domain_def product_domain_def product_bin_def both_def optag_domain_def
         optag_bin_def)
qed

text \<open>A backward operation of a tagged domain changes the values and no tag.\<close>

lemma both_stores_rret:
  "(\<And>s. g s = rret s) \<Longrightarrow>
    both_stores f g s = rbind (f (\<lambda>i. fst (s i))) (\<lambda>s1. rret (\<lambda>i. (s1 i, snd (s i))))"
  by (simp add: both_stores_def)

lemma optag_bop_noop: "t \<in> set product_bop_tags \<Longrightarrow> optag_bop t r a b s = rret s"
  by (auto simp: optag_bop_def product_bop_tags_def optag_bop_tags_def)

lemma optag_bun_noop: "t \<in> set product_bun_tags \<Longrightarrow> optag_bun t r a s = rret s"
  by (auto simp: optag_bun_def product_bun_tags_def optag_bun_tags_def)

lemma tagged_bop:
  "t \<in> set product_bop_tags \<Longrightarrow> dom_bop (tagged_domain D) t r a b s =
    rbind (dom_bop D t r a b (\<lambda>i. fst (s i))) (\<lambda>s1. rret (\<lambda>i. (s1 i, snd (s i))))"
  by (simp add: tagged_domain_def product_domain_def product_bop_def optag_domain_def
      both_stores_rret optag_bop_noop)

lemma tagged_bun:
  "t \<in> set product_bun_tags \<Longrightarrow> dom_bun (tagged_domain D) t r a s =
    rbind (dom_bun D t r a (\<lambda>i. fst (s i))) (\<lambda>s1. rret (\<lambda>i. (s1 i, snd (s i))))"
  by (simp add: tagged_domain_def product_domain_def product_bun_def optag_domain_def
      both_stores_rret optag_bun_noop)

lemma tagged_assume:
  "dom_assume (tagged_domain D) a c = omap (\<lambda>v. (v, snd a)) (dom_assume D (fst a) c)"
  by (cases "dom_assume D (fst a) c")
     (simp_all add: tagged_domain_def product_domain_def product_assume_def both_def optag_domain_def)

lemma tagged_any:
  "dom_any (tagged_domain D) = omap (\<lambda>v. (v, tag_any)) (dom_any D)"
  by (cases "dom_any D") (simp_all add: tagged_domain_def product_domain_def both_def optag_domain_def)

lemma tagged_lift:
  "dom_lift (tagged_domain D) v = omap (\<lambda>d. (d, tag_lift)) (dom_lift D v)"
  by (cases "dom_lift D v") (simp_all add: tagged_domain_def product_domain_def both_def optag_domain_def)

lemma tagged_tristate: "dom_to_tristate (tagged_domain D) a = dom_to_tristate D (fst a)"
  by (simp add: tagged_domain_def product_domain_def product_to_tristate_def)

lemmas tagged_simps = tagged_bin tagged_bop tagged_bun tagged_assume tagged_any tagged_lift
  tagged_tristate

end
