(* ===== verification/Sign_Domain.thy ===== *)
theory Sign_Domain
  imports Domain_Base
begin

text \<open>
  The sign domain, \<open>lava/include/lava/sign.hpp\<close>. Its eight values are all the sets of signs; the
  operations are the look-up tables of the source. The values are shown to form a Boolean
  algebra under the tables \<open>meet_lut\<close>, \<open>join_lut\<close> and \<open>complement\<close>; the concretisation is the set
  of the unbounded integers with these signs.
\<close>

section \<open>Values\<close>

datatype sign = bot_s | ltz_s | gtz_s | eqz_s | nez_s | gez_s | lez_s | top_s

definition sign_tru :: sign where
  "sign_tru = gtz_s"

definition sign_fls :: sign where
  "sign_fls = eqz_s"

definition sign_may :: sign where
  "sign_may = gez_s"

lemmas sign_bools = sign_tru_def sign_fls_def sign_may_def

text \<open>The number of an enumerator, by which the tables are indexed.\<close>

fun sign_value :: "sign \<Rightarrow> nat" where
  "sign_value bot_s = 0"
| "sign_value ltz_s = 1"
| "sign_value gtz_s = 2"
| "sign_value eqz_s = 3"
| "sign_value nez_s = 4"
| "sign_value gez_s = 5"
| "sign_value lez_s = 6"
| "sign_value top_s = 7"

definition sign_lut :: "sign list list \<Rightarrow> sign \<Rightarrow> sign \<Rightarrow> sign outcome" where
  "sign_lut t a b = table t (sign_value a) (sign_value b)"

definition sign_is_bottom :: "sign \<Rightarrow> bool" where
  "sign_is_bottom s \<longleftrightarrow> s = bot_s"

definition sign_is_top :: "sign \<Rightarrow> bool" where
  "sign_is_top s \<longleftrightarrow> s = top_s"

text \<open>Lifting a constant: booleans and integers only.\<close>

fun sign_lift :: "c_value \<Rightarrow> sign outcome" where
  "sign_lift (c_bool v) = Ret (if v then sign_tru else sign_fls)"
| "sign_lift (c_int s w v) = Ret (if v \<noteq> 0 then if v < 0 then ltz_s else gtz_s else eqz_s)"
| "sign_lift v = Fault ''unsupported type to lift to sign domain''"

definition sign_any :: "sign outcome" where
  "sign_any = Ret top_s"

definition sign_any_variadic :: "sign outcome" where
  "sign_any_variadic = Fault ''unsupported variadic any operation''"

definition sign_any_range :: "int \<Rightarrow> int \<Rightarrow> sign outcome" where
  "sign_any_range lo hi =
    Ret (if hi < lo then bot_s
         else if lo = 0 then if hi = 0 then eqz_s else gez_s
         else if hi = 0 then lez_s
         else if hi < 0 then ltz_s
         else if lo > 0 then gtz_s
         else top_s)"

definition sign_from_bool :: "bool \<Rightarrow> sign" where
  "sign_from_bool b = (if b then sign_tru else sign_fls)"

fun sign_to_tristate :: "sign \<Rightarrow> tristate outcome" where
  "sign_to_tristate bot_s = Fault ''lowering sign bottom to tristate''"
| "sign_to_tristate ltz_s = Ret (tristate_of_bool True)"
| "sign_to_tristate gtz_s = Ret (tristate_of_bool True)"
| "sign_to_tristate eqz_s = Ret (tristate_of_bool False)"
| "sign_to_tristate nez_s = Ret (tristate_of_bool True)"
| "sign_to_tristate gez_s = Ret maybe_value"
| "sign_to_tristate lez_s = Ret maybe_value"
| "sign_to_tristate top_s = Ret maybe_value"

section \<open>Tables\<close>

definition sign_add_lut :: "sign list list" where
  "sign_add_lut =
    [[bot_s, bot_s, bot_s, bot_s, bot_s, bot_s, bot_s, bot_s],
     [bot_s, ltz_s, top_s, ltz_s, top_s, top_s, ltz_s, top_s],
     [bot_s, top_s, gtz_s, top_s, gtz_s, gtz_s, top_s, top_s],
     [bot_s, ltz_s, gtz_s, eqz_s, nez_s, gez_s, lez_s, top_s],
     [bot_s, top_s, top_s, nez_s, top_s, top_s, top_s, top_s],
     [bot_s, top_s, gez_s, gez_s, top_s, gez_s, top_s, top_s],
     [bot_s, lez_s, top_s, lez_s, top_s, top_s, lez_s, top_s],
     [bot_s, top_s, top_s, top_s, top_s, top_s, top_s, top_s]]"

definition sign_mul_lut :: "sign list list" where
  "sign_mul_lut =
    [[bot_s, bot_s, bot_s, bot_s, bot_s, bot_s, bot_s, bot_s],
     [bot_s, gtz_s, ltz_s, eqz_s, nez_s, lez_s, gez_s, top_s],
     [bot_s, ltz_s, gtz_s, eqz_s, nez_s, gez_s, lez_s, top_s],
     [bot_s, eqz_s, eqz_s, eqz_s, eqz_s, eqz_s, eqz_s, eqz_s],
     [bot_s, nez_s, nez_s, eqz_s, nez_s, top_s, top_s, top_s],
     [bot_s, lez_s, gez_s, eqz_s, top_s, gez_s, lez_s, top_s],
     [bot_s, gez_s, lez_s, eqz_s, top_s, lez_s, gez_s, top_s],
     [bot_s, top_s, top_s, eqz_s, top_s, top_s, top_s, top_s]]"

definition sign_eq_lut :: "sign list list" where
  "sign_eq_lut =
    [[bot_s, bot_s, bot_s, bot_s, bot_s, bot_s, bot_s, bot_s],
     [bot_s, sign_may, sign_fls, sign_fls, sign_may, sign_fls, sign_may, sign_may],
     [bot_s, sign_fls, sign_may, sign_fls, sign_may, sign_may, sign_fls, sign_may],
     [bot_s, sign_fls, sign_fls, sign_tru, sign_fls, sign_may, sign_may, sign_may],
     [bot_s, sign_may, sign_may, sign_fls, sign_may, sign_may, sign_may, sign_may],
     [bot_s, sign_fls, sign_may, sign_may, sign_may, sign_may, sign_may, sign_may],
     [bot_s, sign_may, sign_fls, sign_may, sign_may, sign_may, sign_may, sign_may],
     [bot_s, sign_may, sign_may, sign_may, sign_may, sign_may, sign_may, sign_may]]"

definition sign_ne_lut :: "sign list list" where
  "sign_ne_lut =
    [[bot_s, bot_s, bot_s, bot_s, bot_s, bot_s, bot_s, bot_s],
     [bot_s, sign_may, sign_tru, sign_tru, sign_may, sign_tru, sign_may, sign_may],
     [bot_s, sign_tru, sign_may, sign_tru, sign_may, sign_may, sign_tru, sign_may],
     [bot_s, sign_tru, sign_tru, sign_fls, sign_tru, sign_may, sign_may, sign_may],
     [bot_s, sign_may, sign_may, sign_tru, sign_may, sign_may, sign_may, sign_may],
     [bot_s, sign_tru, sign_may, sign_may, sign_may, sign_may, sign_may, sign_may],
     [bot_s, sign_may, sign_tru, sign_may, sign_may, sign_may, sign_may, sign_may],
     [bot_s, sign_may, sign_may, sign_may, sign_may, sign_may, sign_may, sign_may]]"

definition sign_slt_lut :: "sign list list" where
  "sign_slt_lut =
    [[bot_s, bot_s, bot_s, bot_s, bot_s, bot_s, bot_s, bot_s],
     [bot_s, sign_may, sign_tru, sign_tru, sign_may, sign_tru, sign_may, sign_may],
     [bot_s, sign_fls, sign_may, sign_fls, sign_may, sign_may, sign_fls, sign_may],
     [bot_s, sign_fls, sign_tru, sign_fls, sign_may, sign_may, sign_may, sign_may],
     [bot_s, sign_may, sign_may, sign_may, sign_may, sign_may, sign_may, sign_may],
     [bot_s, sign_fls, sign_may, sign_may, sign_may, sign_may, sign_may, sign_may],
     [bot_s, sign_may, sign_tru, sign_may, sign_may, sign_may, sign_may, sign_may],
     [bot_s, sign_may, sign_may, sign_may, sign_may, sign_may, sign_may, sign_may]]"

definition sign_meet_lut :: "sign list list" where
  "sign_meet_lut =
    [[bot_s, bot_s, bot_s, bot_s, bot_s, bot_s, bot_s, bot_s],
     [bot_s, ltz_s, bot_s, bot_s, ltz_s, bot_s, ltz_s, ltz_s],
     [bot_s, bot_s, gtz_s, bot_s, gtz_s, gtz_s, bot_s, gtz_s],
     [bot_s, bot_s, bot_s, eqz_s, bot_s, eqz_s, eqz_s, eqz_s],
     [bot_s, ltz_s, gtz_s, bot_s, nez_s, gtz_s, ltz_s, nez_s],
     [bot_s, bot_s, gtz_s, eqz_s, gtz_s, gez_s, eqz_s, gez_s],
     [bot_s, ltz_s, bot_s, eqz_s, ltz_s, eqz_s, lez_s, lez_s],
     [bot_s, ltz_s, gtz_s, eqz_s, nez_s, gez_s, lez_s, top_s]]"

definition sign_join_lut :: "sign list list" where
  "sign_join_lut =
    [[bot_s, ltz_s, gtz_s, eqz_s, nez_s, gez_s, lez_s, top_s],
     [ltz_s, ltz_s, nez_s, lez_s, nez_s, top_s, lez_s, top_s],
     [gtz_s, nez_s, gtz_s, gez_s, nez_s, gez_s, top_s, top_s],
     [eqz_s, lez_s, gez_s, eqz_s, top_s, gez_s, lez_s, top_s],
     [nez_s, nez_s, nez_s, top_s, nez_s, top_s, top_s, top_s],
     [gez_s, top_s, gez_s, gez_s, top_s, gez_s, top_s, top_s],
     [lez_s, lez_s, top_s, lez_s, top_s, top_s, lez_s, top_s],
     [top_s, top_s, top_s, top_s, top_s, top_s, top_s, top_s]]"

definition sign_setminus_lut :: "sign list list" where
  "sign_setminus_lut =
    [[bot_s, bot_s, bot_s, bot_s, bot_s, bot_s, bot_s, bot_s],
     [ltz_s, bot_s, ltz_s, ltz_s, bot_s, ltz_s, bot_s, bot_s],
     [gtz_s, gtz_s, bot_s, gtz_s, bot_s, bot_s, gtz_s, bot_s],
     [eqz_s, eqz_s, eqz_s, bot_s, bot_s, bot_s, bot_s, bot_s],
     [nez_s, gtz_s, ltz_s, nez_s, bot_s, ltz_s, gtz_s, bot_s],
     [gez_s, gez_s, eqz_s, gtz_s, eqz_s, bot_s, gtz_s, bot_s],
     [lez_s, eqz_s, lez_s, ltz_s, eqz_s, ltz_s, bot_s, bot_s],
     [top_s, gez_s, lez_s, nez_s, eqz_s, ltz_s, gtz_s, bot_s]]"

lemmas sign_luts [table_simps] = sign_add_lut_def sign_mul_lut_def sign_eq_lut_def
  sign_ne_lut_def sign_slt_lut_def sign_meet_lut_def sign_join_lut_def sign_setminus_lut_def

section \<open>Set operations\<close>

definition sign_meet :: "sign \<Rightarrow> sign \<Rightarrow> sign outcome" where
  "sign_meet a b = sign_lut sign_meet_lut a b"

definition sign_join :: "sign \<Rightarrow> sign \<Rightarrow> sign outcome" where
  "sign_join a b = sign_lut sign_join_lut a b"

fun sign_complement :: "sign \<Rightarrow> sign" where
  "sign_complement bot_s = top_s"
| "sign_complement ltz_s = gez_s"
| "sign_complement gtz_s = lez_s"
| "sign_complement eqz_s = nez_s"
| "sign_complement nez_s = eqz_s"
| "sign_complement gez_s = ltz_s"
| "sign_complement lez_s = gtz_s"
| "sign_complement top_s = bot_s"

definition sign_setminus :: "sign \<Rightarrow> sign \<Rightarrow> sign outcome" where
  "sign_setminus a b = sign_lut sign_setminus_lut a b"

section \<open>Operations\<close>

definition sign_top_bin_tags :: "op_tag list" where
  "sign_top_bin_tags =
    [tag_fadd, tag_sub, tag_fsub, tag_fmul, tag_udiv, tag_sdiv, tag_fdiv, tag_urem,
     tag_srem, tag_frem, tag_shl, tag_lshr, tag_ashr, tag_op_and, tag_op_or, tag_op_xor,
     tag_foeq, tag_fogt, tag_foge, tag_folt, tag_fole, tag_fone, tag_ford, tag_funo,
     tag_fueq, tag_fugt, tag_fuge, tag_fult, tag_fule, tag_fune, tag_ugt, tag_uge, tag_ult,
     tag_ule, tag_sge, tag_sle, tag_ftrue]"

definition sign_top_cast_tags :: "op_tag list" where
  "sign_top_cast_tags =
    [tag_fpext, tag_fptosi, tag_fptoui, tag_fptrunc, tag_inttoptr, tag_ptrtoint, tag_sext,
     tag_sitofp, tag_trunc, tag_uitofp, tag_zext, tag_zfit, tag_load]"

definition sign_bin :: "op_tag \<Rightarrow> sign \<Rightarrow> sign \<Rightarrow> sign outcome" where
  "sign_bin t a b =
    (if t = tag_add then sign_lut sign_add_lut a b
     else if t = tag_mul then sign_lut sign_mul_lut a b
     else if t = tag_eq then sign_lut sign_eq_lut a b
     else if t = tag_ne then sign_lut sign_ne_lut a b
     else if t = tag_sgt then sign_lut sign_slt_lut b a
     else if t = tag_slt then sign_lut sign_slt_lut a b
     else if t = tag_ffalse then Ret eqz_s
     else if t \<in> set sign_top_bin_tags then Ret top_s
     else mixin_bin t a b)"

definition sign_cast :: "op_tag \<Rightarrow> sign \<Rightarrow> nat \<Rightarrow> sign outcome" where
  "sign_cast t a bw = (if t \<in> set sign_top_cast_tags then Ret top_s else mixin_cast t a bw)"

definition sign_assume :: "sign \<Rightarrow> bool \<Rightarrow> sign outcome" where
  "sign_assume s constraint = sign_meet s (sign_from_bool constraint)"

section \<open>Backward operations\<close>

text \<open>Both implementations compute a new first operand, when the result is the enumerator \<open>tru\<close>.\<close>

definition sign_bop_sgt_impl :: "sign \<Rightarrow> sign \<Rightarrow> sign \<Rightarrow> sign option outcome" where
  "sign_bop_sgt_impl r a b =
    (if r = sign_tru then omap Some (sign_setminus a b) else Ret None)"

definition sign_bop_ne_impl :: "sign \<Rightarrow> sign \<Rightarrow> sign \<Rightarrow> sign option outcome" where
  "sign_bop_ne_impl r a b =
    (if r = sign_tru then omap Some (sign_setminus a b) else Ret None)"

text \<open>
  The operands of a backward operation are references that borrow the storage of the cell
  (\<open>domain_ref\<close>), and the storage is an owning pointer (\<open>lamp/support/storage.hpp\<close>). Assigning the
  new operand to such a reference releases the storage that the cell goes on to own: what
  follows, at the latest the destruction of the cell, is undefined.
\<close>

definition borrowed_assign :: "'v option outcome \<Rightarrow> 'v store \<Rightarrow> 'v store run" where
  "borrowed_assign m s = rbind [m] (\<lambda>v. case v of None \<Rightarrow> rret s | Some _ \<Rightarrow> [Undef])"

definition sign_bop :: "op_tag \<Rightarrow> nat \<Rightarrow> nat \<Rightarrow> nat \<Rightarrow> sign store \<Rightarrow> sign store run" where
  "sign_bop t r a b s =
    (if t = tag_ne then borrowed_assign (sign_bop_ne_impl (s r) (s a) (s b)) s
     else if t = tag_sgt then borrowed_assign (sign_bop_sgt_impl (s r) (s a) (s b)) s
     else mixin_bop t r a b s)"

definition sign_domain :: "sign domain" where
  "sign_domain =
    \<lparr>dom_lift = sign_lift, dom_any = sign_any, dom_any_range = sign_any_range,
     dom_assume = sign_assume, dom_to_tristate = sign_to_tristate,
     dom_bin = sign_bin, dom_cast = sign_cast, dom_bop = sign_bop, dom_bun = mixin_bun\<rparr>"

section \<open>Meaning\<close>

fun sign_gamma :: "sign \<Rightarrow> int set" where
  "sign_gamma bot_s = {}"
| "sign_gamma ltz_s = {x. x < 0}"
| "sign_gamma gtz_s = {x. x > 0}"
| "sign_gamma eqz_s = {0}"
| "sign_gamma nez_s = {x. x \<noteq> 0}"
| "sign_gamma gez_s = {x. x \<ge> 0}"
| "sign_gamma lez_s = {x. x \<le> 0}"
| "sign_gamma top_s = UNIV"

text \<open>The set of signs a value stands for decides everything: membership needs three bits.\<close>

lemma sign_gamma_sgn: "x \<in> sign_gamma a \<longleftrightarrow> sgn x \<in> sign_gamma a"
  by (cases a) (auto simp: sgn_if)

lemma sign_gamma_eqI:
  assumes "\<And>x. x \<in> {-1, 0, 1} \<Longrightarrow> x \<in> sign_gamma a \<longleftrightarrow> x \<in> A" and "\<And>x. x \<in> A \<longleftrightarrow> sgn x \<in> A"
  shows "sign_gamma a = A"
proof (rule set_eqI)
  fix x :: int
  have "sgn x \<in> {-1, 0, 1}" by (auto simp: sgn_if)
  then show "x \<in> sign_gamma a \<longleftrightarrow> x \<in> A"
    using assms sign_gamma_sgn by blast
qed

lemma sign_gamma_inj: "sign_gamma a = sign_gamma b \<longleftrightarrow> a = b"
proof
  assume *: "sign_gamma a = sign_gamma b"
  have "-1 \<in> sign_gamma a \<longleftrightarrow> -1 \<in> sign_gamma b" "0 \<in> sign_gamma a \<longleftrightarrow> 0 \<in> sign_gamma b"
       "1 \<in> sign_gamma a \<longleftrightarrow> 1 \<in> sign_gamma b"
    using * by simp_all
  then show "a = b"
    by (cases a; cases b) simp_all
qed simp

lemma sign_lut_eval [table_simps]:
  "sign_lut t a b = (if sign_value a < length t \<and> sign_value b < length (t ! sign_value a)
                     then Ret (t ! sign_value a ! sign_value b) else Undef)"
  by (simp add: sign_lut_def table_def)

section \<open>The set operations are exact\<close>

lemma sign_meet_gamma: "\<exists>c. sign_meet a b = Ret c \<and> sign_gamma c = sign_gamma a \<inter> sign_gamma b"
  by (cases a; cases b) (auto simp: sign_meet_def table_simps)

lemma sign_join_gamma: "\<exists>c. sign_join a b = Ret c \<and> sign_gamma c = sign_gamma a \<union> sign_gamma b"
  by (cases a; cases b) (auto simp: sign_join_def table_simps)

lemma sign_complement_gamma: "sign_gamma (sign_complement a) = - sign_gamma a"
  by (cases a) auto

definition sign_inf :: "sign \<Rightarrow> sign \<Rightarrow> sign" where
  "sign_inf a b = (case sign_meet a b of Ret c \<Rightarrow> c | _ \<Rightarrow> bot_s)"

definition sign_sup :: "sign \<Rightarrow> sign \<Rightarrow> sign" where
  "sign_sup a b = (case sign_join a b of Ret c \<Rightarrow> c | _ \<Rightarrow> top_s)"

lemma sign_inf_gamma: "sign_gamma (sign_inf a b) = sign_gamma a \<inter> sign_gamma b"
proof -
  obtain c where "sign_meet a b = Ret c" "sign_gamma c = sign_gamma a \<inter> sign_gamma b"
    using sign_meet_gamma by blast
  then show ?thesis by (simp add: sign_inf_def)
qed

lemma sign_sup_gamma: "sign_gamma (sign_sup a b) = sign_gamma a \<union> sign_gamma b"
proof -
  obtain c where "sign_join a b = Ret c" "sign_gamma c = sign_gamma a \<union> sign_gamma b"
    using sign_join_gamma by blast
  then show ?thesis by (simp add: sign_sup_def)
qed

lemma sign_meet_inf: "sign_meet a b = Ret (sign_inf a b)"
  using sign_meet_gamma [of a b] by (elim exE conjE) (simp add: sign_inf_def)

lemma sign_join_sup: "sign_join a b = Ret (sign_sup a b)"
  using sign_join_gamma [of a b] by (elim exE conjE) (simp add: sign_sup_def)

text \<open>With the order of the concretisation, the tables make the values a Boolean algebra.\<close>

instantiation sign :: boolean_algebra
begin

definition less_eq_sign :: "sign \<Rightarrow> sign \<Rightarrow> bool" where
  "less_eq_sign a b \<longleftrightarrow> sign_inf a b = a"

definition less_sign :: "sign \<Rightarrow> sign \<Rightarrow> bool" where
  "less_sign a b \<longleftrightarrow> a \<le> b \<and> \<not> b \<le> (a :: sign)"

definition inf_sign :: "sign \<Rightarrow> sign \<Rightarrow> sign" where
  "inf_sign = sign_inf"

definition sup_sign :: "sign \<Rightarrow> sign \<Rightarrow> sign" where
  "sup_sign = sign_sup"

definition uminus_sign :: "sign \<Rightarrow> sign" where
  "uminus_sign = sign_complement"

definition minus_sign :: "sign \<Rightarrow> sign \<Rightarrow> sign" where
  "minus_sign a b = sign_inf a (sign_complement b)"

definition bot_sign :: sign where
  "bot_sign = bot_s"

definition top_sign :: sign where
  "top_sign = top_s"

lemma sign_le_gamma: "a \<le> b \<longleftrightarrow> sign_gamma a \<subseteq> sign_gamma b"
  by (auto simp: less_eq_sign_def sign_gamma_inj [symmetric] sign_inf_gamma)

instance
proof
  fix a b c :: sign
  note defs = less_sign_def sign_le_gamma inf_sign_def sup_sign_def uminus_sign_def minus_sign_def
    bot_sign_def top_sign_def sign_inf_gamma sign_sup_gamma sign_complement_gamma
  show "a < b \<longleftrightarrow> a \<le> b \<and> \<not> b \<le> a" by (simp add: less_sign_def)
  show "a \<le> a" by (simp add: defs)
  show "a \<le> b \<Longrightarrow> b \<le> c \<Longrightarrow> a \<le> c" by (auto simp: defs)
  show "a \<le> b \<Longrightarrow> b \<le> a \<Longrightarrow> a = b" by (auto simp: defs sign_gamma_inj [symmetric])
  show "inf a b \<le> a" "inf a b \<le> b" by (auto simp: defs)
  show "a \<le> b \<Longrightarrow> a \<le> c \<Longrightarrow> a \<le> inf b c" by (auto simp: defs)
  show "a \<le> sup a b" "b \<le> sup a b" by (auto simp: defs)
  show "b \<le> a \<Longrightarrow> c \<le> a \<Longrightarrow> sup b c \<le> a" by (auto simp: defs)
  show "bot \<le> a" "a \<le> top" by (auto simp: defs)
  show "sup a (inf b c) = inf (sup a b) (sup a c)"
    by (subst sign_gamma_inj [symmetric]) (auto simp: defs)
  show "inf a (- a) = bot" "sup a (- a) = top"
    by (subst sign_gamma_inj [symmetric], simp add: defs)+
  show "a - b = inf a (- b)" by (simp add: defs)
qed

end

text \<open>The table of the difference is the relative complement but for one entry.\<close>

lemma sign_setminus_minus:
  "sign_setminus a b = Ret (if a = eqz_s \<and> b = nez_s then bot_s else a - b)"
  by (cases a; cases b) (simp_all add: sign_setminus_def minus_sign_def sign_inf_def sign_meet_def table_simps)

section \<open>Forward operations\<close>

definition sign_exact_ops :: "op_tag set" where
  "sign_exact_ops = {tag_mul, tag_eq, tag_ne, tag_slt, tag_sgt}"

lemma sign_lut_defined:
  assumes "length t = 8" and "\<forall>r \<in> set t. length r = 8"
  shows "sign_lut t a b = Ret (t ! sign_value a ! sign_value b)"
proof -
  have "sign_value a < 8" "sign_value b < 8"
    by (cases a; simp) (cases b; simp)
  then show ?thesis
    using assms by (simp add: sign_lut_eval)
qed

lemma sign_add_sound:
  assumes "x \<in> sign_gamma a" "y \<in> sign_gamma b" "(a, b) \<noteq> (gtz_s, nez_s)"
  shows "osound (sign_lut sign_add_lut a b) (\<lambda>c. x + y \<in> sign_gamma c)"
  using assms by (cases a; cases b) (auto simp: table_simps)

lemma sign_mul_sound:
  assumes "x \<in> sign_gamma a" "y \<in> sign_gamma b"
  shows "osound (sign_lut sign_mul_lut a b) (\<lambda>c. x * y \<in> sign_gamma c)"
  using assms
  by (cases a; cases b)
     (auto simp: table_simps zero_less_mult_iff mult_less_0_iff zero_le_mult_iff mult_le_0_iff)

lemma sign_eq_sound:
  assumes "x \<in> sign_gamma a" "y \<in> sign_gamma b"
  shows "osound (sign_lut sign_eq_lut a b) (\<lambda>c. of_bool (x = y) \<in> sign_gamma c)"
  using assms by (cases a; cases b) (auto simp: table_simps sign_bools)

lemma sign_ne_sound:
  assumes "x \<in> sign_gamma a" "y \<in> sign_gamma b"
  shows "osound (sign_lut sign_ne_lut a b) (\<lambda>c. of_bool (x \<noteq> y) \<in> sign_gamma c)"
  using assms by (cases a; cases b) (auto simp: table_simps sign_bools)

lemma sign_slt_sound:
  assumes "x \<in> sign_gamma a" "y \<in> sign_gamma b"
  shows "osound (sign_lut sign_slt_lut a b) (\<lambda>c. of_bool (x < y) \<in> sign_gamma c)"
  using assms by (cases a; cases b) (auto simp: table_simps sign_bools)

lemma sign_tristate_sound:
  "x \<in> sign_gamma a \<Longrightarrow> osound (sign_to_tristate a) (\<lambda>t. (x \<noteq> 0) \<in> tri_gamma t)"
  by (cases a) (auto simp: tristate_of_bool_def)

lemma sign_assume_sound:
  assumes "x \<in> sign_gamma a" "0 \<le> x"
  shows "osound (sign_assume a (x \<noteq> 0)) (\<lambda>b. x \<in> sign_gamma b)"
  using assms by (auto simp: sign_assume_def sign_from_bool_def sign_bools sign_meet_inf sign_inf_gamma)

section \<open>The contracts the domain keeps\<close>

interpretation sgn: forward_sound sign_domain sign_gamma conc_int "- {tag_add}"
proof
  fix t a b and x y z :: int
  assume t: "t \<in> - {tag_add}" and x: "x \<in> sign_gamma a" and y: "y \<in> sign_gamma b"
    and z: "conc_int t x y = Some z"
  have top: "osound (if t \<in> set sign_top_bin_tags then Ret top_s else mixin_bin t a b)
               (\<lambda>c. z \<in> sign_gamma c)" if "t \<in> set sign_top_bin_tags"
    using that by simp
  have cases: "t = tag_mul \<and> z = x * y \<or> t = tag_eq \<and> z = of_bool (x = y) \<or>
      t = tag_ne \<and> z = of_bool (x \<noteq> y) \<or> t = tag_slt \<and> z = of_bool (x < y) \<or>
      t = tag_sgt \<and> z = of_bool (y < x) \<or> t \<in> {tag_sub, tag_sdiv, tag_srem, tag_sle, tag_sge}"
    using t z by (auto simp: conc_int_def split: if_splits)
  show "osound (dom_bin sign_domain t a b) (\<lambda>c. z \<in> sign_gamma c)"
    using cases sign_mul_sound [OF x y] sign_eq_sound [OF x y] sign_ne_sound [OF x y]
      sign_slt_sound [OF x y] sign_slt_sound [OF y x]
    by (auto simp: sign_domain_def sign_bin_def sign_top_bin_tags_def)
qed

text \<open>Conditions are the results of comparisons, 0 or 1; on them the domain branches soundly.\<close>

interpretation sgn_branch: branch_sound sign_domain "\<lambda>a. sign_gamma a \<inter> {x. 0 \<le> x}" "\<lambda>x. x \<noteq> 0"
  by unfold_locales
     (auto simp: sign_domain_def sign_tristate_sound intro: osound_mono [OF sign_assume_sound])

interpretation sgn_back: backward_sound sign_domain sign_gamma conc_int
  "set mixin_bop_tags - {tag_ne, tag_sgt}" True
  by unfold_locales (auto simp: sign_domain_def sign_bop_def mixin_bop_sound)

section \<open>Properties\<close>

text \<open>
  The set operations of the sign domain are exact: the tables of meet and join return the signs of
  the intersection and the union of the sets of integers, and the complement table those of the
  complement, so that the eight values form a Boolean algebra.
\<close>

theorem sign_set_operations_exact:
  "\<exists>m j. sign_meet a b = Ret m \<and> sign_gamma m = sign_gamma a \<inter> sign_gamma b \<and>
         sign_join a b = Ret j \<and> sign_gamma j = sign_gamma a \<union> sign_gamma b \<and>
         sign_gamma (sign_complement a) = - sign_gamma a \<and> (sign_gamma a = sign_gamma b) = (a = b)"
  using sign_meet_gamma [of a b] sign_join_gamma [of a b] sign_complement_gamma [of a]
    sign_gamma_inj [of a b] by metis

text \<open>
  Every forward operation of the sign domain but addition returns a value that describes the
  result of the concrete operation on any described integers: multiplication and the comparisons
  by their tables, the others by the top value.
\<close>

theorem sign_forward_sound:
  assumes "t \<noteq> tag_add" "x \<in> sign_gamma a" "y \<in> sign_gamma b" "conc_int t x y = Some z"
  shows "\<exists>c. sign_bin t a b = Ret c \<and> z \<in> sign_gamma c"
proof (cases "sign_bin t a b")
  case (Fault m)
  have "zlut \<noteq> Fault m" if "zlut = sign_lut lut u v" for zlut lut u v
    using that by (simp add: sign_lut_eval)
  with Fault assms show ?thesis
    by (auto simp: sign_bin_def conc_int_def sign_top_bin_tags_def split: if_splits)
qed (use sgn.bin_sound [of t x a y b z] assms in \<open>auto simp: sign_domain_def\<close>)

text \<open>
  Addition in the sign domain describes every sum of described integers except for one entry of
  its table: a positive number plus a nonzero one.
\<close>

theorem sign_add_sound_iff:
  "(\<forall>x \<in> sign_gamma a. \<forall>y \<in> sign_gamma b. osound (sign_bin tag_add a b) (\<lambda>c. x + y \<in> sign_gamma c)) \<longleftrightarrow>
    (a, b) \<noteq> (gtz_s, nez_s)"
proof (cases "(a, b) = (gtz_s, nez_s)")
  case True
  have "\<not> osound (sign_bin tag_add gtz_s nez_s) (\<lambda>c. (1 :: int) + - 1 \<in> sign_gamma c)"
    by (simp add: sign_bin_def table_simps)
  moreover have "(1 :: int) \<in> sign_gamma gtz_s" "(- 1 :: int) \<in> sign_gamma nez_s" by simp_all
  ultimately show ?thesis using True by blast
next
  case False
  then show ?thesis
    using sign_add_sound [of _ a _ b] by (auto simp: sign_bin_def)
qed

text \<open>
  The table of the set difference of the sign domain is the relative complement in all entries but
  one: the difference of zero and the nonzero numbers comes out empty.
\<close>

theorem sign_difference_exact_iff:
  "(\<exists>c. sign_setminus a b = Ret c \<and> sign_gamma c = sign_gamma a - sign_gamma b) \<longleftrightarrow> (a, b) \<noteq> (eqz_s, nez_s)"
proof -
  have "sign_gamma (a - b) = sign_gamma a - sign_gamma b"
    by (auto simp: minus_sign_def sign_inf_gamma sign_complement_gamma)
  then show ?thesis
    by (cases "(a, b) = (eqz_s, nez_s)") (auto simp: sign_setminus_minus)
qed

text \<open>
  The backward operations of the sign domain never refine anything: for a disequality or a
  greater-than whose result is the value true, the refined operand is assigned through a reference
  that borrows the storage of the cell, which frees that storage; in every other case the store is
  left as it is.
\<close>

theorem sign_refinement_of_truth_undefined:
  assumes "t \<in> set mixin_bop_tags"
  shows "sign_bop t r a b s =
    (if t \<in> {tag_ne, tag_sgt} \<and> s r = sign_tru then [Undef] else rret s)"
  using assms
  by (auto simp: sign_bop_def sign_bop_ne_impl_def sign_bop_sgt_impl_def borrowed_assign_def
      sign_setminus_minus mixin_bop_def)

end
