(* ===== verification/Zero_Domain.thy ===== *)
theory Zero_Domain
  imports Domain_Base "HOL-Library.Word"
begin

text \<open>
  The zero domain, \<open>lava/include/lava/zero.hpp\<close>: whether a bit vector is zero. Its tables cover
  the values \<open>zero\<close>, \<open>nonzero\<close> and \<open>unknown\<close> only, so an operation on \<open>bottom\<close> reads past them. The
  concretisation is a set of machine words of any width: the arithmetic of the program wraps.
\<close>

section \<open>Values\<close>

datatype zero = zero_z | nonzero_z | unknown_z | bottom_z

fun zero_value :: "zero \<Rightarrow> nat" where
  "zero_value zero_z = 0"
| "zero_value nonzero_z = 1"
| "zero_value unknown_z = 2"
| "zero_value bottom_z = 3"

text \<open>The constructor from a byte casts it to the enumeration without a check.\<close>

definition zero_of_byte :: "nat \<Rightarrow> zero outcome" where
  "zero_of_byte v = (if v = 0 then Ret zero_z else if v = 1 then Ret nonzero_z
     else if v = 2 then Ret unknown_z else if v = 3 then Ret bottom_z else Undef)"

definition zero_lut :: "zero list list \<Rightarrow> zero \<Rightarrow> zero \<Rightarrow> zero outcome" where
  "zero_lut t a b = table t (zero_value a) (zero_value b)"

definition zero_is_bottom :: "zero \<Rightarrow> bool" where
  "zero_is_bottom z \<longleftrightarrow> z = bottom_z"

definition zero_is_zero :: "zero \<Rightarrow> bool" where
  "zero_is_zero z \<longleftrightarrow> z = zero_z"

fun zero_lift :: "c_value \<Rightarrow> zero outcome" where
  "zero_lift (c_bool v) = Ret (if v then nonzero_z else zero_z)"
| "zero_lift (c_int s w v) = Ret (if v \<noteq> 0 then nonzero_z else zero_z)"
| "zero_lift (c_pointer p) = Ret (if p \<noteq> 0 then nonzero_z else zero_z)"
| "zero_lift v = Fault ''unsupported type to lift to zero domain''"

definition zero_any :: "zero outcome" where
  "zero_any = Ret unknown_z"

definition zero_any_variadic :: "zero outcome" where
  "zero_any_variadic = Fault ''unsupported variadic any operation''"

definition zero_any_range :: "int \<Rightarrow> int \<Rightarrow> zero outcome" where
  "zero_any_range lo hi = Fault ''unsupported range any operation''"

definition zero_load :: "zero \<Rightarrow> nat \<Rightarrow> zero outcome" where
  "zero_load p bw = (if p \<noteq> nonzero_z then Fault ''null pointer dereference'' else Ret unknown_z)"

definition zero_store :: "zero \<Rightarrow> nat \<Rightarrow> unit outcome" where
  "zero_store p bw = (if p \<noteq> nonzero_z then Fault ''null pointer dereference'' else Ret ())"

definition zero_intersect :: "zero \<Rightarrow> zero \<Rightarrow> zero outcome" where
  "zero_intersect val b =
    (let val' = (if val = zero_z then if b \<noteq> nonzero_z then zero_z else bottom_z
                 else if val = nonzero_z then if b \<noteq> zero_z then nonzero_z else bottom_z
                 else b)
     in if zero_is_bottom val' then Cancel else Ret val')"

definition zero_assume :: "zero \<Rightarrow> bool \<Rightarrow> zero outcome" where
  "zero_assume z constraint =
    obind (zero_intersect z (if constraint then nonzero_z else zero_z))
      (\<lambda>z'. if zero_is_bottom z' then Cancel else Ret z')"

fun zero_to_tristate :: "zero \<Rightarrow> tristate outcome" where
  "zero_to_tristate zero_z = Ret false_value"
| "zero_to_tristate nonzero_z = Ret true_value"
| "zero_to_tristate unknown_z = Ret maybe_value"
| "zero_to_tristate bottom_z = Cancel"

section \<open>Tables\<close>

definition zero_add_lut :: "zero list list" where
  "zero_add_lut =
    [[zero_z, nonzero_z, unknown_z],
     [nonzero_z, unknown_z, unknown_z],
     [unknown_z, unknown_z, unknown_z]]"

definition zero_mul_lut :: "zero list list" where
  "zero_mul_lut =
    [[zero_z, zero_z, zero_z],
     [zero_z, unknown_z, unknown_z],
     [zero_z, unknown_z, unknown_z]]"

definition zero_shift_lut :: "zero list list" where
  "zero_shift_lut =
    [[zero_z, zero_z, zero_z],
     [nonzero_z, unknown_z, unknown_z],
     [unknown_z, unknown_z, unknown_z]]"

definition zero_and_lut :: "zero list list" where
  "zero_and_lut =
    [[zero_z, zero_z, zero_z],
     [zero_z, unknown_z, unknown_z],
     [zero_z, unknown_z, unknown_z]]"

definition zero_or_lut :: "zero list list" where
  "zero_or_lut =
    [[zero_z, nonzero_z, unknown_z],
     [nonzero_z, nonzero_z, nonzero_z],
     [unknown_z, nonzero_z, unknown_z]]"

definition zero_xor_lut :: "zero list list" where
  "zero_xor_lut =
    [[zero_z, nonzero_z, unknown_z],
     [nonzero_z, unknown_z, unknown_z],
     [unknown_z, unknown_z, unknown_z]]"

definition zero_eq_lut :: "zero list list" where
  "zero_eq_lut =
    [[nonzero_z, zero_z, unknown_z],
     [zero_z, unknown_z, unknown_z],
     [unknown_z, unknown_z, unknown_z]]"

definition zero_ne_lut :: "zero list list" where
  "zero_ne_lut =
    [[zero_z, nonzero_z, unknown_z],
     [nonzero_z, unknown_z, unknown_z],
     [unknown_z, unknown_z, unknown_z]]"

definition zero_ugt_lut :: "zero list list" where
  "zero_ugt_lut =
    [[zero_z, zero_z, zero_z],
     [nonzero_z, unknown_z, unknown_z],
     [unknown_z, unknown_z, unknown_z]]"

definition zero_uge_lut :: "zero list list" where
  "zero_uge_lut =
    [[nonzero_z, zero_z, unknown_z],
     [nonzero_z, unknown_z, unknown_z],
     [nonzero_z, unknown_z, unknown_z]]"

definition zero_sgt_lut :: "zero list list" where
  "zero_sgt_lut =
    [[zero_z, unknown_z, unknown_z],
     [unknown_z, unknown_z, unknown_z],
     [unknown_z, unknown_z, unknown_z]]"

definition zero_sge_lut :: "zero list list" where
  "zero_sge_lut =
    [[nonzero_z, unknown_z, unknown_z],
     [unknown_z, unknown_z, unknown_z],
     [unknown_z, unknown_z, unknown_z]]"

lemmas zero_luts [table_simps] = zero_add_lut_def zero_mul_lut_def zero_shift_lut_def zero_and_lut_def
  zero_or_lut_def zero_xor_lut_def zero_eq_lut_def zero_ne_lut_def
  zero_ugt_lut_def zero_uge_lut_def zero_sgt_lut_def zero_sge_lut_def

section \<open>Operations\<close>

definition zero_div :: "zero \<Rightarrow> zero \<Rightarrow> zero outcome" where
  "zero_div a b = (if b \<noteq> nonzero_z then Fault ''division by zero''
                   else Ret (if zero_value a \<noteq> 0 then unknown_z else zero_z))"

text \<open>Multiplication reads the table of the addition, as the source does.\<close>

definition zero_bin :: "op_tag \<Rightarrow> zero \<Rightarrow> zero \<Rightarrow> zero outcome" where
  "zero_bin t a b =
    (if t = tag_add then zero_lut zero_add_lut a b
     else if t = tag_sub then zero_lut zero_add_lut a b
     else if t = tag_mul then zero_lut zero_add_lut a b
     else if t = tag_udiv then zero_div a b
     else if t = tag_sdiv then zero_div a b
     else if t = tag_urem then zero_div a b
     else if t = tag_srem then zero_div a b
     else if t = tag_shl then zero_lut zero_shift_lut a b
     else if t = tag_ashr then zero_lut zero_shift_lut a b
     else if t = tag_lshr then zero_lut zero_shift_lut a b
     else if t = tag_op_and then zero_lut zero_and_lut a b
     else if t = tag_op_or then zero_lut zero_or_lut a b
     else if t = tag_op_xor then zero_lut zero_xor_lut a b
     else if t = tag_eq then zero_lut zero_eq_lut a b
     else if t = tag_ne then zero_lut zero_ne_lut a b
     else if t = tag_ugt then zero_lut zero_ugt_lut a b
     else if t = tag_uge then zero_lut zero_uge_lut a b
     else if t = tag_ult then zero_lut zero_ugt_lut b a
     else if t = tag_ule then zero_lut zero_uge_lut b a
     else if t = tag_sgt then zero_lut zero_sgt_lut a b
     else if t = tag_sge then zero_lut zero_sge_lut a b
     else if t = tag_slt then zero_lut zero_sgt_lut b a
     else if t = tag_sle then zero_lut zero_sge_lut b a
     else mixin_bin t a b)"

definition zero_cast :: "op_tag \<Rightarrow> zero \<Rightarrow> nat \<Rightarrow> zero outcome" where
  "zero_cast t z bw =
    (if t = tag_sext then Ret z
     else if t = tag_trunc then Ret (if zero_is_zero z then zero_z else unknown_z)
     else if t = tag_zext then Ret z
     else if t = tag_zfit then Ret (if zero_is_zero z then zero_z else unknown_z)
     else if t = tag_load then zero_load z bw
     else mixin_cast t z bw)"

text \<open>The backward operations with an empty body; the remaining ones are the reports of the mixin.\<close>

definition zero_bop_tags :: "op_tag list" where
  "zero_bop_tags =
    [tag_add, tag_sub, tag_mul, tag_sdiv, tag_udiv, tag_srem, tag_urem, tag_fadd, tag_fsub,
     tag_fmul, tag_fdiv, tag_frem, tag_shl, tag_ashr, tag_lshr, tag_op_and, tag_op_or,
     tag_op_xor, tag_eq, tag_ne, tag_ugt, tag_uge, tag_ult, tag_ule, tag_sgt, tag_sge,
     tag_slt, tag_sle, tag_foeq, tag_fogt, tag_foge, tag_folt, tag_fole, tag_ford, tag_funo,
     tag_fueq, tag_fugt, tag_fuge, tag_fult, tag_fule, tag_ffalse, tag_ftrue]"

definition zero_bun_tags :: "op_tag list" where
  "zero_bun_tags =
    [tag_trunc, tag_fptrunc, tag_sitofp, tag_uitofp, tag_zext, tag_zfit, tag_sext,
     tag_fpext, tag_fptosi, tag_fptoui]"

definition zero_bop :: "op_tag \<Rightarrow> nat \<Rightarrow> nat \<Rightarrow> nat \<Rightarrow> zero store \<Rightarrow> zero store run" where
  "zero_bop t r a b s = (if t \<in> set zero_bop_tags then rret s else mixin_bop t r a b s)"

definition zero_bun :: "op_tag \<Rightarrow> nat \<Rightarrow> nat \<Rightarrow> zero store \<Rightarrow> zero store run" where
  "zero_bun t r a s = (if t \<in> set zero_bun_tags then rret s else mixin_bun t r a s)"

definition zero_domain :: "zero domain" where
  "zero_domain =
    \<lparr>dom_lift = zero_lift, dom_any = zero_any, dom_any_range = zero_any_range,
     dom_assume = zero_assume, dom_to_tristate = zero_to_tristate,
     dom_bin = zero_bin, dom_cast = zero_cast, dom_bop = zero_bop, dom_bun = zero_bun\<rparr>"

section \<open>Meaning\<close>

fun zero_gamma :: "zero \<Rightarrow> 'w::len word set" where
  "zero_gamma zero_z = {0}"
| "zero_gamma nonzero_z = {x. x \<noteq> 0}"
| "zero_gamma unknown_z = UNIV"
| "zero_gamma bottom_z = {}"

text \<open>The operations of the machine on words of one width.\<close>

definition conc_word :: "op_tag \<Rightarrow> 'w::len word \<Rightarrow> 'w word \<Rightarrow> 'w word option" where
  "conc_word t x y =
    (if t = tag_add then Some (x + y) else if t = tag_sub then Some (x - y)
     else if t = tag_mul then Some (x * y)
     else if t = tag_udiv then (if y = 0 then None else Some (x div y))
     else if t = tag_urem then (if y = 0 then None else Some (x mod y))
     else if t = tag_sdiv then (if y = 0 then None else Some (word_of_int (sint x sdiv sint y)))
     else if t = tag_srem then (if y = 0 then None else Some (word_of_int (sint x smod sint y)))
     else if t = tag_shl then Some (push_bit (unat y) x)
     else if t = tag_lshr then Some (drop_bit (unat y) x)
     else if t = tag_ashr then Some (signed_drop_bit (unat y) x)
     else if t = tag_op_and then Some (and x y) else if t = tag_op_or then Some (or x y)
     else if t = tag_op_xor then Some (xor x y)
     else if t = tag_eq then Some (of_bool (x = y)) else if t = tag_ne then Some (of_bool (x \<noteq> y))
     else if t = tag_ult then Some (of_bool (x < y)) else if t = tag_ugt then Some (of_bool (x > y))
     else if t = tag_ule then Some (of_bool (x \<le> y)) else if t = tag_uge then Some (of_bool (x \<ge> y))
     else if t = tag_slt then Some (of_bool (x <s y)) else if t = tag_sgt then Some (of_bool (y <s x))
     else if t = tag_sle then Some (of_bool (x \<le>s y)) else if t = tag_sge then Some (of_bool (y \<le>s x))
     else None)"

lemma zero_lut_eval [table_simps]:
  "zero_lut t a b = (if zero_value a < length t \<and> zero_value b < length (t ! zero_value a)
                     then Ret (t ! zero_value a ! zero_value b) else Undef)"
  by (simp add: zero_lut_def table_def)

text \<open>A word of one bit has two values, so that \<open>1\<close> is never \<open>0\<close>.\<close>

lemma zero_arith_sound:
  assumes "x \<in> zero_gamma a" "y \<in> zero_gamma b"
  shows "osound (zero_lut zero_add_lut a b) (\<lambda>c. x + y \<in> zero_gamma c)"
    and "osound (zero_lut zero_add_lut a b) (\<lambda>c. x - y \<in> zero_gamma c)"
  using assms by (cases a; cases b; simp add: table_simps)+

lemma zero_mul_sound:
  assumes "x \<in> zero_gamma a" "y \<in> zero_gamma b" "{a, b} \<noteq> {zero_z, nonzero_z}"
  shows "osound (zero_lut zero_add_lut a b) (\<lambda>c. x * y \<in> zero_gamma c)"
  using assms by (cases a; cases b) (auto simp: table_simps)

text \<open>The table that multiplication does not use is sound.\<close>

lemma zero_mul_lut_sound:
  assumes "x \<in> zero_gamma a" "y \<in> zero_gamma b"
  shows "osound (zero_lut zero_mul_lut a b) (\<lambda>c. x * y \<in> zero_gamma c)"
  using assms by (cases a; cases b) (auto simp: table_simps)

lemma zero_div_sound:
  assumes "x \<in> zero_gamma a" "y \<in> zero_gamma b" "f 0 y = 0"
  shows "osound (zero_div a b) (\<lambda>c. f x y \<in> zero_gamma c)"
  using assms by (cases a; cases b) (auto simp: zero_div_def)

lemma zero_shift_sound:
  assumes "x \<in> zero_gamma a" "y \<in> zero_gamma b"
    and "\<And>n. f n 0 = (0 :: 'w::len word)" and "\<And>z. f 0 z = (z :: 'w word)"
  shows "osound (zero_lut zero_shift_lut a b) (\<lambda>c. f (unat y) x \<in> zero_gamma c)"
  using assms by (cases a; cases b) (auto simp: table_simps)

lemma zero_bit_sound:
  assumes "x \<in> zero_gamma a" "y \<in> zero_gamma b"
  shows "osound (zero_lut zero_and_lut a b) (\<lambda>c. and x y \<in> zero_gamma c)"
    and "osound (zero_lut zero_or_lut a b) (\<lambda>c. or x y \<in> zero_gamma c)"
    and "osound (zero_lut zero_xor_lut a b) (\<lambda>c. xor x y \<in> zero_gamma c)"
  using assms by (cases a; cases b; auto simp: table_simps or_eq_0_iff)+

lemma zero_cmp_sound:
  assumes "x \<in> zero_gamma a" "y \<in> zero_gamma b"
  shows "osound (zero_lut zero_eq_lut a b) (\<lambda>c. of_bool (x = y) \<in> zero_gamma c)"
    and "osound (zero_lut zero_ne_lut a b) (\<lambda>c. of_bool (x \<noteq> y) \<in> zero_gamma c)"
    and "osound (zero_lut zero_ugt_lut a b) (\<lambda>c. of_bool (x > y) \<in> zero_gamma c)"
    and "osound (zero_lut zero_uge_lut a b) (\<lambda>c. of_bool (x \<ge> y) \<in> zero_gamma c)"
    and "osound (zero_lut zero_sgt_lut a b) (\<lambda>c. of_bool (y <s x) \<in> zero_gamma c)"
    and "osound (zero_lut zero_sge_lut a b) (\<lambda>c. of_bool (y \<le>s x) \<in> zero_gamma c)"
  using assms by (cases a; cases b; auto simp: table_simps word_gt_0)+

lemma zero_tristate_sound:
  "x \<in> zero_gamma a \<Longrightarrow> osound (zero_to_tristate a) (\<lambda>t. (x \<noteq> 0) \<in> tri_gamma t)"
  by (cases a) auto

lemma zero_assume_sound:
  "x \<in> zero_gamma a \<Longrightarrow> osound (zero_assume a (x \<noteq> 0)) (\<lambda>b. x \<in> zero_gamma b)"
  by (cases a) (auto simp: zero_assume_def zero_intersect_def zero_is_bottom_def)

section \<open>The contracts the domain keeps\<close>

lemma sdiv_smod_zero_words:
  "word_of_int (sint (0 :: 'w::len word) sdiv k) = (0 :: 'w word)"
  "word_of_int (sint (0 :: 'w::len word) smod k) = (0 :: 'w word)"
  by simp_all

interpretation zr: forward_sound zero_domain zero_gamma conc_word "- {tag_mul}"
proof
  fix t a b and x y z :: "'a::len word"
  assume t: "t \<in> - {tag_mul}" and x: "x \<in> zero_gamma a" and y: "y \<in> zero_gamma b"
    and z: "conc_word t x y = Some z"
  note sounds = zero_arith_sound [OF x y] zero_bit_sound [OF x y] zero_cmp_sound [OF x y]
    zero_cmp_sound(3-6) [OF y x]
    zero_shift_sound [OF x y, of push_bit] zero_shift_sound [OF x y, of drop_bit]
    zero_shift_sound [OF x y, of signed_drop_bit]
    zero_div_sound [OF x y, of "\<lambda>x y. x div y"] zero_div_sound [OF x y, of "\<lambda>x y. x mod y"]
    zero_div_sound [OF x y, of "\<lambda>x y. word_of_int (sint x sdiv sint y)"]
    zero_div_sound [OF x y, of "\<lambda>x y. word_of_int (sint x smod sint y)"]
  show "osound (dom_bin zero_domain t a b) (\<lambda>c. z \<in> zero_gamma c)"
    using t z sounds
    by (auto simp: zero_domain_def zero_bin_def conc_word_def split: if_splits)
qed

interpretation zr_branch: branch_sound zero_domain zero_gamma "\<lambda>x. x \<noteq> 0"
  by unfold_locales (simp_all add: zero_domain_def zero_tristate_sound zero_assume_sound)

interpretation zr_back: backward_sound zero_domain zero_gamma conc_word "set mixin_bop_tags" True
  by unfold_locales (auto simp: zero_domain_def zero_bop_def mixin_bop_sound)

section \<open>Properties\<close>

text \<open>
  Multiplication in the zero domain is looked up in the table of the addition: on values other
  than bottom it describes every product of described words exactly when the operands are not one
  zero and one nonzero value.
\<close>

theorem zero_mul_sound_iff:
  assumes "a \<noteq> bottom_z" "b \<noteq> bottom_z"
  shows "(\<forall>x \<in> zero_gamma a. \<forall>y \<in> zero_gamma b.
      osound (zero_bin tag_mul a b) (\<lambda>c. (x * y :: 'w::len word) \<in> zero_gamma c)) \<longleftrightarrow>
    {a, b} \<noteq> {zero_z, nonzero_z}"
proof (cases "{a, b} = {zero_z, nonzero_z}")
  case True
  then have "a = zero_z \<and> b = nonzero_z \<or> a = nonzero_z \<and> b = zero_z"
    by (auto simp: doubleton_eq_iff)
  moreover have "\<exists>x :: 'w word. x \<noteq> 0"
    by (rule exI [of _ 1]) simp
  ultimately show ?thesis
    using True by (auto simp: zero_bin_def table_simps)
next
  case False
  then show ?thesis
    using zero_mul_sound [of _ a _ b] by (auto simp: zero_bin_def)
qed

text \<open>
  Branching on a value of the zero domain: converting the condition to a three-valued boolean,
  lowering it through the choice operator and assuming the chosen edge keeps every word, for some
  explored path takes the edge of its truth value and still describes it.
\<close>

theorem zero_branch_sound:
  fixes x :: "'w::len word"
  assumes "x \<in> zero_gamma a"
  shows "rsound (branch_on zero_domain a) (\<lambda>(c, b). c = (x \<noteq> 0) \<and> x \<in> zero_gamma b)"
  by (rule zr_branch.branch_on_sound [OF assms])

text \<open>
  The tables of the zero domain have three rows and columns but the domain has a fourth value:
  every tabulated operation with bottom as an operand reads outside its table, which is undefined.
\<close>

theorem zero_bottom_out_of_table:
  assumes "t \<in> {tag_add, tag_sub, tag_mul, tag_shl, tag_ashr, tag_lshr, tag_op_and, tag_op_or,
      tag_op_xor, tag_eq, tag_ne, tag_ugt, tag_uge, tag_ult, tag_ule, tag_sgt, tag_sge, tag_slt, tag_sle}"
    and "a = bottom_z \<or> b = bottom_z"
  shows "zero_bin t a b = Undef"
proof -
  have "zero_lut lut a b = Undef" "zero_lut lut b a = Undef"
    if "length lut = 3" "\<forall>r \<in> set lut. length r = 3" for lut
    using assms(2) that by (cases a; cases b; simp add: zero_lut_eval)+
  then show ?thesis
    using assms(1) by (elim insertE emptyE) (simp_all add: zero_bin_def zero_luts)
qed

text \<open>
  C31: At every machine width, every operation of the zero domain but multiplication describes the
  concrete result of wrapping arithmetic, shifts, bitwise operations, divisions and comparisons of
  described operands; the only trap is the report of a division whose divisor may be zero.
\<close>

theorem zero_forward_sound:
  fixes x y z :: "'w::len word"
  assumes "t \<noteq> tag_mul" "x \<in> zero_gamma a" "y \<in> zero_gamma b" "conc_word t x y = Some z"
  shows "(\<exists>c. zero_bin t a b = Ret c \<and> z \<in> zero_gamma c) \<or>
    t \<in> {tag_udiv, tag_sdiv, tag_urem, tag_srem} \<and> b = unknown_z \<and> zero_bin t a b = Fault ''division by zero''"
proof (cases "zero_bin t a b")
  case (Fault m)
  have "zero_lut lut a b \<noteq> Fault m" "zero_lut lut b a \<noteq> Fault m" for lut
    by (simp_all add: zero_lut_eval)
  with Fault assms show ?thesis
    by (cases b) (auto simp: zero_bin_def zero_div_def conc_word_def split: if_splits)
qed (use zr.bin_sound [of t x a y b z] assms in \<open>auto simp: zero_domain_def\<close>)

theorem zero_forward_sound_witness:
  "(\<exists>c. zero_bin tag_add nonzero_z nonzero_z = Ret c \<and> (0 :: 8 word) \<in> zero_gamma c) \<or>
   tag_add \<in> {tag_udiv, tag_sdiv, tag_urem, tag_srem} \<and> nonzero_z = unknown_z \<and>
   zero_bin tag_add nonzero_z nonzero_z = Fault ''division by zero''"
  by (rule zero_forward_sound [where x = 255 and y = 1]) (simp_all add: conc_word_def)

end
