(* ===== verification/Interval_Arith.thy ===== *)
theory Interval_Arith
  imports Domain_Base
begin

text \<open>
  The saturating bounds and the intervals over them: \<open>sup::bound< int64_t >\<close> and
  \<open>sup::interval\<close> of \<open>lava/include/lava/support/interval.hpp\<close>. A bound is a 64-bit integer, kept
  here as an \<open>int\<close> of that range; the least and the largest one stand for the infinities. The
  arithmetic of the bounds saturates, and some of its cases leave the process through
  \<open>__lart_cancel\<close>.
\<close>

section \<open>Bounds\<close>

type_synonym bound = int

definition bmax :: bound where
  "bmax = 9223372036854775807"

definition bmin :: bound where
  "bmin = - 9223372036854775808"

definition is_i64 :: "int \<Rightarrow> bool" where
  "is_i64 v \<longleftrightarrow> bmin \<le> v \<and> v \<le> bmax"

definition plus_infinity :: bound where
  "plus_infinity = bmax"

definition minus_infinity :: bound where
  "minus_infinity = bmin"

lemmas infinities = plus_infinity_def minus_infinity_def

definition b_is_infinite :: "bound \<Rightarrow> bool" where
  "b_is_infinite b \<longleftrightarrow> b = bmax \<or> b = bmin"

definition b_is_finite :: "bound \<Rightarrow> bool" where
  "b_is_finite b \<longleftrightarrow> \<not> b_is_infinite b"

text \<open>Stepping past the range of the type is undefined.\<close>

definition b_increment :: "bound \<Rightarrow> bound outcome" where
  "b_increment b = (if b = bmax then Undef else Ret (b + 1))"

definition b_decrement :: "bound \<Rightarrow> bound outcome" where
  "b_decrement b = (if b = bmin then Undef else Ret (b - 1))"

definition b_neg :: "bound \<Rightarrow> bound" where
  "b_neg b = (if b = minus_infinity then plus_infinity
              else if b = plus_infinity then minus_infinity else - b)"

datatype overflow = ov_none | ov_plus | ov_minus

definition add_overflows :: "bound \<Rightarrow> bound \<Rightarrow> overflow" where
  "add_overflows a b =
    (if b > 0 \<and> a > 0 then if b \<ge> bmax - a then ov_plus else ov_none
     else if b < 0 \<and> a < 0 then if b \<le> bmin - a then ov_minus else ov_none
     else ov_none)"

definition b_add :: "bound \<Rightarrow> bound \<Rightarrow> bound outcome" where
  "b_add v q =
    (if b_is_finite v \<and> b_is_finite q then
       Ret (case add_overflows v q of ov_plus \<Rightarrow> bmax | ov_minus \<Rightarrow> bmin | ov_none \<Rightarrow> v + q)
     else if b_is_finite v \<and> b_is_infinite q then Ret q
     else if b_is_infinite v \<and> b_is_finite q then Ret v
     else if b_is_infinite q \<and> v \<noteq> q then Cancel
     else Ret v)"

definition b_sub :: "bound \<Rightarrow> bound \<Rightarrow> bound outcome" where
  "b_sub v q = b_add v (b_neg q)"

text \<open>The division of the language truncates towards zero.\<close>

definition mul_overflows :: "bound \<Rightarrow> bound \<Rightarrow> overflow" where
  "mul_overflows a b =
    (if a < 0 \<and> b < 0 \<and> - a > bmax sdiv (- b) then ov_plus
     else if a < 0 \<and> b > 0 \<and> a < bmin sdiv b then ov_minus
     else if a > 0 \<and> b < 0 \<and> b < bmin sdiv a then ov_minus
     else if a > 0 \<and> b > 0 \<and> a > bmax sdiv b then ov_plus
     else ov_none)"

definition b_mul :: "bound \<Rightarrow> bound \<Rightarrow> bound outcome" where
  "b_mul v q =
    (if q = 0 then Ret 0
     else if v = 0 then Ret v
     else if b_is_finite v \<and> b_is_finite q then
       Ret (case mul_overflows v q of ov_plus \<Rightarrow> bmax | ov_minus \<Rightarrow> bmin | ov_none \<Rightarrow> v * q)
     else Ret (if (v > 0) \<noteq> (q > 0) then bmin else bmax))"

definition b_div :: "bound \<Rightarrow> bound \<Rightarrow> bound outcome" where
  "b_div v q =
    (if b_is_finite v \<and> b_is_finite q then if q = 0 then Undef else Ret (v sdiv q)
     else if b_is_finite v \<and> b_is_infinite q then Ret 0
     else if b_is_infinite v \<and> b_is_finite q then if q < 0 then Ret (b_neg v) else Ret v
     else Cancel)"

definition b_mod :: "bound \<Rightarrow> bound \<Rightarrow> bound outcome" where
  "b_mod v q =
    obind (if b_is_finite v \<and> b_is_finite q then if q = 0 then Undef else Ret (v smod q) else Ret v)
      (\<lambda>w. if q = 0 then Cancel else Ret w)"

definition b_and :: "bound \<Rightarrow> bound \<Rightarrow> bound outcome" where
  "b_and v q = Ret (and v q)"

definition b_or :: "bound \<Rightarrow> bound \<Rightarrow> bound outcome" where
  "b_or v q = Ret (or v q)"

definition b_not :: "bound \<Rightarrow> bound" where
  "b_not b = not b"

text \<open>A left shift discards the bits that leave the word; a shift by its width or more is undefined.\<close>

definition b_shl :: "bound \<Rightarrow> bound \<Rightarrow> bound outcome" where
  "b_shl v q =
    (if q < 0 then Cancel
     else if b_is_infinite v \<and> b_is_infinite q then Cancel
     else if b_is_infinite v then Ret v
     else if q = plus_infinity then Ret 0
     else if q \<ge> 64 then Undef
     else Ret (number_cast True 64 (v * 2 ^ nat q)))"

definition b_shr :: "bound \<Rightarrow> bound \<Rightarrow> bound outcome" where
  "b_shr v q =
    (if q < 0 then Cancel
     else if b_is_infinite v \<and> b_is_infinite q then Cancel
     else if b_is_infinite v then Ret v
     else if q = plus_infinity then Ret bmax
     else if q \<ge> 64 then Undef
     else Ret (v div 2 ^ nat q))"

section \<open>Intervals\<close>

record ival =
  low :: bound
  high :: bound

definition mk_ival :: "bound \<Rightarrow> bound \<Rightarrow> ival" where
  "mk_ival l h = \<lparr>low = l, high = h\<rparr>"

definition ival_of_pair :: "bound \<times> bound \<Rightarrow> ival" where
  "ival_of_pair p = mk_ival (fst p) (snd p)"

definition ival_of_tristate :: "tristate \<Rightarrow> ival" where
  "ival_of_tristate t =
    (if tri_maybe t then mk_ival 0 1
     else mk_ival (of_bool (tri_to_bool t)) (of_bool (tri_to_bool t)))"

definition ival_of_bool :: "bool \<Rightarrow> ival" where
  "ival_of_bool b = mk_ival (of_bool b) (of_bool b)"

definition ival_top :: ival where
  "ival_top = mk_ival minus_infinity plus_infinity"

definition ival_bottom :: ival where
  "ival_bottom = mk_ival 0 (-1)"

definition ival_size :: "ival \<Rightarrow> int" where
  "ival_size i = (high i mod 2 ^ 64 - low i mod 2 ^ 64 + 1) mod 2 ^ 64"

definition ival_is_bottom :: "ival \<Rightarrow> bool" where
  "ival_is_bottom i \<longleftrightarrow> high i < low i"

definition ival_is_top :: "ival \<Rightarrow> bool" where
  "ival_is_top i \<longleftrightarrow> low i = minus_infinity \<and> high i = plus_infinity"

definition ival_is_infinite :: "ival \<Rightarrow> bool" where
  "ival_is_infinite i \<longleftrightarrow> b_is_infinite (low i) \<or> b_is_infinite (high i)"

definition ival_is_finite :: "ival \<Rightarrow> bool" where
  "ival_is_finite i \<longleftrightarrow> \<not> ival_is_infinite i"

definition ival_constant :: "ival \<Rightarrow> bool" where
  "ival_constant i \<longleftrightarrow> low i = high i"

definition ival_empty :: "ival \<Rightarrow> bool" where
  "ival_empty i \<longleftrightarrow> high i < low i"

definition ival_includes :: "ival \<Rightarrow> bound \<Rightarrow> bool" where
  "ival_includes i b \<longleftrightarrow> low i \<le> b \<and> b \<le> high i"

definition ival_includes_ival :: "ival \<Rightarrow> ival \<Rightarrow> bool" where
  "ival_includes_ival i j \<longleftrightarrow> low i \<le> low j \<and> high j \<le> high i"

definition ival_intersects :: "ival \<Rightarrow> ival \<Rightarrow> bool" where
  "ival_intersects i j \<longleftrightarrow>
    (if low j < low i \<and> high j < low i then False
     else if low i < low j \<and> high i < low j then False
     else True)"

definition ival_excludes :: "ival \<Rightarrow> bound \<Rightarrow> bool" where
  "ival_excludes i b \<longleftrightarrow> b < low i \<or> b > high i"

definition ival_excludes_ival :: "ival \<Rightarrow> ival \<Rightarrow> bool" where
  "ival_excludes_ival i j \<longleftrightarrow> high j < low i \<or> high i < low j"

definition ival_exclude :: "ival \<Rightarrow> bound \<Rightarrow> ival outcome" where
  "ival_exclude i b =
    (if low i = b then omap (\<lambda>l. mk_ival l (high i)) (b_add (low i) 1)
     else if high i = b then omap (\<lambda>h. mk_ival (low i) h) (b_sub (high i) 1)
     else Ret i)"

definition ival_to_tristate :: "ival \<Rightarrow> tristate" where
  "ival_to_tristate i =
    (if low i = 0 \<and> high i = 0 then tristate_of_bool False
     else if ival_includes i 0 then maybe_value
     else tristate_of_bool True)"

definition ival_meet :: "ival \<Rightarrow> ival \<Rightarrow> ival" where
  "ival_meet l r =
    (if ival_is_bottom l then l
     else if ival_is_bottom r then r
     else mk_ival (max (low l) (low r)) (min (high l) (high r)))"

definition ival_join :: "ival \<Rightarrow> ival \<Rightarrow> ival" where
  "ival_join l r =
    (if ival_is_bottom l then r
     else if ival_is_bottom r then l
     else mk_ival (min (low l) (low r)) (max (high l) (high r)))"

definition ival_intersect :: "ival \<Rightarrow> ival \<Rightarrow> ival" where
  "ival_intersect i j = ival_meet i j"

definition ival_meet_low :: "bound \<Rightarrow> ival \<Rightarrow> ival" where
  "ival_meet_low b i = i\<lparr>low := max (low i) b\<rparr>"

definition ival_meet_high :: "bound \<Rightarrow> ival \<Rightarrow> ival" where
  "ival_meet_high b i = i\<lparr>high := min (high i) b\<rparr>"

definition ival_join_low :: "bound \<Rightarrow> ival \<Rightarrow> ival" where
  "ival_join_low b i = i\<lparr>low := min (low i) b\<rparr>"

text \<open>The upper counterpart assigns the lower bound, as written.\<close>

definition ival_join_high :: "bound \<Rightarrow> ival \<Rightarrow> ival" where
  "ival_join_high b i = i\<lparr>low := max (low i) b\<rparr>"

section \<open>Arithmetic of intervals\<close>

definition ival_add :: "ival \<Rightarrow> ival \<Rightarrow> ival outcome" where
  "ival_add l r =
    obind (b_add (low l) (low r)) (\<lambda>lo. obind (b_add (high l) (high r)) (\<lambda>hi. Ret (mk_ival lo hi)))"

definition ival_sub :: "ival \<Rightarrow> ival \<Rightarrow> ival outcome" where
  "ival_sub l r =
    obind (b_sub (low l) (high r)) (\<lambda>lo. obind (b_sub (high l) (low r)) (\<lambda>hi. Ret (mk_ival lo hi)))"

text \<open>\<open>std::minmax\<close> of the four combinations of bounds, evaluated in order.\<close>

definition ival_corners :: "(bound \<Rightarrow> bound \<Rightarrow> bound outcome) \<Rightarrow> ival \<Rightarrow> ival \<Rightarrow> ival outcome" where
  "ival_corners f l r =
    obind (f (low l) (low r)) (\<lambda>p. obind (f (low l) (high r)) (\<lambda>q.
    obind (f (high l) (low r)) (\<lambda>u. obind (f (high l) (high r)) (\<lambda>v.
      Ret (ival_of_pair (min (min p q) (min u v), max (max p q) (max u v)))))))"

definition ival_mul :: "ival \<Rightarrow> ival \<Rightarrow> ival outcome" where
  "ival_mul l r = ival_corners b_mul l r"

text \<open>A divisor that includes zero cancels the path; what follows the call is never reached.\<close>

definition ival_div :: "ival \<Rightarrow> ival \<Rightarrow> ival outcome" where
  "ival_div l r = (if ival_includes r 0 then Cancel else ival_corners b_div l r)"

definition ival_mod :: "ival \<Rightarrow> ival \<Rightarrow> ival outcome" where
  "ival_mod l r = (if ival_includes r 0 then Cancel else ival_corners b_mod l r)"

definition ival_shr :: "ival \<Rightarrow> ival \<Rightarrow> ival outcome" where
  "ival_shr l r = ival_corners b_shr l r"

definition ival_shl :: "ival \<Rightarrow> ival \<Rightarrow> ival outcome" where
  "ival_shl l r = ival_corners b_shl l r"

definition ival_or :: "ival \<Rightarrow> ival \<Rightarrow> ival outcome" where
  "ival_or l r = ival_corners b_or l r"

definition ival_and :: "ival \<Rightarrow> ival \<Rightarrow> ival outcome" where
  "ival_and l r = ival_corners b_and l r"

definition ival_not :: "ival \<Rightarrow> ival" where
  "ival_not i = ival_of_pair (min (b_not (low i)) (b_not (high i)), max (b_not (low i)) (b_not (high i)))"

section \<open>Comparisons of intervals\<close>

definition ival_eq :: "ival \<Rightarrow> ival \<Rightarrow> tristate" where
  "ival_eq l r =
    (if low l = high l \<and> low r = high r \<and> low r = low l then tristate_of_bool True
     else if ival_intersects l r then maybe_value else tristate_of_bool False)"

definition ival_eq_tristate :: "ival \<Rightarrow> tristate \<Rightarrow> tristate" where
  "ival_eq_tristate l r = ival_eq l (ival_of_tristate r)"

definition tristate_eq_ival :: "tristate \<Rightarrow> ival \<Rightarrow> tristate" where
  "tristate_eq_ival l r = ival_eq (ival_of_tristate l) r"

definition ival_ne :: "ival \<Rightarrow> ival \<Rightarrow> tristate" where
  "ival_ne l r = tri_not (ival_eq l r)"

definition ival_lt :: "ival \<Rightarrow> ival \<Rightarrow> tristate" where
  "ival_lt l r =
    (if ival_constant l \<and> ival_constant r then tristate_of_bool (low l < low r)
     else if high l < low r then tristate_of_bool True
     else if low l > high r then tristate_of_bool False
     else maybe_value)"

definition ival_gt :: "ival \<Rightarrow> ival \<Rightarrow> tristate" where
  "ival_gt l r =
    (if ival_constant l \<and> ival_constant r then tristate_of_bool (low l > low r)
     else if low l > high r then tristate_of_bool True
     else if high l < low r then tristate_of_bool False
     else maybe_value)"

definition ival_le :: "ival \<Rightarrow> ival \<Rightarrow> tristate" where
  "ival_le l r = tri_not (ival_gt l r)"

definition ival_ge :: "ival \<Rightarrow> ival \<Rightarrow> tristate" where
  "ival_ge l r = tri_not (ival_lt l r)"

section \<open>Meaning\<close>

text \<open>
  The concrete values are the integers whose sign can be changed without leaving the finite
  bounds (\<open>- bmax\<close> is finite, its negation represents an infinity); an interval is well-formed
  when its bounds are 64-bit integers.
\<close>

definition in_range :: "int \<Rightarrow> bool" where
  "in_range x \<longleftrightarrow> - bmax < x \<and> x < bmax"

definition iv_gamma :: "ival \<Rightarrow> int set" where
  "iv_gamma i =
    {x. in_range x \<and> low i \<le> x \<and> x \<le> high i \<and> is_i64 (low i) \<and> is_i64 (high i)}"

lemmas bound_defs = bmax_def bmin_def is_i64_def in_range_def infinities b_is_infinite_def
  b_is_finite_def

lemma iv_gammaI:
  "in_range x \<Longrightarrow> low i \<le> x \<Longrightarrow> x \<le> high i \<Longrightarrow> is_i64 (low i) \<Longrightarrow> is_i64 (high i) \<Longrightarrow> x \<in> iv_gamma i"
  by (simp add: iv_gamma_def)

lemma iv_gammaD:
  assumes "x \<in> iv_gamma i"
  shows "in_range x" "low i \<le> x" "x \<le> high i" "is_i64 (low i)" "is_i64 (high i)"
  using assms by (simp_all add: iv_gamma_def)

lemma mk_ival_simps [simp]: "low (mk_ival l h) = l" "high (mk_ival l h) = h"
  by (simp_all add: mk_ival_def)

text \<open>One-sided soundness of the operations on bounds: of a lower and of an upper bound.\<close>

definition below :: "bound outcome \<Rightarrow> int \<Rightarrow> bool" where
  "below m x \<longleftrightarrow> (\<exists>b. m = Ret b \<and> b \<le> x \<and> is_i64 b)"

definition above :: "bound outcome \<Rightarrow> int \<Rightarrow> bool" where
  "above m x \<longleftrightarrow> (\<exists>b. m = Ret b \<and> x \<le> b \<and> is_i64 b)"

lemma b_add_below:
  assumes "l \<le> x" "m \<le> y" "is_i64 l" "is_i64 m" "in_range x" "in_range y" "in_range (x + y)"
  shows "below (b_add l m) (x + y)"
  using assms by (auto simp: below_def b_add_def add_overflows_def bound_defs)

lemma b_add_above:
  assumes "x \<le> l" "y \<le> m" "is_i64 l" "is_i64 m" "in_range x" "in_range y" "in_range (x + y)"
  shows "above (b_add l m) (x + y)"
  using assms by (auto simp: above_def b_add_def add_overflows_def bound_defs)

lemma b_neg_facts:
  assumes "is_i64 b" "in_range y"
  shows "is_i64 (b_neg b)" "y \<le> b \<Longrightarrow> b_neg b \<le> - y" "b \<le> y \<Longrightarrow> - y \<le> b_neg b" "in_range (- y)"
  using assms by (auto simp: b_neg_def bound_defs)

lemma b_sub_below:
  assumes "l \<le> x" "y \<le> m" "is_i64 l" "is_i64 m" "in_range x" "in_range y" "in_range (x - y)"
  shows "below (b_sub l m) (x - y)"
  using b_add_below [of l x "b_neg m" "- y"] b_neg_facts [of m y] assms by (simp add: b_sub_def)

lemma b_sub_above:
  assumes "x \<le> l" "m \<le> y" "is_i64 l" "is_i64 m" "in_range x" "in_range y" "in_range (x - y)"
  shows "above (b_sub l m) (x - y)"
  using b_add_above [of x l "- y" "b_neg m"] b_neg_facts [of m y] assms by (simp add: b_sub_def)

lemma ival_pair_sound:
  assumes "below m x" "above n x" "in_range x"
  shows "osound (obind m (\<lambda>lo. obind n (\<lambda>hi. Ret (mk_ival lo hi)))) (\<lambda>i. x \<in> iv_gamma i)"
  using assms by (auto simp: below_def above_def iv_gamma_def)

lemma ival_add_sound:
  assumes "x \<in> iv_gamma a" "y \<in> iv_gamma b" "in_range (x + y)"
  shows "osound (ival_add a b) (\<lambda>i. x + y \<in> iv_gamma i)"
  unfolding ival_add_def
  by (rule ival_pair_sound)
     (use iv_gammaD [OF assms(1)] iv_gammaD [OF assms(2)] assms(3) in \<open>auto intro: b_add_below b_add_above\<close>)

lemma ival_sub_sound:
  assumes "x \<in> iv_gamma a" "y \<in> iv_gamma b" "in_range (x - y)"
  shows "osound (ival_sub a b) (\<lambda>i. x - y \<in> iv_gamma i)"
  unfolding ival_sub_def
  by (rule ival_pair_sound)
     (use iv_gammaD [OF assms(1)] iv_gammaD [OF assms(2)] assms(3) in \<open>auto intro: b_sub_below b_sub_above\<close>)

section \<open>Multiplication\<close>

text \<open>On 64-bit bounds the product is the sign-aware saturation of the exact one.\<close>

definition clamp :: "int \<Rightarrow> int" where
  "clamp x = max bmin (min bmax x)"

definition ext_mul :: "bound \<Rightarrow> bound \<Rightarrow> bound" where
  "ext_mul p q =
    (if p = 0 \<or> q = 0 then 0
     else if b_is_infinite p \<or> b_is_infinite q then if (p > 0) = (q > 0) then bmax else bmin
     else clamp (p * q))"

lemma bound_signs: "0 < bmax" "bmin < 0" "bmin < bmax" "\<not> bmax < bmin"
  by (simp_all add: bmax_def bmin_def)

lemma clamp_if: "clamp x = (if x > bmax then bmax else if x < bmin then bmin else x)"
  by (auto simp: clamp_def bmax_def bmin_def)

lemma clamp_pos: "0 < x \<Longrightarrow> clamp x = (if x > bmax then bmax else x)"
  and clamp_neg: "x < 0 \<Longrightarrow> clamp x = (if x < bmin then bmin else x)"
  by (auto simp: clamp_if bmax_def bmin_def)

lemma le_floor_div_iff: "(0 :: int) < b \<Longrightarrow> a \<le> m div b \<longleftrightarrow> a * b \<le> m"
proof
  assume b: "0 < b" and "a \<le> m div b"
  then have "a * b \<le> (m div b) * b" by simp
  also have "\<dots> \<le> m"
    using div_mult_mod_eq [of m b] pos_mod_sign [OF b, of m] by linarith
  finally show "a * b \<le> m" .
next
  assume b: "0 < b" and *: "a * b \<le> m"
  have "a = a * b div b" using b by simp
  also have "\<dots> \<le> m div b" using * b by (rule zdiv_mono1)
  finally show "a \<le> m div b" .
qed

lemma trunc_div_pos_iff:
  assumes "(0 :: int) < b" "0 \<le> m"
  shows "a > m sdiv b \<longleftrightarrow> a * b > m"
proof -
  have "m sdiv b = m div b"
    using assms by (auto simp: signed_divide_int_def sgn_if)
  then show ?thesis
    using le_floor_div_iff [OF assms(1), of a m] by linarith
qed

lemma trunc_div_neg_iff:
  assumes "(0 :: int) < b" "m \<le> 0"
  shows "a < m sdiv b \<longleftrightarrow> a * b < m"
proof -
  have "m sdiv b = - ((- m) sdiv b)"
    using assms by (auto simp: signed_divide_int_def sgn_if)
  then show ?thesis
    using trunc_div_pos_iff [of b "- m" "- a"] assms by auto
qed

lemma b_mul_ext:
  assumes "is_i64 p" "is_i64 q"
  shows "b_mul p q = Ret (ext_mul p q)"
proof (cases "p = 0 \<or> q = 0 \<or> b_is_infinite p \<or> b_is_infinite q")
  case True
  then show ?thesis
    by (auto simp: b_mul_def ext_mul_def b_is_finite_def)
next
  case False
  have pp: "p > bmax sdiv q \<longleftrightarrow> p * q > bmax" if "0 < q"
    using trunc_div_pos_iff [of q bmax p] that by (simp add: bmax_def)
  have nn: "- p > bmax sdiv (- q) \<longleftrightarrow> p * q > bmax" if "q < 0"
    using trunc_div_pos_iff [of "- q" bmax "- p"] that by (simp add: bmax_def)
  have np: "p < bmin sdiv q \<longleftrightarrow> p * q < bmin" if "0 < q"
    using trunc_div_neg_iff [of q bmin p] that by (simp add: bmin_def)
  have pn: "q < bmin sdiv p \<longleftrightarrow> p * q < bmin" if "0 < p"
    using trunc_div_neg_iff [of p bmin q] that by (simp add: bmin_def mult.commute)
  have val: "(case mul_overflows p q of ov_plus \<Rightarrow> bmax | ov_minus \<Rightarrow> bmin | ov_none \<Rightarrow> p * q)
              = clamp (p * q)"
  proof -
    consider "p > 0" "q > 0" | "p < 0" "q < 0" | "p > 0" "q < 0" | "p < 0" "q > 0"
      using False by force
    then show ?thesis
    proof cases
      case 1
      then show ?thesis
        using pp bound_signs clamp_pos [OF mult_pos_pos [OF 1]] by (auto simp: mul_overflows_def)
    next
      case 2
      then show ?thesis
        using nn bound_signs clamp_pos [OF mult_neg_neg [OF 2]] by (auto simp: mul_overflows_def)
    next
      case 3
      then show ?thesis
        using pn bound_signs clamp_neg [OF mult_pos_neg [OF 3]] by (auto simp: mul_overflows_def)
    next
      case 4
      then show ?thesis
        using np bound_signs clamp_neg [OF mult_neg_pos [OF 4]] by (auto simp: mul_overflows_def)
    qed
  qed
  show ?thesis
    using False val by (simp add: b_mul_def ext_mul_def b_is_finite_def)
qed

lemma ext_mul_commute: "ext_mul p q = ext_mul q p"
  by (auto simp: ext_mul_def mult.commute)

lemma ext_mul_i64: "is_i64 (ext_mul p q)"
  by (auto simp: ext_mul_def clamp_def bound_defs)

lemma ext_mul_exact: "in_range x \<Longrightarrow> in_range y \<Longrightarrow> in_range (x * y) \<Longrightarrow> ext_mul x y = x * y"
  by (auto simp: ext_mul_def clamp_def bound_defs)

lemma clamp_mono: "x \<le> y \<Longrightarrow> clamp x \<le> clamp y"
  by (auto simp: clamp_def)

lemma ext_mul_mono:
  assumes "0 \<le> p" "q \<le> r" "is_i64 q" "is_i64 r"
  shows "ext_mul p q \<le> ext_mul p r"
proof -
  have "p * q \<le> p * r"
    using assms by (simp add: mult_left_mono)
  then have c: "clamp (p * q) \<le> clamp (p * r)"
    by (rule clamp_mono)
  have s: "q > 0 \<Longrightarrow> p \<noteq> 0 \<Longrightarrow> 0 < p * q" "q < 0 \<Longrightarrow> p \<noteq> 0 \<Longrightarrow> p * q < 0"
    "r > 0 \<Longrightarrow> p \<noteq> 0 \<Longrightarrow> 0 < p * r" "r < 0 \<Longrightarrow> p \<noteq> 0 \<Longrightarrow> p * r < 0"
    using assms(1) by (auto simp: mult_pos_neg)
  show ?thesis
    using assms c s by (auto simp: ext_mul_def clamp_def bound_defs)
qed

lemma ext_mul_antimono:
  assumes "p \<le> 0" "q \<le> r" "is_i64 q" "is_i64 r"
  shows "ext_mul p r \<le> ext_mul p q"
proof -
  have "p * r \<le> p * q"
    using assms by (simp add: mult_left_mono_neg)
  then have c: "clamp (p * r) \<le> clamp (p * q)"
    by (rule clamp_mono)
  have s: "q > 0 \<Longrightarrow> p \<noteq> 0 \<Longrightarrow> p * q < 0" "q < 0 \<Longrightarrow> p \<noteq> 0 \<Longrightarrow> 0 < p * q"
    "r > 0 \<Longrightarrow> p \<noteq> 0 \<Longrightarrow> p * r < 0" "r < 0 \<Longrightarrow> p \<noteq> 0 \<Longrightarrow> 0 < p * r"
    using assms(1) by (auto simp: mult_neg_neg mult_neg_pos)
  show ?thesis
    using assms c s by (auto simp: ext_mul_def clamp_def bound_defs)
qed

text \<open>The values of a function monotone in each argument lie between its corners.\<close>

lemma corner_bounds:
  fixes f :: "int \<Rightarrow> int \<Rightarrow> int"
  assumes mono1: "f x lo2 \<le> f x y \<and> f x y \<le> f x hi2 \<or> f x hi2 \<le> f x y \<and> f x y \<le> f x lo2"
    and mono_lo: "f lo1 lo2 \<le> f x lo2 \<and> f x lo2 \<le> f hi1 lo2 \<or> f hi1 lo2 \<le> f x lo2 \<and> f x lo2 \<le> f lo1 lo2"
    and mono_hi: "f lo1 hi2 \<le> f x hi2 \<and> f x hi2 \<le> f hi1 hi2 \<or> f hi1 hi2 \<le> f x hi2 \<and> f x hi2 \<le> f lo1 hi2"
  shows "min (min (f lo1 lo2) (f lo1 hi2)) (min (f hi1 lo2) (f hi1 hi2)) \<le> f x y"
    and "f x y \<le> max (max (f lo1 lo2) (f lo1 hi2)) (max (f hi1 lo2) (f hi1 hi2))"
  using assms by linarith+

lemma ext_mul_between:
  assumes "q \<le> y" "y \<le> r" "is_i64 q" "is_i64 y" "is_i64 r"
  shows "ext_mul p q \<le> ext_mul p y \<and> ext_mul p y \<le> ext_mul p r \<or>
         ext_mul p r \<le> ext_mul p y \<and> ext_mul p y \<le> ext_mul p q"
  using assms ext_mul_mono [of p] ext_mul_antimono [of p] by (cases "0 \<le> p") auto

lemma in_range_i64: "in_range x \<Longrightarrow> is_i64 x"
  by (simp add: bound_defs)

lemma is_i64_min_max: "is_i64 a \<Longrightarrow> is_i64 b \<Longrightarrow> is_i64 (min a b)" "is_i64 a \<Longrightarrow> is_i64 b \<Longrightarrow> is_i64 (max a b)"
  by (auto simp: min_def max_def)

lemma ival_mul_sound:
  assumes "x \<in> iv_gamma a" "y \<in> iv_gamma b" "in_range (x * y)"
  shows "osound (ival_mul a b) (\<lambda>i. x * y \<in> iv_gamma i)"
proof -
  note a = iv_gammaD [OF assms(1)] and b = iv_gammaD [OF assms(2)]
  have xy: "x * y = ext_mul x y"
    using a b assms(3) by (simp add: ext_mul_exact)
  have col: "ext_mul (low a) q \<le> ext_mul x q \<and> ext_mul x q \<le> ext_mul (high a) q \<or>
             ext_mul (high a) q \<le> ext_mul x q \<and> ext_mul x q \<le> ext_mul (low a) q" for q
    using ext_mul_between [of "low a" x "high a" q] a by (simp add: ext_mul_commute in_range_i64)
  have row: "ext_mul x (low b) \<le> ext_mul x y \<and> ext_mul x y \<le> ext_mul x (high b) \<or>
             ext_mul x (high b) \<le> ext_mul x y \<and> ext_mul x y \<le> ext_mul x (low b)"
    using ext_mul_between [of "low b" y "high b" x] b by (simp add: in_range_i64)
  show ?thesis
    using a b assms(3) corner_bounds [OF row col col]
    by (simp add: ival_mul_def ival_corners_def b_mul_ext ival_of_pair_def iv_gamma_def
        ext_mul_i64 is_i64_min_max xy [symmetric])
qed

section \<open>Division\<close>

definition ext_div :: "bound \<Rightarrow> bound \<Rightarrow> bound" where
  "ext_div p q =
    (if b_is_infinite p then if q < 0 then b_neg p else p
     else if b_is_infinite q then 0 else p sdiv q)"

lemma b_div_ext: "q \<noteq> 0 \<Longrightarrow> b_is_finite p \<or> b_is_finite q \<Longrightarrow> b_div p q = Ret (ext_div p q)"
  by (auto simp: b_div_def ext_div_def b_is_finite_def)

lemma sdiv_pos:
  fixes x q :: int
  assumes "0 < q"
  shows "0 \<le> x \<Longrightarrow> x sdiv q = x div q" "x \<le> 0 \<Longrightarrow> x sdiv q = - ((- x) div q)"
  using assms by (auto simp: signed_divide_int_def sgn_if)

lemma sdiv_neg: "(x :: int) sdiv (- q) = - (x sdiv q)"
  by (auto simp: signed_divide_int_def sgn_minus)

lemma sdiv_mono:
  fixes x y q :: int
  assumes "x \<le> y" "0 < q"
  shows "x sdiv q \<le> y sdiv q"
proof (cases "0 \<le> x \<or> y \<le> 0")
  case True
  then show ?thesis
    using assms zdiv_mono1 [of x y q] zdiv_mono1 [of "- y" "- x" q]
    by (cases "0 \<le> x") (auto simp: sdiv_pos)
next
  case False
  then have "x sdiv q \<le> 0" "0 \<le> y sdiv q"
    using assms by (auto simp: sdiv_pos pos_imp_zdiv_nonneg_iff)
  then show ?thesis by simp
qed

lemma sdiv_mono_divisor:
  fixes x q r :: int
  assumes "0 < q" "q \<le> r"
  shows "0 \<le> x \<Longrightarrow> 0 \<le> x sdiv r \<and> x sdiv r \<le> x sdiv q"
    and "x \<le> 0 \<Longrightarrow> x sdiv q \<le> x sdiv r \<and> x sdiv r \<le> 0"
  using assms zdiv_mono2 [of x q r] zdiv_mono2 [of "- x" q r]
  by (auto simp: sdiv_pos pos_imp_zdiv_nonneg_iff)

lemma sdiv_abs: "(q :: int) \<noteq> 0 \<Longrightarrow> \<bar>x sdiv q\<bar> \<le> \<bar>x\<bar>"
proof -
  assume "q \<noteq> 0"
  have "\<bar>x sdiv q\<bar> = \<bar>sgn x * sgn q\<bar> * (\<bar>x\<bar> div \<bar>q\<bar>)"
    by (simp add: signed_divide_int_def abs_mult pos_imp_zdiv_nonneg_iff \<open>q \<noteq> 0\<close>)
  also have "\<dots> \<le> 1 * (\<bar>x\<bar> div \<bar>q\<bar>)"
    using \<open>q \<noteq> 0\<close> by (intro mult_right_mono) (auto simp: sgn_if pos_imp_zdiv_nonneg_iff)
  also have "\<dots> \<le> \<bar>x\<bar>"
    using \<open>q \<noteq> 0\<close> zdiv_mono2 [of "\<bar>x\<bar>" 1 "\<bar>q\<bar>"] by simp
  finally show ?thesis .
qed

lemma ext_div_i64: "is_i64 p \<Longrightarrow> q \<noteq> 0 \<Longrightarrow> is_i64 (ext_div p q)"
  using sdiv_abs [of q p] by (auto simp: ext_div_def b_neg_def bound_defs)

text \<open>Monotone in the dividend for a positive divisor, and towards zero as the divisor grows.\<close>

lemma ext_div_mono:
  assumes "p \<le> r" "0 < q" "is_i64 p" "is_i64 r"
  shows "ext_div p q \<le> ext_div r q"
proof -
  have "\<bar>p sdiv q\<bar> \<le> \<bar>p\<bar>" "\<bar>r sdiv q\<bar> \<le> \<bar>r\<bar>" "p sdiv q \<le> r sdiv q"
    using assms sdiv_abs [of q] sdiv_mono by auto
  then show ?thesis
    using assms by (auto simp: ext_div_def bound_defs)
qed

lemma ext_div_antimono:
  assumes "p \<le> r" "q < 0" "is_i64 p" "is_i64 r"
  shows "ext_div r q \<le> ext_div p q"
proof -
  have "\<bar>p sdiv q\<bar> \<le> \<bar>p\<bar>" "\<bar>r sdiv q\<bar> \<le> \<bar>r\<bar>"
    using assms sdiv_abs [of q] by auto
  moreover have "r sdiv q \<le> p sdiv q"
    using sdiv_mono [of p r "- q"] assms by (simp add: sdiv_neg)
  ultimately show ?thesis
    using assms by (auto simp: ext_div_def bound_defs b_neg_def)
qed

lemma ext_div_divisor:
  assumes x: "in_range x" and q: "q \<le> r" "is_i64 q" "is_i64 r" "0 < q \<or> r < 0"
  shows "0 \<le> x \<Longrightarrow> ext_div x r \<le> ext_div x q" "x \<le> 0 \<Longrightarrow> ext_div x q \<le> ext_div x r"
proof -
  have "(0 \<le> x \<longrightarrow> ext_div x r \<le> ext_div x q) \<and> (x \<le> 0 \<longrightarrow> ext_div x q \<le> ext_div x r)"
  proof (cases "0 < q")
    case True
    then show ?thesis
      using x q sdiv_mono_divisor [of q r x] sdiv_mono_divisor [of q q x]
      by (auto simp: ext_div_def bound_defs)
  next
    case False
    then show ?thesis
      using x q sdiv_mono_divisor [of "- r" "- q" x] sdiv_mono_divisor [of "- r" "- r" x]
      by (auto simp: ext_div_def bound_defs sdiv_neg)
  qed
  then show "0 \<le> x \<Longrightarrow> ext_div x r \<le> ext_div x q" "x \<le> 0 \<Longrightarrow> ext_div x q \<le> ext_div x r"
    by auto
qed

lemma in_range_sdiv: "in_range x \<Longrightarrow> y \<noteq> 0 \<Longrightarrow> in_range (x sdiv y)"
  using sdiv_abs [of y x] by (auto simp: in_range_def)

lemma ext_div_between:
  assumes "p \<le> x" "x \<le> r" "is_i64 p" "is_i64 x" "is_i64 r" "q \<noteq> 0"
  shows "ext_div p q \<le> ext_div x q \<and> ext_div x q \<le> ext_div r q \<or>
         ext_div r q \<le> ext_div x q \<and> ext_div x q \<le> ext_div p q"
  using assms ext_div_mono [of _ _ q] ext_div_antimono [of _ _ q] by (cases "0 < q") auto

lemma ival_div_sound:
  assumes "x \<in> iv_gamma a" "y \<in> iv_gamma b"
    and "\<not> ival_includes b 0" and fin: "ival_is_finite a \<or> ival_is_finite b"
  shows "osound (ival_div a b) (\<lambda>i. x sdiv y \<in> iv_gamma i)"
proof -
  note a = iv_gammaD [OF assms(1)] and b = iv_gammaD [OF assms(2)]
  have sgn: "0 < low b \<or> high b < 0"
    using assms(3) by (auto simp: ival_includes_def)
  then have nz: "y \<noteq> 0" "low b \<noteq> 0" "high b \<noteq> 0"
    using b by auto
  have xy: "x sdiv y = ext_div x y"
    using a b by (auto simp: ext_div_def bound_defs)
  have col: "ext_div (low a) q \<le> ext_div x q \<and> ext_div x q \<le> ext_div (high a) q \<or>
             ext_div (high a) q \<le> ext_div x q \<and> ext_div x q \<le> ext_div (low a) q" if "q \<noteq> 0" for q
    using ext_div_between a that by (simp add: in_range_i64)
  have row: "ext_div x (low b) \<le> ext_div x y \<and> ext_div x y \<le> ext_div x (high b) \<or>
             ext_div x (high b) \<le> ext_div x y \<and> ext_div x y \<le> ext_div x (low b)"
    using ext_div_divisor [OF a(1), of "low b" y] ext_div_divisor [OF a(1), of y "high b"] b sgn
    by (cases "0 \<le> x") (auto simp: in_range_i64)
  have defd: "b_div p q = Ret (ext_div p q)" if "p \<in> {low a, high a}" "q \<in> {low b, high b}" for p q
    using that fin nz by (auto intro!: b_div_ext simp: ival_is_finite_def ival_is_infinite_def b_is_finite_def)
  have "osound (ival_corners b_div a b) (\<lambda>i. x sdiv y \<in> iv_gamma i)"
    using a b nz corner_bounds [OF row col [OF nz(2)] col [OF nz(3)]] in_range_sdiv [OF a(1) nz(1)]
    by (simp add: ival_corners_def defd ival_of_pair_def iv_gamma_def
        ext_div_i64 is_i64_min_max xy [symmetric])
  then show ?thesis
    using assms(3) by (simp add: ival_div_def)
qed

section \<open>Set operations and comparisons\<close>

text \<open>The intersection is exact, the union covers both, and the tests are exact on \<open>bool\<close>.\<close>

definition iv_plain :: "ival \<Rightarrow> int set" where
  "iv_plain i = {x. low i \<le> x \<and> x \<le> high i}"

lemma iv_gamma_plain: "x \<in> iv_gamma i \<longleftrightarrow> x \<in> iv_plain i \<and> in_range x \<and> is_i64 (low i) \<and> is_i64 (high i)"
  by (auto simp: iv_gamma_def iv_plain_def)

lemma ival_is_bottom_iff: "ival_is_bottom i \<longleftrightarrow> iv_plain i = {}"
  by (auto simp: ival_is_bottom_def iv_plain_def)

lemma ival_meet_plain: "iv_plain (ival_meet a b) = iv_plain a \<inter> iv_plain b"
  by (auto simp: ival_meet_def iv_plain_def ival_is_bottom_def)

lemma ival_join_plain: "iv_plain a \<union> iv_plain b \<subseteq> iv_plain (ival_join a b)"
  by (auto simp: ival_join_def iv_plain_def ival_is_bottom_def)

lemma iv_plain_atLeastAtMost: "iv_plain i = {low i..high i}"
  by (auto simp: iv_plain_def)

lemma ival_join_least:
  "iv_plain a \<subseteq> iv_plain c \<Longrightarrow> iv_plain b \<subseteq> iv_plain c \<Longrightarrow> iv_plain (ival_join a b) \<subseteq> iv_plain c"
  by (auto simp: ival_join_def iv_plain_atLeastAtMost ival_is_bottom_def)

lemma ival_intersects_plain:
  "iv_plain a \<noteq> {} \<Longrightarrow> iv_plain b \<noteq> {} \<Longrightarrow> ival_intersects a b \<longleftrightarrow> iv_plain a \<inter> iv_plain b \<noteq> {}"
  by (auto simp: ival_intersects_def iv_plain_atLeastAtMost Int_atLeastAtMost)

lemma ival_tests_sound:
  assumes "x \<in> iv_plain a" "y \<in> iv_plain b"
  shows "(x = y) \<in> tri_gamma (ival_eq a b)" "(x \<noteq> y) \<in> tri_gamma (ival_ne a b)"
    "(x < y) \<in> tri_gamma (ival_lt a b)" "(x > y) \<in> tri_gamma (ival_gt a b)"
    "(x \<le> y) \<in> tri_gamma (ival_le a b)" "(x \<ge> y) \<in> tri_gamma (ival_ge a b)"
proof -
  show eq: "(x = y) \<in> tri_gamma (ival_eq a b)"
    using assms by (auto simp: ival_eq_def iv_plain_def ival_intersects_def)
  show lt: "(x < y) \<in> tri_gamma (ival_lt a b)"
    using assms by (auto simp: ival_lt_def iv_plain_def ival_constant_def)
  show gt: "(x > y) \<in> tri_gamma (ival_gt a b)"
    using assms by (auto simp: ival_gt_def iv_plain_def ival_constant_def)
  show "(x \<noteq> y) \<in> tri_gamma (ival_ne a b)"
    using eq by (auto simp: ival_ne_def tri_not_image)
  have "(x \<le> y) = (\<not> x > y)" "(x \<ge> y) = (\<not> x < y)" by auto
  then show "(x \<le> y) \<in> tri_gamma (ival_le a b)" "(x \<ge> y) \<in> tri_gamma (ival_ge a b)"
    using lt gt by (auto simp: ival_le_def ival_ge_def tri_not_image)
qed

lemma ival_to_tristate_sound: "x \<in> iv_plain i \<Longrightarrow> (x \<noteq> 0) \<in> tri_gamma (ival_to_tristate i)"
  by (auto simp: ival_to_tristate_def iv_plain_def ival_includes_def)

lemma ival_of_tristate_gamma: "b \<in> tri_gamma t \<Longrightarrow> of_bool b \<in> iv_plain (ival_of_tristate t)"
  by (cases t) (auto simp: ival_of_tristate_def iv_plain_def tri_maybe_def tri_to_bool_def)

lemma ival_size_mod: "ival_size i = (high i - low i + 1) mod 2 ^ 64"
  unfolding ival_size_def by (metis mod_add_left_eq mod_diff_eq)

section \<open>Properties\<close>

text \<open>
  Interval division computes bounds of every truncated quotient: when the divisor interval does
  not include zero and one of the operands is finite, the interval built from the four corner
  quotients describes the quotient of any two described numbers.
\<close>

theorem interval_division_sound:
  assumes "x \<in> iv_gamma a" "y \<in> iv_gamma b"
    and "\<not> ival_includes b 0" "ival_is_finite a \<or> ival_is_finite b"
  shows "osound (ival_div a b) (\<lambda>i. x sdiv y \<in> iv_gamma i)"
  by (rule ival_div_sound [OF assms])

text \<open>
  The multiplication of two 64-bit bounds, with its overflow pre-checks by truncated division,
  never overflows and equals the exact product clamped to the bounds, where the extreme bounds act
  as infinities with the usual signs and zero times infinity is zero.
\<close>

theorem bound_mul_saturates:
  assumes "is_i64 p" "is_i64 q"
  shows "b_mul p q = Ret (ext_mul p q)"
  by (rule b_mul_ext [OF assms])

text \<open>
  The meet of two intervals is exactly the intersection of the sets of numbers they stand for, and
  the join is the least interval that covers both, empty operands included.
\<close>

theorem interval_lattice_operations:
  "iv_plain (ival_meet a b) = iv_plain a \<inter> iv_plain b \<and>
   (iv_plain (ival_join a b) \<subseteq> iv_plain c) = (iv_plain a \<subseteq> iv_plain c \<and> iv_plain b \<subseteq> iv_plain c)"
  using ival_meet_plain [of a b] ival_join_plain [of a b] ival_join_least [of a c b] by blast

end
