(* ===== verification/Interval_Domain.thy ===== *)
theory Interval_Domain
  imports Interval_Arith
begin

text \<open>
  The interval domain, \<open>lava/include/lava/interval.hpp\<close>. A value is an interval of 64-bit bounds;
  the public constructors cancel the path when the interval is empty. The backward operations
  refine the cells of the operands in place and split the path by \<open>__lart_choose\<close>; they are
  programs over a store of cells, so that cells shared by the operands behave as in the code.
\<close>

section \<open>Construction\<close>

definition choose_limit :: bound where
  "choose_limit = 200"

text \<open>The constructors from an interval and from two bounds.\<close>

definition iv_make :: "ival \<Rightarrow> ival outcome" where
  "iv_make i = (if ival_is_bottom i then Cancel else Ret i)"

definition iv_bounds :: "bound \<Rightarrow> bound \<Rightarrow> ival outcome" where
  "iv_bounds a b = iv_make (mk_ival a b)"

definition iv_clone :: "ival \<Rightarrow> ival outcome" where
  "iv_clone i = iv_bounds (low i) (high i)"

definition iv_is_infinite :: "ival \<Rightarrow> bool" where
  "iv_is_infinite i \<longleftrightarrow> low i = minus_infinity \<or> high i = plus_infinity"

definition iv_is_finite :: "ival \<Rightarrow> bool" where
  "iv_is_finite i \<longleftrightarrow> \<not> iv_is_infinite i"

definition iv_normalize :: "ival \<Rightarrow> ival" where
  "iv_normalize i = (if ival_is_bottom i then mk_ival 0 (-1) else i)"

definition iv_top :: "ival outcome" where
  "iv_top = iv_bounds minus_infinity plus_infinity"

definition iv_bottom :: "ival outcome" where
  "iv_bottom = iv_bounds 0 (-1)"

definition iv_includes :: "ival \<Rightarrow> ival \<Rightarrow> bool" where
  "iv_includes i q \<longleftrightarrow> low i \<le> low q \<and> high q \<le> high i"

definition iv_excludes :: "ival \<Rightarrow> ival \<Rightarrow> bool" where
  "iv_excludes i q \<longleftrightarrow> high q < low i \<or> high i < low q"

fun iv_lift :: "c_value \<Rightarrow> ival outcome" where
  "iv_lift (c_bool b) = Ret (ival_of_bool b)"
| "iv_lift (c_int sgnd w v) = iv_bounds (number_cast True 64 v) (number_cast True 64 v)"
| "iv_lift v = Fault []"

text \<open>Lowering chooses an element; the size is passed as an \<open>int\<close>.\<close>

definition iv_lower :: "ival \<Rightarrow> int run" where
  "iv_lower i =
    rbind (lart_choose (number_cast True 32 (ival_size i))) (\<lambda>c. rret (number_cast True 64 (low i + c)))"

definition iv_any :: "ival outcome" where
  "iv_any = iv_bounds minus_infinity plus_infinity"

definition iv_any_variadic :: "int list \<Rightarrow> ival outcome" where
  "iv_any_variadic vs = iv_make (foldl (\<lambda>res v. ival_join res (mk_ival v v)) ival_bottom vs)"

definition iv_any_range :: "int \<Rightarrow> int \<Rightarrow> ival outcome" where
  "iv_any_range lo hi = iv_bounds lo hi"

definition iv_intersect :: "ival \<Rightarrow> ival \<Rightarrow> ival outcome" where
  "iv_intersect i q =
    (let i' = ival_intersect i q in if ival_is_bottom i' then Cancel else Ret i')"

definition iv_assume :: "ival \<Rightarrow> bool \<Rightarrow> ival outcome" where
  "iv_assume i constraint = iv_intersect i (ival_of_bool constraint)"

definition iv_to_tristate :: "ival \<Rightarrow> tristate outcome" where
  "iv_to_tristate i = Ret (ival_to_tristate i)"

section \<open>Forward operations\<close>

definition iv_bin :: "op_tag \<Rightarrow> ival \<Rightarrow> ival \<Rightarrow> ival outcome" where
  "iv_bin t a b =
    (if t = tag_join then iv_make (ival_join a b)
     else if t = tag_meet then iv_make (ival_meet a b)
     else if t = tag_add then obind (ival_add a b) iv_make
     else if t = tag_sub then obind (ival_sub a b) iv_make
     else if t = tag_mul then obind (ival_mul a b) iv_make
     else if t = tag_sdiv then obind (ival_div a b) iv_make
     else if t = tag_udiv then obind (ival_div a b) iv_make
     else if t = tag_srem then obind (ival_mod a b) iv_make
     else if t = tag_urem then obind (ival_mod a b) iv_make
     else if t = tag_eq then Ret (ival_of_tristate (ival_eq a b))
     else if t = tag_ne then Ret (ival_of_tristate (ival_ne a b))
     else if t = tag_ugt then Ret (ival_of_tristate (ival_gt a b))
     else if t = tag_uge then Ret (ival_of_tristate (ival_ge a b))
     else if t = tag_ult then Ret (ival_of_tristate (ival_lt a b))
     else if t = tag_ule then Ret (ival_of_tristate (ival_le a b))
     else if t = tag_sgt then Ret (ival_of_tristate (ival_gt a b))
     else if t = tag_sge then Ret (ival_of_tristate (ival_ge a b))
     else if t = tag_slt then Ret (ival_of_tristate (ival_lt a b))
     else if t = tag_sle then Ret (ival_of_tristate (ival_le a b))
     else if t = tag_shl then obind (ival_shl a b) iv_make
     else if t = tag_ashr then obind (ival_shr a b) iv_make
     else if t = tag_lshr then obind (ival_shr a b) iv_make
     else if t = tag_op_and then iv_bounds plus_infinity minus_infinity
     else if t = tag_op_or then iv_bounds plus_infinity minus_infinity
     else if t = tag_op_xor then iv_bounds plus_infinity minus_infinity
     else mixin_bin t a b)"

definition iv_cast :: "op_tag \<Rightarrow> ival \<Rightarrow> nat \<Rightarrow> ival outcome" where
  "iv_cast t i bw =
    (if t = tag_sext then iv_clone i
     else if t = tag_trunc then iv_clone i
     else if t = tag_zext then iv_clone i
     else if t = tag_zfit then iv_clone i
     else mixin_cast t i bw)"

section \<open>Backward operations on the cells\<close>

text \<open>\<open>a.intersect( e )\<close>, with the expression evaluated first.\<close>

definition intersect_cell :: "nat \<Rightarrow> ival outcome \<Rightarrow> ival store \<Rightarrow> ival store run" where
  "intersect_cell a e s = [obind e (\<lambda>q. omap (\<lambda>i. s(a := i)) (iv_intersect (s a) q))]"

definition meet_low_cell :: "nat \<Rightarrow> bound \<Rightarrow> ival store \<Rightarrow> ival store" where
  "meet_low_cell a b s = s(a := ival_meet_low b (s a))"

definition meet_high_cell :: "nat \<Rightarrow> bound \<Rightarrow> ival store \<Rightarrow> ival store" where
  "meet_high_cell a b s = s(a := ival_meet_high b (s a))"

definition validity_check :: "nat \<Rightarrow> ival store \<Rightarrow> ival store outcome" where
  "validity_check a s = (if ival_is_bottom (s a) then Cancel else Ret s)"

definition exclude_cell :: "nat \<Rightarrow> bound \<Rightarrow> ival store \<Rightarrow> ival store run" where
  "exclude_cell a b s =
    [obind (if low (s a) = b then omap (\<lambda>l. s(a := (s a)\<lparr>low := l\<rparr>)) (b_increment (low (s a)))
            else Ret s) (\<lambda>s1.
     obind (if high (s1 a) = b then omap (\<lambda>h. s1(a := (s1 a)\<lparr>high := h\<rparr>)) (b_decrement (high (s1 a)))
            else Ret s1) (validity_check a))]"

text \<open>A correction is tried when the difference is positive and within the limit.\<close>

definition within_limit :: "bound \<Rightarrow> bool" where
  "within_limit d \<longleftrightarrow> d > 0 \<and> d \<le> choose_limit"

text \<open>\<open>__lart_choose( int( d ) )\<close>.\<close>

definition choose_int :: "bound outcome \<Rightarrow> int run" where
  "choose_int d = rbind [d] (\<lambda>n. lart_choose (number_cast True 32 n))"

definition badd :: "nat \<Rightarrow> nat \<Rightarrow> nat \<Rightarrow> ival store \<Rightarrow> ival store run" where
  "badd r a b s =
    rbind [ival_add (s a) (s b)] (\<lambda>r_new.
    if tri_to_bool (ival_eq r_new (s r)) then rret s
    else
      rbind [b_sub (low (s r)) (low r_new)] (\<lambda>diff_low.
      rbind [b_sub (high r_new) (high (s r))] (\<lambda>diff_high.
      rbind
        (if within_limit diff_low then
           rbind (choose_int (b_add diff_low 1)) (\<lambda>i.
           rbind [omap (\<lambda>l. meet_low_cell a l s) (b_add (low (s a)) i)] (\<lambda>s1.
           [omap (\<lambda>l. meet_low_cell b l s1)
              (obind (b_add (low (s1 b)) diff_low) (\<lambda>l. b_sub l i))]))
         else rret s) (\<lambda>s2.
      if within_limit diff_high then
        rbind (choose_int (b_add diff_high 1)) (\<lambda>i.
        rbind [omap (\<lambda>h. meet_high_cell a h s2) (b_sub (high (s2 a)) i)] (\<lambda>s3.
        [omap (\<lambda>h. meet_high_cell b h s3)
           (obind (b_sub (high (s3 b)) diff_high) (\<lambda>h. b_add h i))]))
      else rret s2))))"

definition bsub :: "nat \<Rightarrow> nat \<Rightarrow> nat \<Rightarrow> ival store \<Rightarrow> ival store run" where
  "bsub r a b s =
    rbind [ival_sub (s a) (s b)] (\<lambda>r_new.
    if tri_to_bool (ival_eq r_new (s r)) then rret s
    else
      rbind [b_sub (low (s r)) (low r_new)] (\<lambda>diff_low.
      rbind [b_sub (high r_new) (high (s r))] (\<lambda>diff_high.
      rbind
        (if within_limit diff_low then
           rbind (choose_int (b_add diff_low 1)) (\<lambda>i.
           rbind [omap (\<lambda>l. meet_low_cell a l s) (b_add (low (s a)) i)] (\<lambda>s1.
           [omap (\<lambda>h. meet_high_cell b h s1)
              (obind (b_sub (high (s1 b)) diff_low) (\<lambda>h. b_add h i))]))
         else rret s) (\<lambda>s2.
      if within_limit diff_high then
        rbind (choose_int (b_add diff_high 1)) (\<lambda>i.
        rbind [omap (\<lambda>h. meet_high_cell a h s2) (b_sub (high (s2 a)) i)] (\<lambda>s3.
        [omap (\<lambda>l. meet_low_cell b l s3)
           (obind (b_add (low (s3 b)) diff_high) (\<lambda>l. b_sub l i))]))
      else rret s2))))"

text \<open>Division with round up.\<close>

definition div_up :: "bound \<Rightarrow> bound \<Rightarrow> bound outcome" where
  "div_up a b =
    obind (b_div a b) (\<lambda>q. obind (b_mod a b) (\<lambda>m. b_add q (of_bool (m \<noteq> 0))))"

definition cancel_if_bottom :: "nat \<Rightarrow> nat \<Rightarrow> ival store \<Rightarrow> ival store outcome" where
  "cancel_if_bottom a b s = (if ival_is_bottom (s a) \<or> ival_is_bottom (s b) then Cancel else Ret s)"

definition bmul_low :: "nat \<Rightarrow> nat \<Rightarrow> nat \<Rightarrow> ival store \<Rightarrow> ival store run" where
  "bmul_low r a b s =
    rbind [div_up (low (s r)) (low (s b))] (\<lambda>new_high.
    rbind [div_up (low (s r)) (high (s b))] (\<lambda>new_low.
    let s1 = meet_low_cell a new_low s in
    rbind (choose_int (obind (b_sub new_high new_low) (\<lambda>d. b_add d 1))) (\<lambda>i.
    rbind [omap (\<lambda>l. meet_low_cell a l s1) (b_sub new_high i)] (\<lambda>s2.
    [obind (obind (b_sub new_high i) (div_up (low (s2 r))))
       (\<lambda>l. cancel_if_bottom a b (meet_low_cell b l s2))]))))"

definition bmul_high :: "nat \<Rightarrow> nat \<Rightarrow> nat \<Rightarrow> ival store \<Rightarrow> ival store run" where
  "bmul_high r a b s =
    rbind [omap (\<lambda>q. max q (low (s a))) (b_div (high (s r)) (high (s b)))] (\<lambda>new_low.
    rbind (choose_int (obind (b_sub (high (s a)) new_low) (\<lambda>d. b_add d 1))) (\<lambda>i.
    rbind [omap (\<lambda>h. meet_high_cell a h s) (b_add new_low i)] (\<lambda>s2.
    [obind (obind (b_add new_low i) (b_div (high (s2 r))))
       (\<lambda>h. cancel_if_bottom a b (meet_high_cell b h s2))])))"

definition bmul :: "nat \<Rightarrow> nat \<Rightarrow> nat \<Rightarrow> ival store \<Rightarrow> ival store run" where
  "bmul r a b s =
    rbind [ival_mul (s a) (s b)] (\<lambda>r_new.
    if ival_includes_ival (s r) r_new then rret s
    else
      rbind [b_sub (low (s r)) (low r_new)] (\<lambda>diff_low.
      rbind [b_sub (high r_new) (high (s r))] (\<lambda>diff_high.
      rbind (if within_limit diff_low then bmul_low r a b s else rret s) (\<lambda>s2.
      if within_limit diff_high then bmul_high r a b s2 else rret s2))))"

definition iv_bop_add :: "nat \<Rightarrow> nat \<Rightarrow> nat \<Rightarrow> ival store \<Rightarrow> ival store run" where
  "iv_bop_add r a b s =
    rbind (intersect_cell a (ival_sub (s r) (s b)) s) (\<lambda>s1.
    rbind (intersect_cell b (ival_sub (s1 r) (s1 a)) s1) (badd r a b))"

definition iv_bop_sub :: "nat \<Rightarrow> nat \<Rightarrow> nat \<Rightarrow> ival store \<Rightarrow> ival store run" where
  "iv_bop_sub r a b s =
    rbind (intersect_cell a (ival_add (s r) (s b)) s) (\<lambda>s1.
    rbind (intersect_cell b (ival_sub (s1 a) (s1 r)) s1) (bsub r a b))"

text \<open>
  The guard's \<open>return\<close> has no semicolon, so that it returns the value of the next statement: the
  first intersection is done exactly when an operand is infinite, and then nothing else is.
\<close>

definition iv_bop_mul :: "nat \<Rightarrow> nat \<Rightarrow> nat \<Rightarrow> ival store \<Rightarrow> ival store run" where
  "iv_bop_mul r a b s =
    (if iv_is_infinite (s a) \<or> iv_is_infinite (s b) then
       intersect_cell a (ival_div (s r) (s b)) s
     else rbind (intersect_cell b (ival_div (s r) (s a)) s) (bmul r a b))"

definition iv_bop_sdiv :: "nat \<Rightarrow> nat \<Rightarrow> nat \<Rightarrow> ival store \<Rightarrow> ival store run" where
  "iv_bop_sdiv r a b s =
    rbind (intersect_cell a (ival_mul (s b) (s r)) s) (\<lambda>s1.
    if iv_is_finite (s1 a) \<and> iv_is_finite (s1 r)
    then intersect_cell b (ival_div (s1 a) (s1 r)) s1 else rret s1)"

definition iv_bop_join :: "nat \<Rightarrow> nat \<Rightarrow> nat \<Rightarrow> ival store \<Rightarrow> ival store run" where
  "iv_bop_join r a b s =
    rbind (intersect_cell a (Ret (s r)) s) (\<lambda>s1. intersect_cell b (Ret (s1 r)) s1)"

definition beq_impl :: "nat \<Rightarrow> nat \<Rightarrow> ival store \<Rightarrow> ival store run" where
  "beq_impl a b s =
    rbind (intersect_cell a (Ret (s b)) s) (\<lambda>s1.
    rbind (intersect_cell b (Ret (s1 a)) s1) (\<lambda>s2.
    rbind [b_sub (high (s2 a)) (low (s2 a))] (\<lambda>interval_size.
    if within_limit interval_size then
      rbind (choose_int (Ret interval_size)) (\<lambda>i.
      rbind (intersect_cell a (omap (\<lambda>l. mk_ival l l) (b_add (low (s2 a)) i)) s2) (\<lambda>s3.
      intersect_cell b (omap (\<lambda>l. mk_ival l l) (b_add (low (s3 b)) i)) s3))
    else rret s2)))"

definition bgt :: "nat \<Rightarrow> nat \<Rightarrow> bool \<Rightarrow> ival store \<Rightarrow> ival store run" where
  "bgt a b strict s =
    (let s1 = meet_low_cell a (low (s b)) s in
     rbind (if strict then exclude_cell a (low (s1 b)) s1 else rret s1) (\<lambda>s2.
     let s3 = meet_high_cell b (high (s2 a)) s2 in
     rbind (if strict then exclude_cell b (high (s3 a)) s3 else rret s3) (\<lambda>s4.
     let intersection = ival_meet (s4 a) (s4 b) in
     if ival_empty intersection then rret s4
     else
       let size = ival_size intersection in
       if choose_limit < number_cast True 64 size then rret s4
       else
         rbind (lart_choose (number_cast True 32 (if strict then size + 1 else size))) (\<lambda>i.
         rbind [b_add i (low intersection)] (\<lambda>delim.
         rbind (intersect_cell a (Ret (mk_ival delim (high (s4 a)))) s4) (\<lambda>s5.
         intersect_cell b
           (omap (mk_ival (low (s5 b))) (if strict then b_sub delim 1 else Ret delim)) s5))))))"

definition bne_impl :: "nat \<Rightarrow> nat \<Rightarrow> ival store \<Rightarrow> ival store run" where
  "bne_impl a b s =
    (if \<not> ival_empty (ival_meet (s a) (s b)) then
       if ival_constant (s a) \<and> (low (s a) = low (s b) \<or> low (s a) = high (s b)) then
         exclude_cell b (low (s a)) s
       else if ival_constant (s b) \<and> (low (s b) = low (s a) \<or> low (s b) = high (s a)) then
         exclude_cell a (low (s b)) s
       else rbind (lart_choose 2) (\<lambda>c. if c \<noteq> 0 then bgt a b True s else bgt b a True s)
     else rret s)"

definition iv_beq :: "nat \<Rightarrow> nat \<Rightarrow> nat \<Rightarrow> bool \<Rightarrow> ival store \<Rightarrow> ival store run" where
  "iv_beq r a b negated s =
    rbind (if tri_to_bool (ival_eq_tristate (s r) (tristate_of_bool (\<not> negated)))
           then beq_impl a b s else rret s) (\<lambda>s1.
    if tri_to_bool (ival_eq_tristate (s1 r) (tristate_of_bool negated))
    then bne_impl a b s1 else rret s1)"

definition iv_bgt :: "nat \<Rightarrow> nat \<Rightarrow> nat \<Rightarrow> bool \<Rightarrow> ival store \<Rightarrow> ival store run" where
  "iv_bgt r a b negated s =
    rbind (if tri_to_bool (ival_eq_tristate (s r) (tristate_of_bool (\<not> negated)))
           then bgt a b True s else rret s) (\<lambda>s1.
    if tri_to_bool (ival_eq_tristate (s1 r) (tristate_of_bool negated))
    then bgt b a False s1 else rret s1)"

definition iv_bop :: "op_tag \<Rightarrow> nat \<Rightarrow> nat \<Rightarrow> nat \<Rightarrow> ival store \<Rightarrow> ival store run" where
  "iv_bop t r a b s =
    (if t = tag_add then iv_bop_add r a b s
     else if t = tag_sub then iv_bop_sub r a b s
     else if t = tag_mul then iv_bop_mul r a b s
     else if t = tag_sdiv then iv_bop_sdiv r a b s
     else if t = tag_udiv then iv_bop_sdiv r a b s
     else if t = tag_eq then iv_beq r a b False s
     else if t = tag_ne then iv_beq r a b True s
     else if t = tag_sgt then iv_bgt r a b False s
     else if t = tag_slt then iv_bgt r b a False s
     else if t = tag_sge then iv_bgt r b a True s
     else if t = tag_sle then iv_bgt r a b True s
     else if t = tag_ugt then iv_bgt r a b False s
     else if t = tag_uge then iv_bgt r b a True s
     else if t = tag_ult then iv_bgt r b a False s
     else if t = tag_ule then iv_bgt r a b True s
     else mixin_bop t r a b s)"

definition iv_bun :: "op_tag \<Rightarrow> nat \<Rightarrow> nat \<Rightarrow> ival store \<Rightarrow> ival store run" where
  "iv_bun t r a s = (if t = tag_zfit then rret (s(a := s r)) else mixin_bun t r a s)"

definition interval_domain :: "ival domain" where
  "interval_domain =
    \<lparr>dom_lift = iv_lift, dom_any = iv_any, dom_any_range = iv_any_range,
     dom_assume = iv_assume, dom_to_tristate = iv_to_tristate,
     dom_bin = iv_bin, dom_cast = iv_cast, dom_bop = iv_bop, dom_bun = iv_bun\<rparr>"

section \<open>Forward soundness\<close>

text \<open>The concrete operations whose results keep away from the infinities.\<close>

definition conc_ival :: "op_tag \<Rightarrow> int \<Rightarrow> int \<Rightarrow> int option" where
  "conc_ival t x y = (case conc_int t x y of None \<Rightarrow> None
                      | Some z \<Rightarrow> if in_range z then Some z else None)"

lemma conc_ival_Some: "conc_ival t x y = Some z \<longleftrightarrow> conc_int t x y = Some z \<and> in_range z"
  by (auto simp: conc_ival_def split: option.splits)

lemma iv_make_sound: "x \<in> iv_gamma i \<Longrightarrow> osound (iv_make i) (\<lambda>c. x \<in> iv_gamma c)"
  by (auto simp: iv_make_def ival_is_bottom_def iv_gamma_def)

lemma iv_result_sound:
  "osound m (\<lambda>i. x \<in> iv_gamma i) \<Longrightarrow> osound (obind m iv_make) (\<lambda>c. x \<in> iv_gamma c)"
  by (erule osound_obind) (rule iv_make_sound)

lemma iv_test_sound: "b \<in> tri_gamma t \<Longrightarrow> of_bool b \<in> iv_gamma (ival_of_tristate t)"
  by (cases t) (auto simp: ival_of_tristate_def iv_gamma_def tri_maybe_def tri_to_bool_def bound_defs)

lemma iv_intersect_sound:
  "x \<in> iv_gamma i \<Longrightarrow> x \<in> iv_gamma q \<Longrightarrow> osound (iv_intersect i q) (\<lambda>c. x \<in> iv_gamma c)"
  by (auto simp: iv_intersect_def ival_intersect_def ival_meet_def ival_is_bottom_def iv_gamma_def
      is_i64_min_max)

lemma iv_assume_sound:
  "x \<in> iv_gamma i \<Longrightarrow> x \<in> {0, 1} \<Longrightarrow> osound (iv_assume i (x \<noteq> 0)) (\<lambda>c. x \<in> iv_gamma c)"
  unfolding iv_assume_def
  by (rule iv_intersect_sound) (auto simp: ival_of_bool_def iv_gamma_def bound_defs)

interpretation ivl: forward_sound interval_domain iv_gamma conc_ival "- {tag_sdiv, tag_srem}"
proof
  fix t a b and x y z :: int
  assume t: "t \<in> - {tag_sdiv, tag_srem}" and x: "x \<in> iv_gamma a" and y: "y \<in> iv_gamma b"
    and z: "conc_ival t x y = Some z"
  have zr: "in_range z" and zi: "conc_int t x y = Some z"
    using z by (simp_all add: conc_ival_Some)
  note tests = ival_tests_sound [of x a y b, THEN iv_test_sound]
  have "x \<in> iv_plain a" "y \<in> iv_plain b"
    using x y by (simp_all add: iv_gamma_plain)
  note tests = tests [OF this]
  have cases: "t = tag_add \<and> z = x + y \<or> t = tag_sub \<and> z = x - y \<or> t = tag_mul \<and> z = x * y \<or>
      t = tag_eq \<and> z = of_bool (x = y) \<or> t = tag_ne \<and> z = of_bool (x \<noteq> y) \<or>
      t = tag_slt \<and> z = of_bool (x < y) \<or> t = tag_sgt \<and> z = of_bool (y < x) \<or>
      t = tag_sle \<and> z = of_bool (x \<le> y) \<or> t = tag_sge \<and> z = of_bool (y \<le> x)"
    using t zi by (auto simp: conc_int_def split: if_splits)
  show "osound (dom_bin interval_domain t a b) (\<lambda>c. z \<in> iv_gamma c)"
    using cases tests zr
      iv_result_sound [OF ival_add_sound [OF x y]] iv_result_sound [OF ival_sub_sound [OF x y]]
      iv_result_sound [OF ival_mul_sound [OF x y]]
    by (auto simp: interval_domain_def iv_bin_def)
qed

interpretation ivl_branch: branch_sound interval_domain "\<lambda>i. iv_gamma i \<inter> {0, 1}" "\<lambda>x. x \<noteq> 0"
proof
  fix x a assume x: "x \<in> iv_gamma a \<inter> {0, 1}"
  then show "osound (dom_to_tristate interval_domain a) (\<lambda>t. (x \<noteq> 0) \<in> tri_gamma t)"
    using ival_to_tristate_sound [of x a] by (simp add: interval_domain_def iv_to_tristate_def iv_gamma_plain)
  show "osound (dom_assume interval_domain a (x \<noteq> 0)) (\<lambda>b. x \<in> iv_gamma b \<inter> {0, 1})"
    using x iv_assume_sound [of x a] by (auto simp: interval_domain_def intro: osound_mono)
qed

section \<open>Backward soundness\<close>

text \<open>
  The backward operations keep the valuation while the bounds stay far from the infinities:
  there the bounds compute exactly.
\<close>

definition iv_small :: "ival \<Rightarrow> bool" where
  "iv_small i \<longleftrightarrow> - (2 ^ 60) \<le> low i \<and> high i \<le> 2 ^ 60"

definition small_gamma :: "ival \<Rightarrow> int set" where
  "small_gamma i = {x. iv_small i \<and> low i \<le> x \<and> x \<le> high i}"

definition near :: "int \<Rightarrow> bool" where
  "near x \<longleftrightarrow> - (2 ^ 62) < x \<and> x < 2 ^ 62"

lemma small_gamma_iv_gamma: "x \<in> small_gamma i \<Longrightarrow> x \<in> iv_gamma i"
  by (auto simp: small_gamma_def iv_small_def iv_gamma_def bound_defs)

lemma b_add_near: "near p \<Longrightarrow> near q \<Longrightarrow> b_add p q = Ret (p + q)"
  by (auto simp: near_def b_add_def add_overflows_def bound_defs)

lemma b_sub_near: "near p \<Longrightarrow> near q \<Longrightarrow> b_sub p q = Ret (p - q)"
  by (auto simp: near_def b_sub_def b_neg_def b_add_def add_overflows_def bound_defs)

lemma ival_add_near:
  "near (low a) \<Longrightarrow> near (high a) \<Longrightarrow> near (low b) \<Longrightarrow> near (high b) \<Longrightarrow>
    ival_add a b = Ret (mk_ival (low a + low b) (high a + high b))"
  by (simp add: ival_add_def b_add_near)

lemma ival_sub_near:
  "near (low a) \<Longrightarrow> near (high a) \<Longrightarrow> near (low b) \<Longrightarrow> near (high b) \<Longrightarrow>
    ival_sub a b = Ret (mk_ival (low a - high b) (high a - low b))"
  by (simp add: ival_sub_def b_sub_near)

lemma small_gamma_near:
  assumes "x \<in> small_gamma i"
  shows "near (low i)" "near (high i)" "low i \<le> x" "x \<le> high i" "iv_small i"
    "- (2 ^ 60) \<le> x" "x \<le> 2 ^ 60" "- (2 ^ 60) \<le> low i" "low i \<le> 2 ^ 60"
    "- (2 ^ 60) \<le> high i" "high i \<le> 2 ^ 60"
  using assms by (auto simp: small_gamma_def iv_small_def near_def)

lemma small_gammaI: "iv_small i \<Longrightarrow> low i \<le> x \<Longrightarrow> x \<le> high i \<Longrightarrow> x \<in> small_gamma i"
  by (simp add: small_gamma_def)

text \<open>An intersection with anything that holds the value keeps the value and the smallness.\<close>

lemma intersect_cell_sound:
  assumes "store_holds small_gamma s \<sigma>" "osound e (\<lambda>q. low q \<le> \<sigma> a \<and> \<sigma> a \<le> high q)"
  shows "rsound (intersect_cell a e s)
    (\<lambda>s'. store_holds small_gamma s' \<sigma> \<and> (\<forall>i. i \<noteq> a \<longrightarrow> s' i = s i))"
proof (cases e)
  case (Ret q)
  let ?i = "mk_ival (max (low (s a)) (low q)) (min (high (s a)) (high q))"
  note sa = small_gamma_near [OF store_holdsD [OF assms(1)], of a]
  have q: "low q \<le> \<sigma> a" "\<sigma> a \<le> high q"
    using assms(2) Ret by simp_all
  have "\<sigma> a \<in> small_gamma ?i"
    using sa q by (auto simp: small_gamma_def iv_small_def)
  moreover have "iv_intersect (s a) q = Ret ?i"
    using sa q by (auto simp: iv_intersect_def ival_intersect_def ival_meet_def ival_is_bottom_def)
  ultimately show ?thesis
    using assms(1) Ret by (simp add: intersect_cell_def store_holds_upd)
qed (use assms(2) in \<open>simp_all add: intersect_cell_def\<close>)

lemma number_cast_int_small: "- (2 ^ 31) \<le> n \<Longrightarrow> n < 2 ^ 31 \<Longrightarrow> number_cast True 32 n = n"
  by (rule number_cast_idem) (simp_all add: number_min_def number_max_def)

lemma choose_int_sound:
  assumes "d = Ret n" "0 \<le> i" "i < n" "n < 2 ^ 31" "rsound (f i) P"
  shows "rsound (rbind (choose_int d) f) P"
proof (rule rsound_rbind [where P = "\<lambda>j. j = i"])
  show "rsound (choose_int d) (\<lambda>j. j = i)"
    using assms by (intro rsound_returns [of i]) (auto simp: choose_int_def number_cast_int_small)
qed (use assms in simp)

text \<open>Raising a lower and lowering an upper bound to a value that still admits the valuation.\<close>

lemma meet_low_cell_sound:
  "store_holds small_gamma s \<sigma> \<Longrightarrow> l \<le> \<sigma> a \<Longrightarrow> store_holds small_gamma (meet_low_cell a l s) \<sigma>"
  by (auto simp: store_holds_def meet_low_cell_def ival_meet_low_def small_gamma_def iv_small_def
      le_max_iff_disj)

lemma meet_high_cell_sound:
  "store_holds small_gamma s \<sigma> \<Longrightarrow> \<sigma> a \<le> h \<Longrightarrow> store_holds small_gamma (meet_high_cell a h s) \<sigma>"
  by (auto simp: store_holds_def meet_high_cell_def ival_meet_high_def small_gamma_def iv_small_def
      min_le_iff_disj)

lemma meet_cell_bounds [simp]:
  "high (meet_low_cell a l s i) = high (s i)" "low (meet_high_cell a h s i) = low (s i)"
  "i \<noteq> a \<Longrightarrow> meet_low_cell a l s i = s i" "i \<noteq> a \<Longrightarrow> meet_high_cell a h s i = s i"
  by (simp_all add: meet_low_cell_def meet_high_cell_def ival_meet_low_def ival_meet_high_def)

text \<open>
  A correction by a split: of the difference \<open>d\<close>, the part \<open>i\<close> goes to the one operand and the
  rest to the other. Some split fits the valuation, whatever it is.
\<close>

lemma near_add_limit: "within_limit d \<Longrightarrow> near d \<and> near (d + 1) \<and> b_add d 1 = Ret (d + 1)"
  by (auto simp: within_limit_def choose_limit_def near_def b_add_near)

lemma split_choice:
  assumes "within_limit d" "0 \<le> u" "0 \<le> v" "d \<le> u + v"
    and "\<And>i. 0 \<le> i \<Longrightarrow> i \<le> d \<Longrightarrow> i \<le> u \<Longrightarrow> d - i \<le> v \<Longrightarrow> rsound (f i) P"
  shows "rsound (rbind (choose_int (b_add d 1)) f) P"
proof (rule choose_int_sound)
  show "b_add d 1 = Ret (d + 1)" using near_add_limit [OF assms(1)] by simp
  show "0 \<le> min d u" "min d u < d + 1" "d + 1 < 2 ^ 31"
    using assms(1,2) by (auto simp: within_limit_def choose_limit_def)
  show "rsound (f (min d u)) P"
    using assms by (intro assms(5)) (auto simp: within_limit_def min_def)
qed

lemma badd_sound:
  assumes H: "store_holds small_gamma s \<sigma>" and "\<sigma> a + \<sigma> b = \<sigma> r" "a \<noteq> b"
  shows "rsound (badd r a b s) (\<lambda>s'. store_holds small_gamma s' \<sigma>)"
proof -
  note na = small_gamma_near [OF store_holdsD [OF H], of a]
    and nb = small_gamma_near [OF store_holdsD [OF H], of b]
    and nr = small_gamma_near [OF store_holdsD [OF H], of r]
  let ?l = "low (s a) + low (s b)" and ?h = "high (s a) + high (s b)"
  let ?dl = "low (s r) - ?l" and ?dh = "?h - high (s r)"
  have new: "ival_add (s a) (s b) = Ret (mk_ival ?l ?h)"
    using na nb by (simp add: ival_add_near)
  have diffs: "b_sub (low (s r)) ?l = Ret ?dl" "b_sub ?h (high (s r)) = Ret ?dh"
    using na nb nr by (auto simp: b_sub_near near_def)
  define P where "P = (\<lambda>s'. store_holds small_gamma s' \<sigma> \<and> high (s' a) = high (s a) \<and> high (s' b) = high (s b))"
  let ?low = "\<lambda>i. rbind [omap (\<lambda>l. meet_low_cell a l s) (b_add (low (s a)) i)] (\<lambda>s1.
         [omap (\<lambda>l. meet_low_cell b l s1)
            (obind (b_add (low (s1 b)) ?dl) (\<lambda>l. b_sub l i))])"
  have low: "rsound (rbind (choose_int (b_add ?dl 1)) ?low) P" if "within_limit ?dl"
  proof (rule split_choice [OF that, of "\<sigma> a - low (s a)" "\<sigma> b - low (s b)"])
    fix i assume i: "0 \<le> i" "i \<le> ?dl" "i \<le> \<sigma> a - low (s a)" "?dl - i \<le> \<sigma> b - low (s b)"
    then have nrs: "near i" "near ?dl" "near (low (s b) + ?dl)"
      using that na nb nr by (auto simp: near_def within_limit_def choose_limit_def)
    then show "rsound (?low i) P"
      using i na nb H assms(3)
      by (auto simp: P_def b_add_near b_sub_near intro!: meet_low_cell_sound)
  qed (use na nb nr assms in auto)
  let ?high = "\<lambda>s2 i. rbind [omap (\<lambda>h. meet_high_cell a h s2) (b_sub (high (s2 a)) i)] (\<lambda>s3.
        [omap (\<lambda>h. meet_high_cell b h s3)
           (obind (b_sub (high (s3 b)) ?dh) (\<lambda>h. b_add h i))])"
  have high: "rsound (rbind (choose_int (b_add ?dh 1)) (?high s2)) (\<lambda>s'. store_holds small_gamma s' \<sigma>)"
    if "within_limit ?dh" and P: "P s2" for s2
  proof (rule split_choice [OF that(1), of "high (s a) - \<sigma> a" "high (s b) - \<sigma> b"])
    fix i assume i: "0 \<le> i" "i \<le> ?dh" "i \<le> high (s a) - \<sigma> a" "?dh - i \<le> high (s b) - \<sigma> b"
    then have nrs: "near i" "near ?dh" "near (high (s b) - ?dh)"
      using that na nb nr by (auto simp: near_def within_limit_def choose_limit_def)
    then show "rsound (?high s2 i) (\<lambda>s'. store_holds small_gamma s' \<sigma>)"
      using i na nb P assms(3)
      by (auto simp: P_def b_add_near b_sub_near intro!: meet_high_cell_sound)
  qed (use na nb nr assms in auto)
  have step: "rsound (if within_limit ?dl then rbind (choose_int (b_add ?dl 1)) ?low else rret s) P"
    using low H by (auto simp: P_def)
  have "rsound (rbind (if within_limit ?dl then rbind (choose_int (b_add ?dl 1)) ?low else rret s)
      (\<lambda>s2. if within_limit ?dh then rbind (choose_int (b_add ?dh 1)) (?high s2) else rret s2))
      (\<lambda>s'. store_holds small_gamma s' \<sigma>)"
    by (rule rsound_rbind [OF step]) (use high in \<open>auto simp: P_def\<close>)
  then show ?thesis
    using H by (simp add: badd_def new diffs)
qed

lemma bsub_sound:
  assumes H: "store_holds small_gamma s \<sigma>" and "\<sigma> a - \<sigma> b = \<sigma> r" "a \<noteq> b"
  shows "rsound (bsub r a b s) (\<lambda>s'. store_holds small_gamma s' \<sigma>)"
proof -
  note na = small_gamma_near [OF store_holdsD [OF H], of a]
    and nb = small_gamma_near [OF store_holdsD [OF H], of b]
    and nr = small_gamma_near [OF store_holdsD [OF H], of r]
  let ?l = "low (s a) - high (s b)" and ?h = "high (s a) - low (s b)"
  let ?dl = "low (s r) - ?l" and ?dh = "?h - high (s r)"
  have new: "ival_sub (s a) (s b) = Ret (mk_ival ?l ?h)"
    using na nb by (simp add: ival_sub_near)
  have diffs: "b_sub (low (s r)) ?l = Ret ?dl" "b_sub ?h (high (s r)) = Ret ?dh"
    using na nb nr by (auto simp: b_sub_near near_def)
  define P where "P = (\<lambda>s'. store_holds small_gamma s' \<sigma> \<and> high (s' a) = high (s a) \<and> low (s' b) = low (s b))"
  let ?low = "\<lambda>i. rbind [omap (\<lambda>l. meet_low_cell a l s) (b_add (low (s a)) i)] (\<lambda>s1.
         [omap (\<lambda>h. meet_high_cell b h s1)
            (obind (b_sub (high (s1 b)) ?dl) (\<lambda>h. b_add h i))])"
  have low: "rsound (rbind (choose_int (b_add ?dl 1)) ?low) P" if "within_limit ?dl"
  proof (rule split_choice [OF that, of "\<sigma> a - low (s a)" "high (s b) - \<sigma> b"])
    fix i assume i: "0 \<le> i" "i \<le> ?dl" "i \<le> \<sigma> a - low (s a)" "?dl - i \<le> high (s b) - \<sigma> b"
    then have nrs: "near i" "near ?dl" "near (high (s b) - ?dl)"
      using that na nb nr by (auto simp: near_def within_limit_def choose_limit_def)
    then show "rsound (?low i) P"
      using i na nb H assms(3)
      by (auto simp: P_def b_add_near b_sub_near intro!: meet_low_cell_sound meet_high_cell_sound)
  qed (use na nb nr assms in auto)
  let ?high = "\<lambda>s2 i. rbind [omap (\<lambda>h. meet_high_cell a h s2) (b_sub (high (s2 a)) i)] (\<lambda>s3.
        [omap (\<lambda>l. meet_low_cell b l s3)
           (obind (b_add (low (s3 b)) ?dh) (\<lambda>l. b_sub l i))])"
  have high: "rsound (rbind (choose_int (b_add ?dh 1)) (?high s2)) (\<lambda>s'. store_holds small_gamma s' \<sigma>)"
    if "within_limit ?dh" and P: "P s2" for s2
  proof (rule split_choice [OF that(1), of "high (s a) - \<sigma> a" "\<sigma> b - low (s b)"])
    fix i assume i: "0 \<le> i" "i \<le> ?dh" "i \<le> high (s a) - \<sigma> a" "?dh - i \<le> \<sigma> b - low (s b)"
    then have nrs: "near i" "near ?dh" "near (low (s b) + ?dh)"
      using that na nb nr by (auto simp: near_def within_limit_def choose_limit_def)
    then show "rsound (?high s2 i) (\<lambda>s'. store_holds small_gamma s' \<sigma>)"
      using i na nb P assms(3)
      by (auto simp: P_def b_add_near b_sub_near intro!: meet_low_cell_sound meet_high_cell_sound)
  qed (use na nb nr assms in auto)
  have step: "rsound (if within_limit ?dl then rbind (choose_int (b_add ?dl 1)) ?low else rret s) P"
    using low H by (auto simp: P_def)
  have "rsound (rbind (if within_limit ?dl then rbind (choose_int (b_add ?dl 1)) ?low else rret s)
      (\<lambda>s2. if within_limit ?dh then rbind (choose_int (b_add ?dh 1)) (?high s2) else rret s2))
      (\<lambda>s'. store_holds small_gamma s' \<sigma>)"
    by (rule rsound_rbind [OF step]) (use high in \<open>auto simp: P_def\<close>)
  then show ?thesis
    using H by (simp add: bsub_def new diffs)
qed

text \<open>Addition and subtraction first narrow both operands, then split.\<close>

lemma iv_bop_add_sound:
  assumes H: "store_holds small_gamma s \<sigma>" and "\<sigma> a + \<sigma> b = \<sigma> r" "a \<noteq> b" "r \<noteq> a" "r \<noteq> b"
  shows "rsound (iv_bop_add r a b s) (\<lambda>s'. store_holds small_gamma s' \<sigma>)"
proof -
  have sub: "osound (ival_sub (s r) (s i)) (\<lambda>q. low q \<le> \<sigma> j \<and> \<sigma> j \<le> high q)"
    if "store_holds small_gamma s \<sigma>" "\<sigma> j = \<sigma> r - \<sigma> i" for s i j
    using small_gamma_near [OF store_holdsD [OF that(1)], of r]
      small_gamma_near [OF store_holdsD [OF that(1)], of i] that(2)
    by (simp add: ival_sub_near)
  show ?thesis
    unfolding iv_bop_add_def
  proof (rule rsound_rbind)
    show "rsound (intersect_cell a (ival_sub (s r) (s b)) s)
            (\<lambda>s'. store_holds small_gamma s' \<sigma> \<and> (\<forall>i. i \<noteq> a \<longrightarrow> s' i = s i))"
      using assms by (intro intersect_cell_sound sub) auto
    fix s1 assume s1: "store_holds small_gamma s1 \<sigma> \<and> (\<forall>i. i \<noteq> a \<longrightarrow> s1 i = s i)"
    show "rsound (rbind (intersect_cell b (ival_sub (s1 r) (s1 a)) s1) (badd r a b))
            (\<lambda>s'. store_holds small_gamma s' \<sigma>)"
    proof (rule rsound_rbind)
      show "rsound (intersect_cell b (ival_sub (s1 r) (s1 a)) s1)
              (\<lambda>s'. store_holds small_gamma s' \<sigma> \<and> (\<forall>i. i \<noteq> b \<longrightarrow> s' i = s1 i))"
        using assms s1 by (intro intersect_cell_sound sub) auto
    qed (use assms badd_sound in blast)
  qed
qed

lemma iv_bop_sub_sound:
  assumes H: "store_holds small_gamma s \<sigma>" and "\<sigma> a - \<sigma> b = \<sigma> r" "a \<noteq> b" "r \<noteq> a" "r \<noteq> b"
  shows "rsound (iv_bop_sub r a b s) (\<lambda>s'. store_holds small_gamma s' \<sigma>)"
proof -
  have add: "osound (ival_add (s r) (s b)) (\<lambda>q. low q \<le> \<sigma> a \<and> \<sigma> a \<le> high q)"
    using small_gamma_near [OF store_holdsD [OF H], of r]
      small_gamma_near [OF store_holdsD [OF H], of b] assms(2)
    by (simp add: ival_add_near)
  have sub: "osound (ival_sub (s a) (s r)) (\<lambda>q. low q \<le> \<sigma> b \<and> \<sigma> b \<le> high q)"
    if "store_holds small_gamma s \<sigma>" for s
    using small_gamma_near [OF store_holdsD [OF that(1)], of r]
      small_gamma_near [OF store_holdsD [OF that(1)], of a] assms(2)
    by (simp add: ival_sub_near)
  show ?thesis
    unfolding iv_bop_sub_def
  proof (rule rsound_rbind)
    show "rsound (intersect_cell a (ival_add (s r) (s b)) s)
            (\<lambda>s'. store_holds small_gamma s' \<sigma> \<and> (\<forall>i. i \<noteq> a \<longrightarrow> s' i = s i))"
      using assms add by (intro intersect_cell_sound) auto
    fix s1 assume s1: "store_holds small_gamma s1 \<sigma> \<and> (\<forall>i. i \<noteq> a \<longrightarrow> s1 i = s i)"
    show "rsound (rbind (intersect_cell b (ival_sub (s1 a) (s1 r)) s1) (bsub r a b))
            (\<lambda>s'. store_holds small_gamma s' \<sigma>)"
    proof (rule rsound_rbind)
      show "rsound (intersect_cell b (ival_sub (s1 a) (s1 r)) s1)
              (\<lambda>s'. store_holds small_gamma s' \<sigma> \<and> (\<forall>i. i \<noteq> b \<longrightarrow> s' i = s1 i))"
        using s1 by (intro intersect_cell_sound sub) auto
    qed (use assms bsub_sound in blast)
  qed
qed

text \<open>Excluding a value the cell does not have.\<close>

lemma exclude_cell_sound:
  assumes "store_holds small_gamma s \<sigma>" "\<sigma> a \<noteq> b"
  shows "rsound (exclude_cell a b s) (\<lambda>s'. store_holds small_gamma s' \<sigma> \<and>
    low (s a) \<le> low (s' a) \<and> high (s' a) \<le> high (s a) \<and> (\<forall>i. i \<noteq> a \<longrightarrow> s' i = s i))"
proof -
  note sa = small_gamma_near [OF store_holdsD [OF assms(1)], of a]
  have bounds: "low (s a) \<noteq> bmax" "high (s a) \<noteq> bmin"
    using sa by (auto simp: bmax_def bmin_def)
  show ?thesis
    using assms sa bounds
    by (auto simp: exclude_cell_def b_increment_def b_decrement_def validity_check_def
        ival_is_bottom_def small_gamma_def iv_small_def intro!: store_holds_upd)
qed

text \<open>The final split of a comparison: a delimiter between the two values exists.\<close>

lemma ival_size_small:
  assumes "- (2 ^ 60) \<le> low i" "high i \<le> 2 ^ 60" "low i \<le> high i"
  shows "ival_size i = high i - low i + 1" "number_cast True 64 (ival_size i) = high i - low i + 1"
proof -
  have *: "ival_size i = high i - low i + 1"
    unfolding ival_size_mod using assms by (intro mod_pos_pos_trivial) auto
  show "ival_size i = high i - low i + 1" by (rule *)
  show "number_cast True 64 (ival_size i) = high i - low i + 1"
    unfolding * using assms by (intro number_cast_idem) (auto simp: number_min_def number_max_def)
qed

definition delimit :: "nat \<Rightarrow> nat \<Rightarrow> bool \<Rightarrow> ival store \<Rightarrow> ival store run" where
  "delimit a b strict s4 =
    (let intersection = ival_meet (s4 a) (s4 b) in
     if ival_empty intersection then rret s4
     else
       let size = ival_size intersection in
       if choose_limit < number_cast True 64 size then rret s4
       else
         rbind (lart_choose (number_cast True 32 (if strict then size + 1 else size))) (\<lambda>i.
         rbind [b_add i (low intersection)] (\<lambda>delim.
         rbind (intersect_cell a (Ret (mk_ival delim (high (s4 a)))) s4) (\<lambda>s5.
         intersect_cell b
           (omap (mk_ival (low (s5 b))) (if strict then b_sub delim 1 else Ret delim)) s5))))"

lemma delimit_sound:
  assumes H: "store_holds small_gamma s \<sigma>" and "a \<noteq> b"
    and cmp: "if strict then \<sigma> b < \<sigma> a else \<sigma> b \<le> \<sigma> a"
  shows "rsound (delimit a b strict s) (\<lambda>s'. store_holds small_gamma s' \<sigma>)"
proof -
  note na = small_gamma_near [OF store_holdsD [OF H], of a]
    and nb = small_gamma_near [OF store_holdsD [OF H], of b]
  let ?m = "ival_meet (s a) (s b)"
  define il where "il = max (low (s a)) (low (s b))"
  define ih where "ih = min (high (s a)) (high (s b))"
  have m: "low ?m = il" "high ?m = ih"
    using na nb by (auto simp: ival_meet_def ival_is_bottom_def il_def ih_def)
  have mb: "- (2 ^ 60) \<le> low ?m" "high ?m \<le> 2 ^ 60"
    using na nb by (simp_all add: m il_def ih_def le_max_iff_disj min_le_iff_disj)
  show ?thesis
  proof (cases "ih < il \<or> choose_limit < ih - il + 1")
    case True
    have "number_cast True 64 (ival_size ?m) = ih - il + 1" if "il \<le> ih"
      using ival_size_small [OF mb] m that by simp
    with True H show ?thesis
      by (auto simp: delimit_def ival_empty_def m Let_def)
  next
    case False
    then have size: "ival_size ?m = ih - il + 1" "number_cast True 64 (ih - il + 1) = ih - il + 1"
      using ival_size_small [OF mb] m by simp_all
    let ?n = "if strict then ih - il + 1 + 1 else ih - il + 1"
    have n: "number_cast True 32 ?n = ?n"
      using False by (intro number_cast_int_small) (auto simp: choose_limit_def)
    define d where "d = (if strict then max (\<sigma> b + 1) il else max (\<sigma> b) il)"
    have d: "il \<le> d" "d - il < ?n" "d \<le> \<sigma> a" "if strict then \<sigma> b \<le> d - 1 else \<sigma> b \<le> d"
      using cmp na nb False by (auto simp: d_def il_def ih_def split: if_splits)
    have nd: "near (d - il)" "near il" "near d"
      using d na nb by (auto simp: near_def il_def)
    let ?cut = "\<lambda>i. rbind [b_add i (low ?m)] (\<lambda>delim.
         rbind (intersect_cell a (Ret (mk_ival delim (high (s a)))) s) (\<lambda>s5.
         intersect_cell b
           (omap (mk_ival (low (s5 b))) (if strict then b_sub delim 1 else Ret delim)) s5))"
    have cut: "rsound (?cut (d - il)) (\<lambda>s'. store_holds small_gamma s' \<sigma>)"
    proof -
      have "rsound (rbind (intersect_cell a (Ret (mk_ival d (high (s a)))) s) (\<lambda>s5.
         intersect_cell b
           (omap (mk_ival (low (s5 b))) (if strict then b_sub d 1 else Ret d)) s5))
         (\<lambda>s'. store_holds small_gamma s' \<sigma>)"
      proof (rule rsound_rbind)
        show "rsound (intersect_cell a (Ret (mk_ival d (high (s a)))) s)
          (\<lambda>s'. store_holds small_gamma s' \<sigma> \<and> (\<forall>i. i \<noteq> a \<longrightarrow> s' i = s i))"
          using d na by (intro intersect_cell_sound [OF H]) simp
        fix s5 assume s5: "store_holds small_gamma s5 \<sigma> \<and> (\<forall>i. i \<noteq> a \<longrightarrow> s5 i = s i)"
        have "near 1" by (simp add: near_def)
        then show "rsound (intersect_cell b
           (omap (mk_ival (low (s5 b))) (if strict then b_sub d 1 else Ret d)) s5)
           (\<lambda>s'. store_holds small_gamma s' \<sigma>)"
          using s5 d nb nd small_gamma_near [OF store_holdsD [OF conjunct1 [OF s5]], of b]
          by (intro rsound_mono [OF intersect_cell_sound]) (auto simp: b_sub_near)
      qed
      then show ?thesis
        using nd by (simp add: m b_add_near)
    qed
    have "rsound (rbind (lart_choose ?n) ?cut) (\<lambda>s'. store_holds small_gamma s' \<sigma>)"
      by (rule rsound_rbind [where P = "\<lambda>j. j = d - il"])
         (use d cut in \<open>auto intro!: rsound_returns [of "d - il"]\<close>)
    then show ?thesis
      using False n by (auto simp: delimit_def ival_empty_def m size Let_def split: if_splits)
  qed
qed

lemma bgt_delimit:
  "bgt a b strict s =
    (let s1 = meet_low_cell a (low (s b)) s in
     rbind (if strict then exclude_cell a (low (s1 b)) s1 else rret s1) (\<lambda>s2.
     let s3 = meet_high_cell b (high (s2 a)) s2 in
     rbind (if strict then exclude_cell b (high (s3 a)) s3 else rret s3) (delimit a b strict)))"
  by (simp add: bgt_def delimit_def [abs_def])

lemma bgt_sound:
  assumes H: "store_holds small_gamma s \<sigma>" and ab: "a \<noteq> b"
    and cmp: "if strict then \<sigma> b < \<sigma> a else \<sigma> b \<le> \<sigma> a"
  shows "rsound (bgt a b strict s) (\<lambda>s'. store_holds small_gamma s' \<sigma>)"
proof -
  note nb = small_gamma_near [OF store_holdsD [OF H], of b]
  let ?s1 = "meet_low_cell a (low (s b)) s"
  have h1: "store_holds small_gamma ?s1 \<sigma>"
    using cmp nb by (intro meet_low_cell_sound [OF H]) (auto split: if_splits)
  have "rsound (rbind (if strict then exclude_cell a (low (?s1 b)) ?s1 else rret ?s1) (\<lambda>s2.
     let s3 = meet_high_cell b (high (s2 a)) s2 in
     rbind (if strict then exclude_cell b (high (s3 a)) s3 else rret s3) (delimit a b strict)))
     (\<lambda>s'. store_holds small_gamma s' \<sigma>)"
  proof (rule rsound_rbind [where P = "\<lambda>s'. store_holds small_gamma s' \<sigma>"])
    show "rsound (if strict then exclude_cell a (low (?s1 b)) ?s1 else rret ?s1)
      (\<lambda>s'. store_holds small_gamma s' \<sigma>)"
      using h1 cmp ab nb by (auto intro!: rsound_mono [OF exclude_cell_sound [OF h1]])
    fix s2 assume h2: "store_holds small_gamma s2 \<sigma>"
    let ?s3 = "meet_high_cell b (high (s2 a)) s2"
    note n2 = small_gamma_near [OF store_holdsD [OF h2], of a]
    have h3: "store_holds small_gamma ?s3 \<sigma>"
      using cmp n2 by (intro meet_high_cell_sound [OF h2]) (auto split: if_splits)
    have "rsound (rbind (if strict then exclude_cell b (high (?s3 a)) ?s3 else rret ?s3) (delimit a b strict))
      (\<lambda>s'. store_holds small_gamma s' \<sigma>)"
    proof (rule rsound_rbind [where P = "\<lambda>s'. store_holds small_gamma s' \<sigma>"])
      show "rsound (if strict then exclude_cell b (high (?s3 a)) ?s3 else rret ?s3)
        (\<lambda>s'. store_holds small_gamma s' \<sigma>)"
        using h3 cmp ab n2 by (auto intro!: rsound_mono [OF exclude_cell_sound [OF h3]])
    qed (rule delimit_sound [OF _ ab cmp])
    then show "rsound (let s3 = meet_high_cell b (high (s2 a)) s2 in
       rbind (if strict then exclude_cell b (high (s3 a)) s3 else rret s3) (delimit a b strict))
       (\<lambda>s'. store_holds small_gamma s' \<sigma>)"
      by (simp add: Let_def)
  qed
  then show ?thesis
    by (simp add: bgt_delimit Let_def)
qed

lemma bne_impl_sound:
  assumes H: "store_holds small_gamma s \<sigma>" and "a \<noteq> b" and ne: "\<sigma> a \<noteq> \<sigma> b"
  shows "rsound (bne_impl a b s) (\<lambda>s'. store_holds small_gamma s' \<sigma>)"
proof -
  note na = small_gamma_near [OF store_holdsD [OF H], of a]
    and nb = small_gamma_near [OF store_holdsD [OF H], of b]
  have ex_b: "rsound (exclude_cell b (low (s a)) s) (\<lambda>s'. store_holds small_gamma s' \<sigma>)"
    if "ival_constant (s a)"
    using that na ne by (intro rsound_mono [OF exclude_cell_sound [OF H]]) (auto simp: ival_constant_def)
  have ex_a: "rsound (exclude_cell a (low (s b)) s) (\<lambda>s'. store_holds small_gamma s' \<sigma>)"
    if "ival_constant (s b)"
    using that nb ne by (intro rsound_mono [OF exclude_cell_sound [OF H]]) (auto simp: ival_constant_def)
  have two: "lart_choose 2 = [Ret 1, Ret 0]"
    by (simp add: lart_choose_def upt_rec)
  have "rsound (rbind (lart_choose 2) (\<lambda>c. if c \<noteq> 0 then bgt a b True s else bgt b a True s))
    (\<lambda>s'. store_holds small_gamma s' \<sigma>)"
    using bgt_sound [OF H assms(2), of True] bgt_sound [OF H assms(2) [symmetric], of True] ne
    by (cases "\<sigma> b < \<sigma> a") (auto simp: two)
  then show ?thesis
    using ex_a ex_b H by (auto simp: bne_impl_def)
qed

text \<open>The test of the result: it succeeds only when the result is that truth value.\<close>

lemma result_test:
  assumes "x \<in> small_gamma i" "tri_to_bool (ival_eq_tristate i (tristate_of_bool c))"
  shows "x = of_bool c"
  using assms
  by (auto simp: ival_eq_tristate_def ival_eq_def ival_of_tristate_def small_gamma_def tri_defs
      split: if_splits)

lemma iv_bgt_sound:
  assumes H: "store_holds small_gamma s \<sigma>" and "a \<noteq> b"
    and "\<sigma> r = of_bool ((\<sigma> b < \<sigma> a) \<noteq> negated)"
  shows "rsound (iv_bgt r a b negated s) (\<lambda>s'. store_holds small_gamma s' \<sigma>)"
proof -
  have t: "(\<sigma> b < \<sigma> a) = (c \<noteq> negated)"
    if "store_holds small_gamma s \<sigma>" "tri_to_bool (ival_eq_tristate (s r) (tristate_of_bool c))"
    for s c
    using result_test [OF store_holdsD [OF that(1)] that(2)] assms(3)
    by (cases c; cases negated; cases "\<sigma> b < \<sigma> a") auto
  show ?thesis
    unfolding iv_bgt_def
  proof (rule rsound_rbind [where P = "\<lambda>s'. store_holds small_gamma s' \<sigma>"])
    show "rsound (if tri_to_bool (ival_eq_tristate (s r) (tristate_of_bool (\<not> negated)))
           then bgt a b True s else rret s) (\<lambda>s'. store_holds small_gamma s' \<sigma>)"
      using H t [OF H, of "\<not> negated"] bgt_sound [OF H assms(2), of True] by auto
    fix s1 assume h: "store_holds small_gamma s1 \<sigma>"
    then show "rsound (if tri_to_bool (ival_eq_tristate (s1 r) (tristate_of_bool negated))
      then bgt b a False s1 else rret s1) (\<lambda>s'. store_holds small_gamma s' \<sigma>)"
      using t [OF h, of negated] bgt_sound [OF h assms(2) [symmetric], of False] by auto
  qed
qed

lemma iv_bne_sound:
  assumes H: "store_holds small_gamma s \<sigma>" and "a \<noteq> b" and "\<sigma> r = of_bool (\<sigma> a \<noteq> \<sigma> b)"
    and "\<not> tri_to_bool (ival_eq_tristate (s r) (tristate_of_bool False))"
  shows "rsound (iv_beq r a b True s) (\<lambda>s'. store_holds small_gamma s' \<sigma>)"
proof -
  have "tri_to_bool (ival_eq_tristate (s r) (tristate_of_bool True)) \<Longrightarrow> \<sigma> a \<noteq> \<sigma> b"
    using result_test [OF store_holdsD [OF H], of r True] assms(3) by auto
  then show ?thesis
    using assms bne_impl_sound [OF H assms(2)] by (simp add: iv_beq_def)
qed

text \<open>
  The contract holds for every operation but the two that test equality, when it holds, and the
  multiplicative ones.
\<close>

definition iv_sound_bops :: "op_tag set" where
  "iv_sound_bops = set mixin_bop_tags - {tag_mul, tag_sdiv, tag_eq, tag_ne}"

interpretation ivl_back: backward_sound interval_domain small_gamma conc_int iv_sound_bops False
proof
  fix t :: op_tag and s \<sigma> and a b r :: nat
  assume t: "t \<in> iv_sound_bops" and H: "store_holds small_gamma s \<sigma>"
    and c: "conc_int t (\<sigma> a) (\<sigma> b) = Some (\<sigma> r)" and ab: "a \<noteq> b \<or> False"
    and r: "r \<noteq> a" "r \<noteq> b"
  have d: "a \<noteq> b" "r \<noteq> a" "r \<noteq> b" using ab r by simp_all
  note gt = iv_bgt_sound [OF H d(1)] and lt = iv_bgt_sound [OF H d(1) [symmetric]]
  have "t = tag_add \<and> \<sigma> a + \<sigma> b = \<sigma> r \<or> t = tag_sub \<and> \<sigma> a - \<sigma> b = \<sigma> r \<or> t = tag_srem \<or>
    t = tag_slt \<and> \<sigma> r = of_bool (\<sigma> a < \<sigma> b) \<or> t = tag_sgt \<and> \<sigma> r = of_bool (\<sigma> b < \<sigma> a) \<or>
    t = tag_sle \<and> \<sigma> r = of_bool (\<sigma> a \<le> \<sigma> b) \<or> t = tag_sge \<and> \<sigma> r = of_bool (\<sigma> b \<le> \<sigma> a)"
    using t c by (auto simp: iv_sound_bops_def conc_int_def split: if_splits)
  then show "rsound (dom_bop interval_domain t r a b s) (\<lambda>s'. store_holds small_gamma s' \<sigma>)"
    using iv_bop_add_sound [OF H _ d] iv_bop_sub_sound [OF H _ d]
      gt [of r False] gt [of r True] lt [of r False] lt [of r True]
      mixin_bop_sound [OF _ H, of tag_srem r a b]
    by (auto simp: interval_domain_def iv_bop_def mixin_bop_tags_def not_less)
qed

section \<open>Properties\<close>

text \<open>
  Lowering an interval to a concrete number asks the runtime for as many alternatives as the
  interval has elements and returns exactly its elements, when the size fits the signed 32-bit
  argument of the choice.
\<close>

theorem interval_lower_enumerates:
  assumes "is_i64 (low i)" "is_i64 (high i)" "low i \<le> high i" "high i - low i + 1 < 2 ^ 31"
  shows "returns (iv_lower i) = {low i..high i}"
proof -
  let ?n = "high i - low i + 1"
  have "ival_size i = ?n"
    unfolding ival_size_mod using assms by (intro mod_pos_pos_trivial) auto
  then have n: "number_cast True 32 (ival_size i) = ?n"
    using assms by (simp add: number_cast_int_small)
  have c: "number_cast True 64 (low i + c) = low i + c" if "0 \<le> c" "c < ?n" for c
    using assms that
    by (intro number_cast_idem) (auto simp: number_min_def number_max_def is_i64_def bmin_def bmax_def)
  have "returns (iv_lower i) = (\<lambda>c. low i + c) ` {c. 0 \<le> c \<and> c < ?n}"
    using c by (auto simp: iv_lower_def n returns_lart_choose)
  also have "\<dots> = {low i..high i}"
    by (auto simp: image_iff intro!: exI [of _ "_ - low i"])
  finally show ?thesis .
qed

text \<open>
  The backward subtraction of the interval domain loses no solution: a valuation with a - b = r
  that the cells describe is still described on some explored path, for distinct operand cells
  with bounds at most 2^60 in size.
\<close>

theorem interval_sub_refinement_sound:
  assumes "store_holds small_gamma s \<sigma>" "\<sigma> a - \<sigma> b = \<sigma> r" "a \<noteq> b" "r \<noteq> a" "r \<noteq> b"
  shows "rsound (iv_bop tag_sub r a b s) (\<lambda>s'. store_holds small_gamma s' \<sigma>)"
  using iv_bop_sub_sound [OF assms] by (simp add: iv_bop_def)

lemma rsound_rets: "rsound (map (\<lambda>x. Ret (f x)) xs) P \<longleftrightarrow> (\<exists>x \<in> set xs. P (f x))"
  by (auto simp: rsound_def list_ex_iff)

lemma rsound_choose_ret:
  assumes "0 < n"
  shows "rsound (rbind (lart_choose n) (\<lambda>c. rret (f c))) P \<longleftrightarrow> (\<exists>c. 0 \<le> c \<and> c < n \<and> P (f c))"
proof -
  have "rbind (map (\<lambda>x. Ret (g x)) xs) (\<lambda>c. rret (f c)) = map (\<lambda>x. Ret (f (g x))) xs" for g :: "nat \<Rightarrow> int" and xs
    by (induction xs) simp_all
  then have "rsound (rbind (lart_choose n) (\<lambda>c. rret (f c))) P \<longleftrightarrow> (\<exists>x < nat n. P (f (int x)))"
    using assms by (simp add: lart_choose_def rsound_rets Bex_def)
  also have "\<dots> \<longleftrightarrow> (\<exists>c. 0 \<le> c \<and> c < n \<and> P (f c))"
  proof
    assume "\<exists>x < nat n. P (f (int x))"
    then obtain x where "x < nat n" "P (f (int x))" by blast
    then show "\<exists>c. 0 \<le> c \<and> c < n \<and> P (f c)" by (intro exI [of _ "int x"]) auto
  next
    assume "\<exists>c. 0 \<le> c \<and> c < n \<and> P (f c)"
    then obtain c where "0 \<le> c" "c < n" "P (f c)" by blast
    then show "\<exists>x < nat n. P (f (int x))" by (intro exI [of _ "nat c"]) auto
  qed
  finally show ?thesis .
qed

text \<open>
  The refinement of an equality that holds explores one alternative too few: for two cells that
  both hold the interval [l, h], with h - l within the limit of the choice, the common value v
  survives on some path exactly when it is not the greatest one, h.
\<close>

theorem interval_equality_refinement_loses:
  assumes "s a = i" "s b = i" "s r = mk_ival 1 1" "iv_small i" "low i < high i"
    and "high i - low i \<le> choose_limit" "a \<noteq> b" "r \<noteq> a" "r \<noteq> b"
  shows "rsound (iv_bop tag_eq r a b s) (\<lambda>s'. v \<in> small_gamma (s' a) \<and> v \<in> small_gamma (s' b)) =
    (low i \<le> v \<and> v < high i)"
proof -
  let ?d = "high i - low i"
  have b: "near (low i)" "near (high i)" "0 < ?d" "?d \<le> 200"
    using assms(4-6) by (auto simp: near_def iv_small_def choose_limit_def)
  have d: "b_sub (high i) (low i) = Ret ?d" "number_cast True 32 ?d = ?d" "within_limit ?d"
    using b by (auto simp: b_sub_near number_cast_int_small within_limit_def choose_limit_def)
  have self: "iv_intersect i i = Ret i"
    using assms(5) by (auto simp: iv_intersect_def ival_intersect_def ival_meet_def ival_is_bottom_def mk_ival_def)
  have upd: "s(a := i) = s" "s(b := i) = s"
    using assms(1,2) by auto
  have cell: "iv_intersect i (mk_ival (low i + c) (low i + c)) = Ret (mk_ival (low i + c) (low i + c))"
    if "0 \<le> c" "c < ?d" for c
    using that by (auto simp: iv_intersect_def ival_intersect_def ival_meet_def ival_is_bottom_def)
  have add: "b_add (low i) c = Ret (low i + c)" if "0 \<le> c" "c < ?d" for c
    using that b by (intro b_add_near) (auto simp: near_def)
  have r1: "tri_to_bool (ival_eq_tristate (s r) (tristate_of_bool True))"
    and r0: "\<not> tri_to_bool (ival_eq_tristate (s r) (tristate_of_bool False))"
    by (simp_all add: assms(3) ival_eq_tristate_def ival_eq_def ival_of_tristate_def tri_defs)
  let ?at = "\<lambda>c. s(a := mk_ival (low i + c) (low i + c), b := mk_ival (low i + c) (low i + c))"
  have body: "beq_impl a b s = rbind (lart_choose ?d) (\<lambda>c. rret (?at c))"
    unfolding beq_impl_def
    using assms(1,2,7) d
    by (simp add: intersect_cell_def self upd choose_int_def)
      (rule rbind_cong_returns, simp add: returns_lart_choose add cell)
  have bop: "iv_bop tag_eq r a b s = rbind (lart_choose ?d) (\<lambda>c. rret (?at c))"
    using r1 r0 assms(7-9)
    by (simp add: iv_bop_def iv_beq_def body rbind_assoc assms(3))
  have only: "v \<in> small_gamma (?at c a) \<and> v \<in> small_gamma (?at c b) \<longleftrightarrow> v = low i + c"
    if "0 \<le> c" "c < ?d" for c
    using that assms(4,7) by (auto simp: small_gamma_def iv_small_def)
  have "rsound (iv_bop tag_eq r a b s) (\<lambda>s'. v \<in> small_gamma (s' a) \<and> v \<in> small_gamma (s' b)) =
    (\<exists>c. 0 \<le> c \<and> c < ?d \<and> v \<in> small_gamma (?at c a) \<and> v \<in> small_gamma (?at c b))"
    unfolding bop by (rule rsound_choose_ret [OF b(3)])
  also have "\<dots> = (\<exists>c. 0 \<le> c \<and> c < ?d \<and> v = low i + c)"
    using only by blast
  also have "\<dots> = (low i \<le> v \<and> v < high i)"
    by (auto intro: exI [of _ "v - low i"])
  finally show ?thesis .
qed

text \<open>
  When both operands of an addition are one cell (x + x), the backward addition loses solutions:
  from x in [0, 10] and the sum in [4, 20] no explored path keeps x = 2.
\<close>

theorem interval_shared_operands_lose:
  "\<not> rsound (iv_bop tag_add 1 0 0 (\<lambda>i. if i = 1 then mk_ival 4 20 else mk_ival 0 10))
       (\<lambda>s'. 2 \<in> small_gamma (s' 0))"
  unfolding small_gamma_def mem_Collect_eq by code_simp

lemma obind_eq_Fault: "obind m f = Fault e \<longleftrightarrow> m = Fault e \<or> (\<exists>x. m = Ret x \<and> f x = Fault e)"
  by (cases m) auto

lemma ival_no_fault:
  "ival_add a b \<noteq> Fault e" "ival_sub a b \<noteq> Fault e" "ival_mul a b \<noteq> Fault e"
proof -
  have 1: "b_add p q \<noteq> Fault e" "b_sub p q \<noteq> Fault e" "b_mul p q \<noteq> Fault e" for p q
    by (auto simp: b_add_def b_sub_def b_mul_def split: overflow.splits)
  then show "ival_add a b \<noteq> Fault e" "ival_sub a b \<noteq> Fault e" "ival_mul a b \<noteq> Fault e"
    by (auto simp: ival_add_def ival_sub_def ival_mul_def ival_corners_def obind_eq_Fault)
qed





text \<open>
  C28: The backward addition of the interval domain (two intersections, then the splits of badd_
  through the choice operator) loses no solution: if the cells describe a valuation with a + b =
  r, some explored path keeps cells that describe the same valuation. The operands must be
  distinct cells and the bounds at most 2^60 in size.
\<close>

theorem interval_add_refinement_sound:
  assumes "store_holds small_gamma s \<sigma>" "\<sigma> a + \<sigma> b = \<sigma> r" "a \<noteq> b" "r \<noteq> a" "r \<noteq> b"
  shows "rsound (iv_bop tag_add r a b s) (\<lambda>s'. store_holds small_gamma s' \<sigma>)"
  using iv_bop_add_sound [OF assms] by (simp add: iv_bop_def)

theorem interval_add_refinement_sound_witness:
  "rsound (iv_bop tag_add 2 0 1 (\<lambda>i. if i = 2 then mk_ival 4 20 else mk_ival 0 10))
     (\<lambda>s'. store_holds small_gamma s' (\<lambda>i. if i = 2 then 12 else 6))"
  by (rule interval_add_refinement_sound)
    (simp_all add: store_holds_def small_gamma_def iv_small_def)

end
