(* ===== verification/Relational.thy ===== *)
theory Relational
  imports Product_Domain Sign_Domain Zero_Domain Interval_Domain
begin

text \<open>
  The domain transformers that the metadomains are built with: \<open>with_history\<close>
  (\<open>lava/include/lava/support/history.hpp\<close>), which keeps the operands of every value, and
  \<open>relational\<close> (\<open>relational.hpp\<close>), which refines the operands from a value that is assumed. The
  objects live on a heap: a value is the number of its cell, and its operands are numbers too.
\<close>

section \<open>Values with a history\<close>

record 'v hist =
  cells :: "'v store"
  kids :: "nat \<Rightarrow> nat list"
  next_cell :: nat

definition empty_hist :: "'v \<Rightarrow> 'v hist" where
  "empty_hist v = \<lparr>cells = (\<lambda>_. v), kids = (\<lambda>_. []), next_cell = 0\<rparr>"

definition hist_new :: "'v \<Rightarrow> nat list \<Rightarrow> 'v hist \<Rightarrow> nat \<times> 'v hist" where
  "hist_new v ks h =
    (next_cell h, h\<lparr>cells := (cells h)(next_cell h := v), kids := (kids h)(next_cell h := ks),
                    next_cell := Suc (next_cell h)\<rparr>)"

definition hist_bin_tags :: "op_tag list" where
  "hist_bin_tags =
    [tag_add, tag_fadd, tag_sub, tag_fsub, tag_mul, tag_fmul, tag_udiv, tag_sdiv, tag_fdiv,
     tag_urem, tag_srem, tag_frem, tag_shl, tag_lshr, tag_ashr, tag_op_and, tag_op_or,
     tag_op_xor, tag_foeq, tag_fogt, tag_foge, tag_folt, tag_fole, tag_fone, tag_ford,
     tag_funo, tag_fueq, tag_fugt, tag_fuge, tag_fult, tag_fule, tag_fune, tag_eq, tag_ne,
     tag_ugt, tag_uge, tag_ult, tag_ule, tag_sgt, tag_sge, tag_slt, tag_sle, tag_ffalse,
     tag_ftrue]"

definition hist_cast_tags :: "op_tag list" where
  "hist_cast_tags =
    [tag_fpext, tag_fptosi, tag_fptoui, tag_fptrunc, tag_inttoptr, tag_ptrtoint, tag_sext,
     tag_sitofp, tag_trunc, tag_uitofp, tag_zext, tag_zfit]"

definition hist_bop_tags :: "op_tag list" where
  "hist_bop_tags =
    [tag_add, tag_sub, tag_mul, tag_sdiv, tag_udiv, tag_srem, tag_urem, tag_fadd, tag_fsub,
     tag_fmul, tag_fdiv, tag_frem, tag_shl, tag_ashr, tag_lshr, tag_op_and, tag_op_or,
     tag_op_xor, tag_eq, tag_ne, tag_ugt, tag_uge, tag_ult, tag_ule, tag_sgt, tag_sge,
     tag_slt, tag_sle, tag_foeq, tag_fogt, tag_foge, tag_folt, tag_fole, tag_ford, tag_funo,
     tag_fueq, tag_fugt, tag_fuge, tag_fult, tag_fule, tag_ffalse, tag_ftrue, tag_concat]"

definition hist_bun_tags :: "op_tag list" where
  "hist_bun_tags =
    [tag_trunc, tag_fptrunc, tag_sitofp, tag_uitofp, tag_zext, tag_zfit, tag_sext,
     tag_fpext, tag_fptosi, tag_fptoui]"

definition hist_lift :: "'v domain \<Rightarrow> c_value \<Rightarrow> 'v hist \<Rightarrow> (nat \<times> 'v hist) outcome" where
  "hist_lift D v h = omap (\<lambda>d. hist_new d [] h) (dom_lift D v)"

definition hist_any :: "'v domain \<Rightarrow> 'v hist \<Rightarrow> (nat \<times> 'v hist) outcome" where
  "hist_any D h = omap (\<lambda>d. hist_new d [] h) (dom_any D)"

definition hist_any_range :: "'v domain \<Rightarrow> int \<Rightarrow> int \<Rightarrow> 'v hist \<Rightarrow> (nat \<times> 'v hist) outcome" where
  "hist_any_range D lo hi h = omap (\<lambda>d. hist_new d [] h) (dom_any_range D lo hi)"

definition hist_assume :: "'v domain \<Rightarrow> nat \<Rightarrow> bool \<Rightarrow> 'v hist \<Rightarrow> 'v hist outcome" where
  "hist_assume D a expected h =
    omap (\<lambda>d. h\<lparr>cells := (cells h)(a := d)\<rparr>) (dom_assume D (cells h a) expected)"

definition hist_to_tristate :: "'v domain \<Rightarrow> nat \<Rightarrow> 'v hist \<Rightarrow> tristate outcome" where
  "hist_to_tristate D a h = dom_to_tristate D (cells h a)"

definition hist_bin ::
  "'v domain \<Rightarrow> op_tag \<Rightarrow> nat \<Rightarrow> nat \<Rightarrow> 'v hist \<Rightarrow> (nat \<times> 'v hist) outcome" where
  "hist_bin D t a b h =
    (if t \<in> set hist_bin_tags
     then omap (\<lambda>d. hist_new d [a, b] h) (dom_bin D t (cells h a) (cells h b))
     else mixin_bin t (a, h) (b, h))"

definition hist_cast ::
  "'v domain \<Rightarrow> op_tag \<Rightarrow> nat \<Rightarrow> nat \<Rightarrow> 'v hist \<Rightarrow> (nat \<times> 'v hist) outcome" where
  "hist_cast D t a bw h =
    (if t \<in> set hist_cast_tags
     then omap (\<lambda>d. hist_new d [a] h) (dom_cast D t (cells h a) bw)
     else mixin_cast t (a, h) bw)"

definition with_cells :: "'v hist \<Rightarrow> 'v store run \<Rightarrow> 'v hist run" where
  "with_cells h r = rbind r (\<lambda>s. rret (h\<lparr>cells := s\<rparr>))"

definition hist_bop ::
  "'v domain \<Rightarrow> op_tag \<Rightarrow> nat \<Rightarrow> nat \<Rightarrow> nat \<Rightarrow> 'v hist \<Rightarrow> 'v hist run" where
  "hist_bop D t r a b h =
    with_cells h (if t \<in> set hist_bop_tags then dom_bop D t r a b (cells h)
                  else mixin_bop t r a b (cells h))"

definition hist_bun :: "'v domain \<Rightarrow> op_tag \<Rightarrow> nat \<Rightarrow> nat \<Rightarrow> 'v hist \<Rightarrow> 'v hist run" where
  "hist_bun D t r a h =
    with_cells h (if t \<in> set hist_bun_tags then dom_bun D t r a (cells h)
                  else mixin_bun t r a (cells h))"

section \<open>Backward propagation\<close>

text \<open>The groups of the cases of the \<open>switch\<close> over the tag.\<close>

definition rel_bin_tags :: "op_tag list" where
  "rel_bin_tags =
    [tag_add, tag_sub, tag_mul, tag_sdiv, tag_udiv, tag_srem, tag_urem, tag_fadd, tag_fsub,
     tag_fmul, tag_fdiv, tag_frem, tag_op_and, tag_op_or, tag_op_xor, tag_ne, tag_eq,
     tag_slt, tag_sgt, tag_sle, tag_sge, tag_ult, tag_ugt, tag_ule, tag_uge, tag_foeq,
     tag_fogt, tag_foge, tag_folt, tag_fole, tag_fone, tag_ford, tag_funo, tag_fueq,
     tag_fugt, tag_fuge, tag_fult, tag_fule, tag_fune, tag_ffalse, tag_ftrue, tag_shl,
     tag_lshr, tag_ashr]"

definition rel_un_tags :: "op_tag list" where
  "rel_un_tags =
    [tag_zfit, tag_zext, tag_sext, tag_trunc, tag_fptrunc, tag_sitofp, tag_uitofp,
     tag_fptosi, tag_fptoui, tag_fpext]"

definition rel_fail_tags :: "op_tag list" where
  "rel_fail_tags =
    [tag_join, tag_meet, tag_alloca, tag_store, tag_load, tag_fneg, tag_inttoptr,
     tag_ptrtoint, tag_concat, tag_extract, tag_malloc, tag_realloc, tag_dealloca, tag_free]"

definition rel_tag :: "('d \<times> op_tag) hist \<Rightarrow> nat \<Rightarrow> op_tag" where
  "rel_tag h a = snd (cells h a)"

text \<open>One application of a backward operation; reading a missing operand is undefined.\<close>

definition rel_step :: "'d domain \<Rightarrow> nat \<Rightarrow> ('d \<times> op_tag) hist \<Rightarrow> ('d \<times> op_tag) hist run option" where
  "rel_step D a h =
    (let t = rel_tag h a in
     if t = tag_unknown then Some [Fault ''unknown op tag'']
     else if t = tag_any \<or> t = tag_lift \<or> t = tag_lower then None
     else if t \<in> set rel_fail_tags then Some [Fault (''unsupported '' @ op_to_string t @ '' bop'')]
     else if t \<in> set rel_bin_tags then
       Some (case kids h a of x # y # _ \<Rightarrow> hist_bop (tagged_domain D) t a x y h | _ \<Rightarrow> [Undef])
     else
       Some (case kids h a of x # _ \<Rightarrow> hist_bun (tagged_domain D) t a x h | _ \<Rightarrow> [Undef]))"

fun run_all :: "('k \<Rightarrow> 's \<Rightarrow> 's run) \<Rightarrow> 'k list \<Rightarrow> 's \<Rightarrow> 's run" where
  "run_all f [] h = rret h"
| "run_all f (k # ks) h = rbind (f k h) (run_all f ks)"

text \<open>
  The recursion over the operands is bounded by the depth of the call stack, which is the first
  argument. On a heap whose operands are older than the value, \<open>Suc a\<close> is enough for the cell \<open>a\<close>.
\<close>

primrec rel_propagate ::
  "'d domain \<Rightarrow> nat \<Rightarrow> nat \<Rightarrow> ('d \<times> op_tag) hist \<Rightarrow> ('d \<times> op_tag) hist run" where
  "rel_propagate D 0 a h = [Undef]"
| "rel_propagate D (Suc n) a h =
    (case rel_step D a h of None \<Rightarrow> rret h
     | Some r \<Rightarrow> rbind r (\<lambda>h'. run_all (rel_propagate D n) (kids h' a) h'))"

definition rel_assume ::
  "'d domain \<Rightarrow> nat \<Rightarrow> bool \<Rightarrow> ('d \<times> op_tag) hist \<Rightarrow> ('d \<times> op_tag) hist run" where
  "rel_assume D a expected h =
    rbind [hist_assume (tagged_domain D) a expected h] (rel_propagate D (Suc a) a)"

text \<open>The other operations are those of the history of the tagged domain.\<close>

definition rel_lift :: "'d domain \<Rightarrow> c_value \<Rightarrow> ('d \<times> op_tag) hist \<Rightarrow> (nat \<times> ('d \<times> op_tag) hist) outcome" where
  "rel_lift D v h = hist_lift (tagged_domain D) v h"

definition rel_any :: "'d domain \<Rightarrow> ('d \<times> op_tag) hist \<Rightarrow> (nat \<times> ('d \<times> op_tag) hist) outcome" where
  "rel_any D h = hist_any (tagged_domain D) h"

definition rel_to_tristate :: "'d domain \<Rightarrow> nat \<Rightarrow> ('d \<times> op_tag) hist \<Rightarrow> tristate outcome" where
  "rel_to_tristate D a h = hist_to_tristate (tagged_domain D) a h"

definition rel_bin ::
  "'d domain \<Rightarrow> op_tag \<Rightarrow> nat \<Rightarrow> nat \<Rightarrow> ('d \<times> op_tag) hist \<Rightarrow> (nat \<times> ('d \<times> op_tag) hist) outcome" where
  "rel_bin D t a b h = hist_bin (tagged_domain D) t a b h"

definition rel_cast ::
  "'d domain \<Rightarrow> op_tag \<Rightarrow> nat \<Rightarrow> nat \<Rightarrow> ('d \<times> op_tag) hist \<Rightarrow> (nat \<times> ('d \<times> op_tag) hist) outcome" where
  "rel_cast D t a bw h = hist_cast (tagged_domain D) t a bw h"

section \<open>Programs over the metadomain\<close>

text \<open>
  The calls an instrumented program makes, with the cells of the arguments. The concrete program
  computes a value for every cell; \<open>cond\<close> tells the values that may be a condition.
\<close>

datatype rel_cmd = do_any | do_lift c_value | do_bin op_tag nat nat | do_assume nat bool

definition rel_cmd_run :: "'d domain \<Rightarrow> rel_cmd \<Rightarrow> ('d \<times> op_tag) hist \<Rightarrow> ('d \<times> op_tag) hist run" where
  "rel_cmd_run D c h =
    (case c of do_any \<Rightarrow> [omap snd (rel_any D h)]
     | do_lift v \<Rightarrow> [omap snd (rel_lift D v h)]
     | do_bin t a b \<Rightarrow> [omap snd (rel_bin D t a b h)]
     | do_assume a e \<Rightarrow> rel_assume D a e h)"

fun rel_run :: "'d domain \<Rightarrow> rel_cmd list \<Rightarrow> ('d \<times> op_tag) hist \<Rightarrow> ('d \<times> op_tag) hist run" where
  "rel_run D [] h = rret h"
| "rel_run D (c # cs) h = rbind (rel_cmd_run D c h) (rel_run D cs)"

record 'c semantics =
  sem_bin :: "op_tag \<Rightarrow> 'c \<Rightarrow> 'c \<Rightarrow> 'c option"
  sem_lift :: "c_value \<Rightarrow> 'c option"
  sem_truth :: "'c \<Rightarrow> bool"
  sem_cond :: "'c \<Rightarrow> bool"

inductive conc_exec ::
  "'c semantics \<Rightarrow> rel_cmd list \<Rightarrow> (nat \<Rightarrow> 'c) \<times> nat \<Rightarrow> (nat \<Rightarrow> 'c) \<times> nat \<Rightarrow> bool"
  for S where
  exec_done: "conc_exec S [] st st"
| exec_any: "conc_exec S cs (\<sigma>(n := v), Suc n) st \<Longrightarrow> conc_exec S (do_any # cs) (\<sigma>, n) st"
| exec_lift: "sem_lift S v = Some x \<Longrightarrow> conc_exec S cs (\<sigma>(n := x), Suc n) st \<Longrightarrow>
    conc_exec S (do_lift v # cs) (\<sigma>, n) st"
| exec_bin: "a < n \<Longrightarrow> b < n \<Longrightarrow> sem_bin S t (\<sigma> a) (\<sigma> b) = Some z \<Longrightarrow>
    conc_exec S cs (\<sigma>(n := z), Suc n) st \<Longrightarrow> conc_exec S (do_bin t a b # cs) (\<sigma>, n) st"
| exec_assume: "a < n \<Longrightarrow> sem_truth S (\<sigma> a) = e \<Longrightarrow> sem_cond S (\<sigma> a) \<Longrightarrow>
    conc_exec S cs (\<sigma>, n) st \<Longrightarrow> conc_exec S (do_assume a e # cs) (\<sigma>, n) st"

inductive_simps conc_exec_simps:
  "conc_exec S [] st st'"
  "conc_exec S (do_any # cs) (\<sigma>, n) st"
  "conc_exec S (do_lift v # cs) (\<sigma>, n) st"
  "conc_exec S (do_bin t a b # cs) (\<sigma>, n) st"
  "conc_exec S (do_assume a e # cs) (\<sigma>, n) st"

text \<open>The calls whose operations are in a set, with operands that differ unless sharing is allowed.\<close>

fun cmd_ok :: "op_tag set \<Rightarrow> bool \<Rightarrow> rel_cmd \<Rightarrow> bool" where
  "cmd_ok ops shared (do_bin t a b) \<longleftrightarrow> t \<in> ops \<and> (a \<noteq> b \<or> shared)"
| "cmd_ok ops shared c \<longleftrightarrow> True"

section \<open>The contract\<close>

text \<open>A node is explained by a valuation when its operands compute it.\<close>

definition node_ok ::
  "'c semantics \<Rightarrow> op_tag set \<Rightarrow> bool \<Rightarrow> ('d \<times> op_tag) hist \<Rightarrow> (nat \<Rightarrow> 'c) \<Rightarrow> nat \<Rightarrow> bool" where
  "node_ok S ops shared h \<sigma> a \<longleftrightarrow>
    rel_tag h a \<in> {tag_any, tag_lift} \<or>
    rel_tag h a \<in> ops \<and>
    (case kids h a of [x, y] \<Rightarrow> x < a \<and> y < a \<and> (x \<noteq> y \<or> shared) \<and>
           sem_bin S (rel_tag h a) (\<sigma> x) (\<sigma> y) = Some (\<sigma> a) | _ \<Rightarrow> False)"

lemma node_okE:
  assumes "node_ok S ops shared h \<sigma> a" "rel_tag h a \<notin> {tag_any, tag_lift}"
  obtains x y where "rel_tag h a \<in> ops" "kids h a = [x, y]" "x < a" "y < a" "x \<noteq> y \<or> shared"
    "sem_bin S (rel_tag h a) (\<sigma> x) (\<sigma> y) = Some (\<sigma> a)"
  using assms by (auto simp: node_ok_def split: list.splits)

definition rel_inv ::
  "('d \<Rightarrow> 'c set) \<Rightarrow> 'c semantics \<Rightarrow> op_tag set \<Rightarrow> bool \<Rightarrow> ('d \<times> op_tag) hist \<Rightarrow> (nat \<Rightarrow> 'c) \<Rightarrow> bool" where
  "rel_inv gamma S ops shared h \<sigma> \<longleftrightarrow>
    store_holds gamma (\<lambda>i. fst (cells h i)) \<sigma> \<and> (\<forall>a < next_cell h. node_ok S ops shared h \<sigma> a)"

text \<open>Two heaps with the same nodes.\<close>

definition same_nodes :: "('d \<times> op_tag) hist \<Rightarrow> ('d \<times> op_tag) hist \<Rightarrow> bool" where
  "same_nodes h h' \<longleftrightarrow> kids h' = kids h \<and> next_cell h' = next_cell h \<and> rel_tag h' = rel_tag h"

lemma same_nodes_refl [simp]: "same_nodes h h"
  and same_nodes_trans: "same_nodes h h' \<Longrightarrow> same_nodes h' h'' \<Longrightarrow> same_nodes h h''"
  by (simp_all add: same_nodes_def)

lemma rel_inv_same_nodes:
  "same_nodes h h' \<Longrightarrow> store_holds gamma (\<lambda>i. fst (cells h' i)) \<sigma> \<Longrightarrow>
    rel_inv gamma S ops shared h \<sigma> \<Longrightarrow> rel_inv gamma S ops shared h' \<sigma>"
  by (simp add: rel_inv_def same_nodes_def node_ok_def cong: list.case_cong)

locale backward_domain = backward_sound D gamma "sem_bin S" ops shared
  for D :: "'d domain" and gamma :: "'d \<Rightarrow> 'c set" and S :: "'c semantics" and ops and shared +
  assumes ops_bin: "ops \<subseteq> set product_bop_tags"
begin

lemma rel_step_sound:
  assumes inv: "rel_inv gamma S ops shared h \<sigma>" and a: "a < next_cell h" and st: "rel_step D a h = Some r"
  shows "rsound r (\<lambda>h'. rel_inv gamma S ops shared h' \<sigma> \<and> same_nodes h h')"
proof -
  let ?t = "rel_tag h a"
  have ok: "node_ok S ops shared h \<sigma> a" and H: "store_holds gamma (\<lambda>i. fst (cells h i)) \<sigma>"
    using inv a by (auto simp: rel_inv_def)
  have "?t \<notin> {tag_any, tag_lift}"
    using st by (auto simp: rel_step_def Let_def)
  with ok obtain x y where t: "?t \<in> ops" and k: "kids h a = [x, y]" "x < a" "y < a" "x \<noteq> y \<or> shared"
    and c: "sem_bin S ?t (\<sigma> x) (\<sigma> y) = Some (\<sigma> a)"
    by (auto elim: node_okE)
  have tags: "?t \<in> set product_bop_tags"
    using t ops_bin by auto
  then have more: "?t \<in> set hist_bop_tags" "?t \<in> set rel_bin_tags" "?t \<notin> set rel_fail_tags"
      "?t \<noteq> tag_unknown" "?t \<noteq> tag_lower"
    by (auto simp: product_bop_tags_def hist_bop_tags_def rel_bin_tags_def rel_fail_tags_def)
  have r: "r = hist_bop (tagged_domain D) ?t a x y h"
    using st more \<open>?t \<notin> {tag_any, tag_lift}\<close> k(1) by (simp add: rel_step_def Let_def)
  have "rsound (dom_bop D ?t a x y (\<lambda>i. fst (cells h i))) (\<lambda>s'. store_holds gamma s' \<sigma>)"
    using bop_sound [OF t H c k(4)] k by auto
  then have "rsound (dom_bop (tagged_domain D) ?t a x y (cells h))
      (\<lambda>s'. store_holds gamma (\<lambda>i. fst (s' i)) \<sigma> \<and> (\<forall>i. snd (s' i) = snd (cells h i)))"
    unfolding tagged_bop [OF tags] by (rule rsound_rbind) simp
  then have "rsound r (\<lambda>h'. store_holds gamma (\<lambda>i. fst (cells h' i)) \<sigma> \<and> same_nodes h h')"
    unfolding r hist_bop_def with_cells_def using more
    by (auto intro!: rsound_rbind simp: same_nodes_def rel_tag_def [abs_def])
  then show ?thesis
    by (rule rsound_mono) (use rel_inv_same_nodes inv in blast)
qed

lemma rel_propagate_sound:
  "rel_inv gamma S ops shared h \<sigma> \<Longrightarrow> a < next_cell h \<Longrightarrow> a < n \<Longrightarrow>
    rsound (rel_propagate D n a h) (\<lambda>h'. rel_inv gamma S ops shared h' \<sigma> \<and> same_nodes h h')"
proof (induction n arbitrary: a h)
  case 0
  then show ?case by simp
next
  case (Suc n)
  show ?case
  proof (cases "rel_step D a h")
    case None
    then show ?thesis using Suc.prems by simp
  next
    case (Some r)
    have all: "rsound (run_all (rel_propagate D n) ks h1)
        (\<lambda>h'. rel_inv gamma S ops shared h' \<sigma> \<and> same_nodes h h')"
      if "\<forall>k \<in> set ks. k < a" "rel_inv gamma S ops shared h1 \<sigma>" "same_nodes h h1" for ks h1
      using that
    proof (induction ks arbitrary: h1)
      case Nil
      then show ?case by simp
    next
      case (Cons k ks)
      have k: "k < next_cell h1" "k < n"
        using Cons.prems Suc.prems by (auto simp: same_nodes_def)
      show ?case
        unfolding run_all.simps
        by (rule rsound_rbind [OF Suc.IH [OF Cons.prems(2) k]])
           (use Cons.IH Cons.prems same_nodes_trans in auto)
    qed
    have kids: "\<forall>k \<in> set (kids h a). k < a"
    proof -
      have "rel_tag h a \<notin> {tag_any, tag_lift}"
        using Some by (auto simp: rel_step_def Let_def)
      moreover have "node_ok S ops shared h \<sigma> a"
        using Suc.prems by (simp add: rel_inv_def)
      ultimately show ?thesis by (auto elim: node_okE)
    qed
    have "rsound (rbind r (\<lambda>h'. run_all (rel_propagate D n) (kids h' a) h'))
        (\<lambda>h'. rel_inv gamma S ops shared h' \<sigma> \<and> same_nodes h h')"
    proof (rule rsound_rbind [OF rel_step_sound [OF Suc.prems(1,2) Some]])
      fix h1 assume h1: "rel_inv gamma S ops shared h1 \<sigma> \<and> same_nodes h h1"
      then have "kids h1 a = kids h a" by (simp add: same_nodes_def)
      with kids h1 show "rsound (run_all (rel_propagate D n) (kids h1 a) h1)
          (\<lambda>h'. rel_inv gamma S ops shared h' \<sigma> \<and> same_nodes h h')"
        by (intro all) auto
    qed
    with Some show ?thesis by simp
  qed
qed

end

text \<open>With the forward contract, every program over the metadomain is followed soundly.\<close>

locale relational_domain =
  backward_domain D gamma S ops shared + forward_sound D gamma "sem_bin S" ops
  for D :: "'d domain" and gamma :: "'d \<Rightarrow> 'c set" and S :: "'c semantics" and ops and shared +
  assumes any_sound: "osound (dom_any D) (\<lambda>d. v \<in> gamma d)"
    and lift_sound: "sem_lift S l = Some x \<Longrightarrow> osound (dom_lift D l) (\<lambda>d. x \<in> gamma d)"
    and assume_sound: "x \<in> gamma d \<Longrightarrow> sem_cond S x \<Longrightarrow>
          osound (dom_assume D d (sem_truth S x)) (\<lambda>d'. x \<in> gamma d')"
begin

text \<open>Allocation of a new cell with a value that fits, and operands that explain it.\<close>

lemma hist_new_inv:
  assumes "rel_inv gamma S ops shared h \<sigma>" "z \<in> gamma d"
    and "t \<in> {tag_any, tag_lift} \<or>
      t \<in> ops \<and> (\<exists>x y. ks = [x, y] \<and> x < next_cell h \<and> y < next_cell h \<and> (x \<noteq> y \<or> shared) \<and>
        sem_bin S t (\<sigma> x) (\<sigma> y) = Some z)"
  shows "rel_inv gamma S ops shared (snd (hist_new (d, t) ks h)) (\<sigma>(next_cell h := z))"
proof -
  let ?h = "snd (hist_new (d, t) ks h)" and ?\<sigma> = "\<sigma>(next_cell h := z)"
  have holds: "store_holds gamma (\<lambda>i. fst (cells ?h i)) ?\<sigma>"
    using assms(1,2) by (auto simp: rel_inv_def hist_new_def store_holds_def)
  have old: "node_ok S ops shared ?h ?\<sigma> a" if a: "a < next_cell h" for a
  proof -
    have "node_ok S ops shared h \<sigma> a"
      using assms(1) a by (simp add: rel_inv_def)
    then show ?thesis
      using a by (auto simp: node_ok_def hist_new_def rel_tag_def split: list.splits)
  qed
  have new: "node_ok S ops shared ?h ?\<sigma> (next_cell h)"
    using assms(3) by (auto simp: node_ok_def hist_new_def rel_tag_def)
  have "next_cell ?h = Suc (next_cell h)"
    by (simp add: hist_new_def)
  then show ?thesis
    using holds old new by (auto simp: rel_inv_def less_Suc_eq)
qed

definition follows :: "(nat \<Rightarrow> 'c) \<times> nat \<Rightarrow> ('d \<times> op_tag) hist \<Rightarrow> bool" where
  "follows st h \<longleftrightarrow> rel_inv gamma S ops shared h (fst st) \<and> next_cell h = snd st"

lemma follows_new:
  assumes "follows (\<sigma>, n) h" "osound m (\<lambda>d. z \<in> gamma d)"
    and "t \<in> {tag_any, tag_lift} \<or> t \<in> ops \<and>
      (\<exists>x y. ks = [x, y] \<and> x < n \<and> y < n \<and> (x \<noteq> y \<or> shared) \<and> sem_bin S t (\<sigma> x) (\<sigma> y) = Some z)"
  shows "osound (omap snd (omap (\<lambda>d. hist_new d ks h) (omap (\<lambda>d. (d, t)) m)))
    (follows (\<sigma>(n := z), Suc n))"
  using assms hist_new_inv [of h \<sigma> z _ t ks]
  by (cases m) (auto simp: follows_def hist_new_def)

lemma hist_assume_sound:
  assumes inv: "rel_inv gamma S ops shared h \<sigma>" and n: "next_cell h = n"
    and e: "sem_truth S (\<sigma> a) = e" "sem_cond S (\<sigma> a)"
  shows "rsound [hist_assume (tagged_domain D) a e h]
    (\<lambda>h'. rel_inv gamma S ops shared h' \<sigma> \<and> next_cell h' = n)"
proof -
  have H: "store_holds gamma (\<lambda>i. fst (cells h i)) \<sigma>"
    using inv by (simp add: rel_inv_def)
  have "osound (dom_assume D (fst (cells h a)) e) (\<lambda>d. \<sigma> a \<in> gamma d)"
    using assume_sound [OF store_holdsD [OF H] e(2)] e(1) by auto
  then show ?thesis
  proof (cases "dom_assume D (fst (cells h a)) e")
    case (Ret d)
    let ?h = "h\<lparr>cells := (cells h)(a := (d, snd (cells h a)))\<rparr>"
    assume "osound (dom_assume D (fst (cells h a)) e) (\<lambda>d. \<sigma> a \<in> gamma d)"
    then have "store_holds gamma (\<lambda>i. fst (cells ?h i)) \<sigma>"
      using H Ret by (auto simp: store_holds_def)
    moreover have "same_nodes h ?h"
      by (auto simp: same_nodes_def rel_tag_def [abs_def])
    ultimately have "rel_inv gamma S ops shared ?h \<sigma>"
      using rel_inv_same_nodes inv by blast
    then show ?thesis
      using Ret n by (simp add: hist_assume_def tagged_assume)
  qed (simp_all add: hist_assume_def tagged_assume)
qed

lemma rel_cmd_sound:
  assumes "follows (\<sigma>, n) h" "cmd_ok ops shared c" "conc_exec S (c # cs) (\<sigma>, n) st"
  shows "\<exists>\<sigma>' n'. conc_exec S cs (\<sigma>', n') st \<and> rsound (rel_cmd_run D c h) (follows (\<sigma>', n'))"
proof (cases c)
  case do_any
  then obtain v where "conc_exec S cs (\<sigma>(n := v), Suc n) st"
    using assms(3) by (auto simp: conc_exec_simps)
  then show ?thesis
    using do_any follows_new [OF assms(1) any_sound, where z = v and t = tag_any and ks = "[]"]
    by (intro exI conjI) (auto simp: rel_cmd_run_def rel_any_def hist_any_def tagged_any)
next
  case (do_lift v)
  then obtain x where x: "sem_lift S v = Some x" "conc_exec S cs (\<sigma>(n := x), Suc n) st"
    using assms(3) by (auto simp: conc_exec_simps)
  then show ?thesis
    using do_lift follows_new [OF assms(1) lift_sound [OF x(1)], where t = tag_lift and ks = "[]"]
    by (intro exI conjI) (auto simp: rel_cmd_run_def rel_lift_def hist_lift_def tagged_lift)
next
  case (do_bin t a b)
  then obtain z where z: "a < n" "b < n" "sem_bin S t (\<sigma> a) (\<sigma> b) = Some z"
      "conc_exec S cs (\<sigma>(n := z), Suc n) st"
    using assms(3) by (auto simp: conc_exec_simps)
  have t: "t \<in> ops" "a \<noteq> b \<or> shared"
    using assms(2) do_bin by simp_all
  then have "t \<in> set product_bop_tags"
    using ops_bin by auto
  then have tags: "t \<in> set hist_bin_tags" "t \<in> set optag_bin_tags"
    by (auto simp: product_bop_tags_def hist_bin_tags_def optag_bin_tags_def)
  have "store_holds gamma (\<lambda>i. fst (cells h i)) \<sigma>"
    using assms(1) by (simp add: follows_def rel_inv_def)
  then have "osound (dom_bin D t (fst (cells h a)) (fst (cells h b))) (\<lambda>d. z \<in> gamma d)"
    by (intro bin_sound [OF t(1) _ _ z(3)]) (auto dest: store_holdsD)
  then have "osound (omap snd (omap (\<lambda>d. hist_new d [a, b] h)
      (omap (\<lambda>d. (d, t)) (dom_bin D t (fst (cells h a)) (fst (cells h b))))))
      (follows (\<sigma>(n := z), Suc n))"
    using t z by (intro follows_new [OF assms(1)]) auto
  then show ?thesis
    using do_bin tags z
    by (intro exI conjI) (auto simp: rel_cmd_run_def rel_bin_def hist_bin_def tagged_bin)
next
  case (do_assume a e)
  then have e: "a < n" "sem_truth S (\<sigma> a) = e" "sem_cond S (\<sigma> a)" "conc_exec S cs (\<sigma>, n) st"
    using assms(3) by (auto simp: conc_exec_simps)
  have inv: "rel_inv gamma S ops shared h \<sigma>" and n: "next_cell h = n"
    using assms(1) by (simp_all add: follows_def)
  have "rsound (rel_assume D a e h) (\<lambda>h'. rel_inv gamma S ops shared h' \<sigma> \<and> next_cell h' = n)"
    unfolding rel_assume_def
  proof (rule rsound_rbind [OF hist_assume_sound [OF inv n e(2,3)]])
    fix h1 assume h1: "rel_inv gamma S ops shared h1 \<sigma> \<and> next_cell h1 = n"
    then show "rsound (rel_propagate D (Suc a) a h1)
        (\<lambda>h'. rel_inv gamma S ops shared h' \<sigma> \<and> next_cell h' = n)"
      using e(1)
      by (intro rsound_mono [OF rel_propagate_sound [where \<sigma> = \<sigma>]]) (auto simp: same_nodes_def)
  qed
  then show ?thesis
    using do_assume e by (intro exI conjI) (auto simp: rel_cmd_run_def follows_def [abs_def])
qed

lemma rel_run_sound:
  "follows (\<sigma>, n) h \<Longrightarrow> \<forall>c \<in> set cs. cmd_ok ops shared c \<Longrightarrow> conc_exec S cs (\<sigma>, n) st \<Longrightarrow>
    rsound (rel_run D cs h) (follows st)"
proof (induction cs arbitrary: \<sigma> n h)
  case Nil
  then show ?case by (simp add: conc_exec_simps)
next
  case (Cons c cs)
  have ok: "cmd_ok ops shared c" "\<forall>c \<in> set cs. cmd_ok ops shared c"
    using Cons.prems(2) by simp_all
  obtain \<sigma>' n' where c: "conc_exec S cs (\<sigma>', n') st" "rsound (rel_cmd_run D c h) (follows (\<sigma>', n'))"
    using rel_cmd_sound [OF Cons.prems(1) ok(1) Cons.prems(3)] by blast
  show ?case
    unfolding rel_run.simps
    by (rule rsound_rbind [OF c(2)]) (rule Cons.IH [OF _ ok(2) c(1)])
qed

end

section \<open>The depth of the recursion\<close>

text \<open>Operands are older than the value they make; no step of the propagation changes them.\<close>

definition ordered_kids :: "'v hist \<Rightarrow> bool" where
  "ordered_kids h \<longleftrightarrow> (\<forall>a. \<forall>k \<in> set (kids h a). k < a)"

lemma with_cells_kids: "h' \<in> returns (with_cells h r) \<Longrightarrow> kids h' = kids h"
  by (auto simp: with_cells_def)

lemma rel_step_kids: "rel_step D a h = Some r \<Longrightarrow> h' \<in> returns r \<Longrightarrow> kids h' = kids h"
  by (auto simp: rel_step_def Let_def hist_bop_def hist_bun_def with_cells_kids
      split: if_splits list.splits dest: with_cells_kids)

lemma run_all_kids:
  assumes "\<And>k h h'. h' \<in> returns (f k h) \<Longrightarrow> kids h' = kids h"
  shows "h' \<in> returns (run_all f ks h) \<Longrightarrow> kids h' = kids h"
proof (induction ks arbitrary: h)
  case (Cons k ks)
  then show ?case using assms by fastforce
qed simp

lemma rel_propagate_kids: "h' \<in> returns (rel_propagate D n a h) \<Longrightarrow> kids h' = kids h"
proof (induction n arbitrary: a h h')
  case (Suc n)
  show ?case
  proof (cases "rel_step D a h")
    case (Some r)
    then obtain h1 where h1: "h1 \<in> returns r" "h' \<in> returns (run_all (rel_propagate D n) (kids h1 a) h1)"
      using Suc.prems by auto
    then show ?thesis
      using rel_step_kids [OF Some h1(1)] run_all_kids [of "rel_propagate D n"] Suc.IH by metis
  qed (use Suc.prems in simp)
qed simp

lemma run_all_depth:
  assumes "\<And>k h. k \<in> set ks \<Longrightarrow> ordered_kids h \<Longrightarrow> f k h = g k h"
    and "\<And>k h h'. h' \<in> returns (f k h) \<Longrightarrow> kids h' = kids h" and "ordered_kids h"
  shows "run_all f ks h = run_all g ks h"
  using assms(1,3)
proof (induction ks arbitrary: h)
  case Nil
  then show ?case by simp
next
  case (Cons k ks)
  have "rbind (f k h) (run_all f ks) = rbind (f k h) (run_all g ks)"
  proof (rule rbind_cong_returns)
    fix h1 assume "h1 \<in> returns (f k h)"
    then have "ordered_kids h1"
      using assms(2) Cons.prems(2) by (simp add: ordered_kids_def)
    then show "run_all f ks h1 = run_all g ks h1"
      using Cons by simp
  qed
  then show ?case using Cons.prems by simp
qed

lemma rel_propagate_depth:
  "a < n \<Longrightarrow> a < m \<Longrightarrow> ordered_kids h \<Longrightarrow> rel_propagate D n a h = rel_propagate D m a h"
proof (induction a arbitrary: n m h rule: less_induct)
  case (less a)
  obtain n' m' where nm: "n = Suc n'" "m = Suc m'"
    using less.prems by (metis less_imp_Suc_add)
  show ?case
  proof (cases "rel_step D a h")
    case None
    then show ?thesis by (simp add: nm)
  next
    case (Some r)
    have "rbind r (\<lambda>h'. run_all (rel_propagate D n') (kids h' a) h') =
          rbind r (\<lambda>h'. run_all (rel_propagate D m') (kids h' a) h')"
    proof (rule rbind_cong_returns)
      fix h1 assume "h1 \<in> returns r"
      then have h1: "ordered_kids h1"
        using rel_step_kids [OF Some] less.prems(3) by (simp add: ordered_kids_def)
      then have small: "k < a" if "k \<in> set (kids h1 a)" for k
        using that by (simp add: ordered_kids_def)
      show "run_all (rel_propagate D n') (kids h1 a) h1 = run_all (rel_propagate D m') (kids h1 a) h1"
      proof (rule run_all_depth [OF _ rel_propagate_kids h1])
        fix k and h :: "('a \<times> op_tag) hist"
        assume "k \<in> set (kids h1 a)" "ordered_kids h"
        moreover from this have "k < a" by (intro small)
        moreover from this have "k < n'" "k < m'" using less.prems nm by simp_all
        ultimately show "rel_propagate D n' k h = rel_propagate D m' k h"
          by (intro less.IH)
      qed
    qed
    then show ?thesis by (simp add: nm Some)
  qed
qed

section \<open>The metadomains of the repository\<close>

text \<open>A lifted constant as a word; constants that do not fit the width are left out.\<close>

definition zero_number :: "c_value \<Rightarrow> 'w::len word option" where
  "zero_number v =
    (case c_number v of None \<Rightarrow> None
     | Some x \<Rightarrow> if (word_of_int x = (0 :: 'w word)) = (x = 0) then Some (word_of_int x) else None)"

definition zero_semantics :: "'w::len word semantics" where
  "zero_semantics =
    \<lparr>sem_bin = conc_word, sem_lift = zero_number, sem_truth = (\<lambda>x. x \<noteq> 0), sem_cond = (\<lambda>_. True)\<rparr>"

definition int_semantics :: "int semantics" where
  "int_semantics =
    \<lparr>sem_bin = conc_int, sem_lift = c_number, sem_truth = (\<lambda>x. x \<noteq> 0), sem_cond = (\<lambda>x. 0 \<le> x)\<rparr>"

lemma semantics_simps [simp]:
  "sem_bin zero_semantics = conc_word" "sem_bin int_semantics = conc_int"
  "sem_lift zero_semantics = zero_number" "sem_lift int_semantics = c_number"
  "sem_truth zero_semantics x = (x \<noteq> 0)" "sem_truth int_semantics i = (i \<noteq> 0)"
  "sem_cond zero_semantics x = True" "sem_cond int_semantics i = (0 \<le> i)"
  by (simp_all add: zero_semantics_def int_semantics_def)

definition zero_ops :: "op_tag set" where
  "zero_ops = set product_bop_tags - {tag_mul}"

definition sign_ops :: "op_tag set" where
  "sign_ops = set product_bop_tags - {tag_add, tag_ne, tag_sgt}"

definition interval_bops :: "op_tag set" where
  "interval_bops = set product_bop_tags \<inter> iv_sound_bops"

lemma product_bop_mixin: "t \<in> set product_bop_tags \<Longrightarrow> t \<in> set mixin_bop_tags"
  by (auto simp: product_bop_tags_def mixin_bop_tags_def)

lemma zero_lift_sound: "zero_number l = Some x \<Longrightarrow> osound (zero_lift l) (\<lambda>d. x \<in> zero_gamma d)"
  by (cases l) (auto simp: zero_number_def split: if_splits)

lemma sign_lift_sound: "c_number l = Some x \<Longrightarrow> osound (sign_lift l) (\<lambda>d. x \<in> sign_gamma d)"
  by (cases l) (auto simp: sign_bools)

interpretation zero_rel: relational_domain zero_domain zero_gamma zero_semantics zero_ops True
proof
  show "zero_ops \<subseteq> set product_bop_tags" by (auto simp: zero_ops_def)
next
  fix t and s :: "zero store" and \<sigma> :: "nat \<Rightarrow> 'a::len word" and a b r
  assume "t \<in> zero_ops" "store_holds zero_gamma s \<sigma>" "sem_bin zero_semantics t (\<sigma> a) (\<sigma> b) = Some (\<sigma> r)"
    "a \<noteq> b \<or> True" "r \<noteq> a" "r \<noteq> b"
  then show "rsound (dom_bop zero_domain t r a b s) (\<lambda>s'. store_holds zero_gamma s' \<sigma>)"
    by (intro zr_back.bop_sound) (auto simp: zero_ops_def product_bop_mixin)
next
  fix t a b and x y z :: "'a::len word"
  assume "t \<in> zero_ops" "x \<in> zero_gamma a" "y \<in> zero_gamma b" "sem_bin zero_semantics t x y = Some z"
  then show "osound (dom_bin zero_domain t a b) (\<lambda>c. z \<in> zero_gamma c)"
    by (intro zr.bin_sound) (auto simp: zero_ops_def)
qed (auto simp: zero_domain_def zero_any_def zero_lift_sound zero_assume_sound)

interpretation sign_rel: relational_domain sign_domain sign_gamma int_semantics sign_ops True
proof
  show "sign_ops \<subseteq> set product_bop_tags" by (auto simp: sign_ops_def)
next
  fix t s \<sigma> a b r
  assume "t \<in> sign_ops" "store_holds sign_gamma s \<sigma>" "sem_bin int_semantics t (\<sigma> a) (\<sigma> b) = Some (\<sigma> r)"
    "a \<noteq> b \<or> True" "r \<noteq> a" "r \<noteq> b"
  then show "rsound (dom_bop sign_domain t r a b s) (\<lambda>s'. store_holds sign_gamma s' \<sigma>)"
    by (intro sgn_back.bop_sound) (auto simp: sign_ops_def product_bop_mixin)
next
  fix t a b x y z
  assume "t \<in> sign_ops" "x \<in> sign_gamma a" "y \<in> sign_gamma b" "sem_bin int_semantics t x y = Some z"
  then show "osound (dom_bin sign_domain t a b) (\<lambda>c. z \<in> sign_gamma c)"
    by (intro sgn.bin_sound) (auto simp: sign_ops_def)
qed (auto simp: sign_domain_def sign_any_def sign_lift_sound sign_assume_sound)

interpretation interval_rel: backward_domain interval_domain small_gamma int_semantics interval_bops False
proof
  show "interval_bops \<subseteq> set product_bop_tags" by (auto simp: interval_bops_def)
next
  fix t s \<sigma> a b r
  assume "t \<in> interval_bops" "store_holds small_gamma s \<sigma>" "sem_bin int_semantics t (\<sigma> a) (\<sigma> b) = Some (\<sigma> r)"
    "a \<noteq> b \<or> False" "r \<noteq> a" "r \<noteq> b"
  then show "rsound (dom_bop interval_domain t r a b s) (\<lambda>s'. store_holds small_gamma s' \<sigma>)"
    by (intro ivl_back.bop_sound) (auto simp: interval_bops_def)
qed

text \<open>The tagged domains are products that keep the contracts of their components.\<close>

lemma conc_word_tags:
  "conc_word t x y = Some z \<Longrightarrow> t \<in> set optag_bin_tags"
  "conc_word t x y = Some z \<Longrightarrow> t \<in> set product_bin_tags"
  by (auto simp: conc_word_def optag_bin_tags_def product_bin_tags_def split: if_splits)

lemma conc_int_tags:
  "conc_int t x y = Some z \<Longrightarrow> t \<in> set optag_bin_tags"
  "conc_int t x y = Some z \<Longrightarrow> t \<in> set product_bin_tags"
  by (auto simp: conc_int_def optag_bin_tags_def product_bin_tags_def split: if_splits)

interpretation tagged_zero: product_sound zero_domain zero_gamma optag_domain "\<lambda>_. UNIV" conc_word
  "- {tag_mul}" to_tristate_first
  by (rule product_sound.intro [OF zr.forward_sound_axioms optag_forward_sound])
     (auto intro: product_sound_axioms.intro dest: conc_word_tags)

interpretation tagged_sign: product_sound sign_domain sign_gamma optag_domain "\<lambda>_. UNIV" conc_int
  "- {tag_add}" to_tristate_first
  by (rule product_sound.intro [OF sgn.forward_sound_axioms optag_forward_sound])
     (auto intro: product_sound_axioms.intro dest: conc_int_tags)

section \<open>Properties\<close>

text \<open>
  The recursion of backward propagation ends: on a heap in which operands are older than the value
  they make, calls nested as deep as the number of the cell plus one are enough, for any deeper
  bound gives the same run with the same outcomes on all paths.
\<close>

theorem propagation_depth_enough:
  assumes "ordered_kids h" "a < n"
  shows "rel_propagate D n a h = rel_propagate D (Suc a) a h"
  using rel_propagate_depth [of a n "Suc a" h D] assms by simp







end
