(* ===== verification/Array_Map.thy ===== *)
theory Array_Map
  imports Lart_Prelude "HOL-Library.Multiset"
begin

text \<open>
  The map of the runtime, \<open>runtime/include/runtime/map.hpp\<close>: a vector of key and value pairs kept
  sorted by the keys (\<open>array_set\<close>, \<open>array_map\<close> with the \<open>insert_sort\<close> policy). The vector is a
  list and an iterator is an index, the end being the length of the list.
\<close>

section \<open>The search and sort policy\<close>

text \<open>\<open>less_map\<close> compares pairs, or a pair and a key, by the keys.\<close>

definition cmp_pairs :: "('k :: linorder) \<times> 'v \<Rightarrow> 'k \<times> 'v \<Rightarrow> bool" where
  "cmp_pairs a b \<longleftrightarrow> fst a < fst b"

definition cmp_key :: "('k :: linorder) \<times> 'v \<Rightarrow> 'k \<Rightarrow> bool" where
  "cmp_key a k \<longleftrightarrow> fst a < k"

function lower_bound :: "('k :: linorder \<times> 'v) list \<Rightarrow> nat \<Rightarrow> nat \<Rightarrow> 'k \<Rightarrow> nat" where
  "lower_bound xs b e k =
    (if b \<ge> e then b
     else let pivot = b + (e - b) div 2 in
       if cmp_key (xs ! pivot) k then lower_bound xs (pivot + 1) e k
       else lower_bound xs b pivot k)"
  by pat_completeness auto

termination
  by (relation "measure (\<lambda>(xs, b, e, k). e - b)") auto

declare lower_bound.simps [simp del]

definition swap_at :: "'a list \<Rightarrow> nat \<Rightarrow> nat \<Rightarrow> 'a list" where
  "swap_at xs i j = xs[i := xs ! j, j := xs ! i]"

text \<open>The inner loop of the sort moves one element to the left.\<close>

fun sink :: "nat \<Rightarrow> ('k :: linorder \<times> 'v) list \<Rightarrow> ('k \<times> 'v) list" where
  "sink 0 xs = xs"
| "sink (Suc j) xs =
    (if cmp_pairs (xs ! Suc j) (xs ! j) then sink j (swap_at xs (Suc j) j) else xs)"

definition insertion_sort :: "('k :: linorder \<times> 'v) list \<Rightarrow> ('k \<times> 'v) list" where
  "insertion_sort xs = fold sink [1..<length xs] xs"

section \<open>The set of pairs\<close>

definition arr_eq :: "('k :: linorder) \<times> 'v \<Rightarrow> 'k \<Rightarrow> bool" where
  "arr_eq a k \<longleftrightarrow> \<not> fst a < k \<and> \<not> k < fst a"

definition arr_find :: "'k :: linorder \<Rightarrow> ('k \<times> 'v) list \<Rightarrow> nat" where
  "arr_find k xs =
    (let elem = lower_bound xs 0 (length xs) k in
     if elem \<noteq> length xs \<and> arr_eq (xs ! elem) k then elem else length xs)"

definition arr_count :: "'k :: linorder \<Rightarrow> ('k \<times> 'v) list \<Rightarrow> nat" where
  "arr_count k xs = (if arr_find k xs = length xs then 0 else 1)"

definition arr_of_list :: "('k :: linorder \<times> 'v) list \<Rightarrow> ('k \<times> 'v) list" where
  "arr_of_list il = insertion_sort il"

definition arr_insert ::
  "('k :: linorder) \<times> 'v \<Rightarrow> ('k \<times> 'v) list \<Rightarrow> ('k \<times> 'v) list \<times> nat \<times> bool" where
  "arr_insert value xs =
    (let it = arr_find (fst value) xs in
     if it \<noteq> length xs then (xs, it, False)
     else let ys = insertion_sort (xs @ [value]) in (ys, arr_find (fst value) ys, True))"

text \<open>
  \<open>emplace\<close> holds a reference to the last slot of the vector across the sort, so that what it
  searches for afterwards is whatever the sort left there.
\<close>

definition arr_emplace ::
  "('k :: linorder) \<times> 'v \<Rightarrow> ('k \<times> 'v) list \<Rightarrow> ('k \<times> 'v) list \<times> nat \<times> bool" where
  "arr_emplace value xs =
    (let ys = xs @ [value];
         it = lower_bound ys 0 (length ys - 1) (fst (last ys)) in
     if it = length ys - 1 \<or> \<not> arr_eq (ys ! it) (fst (last ys)) then
       let zs = insertion_sort ys; item = last zs in (zs, arr_find (fst item) zs, True)
     else
       let item = ys ! it; zs = butlast ys in (zs, arr_find (fst item) zs, False))"

definition arr_erase_at :: "nat \<Rightarrow> ('k \<times> 'v) list \<Rightarrow> ('k \<times> 'v) list" where
  "arr_erase_at pos xs = butlast (swap_at xs pos (length xs - 1))"

definition arr_erase :: "'k :: linorder \<Rightarrow> ('k \<times> 'v) list \<Rightarrow> ('k \<times> 'v) list \<times> nat" where
  "arr_erase k xs =
    (let it = arr_find k xs in
     if it = length xs then (xs, 0) else (arr_erase_at it xs, 1))"

section \<open>The map\<close>

text \<open>\<open>operator[]\<close> returns a reference, which is the index of the slot it refers to.\<close>

definition arr_index :: "'v \<Rightarrow> 'k :: linorder \<Rightarrow> ('k \<times> 'v) list \<Rightarrow> ('k \<times> 'v) list \<times> nat" where
  "arr_index dflt k xs =
    (let it = arr_find k xs in
     if it \<noteq> length xs then (xs, it)
     else case arr_emplace (k, dflt) xs of (ys, i, _) \<Rightarrow> (ys, i))"

definition arr_at :: "'k :: linorder \<Rightarrow> ('k \<times> 'v) list \<Rightarrow> 'v outcome" where
  "arr_at k xs =
    (let it = arr_find k xs in if it = length xs then Fault [] else Ret (snd (xs ! it)))"

section \<open>Sorting\<close>

definition arr_inv :: "('k :: linorder \<times> 'v) list \<Rightarrow> bool" where
  "arr_inv xs \<longleftrightarrow> sorted_wrt (<) (map fst xs)"

lemma swap_append: "swap_at (ys @ y # x # zs) (Suc (length ys)) (length ys) = ys @ x # y # zs"
  by (simp add: swap_at_def list_update_append nth_append)

text \<open>Sinking the element after a prefix inserts it into the prefix.\<close>

lemma sink_splits:
  "\<exists>us vs. ys = us @ vs \<and> sink (length ys) (ys @ x # zs) = us @ x # vs @ zs \<and>
    (\<forall>v \<in> set vs. fst x < fst v) \<and> (us \<noteq> [] \<longrightarrow> fst (last us) \<le> fst x)"
proof (induction ys arbitrary: zs rule: rev_induct)
  case Nil
  then show ?case by simp
next
  case (snoc y ys)
  show ?case
  proof (cases "fst x < fst y")
    case True
    obtain us vs where *: "ys = us @ vs" "sink (length ys) (ys @ x # y # zs) = us @ x # vs @ y # zs"
      "\<forall>v \<in> set vs. fst x < fst v" "us \<noteq> [] \<longrightarrow> fst (last us) \<le> fst x"
      using snoc.IH [of "y # zs"] by blast
    have "sink (length (ys @ [y])) ((ys @ [y]) @ x # zs) = us @ x # (vs @ [y]) @ zs"
      using True * swap_append [of ys y x zs] by (simp add: cmp_pairs_def nth_append)
    moreover have "\<forall>v \<in> set (vs @ [y]). fst x < fst v"
      using * True by auto
    ultimately show ?thesis
      using *(1,4) by (intro exI [of _ us] exI [of _ "vs @ [y]"]) simp
  next
    case False
    then have "sink (length (ys @ [y])) ((ys @ [y]) @ x # zs) = (ys @ [y]) @ x # [] @ zs"
      by (simp add: cmp_pairs_def nth_append)
    then show ?thesis
      using False by (intro exI [of _ "ys @ [y]"] exI [of _ "[]"]) auto
  qed
qed

lemma sink_sorted:
  assumes "sorted (map fst ys)"
  shows "\<exists>ws. sink (length ys) (ys @ x # zs) = ws @ zs \<and> mset ws = mset (x # ys) \<and> sorted (map fst ws)"
proof -
  obtain us vs where *: "ys = us @ vs" "sink (length ys) (ys @ x # zs) = us @ x # vs @ zs"
    "\<forall>v \<in> set vs. fst x < fst v" "us \<noteq> [] \<longrightarrow> fst (last us) \<le> fst x"
    using sink_splits [of ys x zs] by blast
  have "\<forall>u \<in> set us. fst u \<le> fst x"
  proof (cases us rule: rev_cases)
    case (snoc us' u)
    then show ?thesis
      using * assms by (fastforce simp: sorted_append)
  qed simp
  then have "sorted (map fst (us @ x # vs))"
    using *(1,3) assms by (auto simp: sorted_append less_imp_le)
  then show ?thesis
    using * by (intro exI [of _ "us @ x # vs"]) simp
qed

lemma fold_sink_sorted:
  "i \<le> length xs \<Longrightarrow> sorted (map fst (take i xs)) \<Longrightarrow>
    mset (fold sink [i..<length xs] xs) = mset xs \<and> sorted (map fst (fold sink [i..<length xs] xs))"
proof (induction "length xs - i" arbitrary: i xs)
  case 0
  then show ?case by simp
next
  case (Suc n)
  then have i: "i < length xs" by simp
  have xs: "xs = take i xs @ xs ! i # drop (Suc i) xs"
    using i by (simp add: id_take_nth_drop)
  have li: "length (take i xs) = i" using i by simp
  obtain ws where ws: "sink i xs = ws @ drop (Suc i) xs" "mset ws = mset (xs ! i # take i xs)"
    "sorted (map fst ws)"
    using sink_sorted [OF Suc.prems(2), of "xs ! i" "drop (Suc i) xs"] xs [symmetric] li by auto
  have lw: "length ws = Suc i"
    using ws(2) i by (metis size_mset length_Cons li)
  have m: "mset (sink i xs) = mset xs"
    using ws(1,2) xs by (metis mset_append mset.simps(2) union_mset_add_mset_left
        union_mset_add_mset_right)
  then have len: "length (sink i xs) = length xs" by (metis size_mset)
  have t: "sorted (map fst (take (Suc i) (sink i xs)))"
    using ws lw by simp
  have "mset (fold sink [Suc i..<length (sink i xs)] (sink i xs)) = mset (sink i xs) \<and>
        sorted (map fst (fold sink [Suc i..<length (sink i xs)] (sink i xs)))"
    by (rule Suc.hyps(1)) (use Suc.hyps(2) i len t in simp_all)
  then show ?case
    using i m len by (simp add: upt_conv_Cons)
qed

lemma insertion_sort_sorted: "sorted (map fst (insertion_sort xs))"
  and insertion_sort_mset: "mset (insertion_sort xs) = mset xs"
proof -
  have "mset (fold sink [1..<length xs] xs) = mset xs \<and> sorted (map fst (fold sink [1..<length xs] xs))"
  proof (cases "xs = []")
    case False
    have "sorted (map fst (take 1 xs))" by (cases xs) auto
    with False show ?thesis
      by (intro fold_sink_sorted) (simp_all add: Suc_le_eq)
  qed simp
  then show "sorted (map fst (insertion_sort xs))" "mset (insertion_sort xs) = mset xs"
    by (simp_all add: insertion_sort_def)
qed

section \<open>Binary search\<close>

lemma lower_bound_spec:
  assumes "b \<le> e" "e \<le> length xs" "sorted (map fst xs)"
  shows "b \<le> lower_bound xs b e k \<and> lower_bound xs b e k \<le> e \<and>
    (\<forall>i. b \<le> i \<and> i < lower_bound xs b e k \<longrightarrow> fst (xs ! i) < k) \<and>
    (\<forall>i. lower_bound xs b e k \<le> i \<and> i < e \<longrightarrow> k \<le> fst (xs ! i))"
  using assms
proof (induction xs b e k rule: lower_bound.induct)
  case (1 xs b e k)
  have mono: "fst (xs ! i) \<le> fst (xs ! j)" if "i \<le> j" "j < e" for i j
    using sorted_nth_mono [OF 1(5), of i j] that 1(4) by simp
  define p where "p = b + (e - b) div 2"
  show ?case
  proof (cases "b \<ge> e")
    case True
    then have "lower_bound xs b e k = b" by (subst lower_bound.simps) simp
    then show ?thesis using 1(3) True by auto
  next
    case False
    then have p: "b \<le> p" "p < e" by (auto simp: p_def)
    show ?thesis
    proof (cases "fst (xs ! p) < k")
      case True
      have eq: "lower_bound xs b e k = lower_bound xs (p + 1) e k"
        using False True by (simp add: lower_bound.simps [of xs b e] cmp_key_def p_def [symmetric] Let_def)
      have "p + 1 \<le> lower_bound xs (p + 1) e k \<and> lower_bound xs (p + 1) e k \<le> e \<and>
        (\<forall>i. p + 1 \<le> i \<and> i < lower_bound xs (p + 1) e k \<longrightarrow> fst (xs ! i) < k) \<and>
        (\<forall>i. lower_bound xs (p + 1) e k \<le> i \<and> i < e \<longrightarrow> k \<le> fst (xs ! i))"
        using 1(1) [OF False p_def] True p 1(4,5) by (simp add: cmp_key_def)
      moreover have "fst (xs ! i) < k" if "i \<le> p" for i
        using mono [OF that p(2)] True by (rule le_less_trans)
      ultimately show ?thesis
        unfolding eq using p by (metis Suc_eq_plus1 Suc_leD le_trans not_less_eq_eq)
    next
      case l: False
      have eq: "lower_bound xs b e k = lower_bound xs b p k"
        using False l by (simp add: lower_bound.simps [of xs b e] cmp_key_def p_def [symmetric] Let_def)
      have "b \<le> lower_bound xs b p k \<and> lower_bound xs b p k \<le> p \<and>
        (\<forall>i. b \<le> i \<and> i < lower_bound xs b p k \<longrightarrow> fst (xs ! i) < k) \<and>
        (\<forall>i. lower_bound xs b p k \<le> i \<and> i < p \<longrightarrow> k \<le> fst (xs ! i))"
        using 1(2) [OF False p_def] l p 1(4,5) by (simp add: cmp_key_def)
      moreover have "k \<le> fst (xs ! i)" if "p \<le> i" "i < e" for i
        using mono [OF that] l by auto
      ultimately show ?thesis
        unfolding eq using p by (metis le_trans less_imp_le not_le)
    qed
  qed
qed

lemma arr_inv_sorted: "arr_inv xs \<Longrightarrow> sorted (map fst xs)" "arr_inv xs \<Longrightarrow> distinct (map fst xs)"
  by (auto simp: arr_inv_def strict_sorted_iff)

lemma arr_invI: "sorted (map fst xs) \<Longrightarrow> distinct (map fst xs) \<Longrightarrow> arr_inv xs"
  by (auto simp: arr_inv_def strict_sorted_iff)

lemma arr_eq_iff: "arr_eq a k \<longleftrightarrow> fst a = k"
  by (auto simp: arr_eq_def)

text \<open>The search finds a key of a sorted array exactly when it is there.\<close>

lemma arr_find_spec:
  assumes "sorted (map fst xs)"
  shows "arr_find k xs = length xs \<and> k \<notin> fst ` set xs \<or>
         arr_find k xs < length xs \<and> fst (xs ! arr_find k xs) = k"
proof -
  let ?e = "lower_bound xs 0 (length xs) k"
  note spec = lower_bound_spec [OF le0 le_refl assms, of k]
  show ?thesis
  proof (cases "?e \<noteq> length xs \<and> fst (xs ! ?e) = k")
    case True
    then have "?e < length xs" using spec by auto
    with True show ?thesis by (simp add: arr_find_def arr_eq_iff Let_def)
  next
    case False
    have "k \<noteq> fst (xs ! i)" if i: "i < length xs" for i
    proof
      assume k: "k = fst (xs ! i)"
      then have e: "?e \<le> i" using spec i by (metis leI less_irrefl zero_le)
      then have "?e < length xs" using i by simp
      then have "k \<le> fst (xs ! ?e)" using spec by blast
      moreover have "fst (xs ! ?e) \<le> k"
        using sorted_nth_mono [OF assms e] i k e by simp
      ultimately show False using False \<open>?e < length xs\<close> by auto
    qed
    then have "k \<notin> fst ` set xs" by (force simp: in_set_conv_nth)
    with False show ?thesis by (auto simp: arr_find_def arr_eq_iff Let_def)
  qed
qed

lemma arr_find_in:
  "sorted (map fst xs) \<Longrightarrow> k \<in> fst ` set xs \<Longrightarrow> arr_find k xs < length xs \<and> fst (xs ! arr_find k xs) = k"
  using arr_find_spec by blast

lemma arr_find_notin: "sorted (map fst xs) \<Longrightarrow> k \<notin> fst ` set xs \<Longrightarrow> arr_find k xs = length xs"
  using arr_find_spec by (metis imageI nth_mem)

lemma arr_find_nth:
  assumes "arr_inv xs" "i < length xs"
  shows "arr_find (fst (xs ! i)) xs = i"
proof -
  have f: "arr_find (fst (xs ! i)) xs < length xs"
    "fst (xs ! arr_find (fst (xs ! i)) xs) = fst (xs ! i)"
    using arr_find_in [OF arr_inv_sorted(1) [OF assms(1)]] assms(2) by auto
  then show ?thesis
    using nth_eq_iff_index_eq [OF arr_inv_sorted(2) [OF assms(1)]] assms(2) by simp
qed

text \<open>The map an array stands for.\<close>

lemma arr_find_map_of:
  assumes "arr_inv xs"
  shows "map_of xs k = (if arr_find k xs = length xs then None else Some (snd (xs ! arr_find k xs)))"
proof (cases "k \<in> fst ` set xs")
  case True
  note f = arr_find_in [OF arr_inv_sorted(1) [OF assms] True]
  then have "(k, snd (xs ! arr_find k xs)) \<in> set xs"
    by (metis nth_mem prod.collapse)
  then show ?thesis
    using f map_of_is_SomeI [OF arr_inv_sorted(2) [OF assms]] by auto
next
  case False
  then show ?thesis
    using arr_find_notin [OF arr_inv_sorted(1) [OF assms] False] by (simp add: map_of_eq_None_iff)
qed

lemma arr_at_map_of:
  "arr_inv xs \<Longrightarrow> arr_at k xs = (case map_of xs k of None \<Rightarrow> Fault [] | Some v \<Rightarrow> Ret v)"
  by (simp add: arr_at_def arr_find_map_of Let_def)

section \<open>Insertion\<close>

lemma insertion_sort_facts:
  "length (insertion_sort xs) = length xs" "set (insertion_sort xs) = set xs"
  "distinct (map fst xs) \<Longrightarrow> arr_inv (insertion_sort xs)"
proof -
  show "length (insertion_sort xs) = length xs" "set (insertion_sort xs) = set xs"
    using insertion_sort_mset [of xs] by (metis size_mset) (metis insertion_sort_mset set_mset_mset)
  have "mset (map fst (insertion_sort xs)) = mset (map fst xs)"
    by (simp add: insertion_sort_mset)
  then show "distinct (map fst xs) \<Longrightarrow> arr_inv (insertion_sort xs)"
    by (intro arr_invI insertion_sort_sorted) (metis mset_eq_imp_distinct_iff)
qed

lemma map_of_insertion_sort:
  "distinct (map fst xs) \<Longrightarrow> map_of (insertion_sort xs) = map_of xs"
  using insertion_sort_facts [of xs] arr_inv_sorted(2) map_of_inject_set by blast

lemma map_of_snoc: "k \<notin> fst ` set xs \<Longrightarrow> map_of (xs @ [(k, v)]) = (map_of xs)(k \<mapsto> v)"
proof
  fix x assume k: "k \<notin> fst ` set xs"
  then have "map_of xs k = None" by (simp add: map_of_eq_None_iff)
  then show "map_of (xs @ [(k, v)]) x = ((map_of xs)(k \<mapsto> v)) x"
    by (cases "x = k") (auto simp: map_add_def split: option.splits)
qed

lemma arr_insert_spec:
  assumes "arr_inv xs"
  shows "case arr_insert (k, v) xs of (ys, i, fresh) \<Rightarrow>
    arr_inv ys \<and> (fresh \<longleftrightarrow> k \<notin> dom (map_of xs)) \<and>
    map_of ys = (if fresh then (map_of xs)(k \<mapsto> v) else map_of xs) \<and>
    i < length ys \<and> fst (ys ! i) = k"
proof (cases "k \<in> fst ` set xs")
  case True
  note f = arr_find_in [OF arr_inv_sorted(1) [OF assms] True]
  then show ?thesis
    using assms True by (auto simp: arr_insert_def Let_def dom_map_of_conv_image_fst)
next
  case False
  let ?ys = "insertion_sort (xs @ [(k, v)])"
  have d: "distinct (map fst (xs @ [(k, v)]))"
    using False arr_inv_sorted(2) [OF assms] by auto
  have "k \<in> fst ` set ?ys" by (simp add: insertion_sort_facts)
  then have f: "arr_find k ?ys < length ?ys \<and> fst (?ys ! arr_find k ?ys) = k"
    using arr_find_in insertion_sort_sorted by blast
  show ?thesis
    using False f insertion_sort_facts(3) [OF d] map_of_insertion_sort [OF d]
      arr_find_notin [OF arr_inv_sorted(1) [OF assms] False] map_of_snoc [OF False]
    by (simp add: arr_insert_def Let_def dom_map_of_conv_image_fst del: map_of_append)
qed

text \<open>
  \<open>emplace\<close> stores the same pairs, but the iterator it returns is the one of the greatest key.
\<close>

lemma sorted_last_find:
  "arr_inv zs \<Longrightarrow> zs \<noteq> [] \<Longrightarrow> arr_find (fst (last zs)) zs = length zs - 1"
  using arr_find_nth [of zs "length zs - 1"] by (simp add: last_conv_nth)

lemma lower_bound_prefix:
  assumes "e \<le> length xs" "b \<le> e"
  shows "lower_bound (xs @ ys) b e k = lower_bound xs b e k"
  using assms
proof (induction xs b e k rule: lower_bound.induct)
  case (1 xs b e k)
  show ?case
  proof (cases "b \<ge> e")
    case True
    then show ?thesis by (subst (1 2) lower_bound.simps) simp
  next
    case False
    then have "b + (e - b) div 2 < e" by linarith
    then show ?thesis
      using False 1 by (subst (1 2) lower_bound.simps) (simp add: Let_def cmp_key_def nth_append)
  qed
qed

lemma arr_emplace_spec:
  assumes "arr_inv xs" "k \<notin> fst ` set xs"
  shows "arr_emplace (k, v) xs =
    (let zs = insertion_sort (xs @ [(k, v)]) in (zs, length zs - 1, True))"
    and "arr_inv (insertion_sort (xs @ [(k, v)]))"
    and "map_of (insertion_sort (xs @ [(k, v)])) = (map_of xs)(k \<mapsto> v)"
proof -
  let ?ys = "xs @ [(k, v)]"
  let ?zs = "insertion_sort ?ys"
  have d: "distinct (map fst ?ys)"
    using assms(2) arr_inv_sorted(2) [OF assms(1)] by auto
  show inv: "arr_inv ?zs" by (rule insertion_sort_facts(3) [OF d])
  show "map_of ?zs = (map_of xs)(k \<mapsto> v)"
    by (simp only: map_of_insertion_sort [OF d] map_of_snoc [OF assms(2)])
  have "?zs \<noteq> []"
    using insertion_sort_facts(1) [of ?ys] by auto
  then have f: "arr_find (fst (last ?zs)) ?zs = length ?zs - 1"
    by (rule sorted_last_find [OF inv])
  have "lower_bound ?ys 0 (length xs) k = lower_bound xs 0 (length xs) k"
    by (simp add: lower_bound_prefix)
  moreover have "lower_bound xs 0 (length xs) k < length xs \<Longrightarrow>
      fst (xs ! lower_bound xs 0 (length xs) k) \<noteq> k"
    using assms(2) by (metis imageI nth_mem)
  moreover have "lower_bound xs 0 (length xs) k \<le> length xs"
    using lower_bound_spec [OF le0 le_refl arr_inv_sorted(1) [OF assms(1)]] by blast
  ultimately have "lower_bound ?ys 0 (length xs) k = length xs \<or>
      \<not> arr_eq (?ys ! lower_bound ?ys 0 (length xs) k) k"
    by (auto simp: arr_eq_iff nth_append le_less)
  then show "arr_emplace (k, v) xs = (let zs = ?zs in (zs, length zs - 1, True))"
    using f by (simp add: arr_emplace_def Let_def)
qed

lemma arr_index_present:
  "arr_inv xs \<Longrightarrow> k \<in> fst ` set xs \<Longrightarrow>
    arr_index dflt k xs = (xs, arr_find k xs) \<and> fst (xs ! arr_find k xs) = k"
  using arr_find_in [OF arr_inv_sorted(1)] by (fastforce simp: arr_index_def Let_def)

lemma arr_index_absent:
  assumes "arr_inv xs" "k \<notin> fst ` set xs"
  shows "arr_index dflt k xs = (let zs = insertion_sort (xs @ [(k, dflt)]) in (zs, length zs - 1))"
  using arr_find_notin [OF arr_inv_sorted(1) [OF assms(1)] assms(2)] arr_emplace_spec(1) [OF assms]
  by (simp add: arr_index_def Let_def)

text \<open>The last pair of a sorted array has the greatest key.\<close>

lemma last_is_greatest:
  assumes "arr_inv zs" "k \<in> fst ` set zs"
  shows "fst (zs ! (length zs - 1)) = k \<longleftrightarrow> (\<forall>j \<in> fst ` set zs. j \<le> k)"
proof -
  obtain i where i: "i < length zs" "fst (zs ! i) = k"
    using assms(2) by (auto simp: in_set_conv_nth)
  have le: "fst (zs ! j) \<le> fst (zs ! (length zs - 1))" if "j < length zs" for j
    using sorted_nth_mono [OF arr_inv_sorted(1) [OF assms(1)], of j "length zs - 1"] that by simp
  have top: "fst (zs ! (length zs - 1)) \<in> fst ` set zs"
    using i by (intro imageI nth_mem) simp
  have "j \<le> fst (zs ! (length zs - 1))" if "j \<in> fst ` set zs" for j
    using that le by (fastforce simp: in_set_conv_nth)
  then show ?thesis
    using top assms(2) by (metis antisym)
qed

section \<open>Removal\<close>

lemma arr_erase_at_set:
  assumes "i < length xs" "distinct (map fst xs)"
  shows "mset (arr_erase_at i xs) = mset xs - {#xs ! i#}"
proof -
  let ?ys = "swap_at xs i (length xs - 1)"
  have m: "mset ?ys = mset xs"
    using assms(1) by (simp add: swap_at_def mset_swap)
  have ne: "?ys \<noteq> []"
    using assms(1) by (auto simp: swap_at_def)
  have "last ?ys = ?ys ! (length xs - 1)"
    using last_conv_nth [OF ne] by (simp add: swap_at_def)
  also have "\<dots> = xs ! i"
    using assms(1) by (auto simp: swap_at_def nth_list_update)
  finally have "last ?ys = xs ! i" .
  then have "?ys = butlast ?ys @ [xs ! i]"
    using append_butlast_last_id [OF ne] by simp
  then have "mset xs = mset (butlast ?ys) + {#xs ! i#}"
    using m by (metis add_mset_add_single mset.simps(1,2) mset_append)
  then show ?thesis by (simp add: arr_erase_at_def)
qed


lemma arr_erase_at_eq:
  "i < length xs \<Longrightarrow>
    arr_erase_at i xs = (if i = length xs - 1 then butlast xs else (butlast xs)[i := last xs])"
  by (cases "xs = []") (auto simp: arr_erase_at_def swap_at_def butlast_list_update last_conv_nth)

text \<open>
  The array stays sorted only when the last pair or the one before it is removed: in every other
  case the greatest key ends up in front of a smaller one.
\<close>

lemma arr_erase_at_inv:
  assumes "arr_inv xs" "i < length xs"
  shows "arr_inv (arr_erase_at i xs) \<longleftrightarrow> length xs \<le> i + 2"
proof -
  have lt: "fst (xs ! p) < fst (xs ! q)" if "p < q" "q < length xs" for p q
    using assms(1) that by (simp add: arr_inv_def sorted_wrt_iff_nth_less)
  have but: "arr_inv (butlast xs)"
    using assms(1) sorted_wrt_take [of "(<)" "map fst xs"]
    by (simp add: arr_inv_def butlast_conv_take take_map)
  consider "i = length xs - 1" | "i + 2 = length xs" | "i + 2 < length xs"
    using assms(2) by linarith
  then show ?thesis
  proof cases
    case 1
    then show ?thesis using but assms(2) by (simp add: arr_erase_at_eq)
  next
    case 2
    then have l: "length xs - Suc 0 = Suc i" by simp
    have "arr_erase_at i xs ! p = (if p = i then xs ! (i + 1) else xs ! p)" if "p \<le> i" for p
      using that assms(2) 2 l last_conv_nth [of xs]
      by (cases "xs = []") (auto simp: arr_erase_at_eq nth_list_update nth_butlast)
    moreover have len: "length (arr_erase_at i xs) = Suc i"
      using l by (simp add: arr_erase_at_def swap_at_def)
    ultimately have "fst (arr_erase_at i xs ! p) < fst (arr_erase_at i xs ! q)"
      if "p < q" "q < Suc i" for p q
      using that lt [of p "i + 1"] lt [of p q] 2 by (cases "q = i") auto
    then have "arr_inv (arr_erase_at i xs)"
      by (simp add: arr_inv_def sorted_wrt_iff_nth_less len)
    with 2 show ?thesis by simp
  next
    case 3
    then have i: "i \<noteq> length xs - Suc 0" "Suc i < length xs - Suc 0" by linarith+
    then have "fst (arr_erase_at i xs ! (i + 1)) < fst (arr_erase_at i xs ! i)"
      using assms(2) lt [of "i + 1" "length xs - 1"] last_conv_nth [of xs]
      by (cases "xs = []") (auto simp: arr_erase_at_eq nth_list_update nth_butlast)
    moreover have "i + 1 < length (arr_erase_at i xs)"
      using i by (simp add: arr_erase_at_def swap_at_def)
    ultimately have "\<not> arr_inv (arr_erase_at i xs)"
      using sorted_wrt_nth_less [of "(<)" "map fst (arr_erase_at i xs)" i "i + 1"]
      by (auto simp: arr_inv_def)
    with 3 show ?thesis by simp
  qed
qed

lemma arr_emplace_present:
  assumes "arr_inv xs" "k \<in> fst ` set xs"
  shows "arr_emplace (k, v) xs = (xs, arr_find k xs, False)"
proof -
  note f = arr_find_in [OF arr_inv_sorted(1) [OF assms(1)] assms(2)]
  then have "arr_find k xs = lower_bound xs 0 (length xs) k"
    by (auto simp: arr_find_def Let_def split: if_splits)
  moreover have "lower_bound (xs @ [(k, v)]) 0 (length xs) k = lower_bound xs 0 (length xs) k"
    by (simp add: lower_bound_prefix)
  ultimately show ?thesis
    using f by (simp add: arr_emplace_def Let_def arr_eq_iff nth_append)
qed

section \<open>The interface of a map\<close>

text \<open>
  What a client of the map relies on: a lookup after an insertion of a new key finds the value, an
  insertion of a key that is there changes nothing.
\<close>

locale first_wins_map =
  fixes good :: "'m \<Rightarrow> bool" and lookup :: "'k \<Rightarrow> 'm \<Rightarrow> 'v option" and ins :: "'k \<Rightarrow> 'v \<Rightarrow> 'm \<Rightarrow> 'm"
  assumes good_ins: "good m \<Longrightarrow> good (ins k v m)"
    and lookup_ins: "good m \<Longrightarrow>
      lookup j (ins k v m) = (if j = k \<and> lookup k m = None then Some v else lookup j m)"
begin

definition ins_all :: "('k \<times> 'v) list \<Rightarrow> 'm \<Rightarrow> 'm" where
  "ins_all kvs m = fold (\<lambda>(k, v). ins k v) kvs m"

lemma good_ins_all: "good m \<Longrightarrow> good (ins_all kvs m)"
  unfolding ins_all_def by (induction kvs arbitrary: m) (auto simp: good_ins)

lemma lookup_ins_all:
  "good m \<Longrightarrow> lookup j (ins_all kvs m) = (case lookup j m of None \<Rightarrow> map_of kvs j | Some v \<Rightarrow> Some v)"
  unfolding ins_all_def
  by (induction kvs arbitrary: m) (auto simp: good_ins lookup_ins split: option.splits)

end

definition arr_lookup :: "'k :: linorder \<Rightarrow> ('k \<times> 'v) list \<Rightarrow> 'v option" where
  "arr_lookup k xs =
    (let it = arr_find k xs in if it = length xs then None else Some (snd (xs ! it)))"

lemma arr_lookup_map_of: "arr_inv xs \<Longrightarrow> arr_lookup k xs = map_of xs k"
  by (simp add: arr_lookup_def arr_find_map_of Let_def)

interpretation inserted: first_wins_map arr_inv arr_lookup "\<lambda>k v xs. fst (arr_insert (k, v) xs)"
proof
  fix m :: "('a \<times> 'b) list" and k j v
  assume m: "arr_inv m"
  obtain ys i fresh where e: "arr_insert (k, v) m = (ys, i, fresh)" by (rule prod_cases3)
  note spec = arr_insert_spec [OF m, of k v, unfolded e prod.case]
  then show "arr_inv (fst (arr_insert (k, v) m))" by (simp add: e)
  with m show "arr_lookup j (fst (arr_insert (k, v) m)) =
      (if j = k \<and> arr_lookup k m = None then Some v else arr_lookup j m)"
    using spec by (auto simp: e arr_lookup_map_of domIff split: if_splits)
qed

interpretation emplaced: first_wins_map arr_inv arr_lookup "\<lambda>k v xs. fst (arr_emplace (k, v) xs)"
proof
  fix m :: "('a \<times> 'b) list" and k j v
  assume m: "arr_inv m"
  show inv: "arr_inv (fst (arr_emplace (k, v) m))"
    using arr_emplace_spec [OF m] arr_emplace_present [OF m] m
    by (cases "k \<in> fst ` set m") (simp_all add: Let_def)
  show "arr_lookup j (fst (arr_emplace (k, v) m)) =
      (if j = k \<and> arr_lookup k m = None then Some v else arr_lookup j m)"
    using arr_emplace_spec [OF m] arr_emplace_present [OF m] m inv
    by (cases "k \<in> fst ` set m")
      (auto simp: arr_lookup_map_of map_of_eq_None_iff Let_def)
qed

section \<open>Properties\<close>

text \<open>
  Looking a key up by binary search in a sorted array finds the pair with that key, or the end of
  the array when there is none; the checked access returns the value of the key and traps when the
  key is missing.
\<close>

theorem array_map_find_correct:
  assumes "arr_inv xs"
  shows "arr_at k xs = (case map_of xs k of None \<Rightarrow> Fault [] | Some v \<Rightarrow> Ret v) \<and>
    arr_count k xs = (if k \<in> dom (map_of xs) then 1 else 0) \<and>
    (arr_find k xs = length xs \<or> fst (xs ! arr_find k xs) = k)"
  using arr_at_map_of [OF assms, of k] arr_find_map_of [OF assms, of k]
    arr_find_spec [OF arr_inv_sorted(1) [OF assms], of k]
  by (auto simp: arr_count_def split: if_splits)

text \<open>
  Erasing a key removes its pair and no other, by swapping it with the last pair: the array stays
  sorted, as the binary search needs, exactly when the pair was the last one or the one before it.
\<close>

theorem array_map_erase_order:
  assumes "arr_inv xs" "k \<in> dom (map_of xs)" "arr_erase k xs = (ys, n)"
  shows "n = 1 \<and> mset ys = mset xs - {#xs ! arr_find k xs#} \<and> fst (xs ! arr_find k xs) = k \<and>
    arr_inv ys = (length xs \<le> arr_find k xs + 2)"
proof -
  have "k \<in> fst ` set xs"
    using assms(2) by (simp add: dom_map_of_conv_image_fst)
  note f = arr_find_in [OF arr_inv_sorted(1) [OF assms(1)] this]
  then have "ys = arr_erase_at (arr_find k xs) xs" "n = 1"
    using assms(3) by (auto simp: arr_erase_def Let_def)
  then show ?thesis
    using f arr_erase_at_set [of "arr_find k xs" xs] arr_erase_at_inv [OF assms(1)]
      arr_inv_sorted(2) [OF assms(1)] by simp
qed

text \<open>
  The insertion sort of the map, an in-place loop of neighbour swaps, returns a permutation of its
  input sorted by the keys, and distinct keys make it a strictly sorted array that stands for the
  same map.
\<close>

theorem array_map_sort_correct:
  assumes "distinct (map fst xs)"
  shows "mset (insertion_sort xs) = mset xs \<and> arr_inv (insertion_sort xs) \<and>
    map_of (insertion_sort xs) = map_of xs"
  using insertion_sort_mset insertion_sort_facts(3) [OF assms] map_of_insertion_sort [OF assms] by blast



text \<open>
  C35: Inserting a pair keeps the array sorted with distinct keys and implements a map that keeps
  the first value of a key: the flag tells whether the key was new, and the returned iterator
  points to the pair with the key.
\<close>

theorem array_map_insert_correct:
  assumes "arr_inv xs" "arr_insert (k, v) xs = (ys, i, fresh)"
  shows "arr_inv ys \<and> fresh = (k \<notin> dom (map_of xs)) \<and>
    map_of ys = (if fresh then (map_of xs)(k \<mapsto> v) else map_of xs) \<and> i < length ys \<and> fst (ys ! i) = k"
  using arr_insert_spec [OF assms(1), of k v] by (simp add: assms(2))

theorem array_map_insert_correct_witness:
  "arr_inv [(2 :: nat, True), (4, False)] \<and> True = (2 \<notin> dom (map_of [(4 :: nat, False)])) \<and>
    map_of [(2 :: nat, True), (4, False)] =
      (if True then (map_of [(4, False)])(2 \<mapsto> True) else map_of [(4, False)]) \<and>
    0 < length [(2 :: nat, True), (4, False)] \<and> fst ([(2 :: nat, True), (4, False)] ! 0) = 2"
  by (rule array_map_insert_correct)
    (simp_all add: arr_inv_def arr_insert_def arr_find_def lower_bound.simps cmp_key_def arr_eq_def
      insertion_sort_def cmp_pairs_def swap_at_def Let_def upt_rec)

end
