(* ===== verification/Runtime_Stash.thy ===== *)
theory Runtime_Stash
  imports Lart_Prelude "HOL-Library.Word"
begin

text \<open>
  The stash of the runtime, \<open>runtime/native/stash.hpp\<close>, \<open>stash.cpp\<close> and \<open>lart.cpp\<close>: two stacks of
  256 entries, one of values and one of taint flags, that pass abstract arguments and results
  between instrumented functions. The tops are bytes and wrap around; an array is a function of
  its byte index.
\<close>

section \<open>State and operations\<close>

record stash_state =
  stash_stack_top :: "8 word"
  stash_stack :: "8 word \<Rightarrow> 64 word"
  taint_stack_top :: "8 word"
  taint_stack :: "8 word \<Rightarrow> bool"

definition stash_init :: stash_state where
  "stash_init = \<lparr>stash_stack_top = 0, stash_stack = (\<lambda>_. 0),
     taint_stack_top = 0, taint_stack = (\<lambda>_. False)\<rparr>"

definition stash :: "64 word \<Rightarrow> stash_state \<Rightarrow> stash_state" where
  "stash value s = s\<lparr>stash_stack := (stash_stack s)(stash_stack_top s := value),
     stash_stack_top := stash_stack_top s + 1\<rparr>"

definition unstash :: "stash_state \<Rightarrow> 64 word \<times> stash_state" where
  "unstash s = (let top = stash_stack_top s - 1 in
     (stash_stack s top, s\<lparr>stash_stack_top := top\<rparr>))"

definition stash_taint :: "bool \<Rightarrow> stash_state \<Rightarrow> stash_state" where
  "stash_taint taint s = s\<lparr>taint_stack := (taint_stack s)(taint_stack_top s := taint),
     taint_stack_top := taint_stack_top s + 1\<rparr>"

definition unstash_taint :: "stash_state \<Rightarrow> bool \<times> stash_state" where
  "unstash_taint s = (let top = taint_stack_top s - 1 in
     (taint_stack s top, s\<lparr>taint_stack_top := top\<rparr>))"

definition lart_stash :: "bool \<Rightarrow> 64 word \<Rightarrow> stash_state \<Rightarrow> stash_state" where
  "lart_stash taint val s = stash_taint taint (stash val s)"

definition lart_unstash :: "stash_state \<Rightarrow> 64 word \<times> stash_state" where
  "lart_unstash s = unstash s"

definition lart_unstash_taint :: "stash_state \<Rightarrow> bool \<times> stash_state" where
  "lart_unstash_taint s = unstash_taint s"

text \<open>What a callee does with one argument: it takes the value and its taint.\<close>

definition unstash_both :: "stash_state \<Rightarrow> (bool \<times> 64 word) \<times> stash_state" where
  "unstash_both s = (case lart_unstash_taint s of (t, s1) \<Rightarrow>
     case lart_unstash s1 of (v, s2) \<Rightarrow> ((t, v), s2))"

section \<open>The interface of a bounded stack\<close>

text \<open>
  The relation says which entries a state holds, the last one pushed first. A push is kept while
  fewer than \<open>cap\<close> entries are held.
\<close>

locale bounded_stack =
  fixes holds :: "'a list \<Rightarrow> 's \<Rightarrow> bool" and cap :: nat
    and push :: "'a \<Rightarrow> 's \<Rightarrow> 's" and pop :: "'s \<Rightarrow> 'a \<times> 's"
  assumes push_holds: "holds xs s \<Longrightarrow> length xs < cap \<Longrightarrow> holds (x # xs) (push x s)"
    and pop_holds: "holds (x # xs) s \<Longrightarrow> fst (pop s) = x \<and> holds xs (snd (pop s))"
begin

definition push_all :: "'a list \<Rightarrow> 's \<Rightarrow> 's" where
  "push_all ys s = fold push ys s"

fun pop_all :: "nat \<Rightarrow> 's \<Rightarrow> 'a list \<times> 's" where
  "pop_all 0 s = ([], s)"
| "pop_all (Suc n) s = (case pop s of (x, s1) \<Rightarrow> case pop_all n s1 of (xs, s2) \<Rightarrow> (x # xs, s2))"

lemma push_all_holds:
  "holds xs s \<Longrightarrow> length xs + length ys \<le> cap \<Longrightarrow> holds (rev ys @ xs) (push_all ys s)"
  unfolding push_all_def
proof (induction ys arbitrary: xs s)
  case (Cons y ys)
  then have "holds (y # xs) (push y s)" by (intro push_holds) auto
  then show ?case using Cons.IH [of "y # xs" "push y s"] Cons.prems by simp
qed simp

lemma pop_all_holds:
  "holds (ys @ xs) s \<Longrightarrow> fst (pop_all (length ys) s) = ys \<and> holds xs (snd (pop_all (length ys) s))"
proof (induction ys arbitrary: s)
  case (Cons y ys)
  then show ?case
    using pop_holds [of y "ys @ xs" s] by (auto split: prod.splits) (metis fst_conv snd_conv)+
qed simp

text \<open>Whatever is pushed comes back in the reverse order, and what was there before stays.\<close>

lemma last_in_first_out:
  "holds xs s \<Longrightarrow> length xs + length ys \<le> cap \<Longrightarrow>
    fst (pop_all (length ys) (push_all ys s)) = rev ys \<and>
    holds xs (snd (pop_all (length ys) (push_all ys s)))"
  using pop_all_holds [of "rev ys" xs] push_all_holds by simp

end

section \<open>The stacks implement it\<close>

definition value_holds :: "64 word list \<Rightarrow> stash_state \<Rightarrow> bool" where
  "value_holds xs s \<longleftrightarrow> length xs \<le> 256 \<and>
    (\<forall>i < length xs. stash_stack s (stash_stack_top s - 1 - of_nat i) = xs ! i)"

definition taint_holds :: "bool list \<Rightarrow> stash_state \<Rightarrow> bool" where
  "taint_holds xs s \<longleftrightarrow> length xs \<le> 256 \<and>
    (\<forall>i < length xs. taint_stack s (taint_stack_top s - 1 - of_nat i) = xs ! i)"

definition both_hold :: "(bool \<times> 64 word) list \<Rightarrow> stash_state \<Rightarrow> bool" where
  "both_hold xs s \<longleftrightarrow> taint_holds (map fst xs) s \<and> value_holds (map snd xs) s"

lemma below_top: "Suc i < 256 \<Longrightarrow> (t :: 8 word) - of_nat (Suc i) \<noteq> t"
proof -
  assume i: "Suc i < 256"
  then have "unat (of_nat (Suc i) :: 8 word) = Suc i" by (simp add: unat_of_nat del: of_nat_Suc)
  then have "of_nat (Suc i) \<noteq> (0 :: 8 word)" by (metis nat.distinct(1) unat_0)
  then show ?thesis by (metis diff_eq_eq add_cancel_right_right)
qed

text \<open>A push at the top leaves the entries below alone, as long as it does not run into them.\<close>

lemma ring_push:
  fixes f :: "8 word \<Rightarrow> 'a"
  assumes "\<forall>i < length xs. f (t - 1 - of_nat i) = xs ! i" "length xs < 256"
    and "i < length (x # xs)"
  shows "(f(t := x)) (t + 1 - 1 - of_nat i) = (x # xs) ! i"
proof (cases i)
  case (Suc j)
  then have "t - of_nat (Suc j) \<noteq> t" using assms by (intro below_top) auto
  then have "(f(t := x)) (t - of_nat (Suc j)) = f (t - of_nat (Suc j))" by (rule fun_upd_other)
  moreover have "t - of_nat (Suc j) = t - 1 - of_nat j" by (simp add: algebra_simps)
  moreover have "t + 1 - 1 - of_nat i = t - of_nat (Suc j)" using Suc by simp
  ultimately show ?thesis using assms Suc by (metis Suc_less_eq length_Cons nth_Cons_Suc)
qed simp

lemma ring_pop:
  fixes f :: "8 word \<Rightarrow> 'a"
  assumes "\<forall>i < length (x # xs). f (t - 1 - of_nat i) = (x # xs) ! i"
  shows "f (t - 1) = x" "\<forall>i < length xs. f (t - 1 - 1 - of_nat i) = xs ! i"
proof -
  show "f (t - 1) = x" using spec [OF assms, of 0] by simp
  show "\<forall>i < length xs. f (t - 1 - 1 - of_nat i) = xs ! i"
  proof (intro allI impI)
    fix i assume "i < length xs"
    then show "f (t - 1 - 1 - of_nat i) = xs ! i"
      using spec [OF assms, of "Suc i"] by (simp add: algebra_simps)
  qed
qed

lemma value_push: "value_holds xs s \<Longrightarrow> length xs < 256 \<Longrightarrow> value_holds (x # xs) (stash x s)"
  unfolding value_holds_def stash_def using ring_push [of xs "stash_stack s" "stash_stack_top s"]
  by simp

lemma value_pop:
  "value_holds (x # xs) s \<Longrightarrow> fst (unstash s) = x \<and> value_holds xs (snd (unstash s))"
  unfolding value_holds_def unstash_def Let_def
  using ring_pop [of x xs "stash_stack s" "stash_stack_top s"] by simp

lemma taint_push: "taint_holds xs s \<Longrightarrow> length xs < 256 \<Longrightarrow> taint_holds (x # xs) (stash_taint x s)"
  unfolding taint_holds_def stash_taint_def
  using ring_push [of xs "taint_stack s" "taint_stack_top s"] by simp

lemma taint_pop:
  "taint_holds (x # xs) s \<Longrightarrow> fst (unstash_taint s) = x \<and> taint_holds xs (snd (unstash_taint s))"
  unfolding taint_holds_def unstash_taint_def Let_def
  using ring_pop [of x xs "taint_stack s" "taint_stack_top s"] by simp

text \<open>The two stacks do not touch each other.\<close>

lemma stacks_apart:
  "taint_holds xs (stash v s) = taint_holds xs s"
  "value_holds ys (stash_taint t s) = value_holds ys s"
  "taint_holds xs (snd (unstash s)) = taint_holds xs s"
  "value_holds ys (snd (unstash_taint s)) = value_holds ys s"
  by (simp_all add: taint_holds_def value_holds_def stash_def stash_taint_def unstash_def
      unstash_taint_def Let_def)

interpretation vals: bounded_stack value_holds 256 stash unstash
  by unfold_locales (simp_all add: value_push value_pop)

interpretation taints: bounded_stack taint_holds 256 stash_taint unstash_taint
  by unfold_locales (simp_all add: taint_push taint_pop)

interpretation args: bounded_stack both_hold 256 "\<lambda>(t, v). lart_stash t v" unstash_both
proof
  fix xs s and x :: "bool \<times> 64 word"
  assume "both_hold xs s" "length xs < 256"
  then show "both_hold (x # xs) ((case x of (t, v) \<Rightarrow> lart_stash t v) s)"
    by (cases x) (simp add: both_hold_def lart_stash_def stacks_apart taint_push value_push)
next
  fix x xs s
  assume "both_hold (x # xs) s"
  then have h: "taint_holds (fst x # map fst xs) s" "value_holds (snd x # map snd xs) s"
    by (simp_all add: both_hold_def)
  obtain t s1 where t: "unstash_taint s = (t, s1)" by fastforce
  obtain v s2 where v: "unstash s1 = (v, s2)" by fastforce
  have 1: "t = fst x" "taint_holds (map fst xs) s1" "value_holds (snd x # map snd xs) s1"
    using taint_pop [OF h(1)] stacks_apart(4) [of "snd x # map snd xs" s] h(2) t by auto
  have 2: "v = snd x" "value_holds (map snd xs) s2" "taint_holds (map fst xs) s2"
    using value_pop [OF 1(3)] stacks_apart(3) [of "map fst xs" s1] 1(2) v by auto
  show "fst (unstash_both s) = x \<and> both_hold xs (snd (unstash_both s))"
    using 1 2 by (simp add: unstash_both_def lart_unstash_def lart_unstash_taint_def t v both_hold_def)
qed

text \<open>The 257th entry lands on the first one.\<close>

lemma stash_wraps:
  "fst (unstash (stash v s)) = v"
  "stash_stack_top (fold stash vs s) = stash_stack_top s + of_nat (length vs)"
  by (simp add: stash_def unstash_def Let_def, induction vs arbitrary: s)
    (simp_all add: stash_def algebra_simps)

section \<open>Properties\<close>

text \<open>
  The top of the stash is a byte and nothing checks it: the 257th nested value is written over the
  first one.
\<close>

theorem stash_overflow_overwrites:
  assumes "length vs = 256"
  shows "stash_stack (fold stash (vs @ [v]) s) (stash_stack_top s) = v \<and>
    stash_stack (fold stash vs s) (stash_stack_top s) = hd vs"
proof -
  have "value_holds (rev vs @ []) (vals.push_all vs s)"
    by (rule vals.push_all_holds) (simp_all add: assms value_holds_def)
  then have h: "stash_stack (fold stash vs s) (stash_stack_top (fold stash vs s) - 1 - of_nat 255) = rev vs ! 255"
    using assms unfolding value_holds_def vals.push_all_def by (auto dest: spec [of _ 255])
  have top: "stash_stack_top (fold stash vs s) = stash_stack_top s"
    unfolding stash_wraps(2) assms by simp
  have "rev vs ! 255 = hd vs"
    using assms by (cases vs) (simp_all add: nth_append)
  moreover have wrap: "x - 256 = x" for x :: "8 word"
    by simp
  ultimately show ?thesis
    using h by (simp add: top stash_def wrap)
qed

text \<open>A callee takes the arguments one after the other.\<close>

fun unstash_all :: "nat \<Rightarrow> stash_state \<Rightarrow> (bool \<times> 64 word) list \<times> stash_state" where
  "unstash_all 0 s = ([], s)"
| "unstash_all (Suc n) s =
    (case unstash_both s of (x, s1) \<Rightarrow> case unstash_all n s1 of (xs, s2) \<Rightarrow> (x # xs, s2))"

lemma unstash_all_pop_all: "unstash_all n s = args.pop_all n s"
  by (induction n arbitrary: s) (simp_all split: prod.splits)

text \<open>
  C38: The stash is a stack: the tainted values a caller stashes come back to the callee in the
  reverse order with their taints, and what the stash held before is still there, as long as no
  more than 256 entries are nested.
\<close>

theorem stash_returns_arguments:
  assumes "both_hold xs s" "length xs + length ys \<le> 256"
    and "unstash_all (length ys) (fold (\<lambda>(t, v). lart_stash t v) ys s) = (zs, s')"
  shows "zs = rev ys \<and> both_hold xs s'"
  using args.last_in_first_out [OF assms(1,2)] assms(3)
  by (simp add: args.push_all_def unstash_all_pop_all)

theorem stash_returns_arguments_witness:
  "[(False, 8), (True, 7)] = rev [(True, 7), (False, 8 :: 64 word)] \<and>
   both_hold [] (snd (unstash_all 2 (fold (\<lambda>(t, v). lart_stash t v) [(True, 7), (False, 8)] stash_init)))"
  by (rule stash_returns_arguments [where s = stash_init])
    (simp_all add: both_hold_def taint_holds_def value_holds_def numeral_2_eq_2 unstash_both_def
      lart_unstash_def lart_unstash_taint_def lart_stash_def unstash_def unstash_taint_def
      stash_def stash_taint_def stash_init_def Let_def)

end
