(* ===== verification/Shadow_Memory.thy ===== *)
theory Shadow_Memory
  imports Lart_Prelude "HOL-Library.Word"
begin

text \<open>
  The shadow memory of the runtime, \<open>runtime/native/shadow.cpp\<close>: a map from bytes of the program's
  memory to labels, a table of what each label stands for, and a stack of frames that records the
  bytes a function has given a shadow, so that they are forgotten when it returns. Addresses and
  labels are 64 bits wide. A loop counter \<open>offset\<close> is a natural number: the sizes are below \<open>2^31\<close>.
\<close>

section \<open>State\<close>

record shadow_label_info =
  info_value :: "64 word"
  info_origin :: "64 word"
  info_bytes :: nat

definition no_info :: shadow_label_info where
  "no_info = \<lparr>info_value = 0, info_origin = 0, info_bytes = 0\<rparr>"

text \<open>
  \<open>frames\<close> has the current frame first. \<open>allocated\<close> maps a byte to a pointer to its frame, which
  the code never reads: only the keys matter.
\<close>

record shadow_state =
  shadow :: "64 word \<Rightarrow> 64 word option"
  shadow_info :: "(64 word \<times> shadow_label_info) list"
  frames :: "64 word list list"
  allocated :: "64 word set"

section \<open>Frames\<close>

definition entry_frame :: "shadow_state \<Rightarrow> shadow_state" where
  "entry_frame s = s\<lparr>frames := [] # frames s\<rparr>"

definition exit_frame :: "shadow_state \<Rightarrow> shadow_state outcome" where
  "exit_frame s = (case frames s of
     [] \<Rightarrow> Undef
   | addrs # rest \<Rightarrow>
       Ret (s\<lparr>shadow := (\<lambda>a. if a \<in> set addrs then None else shadow s a),
              allocated := allocated s - set addrs, frames := rest\<rparr>))"

definition setup_shadow :: shadow_state where
  "setup_shadow = entry_frame
     \<lparr>shadow = (\<lambda>_. None), shadow_info = [], frames = [], allocated = {}\<rparr>"

section \<open>Writing\<close>

text \<open>\<open>emplace\<close> on the table keeps an entry that is there.\<close>

definition info_emplace ::
  "64 word \<Rightarrow> shadow_label_info \<Rightarrow> (64 word \<times> shadow_label_info) list \<Rightarrow>
    (64 word \<times> shadow_label_info) list" where
  "info_emplace label info t = (if map_of t label = None then (label, info) # t else t)"

definition create_shadow_label ::
  "shadow_label_info \<Rightarrow> shadow_state \<Rightarrow> 64 word \<times> shadow_state" where
  "create_shadow_label info s =
    (let label = of_nat (length (shadow_info s)) + 1 in
     (label, s\<lparr>shadow_info := info_emplace label info (shadow_info s)\<rparr>))"

definition set_byte :: "64 word \<Rightarrow> 64 word \<Rightarrow> shadow_state \<Rightarrow> shadow_state outcome" where
  "set_byte label byte s =
    (if byte \<in> allocated s then Ret (s\<lparr>shadow := (shadow s)(byte \<mapsto> label)\<rparr>)
     else case frames s of
       [] \<Rightarrow> Undef
     | addrs # rest \<Rightarrow>
         Ret (s\<lparr>frames := (addrs @ [byte]) # rest, allocated := insert byte (allocated s),
                shadow := (shadow s)(byte \<mapsto> label)\<rparr>))"

fun set_bytes :: "64 word \<Rightarrow> 64 word list \<Rightarrow> shadow_state \<Rightarrow> shadow_state outcome" where
  "set_bytes label [] s = Ret s"
| "set_bytes label (byte # bytes) s = obind (set_byte label byte s) (set_bytes label bytes)"

definition range_of :: "64 word \<Rightarrow> nat \<Rightarrow> 64 word list" where
  "range_of addr sz = map (\<lambda>offset. addr + of_nat offset) [0..<sz]"

definition set_shadow_label ::
  "64 word \<Rightarrow> 64 word \<Rightarrow> nat \<Rightarrow> shadow_state \<Rightarrow> shadow_state outcome" where
  "set_shadow_label label addr sz s = set_bytes label (range_of addr sz) s"

definition erase_shadow :: "64 word \<Rightarrow> nat \<Rightarrow> shadow_state \<Rightarrow> shadow_state" where
  "erase_shadow addr sz s =
    s\<lparr>shadow := (\<lambda>a. if a \<in> set (range_of addr sz) then None else shadow s a)\<rparr>"

definition poke :: "64 word \<Rightarrow> nat \<Rightarrow> 64 word \<Rightarrow> shadow_state \<Rightarrow> shadow_state outcome" where
  "poke addr bytes val s =
    (if val \<noteq> 0 then
       case create_shadow_label \<lparr>info_value = val, info_origin = addr, info_bytes = bytes\<rparr> s of
         (label, s') \<Rightarrow> set_shadow_label label addr bytes s'
     else Ret (erase_shadow addr bytes s))"

section \<open>Reading\<close>

text \<open>
  \<open>shadow_info[label]\<close> makes an empty entry for an unknown label, with which the loop of the
  reader would not advance. The generator is the list of what it yields, \<open>None\<close> when it never ends.
\<close>

definition get_shadow_label_info :: "64 word \<Rightarrow> shadow_state \<Rightarrow> shadow_label_info" where
  "get_shadow_label_info label s =
    (case map_of (shadow_info s) label of None \<Rightarrow> no_info | Some info \<Rightarrow> info)"

partial_function (option) read_loop ::
  "64 word \<Rightarrow> nat \<Rightarrow> shadow_state \<Rightarrow> nat \<Rightarrow> 64 word list option" where
  "read_loop addr bytes s offset =
    (if offset < bytes then
       case shadow s (addr + of_nat offset) of
         Some label \<Rightarrow>
           Option.bind (read_loop addr bytes s (offset + info_bytes (get_shadow_label_info label s)))
             (\<lambda>labels. Some (label # labels))
       | None \<Rightarrow> Option.bind (read_loop addr bytes s (offset + 1)) (\<lambda>labels. Some (0 # labels))
     else Some [])"

definition read_shadow_label :: "64 word \<Rightarrow> nat \<Rightarrow> shadow_state \<Rightarrow> 64 word list option" where
  "read_shadow_label addr bytes s = read_loop addr bytes s 0"

definition peek :: "64 word \<Rightarrow> nat \<Rightarrow> shadow_state \<Rightarrow> shadow_label_info list option" where
  "peek addr bytes s =
    map_option (map (\<lambda>label. if label \<noteq> 0 then get_shadow_label_info label s
       else \<lparr>info_value = 0, info_origin = 0, info_bytes = 1\<rparr>)) (read_shadow_label addr bytes s)"

definition test_taint :: "64 word \<Rightarrow> nat \<Rightarrow> shadow_state \<Rightarrow> bool" where
  "test_taint addr bytes s \<longleftrightarrow> list_ex (\<lambda>byte. shadow s byte \<noteq> None) (range_of addr bytes)"

section \<open>Invariant\<close>

text \<open>
  The labels are numbered from one in the order they were made, every label in the shadow is in
  the table and stands for at least one byte, and every shadowed byte is registered in a frame.
\<close>

definition shadow_inv :: "shadow_state \<Rightarrow> bool" where
  "shadow_inv s \<longleftrightarrow>
    length (shadow_info s) < 2 ^ 64 - 1 \<and>
    map fst (shadow_info s) = rev (map (\<lambda>i. of_nat i + 1) [0..<length (shadow_info s)]) \<and>
    (\<forall>a label. shadow s a = Some label \<longrightarrow>
       (\<exists>info. map_of (shadow_info s) label = Some info \<and> info_bytes info > 0)) \<and>
    (\<forall>a. shadow s a \<noteq> None \<longrightarrow> a \<in> allocated s) \<and>
    allocated s = set (concat (frames s)) \<and> distinct (concat (frames s)) \<and> frames s \<noteq> []"

definition small_table :: "shadow_state \<Rightarrow> bool" where
  "small_table s \<longleftrightarrow> length (shadow_info s) < 2 ^ 64 - 2"

lemma setup_shadow_inv: "shadow_inv setup_shadow"
  by (simp add: shadow_inv_def setup_shadow_def entry_frame_def)

lemma entry_frame_inv: "shadow_inv s \<Longrightarrow> shadow_inv (entry_frame s)"
  by (auto simp: shadow_inv_def entry_frame_def)

lemma label_fresh:
  assumes "shadow_inv s" "small_table s"
  shows "map_of (shadow_info s) (of_nat (length (shadow_info s)) + 1) = None"
    and "of_nat (length (shadow_info s)) + 1 \<noteq> (0 :: 64 word)"
proof -
  let ?n = "length (shadow_info s)"
  have n: "Suc ?n < 2 ^ 64" using assms(2) by (simp add: small_table_def)
  have u: "unat (of_nat (Suc i) :: 64 word) = Suc i" if "i \<le> ?n" for i
    using that n by (simp add: unat_of_nat del: of_nat_Suc)
  have "of_nat ?n + 1 \<noteq> (of_nat i + 1 :: 64 word)" if "i < ?n" for i
    using u [of i] u [of ?n] that by (metis Suc_inject add.commute le_refl less_imp_le of_nat_Suc nat_less_le)
  then have "of_nat ?n + 1 \<notin> set (rev (map (\<lambda>i. of_nat i + 1 :: 64 word) [0..<?n]))"
    by force
  moreover have "map fst (shadow_info s) = rev (map (\<lambda>i. of_nat i + 1) [0..<?n])"
    using assms(1) by (simp add: shadow_inv_def)
  ultimately have "of_nat ?n + 1 \<notin> fst ` set (shadow_info s)"
    by (metis set_map)
  then show "map_of (shadow_info s) (of_nat ?n + 1) = None" by (simp add: map_of_eq_None_iff)
  show "of_nat ?n + 1 \<noteq> (0 :: 64 word)"
    using u [of ?n] by (metis Zero_not_Suc add.commute le_refl of_nat_Suc unat_0)
qed

lemma exit_frame_inv:
  assumes "shadow_inv s" "frames s = addrs # rest" "rest \<noteq> []"
  shows "\<exists>s'. exit_frame s = Ret s' \<and> shadow_inv s'"
  using assms by (auto simp: shadow_inv_def exit_frame_def split: if_splits)

lemma create_shadow_label_inv:
  assumes "shadow_inv s" "small_table s" "create_shadow_label info s = (label, s')"
  shows "shadow_inv s'" "label \<noteq> 0" "map_of (shadow_info s') label = Some info"
    "shadow s' = shadow s" "frames s' = frames s" "allocated s' = allocated s"
    "\<And>l. l \<noteq> label \<Longrightarrow> map_of (shadow_info s') l = map_of (shadow_info s) l"
    "\<forall>a. shadow s a \<noteq> Some label"
proof -
  note f = label_fresh [OF assms(1,2)]
  have l: "label = of_nat (length (shadow_info s)) + 1"
    and s': "s' = s\<lparr>shadow_info := (label, info) # shadow_info s\<rparr>"
    using assms(3) f(1) by (auto simp: create_shadow_label_def info_emplace_def Let_def)
  show "label \<noteq> 0" "map_of (shadow_info s') label = Some info" "shadow s' = shadow s"
    "frames s' = frames s" "allocated s' = allocated s"
    "\<And>j. j \<noteq> label \<Longrightarrow> map_of (shadow_info s') j = map_of (shadow_info s) j"
    using f(2) by (simp_all add: l s')
  show no: "\<forall>a. shadow s a \<noteq> Some label"
    using assms(1) f(1) unfolding shadow_inv_def l by (metis option.distinct(1))
  have "\<exists>i. map_of (shadow_info s') j = Some i \<and> info_bytes i > 0" if "shadow s a = Some j" for a j
    using assms(1) that no by (auto simp: shadow_inv_def s')
  moreover have "shadow s' = shadow s" "allocated s' = allocated s" "frames s' = frames s"
    by (simp_all add: s')
  moreover have "map fst (shadow_info s') =
      rev (map (\<lambda>i. of_nat i + 1) [0..<length (shadow_info s')])"
    "length (shadow_info s') < 2 ^ 64 - 1"
    using assms(1,2) by (simp_all add: shadow_inv_def small_table_def s' l)
  ultimately show "shadow_inv s'"
    using assms(1) by (simp only: shadow_inv_def) blast
qed

text \<open>Labelling a range registers what is new in the current frame and leaves the rest alone.\<close>

lemma set_byte_inv:
  assumes "shadow_inv s" "map_of (shadow_info s) label = Some info" "info_bytes info > 0"
  shows "\<exists>s'. set_byte label byte s = Ret s' \<and> shadow_inv s' \<and>
    shadow s' = (shadow s)(byte \<mapsto> label) \<and> shadow_info s' = shadow_info s"
proof (cases "byte \<in> allocated s")
  case True
  then show ?thesis using assms by (auto simp: set_byte_def shadow_inv_def)
next
  case False
  obtain addrs rest where f: "frames s = addrs # rest"
    using assms(1) by (auto simp: shadow_inv_def neq_Nil_conv)
  with False show ?thesis using assms by (auto simp: set_byte_def shadow_inv_def)
qed

lemma set_bytes_inv:
  assumes "shadow_inv s" "map_of (shadow_info s) label = Some info" "info_bytes info > 0"
  shows "\<exists>s'. set_bytes label bytes s = Ret s' \<and> shadow_inv s' \<and>
    shadow s' = (\<lambda>a. if a \<in> set bytes then Some label else shadow s a) \<and>
    shadow_info s' = shadow_info s"
  using assms
proof (induction bytes arbitrary: s)
  case (Cons b bytes)
  obtain s1 where s1: "set_byte label b s = Ret s1" "shadow_inv s1"
    "shadow s1 = (shadow s)(b \<mapsto> label)" "shadow_info s1 = shadow_info s"
    using set_byte_inv [OF Cons.prems] by blast
  then obtain s2 where "set_bytes label bytes s1 = Ret s2" "shadow_inv s2"
    "shadow s2 = (\<lambda>a. if a \<in> set bytes then Some label else shadow s1 a)"
    "shadow_info s2 = shadow_info s1"
    using Cons.IH [of s1] Cons.prems by auto
  with s1 show ?case by auto
qed auto

lemma poke_spec:
  assumes "shadow_inv s" "small_table s" "val \<noteq> 0" "bytes > 0"
  shows "\<exists>s' label. poke addr bytes val s = Ret s' \<and> shadow_inv s' \<and> label \<noteq> 0 \<and>
    shadow s' = (\<lambda>a. if a \<in> set (range_of addr bytes) then Some label else shadow s a) \<and>
    map_of (shadow_info s') label = Some \<lparr>info_value = val, info_origin = addr, info_bytes = bytes\<rparr> \<and>
    (\<forall>l. l \<noteq> label \<longrightarrow> map_of (shadow_info s') l = map_of (shadow_info s) l) \<and>
    (\<forall>a. shadow s a \<noteq> Some label)"
proof -
  let ?info = "\<lparr>info_value = val, info_origin = addr, info_bytes = bytes\<rparr>"
  obtain label s1 where c: "create_shadow_label ?info s = (label, s1)" by fastforce
  note n = create_shadow_label_inv [OF assms(1,2) c]
  obtain s2 where "set_bytes label (range_of addr bytes) s1 = Ret s2" "shadow_inv s2"
    "shadow s2 = (\<lambda>a. if a \<in> set (range_of addr bytes) then Some label else shadow s1 a)"
    "shadow_info s2 = shadow_info s1"
    using set_bytes_inv [OF n(1,3), of "range_of addr bytes"] assms(4) by auto
  then show ?thesis
    using n(2-4,7,8) assms(3) c
    by (intro exI [of _ s2] exI [of _ label]) (simp add: poke_def set_shadow_label_def fun_eq_iff)
qed

lemma erase_shadow_inv: "shadow_inv s \<Longrightarrow> shadow_inv (erase_shadow addr bytes s)"
  by (auto simp: shadow_inv_def erase_shadow_def)

section \<open>The reader ends\<close>

lemma read_loop_total:
  assumes "shadow_inv s"
  shows "\<exists>labels. read_loop addr bytes s offset = Some labels \<and> length labels \<le> bytes - offset"
proof (induction "bytes - offset" arbitrary: offset rule: less_induct)
  case less
  show ?case
  proof (cases "offset < bytes")
    case True
    show ?thesis
    proof (cases "shadow s (addr + of_nat offset)")
      case None
      obtain ls where "read_loop addr bytes s (offset + 1) = Some ls" "length ls \<le> bytes - (offset + 1)"
        using less [of "offset + 1"] True by fastforce
      with None True show ?thesis by (subst read_loop.simps) auto
    next
      case (Some label)
      then obtain info where i: "map_of (shadow_info s) label = Some info" "info_bytes info > 0"
        using assms unfolding shadow_inv_def by blast
      obtain ls where "read_loop addr bytes s (offset + info_bytes info) = Some ls"
        "length ls \<le> bytes - (offset + info_bytes info)"
        using less [of "offset + info_bytes info"] True i by fastforce
      with Some True i show ?thesis
        by (subst read_loop.simps) (auto simp: get_shadow_label_info_def)
    qed
  next
    case False
    then show ?thesis by (subst read_loop.simps) simp
  qed
qed

text \<open>A value that was stored is what a load of the same range sees, and only it.\<close>

lemma read_loop_step:
  "offset < bytes \<Longrightarrow> shadow s (addr + of_nat offset) = Some label \<Longrightarrow>
   map_of (shadow_info s) label = Some info \<Longrightarrow> bytes \<le> offset + info_bytes info \<Longrightarrow>
   read_loop addr bytes s offset = Some [label]"
  by (subst read_loop.simps, subst read_loop.simps) (simp add: get_shadow_label_info_def)

lemma range_of_start: "bytes > 0 \<Longrightarrow> addr \<in> set (range_of addr bytes)"
  by (force simp: range_of_def)

lemma poke_peek:
  assumes "shadow_inv s" "small_table s" "val \<noteq> 0" "bytes > 0"
  shows "\<exists>s'. poke addr bytes val s = Ret s' \<and> test_taint addr bytes s' \<and>
    peek addr bytes s' = Some [\<lparr>info_value = val, info_origin = addr, info_bytes = bytes\<rparr>]"
proof -
  let ?info = "\<lparr>info_value = val, info_origin = addr, info_bytes = bytes\<rparr>"
  obtain s' label where p: "poke addr bytes val s = Ret s'" "label \<noteq> 0"
    "shadow s' = (\<lambda>a. if a \<in> set (range_of addr bytes) then Some label else shadow s a)"
    "map_of (shadow_info s') label = Some ?info"
    using poke_spec [OF assms] by blast
  have a: "shadow s' addr = Some label" using range_of_start [OF assms(4)] p(3) by simp
  then have "read_loop addr bytes s' 0 = Some [label]"
    using p(4) assms(4) by (intro read_loop_step [where info = ?info]) simp_all
  then have "peek addr bytes s' = Some [?info]"
    using p(2,4) by (simp add: peek_def read_shadow_label_def get_shadow_label_info_def)
  moreover have "test_taint addr bytes s'"
    using a range_of_start [OF assms(4), of addr] by (auto simp: test_taint_def list_ex_iff)
  ultimately show ?thesis using p(1) by blast
qed

text \<open>Storing a concrete value clears the shadow.\<close>

lemma poke_concrete:
  "\<exists>s'. poke addr bytes 0 s = Ret s' \<and> \<not> test_taint addr bytes s' \<and>
    (\<forall>a. a \<notin> set (range_of addr bytes) \<longrightarrow> shadow s' a = shadow s a)"
  by (simp add: poke_def erase_shadow_def test_taint_def list_ex_iff)

lemma set_bytes_frames:
  "set_bytes label bs s = Ret s' \<Longrightarrow> frames s = old # rest \<Longrightarrow>
    \<exists>new. frames s' = new # rest \<and> set new = set old \<union> (set bs - allocated s)"
proof (induction bs arbitrary: s old)
  case (Cons b bs)
  show ?case
  proof (cases "b \<in> allocated s")
    case True
    then show ?thesis
      using Cons.IH [of "s\<lparr>shadow := (shadow s)(b \<mapsto> label)\<rparr>" old] Cons.prems
      by (auto simp: set_byte_def)
  next
    case False
    then show ?thesis
      using Cons.IH [of "s\<lparr>frames := (old @ [b]) # rest, allocated := insert b (allocated s),
          shadow := (shadow s)(b \<mapsto> label)\<rparr>" "old @ [b]"] Cons.prems
      by (auto simp: set_byte_def)
  qed
qed simp

text \<open>What a function shadows first is forgotten when it returns, whoever owns the memory.\<close>

lemma exit_forgets:
  assumes "shadow_inv s" "small_table s" "val \<noteq> 0" "bytes > 0"
    and "\<forall>a \<in> set (range_of addr bytes). a \<notin> allocated s"
  shows "\<exists>s1 s2. poke addr bytes val (entry_frame s) = Ret s1 \<and> test_taint addr bytes s1 \<and>
    exit_frame s1 = Ret s2 \<and> \<not> test_taint addr bytes s2"
proof -
  let ?e = "entry_frame s"
  have e: "shadow_inv ?e" "small_table ?e"
    using assms(2) entry_frame_inv [OF assms(1)] by (simp_all add: small_table_def entry_frame_def)
  obtain s1 where s1: "poke addr bytes val ?e = Ret s1" "test_taint addr bytes s1"
    using poke_peek [OF e assms(3,4)] by blast
  have "\<exists>new. frames s1 = new # frames s \<and> set (range_of addr bytes) \<subseteq> set new"
  proof -
    obtain label s' where c: "create_shadow_label
        \<lparr>info_value = val, info_origin = addr, info_bytes = bytes\<rparr> ?e = (label, s')" by fastforce
    note n = create_shadow_label_inv [OF e c]
    have "set_bytes label (range_of addr bytes) s' = Ret s1"
      using s1(1) assms(3) c by (simp add: poke_def set_shadow_label_def)
    from set_bytes_frames [OF this, of "[]" "frames s"] show ?thesis
      using n(5,6) assms(5) by (auto simp: entry_frame_def)
  qed
  then obtain new where "frames s1 = new # frames s" "set (range_of addr bytes) \<subseteq> set new" by blast
  then show ?thesis
    using s1 by (intro exI) (auto simp: exit_frame_def test_taint_def list_ex_iff)
qed

section \<open>Properties\<close>

text \<open>
  Storing an abstract value to the shadow of a range and loading the same range returns that value
  and nothing else, the range tests as tainted, and the state keeps its invariant (fresh labels,
  every label described, every shadowed byte registered in a frame).
\<close>

theorem shadow_store_load:
  assumes "shadow_inv s" "small_table s" "val \<noteq> 0" "0 < bytes" "poke addr bytes val s = Ret s'"
  shows "shadow_inv s' \<and> test_taint addr bytes s' \<and>
    peek addr bytes s' = Some [\<lparr>info_value = val, info_origin = addr, info_bytes = bytes\<rparr>]"
  using poke_peek [OF assms(1-4), of addr] poke_spec [OF assms(1-4), of addr] assms(5) by auto

text \<open>
  The generator that reads the labels of a range of memory ends in every reachable state, after at
  most as many labels as the range has bytes: a label in the shadow is never that of an empty
  range, so the loop always advances.
\<close>

theorem shadow_read_ends:
  assumes "shadow_inv s"
  shows "\<exists>labels. read_shadow_label addr bytes s = Some labels \<and> length labels \<le> bytes"
  using read_loop_total [OF assms, of addr bytes 0] by (simp add: read_shadow_label_def)

text \<open>
  What a function shadows first is forgotten when it returns: an abstract value stored to bytes
  that no frame has registered is visible in the callee, and after the frame is left the bytes are
  not tainted any more, whether they belong to the callee or to memory of its caller.
\<close>

theorem shadow_exit_forgets:
  assumes "shadow_inv s" "small_table s" "val \<noteq> 0" "0 < bytes"
    and "set (range_of addr bytes) \<inter> allocated s = {}"
  shows "\<exists>s1 s2. poke addr bytes val (entry_frame s) = Ret s1 \<and> test_taint addr bytes s1 \<and>
    exit_frame s1 = Ret s2 \<and> \<not> test_taint addr bytes s2"
  using exit_forgets [OF assms(1-4), of addr] assms(5) by blast

end
