(* ===== verification/Constant_Domain.thy ===== *)
theory Constant_Domain
  imports Zero_Domain
begin

text \<open>
  The domain of constants, \<open>lava/include/lava/constant.hpp\<close>: a value of 64 bits with its kind
  and its width. An operation dispatches on the width, computes on the C type of that width, and
  keeps the result as it comes out of C++ arithmetic: numbers narrower than \<open>int\<close> are promoted,
  so that the stored value may have bits above the width. The contract is the one of
  \<open>Domain_Base\<close>, over the machine words of \<open>conc_word\<close>.
\<close>

section \<open>Constants\<close>

datatype constant_type = con_bv | con_fp | con_ptr

record constant_data =
  con_value :: "64 word"
  con_ty :: constant_type
  con_bw :: nat

definition mk_con :: "64 word \<Rightarrow> constant_type \<Rightarrow> nat \<Rightarrow> constant_data" where
  "mk_con v t b = \<lparr>con_value = v, con_ty = t, con_bw = b\<rparr>"

lemma mk_con_sel [simp]:
  "con_value (mk_con v t b) = v" "con_ty (mk_con v t b) = t" "con_bw (mk_con v t b) = b"
  by (simp_all add: mk_con_def)

text \<open>
  The values \<open>lift\<close> is called on. A floating-point value comes with the number it truncates to;
  its conversion to \<open>uint64_t\<close> is undefined when that number does not fit.
\<close>

datatype lift_source =
    from_bool bool
  | from_int bool nat int
  | from_float nat int
  | from_pointer nat
  | from_array nat nat

fun con_lift :: "lift_source \<Rightarrow> constant_data outcome" where
  "con_lift (from_bool b) = Ret (mk_con (of_bool b) con_bv 1)"
| "con_lift (from_int s w v) = Ret (mk_con (word_of_int v) con_bv w)"
| "con_lift (from_float w v) =
    (if 0 \<le> v \<and> v < 2 ^ 64 then Ret (mk_con (word_of_int v) con_fp w) else Undef)"
| "con_lift (from_pointer p) = Ret (mk_con (word_of_nat p) con_ptr 64)"
| "con_lift (from_array b n) = Undef"

definition con_lower :: "constant_data \<Rightarrow> constant_data" where
  "con_lower c = c"

definition con_lift_to :: "(bool \<Rightarrow> nat \<Rightarrow> int \<Rightarrow> 'v outcome) \<Rightarrow> constant_data \<Rightarrow> 'v outcome" where
  "con_lift_to lift_fn c =
    obind (callu (con_bw c) (\<lambda>xs. lift_fn False (con_bw c) (hd xs)) [uint (con_value c)]) (\<lambda>r. r)"

definition con_any :: "constant_data outcome" where
  "con_any = Fault ''unsupported any operation''"

definition con_any_variadic :: "int list \<Rightarrow> constant_data outcome" where
  "con_any_variadic args = Fault ''unsupported any operation''"

definition con_any_range :: "int \<Rightarrow> int \<Rightarrow> constant_data outcome" where
  "con_any_range from to = Fault ''unsupported range any operation''"

section \<open>Dispatch on the width\<close>

text \<open>
  All operands must have the width of the widest one, or the assertion fails; there is no
  arithmetic on floating-point constants; one pointer makes the result a pointer.
\<close>

definition with_type ::
  "bool \<Rightarrow> (nat \<Rightarrow> int list \<Rightarrow> int outcome) \<Rightarrow> constant_data list \<Rightarrow> constant_data outcome" where
  "with_type signedness fn vals =
    (let bw = foldr max (map con_bw vals) 0 in
     if list_ex (\<lambda>v. con_bw v \<noteq> bw) vals then Fault ''assert''
     else if list_ex (\<lambda>v. con_ty v = con_fp) vals then Fault ''''
     else let ty = (if list_ex (\<lambda>v. con_ty v = con_ptr) vals then con_ptr else con_bv) in
       obind (number_call signedness bw (fn bw) (map (\<lambda>v. uint (con_value v)) vals))
         (omap (\<lambda>r. mk_con (word_of_int r) ty bw)))"

definition wtu :: "(nat \<Rightarrow> int list \<Rightarrow> int outcome) \<Rightarrow> constant_data list \<Rightarrow> constant_data outcome" where
  "wtu = with_type False"

definition wts :: "(nat \<Rightarrow> int list \<Rightarrow> int outcome) \<Rightarrow> constant_data list \<Rightarrow> constant_data outcome" where
  "wts = with_type True"

section \<open>Arithmetic of the C types\<close>

text \<open>
  The value of an arithmetic expression whose operands have the type of a width: types narrower
  than 32 bits are promoted to the signed \<open>int\<close>, where overflow is undefined; unsigned types of
  32 and 64 bits wrap around.
\<close>

definition promoted_width :: "nat \<Rightarrow> nat" where
  "promoted_width w = (if w < 32 then 32 else w)"

definition promoted_signed :: "bool \<Rightarrow> nat \<Rightarrow> bool" where
  "promoted_signed s w \<longleftrightarrow> s \<or> w < 32"

definition c_arith :: "bool \<Rightarrow> nat \<Rightarrow> int \<Rightarrow> int outcome" where
  "c_arith s w v =
    (if promoted_signed s w
     then (if - (2 ^ (promoted_width w - 1)) \<le> v \<and> v < 2 ^ (promoted_width w - 1)
           then Ret v else Undef)
     else Ret (v mod 2 ^ w))"

text \<open>Since C++20 a left shift wraps around in the promoted type; its distance must be in range.\<close>

definition c_shift :: "bool \<Rightarrow> nat \<Rightarrow> (nat \<Rightarrow> int) \<Rightarrow> int \<Rightarrow> int outcome" where
  "c_shift s w fn d =
    (if 0 \<le> d \<and> d < int (promoted_width w)
     then Ret (number_cast (promoted_signed s w) (promoted_width w) (fn (nat d))) else Undef)"

text \<open>The functor of each binary operation, on operands already converted to their type.\<close>

definition con_fun :: "op_tag \<Rightarrow> bool \<Rightarrow> nat \<Rightarrow> int \<Rightarrow> int \<Rightarrow> int outcome" where
  "con_fun t s w x y =
    (if t = tag_add then c_arith s w (x + y)
     else if t = tag_sub then c_arith s w (x - y)
     else if t = tag_mul then c_arith s w (x * y)
     else if t = tag_sdiv \<or> t = tag_udiv then (if y = 0 then Undef else c_arith s w (x sdiv y))
     else if t = tag_srem \<or> t = tag_urem
       then (if y = 0 then Undef else omap (\<lambda>_. x smod y) (c_arith s w (x sdiv y)))
     else if t = tag_op_and then Ret (and x y)
     else if t = tag_op_or then Ret (or x y)
     else if t = tag_op_xor then Ret (xor x y)
     else if t = tag_shl then c_shift s w (\<lambda>d. push_bit d x) y
     else if t = tag_lshr \<or> t = tag_ashr then c_shift s w (\<lambda>d. drop_bit d x) y
     else if t = tag_eq then Ret (of_bool (x = y))
     else if t = tag_ne then Ret (of_bool (x \<noteq> y))
     else if t = tag_ult \<or> t = tag_slt then Ret (of_bool (x < y))
     else if t = tag_ugt \<or> t = tag_sgt then Ret (of_bool (x > y))
     else if t = tag_ule \<or> t = tag_sle then Ret (of_bool (x \<le> y))
     else if t = tag_uge \<or> t = tag_sge then Ret (of_bool (x \<ge> y))
     else Undef)"

definition con_signed_tags :: "op_tag list" where
  "con_signed_tags = [tag_sdiv, tag_srem, tag_ashr, tag_slt, tag_sgt, tag_sle, tag_sge]"

definition con_unsigned_tags :: "op_tag list" where
  "con_unsigned_tags =
    [tag_add, tag_sub, tag_mul, tag_udiv, tag_urem, tag_op_and, tag_op_or, tag_op_xor,
     tag_shl, tag_lshr, tag_eq, tag_ne, tag_ult, tag_ugt, tag_ule, tag_uge]"

text \<open>The binary operations; those the struct does not define are the mixin's.\<close>

definition con_bin :: "op_tag \<Rightarrow> constant_data \<Rightarrow> constant_data \<Rightarrow> constant_data outcome" where
  "con_bin t a b =
    (if t \<in> set con_unsigned_tags then wtu (\<lambda>w xs. con_fun t False w (xs ! 0) (xs ! 1)) [a, b]
     else if t \<in> set con_signed_tags then wts (\<lambda>w xs. con_fun t True w (xs ! 0) (xs ! 1)) [a, b]
     else mixin_bin t a b)"

definition con_not :: "constant_data \<Rightarrow> constant_data outcome" where
  "con_not a = wtu (\<lambda>w xs. Ret (of_bool (hd xs = 0))) [a]"

text \<open>The negation of the code is \<open>std::bit_not\<close>.\<close>

definition con_neg :: "constant_data \<Rightarrow> constant_data outcome" where
  "con_neg a = wtu (\<lambda>w xs. c_arith False w (not (hd xs))) [a]"

section \<open>Widths and casts\<close>

fun con_mask :: "nat \<Rightarrow> 64 word outcome" where
  "con_mask 0 = Ret 0"
| "con_mask (Suc n) = (if n < 64 then omap (or (push_bit n 1)) (con_mask n) else Undef)"

definition set_bw :: "constant_data \<Rightarrow> nat \<Rightarrow> constant_data outcome" where
  "set_bw c bw = omap (\<lambda>m. mk_con (and (con_value c) m) (con_ty c) (con_bw c)) (con_mask bw)"

definition con_sext :: "constant_data \<Rightarrow> nat \<Rightarrow> constant_data outcome" where
  "con_sext c w = obind (wts (\<lambda>_ xs. Ret (number_cast True 64 (hd xs))) [c]) (\<lambda>r. set_bw r w)"

definition con_cast :: "op_tag \<Rightarrow> constant_data \<Rightarrow> nat \<Rightarrow> constant_data outcome" where
  "con_cast t c w =
    (if t \<in> {tag_trunc, tag_zext, tag_zfit} then set_bw c w
     else if t = tag_sext then con_sext c w else mixin_cast t c w)"

section \<open>Branches\<close>

definition con_to_tristate :: "constant_data \<Rightarrow> tristate" where
  "con_to_tristate c = tristate_of_bool (con_value c \<noteq> 0)"

text \<open>\<open>assume\<close> compares the 64-bit value with the expected boolean.\<close>

definition con_assume :: "constant_data \<Rightarrow> bool \<Rightarrow> constant_data outcome" where
  "con_assume c expect = (if con_value c \<noteq> of_bool expect then Cancel else Ret c)"

section \<open>Memory\<close>

text \<open>
  A constant pointer is dereferenced: the memory is a partial map from addresses to bytes, the
  machine is little-endian, and a boolean byte other than 0 and 1 has no value.
\<close>

type_synonym memory = "nat \<Rightarrow> 8 word option"

definition width_bytes :: "nat \<Rightarrow> nat" where
  "width_bytes bw = (if bw = 1 then 1 else bw div 8)"

fun load_bytes :: "memory \<Rightarrow> nat \<Rightarrow> nat \<Rightarrow> int outcome" where
  "load_bytes m p 0 = Ret 0"
| "load_bytes m p (Suc n) =
    (case m p of None \<Rightarrow> Undef
     | Some b \<Rightarrow> omap (\<lambda>v. uint b + 256 * v) (load_bytes m (Suc p) n))"

fun store_bytes :: "memory \<Rightarrow> nat \<Rightarrow> nat \<Rightarrow> int \<Rightarrow> memory outcome" where
  "store_bytes m p 0 v = Ret m"
| "store_bytes m p (Suc n) v =
    (case m p of None \<Rightarrow> Undef
     | Some b \<Rightarrow> store_bytes (m(p \<mapsto> word_of_int v)) (Suc p) n (v div 256))"

definition con_pointer :: "constant_data \<Rightarrow> nat" where
  "con_pointer c = unat (con_value c)"

definition con_load :: "memory \<Rightarrow> constant_data \<Rightarrow> nat \<Rightarrow> constant_data outcome" where
  "con_load m p bw =
    (if bw \<in> {1, 8, 16, 32, 64}
     then obind (load_bytes m (con_pointer p) (width_bytes bw)) (\<lambda>v.
       if bw = 1 \<and> 1 < v then Undef
       else con_lift (if bw = 1 then from_bool (v \<noteq> 0) else from_int False bw v))
     else Undef)"

definition con_store :: "memory \<Rightarrow> constant_data \<Rightarrow> constant_data \<Rightarrow> nat \<Rightarrow> memory outcome" where
  "con_store m p v bw =
    obind (callu bw (\<lambda>xs. store_bytes m (con_pointer p) (width_bytes bw) (hd xs))
            [uint (con_value v)]) (\<lambda>r. r)"

section \<open>As a template parameter\<close>

text \<open>The number of a floating-point argument is not part of \<open>c_value\<close>; it is given beside it.\<close>

definition con_dom_lift :: "nat \<times> int \<Rightarrow> c_value \<Rightarrow> constant_data outcome" where
  "con_dom_lift fl v =
    (case v of c_bool b \<Rightarrow> con_lift (from_bool b)
     | c_int s w n \<Rightarrow> con_lift (from_int s w n)
     | c_pointer p \<Rightarrow> con_lift (from_pointer p)
     | c_array b n \<Rightarrow> con_lift (from_array b n)
     | c_float \<Rightarrow> con_lift (from_float (fst fl) (snd fl)))"

definition con_domain :: "nat \<times> int \<Rightarrow> constant_data domain" where
  "con_domain fl =
    \<lparr>dom_lift = con_dom_lift fl, dom_any = con_any, dom_any_range = con_any_range,
     dom_assume = con_assume, dom_to_tristate = (\<lambda>c. Ret (con_to_tristate c)),
     dom_bin = con_bin, dom_cast = con_cast, dom_bop = mixin_bop, dom_bun = mixin_bun\<rparr>"

section \<open>The words constants stand for\<close>

text \<open>A constant of a width describes one word of the width; its upper bits do not matter.\<close>

definition con_gamma :: "constant_data \<Rightarrow> 'w::len word set" where
  "con_gamma c = {x. con_bw c = LENGTH('w) \<and> con_ty c \<noteq> con_fp \<and> x = ucast (con_value c)}"

definition machine_width :: "nat \<Rightarrow> bool" where
  "machine_width w \<longleftrightarrow> w \<in> {8, 16, 32, 64}"

lemma cast_unsigned:
  assumes "machine_width LENGTH('w::len)"
  shows "number_cast False LENGTH('w) (uint (v :: 64 word)) = uint (ucast v :: 'w word)"
proof -
  have "LENGTH('w) \<noteq> 1" using assms by (auto simp: machine_width_def)
  then show ?thesis by (simp add: number_cast_def unsigned_ucast_eq take_bit_eq_mod)
qed

lemma cast_signed:
  assumes "machine_width LENGTH('w::len)"
  shows "number_cast True LENGTH('w) (uint (v :: 64 word)) = sint (ucast v :: 'w word)"
proof -
  have w: "LENGTH('w) \<noteq> 1" "0 < LENGTH('w)" "LENGTH('w) \<le> 64"
    using assms by (auto simp: machine_width_def)
  have "sint (ucast v :: 'w word) = signed_take_bit (LENGTH('w) - 1) (uint (ucast v :: 'w word))"
    by (simp add: sint_uint)
  also have "\<dots> = signed_take_bit (LENGTH('w) - 1) (uint v)"
    using w by (simp add: unsigned_ucast_eq signed_take_bit_take_bit)
  also have "\<dots> = (uint v + 2 ^ (LENGTH('w) - 1)) mod 2 ^ LENGTH('w) - 2 ^ (LENGTH('w) - 1)"
    using w by (simp add: signed_take_bit_eq_take_bit_shift take_bit_eq_mod)
  finally show ?thesis using w by (simp add: number_cast_def)
qed

lemma ucast_of_int:
  assumes "LENGTH('w::len) \<le> 64"
  shows "(ucast (word_of_int r :: 64 word) :: 'w word) = word_of_int r"
  by (rule bit_word_eqI) (use assms in \<open>simp add: bit_simps\<close>)

lemma word_of_int_cast:
  assumes "LENGTH('w::len) \<le> p" "p \<noteq> 1"
  shows "(word_of_int (number_cast s p v) :: 'w word) = word_of_int v"
proof -
  have "(2::int) ^ LENGTH('w) dvd 2 ^ p" using assms(1) by (rule le_imp_power_dvd)
  moreover have "number_cast s p v mod 2 ^ p = v mod 2 ^ p"
    by (rule number_cast_congruent [OF assms(2)])
  ultimately have "number_cast s p v mod 2 ^ LENGTH('w) = v mod 2 ^ LENGTH('w)"
    by (metis mod_mod_cancel)
  then show ?thesis by (simp add: word_of_int_eq_iff take_bit_eq_mod)
qed

lemma c_arith_word:
  assumes "machine_width LENGTH('w::len)"
    and "promoted_signed s LENGTH('w) \<Longrightarrow>
      - (2 ^ (promoted_width LENGTH('w) - 1)) \<le> v \<and> v < 2 ^ (promoted_width LENGTH('w) - 1)"
  shows "osound (c_arith s LENGTH('w) v) (\<lambda>r. (word_of_int r :: 'w word) = word_of_int v)"
  using assms(2) by (simp add: c_arith_def word_of_int_eq_iff take_bit_eq_mod)

lemma c_shift_word:
  assumes "machine_width LENGTH('w::len)" "n < LENGTH('w)"
  shows "osound (c_shift s LENGTH('w) fn (int n))
    (\<lambda>r. (word_of_int r :: 'w word) = word_of_int (fn n))"
  using assms
  by (auto simp: c_shift_def promoted_width_def machine_width_def word_of_int_cast)

section \<open>Operations on words\<close>

text \<open>
  What the program computes: a shift by the width or more, and a signed division that overflows,
  have no result.
\<close>

definition con_word :: "op_tag \<Rightarrow> 'w::len word \<Rightarrow> 'w word \<Rightarrow> 'w word option" where
  "con_word t x y =
    (if t \<in> {tag_shl, tag_lshr, tag_ashr} \<and> LENGTH('w) \<le> unat y then None
     else if t \<in> {tag_sdiv, tag_srem} \<and> sint y = - 1 \<and> sint x = - (2 ^ (LENGTH('w) - 1)) then None
     else conc_word t x y)"

lemma sdiv_in_range:
  assumes "- (2 ^ n) \<le> x" "x < 2 ^ n" "(y :: int) \<noteq> 0" "\<not> (y = - 1 \<and> x = - (2 ^ n))"
  shows "- (2 ^ n) \<le> x sdiv y \<and> x sdiv y < 2 ^ n"
proof -
  have abs: "\<bar>x sdiv y\<bar> \<le> \<bar>x\<bar> div \<bar>y\<bar>"
    by (auto simp: signed_divide_int_def abs_mult sgn_if pos_imp_zdiv_nonneg_iff)
  consider "y = 1" | "y = - 1" | "2 \<le> \<bar>y\<bar>" using assms(3) by linarith
  then show ?thesis
  proof cases
    case 1
    then have "x sdiv y = x" by (simp add: signed_divide_int_def sgn_if)
    with assms show ?thesis by simp
  next
    case 2
    then have "x sdiv y = - x" by (simp add: signed_divide_int_def sgn_if)
    with assms 2 show ?thesis by simp
  next
    case 3
    have "\<bar>x\<bar> \<le> 2 ^ n" using assms by simp
    then have "\<bar>x\<bar> div \<bar>y\<bar> \<le> 2 ^ n div \<bar>y\<bar>" using 3 by (intro zdiv_mono1) auto
    also have "\<dots> \<le> 2 ^ n div 2" using 3 by (intro zdiv_mono2) auto
    also have "\<dots> < 2 ^ n" using int_div_less_self [of "2 ^ n" 2] by simp
    finally show ?thesis using abs by linarith
  qed
qed

lemma sdiv_nonneg: "0 \<le> x \<Longrightarrow> 0 < y \<Longrightarrow> (x :: int) sdiv y = x div y"
  by (simp add: signed_divide_int_def sgn_if)

lemma smod_nonneg: "0 \<le> x \<Longrightarrow> 0 < y \<Longrightarrow> (x :: int) smod y = x mod y"
  by (cases "x = 0") (simp_all add: signed_modulo_int_def)

lemma width_facts:
  assumes "machine_width w"
  shows "w \<noteq> 1" "3 < w" "w \<le> promoted_width w" "promoted_width w \<noteq> 1" "w \<le> 64"
    "(2::int) ^ w \<le> 2 ^ promoted_width w"
    "w < 32 \<Longrightarrow> (2::int) ^ w < 2 ^ (promoted_width w - 1)"
    "(2::int) ^ (w - 1) \<le> 2 ^ (promoted_width w - 1)"
    "w < 32 \<Longrightarrow> w \<noteq> 16 \<Longrightarrow> (2::int) ^ w * 2 ^ w < 2 ^ (promoted_width w - 1)"
  using assms by (auto simp: machine_width_def promoted_width_def)

lemma uint_bounds: "0 \<le> uint (x :: 'w::len word)" "uint x < 2 ^ LENGTH('w)"
  by (simp_all add: unsigned_less)

lemma sint_bounds:
  "- (2 ^ (LENGTH('w) - 1)) \<le> sint (x :: 'w::len word)" "sint x < 2 ^ (LENGTH('w) - 1)"
  by (rule sint_ge sint_lt)+

lemma promoted_fits:
  assumes "machine_width w" "promoted_signed False w" "\<bar>v :: int\<bar> < 2 * 2 ^ w"
  shows "- (2 ^ (promoted_width w - 1)) \<le> v \<and> v < 2 ^ (promoted_width w - 1)"
  using assms by (auto simp: machine_width_def promoted_signed_def promoted_width_def)

text \<open>The unsigned functors, on operands read as unsigned numbers.\<close>

lemma con_arith_word:
  fixes x y :: "'w::len word"
  assumes w: "machine_width LENGTH('w)"
  shows "osound (con_fun tag_add False LENGTH('w) (uint x) (uint y)) (\<lambda>r. word_of_int r = x + y)"
    and "osound (con_fun tag_sub False LENGTH('w) (uint x) (uint y)) (\<lambda>r. word_of_int r = x - y)"
    and "LENGTH('w) \<noteq> 16 \<Longrightarrow>
      osound (con_fun tag_mul False LENGTH('w) (uint x) (uint y)) (\<lambda>r. word_of_int r = x * y)"
proof -
  note b = uint_bounds [of x] uint_bounds [of y]
  have prod: "uint x * uint y \<le> 2 ^ LENGTH('w) * 2 ^ LENGTH('w)"
    by (intro mult_mono less_imp_le [OF uint_bounds(2)] uint_bounds(1)) simp
  have "osound (c_arith False LENGTH('w) (uint x + uint y))
      (\<lambda>r. (word_of_int r :: 'w word) = word_of_int (uint x + uint y))"
    by (rule c_arith_word [OF w], rule promoted_fits [OF w]) (use b in linarith)+
  then show "osound (con_fun tag_add False LENGTH('w) (uint x) (uint y)) (\<lambda>r. word_of_int r = x + y)"
    by (simp add: con_fun_def)
  have "osound (c_arith False LENGTH('w) (uint x - uint y))
      (\<lambda>r. (word_of_int r :: 'w word) = word_of_int (uint x - uint y))"
    by (rule c_arith_word [OF w], rule promoted_fits [OF w]) (use b in linarith)+
  then show "osound (con_fun tag_sub False LENGTH('w) (uint x) (uint y)) (\<lambda>r. word_of_int r = x - y)"
    by (simp add: con_fun_def)
  show "osound (con_fun tag_mul False LENGTH('w) (uint x) (uint y)) (\<lambda>r. word_of_int r = x * y)"
    if "LENGTH('w) \<noteq> 16"
  proof -
    have "osound (c_arith False LENGTH('w) (uint x * uint y))
        (\<lambda>r. (word_of_int r :: 'w word) = word_of_int (uint x * uint y))"
    proof (rule c_arith_word [OF w])
      assume "promoted_signed False LENGTH('w)"
      then have "2 ^ LENGTH('w) * 2 ^ LENGTH('w) < (2::int) ^ (promoted_width LENGTH('w) - 1)"
        using width_facts(9) [OF w] that by (simp add: promoted_signed_def)
      moreover have "0 \<le> uint x * uint y" using b by simp
      ultimately show "- (2 ^ (promoted_width LENGTH('w) - 1)) \<le> uint x * uint y \<and>
          uint x * uint y < 2 ^ (promoted_width LENGTH('w) - 1)"
        using prod by linarith
    qed
    then show ?thesis by (simp add: con_fun_def)
  qed
qed

lemma con_div_word:
  fixes x y :: "'w::len word"
  assumes w: "machine_width LENGTH('w)" and y: "y \<noteq> 0"
  shows "osound (con_fun tag_udiv False LENGTH('w) (uint x) (uint y)) (\<lambda>r. word_of_int r = x div y)"
    and "osound (con_fun tag_urem False LENGTH('w) (uint x) (uint y)) (\<lambda>r. word_of_int r = x mod y)"
proof -
  have pos: "0 < uint y" using y by (simp add: word_neq_0_conv [symmetric] unsigned_eq_0_iff order_less_le)
  have le: "uint x div uint y \<le> uint x" using pos zdiv_mono2 [of "uint x" 1 "uint y"] by simp
  have "osound (c_arith False LENGTH('w) (uint x div uint y))
      (\<lambda>r. (word_of_int r :: 'w word) = word_of_int (uint x div uint y))"
    by (rule c_arith_word [OF w], rule promoted_fits [OF w])
      (use uint_bounds [of x] le pos pos_imp_zdiv_nonneg_iff [of "uint y" "uint x"] in linarith)+
  then show "osound (con_fun tag_udiv False LENGTH('w) (uint x) (uint y)) (\<lambda>r. word_of_int r = x div y)"
    and "osound (con_fun tag_urem False LENGTH('w) (uint x) (uint y)) (\<lambda>r. word_of_int r = x mod y)"
    using pos by (auto simp: con_fun_def sdiv_nonneg smod_nonneg osound_omap word_div_def word_mod_def
      elim: osound_mono)
qed

lemma con_bit_word:
  fixes x y :: "'w::len word"
  shows "osound (con_fun tag_op_and False w (uint x) (uint y)) (\<lambda>r. word_of_int r = and x y)"
    and "osound (con_fun tag_op_or False w (uint x) (uint y)) (\<lambda>r. word_of_int r = or x y)"
    and "osound (con_fun tag_op_xor False w (uint x) (uint y)) (\<lambda>r. word_of_int r = xor x y)"
  by (simp_all add: con_fun_def word_and_def word_or_def word_xor_def)

lemma word_of_int_drop_bit: "word_of_int (drop_bit n (uint x)) = drop_bit n (x :: 'w::len word)"
  by (rule bit_word_eqI) (auto simp: bit_simps)

lemma word_of_int_signed_drop_bit:
  "word_of_int (drop_bit n (sint x)) = signed_drop_bit n (x :: 'w::len word)"
proof (rule bit_word_eqI)
  fix k assume "k < LENGTH('w)"
  then show "bit (word_of_int (drop_bit n (sint x)) :: 'w word) k \<longleftrightarrow> bit (signed_drop_bit n x) k"
    by (cases "n + k = LENGTH('w) - 1") (auto simp: bit_simps min_def)
qed

lemma con_shift_word:
  fixes x y :: "'w::len word"
  assumes w: "machine_width LENGTH('w)" and y: "unat y < LENGTH('w)"
  shows "osound (con_fun tag_shl False LENGTH('w) (uint x) (uint y))
      (\<lambda>r. word_of_int r = push_bit (unat y) x)"
    and "osound (con_fun tag_lshr False LENGTH('w) (uint x) (uint y))
      (\<lambda>r. word_of_int r = drop_bit (unat y) x)"
    and "osound (con_fun tag_ashr True LENGTH('w) (sint x) (sint y))
      (\<lambda>r. word_of_int r = signed_drop_bit (unat y) x)"
proof -
  have u: "uint y = int (unat y)" by simp
  have "unat y < 2 ^ (LENGTH('w) - 1)"
    using y width_facts(2) [OF w] less_exp [of "LENGTH('w) - 1"] by linarith
  then have "int (unat y) < int (2 ^ (LENGTH('w) - 1))" by (simp only: of_nat_less_iff)
  moreover have "- (2 ^ (LENGTH('w) - 1)) \<le> uint y" by (rule order_trans [of _ 0]) simp_all
  ultimately have s: "sint y = int (unat y)"
    using signed_take_bit_int_eq_self [of "LENGTH('w) - 1" "uint y"] by (simp add: sint_uint)
  show "osound (con_fun tag_shl False LENGTH('w) (uint x) (uint y))
      (\<lambda>r. word_of_int r = push_bit (unat y) x)"
    using c_shift_word [OF w y, of False "\<lambda>d. push_bit d (uint x)"]
    by (simp add: con_fun_def push_bit_eq_mult)
  show "osound (con_fun tag_lshr False LENGTH('w) (uint x) (uint y))
      (\<lambda>r. word_of_int r = drop_bit (unat y) x)"
    using c_shift_word [OF w y, of False "\<lambda>d. drop_bit d (uint x)"]
    by (simp add: con_fun_def word_of_int_drop_bit)
  show "osound (con_fun tag_ashr True LENGTH('w) (sint x) (sint y))
      (\<lambda>r. word_of_int r = signed_drop_bit (unat y) x)"
    using c_shift_word [OF w y, of True "\<lambda>d. drop_bit d (sint x)"]
    by (simp add: con_fun_def s word_of_int_signed_drop_bit)
qed

lemma con_cmp_word:
  fixes x y :: "'w::len word"
  shows "osound (con_fun tag_eq False w (uint x) (uint y)) (\<lambda>r. word_of_int r = of_bool (x = y))"
    and "osound (con_fun tag_ne False w (uint x) (uint y)) (\<lambda>r. word_of_int r = of_bool (x \<noteq> y))"
    and "osound (con_fun tag_ult False w (uint x) (uint y)) (\<lambda>r. word_of_int r = of_bool (x < y))"
    and "osound (con_fun tag_ugt False w (uint x) (uint y)) (\<lambda>r. word_of_int r = of_bool (x > y))"
    and "osound (con_fun tag_ule False w (uint x) (uint y)) (\<lambda>r. word_of_int r = of_bool (x \<le> y))"
    and "osound (con_fun tag_uge False w (uint x) (uint y)) (\<lambda>r. word_of_int r = of_bool (x \<ge> y))"
    and "osound (con_fun tag_slt True w (sint x) (sint y)) (\<lambda>r. word_of_int r = of_bool (x <s y))"
    and "osound (con_fun tag_sgt True w (sint x) (sint y)) (\<lambda>r. word_of_int r = of_bool (y <s x))"
    and "osound (con_fun tag_sle True w (sint x) (sint y)) (\<lambda>r. word_of_int r = of_bool (x \<le>s y))"
    and "osound (con_fun tag_sge True w (sint x) (sint y)) (\<lambda>r. word_of_int r = of_bool (y \<le>s x))"
  by (simp_all add: con_fun_def word_less_def word_le_def word_sless_alt word_sle_eq word_uint_eq_iff)

lemma con_sdiv_word:
  fixes x y :: "'w::len word"
  assumes w: "machine_width LENGTH('w)" and y: "y \<noteq> 0"
    and ov: "\<not> (sint y = - 1 \<and> sint x = - (2 ^ (LENGTH('w) - 1)))"
  shows "osound (con_fun tag_sdiv True LENGTH('w) (sint x) (sint y))
      (\<lambda>r. word_of_int r = (word_of_int (sint x sdiv sint y) :: 'w word))"
    and "osound (con_fun tag_srem True LENGTH('w) (sint x) (sint y))
      (\<lambda>r. word_of_int r = (word_of_int (sint x smod sint y) :: 'w word))"
proof -
  have y': "sint y \<noteq> 0"
  proof
    assume "sint y = 0"
    then have "word_of_int (sint y) = (0 :: 'w word)" by simp
    with y show False by simp
  qed
  have r: "- (2 ^ (LENGTH('w) - 1)) \<le> sint x sdiv sint y \<and> sint x sdiv sint y < 2 ^ (LENGTH('w) - 1)"
    by (rule sdiv_in_range [OF sint_bounds y' ov])
  have "osound (c_arith True LENGTH('w) (sint x sdiv sint y))
      (\<lambda>r. (word_of_int r :: 'w word) = word_of_int (sint x sdiv sint y))"
    by (rule c_arith_word [OF w]) (use width_facts(8) [OF w] r in linarith)
  then show "osound (con_fun tag_sdiv True LENGTH('w) (sint x) (sint y))
      (\<lambda>r. word_of_int r = (word_of_int (sint x sdiv sint y) :: 'w word))"
    and "osound (con_fun tag_srem True LENGTH('w) (sint x) (sint y))
      (\<lambda>r. word_of_int r = (word_of_int (sint x smod sint y) :: 'w word))"
    using y' by (auto simp: con_fun_def osound_omap elim: osound_mono)
qed

section \<open>Soundness of the operations\<close>

lemma con_bin_eval:
  fixes x y z :: "'w::len word"
  assumes w: "machine_width LENGTH('w)" and x: "x \<in> con_gamma a" and y: "y \<in> con_gamma b"
  shows "t \<in> set con_unsigned_tags \<Longrightarrow>
      osound (con_fun t False LENGTH('w) (uint x) (uint y)) (\<lambda>r. word_of_int r = z) \<Longrightarrow>
      osound (con_bin t a b) (\<lambda>c. z \<in> con_gamma c)"
    and "t \<in> set con_signed_tags \<Longrightarrow>
      osound (con_fun t True LENGTH('w) (sint x) (sint y)) (\<lambda>r. word_of_int r = z) \<Longrightarrow>
      osound (con_bin t a b) (\<lambda>c. z \<in> con_gamma c)"
proof -
  have bw: "LENGTH('w) \<in> {1, 8, 16, 32, 64}" using w by (auto simp: machine_width_def)
  have fit: "LENGTH('w) \<le> 64" by (rule width_facts(5) [OF w])
  note call = number_call_defined [OF bw] cast_unsigned [OF w] cast_signed [OF w]
    ucast_of_int [OF fit]
  have ab: "con_bw a = LENGTH('w)" "con_bw b = LENGTH('w)" "con_ty a \<noteq> con_fp" "con_ty b \<noteq> con_fp"
    "x = ucast (con_value a)" "y = ucast (con_value b)"
    using x y by (simp_all add: con_gamma_def)
  have eval: "with_type sg (\<lambda>w xs. f w (xs ! 0) (xs ! Suc 0)) [a, b] =
      omap (\<lambda>r. mk_con (word_of_int r)
          (if con_ty a = con_ptr \<or> con_ty b = con_ptr then con_ptr else con_bv) LENGTH('w))
        (f LENGTH('w) (if sg then sint x else uint x) (if sg then sint y else uint y))" for sg f
    using ab by (cases sg) (simp_all add: with_type_def Let_def call)
  show "osound (con_bin t a b) (\<lambda>c. z \<in> con_gamma c)" if "t \<in> set con_unsigned_tags"
    "osound (con_fun t False LENGTH('w) (uint x) (uint y)) (\<lambda>r. word_of_int r = z)"
    using that by (simp add: con_bin_def wtu_def eval osound_omap con_gamma_def call eq_commute)
  show "osound (con_bin t a b) (\<lambda>c. z \<in> con_gamma c)" if t: "t \<in> set con_signed_tags"
    and "osound (con_fun t True LENGTH('w) (sint x) (sint y)) (\<lambda>r. word_of_int r = z)"
  proof -
    have "t \<notin> set con_unsigned_tags" using t by (auto simp: con_signed_tags_def con_unsigned_tags_def)
    with that show ?thesis
      by (simp add: con_bin_def wts_def eval osound_omap con_gamma_def call eq_commute)
  qed
qed

text \<open>Multiplication at 16 bits is the exception: the promoted product can overflow.\<close>

definition con_ops :: "nat \<Rightarrow> op_tag set" where
  "con_ops w =
    (if machine_width w
     then set con_unsigned_tags \<union> set con_signed_tags - (if w = 16 then {tag_mul} else {}) else {})"

lemma con_forward_sound:
  fixes x y z :: "'w::len word"
  assumes t: "t \<in> con_ops LENGTH('w)" and x: "x \<in> con_gamma a" and y: "y \<in> con_gamma b"
    and z: "con_word t x y = Some z"
  shows "osound (con_bin t a b) (\<lambda>c. z \<in> con_gamma c)"
proof -
  have w: "machine_width LENGTH('w)" using t by (auto simp: con_ops_def split: if_splits)
  note u = con_bin_eval(1) [OF w x y] and s = con_bin_eval(2) [OF w x y]
  have m: "t = tag_mul \<Longrightarrow> LENGTH('w) \<noteq> 16" using t by (auto simp: con_ops_def split: if_splits)
  consider "t \<in> {tag_add, tag_sub, tag_mul, tag_udiv, tag_urem}" | "t \<in> {tag_op_and, tag_op_or, tag_op_xor}"
    | "t \<in> {tag_shl, tag_lshr, tag_ashr}" | "t \<in> {tag_sdiv, tag_srem}"
    | "t \<in> {tag_eq, tag_ne, tag_ult, tag_ugt, tag_ule, tag_uge}" | "t \<in> {tag_slt, tag_sgt, tag_sle, tag_sge}"
    using t by (auto simp: con_ops_def con_unsigned_tags_def con_signed_tags_def split: if_splits)
  then show ?thesis
  proof cases
    case 1
    with z m show ?thesis
      by (intro u) (auto simp: con_unsigned_tags_def con_word_def conc_word_def con_arith_word [OF w]
          con_div_word [OF w] split: if_splits)
  next
    case 2
    with z show ?thesis
      by (intro u) (auto simp: con_unsigned_tags_def con_word_def conc_word_def con_bit_word)
  next
    case 3
    then have y': "unat y < LENGTH('w)" using z by (auto simp: con_word_def split: if_splits)
    show ?thesis
    proof (cases "t = tag_ashr")
      case True
      with z y' show ?thesis
        by (intro s) (auto simp: con_signed_tags_def con_word_def conc_word_def con_shift_word [OF w])
    next
      case False
      with 3 z y' show ?thesis
        by (intro u) (auto simp: con_unsigned_tags_def con_word_def conc_word_def con_shift_word [OF w])
    qed
  next
    case 4
    with z show ?thesis
      by (intro s) (auto simp: con_signed_tags_def con_word_def conc_word_def
          intro: con_sdiv_word [OF w] split: if_splits)
  next
    case 5
    with z show ?thesis
      by (intro u) (auto simp: con_unsigned_tags_def con_word_def conc_word_def con_cmp_word)
  next
    case 6
    with z show ?thesis
      by (intro s) (auto simp: con_signed_tags_def con_word_def conc_word_def con_cmp_word)
  qed
qed

interpretation cn: forward_sound "con_domain fl" "con_gamma :: constant_data \<Rightarrow> 'w::len word set"
    con_word "con_ops LENGTH('w)"
  for fl :: "nat \<times> int"
  by unfold_locales (simp add: con_domain_def con_forward_sound)

section \<open>Properties\<close>

lemma con_sum_truth:
  fixes x y :: "'w::len word"
  assumes w: "machine_width LENGTH('w)" and x: "x \<in> con_gamma a" and y: "y \<in> con_gamma b"
    and c: "con_bin tag_add a b = Ret c"
  shows "con_value c \<noteq> 0 \<longleftrightarrow> (if 32 \<le> LENGTH('w) then x + y \<noteq> 0 else x \<noteq> 0 \<or> y \<noteq> 0)"
proof -
  have bw: "LENGTH('w) \<in> {1, 8, 16, 32, 64}" using w by (auto simp: machine_width_def)
  note eval = number_call_defined [OF bw] cast_unsigned [OF w]
  obtain ty where c': "omap (\<lambda>r. mk_con (word_of_int r) ty LENGTH('w))
      (c_arith False LENGTH('w) (uint x + uint y)) = Ret c"
    using c x y by (auto simp: con_bin_def con_unsigned_tags_def wtu_def with_type_def Let_def
        con_gamma_def eval con_fun_def)
  have nn: "0 \<le> uint x" "0 \<le> uint y" by simp_all
  show ?thesis
  proof (cases "32 \<le> LENGTH('w)")
    case True
    have fit: "(2::int) ^ LENGTH('w) \<le> 2 ^ 64"
      using width_facts(5) [OF w] by (rule power_increasing) simp
    have "con_value c = word_of_int (uint (x + y))"
      using c' True by (auto simp: c_arith_def promoted_signed_def uint_word_ariths)
    moreover have "uint (x + y) < 2 ^ 64" using uint_bounds(2) [of "x + y"] fit by linarith
    then have "uint (word_of_int (uint (x + y)) :: 64 word) = uint (x + y)"
      by (simp add: unsigned_ucast_eq take_bit_int_eq_self)
    ultimately have "uint (con_value c) = uint (x + y)" by simp
    then have "con_value c = 0 \<longleftrightarrow> x + y = 0" by (metis unsigned_eq_0_iff)
    then show ?thesis using True by simp
  next
    case False
    then have ps: "promoted_signed False LENGTH('w)" by (simp add: promoted_signed_def)
    have pw: "promoted_width LENGTH('w) = 32" using False by (simp add: promoted_width_def)
    have "con_value c = word_of_int (uint x + uint y)" and b: "uint x + uint y < 2 ^ 31"
      using c' ps pw by (auto simp: c_arith_def split: if_splits)
    moreover have "uint (word_of_int (uint x + uint y) :: 64 word) = uint x + uint y"
      unfolding uint_word_of_int using nn b by simp
    ultimately have "uint (con_value c) = uint x + uint y" by simp
    then have "con_value c = 0 \<longleftrightarrow> uint x = 0 \<and> uint y = 0"
      using nn by (metis add_nonneg_eq_0_iff unsigned_eq_0_iff)
    then show ?thesis using False by (simp add: unsigned_eq_0_iff)
  qed
qed

text \<open>
  The truth value of a sum of two narrow constants (8 or 16 bits) is right unless the sum wraps
  around to zero: the promoted sum is stored with its carry, so the constant whose number is zero
  counts as true. For 32 and 64 bits the truth value is always right.
\<close>

theorem constant_truth_of_sum:
  fixes x y :: "'w::len word"
  assumes "machine_width LENGTH('w)" "x \<in> con_gamma a" "y \<in> con_gamma b"
    and "con_bin tag_add a b = Ret c"
  shows "con_to_tristate c = tristate_of_bool (x + y \<noteq> 0) \<longleftrightarrow>
    32 \<le> LENGTH('w) \<or> x + y \<noteq> 0 \<or> x = 0 \<and> y = 0"
  using con_sum_truth [OF assms] by (auto simp: con_to_tristate_def tristate_of_bool_def)

text \<open>
  Branching on a constant: a value of one takes the true edge and a value of zero the false edge,
  with the constant unchanged; on any other value the path is cancelled, although its truth value
  is known, since the assumption compares the number with the expected boolean.
\<close>

theorem constant_branch_outcome:
  "branch_on (con_domain fl) c =
    (if con_value c = 0 then [Ret (False, c)]
     else if con_value c = 1 then [Ret (True, c)] else [Cancel])"
  by (simp add: branch_on_def con_domain_def con_to_tristate_def con_assume_def tristate_of_bool_def
      tri_lower_def tri_maybe_def tri_to_bool_def tristate_value_def)

lemma con_mask_eq: "w \<le> 64 \<Longrightarrow> con_mask w = Ret (mask w)"
proof (induction w)
  case 0
  then show ?case by simp
next
  case (Suc w)
  have "or (push_bit w 1) (mask w) = (mask (Suc w) :: 64 word)"
    by (rule bit_word_eqI) (auto simp: bit_simps)
  with Suc show ?case by simp
qed

lemma con_bin_widths:
  assumes "t \<in> set con_unsigned_tags \<or> t \<in> set con_signed_tags" "con_bw a \<noteq> con_bw b"
  shows "con_bin t a b = Fault ''assert''"
  using assms by (auto simp: con_bin_def wtu_def wts_def with_type_def Let_def max_def)

text \<open>
  Truncation and zero extension of a constant reduce its value modulo two to the new width, and
  leave its recorded width as it was; so after a cast to another width, every arithmetic operation
  or comparison with a constant of the new width fails the assertion on the widths.
\<close>

theorem constant_cast_keeps_width:
  assumes "w \<le> 64" "t \<in> {tag_trunc, tag_zext, tag_zfit}"
  shows "\<exists>d. con_cast t c w = Ret d \<and> uint (con_value d) = uint (con_value c) mod 2 ^ w \<and>
    con_ty d = con_ty c \<and> con_bw d = con_bw c \<and>
    (w = con_bw c \<or> list_all (\<lambda>s. con_bin s d (mk_con v con_bv w) = Fault ''assert'')
      (con_unsigned_tags @ con_signed_tags))"
proof -
  have "con_cast t c w = Ret (mk_con (and (con_value c) (mask w)) (con_ty c) (con_bw c))"
    using assms by (auto simp: con_cast_def set_bw_def con_mask_eq)
  moreover have "uint (and (con_value c) (mask w)) = uint (con_value c) mod 2 ^ w"
    by (simp only: take_bit_eq_mask [symmetric] unsigned_take_bit_eq) (simp only: take_bit_eq_mod)
  ultimately show ?thesis
    by (auto simp: list_all_iff con_bin_widths)
qed

lemma store_frame:
  "store_bytes m p n v = Ret m' \<Longrightarrow> q < p \<or> p + n \<le> q \<Longrightarrow> m' q = m q"
  by (induction m p n v rule: store_bytes.induct) (auto split: option.splits)

lemma load_stored: "store_bytes m p n v = Ret m' \<Longrightarrow> load_bytes m' p n = Ret (v mod 256 ^ n)"
proof (induction m p n v rule: store_bytes.induct)
  case (1 m p v)
  then show ?case by simp
next
  case (2 m p n v)
  then obtain b where b: "m p = Some b"
    and st: "store_bytes (m(p \<mapsto> word_of_int v)) (Suc p) n (v div 256) = Ret m'"
    by (auto split: option.splits)
  have "m' p = Some (word_of_int v)" using store_frame [OF st, of p] by simp
  moreover have "load_bytes m' (Suc p) n = Ret (v div 256 mod 256 ^ n)"
    by (rule "2.IH" [OF b st])
  ultimately show ?case
    by (simp add: uint_word_of_int zmod_zmult2_eq)
qed

text \<open>
  A constant stored through a constant pointer is loaded back: reading the same pointer at the
  same width gives the value modulo two to the width, and a bit vector of that width; the bytes
  outside the stored range are not touched. A store to memory that is not mapped has no result.
\<close>

theorem constant_store_load:
  assumes "bw \<in> {8, 16, 32, 64}" "con_store m p v bw = Ret m'"
  shows "con_load m' p bw = Ret (mk_con (take_bit bw (con_value v)) con_bv bw) \<and>
    m' |` (- {con_pointer p ..< con_pointer p + bw div 8}) = m |` (- {con_pointer p ..< con_pointer p + bw div 8})"
proof -
  have w: "bw \<noteq> 1" "bw \<in> {1, 8, 16, 32, 64}" "width_bytes bw = bw div 8" "(256::int) ^ (bw div 8) = 2 ^ bw"
    using assms(1) by (auto simp: width_bytes_def)
  have st: "store_bytes m (con_pointer p) (bw div 8) (uint (con_value v) mod 2 ^ bw) = Ret m'"
    using assms(2) w by (simp add: con_store_def callu_def number_call_defined number_cast_def)
  then have "load_bytes m' (con_pointer p) (bw div 8) = Ret (uint (con_value v) mod 2 ^ bw)"
    using load_stored [OF st] w(4) by simp
  then have "con_load m' p bw = Ret (mk_con (word_of_int (uint (con_value v) mod 2 ^ bw)) con_bv bw)"
    using w by (auto simp: con_load_def)
  moreover have "(word_of_int (uint (con_value v) mod 2 ^ bw) :: 64 word) = take_bit bw (con_value v)"
    by (rule bit_word_eqI) (simp add: take_bit_eq_mod [symmetric] bit_simps)
  ultimately show ?thesis using store_frame [OF st] by (auto simp: restrict_map_def fun_eq_iff)
qed

lemma c_arith_no_fault [simp]: "c_arith s w v \<noteq> Fault msg" "c_shift s w g v \<noteq> Fault msg"
  by (simp_all add: c_arith_def c_shift_def)

lemma con_fun_no_fault: "con_fun t s w x y \<noteq> Fault msg"
  by (cases "c_arith s w (x sdiv y)") (auto simp: con_fun_def)

lemma con_bin_no_fault:
  fixes x y :: "'w::len word"
  assumes "machine_width LENGTH('w)" "x \<in> con_gamma a" "y \<in> con_gamma b"
    and "t \<in> set con_unsigned_tags \<union> set con_signed_tags"
  shows "con_bin t a b \<noteq> Fault msg"
proof -
  have omap_fault: "omap g m \<noteq> Fault msg" if "m \<noteq> Fault msg" for g and m :: "int outcome"
    using that by (cases m) auto
  show ?thesis
    using assms con_fun_no_fault
    by (auto simp: con_bin_def wtu_def wts_def with_type_def Let_def con_gamma_def number_call_def
        intro!: omap_fault split: if_splits)
qed

text \<open>
  C33: At the widths of the machine (8, 16, 32, 64), every binary operation the constant domain
  defines computes the word the program computes, and only that word: arithmetic wraps around,
  signed and unsigned comparisons and divisions read the operands as they should, and shifts below
  the width move the bits. The 16-bit multiplication, whose promoted product can overflow, is left
  out.
\<close>

theorem constant_forward_exact:
  fixes x y z :: "'w::len word"
  assumes "t \<in> con_ops LENGTH('w)" "x \<in> con_gamma a" "y \<in> con_gamma b" "con_word t x y = Some z"
  shows "\<exists>c. con_bin t a b = Ret c \<and> con_gamma c = {z}"
proof -
  have "osound (con_bin t a b) (\<lambda>c. z \<in> con_gamma c)"
    using cn.bin_sound [of t x a y b z] assms by (simp add: con_domain_def)
  moreover have "machine_width LENGTH('w)" "t \<in> set con_unsigned_tags \<union> set con_signed_tags"
    using assms(1) by (auto simp: con_ops_def split: if_splits)
  then have "con_bin t a b \<noteq> Fault msg" for msg
    using con_bin_no_fault assms(2,3) by blast
  ultimately show ?thesis
    by (cases "con_bin t a b") (auto simp: con_gamma_def)
qed

theorem constant_forward_exact_witness:
  "\<exists>c. con_bin tag_add (mk_con 200 con_bv 8) (mk_con 100 con_bv 8) = Ret c \<and>
    con_gamma c = {44 :: 8 word}"
  by (rule constant_forward_exact [of _ "200 :: 8 word" _ 100])
    (simp_all add: con_ops_def machine_width_def con_unsigned_tags_def con_gamma_def con_word_def conc_word_def)

end
