(* ===== verification/Onion_Types.thy ===== *)
theory Onion_Types
  imports Lart_Prelude
begin

text \<open>
  The types of the data-flow analysis of the compiler: \<open>lartcc/include/cc/tristate.hpp\<close> and the
  layers and onions of \<open>lartcc/include/cc/dfa.hpp\<close>. An onion has one layer for each level of
  pointers of an LLVM type, the innermost (the scalar) at the front; a layer says whether the
  level is a pointer and whether it is abstract.
\<close>

section \<open>The three values of the compiler\<close>

datatype lts = lts_no | lts_yes | lts_maybe

definition lts_of_bool :: "bool \<Rightarrow> lts" where
  "lts_of_bool v = (if v then lts_yes else lts_no)"

definition lts_to_bool :: "lts \<Rightarrow> bool" where
  "lts_to_bool t \<longleftrightarrow> t \<noteq> lts_no"

definition lts_join :: "lts \<Rightarrow> lts \<Rightarrow> lts" where
  "lts_join a b = (if a = b then a else lts_maybe)"

lemma lts_join_assoc: "lts_join (lts_join a b) c = lts_join a (lts_join b c)"
  by (auto simp: lts_join_def)

lemma lts_join_comm: "lts_join a b = lts_join b a"
  by (simp add: lts_join_def)

lemma lts_join_left_comm: "lts_join a (lts_join b c) = lts_join b (lts_join a c)"
  by (auto simp: lts_join_def)

lemmas lts_join_ac = lts_join_assoc lts_join_comm lts_join_left_comm

lemma lts_join_simps [simp]:
  "lts_join a a = a" "lts_join lts_maybe a = lts_maybe" "lts_join a lts_maybe = lts_maybe"
  by (auto simp: lts_join_def)

section \<open>Layers\<close>

record type_layer =
  layer_pointer :: lts
  layer_abstract :: lts

definition layer_of_bools :: "bool \<Rightarrow> bool \<Rightarrow> type_layer" where
  "layer_of_bools p a = \<lparr>layer_pointer = lts_of_bool p, layer_abstract = lts_of_bool a\<rparr>"

definition layer_join :: "type_layer \<Rightarrow> type_layer \<Rightarrow> type_layer" where
  "layer_join a b = \<lparr>layer_pointer = lts_join (layer_pointer a) (layer_pointer b),
                     layer_abstract = lts_join (layer_abstract a) (layer_abstract b)\<rparr>"

lemma layer_join_assoc: "layer_join (layer_join a b) c = layer_join a (layer_join b c)"
  by (simp add: layer_join_def lts_join_assoc)

lemma layer_join_comm: "layer_join a b = layer_join b a"
  by (simp add: layer_join_def lts_join_comm)

lemma layer_join_idem [simp]: "layer_join a a = a"
  by (simp add: layer_join_def)

lemma layer_join_left_comm: "layer_join a (layer_join b c) = layer_join b (layer_join a c)"
  by (metis layer_join_assoc layer_join_comm)

lemma layer_join_left_idem [simp]: "layer_join a (layer_join a b) = layer_join a b"
  by (metis layer_join_assoc layer_join_idem)

lemmas layer_join_ac = layer_join_assoc layer_join_comm layer_join_left_comm

section \<open>Onions\<close>

type_synonym type_onion = "type_layer list"

definition onion_new :: "nat \<Rightarrow> type_onion" where
  "onion_new ptr_nest = (replicate (ptr_nest + 1) (layer_of_bools True False))[0 := layer_of_bools False False]"

definition make_abstract :: "type_onion \<Rightarrow> type_onion" where
  "make_abstract t = t[length t - 1 := (last t)\<lparr>layer_abstract := lts_of_bool True\<rparr>]"

definition make_pointer :: "type_onion \<Rightarrow> type_onion" where
  "make_pointer t = t[length t - 1 := (last t)\<lparr>layer_pointer := lts_of_bool True\<rparr>]"

definition make_abstract_pointer :: "type_onion \<Rightarrow> type_onion" where
  "make_abstract_pointer t =
    (let on = make_pointer (make_abstract t) in
     on[0 := (hd on)\<lparr>layer_abstract := lts_maybe, layer_pointer := lts_maybe\<rparr>])"

definition maybe_abstract :: "type_onion \<Rightarrow> bool" where
  "maybe_abstract t \<longleftrightarrow> fold (\<lambda>a r. lts_join r (layer_abstract a)) t (lts_of_bool False) \<noteq> lts_no"

definition maybe_pointer :: "type_onion \<Rightarrow> bool" where
  "maybe_pointer t \<longleftrightarrow> fold (\<lambda>a r. lts_join r (layer_pointer a)) t (lts_of_bool False) \<noteq> lts_no"

definition wrap :: "type_onion \<Rightarrow> type_onion" where
  "wrap t = t @ [layer_of_bools True False]"

definition peel :: "type_onion \<Rightarrow> type_onion outcome" where
  "peel t =
    (if length t = 1 then Ret (t[0 := (hd t)\<lparr>layer_pointer := lts_maybe\<rparr>])
     else if layer_pointer (last t) = lts_of_bool False then Fault ''assert''
     else Ret (butlast t))"

text \<open>
  The join takes the number of layers of the shorter onion. The surplus of the longer one, from its
  front, is joined into the front of the shorter one.
\<close>

definition onion_join :: "type_onion \<Rightarrow> type_onion \<Rightarrow> type_onion" where
  "onion_join a0 b0 =
    (let (a, b) = (if length a0 > length b0 then (b0, a0) else (a0, b0));
         d = length b - length a;
         a1 = (if length a < length b
               then a[0 := (fold (\<lambda>i acc. layer_join acc (b ! i)) [0..<d] (hd a))
                             \<lparr>layer_pointer := lts_maybe\<rparr>]
               else a)
     in map (\<lambda>i. layer_join (a1 ! i) (b ! (i + d))) [0..<length a])"

definition is_abstract :: "type_onion \<Rightarrow> bool" where
  "is_abstract t \<longleftrightarrow> lts_to_bool (layer_abstract (last t))"

definition is_abstract_pointer :: "type_onion \<Rightarrow> bool" where
  "is_abstract_pointer t \<longleftrightarrow> lts_to_bool (layer_pointer (last t)) \<and> is_abstract t"

section \<open>The join as a recursion from the outermost layer\<close>

definition crush :: "type_layer \<Rightarrow> type_layer list \<Rightarrow> type_layer" where
  "crush x ys = (fold layer_join ys x)\<lparr>layer_pointer := lts_maybe\<rparr>"

fun rev_join :: "type_layer list \<Rightarrow> type_layer list \<Rightarrow> type_layer list" where
  "rev_join [] ys = []"
| "rev_join xs [] = []"
| "rev_join [x] [y] = [layer_join x y]"
| "rev_join [x] ys = [crush x ys]"
| "rev_join xs [y] = [crush y xs]"
| "rev_join (x # xs) (y # ys) = layer_join x y # rev_join xs ys"

lemma fold_layer_join: "fold layer_join ys (layer_join x z) = layer_join x (fold layer_join ys z)"
proof (induction ys arbitrary: z)
  case (Cons y ys)
  then show ?case by (simp add: layer_join_left_comm [of y x])
qed simp

lemma onion_join_le:
  assumes "length a \<le> length b"
  shows "onion_join a b =
    (let d = length b - length a in
     map2 layer_join
       (if d = 0 then a else a[0 := (fold layer_join (take d b) (hd a))\<lparr>layer_pointer := lts_maybe\<rparr>])
       (drop d b))"
proof -
  have take_eq: "take d b = map (\<lambda>i. b ! i) [0..<d]" if "d \<le> length b" for d
    using that by (intro nth_equalityI) auto
  have "fold (\<lambda>i acc. layer_join acc (b ! i)) [0..<d] x = fold layer_join (take d b) x"
    if "d \<le> length b" for d x
  proof -
    have "(\<lambda>i acc. layer_join acc (b ! i)) = layer_join \<circ> (\<lambda>i. b ! i)"
      by (simp add: fun_eq_iff layer_join_comm)
    then show ?thesis by (simp add: take_eq [OF that] fold_map)
  qed
  then show ?thesis
    using assms by (intro nth_equalityI) (auto simp: onion_join_def Let_def add.commute)
qed

lemma onion_join_comm: "onion_join a b = onion_join b a"
proof (cases "length a = length b")
  case True
  then show ?thesis
    by (intro nth_equalityI) (auto simp: onion_join_le Let_def layer_join_comm)
next
  case False
  then show ?thesis by (auto simp: onion_join_def)
qed

lemma map2_snoc:
  "length xs = length ys \<Longrightarrow> map2 f (xs @ [x]) (ys @ [y]) = map2 f xs ys @ [f x y]"
  by simp

lemma onion_join_snoc:
  assumes "a \<noteq> []" "b \<noteq> []"
  shows "onion_join (a @ [x]) (b @ [y]) = onion_join a b @ [layer_join x y]"
proof -
  have *: "onion_join (a @ [x]) (b @ [y]) = onion_join a b @ [layer_join x y]"
    if "length a \<le> length b" "a \<noteq> []" for a b x y
    using that by (simp add: onion_join_le Let_def list_update_append map2_snoc)
  show ?thesis
    using * [of a b x y] * [of b a y x] assms onion_join_comm layer_join_comm
    by (metis nat_le_linear)
qed

lemma fold_layer_join_rev: "fold layer_join (rev ys) x = fold layer_join ys x"
proof (induction ys arbitrary: x)
  case (Cons y ys)
  then show ?case by (simp add: fold_layer_join)
qed simp

lemma onion_join_single:
  "b \<noteq> [] \<Longrightarrow> onion_join [x] b = [if length b = 1 then layer_join x (hd b) else crush x (rev b)]"
proof -
  assume b: "b \<noteq> []"
  then obtain c y where c: "b = c @ [y]" by (cases b rule: rev_cases) auto
  show ?thesis
  proof (cases "c = []")
    case True
    then show ?thesis by (simp add: c onion_join_le)
  next
    case False
    have "layer_join (z\<lparr>layer_pointer := lts_maybe\<rparr>) y = (layer_join y z)\<lparr>layer_pointer := lts_maybe\<rparr>" for z
      by (simp add: layer_join_def lts_join_comm)
    with False show ?thesis
      by (simp add: c onion_join_le crush_def fold_layer_join_rev fold_layer_join)
  qed
qed

lemma rev_join_len: "xs \<noteq> [] \<Longrightarrow> ys \<noteq> [] \<Longrightarrow> length (rev_join xs ys) = min (length xs) (length ys)"
  by (induction xs ys rule: rev_join.induct) auto

lemma onion_join_snoc2:
  "onion_join (a @ [v, x]) (b @ [w, y]) = onion_join (a @ [v]) (b @ [w]) @ [layer_join x y]"
  using onion_join_snoc [of "a @ [v]" "b @ [w]" x y] by simp

lemma onion_join_rev:
  "xs \<noteq> [] \<Longrightarrow> ys \<noteq> [] \<Longrightarrow> onion_join (rev xs) (rev ys) = rev (rev_join xs ys)"
proof (induction xs ys rule: rev_join.induct)
  case (5 x y v va)
  then show ?case by (subst onion_join_comm) (simp add: onion_join_single)
qed (simp_all add: onion_join_single onion_join_snoc2)

section \<open>The joins form a semilattice\<close>

lemma rev_join_comm: "xs \<noteq> [] \<Longrightarrow> ys \<noteq> [] \<Longrightarrow> rev_join xs ys = rev_join ys xs"
  by (metis onion_join_comm onion_join_rev rev_rev_ident)

lemma rev_join_idem: "rev_join xs xs = xs"
  by (induction xs) (simp, metis layer_join_idem rev_join.simps(3,6) list.exhaust)

abbreviation all_abstract :: "type_layer list \<Rightarrow> lts \<Rightarrow> lts" where
  "all_abstract ys a \<equiv> fold lts_join (map layer_abstract ys) a"

lemma all_abstract_join:
  "lts_join b (all_abstract ys a) = all_abstract ys (lts_join b a)"
  "lts_join (all_abstract ys a) b = all_abstract ys (lts_join b a)"
proof -
  show *: "lts_join b (all_abstract ys a) = all_abstract ys (lts_join b a)"
    by (induction ys arbitrary: a) (simp_all add: lts_join_left_comm)
  show "lts_join (all_abstract ys a) b = all_abstract ys (lts_join b a)"
    by (subst lts_join_comm) (rule *)
qed

lemma all_abstract_comm: "all_abstract xs (all_abstract ys a) = all_abstract ys (all_abstract xs a)"
proof (induction ys arbitrary: a)
  case (Cons y ys)
  then show ?case by simp (simp add: all_abstract_join(1) [symmetric])
qed simp

lemma all_abstract_cases: "all_abstract ys a = a \<or> all_abstract ys a = lts_maybe"
proof (induction ys arbitrary: a)
  case (Cons y ys)
  have "all_abstract ys lts_maybe = lts_maybe" using Cons.IH [of lts_maybe] by simp
  moreover have "lts_join (layer_abstract y) a = a \<or> lts_join (layer_abstract y) a = lts_maybe"
    by (simp add: lts_join_def)
  ultimately show ?case using Cons.IH [of a] by auto
qed simp

lemma all_abstract_maybe [simp]: "all_abstract ys lts_maybe = lts_maybe"
  using all_abstract_cases [of ys lts_maybe] by simp

lemma crush_eq:
  "crush x ys = \<lparr>layer_pointer = lts_maybe, layer_abstract = all_abstract ys (layer_abstract x)\<rparr>"
proof -
  have "layer_abstract (fold layer_join ys x) = all_abstract ys (layer_abstract x)"
    by (induction ys arbitrary: x) (simp_all add: layer_join_def)
  then show ?thesis by (simp add: crush_def)
qed

lemma all_abstract_rev_join:
  "xs \<noteq> [] \<Longrightarrow> ys \<noteq> [] \<Longrightarrow> all_abstract (rev_join xs ys) a = all_abstract ys (all_abstract xs a)"
  by (induction xs ys arbitrary: a rule: rev_join.induct)
    (simp_all add: crush_eq layer_join_def all_abstract_join lts_join_ac)

lemma crush_rev_join:
  "xs \<noteq> [] \<Longrightarrow> ys \<noteq> [] \<Longrightarrow> crush x (rev_join xs ys) = crush x (xs @ ys)"
  by (simp add: crush_eq all_abstract_rev_join)

lemma rev_join_Nil [simp]: "rev_join xs [] = []"
  by (cases xs) simp_all

lemma rev_join_single:
  "rev_join [x] (y # ys) = [if ys = [] then layer_join x y else crush x (y # ys)]"
  "rev_join (y # ys) [x] = [if ys = [] then layer_join x y else crush x (y # ys)]"
  by (cases ys; simp add: layer_join_comm)+

lemma rev_join_Cons:
  "xs \<noteq> [] \<Longrightarrow> ys \<noteq> [] \<Longrightarrow> rev_join (x # xs) (y # ys) = layer_join x y # rev_join xs ys"
  by (cases xs; cases ys) simp_all

lemma rev_join_eq_Nil [simp]: "rev_join xs ys = [] \<longleftrightarrow> xs = [] \<or> ys = []"
  by (induction xs ys rule: rev_join.induct) simp_all

lemma rev_join_assoc:
  "xs \<noteq> [] \<Longrightarrow> ys \<noteq> [] \<Longrightarrow> zs \<noteq> [] \<Longrightarrow>
    rev_join (rev_join xs ys) zs = rev_join xs (rev_join ys zs)"
proof (induction xs arbitrary: ys zs)
  case (Cons x xs)
  obtain y ys' z zs' where [simp]: "ys = y # ys'" "zs = z # zs'"
    using Cons.prems by (cases ys; cases zs) auto
  show ?case
  proof (cases "xs = [] \<or> ys' = [] \<or> zs' = []")
    case True
    then show ?thesis
      by (cases "xs = []"; cases "ys' = []"; cases "zs' = []")
        (simp_all add: rev_join_single rev_join_Cons crush_eq layer_join_def all_abstract_join
          all_abstract_rev_join all_abstract_comm lts_join_ac)
  next
    case False
    with Cons.IH show ?thesis by (simp add: rev_join_Cons layer_join_assoc)
  qed
qed simp

lemma onion_join_eq_Nil [simp]: "onion_join a b = [] \<longleftrightarrow> a = [] \<or> b = []"
  by (auto simp: onion_join_def Let_def)

lemma onion_join_by_rev:
  "a \<noteq> [] \<Longrightarrow> b \<noteq> [] \<Longrightarrow> onion_join a b = rev (rev_join (rev a) (rev b))"
  using onion_join_rev [of "rev a" "rev b"] by simp

lemma onion_join_assoc:
  "a \<noteq> [] \<Longrightarrow> b \<noteq> [] \<Longrightarrow> c \<noteq> [] \<Longrightarrow> onion_join (onion_join a b) c = onion_join a (onion_join b c)"
  by (simp add: onion_join_by_rev rev_join_assoc)

lemma onion_join_idem [simp]: "onion_join a a = a"
  by (cases "a = []") (simp_all add: onion_join_by_rev rev_join_idem)

lemma onion_join_absorb:
  "a \<noteq> [] \<Longrightarrow> b \<noteq> [] \<Longrightarrow> onion_join a (onion_join a b) = onion_join a b"
  by (metis onion_join_assoc onion_join_idem)

text \<open>The order of the semilattice: a greater type is less definite.\<close>

definition onion_le :: "type_onion \<Rightarrow> type_onion \<Rightarrow> bool" where
  "onion_le a b \<longleftrightarrow> onion_join a b = b"

lemma onion_le_refl [simp]: "onion_le a a"
  by (simp add: onion_le_def)

lemma onion_le_trans:
  "a \<noteq> [] \<Longrightarrow> b \<noteq> [] \<Longrightarrow> c \<noteq> [] \<Longrightarrow> onion_le a b \<Longrightarrow> onion_le b c \<Longrightarrow> onion_le a c"
  unfolding onion_le_def by (metis onion_join_assoc)

lemma onion_le_antisym: "onion_le a b \<Longrightarrow> onion_le b a \<Longrightarrow> a = b"
  unfolding onion_le_def by (metis onion_join_comm)

lemma onion_le_join:
  "a \<noteq> [] \<Longrightarrow> b \<noteq> [] \<Longrightarrow> onion_le a (onion_join a b)"
  "a \<noteq> [] \<Longrightarrow> b \<noteq> [] \<Longrightarrow> onion_le b (onion_join a b)"
  unfolding onion_le_def by (metis onion_join_absorb) (metis onion_join_absorb onion_join_comm)

lemma onion_join_least:
  "a \<noteq> [] \<Longrightarrow> b \<noteq> [] \<Longrightarrow> c \<noteq> [] \<Longrightarrow> onion_le a c \<Longrightarrow> onion_le b c \<Longrightarrow> onion_le (onion_join a b) c"
  unfolding onion_le_def by (metis onion_join_assoc)

section \<open>The height of the semilattice\<close>

text \<open>Every join that changes a type makes it lighter, in layers or in definite values.\<close>

definition layer_weight :: "type_layer \<Rightarrow> nat" where
  "layer_weight l = 2 + of_bool (layer_pointer l \<noteq> lts_maybe) + of_bool (layer_abstract l \<noteq> lts_maybe)"

definition onion_weight :: "type_onion \<Rightarrow> nat" where
  "onion_weight t = sum_list (map layer_weight t)"

lemma lts_join_changes: "lts_join a b = a \<or> lts_join a b = lts_maybe"
  by (simp add: lts_join_def)

lemma layer_weight_less:
  assumes "layer_pointer l = layer_pointer k \<or> layer_pointer l = lts_maybe"
    and "layer_abstract l = layer_abstract k \<or> layer_abstract l = lts_maybe"
  shows "l = k \<or> layer_weight l < layer_weight (k :: type_layer)"
  using assms by (cases l; cases k) (auto simp: layer_weight_def)

lemma layer_join_weight: "layer_join x y = x \<or> layer_weight (layer_join x y) < layer_weight x"
  by (rule layer_weight_less) (simp_all add: layer_join_def lts_join_changes)

lemma crush_weight: "crush x ys = x \<or> layer_weight (crush x ys) < layer_weight x"
  by (rule layer_weight_less) (use all_abstract_cases in \<open>auto simp: crush_eq\<close>)

lemma rev_join_weight:
  "xs \<noteq> [] \<Longrightarrow> ys \<noteq> [] \<Longrightarrow> rev_join xs ys = xs \<or>
    sum_list (map layer_weight (rev_join xs ys)) < sum_list (map layer_weight xs)"
proof (induction xs arbitrary: ys)
  case (Cons x xs)
  obtain y ys' where [simp]: "ys = y # ys'" using Cons.prems by (cases ys) auto
  consider "xs = []" | "xs \<noteq> []" "ys' = []" | "xs \<noteq> []" "ys' \<noteq> []" by blast
  then show ?case
  proof cases
    case 1
    then show ?thesis
      using layer_join_weight [of x y] crush_weight [of x ys] by (auto simp: rev_join_single)
  next
    case 2
    then obtain v vs where "xs = v # vs" by (cases xs) auto
    with 2 show ?thesis by (auto simp: rev_join_single crush_eq layer_weight_def)
  next
    case 3
    then show ?thesis
      using layer_join_weight [of x y] Cons.IH [of ys'] by (auto simp: rev_join_Cons)
  qed
qed simp

lemma onion_join_weight:
  assumes "a \<noteq> []" "b \<noteq> []"
  shows "onion_join a b = a \<or> onion_weight (onion_join a b) < onion_weight a"
  using rev_join_weight [of "rev a" "rev b"] assms
  by (auto simp: onion_join_by_rev onion_weight_def rev_map [symmetric] sum_list_rev)

section \<open>Wrapping and peeling keep the order\<close>

lemma onion_le_rev:
  "a \<noteq> [] \<Longrightarrow> b \<noteq> [] \<Longrightarrow> onion_le a b \<longleftrightarrow> rev_join (rev a) (rev b) = rev b"
  by (metis onion_le_def onion_join_by_rev rev_rev_ident)

lemma onion_le_length: "a \<noteq> [] \<Longrightarrow> b \<noteq> [] \<Longrightarrow> onion_le a b \<Longrightarrow> length b \<le> length a"
  by (metis length_rev min.cobounded1 onion_le_rev rev_is_Nil_conv rev_join_len)

lemma wrap_mono: "a \<noteq> [] \<Longrightarrow> b \<noteq> [] \<Longrightarrow> onion_le a b \<Longrightarrow> onion_le (wrap a) (wrap b)"
  by (simp add: onion_le_def wrap_def onion_join_snoc)

lemma rev_le_outer:
  assumes "rev_join (x # xs) (y # ys) = y # ys"
  shows "layer_join x y = y"
proof (cases "xs = [] \<or> ys = []")
  case True
  with assms show ?thesis
    by (cases "xs = []"; cases "ys = []"; cases y)
      (auto simp: rev_join_single crush_eq layer_join_def all_abstract_join(1) [symmetric] lts_join_def
        split: if_splits)
next
  case False
  with assms show ?thesis by (simp add: rev_join_Cons)
qed

lemma last_mono: "a \<noteq> [] \<Longrightarrow> b \<noteq> [] \<Longrightarrow> onion_le a b \<Longrightarrow> onion_le [last a] [last b]"
proof -
  assume ab: "a \<noteq> []" "b \<noteq> []" "onion_le a b"
  obtain a' x b' y where "a = a' @ [x]" "b = b' @ [y]"
    using ab(1,2) by (metis append_butlast_last_id)
  with ab(3) rev_le_outer [of x "rev a'" y "rev b'"] show ?thesis
    by (simp add: onion_le_rev)
qed

lemma crush_tail:
  assumes "crush y (x # xs) = y" shows "crush y xs = y"
  using assms all_abstract_cases [of xs "layer_abstract y"]
    all_abstract_join(1) [of "layer_abstract x" xs "layer_abstract y"]
  by (cases y) (auto simp: crush_eq lts_join_def split: if_splits)

text \<open>A type that can be peeled can still be peeled when it has become less definite.\<close>

lemma peel_mono:
  assumes "a \<noteq> []" "b \<noteq> []" "onion_le a b" "peel a = Ret a'"
  shows "\<exists>b'. peel b = Ret b' \<and> onion_le a' b'"
proof -
  obtain as x bs y where [simp]: "a = as @ [x]" "b = bs @ [y]"
    using assms(1,2) by (metis append_butlast_last_id)
  have le: "rev_join (x # rev as) (y # rev bs) = y # rev bs"
    using assms(3) by (simp add: onion_le_rev)
  have outer: "layer_join x y = y" by (rule rev_le_outer [OF le])
  have len: "length bs \<le> length as" using onion_le_length [OF assms(1-3)] by simp
  show ?thesis
  proof (cases "bs = []")
    case True
    then have b: "peel b = Ret [y\<lparr>layer_pointer := lts_maybe\<rparr>]" by (simp add: peel_def)
    show ?thesis
    proof (cases "as = []")
      case True
      with outer have "onion_le [x\<lparr>layer_pointer := lts_maybe\<rparr>] [y\<lparr>layer_pointer := lts_maybe\<rparr>]"
        by (cases x; cases y) (simp add: onion_le_def onion_join_le layer_join_def)
      with b True assms(4) show ?thesis by (auto simp: peel_def)
    next
      case False
      then have a': "a' = as" using assms(4) by (auto simp: peel_def split: if_splits)
      obtain z zs where z: "rev as = z # zs" using False by (metis list.exhaust rev_is_Nil_conv)
      have "crush y (x # rev as) = y"
        using le \<open>bs = []\<close> False by (simp add: rev_join_single)
      then have y: "crush y (rev as) = y" by (rule crush_tail)
      then have "y\<lparr>layer_pointer := lts_maybe\<rparr> = y" by (metis crush_eq type_layer.surjective
            type_layer.update_convs(1) type_layer.select_convs)
      moreover have "rev_join (rev as) [y] = [y]"
      proof (cases zs)
        case Nil
        with y z show ?thesis
          by (cases y) (auto simp: crush_eq layer_join_def lts_join_def split: if_splits)
      qed (use y z in \<open>simp add: rev_join_single\<close>)
      ultimately show ?thesis using b a' False by (simp add: onion_le_rev)
    qed
  next
    case False
    with len have "as \<noteq> []" by auto
    then have "layer_pointer x \<noteq> lts_of_bool False" and a': "a' = as"
      using assms(4) by (auto simp: peel_def split: if_splits)
    then have "layer_pointer y \<noteq> lts_of_bool False"
      using outer by (cases x; cases y) (auto simp: layer_join_def lts_join_def lts_of_bool_def split: if_splits)
    then have "peel b = Ret bs" using False by (simp add: peel_def)
    moreover have "rev_join (rev as) (rev bs) = rev bs"
      using le False \<open>as \<noteq> []\<close> by (simp add: rev_join_Cons)
    ultimately show ?thesis using a' False \<open>as \<noteq> []\<close> by (simp add: onion_le_rev)
  qed
qed

section \<open>Properties\<close>

text \<open>
  C30: The join of the types of the data-flow analysis, which loops over two vectors of different
  lengths and collapses the surplus layers, is a semilattice on the types with a layer:
  associative, commutative, idempotent, and the least upper bound of the order it induces.
\<close>

theorem onion_join_semilattice:
  assumes "a \<noteq> []" "b \<noteq> []" "c \<noteq> []"
  shows "onion_join (onion_join a b) c = onion_join a (onion_join b c) \<and>
    onion_join a b = onion_join b a \<and> onion_join a a = a \<and>
    (onion_le (onion_join a b) c = (onion_le a c \<and> onion_le b c))"
proof -
  have "onion_le a c \<and> onion_le b c" if "onion_le (onion_join a b) c"
    using onion_le_trans [of a "onion_join a b" c] onion_le_trans [of b "onion_join a b" c]
      onion_le_join [of a b] that assms by simp
  then show ?thesis
    using onion_join_assoc [OF assms] onion_join_comm [of a b] onion_join_idem [of a]
      onion_join_least [OF assms] by metis
qed

theorem onion_join_semilattice_witness:
  "onion_join (onion_join (onion_new 2) (make_abstract (onion_new 0))) (onion_new 1) =
      onion_join (onion_new 2) (onion_join (make_abstract (onion_new 0)) (onion_new 1)) \<and>
    onion_join (onion_new 2) (make_abstract (onion_new 0)) =
      onion_join (make_abstract (onion_new 0)) (onion_new 2) \<and>
    onion_join (onion_new 2) (onion_new 2) = onion_new 2 \<and>
    (onion_le (onion_join (onion_new 2) (make_abstract (onion_new 0))) (onion_new 1) =
      (onion_le (onion_new 2) (onion_new 1) \<and> onion_le (make_abstract (onion_new 0)) (onion_new 1)))"
  by (rule onion_join_semilattice) (simp_all add: onion_new_def make_abstract_def)

end
