(* ===== verification/Dataflow.thy ===== *)
theory Dataflow
  imports Onion_Types "HOL-Library.Sublist"
begin

text \<open>
  The data-flow analysis of the compiler, \<open>lartcc/dfa.cpp\<close> and \<open>lartcc/include/cc/dfa.hpp\<close>:
  which values of a module may be abstract. Types flow along the edges from the values the program
  marks as abstract, until nothing changes.

  The module is LLVM's and the alias analysis is SVF's: neither is part of the repository. A record
  gives what the analysis asks of them: the class of a value, its uses, the called function, the
  places a pointer may point to. The functions are taken as they are after \<open>preprocessor::run\<close>.
\<close>

section \<open>What the analysis sees of a module\<close>

text \<open>The class of a value is the first of the cases of \<open>llvmcase\<close> it falls under.\<close>

datatype value_class =
    v_argument | v_alloca | v_cmp | v_binop | v_gep | v_phi | v_cast | v_call | v_invoke
  | v_intrinsic | v_cexpr | v_global | v_load
  | v_store (stored: nat) (store_to: nat)
  | v_ret (returned: nat) (ret_from: nat)
  | v_function | v_branch | v_const_data | v_other_inst | v_other

datatype llvm_type = ty_pointer llvm_type | ty_other

record ir =
  ir_class :: "nat \<Rightarrow> value_class"
  ir_uses :: "nat \<Rightarrow> (nat \<times> nat) list"
  ir_type :: "nat \<Rightarrow> llvm_type"
  ir_return_type :: "nat \<Rightarrow> llvm_type"
  ir_called_operand :: "nat \<Rightarrow> nat"
  ir_called :: "nat \<Rightarrow> nat option"
  ir_name :: "nat \<Rightarrow> string"
  ir_function :: "string \<Rightarrow> nat option"
  ir_vararg :: "nat \<Rightarrow> bool"
  ir_args :: "nat \<Rightarrow> nat list"
  points_to :: "nat \<Rightarrow> nat list"

section \<open>The map of types\<close>

datatype abstract_kind = kind_scalar | kind_pointer

fun pointer_nesting :: "llvm_type \<Rightarrow> nat" where
  "pointer_nesting (ty_pointer t) = Suc (pointer_nesting t)"
| "pointer_nesting ty_other = 0"

type_synonym type_map = "nat \<Rightarrow> type_onion option"

definition default_type :: "ir \<Rightarrow> nat \<Rightarrow> type_onion" where
  "default_type m v =
    onion_new (pointer_nesting (if ir_class m v = v_function then ir_return_type m v else ir_type m v))"

definition tm_get :: "ir \<Rightarrow> nat \<Rightarrow> type_map \<Rightarrow> type_onion \<times> type_map" where
  "tm_get m v T =
    (case T v of Some t \<Rightarrow> (t, T)
     | None \<Rightarrow> let t = default_type m v in (t, T(v \<mapsto> t)))"

definition tm_add :: "ir \<Rightarrow> nat \<Rightarrow> abstract_kind \<Rightarrow> type_map \<Rightarrow> type_onion \<times> type_map" where
  "tm_add m v kind T =
    (let (onion, T1) = tm_get m v T;
         onion1 = (case kind of kind_scalar \<Rightarrow> make_abstract onion
                   | kind_pointer \<Rightarrow> make_abstract_pointer onion)
     in (onion1, T1(v \<mapsto> onion1)))"

section \<open>Edges\<close>

datatype edge_type = e_uniform | e_load | e_store

record edge =
  e_from :: nat
  e_to :: nat
  e_ty :: edge_type

definition unif_edge :: "nat \<Rightarrow> nat \<Rightarrow> edge" where
  "unif_edge l r = \<lparr>e_from = l, e_to = r, e_ty = e_uniform\<rparr>"

definition load_edge :: "nat \<Rightarrow> nat \<Rightarrow> edge" where
  "load_edge l r = \<lparr>e_from = l, e_to = r, e_ty = e_load\<rparr>"

definition store_edge :: "nat \<Rightarrow> nat \<Rightarrow> edge" where
  "store_edge l r = \<lparr>e_from = l, e_to = r, e_ty = e_store\<rparr>"

lemma edge_sel [simp]:
  "e_from (unif_edge l r) = l" "e_to (unif_edge l r) = r" "e_ty (unif_edge l r) = e_uniform"
  "e_from (load_edge l r) = l" "e_to (load_edge l r) = r" "e_ty (load_edge l r) = e_load"
  "e_from (store_edge l r) = l" "e_to (store_edge l r) = r" "e_ty (store_edge l r) = e_store"
  by (simp_all add: unif_edge_def load_edge_def store_edge_def)

fun ocollect :: "('a \<Rightarrow> 'b list outcome) \<Rightarrow> 'a list \<Rightarrow> 'b list outcome" where
  "ocollect f [] = Ret []"
| "ocollect f (x # xs) = obind (f x) (\<lambda>a. obind (ocollect f xs) (\<lambda>b. Ret (a @ b)))"

definition ignore_function :: "ir \<Rightarrow> nat \<Rightarrow> bool" where
  "ignore_function m fn \<longleftrightarrow> prefix ''__lamp'' (ir_name m fn)"

definition abstract_function :: "ir \<Rightarrow> nat \<Rightarrow> nat option" where
  "abstract_function m fn = ir_function m (''__lamp_fn_'' @ ir_name m fn)"

definition destinations :: "ir \<Rightarrow> nat \<Rightarrow> nat list outcome" where
  "destinations m call = (case ir_called m call of None \<Rightarrow> Fault ''assert'' | Some fn \<Rightarrow> Ret [fn])"

text \<open>
  An edge from \<open>lhs\<close> to its user \<open>rhs\<close>. A stored value flows to where the pointer may point; a
  returned value flows to the function. An instruction of another class is unreachable.
\<close>

definition induced_edges :: "ir \<Rightarrow> nat \<Rightarrow> nat \<Rightarrow> edge list outcome" where
  "induced_edges m lhs rhs =
    (case ir_class m rhs of
       v_argument \<Rightarrow> Ret [unif_edge lhs rhs]
     | v_alloca \<Rightarrow> Ret [unif_edge lhs rhs]
     | v_cmp \<Rightarrow> Ret [unif_edge lhs rhs]
     | v_binop \<Rightarrow> Ret [unif_edge lhs rhs]
     | v_gep \<Rightarrow> Ret [unif_edge lhs rhs]
     | v_phi \<Rightarrow> Ret [unif_edge lhs rhs]
     | v_cast \<Rightarrow> Ret [unif_edge lhs rhs]
     | v_call \<Rightarrow> Ret [unif_edge lhs rhs]
     | v_intrinsic \<Rightarrow> Ret [unif_edge lhs rhs]
     | v_invoke \<Rightarrow> Ret [unif_edge lhs rhs]
     | v_cexpr \<Rightarrow> Ret [unif_edge lhs rhs]
     | v_global \<Rightarrow> Ret [unif_edge lhs rhs]
     | v_load \<Rightarrow> Ret [load_edge lhs rhs]
     | v_store val ptr \<Rightarrow> Ret (if lhs = val then map (store_edge lhs) (points_to m ptr) else [])
     | v_ret val fn \<Rightarrow> if lhs = val then Ret [unif_edge val fn] else Fault ''assert''
     | v_function \<Rightarrow> Ret [unif_edge rhs lhs]
     | v_branch \<Rightarrow> Ret []
     | v_const_data \<Rightarrow> Ret []
     | v_other_inst \<Rightarrow> Undef
     | v_other \<Rightarrow> Undef)"

definition arguse :: "ir \<Rightarrow> nat \<Rightarrow> nat \<times> nat \<Rightarrow> edge list outcome" where
  "arguse m v use = (case use of (call, operand) \<Rightarrow>
    obind (destinations m call) (ocollect (\<lambda>fn.
      if ignore_function m fn then Ret []
      else if abstract_function m fn \<noteq> None then Undef
      else if ir_vararg m fn then Fault ''assert''
      else if operand < length (ir_args m fn) then induced_edges m v (ir_args m fn ! operand)
      else Fault ''assert'')))"

definition calluse :: "ir \<Rightarrow> nat \<Rightarrow> nat \<times> nat \<Rightarrow> edge list outcome" where
  "calluse m v use =
    (if v = ir_called_operand m (fst use) then induced_edges m v (fst use) else arguse m v use)"

definition forward :: "ir \<Rightarrow> nat \<Rightarrow> nat \<times> nat \<Rightarrow> edge list outcome" where
  "forward m v use =
    (case ir_class m (fst use) of
       v_intrinsic \<Rightarrow> Ret []
     | v_call \<Rightarrow> calluse m v use
     | v_invoke \<Rightarrow> calluse m v use
     | v_argument \<Rightarrow> Undef | v_function \<Rightarrow> Undef | v_const_data \<Rightarrow> Undef | v_other \<Rightarrow> Undef
     | _ \<Rightarrow> induced_edges m v (fst use))"

text \<open>A value that is itself a store is pushed to where it stores before its uses are looked at.\<close>

definition own_stores :: "ir \<Rightarrow> nat \<Rightarrow> edge list" where
  "own_stores m v =
    (case ir_class m v of v_store val ptr \<Rightarrow> map (store_edge v) (points_to m ptr) | _ \<Rightarrow> [])"

definition out_edges :: "ir \<Rightarrow> nat \<Rightarrow> edge list outcome" where
  "out_edges m v = ocollect (forward m v) (ir_uses m v)"

section \<open>The worklist\<close>

record dfa =
  worklist :: "edge list"
  types :: type_map

definition push_value :: "ir \<Rightarrow> nat \<Rightarrow> dfa \<Rightarrow> dfa outcome" where
  "push_value m v s =
    (if ir_class m v = v_const_data then Ret s
     else omap (\<lambda>es. s\<lparr>worklist := worklist s @ own_stores m v @ es\<rparr>) (out_edges m v))"

definition push_change :: "ir \<Rightarrow> nat \<Rightarrow> type_onion \<Rightarrow> dfa \<Rightarrow> dfa outcome" where
  "push_change m v t s =
    (let (old, T) = tm_get m v (types s) in
     if old \<noteq> t then push_value m v (s\<lparr>types := T(v \<mapsto> t)\<rparr>) else Ret (s\<lparr>types := T\<rparr>))"

definition process :: "ir \<Rightarrow> edge \<Rightarrow> dfa \<Rightarrow> dfa outcome" where
  "process m e s =
    (let (to, T1) = tm_get m (e_to e) (types s);
         (from, T2) = tm_get m (e_from e) T1;
         joined =
           (case e_ty e of
              e_uniform \<Rightarrow> if ir_class m (e_to e) = v_cmp
                then Ret [layer_join (last to) (last from)] else Ret (onion_join to from)
            | e_load \<Rightarrow> omap (onion_join to) (peel from)
            | e_store \<Rightarrow> Ret (onion_join to (wrap from)))
     in obind joined (\<lambda>t. push_change m (e_to e) t (s\<lparr>types := T2\<rparr>)))"

partial_function (option) dfa_loop :: "ir \<Rightarrow> dfa \<Rightarrow> dfa outcome option" where
  "dfa_loop m s =
    (case worklist s of
       [] \<Rightarrow> Some (Ret s)
     | e # rest \<Rightarrow>
         (case process m e (s\<lparr>worklist := rest\<rparr>) of
            Ret s' \<Rightarrow> dfa_loop m s'
          | Cancel \<Rightarrow> Some Cancel | Fault msg \<Rightarrow> Some (Fault msg) | Undef \<Rightarrow> Some Undef))"

fun add_roots :: "ir \<Rightarrow> (nat \<times> abstract_kind) list \<Rightarrow> dfa \<Rightarrow> dfa outcome" where
  "add_roots m [] s = Ret s"
| "add_roots m ((call, kind) # roots) s =
    obind (push_value m call (s\<lparr>types := snd (tm_add m call kind (types s))\<rparr>)) (add_roots m roots)"

definition run_from :: "ir \<Rightarrow> (nat \<times> abstract_kind) list \<Rightarrow> type_map outcome option" where
  "run_from m roots =
    (case add_roots m roots \<lparr>worklist = [], types = (\<lambda>_. None)\<rparr> of
       Ret s \<Rightarrow> map_option (omap types) (dfa_loop m s)
     | Cancel \<Rightarrow> Some Cancel | Fault msg \<Rightarrow> Some (Fault msg) | Undef \<Rightarrow> Some Undef)"

section \<open>Types with their defaults\<close>

definition view :: "ir \<Rightarrow> type_map \<Rightarrow> nat \<Rightarrow> type_onion" where
  "view m T v = (case T v of Some t \<Rightarrow> t | None \<Rightarrow> default_type m v)"

lemma view_get [simp]:
  "fst (tm_get m v T) = view m T v" "view m (snd (tm_get m v T)) = view m T"
  by (auto simp: tm_get_def view_def fun_eq_iff Let_def split: option.splits)

lemma view_upd [simp]: "view m (T(v \<mapsto> t)) = (view m T)(v := t)"
  by (auto simp: view_def)

lemma onion_new_facts [simp]: "onion_new n \<noteq> []" "length (onion_new n) = Suc n"
  by (simp_all add: onion_new_def)

lemma default_type_ne [simp]: "default_type m v \<noteq> []"
  by (simp add: default_type_def)

text \<open>What an edge carries, and the type it makes of the type of its target.\<close>

definition flow :: "ir \<Rightarrow> (nat \<Rightarrow> type_onion) \<Rightarrow> edge \<Rightarrow> type_onion outcome" where
  "flow m W e =
    (case e_ty e of
       e_uniform \<Rightarrow> Ret (if ir_class m (e_to e) = v_cmp then [last (W (e_from e))] else W (e_from e))
     | e_load \<Rightarrow> peel (W (e_from e))
     | e_store \<Rightarrow> Ret (wrap (W (e_from e))))"

text \<open>
  What the analysis relies on about LLVM: comparisons have no pointer type, and the arguments of a
  function are arguments.
\<close>

definition llvm_rules :: "ir \<Rightarrow> bool" where
  "llvm_rules m \<longleftrightarrow>
    (\<forall>v. ir_class m v = v_cmp \<longrightarrow> pointer_nesting (ir_type m v) = 0) \<and>
    (\<forall>fn. \<forall>a \<in> set (ir_args m fn). ir_class m a = v_argument)"

definition types_ok :: "ir \<Rightarrow> (nat \<Rightarrow> type_onion) \<Rightarrow> bool" where
  "types_ok m W \<longleftrightarrow> (\<forall>v. W v \<noteq> [] \<and> length (W v) \<le> length (default_type m v))"

lemma types_okD: "types_ok m W \<Longrightarrow> W v \<noteq> []"
  by (simp add: types_ok_def)

lemma cmp_single:
  assumes "llvm_rules m" "types_ok m W" "ir_class m v = v_cmp"
  shows "W v = [last (W v)]"
proof -
  have "default_type m v = onion_new 0"
    using assms(1,3) by (simp add: default_type_def llvm_rules_def)
  then have "length (W v) \<le> 1"
    using assms(2) unfolding types_ok_def by (metis One_nat_def onion_new_facts(2))
  with types_okD [OF assms(2), of v] show ?thesis
    by (cases "W v") auto
qed

lemma flow_ne:
  assumes "types_ok m W" "flow m W e = Ret t" shows "t \<noteq> []"
proof (cases "e_ty e")
  case e_load
  have "W (e_from e) \<noteq> []" by (rule types_okD [OF assms(1)])
  with e_load assms(2) show ?thesis
    by (cases "W (e_from e)" rule: rev_cases)
      (auto simp: flow_def peel_def split: if_splits)
qed (use assms types_okD in \<open>auto simp: flow_def wrap_def split: if_splits\<close>)

lemma process_flow:
  assumes "llvm_rules m" "types_ok m (view m (types s))"
  shows "process m e s =
    obind (flow m (view m (types s)) e)
      (\<lambda>t. push_change m (e_to e) (onion_join (view m (types s) (e_to e)) t)
        (s\<lparr>types := snd (tm_get m (e_from e) (snd (tm_get m (e_to e) (types s))))\<rparr>))"
proof -
  let ?W = "view m (types s)"
  have "onion_join (?W v) [y] = [layer_join (last (?W v)) y]" if "ir_class m v = v_cmp" for v y
    using arg_cong [OF cmp_single [OF assms that], of "\<lambda>w. onion_join w [y]"] by (simp add: onion_join_le)
  then show ?thesis
    by (auto simp: process_def flow_def Let_def split_beta omap_obind obind_assoc split: edge_type.splits)
qed

section \<open>Pushing a value\<close>

definition pushable :: "ir \<Rightarrow> nat \<Rightarrow> bool" where
  "pushable m v \<longleftrightarrow> ir_class m v = v_const_data \<or> (\<exists>es. out_edges m v = Ret es)"

definition edges_of :: "ir \<Rightarrow> nat \<Rightarrow> edge list" where
  "edges_of m v =
    (if ir_class m v = v_const_data then []
     else own_stores m v @ (case out_edges m v of Ret es \<Rightarrow> es | _ \<Rightarrow> []))"

lemma push_value_Ret:
  "push_value m v s = Ret s' \<longleftrightarrow> pushable m v \<and> s' = s\<lparr>worklist := worklist s @ edges_of m v\<rparr>"
  by (cases "out_edges m v") (auto simp: push_value_def pushable_def edges_of_def)

lemma ocollect_Ret:
  "ocollect f xs = Ret ys \<Longrightarrow> y \<in> set ys \<Longrightarrow> \<exists>x \<in> set xs. \<exists>zs. f x = Ret zs \<and> y \<in> set zs"
  by (induction xs arbitrary: ys) (auto simp: obind_eq_Ret)

lemma induced_from:
  "ir_class m r \<noteq> v_function \<Longrightarrow> induced_edges m l r = Ret es \<Longrightarrow> e \<in> set es \<Longrightarrow> e_from e = l"
  by (auto simp: induced_edges_def split: value_class.splits if_splits)

lemma forward_from:
  assumes "llvm_rules m" "forward m v use = Ret es" "e \<in> set es"
  shows "e_from e = v"
proof -
  have args: "ir_class m (ir_args m fn ! i) \<noteq> v_function" if "i < length (ir_args m fn)" for fn i
    using assms(1) nth_mem [OF that] by (auto simp: llvm_rules_def)
  have arg: "e_from e = v" if "arguse m v use = Ret es"
    using that assms(3)
    by (auto simp: arguse_def obind_eq_Ret split_beta dest!: ocollect_Ret split: if_splits
        intro: induced_from [OF args])
  have "e_from e = v" if "calluse m v use = Ret es" "ir_class m (fst use) \<noteq> v_function"
    using that arg assms(3) by (auto simp: calluse_def split: if_splits intro: induced_from)
  moreover have "e_from e = v"
    if "induced_edges m v (fst use) = Ret es" "ir_class m (fst use) \<noteq> v_function"
    by (rule induced_from [OF that(2,1) assms(3)])
  ultimately show ?thesis
    using assms(2,3) by (cases "ir_class m (fst use)") (auto simp: forward_def)
qed

lemma edges_of_from:
  assumes "llvm_rules m" "e \<in> set (edges_of m v)"
  shows "e_from e = v"
proof -
  have "e_from e = v" if es: "out_edges m v = Ret es" "e \<in> set es" for es
  proof -
    obtain use zs where "forward m v use = Ret zs" "e \<in> set zs"
      using ocollect_Ret [OF es(1) [unfolded out_edges_def] es(2)] by blast
    then show ?thesis by (rule forward_from [OF assms(1)])
  qed
  moreover have "e_from e = v" if "e \<in> set (own_stores m v)"
    using that by (auto simp: own_stores_def split: value_class.splits)
  ultimately show ?thesis
    using assms(2) by (cases "out_edges m v") (auto simp: edges_of_def split: if_splits)
qed

section \<open>One step of the loop\<close>

lemma process_effect:
  assumes "llvm_rules m" "types_ok m (view m (types s))" "process m e s = Ret s'"
  defines "W \<equiv> view m (types s)"
  shows "\<exists>t. flow m W e = Ret t \<and>
    view m (types s') = W(e_to e := onion_join (W (e_to e)) t) \<and>
    (if onion_join (W (e_to e)) t = W (e_to e) then worklist s' = worklist s
     else pushable m (e_to e) \<and> worklist s' = worklist s @ edges_of m (e_to e))"
proof -
  obtain t where t: "flow m W e = Ret t"
    and p: "push_change m (e_to e) (onion_join (W (e_to e)) t)
        (s\<lparr>types := snd (tm_get m (e_from e) (snd (tm_get m (e_to e) (types s))))\<rparr>) = Ret s'"
    using assms(3) process_flow [OF assms(1,2), of e] by (auto simp: obind_eq_Ret W_def)
  have "view m (types s') = W(e_to e := onion_join (W (e_to e)) t) \<and>
    (if onion_join (W (e_to e)) t = W (e_to e) then worklist s' = worklist s
     else pushable m (e_to e) \<and> worklist s' = worklist s @ edges_of m (e_to e))"
    using p by (auto simp: push_change_def Let_def split_beta push_value_Ret W_def fun_eq_iff
        split: if_splits)
  with t show ?thesis by blast
qed

lemma join_types_ok:
  assumes "types_ok m W" "flow m W e = Ret t"
  shows "types_ok m (W(e_to e := onion_join (W (e_to e)) t))"
proof -
  note ne = types_okD [OF assms(1)] flow_ne [OF assms]
  have "length (onion_join (W (e_to e)) t) \<le> length (W (e_to e))"
    by (rule onion_le_length [OF _ _ onion_le_join(1)]) (use ne in simp_all)
  then show ?thesis
    using assms(1) ne unfolding types_ok_def by (auto intro: le_trans)
qed

section \<open>The loop ends\<close>

text \<open>A finite set of values that the edges of its members do not leave.\<close>

definition closed_values :: "ir \<Rightarrow> nat set \<Rightarrow> bool" where
  "closed_values m V \<longleftrightarrow> finite V \<and> (\<forall>v \<in> V. \<forall>e \<in> set (edges_of m v). e_to e \<in> V)"

lemma weight_sum_less:
  fixes f g :: "nat \<Rightarrow> nat"
  assumes "finite V" "a \<in> V" "g a < f a" "\<And>v. v \<noteq> a \<Longrightarrow> g v = f v"
  shows "sum g V < sum f V"
proof (rule sum_strict_mono_ex1)
  show "\<forall>v \<in> V. g v \<le> f v" using assms(3,4) by (metis less_imp_le order_refl)
qed (use assms in auto)

definition total_weight :: "ir \<Rightarrow> nat set \<Rightarrow> dfa \<Rightarrow> nat" where
  "total_weight m V s = sum (\<lambda>v. onion_weight (view m (types s) v)) V"

lemma dfa_loop_ends:
  assumes "llvm_rules m" "closed_values m V"
  shows "types_ok m (view m (types s)) \<Longrightarrow> \<forall>e \<in> set (worklist s). e_to e \<in> V \<Longrightarrow>
    \<exists>r. dfa_loop m s = Some r"
proof (induction s rule: wf_induct_rule [OF wf_measures [of
      "[total_weight m V, \<lambda>s. length (worklist s)]"]])
  case (1 s)
  show ?case
  proof (cases "worklist s")
    case Nil
    then show ?thesis by (subst dfa_loop.simps) simp
  next
    case (Cons e rest)
    let ?s = "s\<lparr>worklist := rest\<rparr>" and ?W = "view m (types s)"
    show ?thesis
    proof (cases "process m e ?s")
      case (Ret s')
      obtain t where t: "flow m ?W e = Ret t"
        and view': "view m (types s') = ?W(e_to e := onion_join (?W (e_to e)) t)"
        and wl: "if onion_join (?W (e_to e)) t = ?W (e_to e) then worklist s' = rest
          else worklist s' = rest @ edges_of m (e_to e)"
        using process_effect [OF assms(1) _ Ret] 1(2) by (auto split: if_splits)
      have to: "e_to e \<in> V" using 1(3) Cons by simp
      have ok: "types_ok m (view m (types s'))"
        unfolding view' by (rule join_types_ok [OF 1(2) t])
      have less: "(s', s) \<in> measures [total_weight m V, \<lambda>s. length (worklist s)]"
      proof (cases "onion_join (?W (e_to e)) t = ?W (e_to e)")
        case True
        then have "view m (types s') = ?W" using view' by simp
        with True wl Cons show ?thesis by (simp add: total_weight_def)
      next
        case False
        then have "onion_weight (onion_join (?W (e_to e)) t) < onion_weight (?W (e_to e))"
          using onion_join_weight types_okD [OF 1(2)] flow_ne [OF 1(2) t] by blast
        then show ?thesis
          using assms(2) to by (simp add: total_weight_def view' closed_values_def weight_sum_less)
      qed
      have "\<forall>e \<in> set (worklist s'). e_to e \<in> V"
        using wl 1(3) Cons to assms(2) by (auto simp: closed_values_def split: if_splits)
      with 1(1) [OF less ok] Ret Cons show ?thesis by (subst dfa_loop.simps) simp
    qed (use Cons in \<open>subst dfa_loop.simps, simp\<close>)+
  qed
qed

section \<open>What the loop finds\<close>

text \<open>
  A solution assigns a type to every value, above the types it starts from; every edge of a root
  or of a value whose type is not the default one is satisfied: what flows along it is below the
  type of its target.
\<close>

definition active :: "ir \<Rightarrow> nat set \<Rightarrow> (nat \<Rightarrow> type_onion) \<Rightarrow> nat \<Rightarrow> bool" where
  "active m R W v \<longleftrightarrow> v \<in> R \<or> W v \<noteq> default_type m v"

definition satisfied :: "ir \<Rightarrow> (nat \<Rightarrow> type_onion) \<Rightarrow> edge \<Rightarrow> bool" where
  "satisfied m W e \<longleftrightarrow> (\<exists>t. flow m W e = Ret t \<and> onion_le t (W (e_to e)))"

definition solution :: "ir \<Rightarrow> nat set \<Rightarrow> (nat \<Rightarrow> type_onion) \<Rightarrow> (nat \<Rightarrow> type_onion) \<Rightarrow> bool" where
  "solution m R start W \<longleftrightarrow>
    (\<forall>v. W v \<noteq> [] \<and> onion_le (start v) (W v)) \<and>
    (\<forall>v. active m R W v \<longrightarrow> pushable m v \<and> (\<forall>e \<in> set (edges_of m v). satisfied m W e))"

definition loop_inv :: "ir \<Rightarrow> nat set \<Rightarrow> (nat \<Rightarrow> type_onion) \<Rightarrow> dfa \<Rightarrow> bool" where
  "loop_inv m R start s \<longleftrightarrow>
    (let W = view m (types s) in
     types_ok m W \<and> (\<forall>v. onion_le (start v) (W v)) \<and>
     (\<forall>v. active m R W v \<longrightarrow> pushable m v \<and>
        (\<forall>e \<in> set (edges_of m v). e \<in> set (worklist s) \<or> satisfied m W e)))"

lemma flow_other: "e_from e \<noteq> v \<Longrightarrow> flow m (W(v := t)) e = flow m W e"
  by (cases "e_ty e") (simp_all add: flow_def)

lemma loop_inv_step:
  assumes rules: "llvm_rules m" and start: "\<And>v. start v \<noteq> []"
    and inv: "loop_inv m R start s" and wl: "worklist s = e # rest"
    and step: "process m e (s\<lparr>worklist := rest\<rparr>) = Ret s'"
  shows "loop_inv m R start s'"
proof -
  let ?W = "view m (types s)" and ?W' = "view m (types s')"
  have ok: "types_ok m ?W" and above: "\<And>v. onion_le (start v) (?W v)"
    and act: "\<And>v. active m R ?W v \<Longrightarrow> pushable m v"
    and sat: "\<And>v d. active m R ?W v \<Longrightarrow> d \<in> set (edges_of m v) \<Longrightarrow> d \<in> set (worklist s) \<or> satisfied m ?W d"
    using inv by (simp_all add: loop_inv_def Let_def)
  obtain t where t: "flow m ?W e = Ret t"
    and W': "?W' = ?W(e_to e := onion_join (?W (e_to e)) t)"
    and wl': "if onion_join (?W (e_to e)) t = ?W (e_to e) then worklist s' = rest
      else pushable m (e_to e) \<and> worklist s' = rest @ edges_of m (e_to e)"
    using process_effect [OF rules _ step] ok by auto
  have ok': "types_ok m ?W'" unfolding W' by (rule join_types_ok [OF ok t])
  note ne = types_okD [OF ok] types_okD [OF ok'] flow_ne [OF ok t]
  have grows: "onion_le (?W v) (?W' v)" for v
    unfolding W' using onion_le_join(1) ne by simp
  have e_done: "onion_le t (?W' (e_to e))" unfolding W' using onion_le_join(2) ne by simp
  have keep: "satisfied m ?W' d" if d: "satisfied m ?W d" "e_from d \<noteq> e_to e \<or> ?W' = ?W" for d
  proof -
    obtain u where u: "flow m ?W d = Ret u" "onion_le u (?W (e_to d))"
      using d(1) by (auto simp: satisfied_def)
    have "flow m ?W' d = Ret u" using d(2) u(1) by (auto simp: W' flow_other)
    moreover have "onion_le u (?W' (e_to d))"
      by (rule onion_le_trans [OF _ _ _ u(2) grows]) (use ne flow_ne [OF ok u(1)] in simp_all)
    ultimately show ?thesis by (simp add: satisfied_def)
  qed
  have main: "pushable m v \<and> (\<forall>d \<in> set (edges_of m v). d \<in> set (worklist s') \<or> satisfied m ?W' d)"
    if v: "active m R ?W' v" for v
  proof (cases "v = e_to e \<and> ?W' \<noteq> ?W")
    case True
    then show ?thesis using wl' by (auto simp: W' split: if_splits)
  next
    case False
    then have old: "active m R ?W v"
      using v by (cases "?W' = ?W") (simp, simp add: active_def W')
    have rest: "set rest \<subseteq> set (worklist s')" using wl' by (auto split: if_splits)
    have "d \<in> set (worklist s') \<or> satisfied m ?W' d" if d: "d \<in> set (edges_of m v)" for d
    proof -
      have src: "e_from d \<noteq> e_to e \<or> ?W' = ?W" using False d edges_of_from [OF rules] by auto
      consider "d = e" | "d \<in> set rest" | "satisfied m ?W d" using sat [OF old d] wl by auto
      then show ?thesis
      proof cases
        case 1
        then have "flow m ?W' d = Ret t" using src t by (auto simp: W' flow_other)
        with e_done 1 show ?thesis by (auto simp: satisfied_def)
      next
        case 2
        with rest show ?thesis by auto
      next
        case 3
        with keep src show ?thesis by simp
      qed
    qed
    with act [OF old] show ?thesis by blast
  qed
  show ?thesis
    unfolding loop_inv_def Let_def
    using ok' main onion_le_trans [OF start _ _ above grows] ne by blast
qed

lemma dfa_loop_invariant:
  assumes run: "dfa_loop m s = Some (Ret s')" and inv: "I s"
    and step: "\<And>s e rest s'. I s \<Longrightarrow> worklist s = e # rest \<Longrightarrow>
      process m e (s\<lparr>worklist := rest\<rparr>) = Ret s' \<Longrightarrow> I s'"
  shows "I s' \<and> worklist s' = []"
proof -
  have "(\<lambda>m' s r. m' = m \<longrightarrow> I s \<longrightarrow> (\<forall>s'. r = Ret s' \<longrightarrow> I s' \<and> worklist s' = [])) m s (Ret s')"
  proof (rule dfa_loop.raw_induct [where P = "\<lambda>m' s r. m' = m \<longrightarrow> I s \<longrightarrow>
      (\<forall>s'. r = Ret s' \<longrightarrow> I s' \<and> worklist s' = [])", OF _ run], intro impI allI, goal_cases)
    case (1 f m' s r s')
    show ?case
    proof (cases "worklist s")
      case Nil
      with 1(2,4,5) show ?thesis by simp
    next
      case (Cons e rest)
      show ?thesis
      proof (cases "process m e (s\<lparr>worklist := rest\<rparr>)")
        case (Ret s1)
        then have "f m' s1 = Some r" using 1(2,3) Cons by simp
        from 1(1) [OF this] step [OF 1(4) Cons Ret] 1(3,5) show ?thesis by simp
      qed (use 1(2,3,5) Cons in simp_all)
    qed
  qed
  with inv show ?thesis by simp
qed

text \<open>The flow along an edge is monotone where the analysis has not failed.\<close>

lemma flow_mono:
  assumes "\<And>v. W v \<noteq> []" "\<And>v. W' v \<noteq> []" "\<And>v. onion_le (W v) (W' v)" "flow m W e = Ret t"
  shows "\<exists>t'. flow m W' e = Ret t' \<and> onion_le t t'"
proof (cases "e_ty e")
  case e_load
  with assms(4) peel_mono [OF assms(1-3), of "e_from e"] show ?thesis by (simp add: flow_def)
next
  case e_uniform
  with assms last_mono [OF assms(1-3), of "e_from e"] show ?thesis by (auto simp: flow_def)
next
  case e_store
  with assms wrap_mono [OF assms(1-3), of "e_from e"] show ?thesis by (auto simp: flow_def)
qed

text \<open>The loop stays below every solution.\<close>

definition below_inv :: "ir \<Rightarrow> nat set \<Rightarrow> (nat \<Rightarrow> type_onion) \<Rightarrow> (nat \<Rightarrow> type_onion) \<Rightarrow> dfa \<Rightarrow> bool" where
  "below_inv m R start W' s \<longleftrightarrow>
    (let W = view m (types s) in
     types_ok m W \<and> (\<forall>v. onion_le (start v) (W v) \<and> onion_le (W v) (W' v)) \<and>
     (\<forall>e \<in> set (worklist s). \<exists>v. active m R W v \<and> e \<in> set (edges_of m v)))"

lemma below_inv_step:
  assumes rules: "llvm_rules m" and start: "\<And>v. start v \<noteq> []"
    "\<And>v. v \<notin> R \<Longrightarrow> start v = default_type m v"
    and sol: "solution m R start W'" and inv: "below_inv m R start W' s" and wl: "worklist s = e # rest"
    and step: "process m e (s\<lparr>worklist := rest\<rparr>) = Ret s'"
  shows "below_inv m R start W' s'"
proof -
  let ?W = "view m (types s)" and ?V = "view m (types s')"
  have ok: "types_ok m ?W" and le: "\<And>v. onion_le (start v) (?W v)" "\<And>v. onion_le (?W v) (W' v)"
    and from_active: "\<And>d. d \<in> set (worklist s) \<Longrightarrow> \<exists>v. active m R ?W v \<and> d \<in> set (edges_of m v)"
    using inv by (simp_all add: below_inv_def Let_def)
  obtain t where t: "flow m ?W e = Ret t"
    and V: "?V = ?W(e_to e := onion_join (?W (e_to e)) t)"
    and wl': "if onion_join (?W (e_to e)) t = ?W (e_to e) then worklist s' = rest
      else pushable m (e_to e) \<and> worklist s' = rest @ edges_of m (e_to e)"
    using process_effect [OF rules _ step] ok by auto
  have ok': "types_ok m ?V" unfolding V by (rule join_types_ok [OF ok t])
  have ne': "\<And>v. W' v \<noteq> []" using sol by (simp add: solution_def)
  note ne = types_okD [OF ok] types_okD [OF ok'] flow_ne [OF ok t] ne'
  have grows: "onion_le (?W v) (?V v)" for v
    unfolding V using onion_le_join(1) ne by simp
  have above: "onion_le (start v) (?V v)" for v
    by (rule onion_le_trans [OF start(1) _ _ le(1) grows]) (use ne in simp_all)
  have stays: "active m R ?V v" if "active m R ?W v" for v
    using that start(2) le(1) grows onion_le_antisym unfolding active_def by metis
  obtain v where v: "active m R ?W v" "e \<in> set (edges_of m v)" using from_active wl by auto
  have "active m R W' v"
    using v(1) start(2) le onion_le_antisym unfolding active_def by metis
  then have "satisfied m W' e" using sol v(2) unfolding solution_def by blast
  then obtain u where u: "flow m W' e = Ret u" "onion_le u (W' (e_to e))"
    unfolding satisfied_def by blast
  obtain t' where t': "flow m W' e = Ret t'" "onion_le t t'"
    using flow_mono [OF _ ne' le(2) t] ne by auto
  have "u \<noteq> []" using u t' ne by (metis onion_join_eq_Nil onion_le_def outcome.inject(1))
  then have "onion_le t (W' (e_to e))"
    using onion_le_trans [of t u "W' (e_to e)"] u t' ne by simp
  then have below: "onion_le (?V v) (W' v)" for v
    unfolding V using le(2) onion_join_least ne by simp
  have "\<exists>v. active m R ?V v \<and> d \<in> set (edges_of m v)" if d: "d \<in> set (worklist s')" for d
  proof (cases "d \<in> set rest")
    case True
    then show ?thesis using from_active [of d] wl stays by auto
  next
    case False
    then have new: "d \<in> set (edges_of m (e_to e))" "?V \<noteq> ?W"
      using d wl' by (auto simp: V fun_eq_iff split: if_splits)
    have "active m R ?V (e_to e)"
      using start(2) le(1) grows onion_le_antisym new(2) unfolding active_def V
      by (metis fun_upd_same fun_upd_triv)
    with new show ?thesis by blast
  qed
  with ok' above below show ?thesis by (simp add: below_inv_def Let_def)
qed

section \<open>The roots\<close>

definition root_type :: "abstract_kind \<Rightarrow> type_onion \<Rightarrow> type_onion" where
  "root_type kind t = (case kind of kind_scalar \<Rightarrow> make_abstract t | kind_pointer \<Rightarrow> make_abstract_pointer t)"

definition start_types :: "(nat \<times> abstract_kind) list \<Rightarrow> (nat \<Rightarrow> type_onion) \<Rightarrow> nat \<Rightarrow> type_onion" where
  "start_types roots W = fold (\<lambda>(call, kind) W. W(call := root_type kind (W call))) roots W"

lemma root_type_facts [simp]: "root_type kind t = [] \<longleftrightarrow> t = []" "length (root_type kind t) = length t"
  by (auto simp: root_type_def make_abstract_def make_pointer_def make_abstract_pointer_def Let_def
      split: abstract_kind.splits)

lemma view_add [simp]:
  "view m (snd (tm_add m v kind T)) = (view m T)(v := root_type kind (view m T v))"
  by (simp add: tm_add_def root_type_def Let_def split_beta split: abstract_kind.splits)

lemma start_types_other:
  "v \<notin> fst ` set roots \<Longrightarrow> start_types roots W v = W v"
  by (induction roots arbitrary: W) (auto simp: start_types_def)

lemma start_types_length: "length (start_types roots W v) = length (W v)"
  by (induction roots arbitrary: W) (auto simp: start_types_def split_beta)

lemma add_roots_effect:
  "add_roots m roots s = Ret s' \<Longrightarrow>
    view m (types s') = start_types roots (view m (types s)) \<and>
    worklist s' = worklist s @ concat (map (\<lambda>(call, _). edges_of m call) roots) \<and>
    (\<forall>v \<in> fst ` set roots. pushable m v)"
proof (induction roots arbitrary: s)
  case (Cons rk roots)
  obtain r k where "rk = (r, k)" by (cases rk)
  with Cons show ?case
    by (auto simp: obind_eq_Ret push_value_Ret start_types_def)
qed (simp add: start_types_def)

abbreviation roots_of :: "(nat \<times> abstract_kind) list \<Rightarrow> nat set" where
  "roots_of roots \<equiv> fst ` set roots"

abbreviation start_of :: "ir \<Rightarrow> (nat \<times> abstract_kind) list \<Rightarrow> nat \<Rightarrow> type_onion" where
  "start_of m roots \<equiv> start_types roots (default_type m)"

lemma start_ne: "start_of m roots v \<noteq> []"
  using start_types_length [of roots "default_type m" v] by (metis default_type_ne length_0_conv)

lemma view_empty [simp]: "view m (\<lambda>_. None) = default_type m"
  by (simp add: view_def fun_eq_iff)

lemma roots_added:
  assumes "add_roots m roots \<lparr>worklist = [], types = (\<lambda>_. None)\<rparr> = Ret s"
  shows "view m (types s) = start_of m roots" "types_ok m (view m (types s))"
    "e \<in> set (worklist s) \<Longrightarrow> \<exists>v \<in> roots_of roots. e \<in> set (edges_of m v)"
    "loop_inv m (roots_of roots) (start_of m roots) s"
    "solution m (roots_of roots) (start_of m roots) W' \<Longrightarrow>
      below_inv m (roots_of roots) (start_of m roots) W' s"
proof -
  note eff = add_roots_effect [OF assms]
  show v: "view m (types s) = start_of m roots" using eff by simp
  show ok: "types_ok m (view m (types s))"
    using start_ne start_types_length by (simp add: types_ok_def v)
  have wl: "worklist s = concat (map (\<lambda>(call, _). edges_of m call) roots)" using eff by simp
  have act: "v \<in> roots_of roots" if "active m (roots_of roots) (start_of m roots) v" for v
    using that start_types_other [of v roots "default_type m"] by (auto simp: active_def)
  show src: "\<exists>v \<in> roots_of roots. e \<in> set (edges_of m v)" if "e \<in> set (worklist s)" for e
    using that by (auto simp: wl image_iff split_beta)
  have in_wl: "e \<in> set (worklist s)" if "v \<in> roots_of roots" "e \<in> set (edges_of m v)" for v e
    using that by (auto simp: wl split_beta)
  have pushed: "pushable m v" if "v \<in> roots_of roots" for v using eff that by blast
  show "loop_inv m (roots_of roots) (start_of m roots) s"
    unfolding loop_inv_def Let_def v
    using ok [unfolded v] pushed act in_wl onion_le_refl by blast
  show "below_inv m (roots_of roots) (start_of m roots) W' s"
    if sol: "solution m (roots_of roots) (start_of m roots) W'"
    using ok sol src unfolding below_inv_def Let_def v solution_def
    by (auto simp: active_def) (metis image_eqI fst_conv)
qed

lemma run_from_Some:
  "run_from m roots = Some (Ret T) \<Longrightarrow>
    \<exists>s s'. add_roots m roots \<lparr>worklist = [], types = (\<lambda>_. None)\<rparr> = Ret s \<and>
      dfa_loop m s = Some (Ret s') \<and> T = types s'"
  by (auto simp: run_from_def omap_eq_Ret split: outcome.splits)

section \<open>Properties\<close>

text \<open>
  The data-flow analysis of the compiler ends on every module: each processed edge shortens the
  worklist or makes the type of a value less definite, so from any roots in a finite set of values
  that edges do not leave, the loop over the worklist returns (with types, or with the failure of
  an unsupported instruction).
\<close>

theorem dataflow_terminates:
  assumes "llvm_rules m" "closed_values m V" "roots_of roots \<subseteq> V"
  shows "\<exists>r. run_from m roots = Some r"
proof (cases "add_roots m roots \<lparr>worklist = [], types = (\<lambda>_. None)\<rparr>")
  case (Ret s)
  note added = roots_added [OF Ret]
  have "\<forall>e \<in> set (worklist s). e_to e \<in> V"
    using added(3) assms(2,3) by (auto simp: closed_values_def)
  from dfa_loop_ends [OF assms(1,2) added(2) this] Ret show ?thesis
    by (auto simp: run_from_def)
qed (simp_all add: run_from_def)

text \<open>
  A small module: the result 0 of a marked call, a sum 1 and a phi node 2 that use each other in a
  loop.
\<close>

definition loop_module :: ir where
  "loop_module =
    \<lparr>ir_class = (\<lambda>v. if v = 0 then v_call else if v = 1 then v_binop else if v = 2 then v_phi else v_const_data),
     ir_uses = (\<lambda>v. if v = 0 then [(1, 0)] else if v = 1 then [(2, 0)] else if v = 2 then [(1, 1)] else []),
     ir_type = (\<lambda>_. ty_other), ir_return_type = (\<lambda>_. ty_other), ir_called_operand = (\<lambda>v. 7),
     ir_called = (\<lambda>_. None), ir_name = (\<lambda>_. []), ir_function = (\<lambda>_. None), ir_vararg = (\<lambda>_. False),
     ir_args = (\<lambda>_. []), points_to = (\<lambda>_. [])\<rparr>"

text \<open>
  C4: When the data-flow analysis returns types, they are the least solution of the module: the
  types of the marked calls are kept, every edge of a value that may be abstract is satisfied
  (what the value, its pointee or its address carries is below the type of the target), and every
  other assignment with these properties is above the result. So no value is left out and none is
  made abstract needlessly.
\<close>

theorem dataflow_least_solution:
  assumes rules: "llvm_rules m" and run: "run_from m roots = Some (Ret T)"
  shows "solution m (roots_of roots) (start_of m roots) (view m T) \<and>
    {W. solution m (roots_of roots) (start_of m roots) W} \<subseteq> {W. \<forall>v. onion_le (view m T v) (W v)}"
proof -
  let ?R = "roots_of roots" and ?start = "start_of m roots"
  obtain s s' where s: "add_roots m roots \<lparr>worklist = [], types = (\<lambda>_. None)\<rparr> = Ret s"
    "dfa_loop m s = Some (Ret s')" "T = types s'"
    using run_from_Some [OF run] by blast
  note added = roots_added [OF s(1)]
  have "loop_inv m ?R ?start s' \<and> worklist s' = []"
    by (rule dfa_loop_invariant [where I = "loop_inv m ?R ?start", OF s(2) added(4)]) (rule loop_inv_step [OF rules start_ne])
  then have "solution m ?R ?start (view m T)"
    by (auto simp: loop_inv_def solution_def Let_def s(3) types_ok_def)
  moreover have "onion_le (view m T v) (W v)" if "solution m ?R ?start W" for W v
  proof -
    have "below_inv m ?R ?start W s' \<and> worklist s' = []"
      by (rule dfa_loop_invariant [where I = "below_inv m ?R ?start W", OF s(2) added(5) [OF that]])
        (rule below_inv_step [OF rules start_ne start_types_other that])
    then show ?thesis by (simp add: below_inv_def Let_def s(3))
  qed
  ultimately show ?thesis by blast
qed

theorem dataflow_least_solution_witness:
  "\<exists>T. run_from loop_module [(0, kind_scalar)] = Some (Ret T) \<and>
    solution loop_module (roots_of [(0, kind_scalar)]) (start_of loop_module [(0, kind_scalar)])
      (view loop_module T) \<and>
    {W. solution loop_module (roots_of [(0, kind_scalar)]) (start_of loop_module [(0, kind_scalar)]) W} \<subseteq>
      {W. \<forall>v. onion_le (view loop_module T v) (W v)}"
proof -
  have "\<exists>T. run_from loop_module [(0, kind_scalar)] = Some (Ret T)"
    by (simp add: run_from_def push_value_def push_change_def out_edges_def own_stores_def loop_module_def
      forward_def calluse_def induced_edges_def tm_add_def tm_get_def default_type_def onion_new_def
      make_abstract_def dfa_loop.simps process_def unif_edge_def onion_join_def Let_def layer_of_bools_def
      lts_of_bool_def layer_join_def lts_join_def)
  moreover have "llvm_rules loop_module" by (simp add: llvm_rules_def loop_module_def)
  ultimately show ?thesis using dataflow_least_solution by blast
qed

end
