(* ===== verification/Scalar_Ops.thy ===== *)
theory Scalar_Ops
  imports Domain_Base
begin

text \<open>
  C++ operators over an abstract domain: the wrappers \<open>scalar\<close> and \<open>scalar_domain_ref\<close> of
  \<open>lava/support/scalar.hpp\<close> and \<open>reference.hpp\<close>. Two flags of the type (signed, floating) choose
  the operation of the domain; a conversion to \<open>bool\<close> decides an unknown value by a choice and
  assumes the decision.
\<close>

section \<open>Operators\<close>

datatype cxx_op =
    cx_plus | cx_minus | cx_times | cx_divide | cx_modulo
  | cx_and | cx_or | cx_xor | cx_eq | cx_ne | cx_ge | cx_le | cx_lt | cx_gt | cx_shl | cx_shr

definition bv_div :: "bool \<Rightarrow> op_tag" where
  "bv_div sg = (if sg then tag_sdiv else tag_udiv)"

definition bv_rem :: "bool \<Rightarrow> op_tag" where
  "bv_rem sg = (if sg then tag_srem else tag_urem)"

definition scalar_tag :: "bool \<Rightarrow> bool \<Rightarrow> cxx_op \<Rightarrow> op_tag" where
  "scalar_tag sg flt x =
    (case x of
       cx_plus \<Rightarrow> if flt then tag_fadd else tag_add
     | cx_minus \<Rightarrow> if flt then tag_fsub else tag_sub
     | cx_times \<Rightarrow> if flt then tag_fmul else tag_mul
     | cx_divide \<Rightarrow> if flt then tag_fdiv else bv_div sg
     | cx_modulo \<Rightarrow> if flt then tag_frem else bv_rem sg
     | cx_and \<Rightarrow> tag_op_and | cx_or \<Rightarrow> tag_op_or | cx_xor \<Rightarrow> tag_op_xor
     | cx_eq \<Rightarrow> tag_eq | cx_ne \<Rightarrow> tag_ne
     | cx_ge \<Rightarrow> if sg then tag_sge else tag_uge
     | cx_le \<Rightarrow> if sg then tag_sle else tag_ule
     | cx_lt \<Rightarrow> if sg then tag_slt else tag_ult
     | cx_gt \<Rightarrow> if sg then tag_sgt else tag_ugt
     | cx_shl \<Rightarrow> tag_shl
     | cx_shr \<Rightarrow> if sg then tag_ashr else tag_lshr)"

definition scalar_op :: "'v domain \<Rightarrow> bool \<Rightarrow> bool \<Rightarrow> cxx_op \<Rightarrow> 'v \<Rightarrow> 'v \<Rightarrow> 'v outcome" where
  "scalar_op D sg flt x a b = dom_bin D (scalar_tag sg flt x) a b"

text \<open>The logical connectives normalise both operands with two negations; both are evaluated.\<close>

definition scalar_logic :: "'v domain \<Rightarrow> ('v \<Rightarrow> 'v outcome) \<Rightarrow> op_tag \<Rightarrow> 'v \<Rightarrow> 'v \<Rightarrow> 'v outcome" where
  "scalar_logic D op_not t a b =
    obind (obind (op_not a) op_not) (\<lambda>x. obind (obind (op_not b) op_not) (\<lambda>y. dom_bin D t x y))"

definition scalar_zfit :: "'v domain \<Rightarrow> 'v \<Rightarrow> nat \<Rightarrow> 'v outcome" where
  "scalar_zfit D a w = dom_cast D tag_zfit a w"

section \<open>Conversion to bool\<close>

text \<open>The value is refined in place: the run returns it with the decision.\<close>

definition scalar_bool :: "'v domain \<Rightarrow> 'v \<Rightarrow> (bool \<times> 'v) run" where
  "scalar_bool D a =
    rbind [dom_to_tristate D a] (\<lambda>v.
      (case v of false_value \<Rightarrow> rret (False, a)
       | true_value \<Rightarrow> rret (True, a)
       | maybe_value \<Rightarrow>
           rbind (lart_choose 2) (\<lambda>rv. [omap (Pair (rv \<noteq> 0)) (dom_assume D a (rv \<noteq> 0))])))"

definition scalar_assume :: "'v domain \<Rightarrow> 'v \<Rightarrow> 'v run" where
  "scalar_assume D a = rbind (scalar_bool D a) (\<lambda>(b, a'). if b then rret a' else [Cancel])"

section \<open>Soundness over a sound domain\<close>

lemma choose_two: "lart_choose 2 = [Ret 1, Ret 0]"
  by (simp add: lart_choose_def upt_rec)

context branch_sound
begin

lemma scalar_bool_sound:
  assumes x: "x \<in> gamma a"
  shows "rsound (scalar_bool D a) (\<lambda>(b, a'). b = truth x \<and> x \<in> gamma a')"
proof -
  have "osound (dom_to_tristate D a) (\<lambda>t. truth x \<in> tri_gamma t)"
    by (rule tristate_sound [OF x])
  moreover have "osound (omap (Pair (truth x)) (dom_assume D a (truth x)))
      (\<lambda>(b, a'). b = truth x \<and> x \<in> gamma a')"
    using assume_sound [OF x] by (simp add: osound_omap)
  ultimately show ?thesis
    using x by (cases "dom_to_tristate D a"; cases "truth x")
      (auto simp: scalar_bool_def choose_two split: tristate.splits)
qed

lemma scalar_assume_sound:
  "x \<in> gamma a \<Longrightarrow> truth x \<Longrightarrow> rsound (scalar_assume D a) (\<lambda>a'. x \<in> gamma a')"
  unfolding scalar_assume_def
  by (rule rsound_rbind [OF scalar_bool_sound]) auto

end

end
