(* ===== verification/Pointer_Arith.thy ===== *)
theory Pointer_Arith
  imports Scalar_Ops Array_Map Constant_Domain
begin

text \<open>
  Pointers with symbolic object identifiers, \<open>lava/pointer_arith.hpp\<close> and
  \<open>lava/support/pointer.hpp\<close>: a pointer carries its concrete value and an abstract number of the
  domain it is a template over. Every object that is lifted gets an abstract identifier, assumed to
  differ from null and from those of the other objects; the identifiers are kept in the sorted
  array map of the runtime.
\<close>

section \<open>Pointers\<close>

record 'v pointer_data =
  ptr_raw :: "64 word"
  ptr_num :: 'v

definition mk_ptr :: "64 word \<Rightarrow> 'v \<Rightarrow> 'v pointer_data" where
  "mk_ptr p n = \<lparr>ptr_raw = p, ptr_num = n\<rparr>"

type_synonym 'v objects = "(32 word \<times> 'v) list"

text \<open>The low half of a pointer is the offset, the high half the identifier of the object.\<close>

definition pointer_split :: "64 word \<Rightarrow> 32 word \<times> 32 word" where
  "pointer_split p = (ucast p, ucast (drop_bit 32 p))"

definition alive_obj :: "32 word \<Rightarrow> 'v objects \<Rightarrow> bool" where
  "alive_obj obj st \<longleftrightarrow> obj \<noteq> 0 \<and> arr_count obj st \<noteq> 0"

definition alive :: "64 word \<Rightarrow> 'v objects \<Rightarrow> bool" where
  "alive p st \<longleftrightarrow> alive_obj (snd (pointer_split p)) st"

definition objects_erase :: "64 word \<Rightarrow> 'v objects \<Rightarrow> 'v objects" where
  "objects_erase p st = fst (arr_erase (snd (pointer_split p)) st)"

section \<open>Assumptions on identifiers\<close>

definition assume_op :: "'v domain \<Rightarrow> cxx_op \<Rightarrow> 'v \<Rightarrow> 'v \<Rightarrow> unit run" where
  "assume_op D x a b =
    rbind [scalar_op D False False x a b] (\<lambda>c. rbind (scalar_assume D c) (\<lambda>_. rret ()))"

definition assume_add_no_overflow :: "'v domain \<Rightarrow> 'v \<Rightarrow> 'v \<Rightarrow> unit run" where
  "assume_add_no_overflow D a b =
    rbind [dom_lift D (c_int False 64 (2 ^ 64 - 1))] (\<lambda>mx.
    rbind [scalar_op D False False cx_minus mx b] (\<lambda>diff.
    assume_op D cx_lt a diff))"

fun assume_all_ne :: "'v domain \<Rightarrow> 'v \<Rightarrow> 'v objects \<Rightarrow> unit run" where
  "assume_all_ne D abstract [] = rret ()"
| "assume_all_ne D abstract ((key, val) # rest) =
    rbind (assume_op D cx_ne abstract val) (\<lambda>_. assume_all_ne D abstract rest)"

definition abstract_objid :: "'v domain \<Rightarrow> 32 word \<Rightarrow> 'v objects \<Rightarrow> ('v \<times> 'v objects) run" where
  "abstract_objid D obj st =
    (let it = arr_find obj st in
     if it \<noteq> length st then rret (snd (st ! it), st)
     else
       rbind [dom_any D] (\<lambda>abstract.
       rbind [dom_lift D (c_int False 64 0)] (\<lambda>null.
       rbind (assume_op D cx_ne abstract null) (\<lambda>_.
       rbind (assume_all_ne D abstract st) (\<lambda>_.
       (case arr_emplace (obj, abstract) st of (st', it', _) \<Rightarrow> rret (snd (st' ! it'), st')))))))"

section \<open>Lifting\<close>

definition lift_objid :: "'v domain \<Rightarrow> 64 word \<Rightarrow> 'v objects \<Rightarrow> ('v pointer_data \<times> 'v objects) run" where
  "lift_objid D p st =
    (case pointer_split p of (off, obj) \<Rightarrow>
      if obj = 0 then [omap (\<lambda>n. (mk_ptr p n, st)) (dom_lift D (c_int False 64 (uint p)))]
      else
        rbind (abstract_objid D obj st) (\<lambda>(id, st').
        rbind [dom_lift D (c_int False 64 (uint off))] (\<lambda>o'.
        rbind (assume_add_no_overflow D id o') (\<lambda>_.
        [omap (\<lambda>n. (mk_ptr p n, st')) (dom_bin D tag_add id o')]))))"

definition raw_of :: "c_value \<Rightarrow> 64 word outcome" where
  "raw_of v = (case v of c_bool b \<Rightarrow> Ret (of_bool b) | c_int s w n \<Rightarrow> Ret (word_of_int n)
               | c_pointer p \<Rightarrow> Ret (word_of_nat p) | c_float \<Rightarrow> Undef | c_array b n \<Rightarrow> Undef)"

definition pa_lift :: "'v domain \<Rightarrow> 'v objects \<Rightarrow> c_value \<Rightarrow> 'v pointer_data outcome" where
  "pa_lift D st v =
    obind (raw_of v) (\<lambda>p. if alive p st then Fault '''' else omap (mk_ptr p) (dom_lift D v))"

definition pa_lift_constant :: "'v domain \<Rightarrow> 'v objects \<Rightarrow> constant_data \<Rightarrow> 'v pointer_data outcome" where
  "pa_lift_constant D st c =
    con_lift_to (\<lambda>s w n. pa_lift D st (if w = 1 then c_bool (n \<noteq> 0) else c_int s w n)) c"

definition pa_lift_arithmetic :: "'v \<Rightarrow> 'v pointer_data outcome" where
  "pa_lift_arithmetic v = Fault ''''"

definition pa_any :: "'v pointer_data outcome" where
  "pa_any = Fault ''''"

definition pa_any_variadic :: "int list \<Rightarrow> 'v pointer_data outcome" where
  "pa_any_variadic args = Fault ''unsupported variadic any operation''"

definition pa_any_range :: "int \<Rightarrow> int \<Rightarrow> 'v pointer_data outcome" where
  "pa_any_range from to = Fault ''''"

definition pa_assume :: "'v pointer_data \<Rightarrow> bool \<Rightarrow> 'v pointer_data outcome" where
  "pa_assume p b = Fault ''''"

definition pa_to_tristate :: "'v pointer_data \<Rightarrow> tristate" where
  "pa_to_tristate p = maybe_value"

section \<open>Operations\<close>

text \<open>The functors on the concrete values, unsigned numbers of 64 bits.\<close>

definition raw_fun :: "cxx_op \<Rightarrow> 64 word \<Rightarrow> 64 word \<Rightarrow> 64 word outcome" where
  "raw_fun f x y =
    (case f of cx_plus \<Rightarrow> Ret (x + y) | cx_minus \<Rightarrow> Ret (x - y) | cx_times \<Rightarrow> Ret (x * y)
     | cx_divide \<Rightarrow> if y = 0 then Undef else Ret (x div y)
     | cx_modulo \<Rightarrow> if y = 0 then Undef else Ret (x mod y)
     | cx_and \<Rightarrow> Ret (and x y) | cx_or \<Rightarrow> Ret (or x y) | cx_xor \<Rightarrow> Ret (xor x y)
     | cx_shl \<Rightarrow> if 64 \<le> unat y then Undef else Ret (push_bit (unat y) x)
     | cx_shr \<Rightarrow> if 64 \<le> unat y then Undef else Ret (drop_bit (unat y) x)
     | _ \<Rightarrow> Undef)"

definition pa_apply ::
  "'v domain \<Rightarrow> cxx_op \<Rightarrow> 'v pointer_data \<Rightarrow> 'v pointer_data \<Rightarrow> 'v pointer_data outcome" where
  "pa_apply D f a b =
    obind (raw_fun f (ptr_raw a) (ptr_raw b)) (\<lambda>p.
      omap (mk_ptr p) (scalar_op D False False f (ptr_num a) (ptr_num b)))"

definition pa_functor :: "op_tag \<Rightarrow> cxx_op option" where
  "pa_functor t =
    map_of [(tag_add, cx_plus), (tag_sub, cx_minus), (tag_mul, cx_times), (tag_sdiv, cx_divide),
      (tag_udiv, cx_divide), (tag_srem, cx_modulo), (tag_urem, cx_modulo), (tag_op_and, cx_and),
      (tag_op_or, cx_or), (tag_op_xor, cx_xor), (tag_shl, cx_shl), (tag_lshr, cx_shr)] t"

definition pa_bin ::
  "'v domain \<Rightarrow> op_tag \<Rightarrow> 'v pointer_data \<Rightarrow> 'v pointer_data \<Rightarrow> 'v pointer_data outcome" where
  "pa_bin D t a b = (case pa_functor t of Some f \<Rightarrow> pa_apply D f a b | None \<Rightarrow> mixin_bin t a b)"

definition pa_comparison :: "op_tag \<Rightarrow> cxx_op option" where
  "pa_comparison t =
    map_of [(tag_eq, cx_eq), (tag_ne, cx_ne), (tag_ult, cx_lt), (tag_ugt, cx_gt), (tag_ule, cx_le),
      (tag_uge, cx_ge)] t"

text \<open>A comparison gives a number of the arithmetic domain, not a pointer.\<close>

definition pa_cmp :: "'v domain \<Rightarrow> op_tag \<Rightarrow> 'v pointer_data \<Rightarrow> 'v pointer_data \<Rightarrow> 'v outcome" where
  "pa_cmp D t a b =
    (case pa_comparison t of
       Some f \<Rightarrow> scalar_op D False False f (ptr_num a) (ptr_num b)
     | None \<Rightarrow> Fault (mixin_name t))"

definition pa_mask :: "nat \<Rightarrow> 64 word outcome" where
  "pa_mask w = con_mask w"

definition pa_set_bw :: "64 word \<Rightarrow> nat \<Rightarrow> 64 word outcome" where
  "pa_set_bw p w = omap (and p) (pa_mask w)"

definition pa_cast :: "'v domain \<Rightarrow> op_tag \<Rightarrow> 'v pointer_data \<Rightarrow> nat \<Rightarrow> 'v pointer_data outcome" where
  "pa_cast D t p w =
    (if t \<in> {tag_trunc, tag_zext, tag_zfit}
     then obind (pa_set_bw (ptr_raw p) w) (\<lambda>r. omap (mk_ptr r) (dom_cast D t (ptr_num p) w))
     else mixin_cast t p w)"

datatype 'v store_value = sv_constant constant_data | sv_pointer "'v pointer_data" | sv_other 'v

definition pa_store :: "memory \<Rightarrow> 'v pointer_data \<Rightarrow> 'v store_value \<Rightarrow> nat \<Rightarrow> memory outcome" where
  "pa_store m p v bw =
    (if ptr_raw p = 0 then Fault ''null pointer dereference''
     else let put = (\<lambda>x. obind (callu bw (\<lambda>xs. store_bytes m (unat (ptr_raw p)) (width_bytes bw) (hd xs))
                                  [uint x]) (\<lambda>r. r)) in
       (case v of sv_constant c \<Rightarrow> put (con_value c) | sv_pointer q \<Rightarrow> put (ptr_raw q)
        | sv_other x \<Rightarrow> Fault ''unsupported store''))"

section \<open>Identifiers of objects\<close>

text \<open>What the code relies on about the arithmetic domain.\<close>

locale pointer_numbers =
  forward_sound D gamma conc_word ops + branch_sound D gamma "\<lambda>x. x \<noteq> 0"
  for D :: "'v domain" and gamma :: "'v \<Rightarrow> 64 word set" and ops :: "op_tag set" +
  assumes pointer_ops: "{tag_add, tag_sub, tag_ne, tag_ult} \<subseteq> ops"
    and any_sound: "osound (dom_any D) (\<lambda>a. x \<in> gamma a)"
    and lift_sound: "0 \<le> n \<Longrightarrow> n < 2 ^ 64 \<Longrightarrow>
      osound (dom_lift D (c_int False 64 n)) (\<lambda>a. word_of_int n \<in> gamma a)"
begin

lemma assume_op_sound:
  assumes "scalar_tag False False f \<in> ops" "x \<in> gamma a" "y \<in> gamma b"
    and "conc_word (scalar_tag False False f) x y = Some z" "z \<noteq> 0"
  shows "rsound (assume_op D f a b) (\<lambda>_. True)"
proof -
  have "rsound [scalar_op D False False f a b] (\<lambda>c. z \<in> gamma c)"
    using bin_sound [OF assms(1-4)] by (simp add: scalar_op_def)
  then show ?thesis
    unfolding assume_op_def
    by (rule rsound_rbind) (rule rsound_rbind [OF scalar_assume_sound], use assms(5) in simp_all)
qed

lemma assume_ne_sound:
  "x \<in> gamma a \<Longrightarrow> y \<in> gamma b \<Longrightarrow> x \<noteq> y \<Longrightarrow> rsound (assume_op D cx_ne a b) (\<lambda>_. True)"
  using pointer_ops
  by (intro assume_op_sound [of cx_ne x a y b 1]) (auto simp: scalar_tag_def conc_word_def)

lemma no_overflow_sound:
  assumes x: "x \<in> gamma a" and y: "y \<in> gamma b" and sum: "uint x + uint y < 2 ^ 64 - 1"
  shows "rsound (assume_add_no_overflow D a b) (\<lambda>_. True)"
proof -
  have mx: "rsound [dom_lift D (c_int False 64 (2 ^ 64 - 1))] (\<lambda>m. word_of_int (2 ^ 64 - 1) \<in> gamma m)"
    using lift_sound [of "2 ^ 64 - 1"] by simp
  have lt: "x < word_of_int (2 ^ 64 - 1) - y"
  proof -
    have "uint (word_of_int (2 ^ 64 - 1) - y) = (2 ^ 64 - 1 - uint y) mod 2 ^ 64"
      by (simp add: uint_word_ariths uint_word_of_int mod_diff_left_eq)
    also have "\<dots> = 2 ^ 64 - 1 - uint y"
    proof (rule mod_pos_pos_trivial)
      show "0 \<le> 2 ^ 64 - 1 - uint y" using uint_bounds(2) [of y] by simp
      show "2 ^ 64 - 1 - uint y < 2 ^ 64" using uint_bounds(1) [of y] by linarith
    qed
    finally show ?thesis using sum by (simp add: word_less_def)
  qed
  show ?thesis
    unfolding assume_add_no_overflow_def
  proof (rule rsound_rbind [OF mx])
    fix m assume m: "word_of_int (2 ^ 64 - 1) \<in> gamma m"
    have "rsound [scalar_op D False False cx_minus m b] (\<lambda>d. word_of_int (2 ^ 64 - 1) - y \<in> gamma d)"
      using bin_sound [OF _ m y, of tag_sub] pointer_ops
      by (simp add: scalar_op_def scalar_tag_def conc_word_def)
    then show "rsound (rbind [scalar_op D False False cx_minus m b] (assume_op D cx_lt a)) (\<lambda>_. True)"
      by (rule rsound_rbind, intro assume_op_sound [OF _ x, of cx_lt _ _ 1])
        (use pointer_ops lt in \<open>auto simp: scalar_tag_def conc_word_def\<close>)
  qed
qed

lemma assume_all_ne_sound:
  "x \<in> gamma a \<Longrightarrow> (\<And>k v. (k, v) \<in> set st \<Longrightarrow> base k \<in> gamma v \<and> base k \<noteq> x) \<Longrightarrow>
    rsound (assume_all_ne D a st) (\<lambda>_. True)"
proof (induction st)
  case (Cons kv st)
  obtain k v where kv: "kv = (k, v)" by (cases kv)
  have "rsound (assume_op D cx_ne a v) (\<lambda>_. True)"
    by (rule assume_ne_sound [OF Cons.prems(1)]) (use Cons.prems(2) [of k v] kv in auto)
  then show ?case
    unfolding kv by (simp, rule rsound_rbind) (rule Cons.IH, use Cons.prems in auto)
qed simp

end

text \<open>The values of the map describe an assignment of numbers to the objects.\<close>

definition objects_hold :: "('v \<Rightarrow> 64 word set) \<Rightarrow> (32 word \<Rightarrow> 64 word) \<Rightarrow> 'v objects \<Rightarrow> bool" where
  "objects_hold gamma base st \<longleftrightarrow> arr_inv st \<and> (\<forall>(k, v) \<in> set st. base k \<in> gamma v)"

lemma insertion_sort_id:
  assumes "arr_inv xs" shows "insertion_sort xs = xs"
proof -
  have "sink j xs = xs" if "j \<in> set [1..<length xs]" for j
  proof (cases j)
    case (Suc i)
    then have "fst (xs ! i) < fst (xs ! Suc i)"
      using assms that by (auto simp: arr_inv_def sorted_wrt_map sorted_wrt_iff_nth_less)
    with Suc show ?thesis by (auto simp: cmp_pairs_def)
  qed simp
  then have "fold sink js xs = xs" if "set js \<subseteq> set [1..<length xs]" for js
    using that by (induction js) auto
  then show ?thesis by (simp add: insertion_sort_def)
qed

lemma emplace_greatest:
  assumes "arr_inv st" "\<And>k. k \<in> fst ` set st \<Longrightarrow> k < (obj :: 'k :: linorder)"
  shows "arr_emplace (obj, a) st = (st @ [(obj, a)], length st, True)"
proof -
  have "obj \<notin> fst ` set st" using assms(2) by auto
  moreover have "arr_inv (st @ [(obj, a)])"
    using assms by (auto simp: arr_inv_def sorted_wrt_append)
  ultimately show ?thesis
    using arr_emplace_spec(1) [OF assms(1)] by (simp add: insertion_sort_id Let_def)
qed

context pointer_numbers
begin

lemma abstract_objid_sound:
  assumes hold: "objects_hold gamma base st"
    and top: "obj \<notin> fst ` set st \<Longrightarrow> \<forall>k \<in> fst ` set st. k < obj"
    and base: "base obj \<noteq> 0" "\<And>k. k \<in> fst ` set st \<Longrightarrow> k \<noteq> obj \<Longrightarrow> base k \<noteq> base obj"
  shows "rsound (abstract_objid D obj st) (\<lambda>(v, st'). base obj \<in> gamma v \<and> objects_hold gamma base st')"
proof (cases "obj \<in> fst ` set st")
  case True
  have inv: "arr_inv st" and vals: "\<And>k v. (k, v) \<in> set st \<Longrightarrow> base k \<in> gamma v"
    using hold by (auto simp: objects_hold_def)
  have i: "arr_find obj st < length st" "fst (st ! arr_find obj st) = obj"
    using arr_find_in [OF arr_inv_sorted(1) [OF inv] True] by simp_all
  then have "base obj \<in> gamma (snd (st ! arr_find obj st))"
    using vals nth_mem by (metis prod.collapse)
  with i hold show ?thesis by (simp add: abstract_objid_def Let_def)
next
  case False
  have inv: "arr_inv st" and vals: "\<And>k v. (k, v) \<in> set st \<Longrightarrow> base k \<in> gamma v"
    using hold by (auto simp: objects_hold_def)
  have absent: "arr_find obj st = length st"
    by (rule arr_find_notin [OF arr_inv_sorted(1) [OF inv] False])
  have null: "rsound [dom_lift D (c_int False 64 0)] (\<lambda>n. 0 \<in> gamma n)"
    using lift_sound [of 0] by simp
  have fresh: "rsound [dom_any D] (\<lambda>a. base obj \<in> gamma a)"
    using any_sound by simp
  have all: "rsound (assume_all_ne D a st) (\<lambda>_. True)" if "base obj \<in> gamma a" for a
    by (rule assume_all_ne_sound [OF that, of st base]) (use vals base(2) False in force)
  have emplace: "arr_emplace (obj, a) st = (st @ [(obj, a)], length st, True)" for a
    by (rule emplace_greatest [OF inv]) (use top False in auto)
  have "objects_hold gamma base (st @ [(obj, a)])" if "base obj \<in> gamma a" for a
    using hold that top False arr_inv_sorted [OF inv]
    by (auto simp: objects_hold_def arr_inv_def sorted_wrt_append)
  then show ?thesis
    unfolding abstract_objid_def Let_def
    using absent null all emplace assume_ne_sound base(1)
    by (auto intro!: rsound_rbind [OF fresh] rsound_rbind [OF null] rsound_rbind [OF assume_ne_sound]
        rsound_rbind [OF all])
qed

lemma lift_objid_sound:
  assumes hold: "objects_hold gamma base st" and split: "pointer_split p = (off, obj)" "obj \<noteq> 0"
    and top: "obj \<notin> fst ` set st \<Longrightarrow> \<forall>k \<in> fst ` set st. k < obj"
    and base: "base obj \<noteq> 0" "\<And>k. k \<in> fst ` set st \<Longrightarrow> k \<noteq> obj \<Longrightarrow> base k \<noteq> base obj"
    and range: "uint (base obj) + uint off < 2 ^ 64 - 1"
  shows "rsound (lift_objid D p st) (\<lambda>(q, st'). ptr_raw q = p \<and>
    base obj + ucast off \<in> gamma (ptr_num q) \<and> objects_hold gamma base st')"
proof -
  have off: "rsound [dom_lift D (c_int False 64 (uint off))] (\<lambda>n. ucast off \<in> gamma n)"
  proof -
    have "(word_of_int (uint off) :: 64 word) = ucast off" by simp
    moreover have "uint off < 2 ^ 64" using uint_bounds(2) [of off] by simp
    ultimately show ?thesis using lift_sound [of "uint off"] by simp
  qed
  have "uint (ucast off :: 64 word) = uint off"
    using uint_bounds(2) [of off] by (simp add: unsigned_ucast_eq take_bit_int_eq_self)
  then have sum: "uint (base obj) + uint (ucast off :: 64 word) < 2 ^ 64 - 1" using range by simp
  have add: "rsound [omap (\<lambda>n. (mk_ptr p n, st')) (dom_bin D tag_add i o')] (\<lambda>(q, st').
      ptr_raw q = p \<and> base obj + ucast off \<in> gamma (ptr_num q) \<and> objects_hold gamma base st')"
    if "base obj \<in> gamma i" "ucast off \<in> gamma o'" "objects_hold gamma base st'" for i o' st'
    using bin_sound [of tag_add "base obj" i "ucast off" o'] pointer_ops that
    by (simp add: osound_omap mk_ptr_def conc_word_def)
  show ?thesis
    unfolding lift_objid_def split(1) using split(2)
    by (auto intro!: rsound_rbind [OF abstract_objid_sound [OF hold top base]] rsound_rbind [OF off]
        rsound_rbind [OF no_overflow_sound [OF _ _ sum]] add)
qed

end

interpretation zero_numbers: pointer_numbers zero_domain zero_gamma "- {tag_mul}"
proof -
  have "osound (dom_lift zero_domain (c_int False 64 n)) (\<lambda>a. (word_of_int n :: 64 word) \<in> zero_gamma a)"
    if "0 \<le> n" "n < 2 ^ 64" for n
  proof (cases "n = 0")
    case False
    have "uint (word_of_int n :: 64 word) = n" using that by (simp add: uint_word_of_int)
    with False have "(word_of_int n :: 64 word) \<noteq> 0" by auto
    with False show ?thesis by (simp add: zero_domain_def)
  qed (simp add: zero_domain_def)
  then show "pointer_numbers zero_domain zero_gamma (- {tag_mul})"
    by unfold_locales (auto simp: zero_domain_def zero_any_def)
qed

text \<open>What the map gives back for an object that is not the greatest.\<close>

lemma emplace_not_greatest:
  assumes inv: "arr_inv st" and new: "obj \<notin> fst ` set st" and k: "k \<in> fst ` set st" "obj < k"
  shows "case arr_emplace (obj, a) st of (st', i, _) \<Rightarrow> snd (st' ! i) = snd (last st)"
proof -
  let ?zs = "insertion_sort (st @ [(obj, a)])"
  note e = arr_emplace_spec [OF inv new]
  have ne: "st \<noteq> []" using k by auto
  have keys: "fst ` set ?zs = insert obj (fst ` set st)" by (simp add: insertion_sort_facts)
  have last_in: "last st \<in> set st" using ne by simp
  have last_top: "\<forall>j \<in> fst ` set st. j \<le> fst (last st)"
    using last_is_greatest [OF inv, of "fst (last st)"] last_in ne
    by (metis imageI last_conv_nth)
  have "\<forall>j \<in> fst ` set ?zs. j \<le> fst (last st)"
    using last_top k unfolding keys by (metis insert_iff less_imp_le order_trans)
  moreover have "fst (last st) \<in> fst ` set ?zs" using last_in unfolding keys by auto
  ultimately have top: "fst (?zs ! (length ?zs - 1)) = fst (last st)"
    using last_is_greatest [OF e(2)] by blast
  have "?zs \<noteq> []" using keys by auto
  then have "?zs ! (length ?zs - 1) \<in> set ?zs" by simp
  then have "map_of ?zs (fst (last st)) = Some (snd (?zs ! (length ?zs - 1)))"
    using top arr_inv_sorted(2) [OF e(2)] by (metis map_of_is_SomeI prod.collapse)
  moreover have "map_of st (fst (last st)) = Some (snd (last st))"
    using last_in arr_inv_sorted(2) [OF inv] by (metis map_of_is_SomeI prod.collapse)
  moreover have "fst (last st) \<noteq> obj" using last_in new by (metis imageI)
  ultimately have "snd (?zs ! (length ?zs - 1)) = snd (last st)" using e(3) by simp
  then show ?thesis using e(1) by (simp add: Let_def)
qed

section \<open>Properties\<close>



text \<open>
  C40: An object that is met after a greater one is given the identifier of another object: the
  map returns the slot of its last pair, so every path returns the identifier of the greatest
  object known before, and two different objects have one identifier in every domain.
\<close>

theorem pointer_identifiers_confused:
  assumes "arr_inv st" "obj \<notin> fst ` set st" "k \<in> fst ` set st" "obj < k"
  shows "fst ` returns (abstract_objid D obj st) \<subseteq> {snd (last st)}"
proof -
  have "arr_find obj st = length st"
    by (rule arr_find_notin [OF arr_inv_sorted(1) [OF assms(1)] assms(2)])
  then show ?thesis
    using emplace_not_greatest [OF assms]
    by (auto simp: abstract_objid_def Let_def split_beta split: prod.splits)
qed

theorem pointer_identifiers_confused_witness:
  "fst ` returns (abstract_objid zero_domain 3 [(2, unknown_z), (7, nonzero_z)]) \<subseteq>
    {snd (last [(2 :: 32 word, unknown_z), (7, nonzero_z)])}"
  by (rule pointer_identifiers_confused [where k = 7]) (auto simp: arr_inv_def)

end
