(* ===== verification/Metadomain.thy ===== *)
theory Metadomain
  imports Pointer_Arith Trivial_Domains
begin

text \<open>
  Metadomains, \<open>lamp/include/lamp/support/semilattice.hpp\<close>: values of several domains side by
  side, each with the number of its domain in a one-byte tag. An operation runs in the join of the
  domains of its operands, to which they are lifted first. \<open>trivial.cpp\<close> joins the unit domain
  with constants, \<open>adaptor/pa.hpp\<close> constants, numbers and pointers.
\<close>

section \<open>Tagged values\<close>

text \<open>\<open>tagged\<close> of \<open>storage.hpp\<close>: a value is made with the invalid tag; the metadomain sets it.\<close>

record 'v tagged_value =
  tv_tag :: int
  tv_payload :: 'v

definition invalid_tag :: int where
  "invalid_tag = 255"

definition mk_tagged :: "'v \<Rightarrow> 'v tagged_value" where
  "mk_tagged v = \<lparr>tv_tag = invalid_tag, tv_payload = v\<rparr>"

definition set_tag :: "int \<Rightarrow> 'v tagged_value \<Rightarrow> 'v tagged_value" where
  "set_tag i v = v\<lparr>tv_tag := i\<rparr>"

text \<open>
  The template argument of \<open>semilattice\<close>: the list of domains, the join of their numbers, the
  conversions between them, the domain of an operation's result, and the domains that lift and
  make values. All domains share one type of payloads; what a domain reads of the payload of
  another one is undefined.
\<close>

record 'v lattice =
  sl_doms :: "'v domain list"
  sl_join :: "int \<Rightarrow> int \<Rightarrow> int"
  sl_convert :: "int \<Rightarrow> int \<Rightarrow> 'v \<Rightarrow> 'v outcome"
  sl_result :: "int \<Rightarrow> op_tag \<Rightarrow> int"
  sl_scalar_lift :: int
  sl_scalar_any :: int
  sl_array_lift :: int

abbreviation sl_size :: "'v lattice \<Rightarrow> int" where
  "sl_size L \<equiv> int (length (sl_doms L))"

definition dom_type :: "'v lattice \<Rightarrow> int \<Rightarrow> 'v domain" where
  "dom_type L i = sl_doms L ! nat i"

section \<open>Dispatch\<close>

text \<open>The join of several numbers; a negative one belongs to an argument that is no domain value.\<close>

fun join_all :: "(int \<Rightarrow> int \<Rightarrow> int) \<Rightarrow> int list \<Rightarrow> int" where
  "join_all J [] = -1"
| "join_all J [a] = a"
| "join_all J (a # b # args) =
    (if 0 \<le> a \<and> 0 \<le> b then J a (join_all J (b # args))
     else join_all J ((if 0 \<le> a then a else b) # args))"

definition lift_to :: "'v lattice \<Rightarrow> int \<Rightarrow> int \<Rightarrow> 'v \<Rightarrow> 'v outcome" where
  "lift_to L to from f = (if from = to then Ret f else sl_convert L to from f)"

fun lift_args :: "'v lattice \<Rightarrow> int \<Rightarrow> (int \<times> 'v) list \<Rightarrow> 'v list outcome" where
  "lift_args L to [] = Ret []"
| "lift_args L to ((i, x) # args) =
    obind (lift_to L to i x) (\<lambda>y. obind (lift_args L to args) (\<lambda>ys. Ret (y # ys)))"

text \<open>The loops over the numbers of the domains are unrolled by the compiler.\<close>

function in_domain ::
  "'v lattice \<Rightarrow> int \<Rightarrow> int \<Rightarrow> (int \<Rightarrow> 'v list \<Rightarrow> 'r outcome) \<Rightarrow> (int \<times> 'v) list \<Rightarrow> 'r outcome" where
  "in_domain L idx goal operation args =
    (if idx < sl_size L then
       if idx = goal \<and> join_all (sl_join L) (idx # map fst args) = idx
       then obind (lift_args L idx args) (operation idx)
       else in_domain L (idx + 1) goal operation args
     else Undef)"
  by auto

termination by (relation "measure (\<lambda>(L, idx, _). nat (sl_size L - idx))") auto

declare in_domain.simps [simp del]

function cast_one :: "'v lattice \<Rightarrow> int \<Rightarrow> (int \<times> 'v \<Rightarrow> 'r outcome) \<Rightarrow> 'v tagged_value \<Rightarrow> 'r outcome" where
  "cast_one L idx operation v =
    (if idx < sl_size L then
       if tv_tag v = idx then operation (idx, tv_payload v) else cast_one L (idx + 1) operation v
     else Fault ''trap'')"
  by auto

termination by (relation "measure (\<lambda>(L, idx, _). nat (sl_size L - idx))") auto

declare cast_one.simps [simp del]

fun cast_all :: "'v lattice \<Rightarrow> ((int \<times> 'v) list \<Rightarrow> 'r outcome) \<Rightarrow> 'v tagged_value list \<Rightarrow> 'r outcome" where
  "cast_all L operation [] = operation []"
| "cast_all L operation (a # args) =
    cast_one L 0 (\<lambda>c. cast_all L (\<lambda>cs. operation (c # cs)) args) a"

definition sl_op ::
  "'v lattice \<Rightarrow> (int \<Rightarrow> 'v list \<Rightarrow> 'r outcome) \<Rightarrow> 'v tagged_value list \<Rightarrow> 'r outcome" where
  "sl_op L operation args =
    (let goal = join_all (sl_join L) (map tv_tag args) in
     cast_all L (in_domain L 0 goal operation) args)"

section \<open>Operations\<close>

definition sl_bin_tags :: "op_tag list" where
  "sl_bin_tags =
    [tag_join, tag_meet, tag_add, tag_sub, tag_mul, tag_sdiv, tag_udiv, tag_srem, tag_urem,
     tag_op_and, tag_op_or, tag_op_xor, tag_eq, tag_ne, tag_slt, tag_sgt, tag_sle, tag_sge,
     tag_ult, tag_ugt, tag_ule, tag_uge, tag_shl, tag_lshr, tag_ashr, tag_foeq, tag_fogt,
     tag_foge, tag_folt, tag_fole, tag_fone, tag_ford, tag_funo, tag_fueq, tag_fugt, tag_fuge,
     tag_fult, tag_fule, tag_fune, tag_ffalse, tag_ftrue, tag_concat]"

definition sl_cast_tags :: "op_tag list" where
  "sl_cast_tags = [tag_zfit, tag_zext, tag_sext, tag_trunc]"

definition sl_make :: "'v lattice \<Rightarrow> int \<Rightarrow> 'v outcome \<Rightarrow> 'v tagged_value outcome" where
  "sl_make L i m = omap (\<lambda>v. set_tag i (mk_tagged v)) m"

definition sl_bin ::
  "'v lattice \<Rightarrow> op_tag \<Rightarrow> 'v tagged_value \<Rightarrow> 'v tagged_value \<Rightarrow> 'v tagged_value outcome" where
  "sl_bin L t a b =
    (if t \<in> set sl_bin_tags
     then sl_op L (\<lambda>i xs. sl_make L (sl_result L i t) (dom_bin (dom_type L i) t (xs ! 0) (xs ! 1))) [a, b]
     else mixin_bin t a b)"

definition sl_cast ::
  "'v lattice \<Rightarrow> op_tag \<Rightarrow> 'v tagged_value \<Rightarrow> nat \<Rightarrow> 'v tagged_value outcome" where
  "sl_cast L t a w =
    (if t \<in> set sl_cast_tags
     then sl_op L (\<lambda>i xs. sl_make L i (dom_cast (dom_type L i) t (xs ! 0) w)) [a]
     else mixin_cast t a w)"

definition sl_lift :: "'v lattice \<Rightarrow> c_value \<Rightarrow> 'v tagged_value outcome" where
  "sl_lift L v =
    (let i = (case v of c_array b n \<Rightarrow> sl_array_lift L | _ \<Rightarrow> sl_scalar_lift L) in
     sl_make L i (dom_lift (dom_type L i) v))"

definition sl_any :: "'v lattice \<Rightarrow> 'v tagged_value outcome" where
  "sl_any L = sl_make L (sl_scalar_any L) (dom_any (dom_type L (sl_scalar_any L)))"

definition sl_any_range :: "'v lattice \<Rightarrow> int \<Rightarrow> int \<Rightarrow> 'v tagged_value outcome" where
  "sl_any_range L from to =
    sl_make L (sl_scalar_any L) (dom_any_range (dom_type L (sl_scalar_any L)) from to)"

text \<open>A value is cast to its own domain; \<open>assume\<close> refines it in place.\<close>

definition sl_assume :: "'v lattice \<Rightarrow> 'v tagged_value \<Rightarrow> bool \<Rightarrow> 'v tagged_value outcome" where
  "sl_assume L a c =
    cast_one L 0 (\<lambda>(i, x). omap (\<lambda>y. a\<lparr>tv_payload := y\<rparr>) (dom_assume (dom_type L i) x c)) a"

definition sl_to_tristate :: "'v lattice \<Rightarrow> 'v tagged_value \<Rightarrow> tristate outcome" where
  "sl_to_tristate L a = cast_one L 0 (\<lambda>(i, x). dom_to_tristate (dom_type L i) x) a"

definition sl_clone :: "'v lattice \<Rightarrow> 'v tagged_value \<Rightarrow> 'v tagged_value outcome" where
  "sl_clone L a = cast_one L 0 (\<lambda>(i, x). sl_make L i (Ret x)) a"

definition sl_domain :: "'v lattice \<Rightarrow> 'v tagged_value domain" where
  "sl_domain L =
    \<lparr>dom_lift = sl_lift L, dom_any = sl_any L, dom_any_range = sl_any_range L,
     dom_assume = sl_assume L, dom_to_tristate = sl_to_tristate L, dom_bin = sl_bin L,
     dom_cast = sl_cast L, dom_bop = mixin_bop, dom_bun = mixin_bun\<rparr>"

section \<open>The two metadomains\<close>

text \<open>An operation of a member domain, on payloads that must be its own.\<close>

definition own2 :: "('v \<Rightarrow> 'a option) \<Rightarrow> ('a \<Rightarrow> 'a \<Rightarrow> 'r outcome) \<Rightarrow> 'v \<Rightarrow> 'v \<Rightarrow> 'r outcome" where
  "own2 prj f x y = (case (prj x, prj y) of (Some a, Some b) \<Rightarrow> f a b | _ \<Rightarrow> Undef)"

definition own1 :: "('v \<Rightarrow> 'a option) \<Rightarrow> ('a \<Rightarrow> 'r outcome) \<Rightarrow> 'v \<Rightarrow> 'r outcome" where
  "own1 prj f x = (case prj x of Some a \<Rightarrow> f a | None \<Rightarrow> Undef)"

definition embed :: "('a \<Rightarrow> 'v) \<Rightarrow> ('v \<Rightarrow> 'a option) \<Rightarrow> 'a domain \<Rightarrow> 'v domain" where
  "embed inj_v prj D =
    \<lparr>dom_lift = (\<lambda>v. omap inj_v (dom_lift D v)), dom_any = omap inj_v (dom_any D),
     dom_any_range = (\<lambda>lo hi. omap inj_v (dom_any_range D lo hi)),
     dom_assume = (\<lambda>x c. own1 prj (\<lambda>a. omap inj_v (dom_assume D a c)) x),
     dom_to_tristate = own1 prj (dom_to_tristate D),
     dom_bin = (\<lambda>t. own2 prj (\<lambda>a b. omap inj_v (dom_bin D t a b))),
     dom_cast = (\<lambda>t x w. own1 prj (\<lambda>a. omap inj_v (dom_cast D t a w)) x),
     dom_bop = mixin_bop, dom_bun = mixin_bun\<rparr>"

datatype trivial_value = triv_unit | triv_constant constant_data

definition as_unit :: "trivial_value \<Rightarrow> unit option" where
  "as_unit v = (case v of triv_unit \<Rightarrow> Some () | triv_constant c \<Rightarrow> None)"

definition as_constant :: "trivial_value \<Rightarrow> constant_data option" where
  "as_constant v = (case v of triv_unit \<Rightarrow> None | triv_constant c \<Rightarrow> Some c)"

abbreviation unit_idx :: int where "unit_idx \<equiv> 0"
abbreviation constant_idx :: int where "constant_idx \<equiv> 1"

definition trivial_join :: "int \<Rightarrow> int \<Rightarrow> int" where
  "trivial_join a b = (if a = constant_idx then b else if b = constant_idx then a else unit_idx)"

text \<open>A constant lifts to the unit value; nothing lifts to a constant.\<close>

definition trivial_lattice :: "nat \<times> int \<Rightarrow> trivial_value lattice" where
  "trivial_lattice fl =
    \<lparr>sl_doms = [embed (\<lambda>_. triv_unit) as_unit unit_domain, embed triv_constant as_constant (con_domain fl)],
     sl_join = trivial_join,
     sl_convert = (\<lambda>to from x. if to = unit_idx then own1 as_constant (\<lambda>c. Ret triv_unit) x else Undef),
     sl_result = (\<lambda>i t. i),
     sl_scalar_lift = constant_idx, sl_scalar_any = unit_idx, sl_array_lift = unit_idx\<rparr>"

text \<open>
  The metadomain of pointers: constants, numbers of an arithmetic domain, and pointers with
  such a number. Comparing two pointers gives a number. \<open>st\<close> is the map of the identifiers.
\<close>

datatype 'a pointers_value = pv_constant constant_data | pv_number 'a | pv_pointer "'a pointer_data"

definition as_con :: "'a pointers_value \<Rightarrow> constant_data option" where
  "as_con v = (case v of pv_constant c \<Rightarrow> Some c | _ \<Rightarrow> None)"

definition as_number :: "'a pointers_value \<Rightarrow> 'a option" where
  "as_number v = (case v of pv_number n \<Rightarrow> Some n | _ \<Rightarrow> None)"

definition as_pointer :: "'a pointers_value \<Rightarrow> 'a pointer_data option" where
  "as_pointer v = (case v of pv_pointer p \<Rightarrow> Some p | _ \<Rightarrow> None)"

abbreviation co_idx :: int where "co_idx \<equiv> 0"
abbreviation ar_idx :: int where "ar_idx \<equiv> 1"
abbreviation pa_idx :: int where "pa_idx \<equiv> 2"

definition pointers_join :: "int \<Rightarrow> int \<Rightarrow> int" where
  "pointers_join a b =
    (if a = co_idx then b else if b = co_idx then a
     else if a = pa_idx \<or> b = pa_idx then pa_idx else ar_idx)"

definition pa_domain :: "'a domain \<Rightarrow> 'a objects \<Rightarrow> 'a pointers_value domain" where
  "pa_domain D st =
    \<lparr>dom_lift = (\<lambda>v. omap pv_pointer (pa_lift D st v)), dom_any = omap pv_pointer pa_any,
     dom_any_range = (\<lambda>lo hi. omap pv_pointer (pa_any_range lo hi)),
     dom_assume = (\<lambda>x c. own1 as_pointer (\<lambda>p. omap pv_pointer (pa_assume p c)) x),
     dom_to_tristate = own1 as_pointer (\<lambda>p. Ret (pa_to_tristate p)),
     dom_bin = (\<lambda>t. own2 as_pointer (\<lambda>p q. if pa_comparison t = None then omap pv_pointer (pa_bin D t p q)
       else omap pv_number (pa_cmp D t p q))),
     dom_cast = (\<lambda>t x w. own1 as_pointer (\<lambda>p. omap pv_pointer (pa_cast D t p w)) x),
     dom_bop = mixin_bop, dom_bun = mixin_bun\<rparr>"

definition lift_constant_number :: "'a domain \<Rightarrow> constant_data \<Rightarrow> 'a outcome" where
  "lift_constant_number D = con_lift_to (\<lambda>s w n. dom_lift D (if w = 1 then c_bool (n \<noteq> 0) else c_int s w n))"

definition pointers_convert ::
  "'a domain \<Rightarrow> 'a objects \<Rightarrow> int \<Rightarrow> int \<Rightarrow> 'a pointers_value \<Rightarrow> 'a pointers_value outcome" where
  "pointers_convert D st to from x =
    (if to = ar_idx \<and> from = co_idx then own1 as_con (\<lambda>c. omap pv_number (lift_constant_number D c)) x
     else if to = pa_idx \<and> from = co_idx then own1 as_con (\<lambda>c. omap pv_pointer (pa_lift_constant D st c)) x
     else if to = pa_idx \<and> from = ar_idx then own1 as_number (\<lambda>n. omap pv_pointer (pa_lift_arithmetic n)) x
     else Undef)"

definition pointers_lattice :: "nat \<times> int \<Rightarrow> 'a domain \<Rightarrow> 'a objects \<Rightarrow> 'a pointers_value lattice" where
  "pointers_lattice fl D st =
    \<lparr>sl_doms = [embed pv_constant as_con (con_domain fl), embed pv_number as_number D, pa_domain D st],
     sl_join = pointers_join, sl_convert = pointers_convert D st,
     sl_result = (\<lambda>i t. if i = pa_idx \<and> pa_comparison t \<noteq> None then ar_idx else i),
     sl_scalar_lift = co_idx, sl_scalar_any = ar_idx, sl_array_lift = co_idx\<rparr>"

section \<open>The dispatch reaches the join\<close>

text \<open>What the dispatch relies on: the join stays in the list and is idempotent.\<close>

locale domain_join =
  fixes J :: "int \<Rightarrow> int \<Rightarrow> int" and n :: int
  assumes join_closed: "\<lbrakk>0 \<le> a; a < n; 0 \<le> b; b < n\<rbrakk> \<Longrightarrow> 0 \<le> J a b \<and> J a b < n"
    and join_idem: "\<lbrakk>0 \<le> a; a < n\<rbrakk> \<Longrightarrow> J a a = a"
begin

lemma join_all_closed:
  "args \<noteq> [] \<Longrightarrow> \<forall>a \<in> set args. 0 \<le> a \<and> a < n \<Longrightarrow> 0 \<le> join_all J args \<and> join_all J args < n"
proof (induction args rule: induct_list012)
  case (3 a b args)
  then show ?case using join_closed [of a "join_all J (b # args)"] by auto
qed auto

lemma join_all_again:
  assumes "args \<noteq> []" "\<forall>a \<in> set args. 0 \<le> a \<and> a < n"
  shows "join_all J (join_all J args # args) = join_all J args"
proof -
  obtain a as where "args = a # as" using assms(1) by (cases args) auto
  then show ?thesis
    using join_all_closed [OF assms] join_idem [of "join_all J args"] assms(2) by simp
qed

end

lemma in_domain_at:
  assumes "idx \<le> goal" "goal < sl_size L" "join_all (sl_join L) (goal # map fst args) = goal"
  shows "in_domain L idx goal operation args = obind (lift_args L goal args) (operation goal)"
  using assms
proof (induction "nat (goal - idx)" arbitrary: idx)
  case 0
  then show ?case by (subst in_domain.simps) auto
next
  case (Suc k)
  then have "k = nat (goal - (idx + 1))" "idx + 1 \<le> goal" "idx \<noteq> goal" "idx < sl_size L" by auto
  then show ?case using Suc.hyps(1) [of "idx + 1"] Suc.prems by (subst in_domain.simps) auto
qed

lemma cast_one_at:
  assumes "idx \<le> tv_tag v" "tv_tag v < sl_size L"
  shows "cast_one L idx operation v = operation (tv_tag v, tv_payload v)"
  using assms
proof (induction "nat (tv_tag v - idx)" arbitrary: idx)
  case 0
  then show ?case by (subst cast_one.simps) auto
next
  case (Suc k)
  then have "k = nat (tv_tag v - (idx + 1))" "idx + 1 \<le> tv_tag v" "idx \<noteq> tv_tag v" "idx < sl_size L" by auto
  then show ?case using Suc.hyps(1) [of "idx + 1"] Suc.prems by (subst cast_one.simps) auto
qed

lemma cast_one_trap:
  "tv_tag v < idx \<or> sl_size L \<le> tv_tag v \<Longrightarrow> cast_one L idx operation v = Fault ''trap''"
proof (induction "nat (sl_size L - idx)" arbitrary: idx)
  case 0
  then show ?case by (subst cast_one.simps) auto
next
  case (Suc k)
  then have "k = nat (sl_size L - (idx + 1))" "tv_tag v < idx + 1 \<or> sl_size L \<le> tv_tag v" by auto
  then show ?case using Suc.hyps(1) [of "idx + 1"] Suc.prems by (subst cast_one.simps) auto
qed

definition tag_ok :: "'v lattice \<Rightarrow> 'v tagged_value \<Rightarrow> bool" where
  "tag_ok L v \<longleftrightarrow> 0 \<le> tv_tag v \<and> tv_tag v < sl_size L"

lemma cast_all_at:
  "\<forall>v \<in> set args. tag_ok L v \<Longrightarrow>
    cast_all L operation args = operation (map (\<lambda>v. (tv_tag v, tv_payload v)) args)"
proof (induction args arbitrary: operation)
  case (Cons v args)
  then show ?case by (simp add: cast_one_at tag_ok_def)
qed simp

lemma sl_op_eval:
  assumes "domain_join (sl_join L) (sl_size L)" "args \<noteq> []" "\<forall>v \<in> set args. tag_ok L v"
  shows "sl_op L operation args =
    obind (lift_args L (join_all (sl_join L) (map tv_tag args)) (map (\<lambda>v. (tv_tag v, tv_payload v)) args))
      (operation (join_all (sl_join L) (map tv_tag args)))"
proof -
  have t: "map tv_tag args \<noteq> []" "\<forall>a \<in> set (map tv_tag args). 0 \<le> a \<and> a < sl_size L"
    using assms(2,3) by (auto simp: tag_ok_def)
  show ?thesis
    using domain_join.join_all_closed [OF assms(1) t] domain_join.join_all_again [OF assms(1) t]
    by (simp add: sl_op_def Let_def cast_all_at [OF assms(3)] in_domain_at comp_def)
qed

section \<open>The trivial metadomain\<close>

interpretation trivial_tags: domain_join trivial_join 2
  by unfold_locales (auto simp: trivial_join_def)

interpretation pointers_tags: domain_join pointers_join 3
  by unfold_locales (auto simp: pointers_join_def)

lemma trivial_sel [simp]:
  "sl_doms (trivial_lattice fl) =
    [embed (\<lambda>_. triv_unit) as_unit unit_domain, embed triv_constant as_constant (con_domain fl)]"
  "sl_join (trivial_lattice fl) = trivial_join" "sl_result (trivial_lattice fl) i t = i"
  by (simp_all add: trivial_lattice_def)

lemma trivial_dispatch:
  "args \<noteq> [] \<Longrightarrow> \<forall>v \<in> set args. tag_ok (trivial_lattice fl) v \<Longrightarrow>
    sl_op (trivial_lattice fl) operation args =
      obind (lift_args (trivial_lattice fl) (join_all trivial_join (map tv_tag args))
          (map (\<lambda>v. (tv_tag v, tv_payload v)) args))
        (operation (join_all trivial_join (map tv_tag args)))"
  using sl_op_eval [of "trivial_lattice fl" args operation] trivial_tags.domain_join_axioms by simp

text \<open>The values the metadomain makes: the tag says which payload there is.\<close>

definition triv :: "trivial_value \<Rightarrow> trivial_value tagged_value" where
  "triv v = \<lparr>tv_tag = (case v of triv_unit \<Rightarrow> unit_idx | triv_constant c \<Rightarrow> constant_idx), tv_payload = v\<rparr>"

lemma triv_sel [simp]:
  "tv_payload (triv v) = v" "tv_tag (triv triv_unit) = unit_idx" "tv_tag (triv (triv_constant c)) = constant_idx"
  by (simp_all add: triv_def)

lemma triv_tag_ok [simp]: "tag_ok (trivial_lattice fl) (triv v)"
  by (cases v) (simp_all add: tag_ok_def)

lemma sl_make_triv [simp]:
  "sl_make L unit_idx (omap (\<lambda>_. triv_unit) m) = omap (\<lambda>_. triv triv_unit) m"
  "sl_make L constant_idx (omap triv_constant n) = omap (\<lambda>c. triv (triv_constant c)) n"
proof -
  show "sl_make L unit_idx (omap (\<lambda>_. triv_unit) m) = omap (\<lambda>_. triv triv_unit) m"
    by (cases m) (simp_all add: sl_make_def set_tag_def mk_tagged_def triv_def)
  show "sl_make L constant_idx (omap triv_constant n) = omap (\<lambda>c. triv (triv_constant c)) n"
    by (cases n) (simp_all add: sl_make_def set_tag_def mk_tagged_def triv_def)
qed

lemma trivial_lift_to [simp]:
  "lift_to (trivial_lattice fl) i i x = Ret x"
  "lift_to (trivial_lattice fl) unit_idx constant_idx (triv_constant c) = Ret triv_unit"
  by (simp_all add: lift_to_def trivial_lattice_def own1_def as_constant_def)

lemma embed_unit_bin [simp]:
  "dom_bin (embed (\<lambda>_. triv_unit) as_unit unit_domain) t triv_unit triv_unit =
    omap (\<lambda>_. triv_unit) (unit_bin t () ())"
  by (simp add: embed_def own2_def as_unit_def unit_domain_def)

lemma embed_constant_bin [simp]:
  "dom_bin (embed triv_constant as_constant (con_domain fl)) t (triv_constant a) (triv_constant b) =
    omap triv_constant (con_bin t a b)"
  by (simp add: embed_def own2_def as_constant_def con_domain_def)

lemma trivial_bin_eval:
  "t \<in> set sl_bin_tags \<Longrightarrow> sl_bin (trivial_lattice fl) t (triv x) (triv y) =
    (case (x, y) of
       (triv_constant a, triv_constant b) \<Rightarrow> omap (\<lambda>c. triv (triv_constant c)) (con_bin t a b)
     | _ \<Rightarrow> omap (\<lambda>_. triv triv_unit) (unit_bin t () ()))"
  by (cases x; cases y) (simp_all add: sl_bin_def trivial_dispatch trivial_join_def dom_type_def)

lemma trivial_cast_eval:
  "t \<in> set sl_cast_tags \<Longrightarrow> sl_cast (trivial_lattice fl) t (triv x) w =
    (case x of triv_constant a \<Rightarrow> omap (\<lambda>c. triv (triv_constant c)) (con_cast t a w)
     | triv_unit \<Rightarrow> omap (\<lambda>_. triv triv_unit) (unit_cast t () w))"
  by (cases x)
    (simp_all add: sl_cast_def trivial_dispatch dom_type_def embed_def own1_def as_unit_def as_constant_def
      unit_domain_def con_domain_def)

text \<open>A value stands for every word when it is the unit, for the word of its constant otherwise.\<close>

definition trivial_gamma :: "trivial_value tagged_value \<Rightarrow> 'w::len word set" where
  "trivial_gamma v = {x. v = triv triv_unit \<or> (\<exists>c. v = triv (triv_constant c) \<and> x \<in> con_gamma c)}"

lemma con_ops_tags:
  "t \<in> con_ops w \<Longrightarrow> t \<in> set sl_bin_tags \<and> t \<in> set unit_bin_tags"
  by (auto simp: con_ops_def con_unsigned_tags_def con_signed_tags_def sl_bin_tags_def unit_bin_tags_def
      split: if_splits)

lemma triv_inject [simp]: "triv p = triv q \<longleftrightarrow> p = q"
  by (auto simp: triv_def)

lemma trivial_forward:
  fixes x y z :: "'w::len word"
  assumes t: "t \<in> con_ops LENGTH('w)" and x: "x \<in> trivial_gamma a" and y: "y \<in> trivial_gamma b"
    and z: "con_word t x y = Some z"
  shows "osound (sl_bin (trivial_lattice fl) t a b) (\<lambda>c. z \<in> trivial_gamma c)"
proof -
  obtain u v where a: "a = triv u" and b: "b = triv v"
    using x y by (auto simp: trivial_gamma_def)
  have "osound (con_bin t c d) (\<lambda>e. z \<in> con_gamma e)" if "u = triv_constant c" "v = triv_constant d" for c d
    using con_forward_sound [OF t _ _ z] x y that unfolding a b trivial_gamma_def by auto
  then show ?thesis
    using con_ops_tags [OF t] unfolding a b
    by (cases u; cases v) (simp_all add: trivial_bin_eval unit_bin_def trivial_gamma_def osound_omap)
qed

interpretation triv_forward: forward_sound "sl_domain (trivial_lattice fl)"
    "trivial_gamma :: trivial_value tagged_value \<Rightarrow> 'w::len word set" con_word "con_ops LENGTH('w)"
  for fl :: "nat \<times> int"
  by unfold_locales (simp add: sl_domain_def trivial_forward)

section \<open>The metadomain of pointers\<close>

definition ptv :: "'a pointers_value \<Rightarrow> 'a pointers_value tagged_value" where
  "ptv v = \<lparr>tv_tag = (case v of pv_constant c \<Rightarrow> co_idx | pv_number n \<Rightarrow> ar_idx | pv_pointer p \<Rightarrow> pa_idx),
     tv_payload = v\<rparr>"

lemma ptv_sel [simp]:
  "tv_payload (ptv v) = v" "tv_tag (ptv (pv_constant c)) = co_idx" "tv_tag (ptv (pv_number n)) = ar_idx"
  "tv_tag (ptv (pv_pointer p)) = pa_idx"
  by (simp_all add: ptv_def)

lemma pointers_sel [simp]:
  "sl_doms (pointers_lattice fl D st) =
    [embed pv_constant as_con (con_domain fl), embed pv_number as_number D, pa_domain D st]"
  "sl_join (pointers_lattice fl D st) = pointers_join"
  "sl_convert (pointers_lattice fl D st) = pointers_convert D st"
  by (simp_all add: pointers_lattice_def)

lemma ptv_tag_ok [simp]: "tag_ok (pointers_lattice fl D st) (ptv v)"
  by (cases v) (simp_all add: tag_ok_def)

lemma pointers_dispatch:
  "args \<noteq> [] \<Longrightarrow> \<forall>v \<in> set args. tag_ok (pointers_lattice fl D st) v \<Longrightarrow>
    sl_op (pointers_lattice fl D st) operation args =
      obind (lift_args (pointers_lattice fl D st) (join_all pointers_join (map tv_tag args))
          (map (\<lambda>v. (tv_tag v, tv_payload v)) args))
        (operation (join_all pointers_join (map tv_tag args)))"
  using sl_op_eval [of "pointers_lattice fl D st" args operation] pointers_tags.domain_join_axioms by simp

lemma pointer_number_traps:
  assumes "t \<in> set sl_bin_tags"
  shows "sl_bin (pointers_lattice fl D st) t (ptv (pv_pointer p)) (ptv (pv_number n)) = Fault ''''"
    and "sl_bin (pointers_lattice fl D st) t (ptv (pv_number n)) (ptv (pv_pointer p)) = Fault ''''"
  using assms
  by (simp_all add: sl_bin_def pointers_dispatch pointers_join_def lift_to_def
      pointers_convert_def own1_def as_number_def pa_lift_arithmetic_def)

section \<open>Properties\<close>

text \<open>
  An operation of the trivial metadomain on two values runs in the join of their domains: on two
  constants it is the operation of the constant domain, and as soon as one is unknown both are
  lifted to the unit domain and the result is unknown. A value whose tag was never set traps.
\<close>

theorem trivial_operations:
  assumes "t \<in> set sl_bin_tags"
  shows "sl_bin (trivial_lattice fl) t (triv x) (triv y) =
      (case (x, y) of
         (triv_constant a, triv_constant b) \<Rightarrow> omap (\<lambda>c. triv (triv_constant c)) (con_bin t a b)
       | _ \<Rightarrow> omap (\<lambda>_. triv triv_unit) (unit_bin t () ())) \<and>
    sl_bin (trivial_lattice fl) t (mk_tagged x) (triv y) = Fault ''trap''"
proof -
  have "cast_one (trivial_lattice fl) 0 h (mk_tagged x) = Fault ''trap''" for h :: "int \<times> trivial_value \<Rightarrow> trivial_value tagged_value outcome"
    by (rule cast_one_trap) (simp add: mk_tagged_def invalid_tag_def)
  then show ?thesis
    using trivial_bin_eval [OF assms, of fl x y] assms by (simp add: sl_bin_def sl_op_def Let_def)
qed

text \<open>
  In the metadomain of pointers every binary operation on a pointer and a symbolic number traps,
  in both orders: the join of their domains is that of pointers, and the conversion of a number to
  a pointer is not implemented. Pointer arithmetic with an unknown offset never succeeds.
\<close>

theorem pointer_meets_number:
  assumes "t \<in> set sl_bin_tags"
  shows "sl_bin (pointers_lattice fl D st) t (ptv (pv_pointer p)) (ptv (pv_number n)) = Fault '''' \<and>
    sl_bin (pointers_lattice fl D st) t (ptv (pv_number n)) (ptv (pv_pointer p)) = Fault ''''"
  by (simp add: pointer_number_traps [OF assms])



end
