(* ===== verification/Lamp_Wrapper.thy ===== *)
theory Lamp_Wrapper
  imports Metadomain Shadow_Memory Runtime_Stash
begin

text \<open>
  The entry points that instrumented programs call, \<open>lamp/wrapper.hpp\<close>, and the frames of
  \<open>lamp/memory.hpp\<close>, over any domain \<open>D\<close> (the metadomain a build of the wrapper is compiled with).
  A value is passed as a pointer to its storage; the storage is a heap, in which the value made
  at position \<open>i\<close> has the address \<open>i + 1\<close>. Abstract arguments go through the stash, abstract values
  in the memory of the program through the shadow.
\<close>

section \<open>State\<close>

record 'v lamp =
  lamp_heap :: "'v list"
  lamp_stash :: stash_state
  lamp_shadow :: shadow_state

definition new_value :: "'v \<Rightarrow> 'v lamp \<Rightarrow> 64 word \<times> 'v lamp" where
  "new_value v s = (of_nat (length (lamp_heap s)) + 1, s\<lparr>lamp_heap := lamp_heap s @ [v]\<rparr>)"

definition deref :: "64 word \<Rightarrow> 'v lamp \<Rightarrow> 'v outcome" where
  "deref p s = (if p \<noteq> 0 \<and> unat p \<le> length (lamp_heap s) then Ret (lamp_heap s ! (unat p - 1)) else Undef)"

section \<open>Entry points\<close>

text \<open>\<open>wrap\<close> makes the result of an operation a pointer that nobody owns.\<close>

definition wrap_value :: "'v outcome \<Rightarrow> 'v lamp \<Rightarrow> (64 word \<times> 'v lamp) outcome" where
  "wrap_value m s = omap (\<lambda>v. new_value v s) m"

definition wrap1 :: "('v \<Rightarrow> 'v outcome) \<Rightarrow> 64 word \<Rightarrow> 'v lamp \<Rightarrow> (64 word \<times> 'v lamp) outcome" where
  "wrap1 operation a s = obind (deref a s) (\<lambda>x. wrap_value (operation x) s)"

definition wrap2 ::
  "('v \<Rightarrow> 'v \<Rightarrow> 'v outcome) \<Rightarrow> 64 word \<Rightarrow> 64 word \<Rightarrow> 'v lamp \<Rightarrow> (64 word \<times> 'v lamp) outcome" where
  "wrap2 operation a b s = obind (deref a s) (\<lambda>x. wrap1 (operation x) b s)"

definition lamp_wrap :: "'v domain \<Rightarrow> c_value \<Rightarrow> 'v lamp \<Rightarrow> (64 word \<times> 'v lamp) outcome" where
  "lamp_wrap D v s = wrap_value (dom_lift D v) s"

text \<open>Lifting returns the argument and stashes its abstraction; a made value is zero in the program.\<close>

definition lamp_lift :: "'v domain \<Rightarrow> c_value \<Rightarrow> 'v lamp \<Rightarrow> (c_value \<times> 'v lamp) outcome" where
  "lamp_lift D arg s =
    omap (\<lambda>(p, s'). (arg, s'\<lparr>lamp_stash := lart_stash True p (lamp_stash s')\<rparr>)) (lamp_wrap D arg s)"

definition default_tainted_value :: int where
  "default_tainted_value = 0"

definition lamp_any_by :: "'v outcome \<Rightarrow> 'v lamp \<Rightarrow> (int \<times> 'v lamp) outcome" where
  "lamp_any_by m s =
    omap (\<lambda>(p, s'). (default_tainted_value, s'\<lparr>lamp_stash := lart_stash True p (lamp_stash s')\<rparr>))
      (wrap_value m s)"

definition lamp_any :: "'v domain \<Rightarrow> 'v lamp \<Rightarrow> (int \<times> 'v lamp) outcome" where
  "lamp_any D = lamp_any_by (dom_any D)"

definition lamp_any_range :: "'v domain \<Rightarrow> int \<Rightarrow> int \<Rightarrow> 'v lamp \<Rightarrow> (int \<times> 'v lamp) outcome" where
  "lamp_any_range D from to = lamp_any_by (dom_any_range D from to)"

definition lamp_bin ::
  "'v domain \<Rightarrow> op_tag \<Rightarrow> 64 word \<Rightarrow> 64 word \<Rightarrow> 'v lamp \<Rightarrow> (64 word \<times> 'v lamp) outcome" where
  "lamp_bin D t = wrap2 (dom_bin D t)"

definition lamp_cast ::
  "'v domain \<Rightarrow> op_tag \<Rightarrow> 64 word \<Rightarrow> 8 word \<Rightarrow> 'v lamp \<Rightarrow> (64 word \<times> 'v lamp) outcome" where
  "lamp_cast D t a b = wrap1 (\<lambda>x. dom_cast D t x (unat b)) a"

definition lamp_to_tristate :: "'v domain \<Rightarrow> 64 word \<Rightarrow> 'v lamp \<Rightarrow> tristate outcome" where
  "lamp_to_tristate D v s = obind (deref v s) (dom_to_tristate D)"

definition lamp_to_bool :: "'v domain \<Rightarrow> 64 word \<Rightarrow> 'v lamp \<Rightarrow> bool run" where
  "lamp_to_bool D v s = rbind [lamp_to_tristate D v s] tri_lower"

text \<open>The value that is assumed is refined in place.\<close>

definition lamp_assume :: "'v domain \<Rightarrow> 64 word \<Rightarrow> bool \<Rightarrow> 'v lamp \<Rightarrow> 'v lamp outcome" where
  "lamp_assume D a c s =
    obind (deref a s) (\<lambda>x.
      omap (\<lambda>y. s\<lparr>lamp_heap := (lamp_heap s)[unat a - 1 := y]\<rparr>) (dom_assume D x c))"

definition lamp_copy :: "64 word \<Rightarrow> 'v lamp \<Rightarrow> (64 word \<times> 'v lamp) outcome" where
  "lamp_copy = wrap1 Ret"

section \<open>Freeze and melt\<close>

definition lamp_freeze :: "64 word \<Rightarrow> 64 word \<Rightarrow> nat \<Rightarrow> 'v lamp \<Rightarrow> 'v lamp outcome" where
  "lamp_freeze val addr bytes s = omap (\<lambda>sh. s\<lparr>lamp_shadow := sh\<rparr>) (poke addr bytes val (lamp_shadow s))"

text \<open>The result so far and a new part of it at higher addresses; a null pointer is no result.\<close>

definition append_result ::
  "'v domain \<Rightarrow> 64 word \<Rightarrow> 64 word \<Rightarrow> 'v lamp \<Rightarrow> (64 word \<times> 'v lamp) outcome" where
  "append_result D result val s =
    (if result \<noteq> 0 then lamp_bin D tag_concat val result s else Ret (val, s))"

fun melt_loop ::
  "'v domain \<Rightarrow> (64 word \<Rightarrow> 8 word) \<Rightarrow> 64 word \<Rightarrow> nat \<Rightarrow> shadow_label_info list \<Rightarrow> nat \<Rightarrow> 64 word \<Rightarrow>
    'v lamp \<Rightarrow> (64 word \<times> 'v lamp) outcome" where
  "melt_loop D memory addr bytes [] offset result s = Ret (result, s)"
| "melt_loop D memory addr bytes (meta # metas) offset result s =
    (if info_value meta \<noteq> 0 then
       if info_bytes meta = bytes \<or> bytes = 0 then Ret (info_value meta, s)
       else if info_bytes meta > bytes then lamp_cast D tag_trunc (info_value meta) (of_nat (bytes * 8)) s
       else obind (append_result D result (info_value meta) s)
              (\<lambda>(r, s'). melt_loop D memory addr bytes metas (offset + info_bytes meta) r s')
     else
       obind (lamp_wrap D (c_int False 8 (uint (memory (addr + of_nat offset)))) s) (\<lambda>(p, s1).
         obind (append_result D result p s1)
           (\<lambda>(r, s'). melt_loop D memory addr bytes metas (offset + 1) r s')))"

text \<open>The labels are read to the end first; reading them ends in every state of the shadow.\<close>

definition lamp_melt ::
  "'v domain \<Rightarrow> (64 word \<Rightarrow> 8 word) \<Rightarrow> 64 word \<Rightarrow> nat \<Rightarrow> 'v lamp \<Rightarrow> (64 word \<times> 'v lamp) outcome option" where
  "lamp_melt D memory addr bytes s =
    map_option (\<lambda>metas. melt_loop D memory addr bytes metas 0 0 s)
      (peek addr (if bytes \<noteq> 0 then bytes else 1) (lamp_shadow s))"

section \<open>Frames of values\<close>

type_synonym 'v value_frames = "'v list list"

definition push_frame :: "'v value_frames \<Rightarrow> 'v value_frames" where
  "push_frame fs = fs @ [[]]"

definition pop_frame :: "'v value_frames \<Rightarrow> 'v value_frames outcome" where
  "pop_frame fs = (if fs = [] then Undef else Ret (butlast fs))"

section \<open>The heap\<close>

definition live :: "'v lamp \<Rightarrow> 64 word \<Rightarrow> bool" where
  "live s p \<longleftrightarrow> p \<noteq> 0 \<and> unat p \<le> length (lamp_heap s)"

definition roomy :: "nat \<Rightarrow> 'v lamp \<Rightarrow> bool" where
  "roomy k s \<longleftrightarrow> length (lamp_heap s) + k < 2 ^ 64"

lemma deref_live: "live s p \<Longrightarrow> deref p s = Ret (lamp_heap s ! (unat p - 1))"
  by (simp add: live_def deref_def)

lemma deref_eq_Ret: "deref p s = Ret v \<longleftrightarrow> live s p \<and> v = lamp_heap s ! (unat p - 1)"
  by (auto simp: live_def deref_def)

lemma new_value_unat:
  assumes "roomy 1 s"
  shows "unat (fst (new_value v s)) = Suc (length (lamp_heap s))"
proof -
  have "unat (of_nat (Suc (length (lamp_heap s))) :: 64 word) = Suc (length (lamp_heap s))"
    using assms by (simp add: roomy_def unat_of_nat del: of_nat_Suc)
  then show ?thesis by (simp add: new_value_def add.commute)
qed

lemma new_value_spec:
  assumes "roomy 1 s" "new_value v s = (p, s')"
  shows "live s' p" "deref p s' = Ret v" "\<not> live s p"
    and "live s q \<Longrightarrow> live s' q \<and> deref q s' = deref q s"
    and "lamp_stash s' = lamp_stash s" "lamp_shadow s' = lamp_shadow s" "roomy k s' = roomy (Suc k) s"
proof -
  have u: "unat p = Suc (length (lamp_heap s))"
    using new_value_unat [OF assms(1), of v] assms(2) by simp
  have s': "s' = s\<lparr>lamp_heap := lamp_heap s @ [v]\<rparr>" using assms(2) by (simp add: new_value_def)
  have p: "p \<noteq> 0" using u by (metis Zero_not_Suc unat_0)
  show "live s' p" "deref p s' = Ret v" "\<not> live s p"
    using u p by (simp_all add: live_def deref_def s')
  show "live s q \<Longrightarrow> live s' q \<and> deref q s' = deref q s"
    using unat_gt_0 [of q] by (auto simp: live_def deref_def s' nth_append)
  show "lamp_stash s' = lamp_stash s" "lamp_shadow s' = lamp_shadow s" "roomy k s' = roomy (Suc k) s"
    by (simp_all add: s' roomy_def)
qed

section \<open>Melting what was frozen\<close>

lemma freeze_spec:
  assumes "shadow_inv (lamp_shadow s)" "small_table (lamp_shadow s)" "val \<noteq> 0" "bytes > 0"
  shows "\<exists>s' label. lamp_freeze val addr bytes s = Ret s' \<and> shadow_inv (lamp_shadow s') \<and> label \<noteq> 0 \<and>
    lamp_heap s' = lamp_heap s \<and> lamp_stash s' = lamp_stash s \<and>
    shadow (lamp_shadow s') =
      (\<lambda>a. if a \<in> set (range_of addr bytes) then Some label else shadow (lamp_shadow s) a) \<and>
    get_shadow_label_info label (lamp_shadow s') = \<lparr>info_value = val, info_origin = addr, info_bytes = bytes\<rparr>"
proof -
  obtain sh label where "poke addr bytes val (lamp_shadow s) = Ret sh" "shadow_inv sh" "label \<noteq> 0"
    "shadow sh = (\<lambda>a. if a \<in> set (range_of addr bytes) then Some label else shadow (lamp_shadow s) a)"
    "map_of (shadow_info sh) label = Some \<lparr>info_value = val, info_origin = addr, info_bytes = bytes\<rparr>"
    using poke_spec [OF assms, of addr] by blast
  then show ?thesis
    by (intro exI [of _ "s\<lparr>lamp_shadow := sh\<rparr>"] exI [of _ label])
      (simp add: lamp_freeze_def get_shadow_label_info_def)
qed

text \<open>A read inside the frozen bytes yields the label of the whole value once.\<close>

lemma peek_inside:
  assumes "shadow sh (addr + of_nat j) = Some label" "label \<noteq> 0"
    and "get_shadow_label_info label sh = info" "0 < k" "k \<le> info_bytes info"
  shows "peek (addr + of_nat j) k sh = Some [info]"
proof -
  have "read_loop (addr + of_nat j) k sh (info_bytes info) = Some []"
    using assms(5) by (subst read_loop.simps) simp
  then have "read_loop (addr + of_nat j) k sh 0 = Some [label]"
    using assms by (subst read_loop.simps) simp
  then show ?thesis using assms(2,3) by (simp add: peek_def read_shadow_label_def)
qed

lemma in_range_of: "j < bytes \<Longrightarrow> addr + of_nat j \<in> set (range_of addr bytes)"
  by (auto simp: range_of_def)

lemma melt_inside:
  assumes "shadow_inv (lamp_shadow s)" "small_table (lamp_shadow s)" "val \<noteq> 0"
    and "lamp_freeze val addr bytes s = Ret s'" "0 < k" "j + k \<le> bytes"
  shows "lamp_melt D memory (addr + of_nat j) k s' =
    Some (if k = bytes then Ret (val, s') else lamp_cast D tag_trunc val (of_nat (k * 8)) s')"
proof -
  have b: "bytes > 0" using assms(5,6) by simp
  let ?info = "\<lparr>info_value = val, info_origin = addr, info_bytes = bytes\<rparr>"
  obtain label where l: "label \<noteq> 0"
    "shadow (lamp_shadow s') = (\<lambda>a. if a \<in> set (range_of addr bytes) then Some label else shadow (lamp_shadow s) a)"
    "get_shadow_label_info label (lamp_shadow s') = ?info"
    using freeze_spec [OF assms(1-3) b, of addr] assms(4) by auto
  have "shadow (lamp_shadow s') (addr + of_nat j) = Some label"
    using in_range_of [of j bytes addr] assms(5,6) l(2) by simp
  then have "peek (addr + of_nat j) k (lamp_shadow s') = Some [?info]"
    using peek_inside [OF _ l(1,3)] assms(5,6) by simp
  then show ?thesis
    using assms(3,5,6) by (auto simp: lamp_melt_def)
qed

text \<open>Bytes without a shadow are lifted one by one; the first one is read at the start.\<close>

lemma melt_concrete_byte:
  assumes "shadow (lamp_shadow s) addr = None"
  shows "lamp_melt D memory addr 1 s = Some (lamp_wrap D (c_int False 8 (uint (memory addr))) s)"
proof -
  have "read_loop addr 1 (lamp_shadow s) 1 = Some []" by (subst read_loop.simps) simp
  then have "read_loop addr 1 (lamp_shadow s) 0 = Some [0]"
    using assms by (subst read_loop.simps) simp
  then have "peek addr 1 (lamp_shadow s) = Some [\<lparr>info_value = 0, info_origin = 0, info_bytes = 1\<rparr>]"
    by (simp add: peek_def read_shadow_label_def)
  then show ?thesis
    by (cases "lamp_wrap D (c_int False 8 (uint (memory addr))) s")
      (auto simp: lamp_melt_def append_result_def)
qed

section \<open>Sound domains behind the entry points\<close>

text \<open>\<open>rho\<close> gives the number each pointer stands for in the concrete execution.\<close>

definition heap_holds :: "('v \<Rightarrow> 'c set) \<Rightarrow> 'v lamp \<Rightarrow> (64 word \<Rightarrow> 'c) \<Rightarrow> bool" where
  "heap_holds gamma s rho \<longleftrightarrow>
    (\<forall>p. live s p \<longrightarrow> rho p \<in> gamma (lamp_heap s ! (unat p - 1)))"

text \<open>What an entry point that makes a value does to the state, for the number \<open>z\<close>.\<close>

definition makes ::
  "('v \<Rightarrow> 'c set) \<Rightarrow> 'v lamp \<Rightarrow> (64 word \<Rightarrow> 'c) \<Rightarrow> 'c \<Rightarrow> 64 word \<Rightarrow> 'v lamp \<Rightarrow> bool" where
  "makes gamma s rho z p s' \<longleftrightarrow>
    live s' p \<and> \<not> live s p \<and> (\<forall>q. live s q \<longrightarrow> live s' q) \<and> heap_holds gamma s' (rho(p := z)) \<and>
    lamp_stash s' = lamp_stash s \<and> lamp_shadow s' = lamp_shadow s \<and>
    length (lamp_heap s') = Suc (length (lamp_heap s))"

lemma heap_holdsD:
  "heap_holds gamma s rho \<Longrightarrow> live s p \<Longrightarrow> \<exists>v. deref p s = Ret v \<and> rho p \<in> gamma v"
  by (auto simp: heap_holds_def deref_live)

lemma wrap_value_sound:
  assumes "osound m (\<lambda>v. z \<in> gamma v)" "heap_holds gamma s rho" "roomy 1 s"
  shows "osound (wrap_value m s) (\<lambda>(p, s'). makes gamma s rho z p s')"
proof (cases m)
  case (Ret v)
  obtain p s' where n: "new_value v s = (p, s')" by fastforce
  note f = new_value_spec [OF assms(3) n]
  have s': "lamp_heap s' = lamp_heap s @ [v]" using n by (auto simp: new_value_def)
  have "heap_holds gamma s' (rho(p := z))"
    unfolding heap_holds_def
  proof (intro allI impI)
    fix q assume q: "live s' q"
    show "(rho(p := z)) q \<in> gamma (lamp_heap s' ! (unat q - 1))"
    proof (cases "q = p")
      case True
      with f(2) Ret assms(1) show ?thesis by (simp add: deref_eq_Ret)
    next
      case False
      have "unat q \<noteq> unat p" using False by (metis unsigned_word_eqI)
      moreover have "unat p = Suc (length (lamp_heap s))"
        using new_value_unat [OF assms(3), of v] n by simp
      ultimately have "live s q" using q s' by (auto simp: live_def)
      with f(4) [of q] False assms(2) show ?thesis
        by (metis deref_live fun_upd_other heap_holds_def outcome.inject)
    qed
  qed
  with f n Ret s' show ?thesis by (auto simp: wrap_value_def makes_def)
qed (use assms in \<open>simp_all add: wrap_value_def\<close>)

context forward_sound
begin

lemma lamp_bin_sound:
  assumes "t \<in> ops" "heap_holds gamma s rho" "roomy 1 s" "live s a" "live s b"
    and "conc t (rho a) (rho b) = Some z"
  shows "osound (lamp_bin D t a b s) (\<lambda>(p, s'). makes gamma s rho z p s')"
proof -
  obtain x y where "deref a s = Ret x" "rho a \<in> gamma x" "deref b s = Ret y" "rho b \<in> gamma y"
    using heap_holdsD [OF assms(2,4)] heap_holdsD [OF assms(2,5)] by blast
  then show ?thesis
    using wrap_value_sound [OF bin_sound [OF assms(1) _ _ assms(6)] assms(2,3)]
    by (simp add: lamp_bin_def wrap2_def wrap1_def)
qed

end

section \<open>Properties\<close>

text \<open>
  C18: A value frozen to a range of memory is what melting the range gives back, with the heap and
  the stash as they were; and melting a part of it, wherever the part begins, truncates the whole
  value to the width of the part: the offset is ignored, so a part that does not begin at the
  start of the value is given the low bytes of it.
\<close>

theorem freeze_melt:
  assumes "shadow_inv (lamp_shadow s)" "small_table (lamp_shadow s)" "val \<noteq> 0"
    and "lamp_freeze val addr bytes s = Ret s'" "0 < k" "j + k \<le> bytes"
  shows "lamp_heap s' = lamp_heap s \<and> lamp_stash s' = lamp_stash s \<and>
    lamp_melt D memory (addr + of_nat j) k s' =
      Some (if k = bytes then Ret (val, s') else lamp_cast D tag_trunc val (of_nat (k * 8)) s')"
proof -
  have "0 < bytes" using assms(5,6) by simp
  from freeze_spec [OF assms(1-3) this, of addr] show ?thesis
    using melt_inside [OF assms] assms(4) by auto
qed

definition two_bytes :: "constant_data lamp" where
  "two_bytes = \<lparr>lamp_heap = [mk_con 0x1234 con_bv 16], lamp_stash = stash_init, lamp_shadow = setup_shadow\<rparr>"

theorem freeze_melt_witness:
  "\<exists>s'. lamp_freeze 1 4096 2 two_bytes = Ret s' \<and>
    lamp_heap s' = lamp_heap two_bytes \<and> lamp_stash s' = lamp_stash two_bytes \<and>
    lamp_melt (con_domain (0, 0)) (\<lambda>_. 0) (4096 + of_nat 1) 1 s' =
      Some (if (1 :: nat) = 2 then Ret (1, s') else lamp_cast (con_domain (0, 0)) tag_trunc 1 (of_nat (1 * 8)) s')"
proof -
  have s: "shadow_inv (lamp_shadow two_bytes)" "small_table (lamp_shadow two_bytes)"
    using setup_shadow_inv by (simp_all add: two_bytes_def small_table_def setup_shadow_def entry_frame_def)
  obtain s' where "lamp_freeze 1 4096 2 two_bytes = Ret s'"
    using freeze_spec [OF s, of 1 2 4096] by auto
  with freeze_melt [OF s _ this, of 1 1 "con_domain (0, 0)" "\<lambda>_. 0"] show ?thesis by auto
qed

end
