(* ===== verification/Operations.thy ===== *)
theory Operations
  imports Lamp_Wrapper
begin

text \<open>
  The abstract operations the compiler inserts, \<open>lartcc/include/cc/operation.hpp\<close> and
  \<open>arguments.hpp\<close>: for each kind of instruction its name, the entry point of \<open>lamp\<close> it calls, its
  arguments with the way they are passed, and the value it has when nothing is tainted.
  Instructions are LLVM's; the record \<open>code\<close> gives what the operations ask about them.
\<close>

section \<open>Arguments and operations\<close>

record code =
  cd_operand :: "nat \<Rightarrow> nat \<Rightarrow> nat"
  cd_pointer_operand :: "nat \<Rightarrow> nat"
  cd_value_operand :: "nat \<Rightarrow> nat"
  cd_condition :: "nat \<Rightarrow> nat"
  cd_opcode_name :: "nat \<Rightarrow> string"
  cd_predicate_name :: "nat \<Rightarrow> string"
  cd_int_div_rem :: "nat \<Rightarrow> bool"
  cd_element_bytes :: "nat \<Rightarrow> nat"
  cd_bits :: "nat \<Rightarrow> nat"
  cd_type :: "nat \<Rightarrow> string"

datatype operand = op_value nat | op_i64 nat | op_i8 "8 word" | op_i1 bool | abstract_pointer

datatype argtype = at_test | at_with_taint | at_concrete | at_abstract | at_unpack

record argument =
  arg_value :: operand
  arg_type :: argtype

definition mk_arg :: "operand \<Rightarrow> argtype \<Rightarrow> argument" where
  "mk_arg v t = \<lparr>arg_value = v, arg_type = t\<rparr>"

lemma mk_arg_sel [simp]: "arg_value (mk_arg v t) = v" "arg_type (mk_arg v t) = t"
  by (simp_all add: mk_arg_def)

datatype operation =
    o_melt nat | o_freeze nat | o_binary nat | o_cast nat | o_cmp nat | o_tobool nat
  | o_assume nat bool | o_alloc nat | o_store nat | o_load nat | o_stash nat | o_unstash nat
  | o_unstash_taint nat | o_identity nat | o_phi nat | o_dump nat

text \<open>What an operation returns on the concrete path.\<close>

datatype default_wrapper =
    abstract_pointer_default | concrete_value operand | concrete_argument_default nat

section \<open>Attributes\<close>

fun o_value :: "operation \<Rightarrow> nat" where
  "o_value (o_melt v) = v" | "o_value (o_freeze v) = v" | "o_value (o_binary v) = v"
| "o_value (o_cast v) = v" | "o_value (o_cmp v) = v" | "o_value (o_tobool v) = v"
| "o_value (o_assume v e) = v" | "o_value (o_alloc v) = v" | "o_value (o_store v) = v"
| "o_value (o_load v) = v" | "o_value (o_stash v) = v" | "o_value (o_unstash v) = v"
| "o_value (o_unstash_taint v) = v" | "o_value (o_identity v) = v" | "o_value (o_phi v) = v"
| "o_value (o_dump v) = v"

fun o_name :: "code \<Rightarrow> operation \<Rightarrow> string" where
  "o_name c (o_melt v) = ''melt''"
| "o_name c (o_freeze v) = ''freeze''"
| "o_name c (o_binary v) = cd_opcode_name c v"
| "o_name c (o_cast v) = cd_opcode_name c v"
| "o_name c (o_cmp v) = cd_predicate_name c v"
| "o_name c (o_tobool v) = ''tobool''"
| "o_name c (o_assume v e) = ''assume''"
| "o_name c (o_alloc v) = ''alloca''"
| "o_name c (o_store v) = ''store''"
| "o_name c (o_load v) = ''load''"
| "o_name c (o_stash v) = ''stash.'' @ cd_type c v"
| "o_name c (o_unstash v) = ''unstash''"
| "o_name c (o_unstash_taint v) = ''unstash_taint''"
| "o_name c (o_identity v) = ''identity''"
| "o_name c (o_phi v) = ''phi''"
| "o_name c (o_dump v) = ''dump''"

fun o_impl :: "code \<Rightarrow> operation \<Rightarrow> string outcome" where
  "o_impl c (o_melt v) = Ret ''__lamp_melt''"
| "o_impl c (o_freeze v) = Ret ''__lamp_freeze''"
| "o_impl c (o_binary v) = Ret (''__lamp_'' @ o_name c (o_binary v))"
| "o_impl c (o_cast v) = Ret (''__lamp_'' @ o_name c (o_cast v))"
| "o_impl c (o_cmp v) = Ret (''__lamp_'' @ o_name c (o_cmp v))"
| "o_impl c (o_tobool v) = Ret ''__lamp_to_bool''"
| "o_impl c (o_assume v e) = Ret ''__lamp_assume''"
| "o_impl c (o_alloc v) = Ret ''__lamp_alloca''"
| "o_impl c (o_store v) = Ret ''__lamp_store''"
| "o_impl c (o_load v) = Ret ''__lamp_load''"
| "o_impl c (o_stash v) = Ret ''__lart_stash''"
| "o_impl c (o_unstash v) = Ret ''__lart_unstash''"
| "o_impl c (o_unstash_taint v) = Ret ''__lart_unstash_taint''"
| "o_impl c (o_identity v) = Undef"
| "o_impl c (o_phi v) = Undef"
| "o_impl c (o_dump v) = Ret ''__lamp_dump''"

fun o_arguments :: "code \<Rightarrow> operation \<Rightarrow> argument list outcome" where
  "o_arguments c (o_melt v) = Ret
    [mk_arg (op_value v) at_test, mk_arg (op_value (cd_pointer_operand c v)) at_concrete,
     mk_arg (op_i64 (cd_element_bytes c (cd_pointer_operand c v))) at_concrete]"
| "o_arguments c (o_freeze v) = Ret
    [mk_arg (op_value (cd_value_operand c v)) at_with_taint,
     mk_arg (op_value (cd_pointer_operand c v)) at_concrete,
     mk_arg (op_i64 (cd_element_bytes c (cd_pointer_operand c v))) at_concrete]"
| "o_arguments c (o_binary v) = Ret
    [mk_arg (op_value (cd_operand c v 0)) at_with_taint, mk_arg (op_value (cd_operand c v 1)) at_with_taint]"
| "o_arguments c (o_cast v) = Ret
    [mk_arg (op_value (cd_operand c v 0)) at_with_taint, mk_arg (op_i8 (of_nat (cd_bits c v))) at_concrete]"
| "o_arguments c (o_cmp v) = Ret
    [mk_arg (op_value (cd_operand c v 0)) at_with_taint, mk_arg (op_value (cd_operand c v 1)) at_with_taint]"
| "o_arguments c (o_tobool v) = Ret [mk_arg (op_value (cd_condition c v)) at_with_taint]"
| "o_arguments c (o_assume v e) = Ret
    [mk_arg (op_value v) at_with_taint, mk_arg (op_i1 e) at_concrete]"
| "o_arguments c (o_alloc v) = Ret []"
| "o_arguments c (o_store v) = Ret
    [mk_arg (op_value (cd_pointer_operand c v)) at_with_taint,
     mk_arg (op_value (cd_value_operand c v)) at_with_taint,
     mk_arg (op_i8 (of_nat (cd_element_bytes c (cd_pointer_operand c v)))) at_concrete]"
| "o_arguments c (o_load v) = Ret
    [mk_arg (op_value (cd_pointer_operand c v)) at_with_taint,
     mk_arg (op_i8 (of_nat (cd_element_bytes c (cd_pointer_operand c v)))) at_concrete]"
| "o_arguments c (o_stash v) = Ret [mk_arg (op_value v) at_with_taint]"
| "o_arguments c (o_unstash v) = Ret []"
| "o_arguments c (o_unstash_taint v) = Ret []"
| "o_arguments c (o_identity v) = Undef"
| "o_arguments c (o_phi v) = Undef"
| "o_arguments c (o_dump v) = Ret [mk_arg (op_value v) at_concrete]"

definition o_faultable :: "code \<Rightarrow> operation \<Rightarrow> bool" where
  "o_faultable c x = (case x of o_binary v \<Rightarrow> cd_int_div_rem c v | _ \<Rightarrow> False)"

definition o_default_value :: "operation \<Rightarrow> default_wrapper option" where
  "o_default_value x =
    (case x of o_freeze v \<Rightarrow> None | o_assume v e \<Rightarrow> None | o_store v \<Rightarrow> None | o_stash v \<Rightarrow> None
     | o_dump v \<Rightarrow> None
     | o_unstash_taint v \<Rightarrow> Some (concrete_value (op_i1 False))
     | o_tobool v \<Rightarrow> Some (concrete_argument_default 1)
     | o_phi v \<Rightarrow> Some (concrete_argument_default 1)
     | _ \<Rightarrow> Some abstract_pointer_default)"

definition o_emit_test_taint :: "operation \<Rightarrow> bool" where
  "o_emit_test_taint x =
    (case x of o_melt v \<Rightarrow> True | o_binary v \<Rightarrow> True | o_cast v \<Rightarrow> True | o_cmp v \<Rightarrow> True
     | o_tobool v \<Rightarrow> True | o_assume v e \<Rightarrow> True | o_alloc v \<Rightarrow> True | o_store v \<Rightarrow> True
     | o_load v \<Rightarrow> True | _ \<Rightarrow> False)"

definition o_with_taints :: "operation \<Rightarrow> bool" where
  "o_with_taints x \<longleftrightarrow>
    o_emit_test_taint x \<or> (case x of o_freeze v \<Rightarrow> True | o_stash v \<Rightarrow> True | _ \<Rightarrow> False)"

definition o_replaces :: "code \<Rightarrow> operation \<Rightarrow> nat option" where
  "o_replaces c x =
    (case x of o_binary v \<Rightarrow> if o_faultable c x then Some v else None
     | o_tobool v \<Rightarrow> Some (cd_condition c v) | _ \<Rightarrow> None)"

definition o_returns_value :: "operation \<Rightarrow> bool" where
  "o_returns_value x \<longleftrightarrow> o_default_value x \<noteq> None"

definition o_with_abstract_arg :: "code \<Rightarrow> operation \<Rightarrow> bool outcome" where
  "o_with_abstract_arg c x = omap (list_ex (\<lambda>a. arg_type a = at_abstract)) (o_arguments c x)"

text \<open>The default among the arguments of the call; an index out of range is undefined.\<close>

definition extract_default :: "(operand \<Rightarrow> 'a) \<Rightarrow> default_wrapper \<Rightarrow> 'a list \<Rightarrow> 'a outcome" where
  "extract_default const d args =
    (case d of abstract_pointer_default \<Rightarrow> Ret (const abstract_pointer)
     | concrete_value v \<Rightarrow> Ret (const v)
     | concrete_argument_default idx \<Rightarrow> if idx < length args then Ret (args ! idx) else Undef)"

section \<open>Duplicated arguments\<close>

text \<open>
  An argument with a taint is passed three times: its taint, itself, its abstraction. The
  abstraction starts as a null pointer that is filled in once the operation that makes it exists.
\<close>

datatype actual = taint_of operand | concrete_of operand | abstract_of operand

definition duplicated_argument :: "argument \<Rightarrow> actual list" where
  "duplicated_argument a =
    (case arg_type a of
       at_abstract \<Rightarrow> [concrete_of (arg_value a), abstract_of (arg_value a)]
     | at_unpack \<Rightarrow> [taint_of (arg_value a), concrete_of (arg_value a), abstract_of (arg_value a)]
     | at_with_taint \<Rightarrow> [taint_of (arg_value a), concrete_of (arg_value a), abstract_of (arg_value a)]
     | at_test \<Rightarrow> [taint_of (arg_value a)]
     | at_concrete \<Rightarrow> [concrete_of (arg_value a)])"

definition duplicated_arguments :: "code \<Rightarrow> operation \<Rightarrow> actual list outcome" where
  "duplicated_arguments c x = omap (\<lambda>args. concat (map duplicated_argument args)) (o_arguments c x)"

section \<open>The entry points by name\<close>

text \<open>
  What \<open>module.getFunction\<close> finds among the functions \<open>wrapper.hpp\<close> exports, for those the
  operations call: \<open>None\<close> when there is none of that name.
\<close>

datatype lamp_entry =
  e_bin op_tag | e_cast op_tag | e_assume | e_to_bool | e_melt | e_freeze | e_alloca | e_store

definition lamp_bin_entries :: "(string \<times> op_tag) list" where
  "lamp_bin_entries = map (\<lambda>t. (''__lamp_'' @ mixin_name t, t)) mixin_bin_tags"

definition lamp_cast_entries :: "(string \<times> op_tag) list" where
  "lamp_cast_entries = map (\<lambda>t. (''__lamp_'' @ mixin_name t, t)) mixin_cast_tags"

definition lamp_entry :: "string \<Rightarrow> lamp_entry option" where
  "lamp_entry name =
    (case map_of lamp_bin_entries name of Some t \<Rightarrow> Some (e_bin t)
     | None \<Rightarrow> (case map_of lamp_cast_entries name of Some t \<Rightarrow> Some (e_cast t)
     | None \<Rightarrow> map_of [(''__lamp_assume'', e_assume), (''__lamp_to_bool'', e_to_bool),
         (''__lamp_melt'', e_melt), (''__lamp_freeze'', e_freeze), (''__lamp_alloca'', e_alloca),
         (''__lamp_store'', e_store)] name))"

lemma map_of_names:
  assumes "distinct (map f xs)" "t \<in> set xs"
  shows "map_of (map (\<lambda>t. (p @ f t, t)) xs) (p @ f t) = Some t"
  using assms by (induction xs) (auto, metis imageI)

lemma mixin_names_distinct: "distinct (map mixin_name (mixin_bin_tags @ mixin_cast_tags))"
  by code_simp

lemma lamp_entry_bin:
  assumes "t \<in> set mixin_bin_tags"
  shows "lamp_entry (''__lamp_'' @ mixin_name t) = Some (e_bin t)"
proof -
  have "map_of lamp_bin_entries (''__lamp_'' @ mixin_name t) = Some t"
    unfolding lamp_bin_entries_def using mixin_names_distinct assms by (intro map_of_names) auto
  then show ?thesis by (simp add: lamp_entry_def del: append.simps)
qed

lemma lamp_entry_cast:
  assumes "t \<in> set mixin_cast_tags"
  shows "lamp_entry (''__lamp_'' @ mixin_name t) = Some (e_cast t)"
proof -
  have "map_of lamp_cast_entries (''__lamp_'' @ mixin_name t) = Some t"
    unfolding lamp_cast_entries_def using mixin_names_distinct assms by (intro map_of_names) auto
  moreover have "mixin_name t \<notin> mixin_name ` set mixin_bin_tags"
    using mixin_names_distinct assms by auto
  then have "map_of lamp_bin_entries (''__lamp_'' @ mixin_name t) = None"
    unfolding lamp_bin_entries_def map_of_eq_None_iff by auto
  ultimately show ?thesis by (simp add: lamp_entry_def del: append.simps)
qed

text \<open>LLVM's names of the predicates.\<close>

definition icmp_predicates :: "(string \<times> op_tag) list" where
  "icmp_predicates =
    [(''eq'', tag_eq), (''ne'', tag_ne), (''ugt'', tag_ugt), (''uge'', tag_uge), (''ult'', tag_ult),
     (''ule'', tag_ule), (''sgt'', tag_sgt), (''sge'', tag_sge), (''slt'', tag_slt), (''sle'', tag_sle)]"

definition fcmp_predicates :: "(string \<times> op_tag) list" where
  "fcmp_predicates =
    [(''false'', tag_ffalse), (''oeq'', tag_foeq), (''ogt'', tag_fogt), (''oge'', tag_foge),
     (''olt'', tag_folt), (''ole'', tag_fole), (''one'', tag_fone), (''ord'', tag_ford),
     (''uno'', tag_funo), (''ueq'', tag_fueq), (''ugt'', tag_fugt), (''uge'', tag_fuge),
     (''ult'', tag_fult), (''ule'', tag_fule), (''une'', tag_fune), (''true'', tag_ftrue)]"

section \<open>Properties\<close>

lemma fcmp_entries:
  "list_all (\<lambda>(p, t). lamp_entry (''__lamp_'' @ p) = map_option e_bin (map_of icmp_predicates p) \<and>
    map_of icmp_predicates p \<noteq> Some t) fcmp_predicates"
  by code_simp

text \<open>
  No comparison of floating-point numbers calls its own entry point. The name of the entry point
  is made of the name of the LLVM predicate without the f that the entry points have: ordered
  predicates and the constant ones find no function, and the unordered ugt, uge, ult and ule find
  the comparison of unsigned integers.
\<close>

theorem float_comparisons_misdirected:
  assumes "(p, t) \<in> set fcmp_predicates" "cd_predicate_name c v = p"
  shows "omap lamp_entry (o_impl c (o_cmp v)) = Ret (map_option e_bin (map_of icmp_predicates p)) \<and>
    map_option e_bin (map_of icmp_predicates p) \<noteq> Some (e_bin t)"
  using fcmp_entries assms by (force simp: list_all_iff)

lemma icmp_entries:
  "list_all (\<lambda>(p, t). lamp_entry (''__lamp_'' @ p) = Some (e_bin t)) icmp_predicates"
  by code_simp

text \<open>
  Every comparison of integers calls the entry point of its own operation.
\<close>

theorem integer_comparisons_found:
  assumes "(p, t) \<in> set icmp_predicates" "cd_predicate_name c v = p"
  shows "omap lamp_entry (o_impl c (o_cmp v)) = Ret (Some (e_bin t))"
  using icmp_entries assms by (force simp: list_all_iff)

text \<open>
  A load through an abstract pointer passes the number of bytes of the loaded type where the
  domain expects its number of bits: for types of 1, 2, 4 and 8 bytes the constant domain never
  returns the value that the load should give (it reads one bit, fails, or reads the first byte
  only).
\<close>

theorem abstract_load_width:
  assumes "o_arguments c (o_load v) = Ret [a, b]" "arg_value b = op_i8 w"
    and "bytes = cd_element_bytes c (cd_pointer_operand c v)" "bytes \<in> {1, 2, 4, 8}"
    and "con_load m p (8 * bytes) = Ret x"
  shows "con_load m p (unat w) \<noteq> Ret x"
proof -
  have w: "unat w = bytes" using assms(1-4) by (auto simp: unat_of_nat)
  have bw: "con_bw y = n" if "con_load m p n = Ret y" for y n
    using that by (auto simp: con_load_def outcome_simps split: if_splits)
  show ?thesis using bw [of bytes x] bw [OF assms(5)] assms(4) by (auto simp: w)
qed

end
