(* ===== verification/Instrumentation.thy ===== *)
theory Instrumentation
  imports Operations
begin

text \<open>
  The code the compiler inserts for an operation and what it does. For every operation that tests
  for taint there are two functions: \<open>lart.test.taint\<close>, written by \<open>lower_test_taint\<close> of
  \<open>backend/native/native.cpp\<close>, which takes the concrete path unless an argument is tainted, and
  \<open>lart.lifter\<close>, written by \<open>lifter.cpp\<close>, which lifts the arguments that are not tainted and calls
  the domain. The generated functions are data here, with the positions of the parameters they
  use; running them needs LLVM's meaning of the instruction that was replaced (\<open>exec\<close>).
\<close>

section \<open>The lifter\<close>

datatype lifter_argument = la_with_taint nat nat nat | la_concrete nat | la_abstract nat nat

fun lifter_arguments :: "argument list \<Rightarrow> nat \<Rightarrow> lifter_argument list" where
  "lifter_arguments [] i = []"
| "lifter_arguments (a # args) i =
    (case arg_type a of
       at_test \<Rightarrow> lifter_arguments args i
     | at_unpack \<Rightarrow> la_with_taint i (i + 1) (i + 2) # lifter_arguments args (i + 3)
     | at_with_taint \<Rightarrow> la_with_taint i (i + 1) (i + 2) # lifter_arguments args (i + 3)
     | at_concrete \<Rightarrow> la_concrete i # lifter_arguments args (i + 1)
     | at_abstract \<Rightarrow> la_abstract i (i + 1) # lifter_arguments args (i + 3))"

definition la_tainted :: "lifter_argument \<Rightarrow> bool" where
  "la_tainted a = (case a of la_with_taint t c v \<Rightarrow> True | _ \<Rightarrow> False)"

definition count_taints :: "lifter_argument list \<Rightarrow> nat" where
  "count_taints args = length (filter la_tainted args)"

text \<open>With one argument that can be tainted there is nothing to lift: it is.\<close>

record lifter_code =
  lc_arguments :: "lifter_argument list"
  lc_lifts :: bool
  lc_impl :: string

definition generate :: "code \<Rightarrow> operation \<Rightarrow> lifter_code outcome" where
  "generate c x =
    obind (o_arguments c x) (\<lambda>args.
      let las = lifter_arguments args 0 in
      omap (\<lambda>impl. \<lparr>lc_arguments = las, lc_lifts = (count_taints las > 1), lc_impl = impl\<rparr>) (o_impl c x))"

section \<open>The test of the taints\<close>

text \<open>
  Parameter 0 is the lifter. \<open>tt_tests\<close> are the taints that are tested, \<open>tt_passed\<close> the parameters
  given to the lifter, \<open>tt_operands\<close> the operands of the instruction on the concrete path of an
  operation that can fault.
\<close>

record test_code =
  tt_tests :: "nat list"
  tt_passed :: "nat list"
  tt_operands :: "nat list"
  tt_default :: "default_wrapper option"
  tt_faultable :: bool

fun tested :: "argument list \<Rightarrow> nat \<Rightarrow> nat list" where
  "tested [] pos = []"
| "tested (a # args) pos =
    (case arg_type a of
       at_unpack \<Rightarrow> pos # tested args (pos + 3) | at_with_taint \<Rightarrow> pos # tested args (pos + 3)
     | at_test \<Rightarrow> pos # tested args (pos + 1)
     | at_concrete \<Rightarrow> tested args (pos + 1) | at_abstract \<Rightarrow> tested args (pos + 2))"

fun passed :: "argument list \<Rightarrow> nat \<Rightarrow> nat list" where
  "passed [] pos = []"
| "passed (a # args) pos =
    (case arg_type a of
       at_unpack \<Rightarrow> [pos, pos + 1, pos + 2] @ passed args (pos + 3)
     | at_with_taint \<Rightarrow> [pos, pos + 1, pos + 2] @ passed args (pos + 3)
     | at_test \<Rightarrow> passed args (pos + 1)
     | at_concrete \<Rightarrow> pos # passed args (pos + 1) | at_abstract \<Rightarrow> (pos + 1) # passed args (pos + 2))"

fun operand_positions :: "argument list \<Rightarrow> nat \<Rightarrow> nat list" where
  "operand_positions [] pos = []"
| "operand_positions (a # args) pos =
    (case arg_type a of
       at_unpack \<Rightarrow> (pos + 1) # operand_positions args (pos + 3)
     | at_with_taint \<Rightarrow> (pos + 1) # operand_positions args (pos + 3)
     | at_test \<Rightarrow> operand_positions args (pos + 1)
     | at_concrete \<Rightarrow> pos # operand_positions args (pos + 1)
     | at_abstract \<Rightarrow> pos # operand_positions args (pos + 2))"

definition lower_test_taint :: "code \<Rightarrow> operation \<Rightarrow> test_code outcome" where
  "lower_test_taint c x =
    omap (\<lambda>args. \<lparr>tt_tests = tested args 1, tt_passed = passed args 1,
        tt_operands = operand_positions args 1, tt_default = o_default_value x,
        tt_faultable = o_faultable c x\<rparr>) (o_arguments c x)"

section \<open>Running the generated code\<close>

datatype ll_value = ll_taint bool | ll_con c_value | ll_abs "64 word" | ll_void

definition param :: "ll_value list \<Rightarrow> nat \<Rightarrow> ll_value outcome" where
  "param vals i = (if i < length vals then Ret (vals ! i) else Undef)"

fun params :: "ll_value list \<Rightarrow> nat list \<Rightarrow> ll_value list outcome" where
  "params vals [] = Ret []"
| "params vals (i # is) = obind (param vals i) (\<lambda>v. obind (params vals is) (\<lambda>vs. Ret (v # vs)))"

text \<open>The lift of one argument: an abstraction that is there is kept, otherwise one is made.\<close>

definition lift_argument_code ::
  "'v domain \<Rightarrow> bool \<Rightarrow> ll_value list \<Rightarrow> lifter_argument \<Rightarrow> 'v lamp \<Rightarrow> (ll_value \<times> 'v lamp) outcome" where
  "lift_argument_code D lifts vals a s =
    (case a of
       la_with_taint t c v \<Rightarrow>
         if lifts then
           obind (param vals t) (\<lambda>taint.
             if taint = ll_taint True then omap (\<lambda>x. (x, s)) (param vals v)
             else obind (param vals c) (\<lambda>conc.
               case conc of ll_con w \<Rightarrow> omap (\<lambda>(p, s'). (ll_abs p, s')) (lamp_wrap D w s) | _ \<Rightarrow> Undef))
         else omap (\<lambda>x. (x, s)) (param vals v)
     | la_concrete c \<Rightarrow> omap (\<lambda>x. (x, s)) (param vals c)
     | la_abstract c v \<Rightarrow> omap (\<lambda>x. (x, s)) (param vals v))"

fun lift_arguments_code ::
  "'v domain \<Rightarrow> bool \<Rightarrow> ll_value list \<Rightarrow> lifter_argument list \<Rightarrow> 'v lamp \<Rightarrow> (ll_value list \<times> 'v lamp) outcome" where
  "lift_arguments_code D lifts vals [] s = Ret ([], s)"
| "lift_arguments_code D lifts vals (a # as) s =
    obind (lift_argument_code D lifts vals a s) (\<lambda>(x, s1).
      obind (lift_arguments_code D lifts vals as s1) (\<lambda>(xs, s2). Ret (x # xs, s2)))"

text \<open>
  The call of an entry point. The allocation and the store through abstract pointers are no part
  of the record of a domain, so their calls have no meaning here; a melt that never returned
  would have no outcome.
\<close>

definition call_lamp ::
  "'v domain \<Rightarrow> (64 word \<Rightarrow> 8 word) \<Rightarrow> string \<Rightarrow> ll_value list \<Rightarrow> 'v lamp \<Rightarrow> (ll_value \<times> 'v lamp) run" where
  "call_lamp D memory impl args s =
    (let made = (\<lambda>m. [omap (\<lambda>(p, s'). (ll_abs p, s')) m]) in
     case (lamp_entry impl, args) of
       (Some (e_bin t), [ll_abs a, ll_abs b]) \<Rightarrow> made (lamp_bin D t a b s)
     | (Some (e_cast t), [ll_abs a, ll_con (c_int sg w n)]) \<Rightarrow> made (lamp_cast D t a (word_of_int n) s)
     | (Some e_assume, [ll_abs a, ll_con (c_bool b)]) \<Rightarrow> [omap (\<lambda>s'. (ll_void, s')) (lamp_assume D a b s)]
     | (Some e_to_bool, [ll_abs a]) \<Rightarrow> rbind (lamp_to_bool D a s) (\<lambda>b. rret (ll_con (c_bool b), s))
     | (Some e_melt, [ll_con (c_pointer p), ll_con (c_int sg w n)]) \<Rightarrow>
         (case lamp_melt D memory (of_nat p) (nat n) s of None \<Rightarrow> [] | Some m \<Rightarrow> made m)
     | (Some e_freeze, [ll_abs v, ll_con (c_pointer p), ll_con (c_int sg w n)]) \<Rightarrow>
         [omap (\<lambda>s'. (ll_void, s')) (lamp_freeze v (of_nat p) (nat n) s)]
     | _ \<Rightarrow> [Undef])"

definition run_lifter ::
  "'v domain \<Rightarrow> (64 word \<Rightarrow> 8 word) \<Rightarrow> lifter_code \<Rightarrow> ll_value list \<Rightarrow> 'v lamp \<Rightarrow> (ll_value \<times> 'v lamp) run" where
  "run_lifter D memory code vals s =
    rbind [lift_arguments_code D (lc_lifts code) vals (lc_arguments code) s]
      (\<lambda>(args, s'). call_lamp D memory (lc_impl code) args s')"

text \<open>Constants of the generated code, and the zero of the type of the replaced instruction.\<close>

fun constant_of :: "operand \<Rightarrow> ll_value" where
  "constant_of (op_i64 n) = ll_con (c_int False 64 (int n))"
| "constant_of (op_i8 w) = ll_con (c_int False 8 (uint w))"
| "constant_of (op_i1 b) = ll_con (c_bool b)"
| "constant_of abstract_pointer = ll_abs 0"
| "constant_of (op_value v) = ll_void"

definition null_value :: "ll_value list \<Rightarrow> ll_value outcome" where
  "null_value operands =
    (case operands of ll_con (c_int sg w n) # _ \<Rightarrow> Ret (ll_con (c_int sg w 0)) | _ \<Rightarrow> Undef)"

definition stash_result :: "bool \<Rightarrow> ll_value \<Rightarrow> 'v lamp \<Rightarrow> 'v lamp outcome" where
  "stash_result taint x s =
    (case x of ll_abs p \<Rightarrow> Ret (s\<lparr>lamp_stash := lart_stash taint p (lamp_stash s)\<rparr>) | _ \<Rightarrow> Undef)"

definition run_abstract_path ::
  "'v domain \<Rightarrow> (64 word \<Rightarrow> 8 word) \<Rightarrow> lifter_code \<Rightarrow> test_code \<Rightarrow> ll_value list \<Rightarrow> 'v lamp \<Rightarrow>
    (ll_value \<times> 'v lamp) run" where
  "run_abstract_path D memory lifter test vals s =
    rbind [params vals (tt_passed test)] (\<lambda>args.
    rbind (run_lifter D memory lifter args s) (\<lambda>(r, s').
      if tt_faultable test then
        [obind (stash_result True r s') (\<lambda>s2.
          obind (params vals (tt_operands test)) (\<lambda>ops. omap (\<lambda>z. (z, s2)) (null_value ops)))]
      else rret (r, s')))"

definition run_concrete_path ::
  "(ll_value list \<Rightarrow> ll_value outcome) \<Rightarrow> test_code \<Rightarrow> ll_value list \<Rightarrow> 'v lamp \<Rightarrow> (ll_value \<times> 'v lamp) run" where
  "run_concrete_path exec test vals s =
    rbind [params vals (tt_passed test)] (\<lambda>args.
    (case tt_default test of
       None \<Rightarrow> rret (ll_void, s)
     | Some d \<Rightarrow>
         rbind [extract_default constant_of d args] (\<lambda>def.
           if tt_faultable test then
             [obind (stash_result False def s) (\<lambda>s2.
               obind (params vals (tt_operands test)) (\<lambda>ops. omap (\<lambda>z. (z, s2)) (exec ops)))]
           else rret (def, s))))"

definition run_test_taint ::
  "'v domain \<Rightarrow> (64 word \<Rightarrow> 8 word) \<Rightarrow> (ll_value list \<Rightarrow> ll_value outcome) \<Rightarrow> lifter_code \<Rightarrow> test_code \<Rightarrow>
    ll_value list \<Rightarrow> 'v lamp \<Rightarrow> (ll_value \<times> 'v lamp) run" where
  "run_test_taint D memory exec lifter test vals s =
    rbind [params vals (tt_tests test)] (\<lambda>taints.
      if ll_taint True \<in> set taints then run_abstract_path D memory lifter test vals s
      else run_concrete_path exec test vals s)"

section \<open>Instrumented instructions\<close>

text \<open>What the program has of a value: its taint, its concrete and its abstract part.\<close>

record reg =
  reg_taint :: bool
  reg_con :: c_value
  reg_abs :: "64 word"

fun eval_actual :: "(nat \<Rightarrow> reg) \<Rightarrow> actual \<Rightarrow> ll_value" where
  "eval_actual env (taint_of v) = (case v of op_value n \<Rightarrow> ll_taint (reg_taint (env n)) | _ \<Rightarrow> ll_taint False)"
| "eval_actual env (concrete_of v) = (case v of op_value n \<Rightarrow> ll_con (reg_con (env n)) | _ \<Rightarrow> constant_of v)"
| "eval_actual env (abstract_of v) = (case v of op_value n \<Rightarrow> ll_abs (reg_abs (env n)) | _ \<Rightarrow> ll_abs 0)"

text \<open>The call that \<open>make_intrinsic\<close> inserts, after the backend has lowered it.\<close>

definition run_tested ::
  "'v domain \<Rightarrow> (64 word \<Rightarrow> 8 word) \<Rightarrow> (ll_value list \<Rightarrow> ll_value outcome) \<Rightarrow> code \<Rightarrow> operation \<Rightarrow>
    (nat \<Rightarrow> reg) \<Rightarrow> 'v lamp \<Rightarrow> (ll_value \<times> 'v lamp) run" where
  "run_tested D memory exec c x env s =
    rbind [duplicated_arguments c x] (\<lambda>actuals.
    rbind [generate c x] (\<lambda>lifter.
    rbind [lower_test_taint c x] (\<lambda>test.
      run_test_taint D memory exec lifter test (ll_void # map (eval_actual env) actuals) s)))"

text \<open>
  Operations without a test are lowered to runtime calls: \<open>freeze\<close> and \<open>stash\<close> take what they
  need from the arguments, \<open>unstash\<close> and \<open>unstash_taint\<close> have none.
\<close>

definition run_freeze :: "code \<Rightarrow> nat \<Rightarrow> (nat \<Rightarrow> reg) \<Rightarrow> 'v lamp \<Rightarrow> 'v lamp outcome" where
  "run_freeze c v env s =
    obind (duplicated_arguments c (o_freeze v)) (\<lambda>actuals.
    obind (params (map (eval_actual env) actuals) [2, 3, 4]) (\<lambda>args.
      case args of [ll_abs a, ll_con (c_pointer addr), ll_con (c_int sg w n)] \<Rightarrow>
        lamp_freeze a (of_nat addr) (nat n) s | _ \<Rightarrow> Undef))"

definition run_stash :: "code \<Rightarrow> nat \<Rightarrow> (nat \<Rightarrow> reg) \<Rightarrow> 'v lamp \<Rightarrow> 'v lamp outcome" where
  "run_stash c v env s =
    obind (duplicated_arguments c (o_stash v)) (\<lambda>actuals.
    obind (params (map (eval_actual env) actuals) [0, 2]) (\<lambda>args.
      case args of [ll_taint t, ll_abs a] \<Rightarrow>
        Ret (s\<lparr>lamp_stash := lart_stash t a (lamp_stash s)\<rparr>) | _ \<Rightarrow> Undef))"

definition run_unstash :: "'v lamp \<Rightarrow> (bool \<times> 64 word) \<times> 'v lamp" where
  "run_unstash s = (case unstash_both (lamp_stash s) of (r, st) \<Rightarrow> (r, s\<lparr>lamp_stash := st\<rparr>))"

text \<open>
  A binary instruction after the pass. One that can fault is replaced by the call, and its taint
  and abstraction come off the stash; another one stays where it is, the call gives the
  abstraction, and its taint is the disjunction of those of its operands.
\<close>

definition shadow_forward :: "code \<Rightarrow> (nat \<Rightarrow> reg) \<Rightarrow> nat \<Rightarrow> nat \<Rightarrow> bool" where
  "shadow_forward c env v n = fold (\<lambda>i t. t \<or> reg_taint (env (cd_operand c v i))) [1..<n] (reg_taint (env (cd_operand c v 0)))"

definition run_binary ::
  "'v domain \<Rightarrow> (64 word \<Rightarrow> 8 word) \<Rightarrow> (ll_value list \<Rightarrow> ll_value outcome) \<Rightarrow> code \<Rightarrow> nat \<Rightarrow>
    (nat \<Rightarrow> reg) \<times> 'v lamp \<Rightarrow> ((nat \<Rightarrow> reg) \<times> 'v lamp) run" where
  "run_binary D memory exec c v st =
    (case st of (env, s) \<Rightarrow>
      if o_faultable c (o_binary v) then
        rbind (run_tested D memory exec c (o_binary v) env s) (\<lambda>(r, s1).
          case (r, run_unstash s1) of
            (ll_con w, (t, a), s2) \<Rightarrow> rret (env(v := \<lparr>reg_taint = t, reg_con = w, reg_abs = a\<rparr>), s2)
          | _ \<Rightarrow> [Undef])
      else
        rbind [exec (map (\<lambda>i. ll_con (reg_con (env (cd_operand c v i)))) [0, 1])] (\<lambda>w.
        rbind (run_tested D memory exec c (o_binary v) env s) (\<lambda>(r, s1).
          case (w, r) of
            (ll_con w', ll_abs a) \<Rightarrow>
              rret (env(v := \<lparr>reg_taint = shadow_forward c env v 2, reg_con = w', reg_abs = a\<rparr>), s1)
          | _ \<Rightarrow> [Undef])))"

lemma shadow_forward_two:
  "shadow_forward c env v 2 \<longleftrightarrow> reg_taint (env (cd_operand c v 0)) \<or> reg_taint (env (cd_operand c v 1))"
  by (simp add: shadow_forward_def upt_conv_Cons numeral_2_eq_2)

fun run_code ::
  "'v domain \<Rightarrow> (64 word \<Rightarrow> 8 word) \<Rightarrow> (nat \<Rightarrow> ll_value list \<Rightarrow> ll_value outcome) \<Rightarrow> code \<Rightarrow> nat list \<Rightarrow>
    (nat \<Rightarrow> reg) \<times> 'v lamp \<Rightarrow> ((nat \<Rightarrow> reg) \<times> 'v lamp) run" where
  "run_code D memory exec c [] st = rret st"
| "run_code D memory exec c (v # vs) st =
    rbind (run_binary D memory (exec v) c v st) (run_code D memory exec c vs)"

text \<open>A branch on a tainted condition: the value of the condition, then the assumption of the edge.\<close>

definition run_branch ::
  "'v domain \<Rightarrow> (64 word \<Rightarrow> 8 word) \<Rightarrow> code \<Rightarrow> nat \<Rightarrow> (nat \<Rightarrow> reg) \<Rightarrow> 'v lamp \<Rightarrow> (bool \<times> 'v lamp) run" where
  "run_branch D memory c v env s =
    rbind (run_tested D memory (\<lambda>_. Undef) c (o_tobool v) env s) (\<lambda>(r, s1).
      case r of ll_con (c_bool b) \<Rightarrow>
        rbind (run_tested D memory (\<lambda>_. Undef) c (o_assume (cd_condition c v) b) env s1) (\<lambda>(_, s2). rret (b, s2))
      | _ \<Rightarrow> [Undef])"

section \<open>What a call of a binary operation does\<close>

definition lift_reg :: "'v domain \<Rightarrow> reg \<Rightarrow> 'v lamp \<Rightarrow> (64 word \<times> 'v lamp) outcome" where
  "lift_reg D r s = (if reg_taint r then Ret (reg_abs r, s) else lamp_wrap D (reg_con r) s)"

lemma lift_argument_reg:
  assumes "param vals t = Ret (ll_taint (reg_taint r))" "param vals c = Ret (ll_con (reg_con r))"
    "param vals v = Ret (ll_abs (reg_abs r))"
  shows "lift_argument_code D True vals (la_with_taint t c v) s = omap (\<lambda>(p, s'). (ll_abs p, s')) (lift_reg D r s)"
  using assms by (simp add: lift_argument_code_def lift_reg_def)

definition binary_values :: "reg \<Rightarrow> reg \<Rightarrow> ll_value list" where
  "binary_values r q =
    [ll_taint (reg_taint r), ll_con (reg_con r), ll_abs (reg_abs r),
     ll_taint (reg_taint q), ll_con (reg_con q), ll_abs (reg_abs q)]"

lemma lift_arguments_binary:
  "lift_arguments_code D True (binary_values r q) [la_with_taint 0 1 2, la_with_taint 3 4 5] s =
    obind (lift_reg D r s) (\<lambda>(p, s1). omap (\<lambda>(p', s2). ([ll_abs p, ll_abs p'], s2)) (lift_reg D q s1))"
proof -
  note l = lift_argument_reg [of "binary_values r q"]
  have r: "lift_argument_code D True (binary_values r q) (la_with_taint 0 (Suc 0) 2) s =
      omap (\<lambda>(p, s'). (ll_abs p, s')) (lift_reg D r s)" for s
    by (rule l) (simp_all add: param_def binary_values_def)
  have q: "lift_argument_code D True (binary_values r q) (la_with_taint 3 4 5) s =
      omap (\<lambda>(p, s'). (ll_abs p, s')) (lift_reg D q s)" for s
    by (rule l) (simp_all add: param_def binary_values_def)
  show ?thesis
    by (cases "lift_reg D r s") (auto simp: r q omap_obind obind_assoc split_beta)
qed

definition lift_both :: "'v domain \<Rightarrow> reg \<Rightarrow> reg \<Rightarrow> 'v lamp \<Rightarrow> ((64 word \<times> 64 word) \<times> 'v lamp) outcome" where
  "lift_both D r q s =
    obind (lift_reg D r s) (\<lambda>(p, s1). omap (\<lambda>(p', s2). ((p, p'), s2)) (lift_reg D q s1))"

definition abstract_call ::
  "'v domain \<Rightarrow> (64 word \<Rightarrow> 8 word) \<Rightarrow> string \<Rightarrow> reg \<Rightarrow> reg \<Rightarrow> 'v lamp \<Rightarrow> (ll_value \<times> 'v lamp) run" where
  "abstract_call D memory impl r q s =
    rbind [lift_both D r q s] (\<lambda>((p, p'), s1). call_lamp D memory impl [ll_abs p, ll_abs p'] s1)"

lemma rbind_pairs [simp]: "rbind r (\<lambda>(x, y). [Ret (x, y)]) = r"
  by (simp add: case_prod_unfold)

lemma rbind_omap: "rbind [omap f m] g = rbind [m] (\<lambda>x. g (f x))"
  by (cases m) auto

lemma run_lifter_binary:
  "run_lifter D memory \<lparr>lc_arguments = [la_with_taint 0 1 2, la_with_taint 3 4 5], lc_lifts = True, lc_impl = impl\<rparr>
      (binary_values r q) s =
    rbind [lift_both D r q s] (\<lambda>((p, p'), s'). call_lamp D memory impl [ll_abs p, ll_abs p'] s')"
proof -
  have "lift_arguments_code D True (binary_values r q) [la_with_taint 0 1 2, la_with_taint 3 4 5] s =
      omap (\<lambda>((p, p'), s'). ([ll_abs p, ll_abs p'], s')) (lift_both D r q s)"
    by (simp add: lift_arguments_binary lift_both_def omap_obind obind_assoc case_prod_unfold
        del: lift_arguments_code.simps One_nat_def)
  then show ?thesis
    by (simp add: run_lifter_def rbind_omap case_prod_unfold del: lift_arguments_code.simps One_nat_def)
qed

lemma run_tested_binary:
  assumes r_def: "r = env (cd_operand c v 0)" and q_def: "q = env (cd_operand c v 1)"
  shows "run_tested D memory exec c (o_binary v) env s =
    (if reg_taint r \<or> reg_taint q then
       rbind (abstract_call D memory (''__lamp_'' @ cd_opcode_name c v) r q s) (\<lambda>(x, s2).
         if cd_int_div_rem c v then
           [obind (stash_result True x s2) (\<lambda>s3. omap (\<lambda>z. (z, s3)) (null_value [ll_con (reg_con r), ll_con (reg_con q)]))]
         else rret (x, s2))
     else if cd_int_div_rem c v then
       [obind (stash_result False (ll_abs 0) s) (\<lambda>s1.
          omap (\<lambda>z. (z, s1)) (exec [ll_con (reg_con r), ll_con (reg_con q)]))]
     else rret (ll_abs 0, s))"
proof -
  let ?vals = "ll_void # binary_values r q"
  let ?test = "\<lparr>tt_tests = [1, 4], tt_passed = [1, 2, 3, 4, 5, 6], tt_operands = [2, 5],
      tt_default = Some abstract_pointer_default, tt_faultable = cd_int_div_rem c v\<rparr>"
  let ?lifter = "\<lparr>lc_arguments = [la_with_taint 0 1 2, la_with_taint 3 4 5], lc_lifts = True,
      lc_impl = ''__lamp_'' @ cd_opcode_name c v\<rparr>"
  have a: "duplicated_arguments c (o_binary v) = Ret
      [taint_of (op_value (cd_operand c v 0)), concrete_of (op_value (cd_operand c v 0)),
       abstract_of (op_value (cd_operand c v 0)), taint_of (op_value (cd_operand c v 1)),
       concrete_of (op_value (cd_operand c v 1)), abstract_of (op_value (cd_operand c v 1))]"
    by (simp add: duplicated_arguments_def duplicated_argument_def)
  have l: "generate c (o_binary v) = Ret ?lifter"
    by (simp add: generate_def count_taints_def la_tainted_def)
  have t: "lower_test_taint c (o_binary v) = Ret ?test"
    by (simp add: lower_test_taint_def o_default_value_def o_faultable_def)
  have p: "params ?vals [1, 2, 3, 4, 5, 6] = Ret (binary_values r q)"
    "params ?vals [1, 4] = Ret [ll_taint (reg_taint r), ll_taint (reg_taint q)]"
    "params ?vals [2, 5] = Ret [ll_con (reg_con r), ll_con (reg_con q)]"
    by (simp_all add: binary_values_def param_def)
  have "run_tested D memory exec c (o_binary v) env s =
      run_test_taint D memory exec ?lifter ?test ?vals s"
    by (simp add: run_tested_def a l t r_def q_def binary_values_def)
  then show ?thesis
    by (auto simp: run_test_taint_def run_abstract_path_def run_concrete_path_def p run_lifter_binary
        abstract_call_def extract_default_def rbind_assoc case_prod_unfold simp del: params.simps append.simps One_nat_def)
qed

section \<open>Soundness of the instrumentation\<close>

definition is_int :: "c_value \<Rightarrow> bool" where
  "is_int w \<longleftrightarrow> (\<exists>sg b n. w = c_int sg b n)"

text \<open>
  A register stands for the number \<open>x\<close>: through its abstract value when it is tainted, and as the
  number itself otherwise.
\<close>

definition reg_holds ::
  "('c \<Rightarrow> c_value) \<Rightarrow> 'v lamp \<Rightarrow> (64 word \<Rightarrow> 'c) \<Rightarrow> reg \<Rightarrow> 'c \<Rightarrow> bool" where
  "reg_holds rep s rho r x \<longleftrightarrow> is_int (reg_con r) \<and>
    (if reg_taint r then live s (reg_abs r) \<and> rho (reg_abs r) = x else reg_con r = rep x)"

text \<open>A later state, with values for the pointers made since; \<open>k\<close> bounds their number.\<close>

definition extends ::
  "('v \<Rightarrow> 'c set) \<Rightarrow> nat \<Rightarrow> 'v lamp \<Rightarrow> (64 word \<Rightarrow> 'c) \<Rightarrow> 'v lamp \<Rightarrow> (64 word \<Rightarrow> 'c) \<Rightarrow> bool" where
  "extends gamma k s rho s' rho' \<longleftrightarrow>
    heap_holds gamma s' rho' \<and> (\<forall>p. live s p \<longrightarrow> live s' p \<and> rho' p = rho p) \<and>
    length (lamp_heap s') \<le> length (lamp_heap s) + k \<and> lamp_shadow s' = lamp_shadow s \<and>
    (\<forall>xs. length xs < 256 \<longrightarrow> both_hold xs (lamp_stash s) \<longrightarrow> both_hold xs (lamp_stash s'))"

lemma extends_refl: "heap_holds gamma s rho \<Longrightarrow> extends gamma k s rho s rho"
  by (simp add: extends_def)

lemma extends_trans:
  "extends gamma k s rho s1 rho1 \<Longrightarrow> extends gamma m s1 rho1 s2 rho2 \<Longrightarrow> extends gamma (k + m) s rho s2 rho2"
  by (force simp: extends_def)

lemma extends_mono: "extends gamma k s rho s' rho' \<Longrightarrow> k \<le> m \<Longrightarrow> extends gamma m s rho s' rho'"
  by (auto simp: extends_def)

lemma makes_extends:
  assumes "makes gamma s rho z p s'"
  shows "extends gamma 1 s rho s' (rho(p := z)) \<and> live s' p"
  using assms by (auto simp: makes_def extends_def)

lemma reg_holds_extends:
  "reg_holds rep s rho r x \<Longrightarrow> extends gamma k s rho s' rho' \<Longrightarrow> reg_holds rep s' rho' r x"
  by (auto simp: reg_holds_def extends_def)

lemma roomy_extends:
  "extends gamma k s rho s' rho' \<Longrightarrow> roomy (k + m) s \<Longrightarrow> roomy m s'"
  by (auto simp: extends_def roomy_def)

locale instrumented = forward_sound D gamma conc ops
  for D :: "'v domain" and gamma :: "'v \<Rightarrow> 'c set"
    and conc :: "op_tag \<Rightarrow> 'c \<Rightarrow> 'c \<Rightarrow> 'c option" and ops :: "op_tag set" +
  fixes rep :: "'c \<Rightarrow> c_value"
  assumes lift_sound: "osound (dom_lift D (rep x)) (\<lambda>v. x \<in> gamma v)"
    and rep_int: "is_int (rep x)"
    and ops_entries: "ops \<subseteq> set mixin_bin_tags"
begin

lemma lift_reg_sound:
  assumes "reg_holds rep s rho r x" "heap_holds gamma s rho" "roomy 1 s"
  shows "osound (lift_reg D r s) (\<lambda>(p, s'). \<exists>rho'. extends gamma 1 s rho s' rho' \<and> live s' p \<and> rho' p = x)"
proof (cases "reg_taint r")
  case True
  with assms show ?thesis
    using extends_refl [OF assms(2)] by (auto simp: lift_reg_def reg_holds_def)
next
  case False
  then have "lift_reg D r s = wrap_value (dom_lift D (rep x)) s"
    using assms(1) by (simp add: lift_reg_def reg_holds_def lamp_wrap_def)
  moreover have "osound (wrap_value (dom_lift D (rep x)) s) (\<lambda>(p, s'). makes gamma s rho x p s')"
    by (rule wrap_value_sound [OF lift_sound assms(2,3)])
  ultimately show ?thesis
    by (auto elim!: osound_mono dest!: makes_extends intro!: exI [of _ "rho(_ := x)"])
qed

lemma lift_both_sound:
  assumes "reg_holds rep s rho r x" "reg_holds rep s rho q y" "heap_holds gamma s rho" "roomy 2 s"
  shows "osound (lift_both D r q s) (\<lambda>((p, p'), s').
    \<exists>rho'. extends gamma 2 s rho s' rho' \<and> live s' p \<and> rho' p = x \<and> live s' p' \<and> rho' p' = y)"
  unfolding lift_both_def
proof (rule osound_obind [OF lift_reg_sound [OF assms(1,3)]])
  show "roomy 1 s" using assms(4) by (simp add: roomy_def)
  fix ps assume "case ps of (p, s1) \<Rightarrow> \<exists>rho1. extends gamma 1 s rho s1 rho1 \<and> live s1 p \<and> rho1 p = x"
  then obtain p s1 rho1 where p: "ps = (p, s1)" "extends gamma 1 s rho s1 rho1" "live s1 p" "rho1 p = x"
    by (cases ps) auto
  have "roomy 1 s1" using roomy_extends [OF p(2), of 1] assms(4) by (simp add: numeral_2_eq_2)
  moreover have "heap_holds gamma s1 rho1" using p(2) by (simp add: extends_def)
  ultimately have q: "osound (lift_reg D q s1)
      (\<lambda>(p', s2). \<exists>rho2. extends gamma 1 s1 rho1 s2 rho2 \<and> live s2 p' \<and> rho2 p' = y)"
    by (intro lift_reg_sound reg_holds_extends [OF assms(2) p(2)])
  have "\<exists>rho'. extends gamma 2 s rho s2 rho' \<and> live s2 p \<and> rho' p = x \<and> live s2 p' \<and> rho' p' = y"
    if "extends gamma 1 s1 rho1 s2 rho2" "live s2 p'" "rho2 p' = y" for p' s2 rho2
    using extends_trans [OF p(2) that(1)] that p(3,4)
    by (intro exI [of _ rho2]) (auto simp: extends_def numeral_2_eq_2)
  with q show "osound (case ps of (p, s1) \<Rightarrow> omap (\<lambda>(p', s2). ((p, p'), s2)) (lift_reg D q s1))
      (\<lambda>((p, p'), s'). \<exists>rho'. extends gamma 2 s rho s' rho' \<and> live s' p \<and> rho' p = x \<and> live s' p' \<and> rho' p' = y)"
    unfolding p(1) by (auto simp: osound_omap elim!: osound_mono)
qed

lemma call_binary_sound:
  assumes "t \<in> ops" "heap_holds gamma s rho" "roomy 1 s" "live s p" "live s p'"
    and "conc t (rho p) (rho p') = Some z"
  shows "rsound (call_lamp D memory (''__lamp_'' @ mixin_name t) [ll_abs p, ll_abs p'] s)
    (\<lambda>(x, s'). \<exists>a. x = ll_abs a \<and> extends gamma 1 s rho s' (rho(a := z)) \<and> live s' a)"
proof -
  have "lamp_entry (''__lamp_'' @ mixin_name t) = Some (e_bin t)"
    using lamp_entry_bin ops_entries assms(1) by auto
  moreover have "osound (lamp_bin D t p p' s) (\<lambda>(a, s'). makes gamma s rho z a s')"
    by (rule lamp_bin_sound [OF assms])
  ultimately show ?thesis
    by (auto simp: call_lamp_def osound_omap dest!: makes_extends simp del: append.simps elim!: osound_mono)
qed

text \<open>The call of an operation on two registers, at least one of which is tainted.\<close>

lemma abstract_call_sound:
  assumes "t \<in> ops" "reg_holds rep s rho r x" "reg_holds rep s rho q y" "conc t x y = Some z"
    and "heap_holds gamma s rho" "roomy 3 s"
  shows "rsound (abstract_call D memory (''__lamp_'' @ mixin_name t) r q s)
    (\<lambda>(u, s'). \<exists>a rho'. u = ll_abs a \<and> extends gamma 3 s rho s' rho' \<and> live s' a \<and> rho' a = z)"
proof -
  have "roomy 2 s" using assms(6) by (simp add: roomy_def)
  from lift_both_sound [OF assms(2,3,5) this]
  have both: "rsound [lift_both D r q s] (\<lambda>((p, p'), s').
      \<exists>rho'. extends gamma 2 s rho s' rho' \<and> live s' p \<and> rho' p = x \<and> live s' p' \<and> rho' p' = y)"
    by simp
  show ?thesis
    unfolding abstract_call_def
  proof (rule rsound_rbind [OF both])
    fix ps assume "(\<lambda>((p, p'), s').
        \<exists>rho'. extends gamma 2 s rho s' rho' \<and> live s' p \<and> rho' p = x \<and> live s' p' \<and> rho' p' = y) ps"
    then obtain p p' s1 rho1 where l: "ps = ((p, p'), s1)" "extends gamma 2 s rho s1 rho1"
      "live s1 p" "rho1 p = x" "live s1 p'" "rho1 p' = y"
      by (cases ps) auto
    have "roomy 1 s1" using roomy_extends [OF l(2), of 1] assms(6) by (simp add: numeral_3_eq_3)
    moreover have "heap_holds gamma s1 rho1" using l(2) by (simp add: extends_def)
    ultimately have "rsound (call_lamp D memory (''__lamp_'' @ mixin_name t) [ll_abs p, ll_abs p'] s1)
        (\<lambda>(u, s'). \<exists>a. u = ll_abs a \<and> extends gamma 1 s1 rho1 s' (rho1(a := z)) \<and> live s' a)"
      using assms(1,4) l(3-6) by (intro call_binary_sound) auto
    moreover have "\<exists>rho'. extends gamma 3 s rho s' rho' \<and> live s' a \<and> rho' a = z"
      if "extends gamma 1 s1 rho1 s' (rho1(a := z))" "live s' a" for a s'
      using extends_trans [OF l(2) that(1)] that(2) by (intro exI [of _ "rho1(a := z)"]) simp
    ultimately show "rsound ((\<lambda>((p, p'), s1).
          call_lamp D memory (''__lamp_'' @ mixin_name t) [ll_abs p, ll_abs p'] s1) ps)
        (\<lambda>(u, s'). \<exists>a rho'. u = ll_abs a \<and> extends gamma 3 s rho s' rho' \<and> live s' a \<and> rho' a = z)"
      unfolding l(1) by (auto elim!: rsound_mono)
  qed
qed

end

text \<open>What is asked of LLVM's meaning of the instruction that was replaced or stays in place.\<close>

definition exec_ok ::
  "(op_tag \<Rightarrow> 'c \<Rightarrow> 'c \<Rightarrow> 'c option) \<Rightarrow> ('c \<Rightarrow> c_value) \<Rightarrow> (ll_value list \<Rightarrow> ll_value outcome) \<Rightarrow> op_tag \<Rightarrow> bool \<Rightarrow> bool" where
  "exec_ok conc rep exec t faultable \<longleftrightarrow>
    (\<forall>x y z. conc t x y = Some z \<longrightarrow> exec [ll_con (rep x), ll_con (rep y)] = Ret (ll_con (rep z))) \<and>
    (\<not> faultable \<longrightarrow> (\<forall>a b. is_int a \<and> is_int b \<longrightarrow> (\<exists>w. is_int w \<and> exec [ll_con a, ll_con b] = Ret (ll_con w))))"

text \<open>What is pushed on the stash is what comes off next, and the rest of it stays.\<close>

lemma stash_unstash:
  "\<exists>st. run_unstash (s\<lparr>lamp_stash := lart_stash t p (lamp_stash s)\<rparr>) = ((t, p), s\<lparr>lamp_stash := st\<rparr>) \<and>
    (\<forall>xs. length xs < 256 \<longrightarrow> both_hold xs (lamp_stash s) \<longrightarrow> both_hold xs st)"
proof -
  let ?st = "lart_stash t p (lamp_stash s)"
  have push: "both_hold ((t, p) # xs) ?st" if "both_hold xs (lamp_stash s)" "length xs < 256" for xs
    using args.push_holds [OF that, of "(t, p)"] by simp
  have "both_hold [] (lamp_stash s)" by (simp add: both_hold_def taint_holds_def value_holds_def)
  from args.pop_holds [OF push [OF this]] have top: "fst (unstash_both ?st) = (t, p)" by simp
  have "both_hold xs (snd (unstash_both ?st))" if "both_hold xs (lamp_stash s)" "length xs < 256" for xs
    using args.pop_holds [OF push [OF that]] by simp
  with top show ?thesis
    by (intro exI [of _ "snd (unstash_both ?st)"]) (auto simp: run_unstash_def split: prod.splits)
qed

context instrumented
begin

lemma extends_stash:
  assumes "extends gamma k s rho s' rho'" "\<forall>xs. length xs < 256 \<longrightarrow> both_hold xs (lamp_stash s') \<longrightarrow> both_hold xs st"
  shows "extends gamma k s rho (s'\<lparr>lamp_stash := st\<rparr>) rho'" "live (s'\<lparr>lamp_stash := st\<rparr>) = live s'"
  using assms by (auto simp: extends_def heap_holds_def live_def)

lemma reg_holds_abs:
  "is_int w \<Longrightarrow> live s a \<Longrightarrow> rho a = z \<Longrightarrow>
    reg_holds rep s rho \<lparr>reg_taint = True, reg_con = w, reg_abs = a\<rparr> z"
  by (simp add: reg_holds_def)

lemma reg_holds_con: "reg_holds rep s rho \<lparr>reg_taint = False, reg_con = rep z, reg_abs = a\<rparr> z"
  by (simp add: reg_holds_def rep_int)

lemma run_binary_sound:
  assumes t: "t \<in> ops" and name: "cd_opcode_name c v = mixin_name t"
    and r: "reg_holds rep s rho (env (cd_operand c v 0)) x" and q: "reg_holds rep s rho (env (cd_operand c v 1)) y"
    and z: "conc t x y = Some z" and heap: "heap_holds gamma s rho" and room: "roomy 3 s"
    and exec: "exec_ok conc rep exec t (cd_int_div_rem c v)"
  shows "rsound (run_binary D memory exec c v (env, s))
    (\<lambda>(env', s'). \<exists>rho' u. env' = env(v := u) \<and> extends gamma 3 s rho s' rho' \<and> reg_holds rep s' rho' u z)"
    (is "rsound ?run ?Q")
proof -
  let ?r = "env (cd_operand c v 0)" and ?q = "env (cd_operand c v 1)"
  let ?call = "abstract_call D memory (''__lamp_'' @ mixin_name t) ?r ?q s"
  note call = abstract_call_sound [OF t r q z heap room, of memory]
  note tested = run_tested_binary [OF refl refl, of D memory exec c v env s, unfolded name]
  have same: "extends gamma 3 s rho s rho" by (rule extends_refl [OF heap])
  obtain sg b n where w: "reg_con ?r = c_int sg b n" and q_int: "is_int (reg_con ?q)" and r_int: "is_int (reg_con ?r)"
    using r q by (auto simp: reg_holds_def is_int_def)
  have result: "\<exists>rho' u'. env(v := u) = env(v := u') \<and> extends gamma 3 s rho s' rho' \<and> reg_holds rep s' rho' u' z"
    if "extends gamma 3 s rho s' rho1" "reg_holds rep s' rho1 u z" for s' rho1 u
    using that by blast
  consider (fault) "reg_taint ?r \<or> reg_taint ?q" "cd_int_div_rem c v"
    | (plain) "reg_taint ?r \<or> reg_taint ?q" "\<not> cd_int_div_rem c v"
    | (concrete) "\<not> reg_taint ?r" "\<not> reg_taint ?q" by blast
  then show ?thesis
  proof cases
    case fault
    let ?k = "\<lambda>(u, s1). rbind [obind (stash_result True u s1) (\<lambda>s3. omap (\<lambda>z. (z, s3))
        (null_value [ll_con (reg_con ?r), ll_con (reg_con ?q)]))]
      (\<lambda>(w, s2). case (w, run_unstash s2) of
        (ll_con w, (t, a), s3) \<Rightarrow> rret (env(v := \<lparr>reg_taint = t, reg_con = w, reg_abs = a\<rparr>), s3) | _ \<Rightarrow> [Undef])"
    have k: "rsound (?k (ll_abs a, s1)) ?Q"
      if u: "extends gamma 3 s rho s1 rho1" "live s1 a" "rho1 a = z" for a s1 rho1
    proof -
      obtain st where st: "run_unstash (s1\<lparr>lamp_stash := lart_stash True a (lamp_stash s1)\<rparr>) =
          ((True, a), s1\<lparr>lamp_stash := st\<rparr>)"
        "\<forall>xs. length xs < 256 \<longrightarrow> both_hold xs (lamp_stash s1) \<longrightarrow> both_hold xs st"
        using stash_unstash [where s = s1 and t = True and p = a] by blast
      note e = extends_stash [OF u(1) st(2)]
      have "reg_holds rep (s1\<lparr>lamp_stash := st\<rparr>) rho1
          \<lparr>reg_taint = True, reg_con = c_int sg b 0, reg_abs = a\<rparr> z"
        using u(2,3) e(2) by (intro reg_holds_abs) (simp_all add: is_int_def)
      with e(1) show ?thesis by (auto simp: stash_result_def null_value_def w st(1))
    qed
    have "rsound (rbind ?call ?k) ?Q"
      by (rule rsound_rbind [OF call]) (use k in auto)
    also have "rbind ?call ?k = ?run"
      unfolding run_binary_def prod.case
      using fault by (auto simp: o_faultable_def tested rbind_assoc case_prod_unfold)
    finally show ?thesis .
  next
    case plain
    obtain w' where w': "is_int w'" "exec [ll_con (reg_con ?r), ll_con (reg_con ?q)] = Ret (ll_con w')"
      using exec plain(2) r_int q_int unfolding exec_ok_def by blast
    let ?k = "\<lambda>(u, s1). case u of
        ll_abs a \<Rightarrow> rret (env(v := \<lparr>reg_taint = shadow_forward c env v 2, reg_con = w', reg_abs = a\<rparr>), s1)
      | _ \<Rightarrow> [Undef]"
    have "shadow_forward c env v 2" using plain(1) by (simp add: shadow_forward_two)
    then have k: "rsound (?k (ll_abs a, s1)) ?Q" if "extends gamma 3 s rho s1 rho1" "live s1 a" "rho1 a = z" for a s1 rho1
      using result [OF that(1) reg_holds_abs [of w' s1 a rho1 z, OF w'(1) that(2,3)]] by simp
    have "rsound (rbind ?call ?k) ?Q"
      by (rule rsound_rbind [OF call]) (use k in auto)
    also have "rbind ?call ?k = ?run"
      unfolding run_binary_def prod.case
      using plain w'(2) by (auto simp: o_faultable_def tested case_prod_unfold intro!: rbind_cong_returns split: ll_value.splits)
    finally show ?thesis .
  next
    case concrete
    then have xy: "reg_con ?r = rep x" "reg_con ?q = rep y" using r q by (simp_all add: reg_holds_def)
    then have w': "exec [ll_con (reg_con ?r), ll_con (reg_con ?q)] = Ret (ll_con (rep z))"
      using exec z by (auto simp: exec_ok_def)
    obtain st where st: "run_unstash (s\<lparr>lamp_stash := lart_stash False 0 (lamp_stash s)\<rparr>) =
        ((False, 0), s\<lparr>lamp_stash := st\<rparr>)"
      "\<forall>xs. length xs < 256 \<longrightarrow> both_hold xs (lamp_stash s) \<longrightarrow> both_hold xs st"
      using stash_unstash [where s = s and t = False and p = 0] by blast
    have "\<not> shadow_forward c env v 2" using concrete by (simp add: shadow_forward_two)
    then show ?thesis
      using concrete w' st(1) result [OF same reg_holds_con] result [OF extends_stash(1) [OF same st(2)] reg_holds_con]
      by (simp add: run_binary_def o_faultable_def tested stash_result_def)
  qed
qed

end

text \<open>
  Straight-line code: every instruction computes the number that the concrete execution gives it,
  from operands that were known or computed before.
\<close>

definition obeys ::
  "(op_tag \<Rightarrow> 'c \<Rightarrow> 'c \<Rightarrow> 'c option) \<Rightarrow> op_tag set \<Rightarrow> ('c \<Rightarrow> c_value) \<Rightarrow>
    (nat \<Rightarrow> ll_value list \<Rightarrow> ll_value outcome) \<Rightarrow> code \<Rightarrow> (nat \<Rightarrow> 'c) \<Rightarrow> nat \<Rightarrow> bool" where
  "obeys conc ops rep exec c val v \<longleftrightarrow> (\<exists>t \<in> ops. cd_opcode_name c v = mixin_name t \<and>
    conc t (val (cd_operand c v 0)) (val (cd_operand c v 1)) = Some (val v) \<and>
    exec_ok conc rep (exec v) t (cd_int_div_rem c v))"

fun operands_known :: "code \<Rightarrow> nat set \<Rightarrow> nat list \<Rightarrow> bool" where
  "operands_known c known [] = True"
| "operands_known c known (v # vs) \<longleftrightarrow>
    cd_operand c v 0 \<in> known \<and> cd_operand c v 1 \<in> known \<and> operands_known c (insert v known) vs"

definition regs_hold ::
  "('v \<Rightarrow> 'c set) \<Rightarrow> ('c \<Rightarrow> c_value) \<Rightarrow> nat set \<Rightarrow> (nat \<Rightarrow> 'c) \<Rightarrow> (nat \<Rightarrow> reg) \<times> 'v lamp \<Rightarrow> (64 word \<Rightarrow> 'c) \<Rightarrow> bool" where
  "regs_hold gamma rep known val st rho \<longleftrightarrow> heap_holds gamma (snd st) rho \<and>
    (\<forall>u \<in> known. reg_holds rep (snd st) rho (fst st u) (val u))"

context instrumented
begin

lemma run_code_sound:
  assumes "regs_hold gamma rep known val (env, s) rho" "roomy (3 * length vs) s"
    and "operands_known c known vs" "\<forall>v \<in> set vs. obeys conc ops rep exec c val v"
  shows "rsound (run_code D memory exec c vs (env, s))
    (\<lambda>st. \<exists>rho'. regs_hold gamma rep (known \<union> set vs) val st rho')"
  using assms
proof (induction vs arbitrary: known env s rho)
  case Nil
  then show ?case by auto
next
  case (Cons v vs)
  obtain t where t: "t \<in> ops" "cd_opcode_name c v = mixin_name t"
    "conc t (val (cd_operand c v 0)) (val (cd_operand c v 1)) = Some (val v)"
    "exec_ok conc rep (exec v) t (cd_int_div_rem c v)"
    using Cons.prems(4) by (auto simp: obeys_def)
  have h: "heap_holds gamma s rho" "\<And>u. u \<in> known \<Longrightarrow> reg_holds rep s rho (env u) (val u)"
    using Cons.prems(1) by (auto simp: regs_hold_def)
  have room: "roomy (3 + 3 * length vs) s" "roomy 3 s" using Cons.prems(2) by (simp_all add: roomy_def)
  have step: "rsound (run_binary D memory (exec v) c v (env, s)) (\<lambda>(env', s'). \<exists>rho' u.
      env' = env(v := u) \<and> extends gamma 3 s rho s' rho' \<and> reg_holds rep s' rho' u (val v))"
    using Cons.prems(3) h by (intro run_binary_sound [OF t(1,2) _ _ t(3) _ room(2) t(4)]) auto
  show ?case
    unfolding run_code.simps
  proof (rule rsound_rbind [OF step])
    fix st assume "(\<lambda>(env', s'). \<exists>rho' u.
      env' = env(v := u) \<and> extends gamma 3 s rho s' rho' \<and> reg_holds rep s' rho' u (val v)) st"
    then obtain s1 rho1 u where st: "st = (env(v := u), s1)" "extends gamma 3 s rho s1 rho1"
      "reg_holds rep s1 rho1 u (val v)" by auto
    have "regs_hold gamma rep (insert v known) val st rho1"
      using st h reg_holds_extends [OF h(2) st(2)] by (auto simp: regs_hold_def extends_def)
    then have "rsound (run_code D memory exec c vs st) (\<lambda>st'. \<exists>rho'. regs_hold gamma rep (insert v known \<union> set vs) val st' rho')"
      unfolding st(1)
      using Cons.prems(3,4) roomy_extends [OF st(2) room(1)] by (intro Cons.IH [of _ _ _ rho1]) (simp_all add: st(1) del: fun_upd_apply)
    then show "rsound (run_code D memory exec c vs st) (\<lambda>st'. \<exists>rho'. regs_hold gamma rep (known \<union> set (v # vs)) val st' rho')"
      by simp
  qed
qed

end

section \<open>Branches\<close>

lemma lamp_entry_branch: "lamp_entry ''__lamp_to_bool'' = Some e_to_bool" "lamp_entry ''__lamp_assume'' = Some e_assume"
  by code_simp+

lemma run_tested_tobool:
  assumes "r = env (cd_condition c v)"
  shows "run_tested D memory exec c (o_tobool v) env s =
    (if reg_taint r then call_lamp D memory ''__lamp_to_bool'' [ll_abs (reg_abs r)] s
     else rret (ll_con (reg_con r), s))"
  by (auto simp: assms run_tested_def duplicated_arguments_def duplicated_argument_def generate_def
      count_taints_def la_tainted_def lower_test_taint_def o_default_value_def o_faultable_def
      run_test_taint_def run_abstract_path_def run_concrete_path_def run_lifter_def param_def
      lift_argument_code_def extract_default_def)

lemma run_tested_assume:
  assumes "r = env v"
  shows "run_tested D memory exec c (o_assume v b) env s =
    (if reg_taint r then call_lamp D memory ''__lamp_assume'' [ll_abs (reg_abs r), ll_con (c_bool b)] s
     else rret (ll_void, s))"
  by (auto simp: assms run_tested_def duplicated_arguments_def duplicated_argument_def generate_def
      count_taints_def la_tainted_def lower_test_taint_def o_default_value_def o_faultable_def
      run_test_taint_def run_abstract_path_def run_concrete_path_def run_lifter_def param_def
      lift_argument_code_def extract_default_def)

context branch_sound
begin

lemma lamp_to_bool_sound:
  assumes "heap_holds gamma s rho" "live s p"
  shows "rsound (lamp_to_bool D p s) (\<lambda>b. b = truth (rho p))"
proof -
  obtain v where v: "deref p s = Ret v" "rho p \<in> gamma v" using heap_holdsD [OF assms] by blast
  show ?thesis
    unfolding lamp_to_bool_def lamp_to_tristate_def v(1) obind.simps
    by (rule rsound_rbind [where P = "\<lambda>t. truth (rho p) \<in> tri_gamma t"])
      (use tristate_sound [OF v(2)] tri_lower_exhaustive in auto)
qed

lemma lamp_assume_sound:
  assumes "heap_holds gamma s rho" "live s p"
  shows "osound (lamp_assume D p (truth (rho p)) s)
    (\<lambda>s'. heap_holds gamma s' rho \<and> live s' = live s \<and> lamp_stash s' = lamp_stash s \<and> lamp_shadow s' = lamp_shadow s)"
proof -
  obtain v where v: "deref p s = Ret v" "rho p \<in> gamma v" using heap_holdsD [OF assms] by blast
  have "heap_holds gamma (s\<lparr>lamp_heap := (lamp_heap s)[unat p - 1 := y]\<rparr>) rho" if y: "rho p \<in> gamma y" for y
    unfolding heap_holds_def
  proof (intro allI impI)
    fix q assume "live (s\<lparr>lamp_heap := (lamp_heap s)[unat p - 1 := y]\<rparr>) q"
    then have q: "live s q" by (simp add: live_def)
    have "q = p" if "unat q - 1 = unat p - 1"
      using that q assms(2) unat_gt_0 [of q] unat_gt_0 [of p]
      by (metis Suc_pred' live_def unsigned_word_eqI)
    moreover have "unat p - 1 < length (lamp_heap s)"
      using assms(2) unat_gt_0 [of p] by (auto simp: live_def)
    ultimately show "rho q \<in> gamma (lamp_heap (s\<lparr>lamp_heap := (lamp_heap s)[unat p - 1 := y]\<rparr>) ! (unat q - 1))"
      using assms(1) q y by (cases "unat q - 1 = unat p - 1") (auto simp: heap_holds_def)
  qed
  then show ?thesis
    using assume_sound [OF v(2)]
    by (auto simp: lamp_assume_def v(1) osound_omap live_def fun_eq_iff elim!: osound_mono)
qed

text \<open>The branch is taken as in the concrete execution, whatever the condition's register is.\<close>

lemma run_branch_sound:
  assumes "heap_holds gamma s rho"
    and "if reg_taint r then live s (reg_abs r) \<and> rho (reg_abs r) = x else reg_con r = c_bool (truth x)"
    and "r = env (cd_condition c v)"
  shows "rsound (run_branch D memory c v env s) (\<lambda>(b, s'). b = truth x \<and> heap_holds gamma s' rho \<and> live s' = live s)"
proof (cases "reg_taint r")
  case True
  then have p: "live s (reg_abs r)" "rho (reg_abs r) = x" using assms(2) by simp_all
  have "rsound (rbind (lamp_to_bool D (reg_abs r) s) (\<lambda>b.
      rbind [omap (\<lambda>s'. (ll_void, s')) (lamp_assume D (reg_abs r) b s)] (\<lambda>(_, s2). rret (b, s2))))
    (\<lambda>(b, s'). b = truth x \<and> heap_holds gamma s' rho \<and> live s' = live s)"
  proof (rule rsound_rbind [OF lamp_to_bool_sound [OF assms(1) p(1)]])
    fix b assume "b = truth (rho (reg_abs r))"
    then show "rsound (rbind [omap (\<lambda>s'. (ll_void, s')) (lamp_assume D (reg_abs r) b s)] (\<lambda>(_, s2). rret (b, s2)))
        (\<lambda>(b, s'). b = truth x \<and> heap_holds gamma s' rho \<and> live s' = live s)"
      using lamp_assume_sound [OF assms(1) p(1)] p(2)
      by (cases "lamp_assume D (reg_abs r) b s") auto
  qed
  then show ?thesis
    using True
    by (simp add: run_branch_def run_tested_tobool [of r env c v, OF assms(3)] run_tested_assume [of r env "cd_condition c v", OF assms(3)] call_lamp_def
        lamp_entry_branch rbind_assoc)
next
  case False
  with assms show ?thesis
    by (simp add: run_branch_def run_tested_tobool [of r env c v, OF assms(3)] run_tested_assume [of r env "cd_condition c v", OF assms(3)])
qed

end

section \<open>Domains behind the instrumentation\<close>

definition word_rep :: "'w::len word \<Rightarrow> c_value" where
  "word_rep x = c_int False LENGTH('w) (uint x)"

lemma word_rep_int: "is_int (word_rep x)"
  unfolding is_int_def word_rep_def by blast

interpretation zero_instr: instrumented zero_domain zero_gamma conc_word "set mixin_bin_tags - {tag_mul}"
    "word_rep :: 'w::len word \<Rightarrow> c_value"
proof
  fix t and x y z :: "'w word" and a b
  assume "t \<in> set mixin_bin_tags - {tag_mul}" "x \<in> zero_gamma a" "y \<in> zero_gamma b" "conc_word t x y = Some z"
  then show "osound (dom_bin zero_domain t a b) (\<lambda>c. z \<in> zero_gamma c)" by (intro zr.bin_sound) auto
next
  fix x :: "'w word"
  show "osound (dom_lift zero_domain (word_rep x)) (\<lambda>v. x \<in> zero_gamma v)"
    by (auto simp: word_rep_def zero_domain_def unsigned_eq_0_iff)
qed (auto simp: word_rep_int)

interpretation trivial_instr: instrumented "sl_domain (trivial_lattice fl)"
    "trivial_gamma :: trivial_value tagged_value \<Rightarrow> 32 word set" con_word "con_ops 32" word_rep
  for fl :: "nat \<times> int"
proof
  fix t and x y z :: "32 word" and a b
  assume "t \<in> con_ops 32" "x \<in> trivial_gamma a" "y \<in> trivial_gamma b" "con_word t x y = Some z"
  then show "osound (dom_bin (sl_domain (trivial_lattice fl)) t a b) (\<lambda>c. z \<in> trivial_gamma c)"
    by (intro triv_forward.bin_sound) auto
next
  fix x :: "32 word"
  have "ucast (word_of_int (uint x) :: 64 word) = x"
    using ucast_of_int [where 'w = 32, of "uint x"] by simp
  then have "x \<in> con_gamma (mk_con (word_of_int (uint x)) con_bv 32)" by (simp add: con_gamma_def)
  moreover have "sl_lift (trivial_lattice fl) (word_rep x) = Ret (triv (triv_constant (mk_con (word_of_int (uint x)) con_bv 32)))"
    using sl_make_triv(2) [of "trivial_lattice fl" "Ret (mk_con (word_of_int (uint x)) con_bv 32)"]
    by (simp add: sl_lift_def word_rep_def trivial_lattice_def dom_type_def embed_def con_domain_def con_dom_lift_def)
  ultimately show "osound (dom_lift (sl_domain (trivial_lattice fl)) (word_rep x)) (\<lambda>v. x \<in> trivial_gamma v)"
    by (auto simp: sl_domain_def trivial_gamma_def)
next
  show "con_ops 32 \<subseteq> set mixin_bin_tags"
    by (auto simp: con_ops_def con_unsigned_tags_def con_signed_tags_def mixin_bin_tags_def)
qed (simp add: word_rep_int)

section \<open>Properties\<close>

text \<open>The instructions of a machine of 32 bits, and a program: an unknown 0 plus 1, divided by 1.\<close>

definition word_exec :: "op_tag \<Rightarrow> ll_value list \<Rightarrow> ll_value outcome" where
  "word_exec t args =
    (case args of
       [ll_con (c_int sg w a), ll_con (c_int sg' w' b)] \<Rightarrow>
         (case con_word t (word_of_int a :: 32 word) (word_of_int b) of
            Some z \<Rightarrow> Ret (ll_con (word_rep z)) | None \<Rightarrow> Ret (ll_con (word_rep (0 :: 32 word))))
     | _ \<Rightarrow> Undef)"

lemma word_exec_ok: "exec_ok con_word (word_rep :: 32 word \<Rightarrow> c_value) (word_exec t) t faultable"
  by (auto simp: exec_ok_def word_exec_def word_rep_def is_int_def split: option.splits)

definition demo_code :: code where
  "demo_code = \<lparr>cd_operand = (\<lambda>v i. if v = 3 then (if i = 0 then 2 else 1) else i), cd_pointer_operand = (\<lambda>_. 0),
     cd_value_operand = (\<lambda>_. 0), cd_condition = (\<lambda>_. 0),
     cd_opcode_name = (\<lambda>v. if v = 3 then ''udiv'' else ''add''), cd_predicate_name = (\<lambda>_. []),
     cd_int_div_rem = (\<lambda>v. v = 3), cd_element_bytes = (\<lambda>_. 4), cd_bits = (\<lambda>_. 32), cd_type = (\<lambda>_. ''i32'')\<rparr>"

definition demo_val :: "nat \<Rightarrow> 32 word" where
  "demo_val v = (if v = 0 then 7 else if v = 1 then 2 else if v = 2 then 9 else 4)"

definition demo_env :: "nat \<Rightarrow> reg" where
  "demo_env v = (if v = 0 then \<lparr>reg_taint = True, reg_con = c_int False 32 0, reg_abs = 1\<rparr>
     else \<lparr>reg_taint = False, reg_con = c_int False 32 2, reg_abs = 0\<rparr>)"

definition demo_state :: "trivial_value tagged_value lamp" where
  "demo_state = \<lparr>lamp_heap = [triv triv_unit], lamp_stash = stash_init, lamp_shadow = setup_shadow\<rparr>"



text \<open>
  C10: An instrumented branch follows the program: over the zero domain, whether the condition is
  tainted or not, some path of the test, the lowering of its truth value and the assumption on the
  taken edge goes where the program goes, and keeps every abstract value describing its number.
\<close>

theorem instrumented_branch_sound:
  fixes x :: "'w::len word"
  assumes "heap_holds zero_gamma s rho"
    and "if reg_taint r then live s (reg_abs r) \<and> rho (reg_abs r) = x else reg_con r = c_bool (x \<noteq> 0)"
    and "r = env (cd_condition c v)"
  shows "rsound (run_branch zero_domain memory c v env s)
    (\<lambda>(b, s'). b = (x \<noteq> 0) \<and> heap_holds zero_gamma s' rho \<and> live s' = live s)"
  by (rule zr_branch.run_branch_sound
    [where s = s and rho = rho and r = r and x = x and env = env and c = c and v = v, OF assms])

theorem instrumented_branch_sound_witness:
  "rsound (run_branch zero_domain (\<lambda>_. 0) demo_code 9 demo_env
      \<lparr>lamp_heap = [unknown_z], lamp_stash = stash_init, lamp_shadow = setup_shadow\<rparr>)
    (\<lambda>(b, s'). b = ((5 :: 8 word) \<noteq> 0) \<and> heap_holds zero_gamma s' (\<lambda>_. 5 :: 8 word) \<and>
      live s' = live \<lparr>lamp_heap = [unknown_z], lamp_stash = stash_init, lamp_shadow = setup_shadow\<rparr>)"
  by (rule instrumented_branch_sound [where r = "demo_env 0"])
    (auto simp: heap_holds_def live_def demo_env_def demo_code_def)

end
