(* ===== verification/Runtime_Vector.thy ===== *)
theory Runtime_Vector
  imports Lart_Prelude
begin

text \<open>
  The vector of the runtime, \<open>runtime/include/runtime/vector.hpp\<close>: a block of memory whose size
  is the number of elements. A change of the size allocates, reallocates or frees the block; what
  it adds is not initialised. A failing allocation is not modelled.
\<close>

section \<open>Operations\<close>

type_synonym 'a vector = "'a option list"

definition vec_size :: "'a vector \<Rightarrow> nat" where
  "vec_size v = length v"

definition vec_empty :: "'a vector \<Rightarrow> bool" where
  "vec_empty v \<longleftrightarrow> vec_size v = 0"

definition vec_resize :: "nat \<Rightarrow> 'a vector \<Rightarrow> 'a vector" where
  "vec_resize n v =
    (if n = 0 then []
     else if vec_empty v then replicate n None
     else take n v @ replicate (n - vec_size v) None)"

text \<open>Reading an element that is not there, or not initialised, is undefined.\<close>

definition vec_at :: "nat \<Rightarrow> 'a vector \<Rightarrow> 'a outcome" where
  "vec_at i v = (if i < vec_size v then (case v ! i of Some x \<Rightarrow> Ret x | None \<Rightarrow> Undef) else Undef)"

definition vec_set :: "nat \<Rightarrow> 'a \<Rightarrow> 'a vector \<Rightarrow> 'a vector outcome" where
  "vec_set i x v = (if i < vec_size v then Ret (v[i := Some x]) else Undef)"

definition vec_back :: "'a vector \<Rightarrow> 'a outcome" where
  "vec_back v = (if vec_empty v then Undef else vec_at (vec_size v - 1) v)"

definition vec_front :: "'a vector \<Rightarrow> 'a outcome" where
  "vec_front v = vec_at 0 v"

definition vec_push_back :: "'a \<Rightarrow> 'a vector \<Rightarrow> 'a vector" where
  "vec_push_back t v = (let v' = vec_resize (vec_size v + 1) v in v'[vec_size v' - 1 := Some t])"

definition vec_emplace_back :: "'a \<Rightarrow> 'a vector \<Rightarrow> 'a outcome \<times> 'a vector" where
  "vec_emplace_back t v =
    (let v' = vec_resize (vec_size v + 1) v; v'' = v'[vec_size v' - 1 := Some t] in (vec_back v'', v''))"

definition vec_pop_back :: "'a vector \<Rightarrow> 'a vector outcome" where
  "vec_pop_back v = obind (vec_back v) (\<lambda>_. Ret (vec_resize (vec_size v - 1) v))"

definition vec_clear :: "'a vector \<Rightarrow> 'a vector" where
  "vec_clear v = (if vec_empty v then v else [])"

text \<open>
  \<open>push_back\<close> takes a reference. When it refers to an element of the vector itself, the element is
  read after the block was reallocated: if the block has moved, the reference dangles.
\<close>

definition vec_push_own :: "bool \<Rightarrow> nat \<Rightarrow> 'a vector \<Rightarrow> 'a vector outcome" where
  "vec_push_own moved i v =
    (let v' = vec_resize (vec_size v + 1) v in
     if moved then Undef else omap (\<lambda>x. v'[vec_size v' - 1 := Some x]) (vec_at i v'))"

section \<open>Vectors that hold a list\<close>

abbreviation vec_of :: "'a list \<Rightarrow> 'a vector" where
  "vec_of xs \<equiv> map Some xs"

lemma vec_resize_spec: "vec_resize n v = take n v @ replicate (n - length v) None"
  by (auto simp: vec_resize_def vec_empty_def vec_size_def)

lemma vec_push_back_of [simp]: "vec_push_back x v = v @ [Some x]"
  by (simp add: vec_push_back_def vec_resize_spec vec_size_def list_update_append)

lemma vec_back_of: "vec_back (vec_of (xs @ [x])) = Ret x"
  by (simp add: vec_back_def vec_at_def vec_empty_def vec_size_def nth_append)

lemma vec_pop_back_of: "vec_pop_back (vec_of (xs @ [x])) = Ret (vec_of xs)"
  unfolding vec_pop_back_def vec_back_of by (simp add: vec_resize_spec vec_size_def)

lemma vec_at_of: "i < length xs \<Longrightarrow> vec_at i (vec_of xs) = Ret (xs ! i)"
  by (simp add: vec_at_def vec_size_def)

lemma vec_pop_push: "vec_pop_back (vec_push_back x v) = Ret v"
  by (simp add: vec_pop_back_def vec_back_def vec_at_def vec_resize_spec vec_empty_def vec_size_def)

section \<open>Properties\<close>

text \<open>
  The vector of the runtime is a list: growing by an element and writing the new last one appends
  it, removing the last gives the list before, and resizing keeps the elements that still fit.
\<close>

theorem vector_refines_list:
  fixes x :: 'a
  shows "vec_push_back x (vec_of xs) = vec_of (xs @ [x]) \<and> vec_back (vec_of (xs @ [x])) = Ret x \<and>
    vec_pop_back (vec_of (xs @ [x])) = Ret (vec_of xs) \<and> vec_pop_back (vec_of ([] :: 'a list)) = Undef \<and>
    vec_resize (length xs - n) (vec_of xs) = vec_of (take (length xs - n) xs)"
proof -
  have "vec_pop_back (vec_of ([] :: 'a list)) = Undef"
    by (simp add: vec_pop_back_def vec_back_def vec_empty_def vec_size_def)
  then show ?thesis
    using vec_back_of [of xs x] vec_pop_back_of [of xs x] by (simp add: vec_resize_spec take_map)
qed

end
