(* ===== verification/Smt_Expr.thy ===== *)
theory Smt_Expr
  imports Runtime_Vector "HOL-Library.Word"
begin

text \<open>
  Expressions in reverse Polish notation, \<open>lava/include/lava/support/smt.hpp\<close>: the operators and
  their traits, atoms (an operator and its immediate bytes), and expressions, which are vectors
  of bytes that hold atoms one after another.
\<close>

section \<open>Operators\<close>

text \<open>An operator is a byte; the enumeration names the first of them.\<close>

type_synonym smt_op = nat

abbreviation (input) s_invalid :: smt_op where "s_invalid \<equiv> 0"
abbreviation (input) s_eq :: smt_op where "s_eq \<equiv> 1"
abbreviation (input) s_neq :: smt_op where "s_neq \<equiv> 2"
abbreviation (input) s_join :: smt_op where "s_join \<equiv> 3"
abbreviation (input) s_meet :: smt_op where "s_meet \<equiv> 4"
abbreviation (input) s_array :: smt_op where "s_array \<equiv> 5"
abbreviation (input) s_var_i1 :: smt_op where "s_var_i1 \<equiv> 6"
abbreviation (input) s_var_i8 :: smt_op where "s_var_i8 \<equiv> 7"
abbreviation (input) s_var_i16 :: smt_op where "s_var_i16 \<equiv> 8"
abbreviation (input) s_var_i32 :: smt_op where "s_var_i32 \<equiv> 9"
abbreviation (input) s_var_i64 :: smt_op where "s_var_i64 \<equiv> 10"
abbreviation (input) s_var_f32 :: smt_op where "s_var_f32 \<equiv> 11"
abbreviation (input) s_var_f64 :: smt_op where "s_var_f64 \<equiv> 12"
abbreviation (input) s_const_i1 :: smt_op where "s_const_i1 \<equiv> 13"
abbreviation (input) s_const_i8 :: smt_op where "s_const_i8 \<equiv> 14"
abbreviation (input) s_const_i16 :: smt_op where "s_const_i16 \<equiv> 15"
abbreviation (input) s_const_i32 :: smt_op where "s_const_i32 \<equiv> 16"
abbreviation (input) s_const_i64 :: smt_op where "s_const_i64 \<equiv> 17"
abbreviation (input) s_const_f32 :: smt_op where "s_const_f32 \<equiv> 18"
abbreviation (input) s_const_f64 :: smt_op where "s_const_f64 \<equiv> 19"
abbreviation (input) s_bv_not :: smt_op where "s_bv_not \<equiv> 20"
abbreviation (input) s_bv_neg :: smt_op where "s_bv_neg \<equiv> 21"
abbreviation (input) s_bv_sext :: smt_op where "s_bv_sext \<equiv> 22"
abbreviation (input) s_bv_zext :: smt_op where "s_bv_zext \<equiv> 23"
abbreviation (input) s_bv_trunc :: smt_op where "s_bv_trunc \<equiv> 24"
abbreviation (input) s_bv_zfit :: smt_op where "s_bv_zfit \<equiv> 25"
abbreviation (input) s_bv_stofp :: smt_op where "s_bv_stofp \<equiv> 26"
abbreviation (input) s_bv_utofp :: smt_op where "s_bv_utofp \<equiv> 27"
abbreviation (input) s_fp_ext :: smt_op where "s_fp_ext \<equiv> 28"
abbreviation (input) s_fp_trunc :: smt_op where "s_fp_trunc \<equiv> 29"
abbreviation (input) s_fp_tosbv :: smt_op where "s_fp_tosbv \<equiv> 30"
abbreviation (input) s_fp_toubv :: smt_op where "s_fp_toubv \<equiv> 31"
abbreviation (input) s_bool_and :: smt_op where "s_bool_and \<equiv> 32"
abbreviation (input) s_bool_or :: smt_op where "s_bool_or \<equiv> 33"
abbreviation (input) s_bool_xor :: smt_op where "s_bool_xor \<equiv> 34"
abbreviation (input) s_bool_imply :: smt_op where "s_bool_imply \<equiv> 35"
abbreviation (input) s_bool_not :: smt_op where "s_bool_not \<equiv> 36"
abbreviation (input) s_bv_and :: smt_op where "s_bv_and \<equiv> 37"
abbreviation (input) s_bv_or :: smt_op where "s_bv_or \<equiv> 38"
abbreviation (input) s_bv_xor :: smt_op where "s_bv_xor \<equiv> 39"
abbreviation (input) s_bv_add :: smt_op where "s_bv_add \<equiv> 40"
abbreviation (input) s_bv_sub :: smt_op where "s_bv_sub \<equiv> 41"
abbreviation (input) s_bv_mul :: smt_op where "s_bv_mul \<equiv> 42"
abbreviation (input) s_bv_udiv :: smt_op where "s_bv_udiv \<equiv> 43"
abbreviation (input) s_bv_sdiv :: smt_op where "s_bv_sdiv \<equiv> 44"
abbreviation (input) s_bv_urem :: smt_op where "s_bv_urem \<equiv> 45"
abbreviation (input) s_bv_srem :: smt_op where "s_bv_srem \<equiv> 46"
abbreviation (input) s_bv_shl :: smt_op where "s_bv_shl \<equiv> 47"
abbreviation (input) s_bv_lshr :: smt_op where "s_bv_lshr \<equiv> 48"
abbreviation (input) s_bv_ashr :: smt_op where "s_bv_ashr \<equiv> 49"
abbreviation (input) s_bv_ule :: smt_op where "s_bv_ule \<equiv> 50"
abbreviation (input) s_bv_ult :: smt_op where "s_bv_ult \<equiv> 51"
abbreviation (input) s_bv_uge :: smt_op where "s_bv_uge \<equiv> 52"
abbreviation (input) s_bv_ugt :: smt_op where "s_bv_ugt \<equiv> 53"
abbreviation (input) s_bv_sle :: smt_op where "s_bv_sle \<equiv> 54"
abbreviation (input) s_bv_slt :: smt_op where "s_bv_slt \<equiv> 55"
abbreviation (input) s_bv_sge :: smt_op where "s_bv_sge \<equiv> 56"
abbreviation (input) s_bv_sgt :: smt_op where "s_bv_sgt \<equiv> 57"
abbreviation (input) s_fp_add :: smt_op where "s_fp_add \<equiv> 58"
abbreviation (input) s_fp_sub :: smt_op where "s_fp_sub \<equiv> 59"
abbreviation (input) s_fp_mul :: smt_op where "s_fp_mul \<equiv> 60"
abbreviation (input) s_fp_div :: smt_op where "s_fp_div \<equiv> 61"
abbreviation (input) s_fp_rem :: smt_op where "s_fp_rem \<equiv> 62"
abbreviation (input) s_fp_false :: smt_op where "s_fp_false \<equiv> 63"
abbreviation (input) s_fp_oeq :: smt_op where "s_fp_oeq \<equiv> 64"
abbreviation (input) s_fp_ogt :: smt_op where "s_fp_ogt \<equiv> 65"
abbreviation (input) s_fp_oge :: smt_op where "s_fp_oge \<equiv> 66"
abbreviation (input) s_fp_olt :: smt_op where "s_fp_olt \<equiv> 67"
abbreviation (input) s_fp_ole :: smt_op where "s_fp_ole \<equiv> 68"
abbreviation (input) s_fp_one :: smt_op where "s_fp_one \<equiv> 69"
abbreviation (input) s_fp_ord :: smt_op where "s_fp_ord \<equiv> 70"
abbreviation (input) s_fp_true :: smt_op where "s_fp_true \<equiv> 71"
abbreviation (input) s_fp_ueq :: smt_op where "s_fp_ueq \<equiv> 72"
abbreviation (input) s_fp_ugt :: smt_op where "s_fp_ugt \<equiv> 73"
abbreviation (input) s_fp_uge :: smt_op where "s_fp_uge \<equiv> 74"
abbreviation (input) s_fp_ult :: smt_op where "s_fp_ult \<equiv> 75"
abbreviation (input) s_fp_ule :: smt_op where "s_fp_ule \<equiv> 76"
abbreviation (input) s_fp_une :: smt_op where "s_fp_une \<equiv> 77"
abbreviation (input) s_fp_uno :: smt_op where "s_fp_uno \<equiv> 78"
abbreviation (input) s_bv_extract :: smt_op where "s_bv_extract \<equiv> 79"
abbreviation (input) s_bv_concat :: smt_op where "s_bv_concat \<equiv> 80"
abbreviation (input) s_load :: smt_op where "s_load \<equiv> 81"
abbreviation (input) s_store :: smt_op where "s_store \<equiv> 82"

datatype smt_op_type =
  smt_op_other | smt_op_var | smt_op_const | smt_op_cast | smt_op_resize | smt_op_bool | smt_op_compare

record smt_trait =
  tr_name :: string
  tr_arity :: nat
  tr_imm_bytes :: nat
  tr_bitwidth :: nat
  tr_floating :: bool
  tr_type :: smt_op_type

definition traits :: "string \<Rightarrow> nat \<Rightarrow> nat \<Rightarrow> nat \<Rightarrow> bool \<Rightarrow> smt_op_type \<Rightarrow> smt_trait" where
  "traits name arity imm bw floating ty =
    \<lparr>tr_name = name, tr_arity = arity, tr_imm_bytes = imm, tr_bitwidth = bw, tr_floating = floating, tr_type = ty\<rparr>"

text \<open>The switch over the operators, in the order of the enumeration.\<close>

definition smt_table :: "smt_trait list" where
  "smt_table =
    [traits ''invalid'' 0 0 0 False smt_op_other,
     traits ''='' 2 0 1 False smt_op_compare,
     traits ''!='' 2 0 1 False smt_op_compare,
     traits ''join'' 2 0 1 False smt_op_other,
     traits ''join'' 2 0 1 False smt_op_other,
     traits ''array'' 0 4 0 False smt_op_other,
     traits ''var_i1'' 0 2 1 False smt_op_var,
     traits ''var_i8'' 0 2 8 False smt_op_var,
     traits ''var_i16'' 0 2 16 False smt_op_var,
     traits ''var_i32'' 0 2 32 False smt_op_var,
     traits ''var_i64'' 0 2 64 False smt_op_var,
     traits ''var_f32'' 0 2 32 True smt_op_var,
     traits ''var_f64'' 0 2 64 True smt_op_var,
     traits ''const_i1'' 0 1 1 False smt_op_const,
     traits ''const_i8'' 0 1 8 False smt_op_const,
     traits ''const_i16'' 0 2 16 False smt_op_const,
     traits ''const_i32'' 0 4 32 False smt_op_const,
     traits ''const_i64'' 0 8 64 False smt_op_const,
     traits ''const_f32'' 0 4 32 True smt_op_const,
     traits ''const_f64'' 0 8 64 True smt_op_const,
     traits ''bvnot'' 1 0 1 False smt_op_other,
     traits ''bvneg'' 1 0 0 False smt_op_other,
     traits ''sext'' 1 1 0 False smt_op_resize,
     traits ''zext'' 1 1 0 False smt_op_resize,
     traits ''trunc'' 1 1 0 False smt_op_resize,
     traits ''zfit'' 1 1 0 False smt_op_resize,
     traits ''sinttofp'' 0 1 0 False smt_op_cast,
     traits ''uinttofp'' 0 1 0 False smt_op_cast,
     traits ''fpext'' 1 1 0 True smt_op_resize,
     traits ''fptrunc'' 1 1 0 True smt_op_resize,
     traits ''fptosint'' 0 1 0 True smt_op_cast,
     traits ''fptouint'' 0 1 0 True smt_op_cast,
     traits ''and'' 2 0 1 False smt_op_bool,
     traits ''or'' 2 0 1 False smt_op_bool,
     traits ''xor'' 2 0 1 False smt_op_bool,
     traits ''=>'' 2 0 1 False smt_op_bool,
     traits ''not'' 1 0 1 False smt_op_bool,
     traits ''bvand'' 2 0 0 False smt_op_other,
     traits ''bvor'' 2 0 0 False smt_op_other,
     traits ''bvxor'' 2 0 0 False smt_op_other,
     traits ''bvadd'' 2 0 0 False smt_op_other,
     traits ''bvsub'' 2 0 0 False smt_op_other,
     traits ''bvmul'' 2 0 0 False smt_op_other,
     traits ''bvudiv'' 2 0 0 False smt_op_other,
     traits ''bvsdiv'' 2 0 0 False smt_op_other,
     traits ''bvurem'' 2 0 0 False smt_op_other,
     traits ''bvsrem'' 2 0 0 False smt_op_other,
     traits ''bvshl'' 2 0 0 False smt_op_other,
     traits ''bvlshr'' 2 0 0 False smt_op_other,
     traits ''bvashr'' 2 0 0 False smt_op_other,
     traits ''bvule'' 2 0 1 False smt_op_compare,
     traits ''bvult'' 2 0 1 False smt_op_compare,
     traits ''bvuge'' 2 0 1 False smt_op_compare,
     traits ''bvugt'' 2 0 1 False smt_op_compare,
     traits ''bvsle'' 2 0 1 False smt_op_compare,
     traits ''bvslt'' 2 0 1 False smt_op_compare,
     traits ''bvsge'' 2 0 1 False smt_op_compare,
     traits ''bvsgt'' 2 0 1 False smt_op_compare,
     traits ''fp.add'' 2 0 0 True smt_op_other,
     traits ''fp.sub'' 2 0 0 True smt_op_other,
     traits ''fp.mul'' 2 0 0 True smt_op_other,
     traits ''fp.div'' 2 0 0 True smt_op_other,
     traits ''fp.rem'' 2 0 0 True smt_op_other,
     traits ''fp.false'' 2 0 1 True smt_op_compare,
     traits ''fp.oeq'' 2 0 1 True smt_op_compare,
     traits ''fp.sgt'' 2 0 1 True smt_op_compare,
     traits ''fp.sge'' 2 0 1 True smt_op_compare,
     traits ''fp.slt'' 2 0 1 True smt_op_compare,
     traits ''fp.sle'' 2 0 1 True smt_op_compare,
     traits ''fp.one'' 2 0 1 True smt_op_compare,
     traits ''fp.ord'' 2 0 1 True smt_op_compare,
     traits ''fp.true'' 2 0 1 True smt_op_compare,
     traits ''fp.ueq'' 2 0 1 True smt_op_compare,
     traits ''fp.egt'' 2 0 1 True smt_op_compare,
     traits ''fp.uge'' 2 0 1 True smt_op_compare,
     traits ''fp.ult'' 2 0 1 True smt_op_compare,
     traits ''fp.ule'' 2 0 1 True smt_op_compare,
     traits ''fp.une'' 2 0 1 True smt_op_compare,
     traits ''fp.uno'' 2 0 1 True smt_op_compare,
     traits ''extract'' 1 2 0 False smt_op_other,
     traits ''concat'' 2 0 0 False smt_op_other,
     traits ''load'' 1 1 0 False smt_op_other,
     traits ''store'' 2 1 0 False smt_op_other]"

definition smt_traits :: "smt_op \<Rightarrow> smt_trait" where
  "smt_traits v =
    (if v < length smt_table then smt_table ! v else traits ''invalid'' 0 0 0 False smt_op_other)"

definition smt_imm :: "smt_op \<Rightarrow> nat" where "smt_imm v = tr_imm_bytes (smt_traits v)"
definition smt_bw :: "smt_op \<Rightarrow> nat" where "smt_bw v = tr_bitwidth (smt_traits v)"
definition smt_arity :: "smt_op \<Rightarrow> nat" where "smt_arity v = tr_arity (smt_traits v)"
definition smt_name :: "smt_op \<Rightarrow> string" where "smt_name v = tr_name (smt_traits v)"

text \<open>
  The operator of a kind for a C type of \<open>bw\<close> bits is the first one that fits. Without one the
  template is instantiated beyond the last byte and the program does not compile.
\<close>

definition smt_match_op :: "smt_op_type \<Rightarrow> nat \<Rightarrow> bool \<Rightarrow> smt_op option" where
  "smt_match_op t bw floating =
    find (\<lambda>v. tr_type (smt_traits v) = t \<and> smt_bw v = bw \<and> tr_floating (smt_traits v) = floating) [0..<256]"

section \<open>Immediate values\<close>

text \<open>The bytes of a number in memory, the lowest first, and the number they are read as.\<close>

fun le_bytes :: "nat \<Rightarrow> int \<Rightarrow> 8 word list" where
  "le_bytes 0 v = []"
| "le_bytes (Suc n) v = word_of_int v # le_bytes n (v div 256)"

fun le_value :: "8 word list \<Rightarrow> int" where
  "le_value [] = 0"
| "le_value (b # bs) = uint b + 256 * le_value bs"

lemma length_le_bytes [simp]: "length (le_bytes n v) = n"
  by (induction n arbitrary: v) auto

lemma le_value_le_bytes [simp]: "le_value (le_bytes n v) = v mod 2 ^ (8 * n)"
proof (induction n arbitrary: v)
  case 0
  then show ?case by simp
next
  case (Suc n)
  have "(2::int) ^ (8 * Suc n) = 256 * 2 ^ (8 * n)" by (simp add: power_add)
  moreover have "v mod (256 * 2 ^ (8 * n)) = 256 * (v div 256 mod 2 ^ (8 * n)) + v mod 256"
    by (rule zmod_zmult2_eq) simp
  ultimately show ?case using Suc by (simp add: uint_word_of_int take_bit_eq_mod)
qed

lemma le_value_range: "0 \<le> le_value bs \<and> le_value bs < 2 ^ (8 * length bs)"
proof (induction bs)
  case Nil
  then show ?case by simp
next
  case (Cons b bs)
  have "(2::int) ^ (8 * length (b # bs)) = 256 * 2 ^ (8 * length bs)" by (simp add: power_add)
  moreover have "uint b < 256" using uint_lt2p [of b] by simp
  ultimately show ?case using Cons uint_ge_0 [of b] by (auto simp del: length_Cons)
qed

lemma le_bytes_le_value: "le_bytes (length bs) (le_value bs) = bs"
proof (induction bs)
  case Nil
  then show ?case by simp
next
  case (Cons b bs)
  have "uint b < 256" using uint_lt2p [of b] by simp
  then have "(uint b + 256 * le_value bs) div 256 = le_value bs" using uint_ge_0 [of b] by simp
  moreover have "uint (word_of_int (uint b + 256 * le_value bs) :: 8 word) = uint b"
    using \<open>uint b < 256\<close> unfolding uint_word_of_int by (simp add: take_bit_eq_mod)
  then have "(word_of_int (uint b + 256 * le_value bs) :: 8 word) = b"
    by (simp only: unsigned_word_eqI)
  ultimately show ?case using Cons by simp
qed

section \<open>Atoms\<close>

record smt_atom =
  at_op :: smt_op
  at_imm :: "8 word list"

text \<open>The immediate value must have the size that the traits of the operator say.\<close>

definition imm_set :: "smt_op \<Rightarrow> 8 word list \<Rightarrow> smt_atom outcome" where
  "imm_set v bs = (if length bs = smt_imm v then Ret \<lparr>at_op = v, at_imm = bs\<rparr> else Fault ''assert'')"

definition imm_get :: "nat \<Rightarrow> smt_atom \<Rightarrow> int outcome" where
  "imm_get n a = (if n \<le> length (at_imm a) then Ret (le_value (take n (at_imm a))) else Undef)"

text \<open>
  The constructor from a number: \<open>bytes\<close> bytes of its type, except that the number of a variable is
  converted to 16 bits.
\<close>

definition atom_of_number :: "smt_op \<Rightarrow> nat \<Rightarrow> int \<Rightarrow> smt_atom outcome" where
  "atom_of_number v bytes init =
    (if tr_type (smt_traits v) = smt_op_var then imm_set v (le_bytes 2 init) else imm_set v (le_bytes bytes init))"

text \<open>An array type: an identifier, a width in bits, and what its elements are (0 for bit vectors).\<close>

definition atom_of_array :: "int \<Rightarrow> int \<Rightarrow> int \<Rightarrow> smt_atom outcome" where
  "atom_of_array ident bitwidth ty = imm_set s_array (le_bytes 2 ident @ le_bytes 1 bitwidth @ le_bytes 1 ty)"

definition atom_of_op :: "smt_op \<Rightarrow> smt_atom" where
  "atom_of_op v = \<lparr>at_op = v, at_imm = []\<rparr>"

definition atom_size :: "smt_atom \<Rightarrow> nat" where
  "atom_size a = 1 + smt_imm (at_op a)"

definition is_const :: "smt_atom \<Rightarrow> bool" where
  "is_const a \<longleftrightarrow> tr_type (smt_traits (at_op a)) = smt_op_const"

definition is_resize :: "smt_atom \<Rightarrow> bool" where
  "is_resize a \<longleftrightarrow> tr_type (smt_traits (at_op a)) = smt_op_resize"

definition varid :: "smt_atom \<Rightarrow> int outcome" where
  "varid a = (if tr_type (smt_traits (at_op a)) = smt_op_var then imm_get 2 a else Ret 0)"

definition bounds :: "smt_atom \<Rightarrow> (int \<times> int) outcome" where
  "bounds a = obind (imm_get 1 a) (\<lambda>fst. omap (\<lambda>v. (fst, v div 256)) (imm_get 2 a))"

text \<open>The width of the result from the widths of the arguments, given in a list.\<close>

definition atom_bw :: "smt_atom \<Rightarrow> int list \<Rightarrow> int outcome" where
  "atom_bw a args =
    (if smt_bw (at_op a) \<noteq> 0 then Ret (int (smt_bw (at_op a)))
     else if at_op a = s_bv_concat then (if length args = 2 then Ret (sum_list args) else Fault ''assert'')
     else if at_op a = s_bv_extract then omap (\<lambda>(from, to). to - from + 1) (bounds a)
     else if is_resize a then imm_get 1 a
     else if at_op a = s_array then omap (\<lambda>v. v div 65536 mod 256) (imm_get 4 a)
     else (let val = (case args of [] \<Rightarrow> 0 | w # _ \<Rightarrow> w) in
           if list_all (\<lambda>w. w = val) args then Ret val else Fault ''assert''))"

definition atom_value :: "smt_atom \<Rightarrow> int outcome" where
  "atom_value a =
    obind (atom_bw a []) (\<lambda>bw.
      if bw \<le> 8 then imm_get 1 a else if bw \<le> 16 then imm_get 2 a
      else if bw \<le> 32 then imm_get 4 a else if bw \<le> 64 then imm_get 8 a else Undef)"

section \<open>Expressions\<close>

type_synonym smt_expr = "8 word vector"

text \<open>The bytes of an atom, copied into the last bytes of the vector.\<close>

definition copy_to_end :: "'a vector \<Rightarrow> 'a vector \<Rightarrow> 'a vector" where
  "copy_to_end bytes e =
    (let e' = vec_resize (vec_size e + vec_size bytes) e in
     take (vec_size e' - vec_size bytes) e' @ bytes)"

definition atom_bytes :: "smt_atom \<Rightarrow> 8 word list" where
  "atom_bytes a = of_nat (at_op a) # take (atom_size a - 1) (at_imm a)"

datatype rpn_arg = arg_op smt_op | arg_atom smt_atom | arg_expr smt_expr

fun rpn_apply :: "rpn_arg \<Rightarrow> smt_expr \<Rightarrow> smt_expr" where
  "rpn_apply (arg_op v) e = vec_push_back (of_nat v) e"
| "rpn_apply (arg_atom a) e = copy_to_end (vec_of (atom_bytes a)) e"
| "rpn_apply (arg_expr x) e = copy_to_end x e"

definition expr_storage :: "rpn_arg list \<Rightarrow> smt_expr" where
  "expr_storage args = fold rpn_apply args []"

text \<open>
  The iterator steps over the operator and the immediate bytes that its traits say. An iterator
  that steps beyond the end never meets it, and reading there is undefined.
\<close>

function atoms_of :: "smt_expr \<Rightarrow> smt_atom list outcome" where
  "atoms_of [] = Ret []"
| "atoms_of (b # bs) =
    (case b of None \<Rightarrow> Undef
     | Some v \<Rightarrow>
         (let n = smt_imm (unat v) in
          if length bs < n \<or> None \<in> set (take n bs) then Undef
          else omap (Cons \<lparr>at_op = unat v, at_imm = map the (take n bs)\<rparr>) (atoms_of (drop n bs))))"
  by pat_completeness auto
termination by (relation "measure length") auto

section \<open>Reading what was written\<close>

definition atom_ok :: "smt_atom \<Rightarrow> bool" where
  "atom_ok a \<longleftrightarrow> at_op a < 256 \<and> length (at_imm a) = smt_imm (at_op a)"

lemma atom_ok_bytes: "atom_ok a \<Longrightarrow> atom_bytes a = of_nat (at_op a) # at_imm a"
  by (simp add: atom_ok_def atom_bytes_def atom_size_def)

lemma copy_to_end_spec [simp]: "copy_to_end bytes e = e @ bytes"
  by (simp add: copy_to_end_def vec_resize_spec vec_size_def)

lemma rpn_apply_atom: "atom_ok a \<Longrightarrow> rpn_apply (arg_atom a) e = e @ vec_of (atom_bytes a)"
  by simp

lemma expr_storage_atoms:
  "expr_storage (map arg_atom as) = vec_of (concat (map atom_bytes as))"
proof -
  have "fold rpn_apply (map arg_atom as) e = e @ vec_of (concat (map atom_bytes as))" for e
    by (induction as arbitrary: e) auto
  then show ?thesis by (simp add: expr_storage_def)
qed

lemma unat_op: "v < 256 \<Longrightarrow> unat (of_nat v :: 8 word) = v"
  by (simp add: unat_of_nat)

lemma op_byte: "unat (v :: 8 word) < 256"
proof -
  have "unat v < 2 ^ LENGTH(8)" by (rule unsigned_less)
  then show ?thesis by simp
qed

lemma the_of_some [simp]: "map (the \<circ> Some) xs = xs"
  by (simp add: comp_def)

lemma atoms_of_atom:
  assumes "atom_ok a"
  shows "atoms_of (vec_of (atom_bytes a) @ e) = omap (Cons a) (atoms_of e)"
  using assms by (cases a) (simp add: atom_ok_bytes atom_ok_def unat_op Let_def image_iff)

lemma omap_Cons_append: "omap (Cons a) (omap ((@) as) m) = omap ((@) (a # as)) m"
  by (cases m) auto

lemma omap_append_Nil: "omap ((@) []) m = m"
  by (cases m) auto

lemma atoms_of_append:
  assumes "list_all atom_ok as"
  shows "atoms_of (vec_of (concat (map atom_bytes as)) @ e) = omap ((@) as) (atoms_of e)"
  using assms
  by (induction as) (simp_all add: omap_append_Nil atoms_of_atom omap_Cons_append)

lemma atoms_of_bytes:
  assumes "atoms_of e = Ret as"
  shows "list_all atom_ok as \<and> e = vec_of (concat (map atom_bytes as))"
  using assms
proof (induction e arbitrary: as rule: atoms_of.induct)
  case 1
  then show ?case by simp
next
  case (2 b bs)
  then obtain v where b: "b = Some v" by (cases b) auto
  let ?n = "smt_imm (unat v)"
  have ok: "\<not> (length bs < ?n \<or> None \<in> set (take ?n bs))" using 2(2) b by (auto simp: Let_def split: if_splits)
  then obtain as' where as: "atoms_of (drop ?n bs) = Ret as'"
    "as = \<lparr>at_op = unat v, at_imm = map the (take ?n bs)\<rparr> # as'"
    using 2(2) b by (auto simp: Let_def outcome_simps)
  have imm: "vec_of (map the (take ?n bs)) = take ?n bs"
    unfolding map_map by (rule map_idI) (use ok in \<open>metis comp_apply option.exhaust_sel\<close>)
  have "atom_ok \<lparr>at_op = unat v, at_imm = map the (take ?n bs)\<rparr>"
    using ok op_byte [of v] by (simp add: atom_ok_def)
  moreover have "vec_of (atom_bytes \<lparr>at_op = unat v, at_imm = map the (take ?n bs)\<rparr>) = b # take ?n bs"
    using ok imm b by (simp add: atom_bytes_def atom_size_def del: map_map)
  moreover have "list_all atom_ok as' \<and> drop ?n bs = vec_of (concat (map atom_bytes as'))"
    using 2(1) [OF b refl ok as(1)] .
  ultimately show ?case
    unfolding as(2) by (simp del: map_map) (metis append_take_drop_id append_Cons)
qed

section \<open>Properties\<close>

text \<open>
  C21: Writing atoms one after another into a vector of bytes and iterating over the bytes are
  inverse: an expression is read as a list of atoms exactly when every atom has the immediate
  bytes that its operator asks for and the expression is what appending these atoms to the empty
  one makes.
\<close>

theorem smt_expr_roundtrip:
  "(atoms_of e = Ret as) = (list_all atom_ok as \<and> e = expr_storage (map arg_atom as))"
proof
  assume "atoms_of e = Ret as"
  then show "list_all atom_ok as \<and> e = expr_storage (map arg_atom as)"
    using atoms_of_bytes by (simp add: expr_storage_atoms)
next
  assume "list_all atom_ok as \<and> e = expr_storage (map arg_atom as)"
  then show "atoms_of e = Ret as"
    using atoms_of_append [of as "[]"] by (simp add: expr_storage_atoms)
qed

end
