(* ===== verification/Expr_Domain.thy ===== *)
theory Expr_Domain
  imports Smt_Expr Constant_Domain
begin

text \<open>
  The domain of symbolic expressions, \<open>lava/include/lava/expr.hpp\<close>: a value is an expression in
  reverse Polish notation over numbered variables, and an operation appends its operator to the
  expressions of its operands. What an expression denotes follows the SMT-LIB names that the
  operators have in \<open>smt.hpp\<close>.
\<close>

section \<open>Making expressions\<close>

text \<open>
  The two static counters, of variables and of arrays. The first is an \<open>int\<close>, of which an atom
  keeps 16 bits; the second has 16 bits.
\<close>

record expr_state =
  es_vars :: int
  es_arrays :: int

definition expr_counter :: "expr_state \<Rightarrow> (int \<times> expr_state) outcome" where
  "expr_counter s =
    (if es_vars s + 1 < 2 ^ 31 then Ret (es_vars s + 1, s\<lparr>es_vars := es_vars s + 1\<rparr>) else Undef)"

definition expr_array_counter :: "expr_state \<Rightarrow> int \<times> expr_state" where
  "expr_array_counter s = (let v = (es_arrays s + 1) mod 2 ^ 16 in (v, s\<lparr>es_arrays := v\<rparr>))"

definition expr_atom :: "smt_atom outcome \<Rightarrow> smt_expr outcome" where
  "expr_atom m = omap (\<lambda>a. expr_storage [arg_atom a]) m"

text \<open>The payload of floating-point constants is not part of the model of C values.\<close>

definition expr_lift :: "c_value \<Rightarrow> smt_expr outcome" where
  "expr_lift value =
    (case value of
       c_bool b \<Rightarrow> expr_atom (atom_of_number s_const_i1 1 (of_bool b))
     | c_int sg w n \<Rightarrow>
         (case smt_match_op smt_op_const w False of
            Some v \<Rightarrow> expr_atom (atom_of_number v (w div 8) n) | None \<Rightarrow> Undef)
     | c_pointer p \<Rightarrow>
         (case smt_match_op smt_op_const 64 False of
            Some v \<Rightarrow> expr_atom (atom_of_number v 8 (int p)) | None \<Rightarrow> Undef)
     | c_array b n \<Rightarrow> Fault ''unsupported array lift''
     | c_float \<Rightarrow> Undef)"

definition expr_any :: "nat \<Rightarrow> bool \<Rightarrow> expr_state \<Rightarrow> (smt_expr \<times> expr_state) outcome" where
  "expr_any bits floating s =
    (case smt_match_op smt_op_var bits floating of
       Some v \<Rightarrow>
         obind (expr_counter s) (\<lambda>(n, s'). omap (\<lambda>e. (e, s')) (expr_atom (atom_of_number v 2 n)))
     | None \<Rightarrow> Undef)"

definition expr_any_variadic :: "int list \<Rightarrow> smt_expr outcome" where
  "expr_any_variadic args = Fault ''unsupported variadic any operation''"

definition expr_any_range :: "int \<Rightarrow> int \<Rightarrow> smt_expr outcome" where
  "expr_any_range from to = Fault ''unsupported range any operation''"

definition expr_cast_by :: "smt_op \<Rightarrow> smt_expr \<Rightarrow> nat \<Rightarrow> smt_expr outcome" where
  "expr_cast_by v arg w =
    omap (\<lambda>a. expr_storage [arg_expr arg, arg_atom a]) (atom_of_number v 1 (int w))"

definition expr_alloca :: "nat \<Rightarrow> expr_state \<Rightarrow> (smt_expr \<times> expr_state) outcome" where
  "expr_alloca w s =
    (let (n, s') = expr_array_counter s in
     omap (\<lambda>e. (e, s')) (expr_atom (atom_of_array n (int w) 0)))"

definition expr_assume :: "smt_expr \<Rightarrow> bool \<Rightarrow> smt_expr outcome" where
  "expr_assume e expected = Ret e"

definition expr_to_tristate :: "smt_expr \<Rightarrow> tristate outcome" where
  "expr_to_tristate e = Ret maybe_value"

definition expr_bin_ops :: "(op_tag \<times> smt_op) list" where
  "expr_bin_ops =
    [(tag_add, s_bv_add), (tag_sub, s_bv_sub), (tag_mul, s_bv_mul), (tag_sdiv, s_bv_sdiv),
     (tag_udiv, s_bv_udiv), (tag_srem, s_bv_srem), (tag_urem, s_bv_urem), (tag_fadd, s_fp_add),
     (tag_fsub, s_fp_sub), (tag_fmul, s_fp_mul), (tag_fdiv, s_fp_div), (tag_frem, s_fp_rem),
     (tag_shl, s_bv_shl), (tag_ashr, s_bv_ashr), (tag_lshr, s_bv_lshr), (tag_op_and, s_bv_and),
     (tag_op_or, s_bv_or), (tag_op_xor, s_bv_xor), (tag_eq, s_eq), (tag_ne, s_neq),
     (tag_ugt, s_bv_ugt), (tag_uge, s_bv_uge), (tag_ult, s_bv_ult), (tag_ule, s_bv_ule),
     (tag_sgt, s_bv_sgt), (tag_sge, s_bv_sge), (tag_slt, s_bv_slt), (tag_sle, s_bv_sle),
     (tag_foeq, s_fp_oeq), (tag_fogt, s_fp_ogt), (tag_foge, s_fp_oge), (tag_folt, s_fp_olt),
     (tag_fole, s_fp_ole), (tag_fone, s_fp_one), (tag_ford, s_fp_ord), (tag_funo, s_fp_uno),
     (tag_fueq, s_fp_ueq), (tag_fugt, s_fp_ugt), (tag_fuge, s_fp_uge), (tag_fult, s_fp_ult),
     (tag_fule, s_fp_ule), (tag_fune, s_fp_une), (tag_ffalse, s_fp_false), (tag_ftrue, s_fp_true)]"

definition expr_cast_ops :: "(op_tag \<times> smt_op) list" where
  "expr_cast_ops =
    [(tag_trunc, s_bv_trunc), (tag_fptrunc, s_fp_trunc), (tag_sitofp, s_bv_stofp),
     (tag_uitofp, s_bv_utofp), (tag_zext, s_bv_zext), (tag_zfit, s_bv_zfit), (tag_sext, s_bv_sext),
     (tag_fpext, s_fp_ext), (tag_fptosi, s_fp_tosbv), (tag_fptoui, s_fp_toubv)]"

text \<open>An operation that the domain does not have is the default one of the mixin.\<close>

definition expr_bin :: "op_tag \<Rightarrow> smt_expr \<Rightarrow> smt_expr \<Rightarrow> smt_expr outcome" where
  "expr_bin t a b =
    (case map_of expr_bin_ops t of
       Some v \<Rightarrow> Ret (expr_storage [arg_expr a, arg_expr b, arg_op v]) | None \<Rightarrow> mixin_bin t a b)"

definition expr_cast :: "op_tag \<Rightarrow> smt_expr \<Rightarrow> nat \<Rightarrow> smt_expr outcome" where
  "expr_cast t a w =
    (case map_of expr_cast_ops t of Some v \<Rightarrow> expr_cast_by v a w | None \<Rightarrow> mixin_cast t a w)"

text \<open>The operations that do not count, as a domain; \<open>any\<close> takes the state at which it is called.\<close>

definition expr_domain :: "expr_state \<Rightarrow> nat \<Rightarrow> smt_expr domain" where
  "expr_domain s bits =
    \<lparr>dom_lift = expr_lift, dom_any = omap fst (expr_any bits False s), dom_any_range = expr_any_range,
     dom_assume = expr_assume, dom_to_tristate = expr_to_tristate, dom_bin = expr_bin,
     dom_cast = expr_cast, dom_bop = mixin_bop, dom_bun = mixin_bun\<rparr>"

section \<open>What expressions denote\<close>

definition to_signed :: "nat \<Rightarrow> int \<Rightarrow> int" where
  "to_signed w x = (x + 2 ^ (w - 1)) mod 2 ^ w - 2 ^ (w - 1)"

text \<open>The binary operators of SMT-LIB on numbers below \<open>2 ^ w\<close>.\<close>

definition smt_bin :: "smt_op \<Rightarrow> nat \<Rightarrow> int \<Rightarrow> int \<Rightarrow> int option" where
  "smt_bin v w x y =
    (let sx = to_signed w x; sy = to_signed w y in
     if v = s_bv_add then Some ((x + y) mod 2 ^ w)
     else if v = s_bv_sub then Some ((x - y) mod 2 ^ w)
     else if v = s_bv_mul then Some ((x * y) mod 2 ^ w)
     else if v = s_bv_udiv then Some (if y = 0 then 2 ^ w - 1 else x div y)
     else if v = s_bv_urem then Some (if y = 0 then x else x mod y)
     else if v = s_bv_sdiv then
       Some (if sy = 0 then (if sx < 0 then 1 else 2 ^ w - 1) else (sx sdiv sy) mod 2 ^ w)
     else if v = s_bv_srem then Some (if sy = 0 then x else (sx smod sy) mod 2 ^ w)
     else if v = s_bv_shl then Some (x * 2 ^ nat y mod 2 ^ w)
     else if v = s_bv_lshr then Some (x div 2 ^ nat y)
     else if v = s_bv_ashr then Some ((sx div 2 ^ nat y) mod 2 ^ w)
     else if v = s_bv_and then Some (and x y) else if v = s_bv_or then Some (or x y)
     else if v = s_bv_xor then Some (xor x y)
     else if v = s_eq then Some (of_bool (x = y)) else if v = s_neq then Some (of_bool (x \<noteq> y))
     else if v = s_bv_ult then Some (of_bool (x < y)) else if v = s_bv_ugt then Some (of_bool (x > y))
     else if v = s_bv_ule then Some (of_bool (x \<le> y)) else if v = s_bv_uge then Some (of_bool (x \<ge> y))
     else if v = s_bv_slt then Some (of_bool (sx < sy)) else if v = s_bv_sgt then Some (of_bool (sx > sy))
     else if v = s_bv_sle then Some (of_bool (sx \<le> sy)) else if v = s_bv_sge then Some (of_bool (sx \<ge> sy))
     else None)"

text \<open>
  The value of an atom of width \<open>w\<close> on arguments (width and number) and numbers for the variables.
  Floating-point operators, arrays, loads and stores have none here.
\<close>

definition rpn_meaning :: "(int \<Rightarrow> int) \<Rightarrow> smt_atom \<Rightarrow> int \<Rightarrow> (int \<times> int) list \<Rightarrow> int option" where
  "rpn_meaning env a w args =
    (let t = smt_traits (at_op a) in
     if tr_floating t then None
     else if tr_type t = smt_op_var then
       (case varid a of Ret i \<Rightarrow> Some (env i mod 2 ^ nat w) | _ \<Rightarrow> None)
     else if tr_type t = smt_op_const then
       (case atom_value a of Ret n \<Rightarrow> Some (n mod 2 ^ nat w) | _ \<Rightarrow> None)
     else
       (case args of
          [(w1, x)] \<Rightarrow>
            if at_op a = s_bv_sext then Some (to_signed (nat w1) x mod 2 ^ nat w)
            else if at_op a \<in> {s_bv_zext, s_bv_trunc, s_bv_zfit} then Some (x mod 2 ^ nat w) else None
        | [(w1, x), (w2, y)] \<Rightarrow> if w1 = w2 then smt_bin (at_op a) (nat w1) x y else None
        | _ \<Rightarrow> None))"

definition rpn_step :: "(int \<Rightarrow> int) \<Rightarrow> smt_atom \<Rightarrow> (int \<times> int) list \<Rightarrow> (int \<times> int) list option" where
  "rpn_step env a st =
    (let n = smt_arity (at_op a); args = rev (take n st) in
     if length st < n then None
     else (case atom_bw a (map fst args) of
             Ret w \<Rightarrow> map_option (\<lambda>x. (w, x) # drop n st) (rpn_meaning env a w args) | _ \<Rightarrow> None))"

fun rpn_run :: "(int \<Rightarrow> int) \<Rightarrow> smt_atom list \<Rightarrow> (int \<times> int) list \<Rightarrow> (int \<times> int) list option" where
  "rpn_run env [] st = Some st"
| "rpn_run env (a # as) st = Option.bind (rpn_step env a st) (rpn_run env as)"

definition denote :: "(int \<Rightarrow> int) \<Rightarrow> smt_expr \<Rightarrow> (int \<times> int) option" where
  "denote env e =
    (case atoms_of e of Ret as \<Rightarrow> (case rpn_run env as [] of Some [x] \<Rightarrow> Some x | _ \<Rightarrow> None) | _ \<Rightarrow> None)"

lemma rpn_step_append:
  assumes "rpn_step env a st = Some st'"
  shows "rpn_step env a (st @ r) = Some (st' @ r)"
  using assms by (auto simp: rpn_step_def Let_def split: if_splits outcome.splits)

lemma rpn_run_append_stack:
  "rpn_run env as st = Some st' \<Longrightarrow> rpn_run env as (st @ r) = Some (st' @ r)"
  by (induction as arbitrary: st) (auto simp: rpn_step_append split: Option.bind_splits)

lemma rpn_run_append: "rpn_run env (as @ bs) st = Option.bind (rpn_run env as st) (rpn_run env bs)"
  by (induction as arbitrary: st) (auto split: Option.bind_split)

lemma denote_Some:
  "denote env e = Some x \<longleftrightarrow> (\<exists>as. atoms_of e = Ret as \<and> rpn_run env as [] = Some [x])"
  by (auto simp: denote_def split: outcome.splits option.splits list.splits)

text \<open>An operator after the expressions of its operands is applied to what they denote.\<close>

lemma denote_binary:
  assumes "denote env a = Some (w1, x)" "denote env b = Some (w2, y)"
    and "smt_imm v = 0" "smt_arity v = 2" "v < 256"
    and "atom_bw (atom_of_op v) [w1, w2] = Ret w" "rpn_meaning env (atom_of_op v) w [(w1, x), (w2, y)] = Some z"
  shows "denote env (expr_storage [arg_expr a, arg_expr b, arg_op v]) = Some (w, z)"
proof -
  obtain as bs where a: "atoms_of a = Ret as" "rpn_run env as [] = Some [(w1, x)]"
    and b: "atoms_of b = Ret bs" "rpn_run env bs [] = Some [(w2, y)]"
    using assms(1,2) by (auto simp: denote_Some)
  have ok: "atom_ok (atom_of_op v)" using assms(3,5) by (simp add: atom_ok_def atom_of_op_def)
  have "expr_storage [arg_expr a, arg_expr b, arg_op v] = a @ b @ vec_of (atom_bytes (atom_of_op v)) @ []"
    using assms(3) by (simp add: expr_storage_def atom_bytes_def atom_size_def atom_of_op_def)
  moreover have "atoms_of (a @ b @ vec_of (atom_bytes (atom_of_op v)) @ []) = Ret (as @ bs @ [atom_of_op v])"
    using atoms_of_bytes [OF a(1)] atoms_of_bytes [OF b(1)] atoms_of_atom [OF ok, of "[]"]
    by (simp add: atoms_of_append)
  moreover have "rpn_run env bs [(w1, x)] = Some [(w2, y), (w1, x)]"
    using rpn_run_append_stack [OF b(2), of "[(w1, x)]"] by simp
  then have "rpn_run env (as @ bs @ [atom_of_op v]) [] = Some [(w, z)]"
    using a(2) assms(4,6,7) by (simp add: rpn_run_append rpn_step_def atom_of_op_def)
  ultimately show ?thesis by (simp add: denote_Some)
qed

lemma denote_unary:
  assumes "denote env a = Some (w1, x)" "atom_ok u" "smt_arity (at_op u) = 1"
    and "atom_bw u [w1] = Ret w" "rpn_meaning env u w [(w1, x)] = Some z"
  shows "denote env (expr_storage [arg_expr a, arg_atom u]) = Some (w, z)"
proof -
  obtain as where a: "atoms_of a = Ret as" "rpn_run env as [] = Some [(w1, x)]"
    using assms(1) by (auto simp: denote_Some)
  have "expr_storage [arg_expr a, arg_atom u] = a @ vec_of (atom_bytes u) @ []"
    by (simp add: expr_storage_def)
  moreover have "atoms_of (a @ vec_of (atom_bytes u) @ []) = Ret (as @ [u])"
    using atoms_of_bytes [OF a(1)] atoms_of_atom [OF assms(2), of "[]"] by (simp add: atoms_of_append)
  moreover have "rpn_run env (as @ [u]) [] = Some [(w, z)]"
    using a(2) assms(3-5) by (simp add: rpn_run_append rpn_step_def)
  ultimately show ?thesis by (simp add: denote_Some)
qed

lemma denote_atom:
  assumes "atom_ok u" "smt_arity (at_op u) = 0" "atom_bw u [] = Ret w" "rpn_meaning env u w [] = Some z"
  shows "denote env (expr_storage [arg_atom u]) = Some (w, z)"
  using atoms_of_atom [OF assms(1), of "[]"] assms(2-4)
  by (simp add: denote_Some expr_storage_def rpn_step_def)

section \<open>Operations denote operations\<close>

definition expr_num_ops :: "op_tag list" where
  "expr_num_ops =
    [tag_add, tag_sub, tag_mul, tag_sdiv, tag_udiv, tag_srem, tag_urem, tag_shl, tag_ashr, tag_lshr,
     tag_op_and, tag_op_or, tag_op_xor]"

definition expr_cmp_ops :: "op_tag list" where
  "expr_cmp_ops =
    [tag_eq, tag_ne, tag_ugt, tag_uge, tag_ult, tag_ule, tag_sgt, tag_sge, tag_slt, tag_sle]"

lemma sint_to_signed: "sint (x :: 'w::len word) = to_signed LENGTH('w) (uint x)"
  unfolding to_signed_def sint_uint signed_take_bit_eq_take_bit_shift
  by (simp add: take_bit_eq_mod)

lemma uint_of_bool: "uint (of_bool b :: 'w::len word) = of_bool b"
  by (cases b) simp_all

lemma smt_bin_word_arith:
  fixes x y :: "'w::len word"
  shows "smt_bin s_bv_add LENGTH('w) (uint x) (uint y) = Some (uint (x + y))"
    and "smt_bin s_bv_sub LENGTH('w) (uint x) (uint y) = Some (uint (x - y))"
    and "smt_bin s_bv_mul LENGTH('w) (uint x) (uint y) = Some (uint (x * y))"
    and "smt_bin s_bv_and LENGTH('w) (uint x) (uint y) = Some (uint (and x y))"
    and "smt_bin s_bv_or LENGTH('w) (uint x) (uint y) = Some (uint (or x y))"
    and "smt_bin s_bv_xor LENGTH('w) (uint x) (uint y) = Some (uint (xor x y))"
  by (simp_all add: smt_bin_def Let_def uint_word_ariths unsigned_and_eq unsigned_or_eq unsigned_xor_eq)

lemma smt_bin_word_div:
  fixes x y :: "'w::len word"
  assumes "y \<noteq> 0"
  shows "smt_bin s_bv_udiv LENGTH('w) (uint x) (uint y) = Some (uint (x div y))"
    and "smt_bin s_bv_urem LENGTH('w) (uint x) (uint y) = Some (uint (x mod y))"
    and "smt_bin s_bv_sdiv LENGTH('w) (uint x) (uint y) = Some (uint (word_of_int (sint x sdiv sint y) :: 'w word))"
    and "smt_bin s_bv_srem LENGTH('w) (uint x) (uint y) = Some (uint (word_of_int (sint x smod sint y) :: 'w word))"
proof -
  have y: "uint y \<noteq> 0" "sint y \<noteq> 0"
    using assms by (simp_all only: unsigned_eq_0_iff signed_eq_0_iff not_False_eq_True)
  show "smt_bin s_bv_udiv LENGTH('w) (uint x) (uint y) = Some (uint (x div y))"
    "smt_bin s_bv_urem LENGTH('w) (uint x) (uint y) = Some (uint (x mod y))"
    using y(1) by (simp_all add: smt_bin_def Let_def uint_div uint_mod)
  show "smt_bin s_bv_sdiv LENGTH('w) (uint x) (uint y) = Some (uint (word_of_int (sint x sdiv sint y) :: 'w word))"
    "smt_bin s_bv_srem LENGTH('w) (uint x) (uint y) = Some (uint (word_of_int (sint x smod sint y) :: 'w word))"
    using y(2) unfolding smt_bin_def Let_def sint_to_signed [symmetric] uint_word_of_int by simp_all
qed

lemma smt_bin_word_shift:
  fixes x y :: "'w::len word"
  shows "smt_bin s_bv_shl LENGTH('w) (uint x) (uint y) = Some (uint (push_bit (unat y) x))"
    and "smt_bin s_bv_lshr LENGTH('w) (uint x) (uint y) = Some (uint (drop_bit (unat y) x))"
    and "smt_bin s_bv_ashr LENGTH('w) (uint x) (uint y) = Some (uint (signed_drop_bit (unat y) x))"
proof -
  have n: "nat (uint y) = unat y" by simp
  show "smt_bin s_bv_shl LENGTH('w) (uint x) (uint y) = Some (uint (push_bit (unat y) x))"
    unfolding unsigned_push_bit_eq by (simp add: smt_bin_def Let_def n take_bit_eq_mod push_bit_eq_mult)
  show "smt_bin s_bv_lshr LENGTH('w) (uint x) (uint y) = Some (uint (drop_bit (unat y) x))"
    unfolding unsigned_drop_bit_eq
    by (simp add: smt_bin_def Let_def n drop_bit_eq_div take_bit_eq_mod uint_bounds)
  show "smt_bin s_bv_ashr LENGTH('w) (uint x) (uint y) = Some (uint (signed_drop_bit (unat y) x))"
    unfolding uint_sint [of "signed_drop_bit (unat y) x"] sint_signed_drop_bit_eq
    by (simp add: smt_bin_def Let_def n sint_to_signed [symmetric] take_bit_eq_mod drop_bit_eq_div)
qed

lemma smt_bin_word_cmp:
  fixes x y :: "'w::len word"
  shows "smt_bin s_eq LENGTH('w) (uint x) (uint y) = Some (of_bool (x = y))"
    and "smt_bin s_neq LENGTH('w) (uint x) (uint y) = Some (of_bool (x \<noteq> y))"
    and "smt_bin s_bv_ult LENGTH('w) (uint x) (uint y) = Some (of_bool (x < y))"
    and "smt_bin s_bv_ugt LENGTH('w) (uint x) (uint y) = Some (of_bool (y < x))"
    and "smt_bin s_bv_ule LENGTH('w) (uint x) (uint y) = Some (of_bool (x \<le> y))"
    and "smt_bin s_bv_uge LENGTH('w) (uint x) (uint y) = Some (of_bool (y \<le> x))"
    and "smt_bin s_bv_slt LENGTH('w) (uint x) (uint y) = Some (of_bool (x <s y))"
    and "smt_bin s_bv_sgt LENGTH('w) (uint x) (uint y) = Some (of_bool (y <s x))"
    and "smt_bin s_bv_sle LENGTH('w) (uint x) (uint y) = Some (of_bool (x \<le>s y))"
    and "smt_bin s_bv_sge LENGTH('w) (uint x) (uint y) = Some (of_bool (y \<le>s x))"
  by (simp_all add: smt_bin_def Let_def sint_to_signed [symmetric] word_sless_alt word_sle_eq
    word_uint_eq_iff word_less_def word_le_def)

lemmas smt_bin_word = smt_bin_word_arith smt_bin_word_div smt_bin_word_shift smt_bin_word_cmp

lemma expr_num_meaning:
  fixes x y :: "'w::len word"
  assumes "t \<in> set expr_num_ops" "con_word t x y = Some z" "map_of expr_bin_ops t = Some v"
  shows "smt_bin v LENGTH('w) (uint x) (uint y) = Some (uint z)"
  using assms unfolding expr_num_ops_def
  by (auto simp: con_word_def conc_word_def expr_bin_ops_def smt_bin_word simp del: One_nat_def split: if_splits)

lemma expr_cmp_meaning:
  fixes x y :: "'w::len word"
  assumes "t \<in> set expr_cmp_ops" "con_word t x y = Some z" "map_of expr_bin_ops t = Some v"
  shows "smt_bin v LENGTH('w) (uint x) (uint y) = Some (uint z)"
  using assms unfolding expr_cmp_ops_def
  by (auto simp: con_word_def conc_word_def expr_bin_ops_def smt_bin_word uint_of_bool simp del: One_nat_def split: if_splits)

text \<open>The traits of an operator that are needed to evaluate it; \<open>bw\<close> is its fixed width or 0.\<close>

definition plain_op :: "nat \<Rightarrow> smt_op \<Rightarrow> bool" where
  "plain_op bw v \<longleftrightarrow> smt_imm v = 0 \<and> smt_arity v = 2 \<and> v < 256 \<and> smt_bw v = bw \<and>
    v \<noteq> s_bv_concat \<and> v \<noteq> s_bv_extract \<and> v \<noteq> s_array \<and>
    tr_type (smt_traits v) \<noteq> smt_op_var \<and> tr_type (smt_traits v) \<noteq> smt_op_const \<and>
    tr_type (smt_traits v) \<noteq> smt_op_resize \<and> \<not> tr_floating (smt_traits v)"

lemma expr_op_traits:
  "list_all (\<lambda>t. case map_of expr_bin_ops t of None \<Rightarrow> False | Some v \<Rightarrow> plain_op 0 v) expr_num_ops"
  "list_all (\<lambda>t. case map_of expr_bin_ops t of None \<Rightarrow> False | Some v \<Rightarrow> plain_op 1 v) expr_cmp_ops"
  by code_simp+

lemma expr_op_found:
  "t \<in> set expr_num_ops \<Longrightarrow> \<exists>v. map_of expr_bin_ops t = Some v \<and> plain_op 0 v"
  "t \<in> set expr_cmp_ops \<Longrightarrow> \<exists>v. map_of expr_bin_ops t = Some v \<and> plain_op 1 v"
  using expr_op_traits by (fastforce simp: list_all_iff split: option.splits)+

lemma denote_plain:
  assumes "denote env a = Some (w, x)" "denote env b = Some (w, y)"
    and "plain_op bw v" "smt_bin v (nat w) x y = Some z"
  shows "denote env (expr_storage [arg_expr a, arg_expr b, arg_op v]) = Some (if bw = 0 then w else int bw, z)"
  using assms(3,4)
  by (intro denote_binary [OF assms(1,2)])
    (simp_all add: plain_op_def atom_bw_def atom_of_op_def is_resize_def rpn_meaning_def Let_def)

lemma denote_expr_bin:
  fixes x y :: "'w::len word"
  assumes "denote env a = Some (int LENGTH('w), uint x)" "denote env b = Some (int LENGTH('w), uint y)"
    and "con_word t x y = Some z"
  shows "t \<in> set expr_num_ops \<Longrightarrow> \<exists>e. expr_bin t a b = Ret e \<and> denote env e = Some (int LENGTH('w), uint z)"
    and "t \<in> set expr_cmp_ops \<Longrightarrow> \<exists>e. expr_bin t a b = Ret e \<and> denote env e = Some (1, uint z)"
proof -
  assume t: "t \<in> set expr_num_ops"
  from expr_op_found(1) [OF t] obtain v where v: "map_of expr_bin_ops t = Some v" "plain_op 0 v" by blast
  from denote_plain [OF assms(1,2) v(2), of "uint z"] expr_num_meaning [OF t assms(3) v(1)] v(1)
  show "\<exists>e. expr_bin t a b = Ret e \<and> denote env e = Some (int LENGTH('w), uint z)"
    by (simp add: expr_bin_def)
next
  assume t: "t \<in> set expr_cmp_ops"
  from expr_op_found(2) [OF t] obtain v where v: "map_of expr_bin_ops t = Some v" "plain_op 1 v" by blast
  from denote_plain [OF assms(1,2) v(2), of "uint z"] expr_cmp_meaning [OF t assms(3) v(1)] v(1)
  show "\<exists>e. expr_bin t a b = Ret e \<and> denote env e = Some (1, uint z)"
    by (simp add: expr_bin_def)
qed

text \<open>The casts between widths; the width is a byte.\<close>

definition expr_resize_ops :: "op_tag list" where
  "expr_resize_ops = [tag_trunc, tag_zext, tag_zfit, tag_sext]"

lemma resize_op_traits:
  "list_all (\<lambda>t. case map_of expr_cast_ops t of None \<Rightarrow> False | Some v \<Rightarrow>
      smt_imm v = 1 \<and> smt_arity v = 1 \<and> v < 256 \<and> smt_bw v = 0 \<and> v \<noteq> s_bv_concat \<and> v \<noteq> s_bv_extract \<and>
      tr_type (smt_traits v) = smt_op_resize \<and> \<not> tr_floating (smt_traits v) \<and>
      (if t = tag_sext then v = s_bv_sext else v \<noteq> s_bv_sext \<and> v \<in> set [s_bv_zext, s_bv_trunc, s_bv_zfit]))
    expr_resize_ops"
  by code_simp

lemma denote_expr_cast:
  assumes "t \<in> set expr_resize_ops" "w < 256" "denote env a = Some (w1, x)"
  shows "\<exists>e. expr_cast t a w = Ret e \<and>
    denote env e = Some (int w, (if t = tag_sext then to_signed (nat w1) x else x) mod 2 ^ w)"
proof -
  from resize_op_traits assms(1) obtain v where v: "map_of expr_cast_ops t = Some v"
    "smt_imm v = 1" "smt_arity v = 1" "v < 256" "smt_bw v = 0" "v \<noteq> s_bv_concat" "v \<noteq> s_bv_extract"
    "tr_type (smt_traits v) = smt_op_resize" "\<not> tr_floating (smt_traits v)"
    "if t = tag_sext then v = s_bv_sext else v \<noteq> s_bv_sext \<and> v \<in> set [s_bv_zext, s_bv_trunc, s_bv_zfit]"
    by (fastforce simp: list_all_iff split: option.splits)
  let ?a = "\<lparr>at_op = v, at_imm = le_bytes 1 (int w)\<rparr>"
  have imm: "le_value (take 1 (le_bytes 1 (int w))) = int w"
    using assms(2) by (simp del: One_nat_def le_bytes.simps)
  have "atom_of_number v 1 (int w) = Ret ?a"
    using v(2,8) by (simp add: atom_of_number_def imm_set_def)
  moreover have "denote env (expr_storage [arg_expr a, arg_atom ?a]) =
      Some (int w, (if t = tag_sext then to_signed (nat w1) x else x) mod 2 ^ w)"
  proof (rule denote_unary [OF assms(3)])
    show "atom_ok ?a" using v(2,4) by (simp add: atom_ok_def)
    show "smt_arity (at_op ?a) = 1" using v(3) by simp
    show "atom_bw ?a [w1] = Ret (int w)"
      using v(5-8) imm by (simp add: atom_bw_def is_resize_def imm_get_def del: One_nat_def le_bytes.simps)
    show "rpn_meaning env ?a (int w) [(w1, x)] =
        Some ((if t = tag_sext then to_signed (nat w1) x else x) mod 2 ^ w)"
      using v(8-10) by (auto simp: rpn_meaning_def Let_def split: if_splits)
  qed
  ultimately show ?thesis using v(1) by (simp add: expr_cast_def expr_cast_by_def)
qed

text \<open>The leaves: constants and variables.\<close>

lemma match_ops:
  "map (\<lambda>w. smt_match_op smt_op_const w False) [1, 8, 16, 32, 64] =
    map Some [s_const_i1, s_const_i8, s_const_i16, s_const_i32, s_const_i64]"
  "map (\<lambda>w. smt_match_op smt_op_var w False) [1, 8, 16, 32, 64] =
    map Some [s_var_i1, s_var_i8, s_var_i16, s_var_i32, s_var_i64]"
  "map (\<lambda>w. (smt_match_op smt_op_const w True, smt_match_op smt_op_var w True)) [32, 64] =
    [(Some s_const_f32, Some s_var_f32), (Some s_const_f64, Some s_var_f64)]"
  by code_simp+

lemma denote_number_atom:
  assumes "smt_traits v = traits name 0 k b False ty" "ty = smt_op_const \<or> ty = smt_op_var \<and> k = 2"
    and "v < 256" "0 < b" "b \<le> 64" "length bs = k"
    and "ty = smt_op_const \<Longrightarrow> k = (if b \<le> 8 then 1 else if b \<le> 16 then 2 else if b \<le> 32 then 4 else 8)"
  shows "denote env (expr_storage [arg_atom \<lparr>at_op = v, at_imm = bs\<rparr>]) =
    Some (int b, (if ty = smt_op_var then env (le_value bs) else le_value bs) mod 2 ^ b)"
proof (rule denote_atom)
  show "atom_ok \<lparr>at_op = v, at_imm = bs\<rparr>" using assms by (simp add: atom_ok_def smt_imm_def traits_def)
  show "smt_arity (at_op \<lparr>at_op = v, at_imm = bs\<rparr>) = 0" using assms by (simp add: smt_arity_def traits_def)
  show bw: "atom_bw \<lparr>at_op = v, at_imm = bs\<rparr> [] = Ret (int b)"
    using assms by (simp add: atom_bw_def smt_bw_def traits_def)
  show "rpn_meaning env \<lparr>at_op = v, at_imm = bs\<rparr> (int b) [] =
      Some ((if ty = smt_op_var then env (le_value bs) else le_value bs) mod 2 ^ b)"
    using assms bw by (auto simp: rpn_meaning_def traits_def varid_def imm_get_def atom_value_def)
qed

text \<open>
  Every operator that is not a cast to or from floating-point numbers takes from the stack what
  it needs; those four have no operands according to their traits.
\<close>

fun rpn_depth :: "smt_atom list \<Rightarrow> nat \<Rightarrow> nat option" where
  "rpn_depth [] d = Some d"
| "rpn_depth (a # as) d =
    (if d < smt_arity (at_op a) then None else rpn_depth as (d - smt_arity (at_op a) + 1))"

definition expr_depth :: "smt_expr \<Rightarrow> nat option" where
  "expr_depth e = (case atoms_of e of Ret as \<Rightarrow> rpn_depth as 0 | _ \<Rightarrow> None)"

lemma rpn_depth_append: "rpn_depth (as @ bs) d = Option.bind (rpn_depth as d) (rpn_depth bs)"
  by (induction as arbitrary: d) auto

lemma rpn_depth_more: "rpn_depth as d = Some n \<Longrightarrow> rpn_depth as (d + k) = Some (n + k)"
proof (induction as arbitrary: d)
  case (Cons a as)
  let ?n = "smt_arity (at_op a)"
  from Cons.prems have d: "\<not> d < ?n" and r: "rpn_depth as (d - ?n + 1) = Some n" by (simp_all split: if_splits)
  have "d + k - ?n + 1 = d - ?n + 1 + k" using d by simp
  then have "rpn_depth as (d + k - ?n + 1) = Some (n + k)" using Cons.IH [OF r] by simp
  then show ?case using d by simp
qed simp

lemma expr_depth_Some: "expr_depth e = Some n \<longleftrightarrow> (\<exists>as. atoms_of e = Ret as \<and> rpn_depth as 0 = Some n)"
  by (auto simp: expr_depth_def split: outcome.splits)

lemma expr_depth_storage:
  assumes "expr_depth a = Some 1" "atom_ok u" "atoms_of e = Ret bs" "rpn_depth bs 0 = Some k"
    and "smt_arity (at_op u) \<le> 1 + k"
  shows "expr_depth (a @ e @ vec_of (atom_bytes u) @ []) = Some (2 + k - smt_arity (at_op u))"
proof -
  obtain as where a: "atoms_of a = Ret as" "rpn_depth as 0 = Some 1"
    using assms(1) by (auto simp: expr_depth_Some)
  have "atoms_of (a @ e @ vec_of (atom_bytes u) @ []) = Ret (as @ bs @ [u])"
    using atoms_of_bytes [OF a(1)] atoms_of_bytes [OF assms(3)] atoms_of_atom [OF assms(2), of "[]"]
    by (simp add: atoms_of_append)
  moreover have "rpn_depth (as @ bs @ [u]) 0 = Some (2 + k - smt_arity (at_op u))"
    using a(2) rpn_depth_more [OF assms(4), of 1] assms(5) by (simp add: rpn_depth_append)
  ultimately show ?thesis by (simp add: expr_depth_Some)
qed

lemma cast_op_traits:
  "list_all (\<lambda>(t, v). smt_imm v = 1 \<and> v < 256 \<and>
      smt_arity v = (if t \<in> set [tag_sitofp, tag_uitofp, tag_fptosi, tag_fptoui] then 0 else 1) \<and>
      tr_type (smt_traits v) \<noteq> smt_op_var) expr_cast_ops"
  by code_simp

lemma expr_depth_cast:
  assumes "t \<in> fst ` set expr_cast_ops" "expr_depth a = Some 1" "expr_cast t a w = Ret e"
  shows "expr_depth e = Some (if t \<in> {tag_sitofp, tag_uitofp, tag_fptosi, tag_fptoui} then 2 else 1)"
proof -
  obtain v where v: "map_of expr_cast_ops t = Some v"
    using assms(1) by (metis map_of_eq_None_iff not_None_eq)
  note tr = cast_op_traits [unfolded list_all_iff, rule_format, OF map_of_SomeD [OF v], simplified prod.case]
  let ?a = "\<lparr>at_op = v, at_imm = le_bytes 1 (int w)\<rparr>"
  have ok: "atom_ok ?a" using tr by (simp add: atom_ok_def)
  have "e = a @ vec_of (atom_bytes ?a)"
    using assms(3) v tr
    by (simp add: expr_cast_def expr_cast_by_def atom_of_number_def imm_set_def expr_storage_def)
  then show ?thesis
    using expr_depth_storage [OF assms(2) ok, of "[]" "[]" 0] tr by auto
qed

lemma expr_depth_bin:
  assumes "t \<in> fst ` set expr_bin_ops" "expr_depth a = Some 1" "expr_depth b = Some 1" "expr_bin t a b = Ret e"
  shows "expr_depth e = Some 1"
proof -
  have traits: "list_all (\<lambda>(t, v). smt_imm v = 0 \<and> smt_arity v = 2 \<and> v < 256) expr_bin_ops" by code_simp
  obtain v where v: "map_of expr_bin_ops t = Some v"
    using assms(1) by (metis map_of_eq_None_iff not_None_eq)
  note tr = traits [unfolded list_all_iff, rule_format, OF map_of_SomeD [OF v], simplified prod.case]
  have ok: "atom_ok (atom_of_op v)" using tr by (simp add: atom_ok_def atom_of_op_def)
  have "e = a @ b @ vec_of (atom_bytes (atom_of_op v)) @ []"
    using assms(4) v tr
    by (simp add: expr_bin_def expr_storage_def atom_bytes_def atom_size_def atom_of_op_def)
  moreover obtain bs where "atoms_of b = Ret bs" "rpn_depth bs 0 = Some 1"
    using assms(3) by (auto simp: expr_depth_Some)
  ultimately show ?thesis
    using expr_depth_storage [OF assms(2) ok] tr by (simp add: atom_of_op_def)
qed

section \<open>Widths of expressions\<close>

text \<open>What a program computes from constants and inputs, and its width.\<close>

datatype sym = sy_const nat int | sy_any nat | sy_bin op_tag sym sym | sy_cast op_tag sym nat

inductive sym_width :: "sym \<Rightarrow> nat \<Rightarrow> bool" where
  const: "w \<in> {8, 16, 32, 64} \<Longrightarrow> sym_width (sy_const w n) w"
| any: "w \<in> {1, 8, 16, 32, 64} \<Longrightarrow> sym_width (sy_any w) w"
| num: "\<lbrakk>t \<in> set expr_num_ops; sym_width a w; sym_width b w\<rbrakk> \<Longrightarrow> sym_width (sy_bin t a b) w"
| cmp: "\<lbrakk>t \<in> set expr_cmp_ops; sym_width a w; sym_width b w\<rbrakk> \<Longrightarrow> sym_width (sy_bin t a b) 1"
| resize: "\<lbrakk>t \<in> set expr_resize_ops; sym_width a w'; 0 < w; w < 256\<rbrakk> \<Longrightarrow> sym_width (sy_cast t a w) w"

inductive_cases sym_width_binE: "sym_width (sy_bin t a b) w"
inductive_cases sym_width_castE: "sym_width (sy_cast t a w') w"

fun sym_expr :: "sym \<Rightarrow> expr_state \<Rightarrow> (smt_expr \<times> expr_state) outcome" where
  "sym_expr (sy_const w n) s = omap (\<lambda>e. (e, s)) (expr_lift (c_int False w n))"
| "sym_expr (sy_any w) s = expr_any w False s"
| "sym_expr (sy_bin t a b) s =
    obind (sym_expr a s) (\<lambda>(x, s1). obind (sym_expr b s1) (\<lambda>(y, s2). omap (\<lambda>e. (e, s2)) (expr_bin t x y)))"
| "sym_expr (sy_cast t a w) s = obind (sym_expr a s) (\<lambda>(x, s1). omap (\<lambda>e. (e, s1)) (expr_cast t x w))"

fun sym_inputs :: "sym \<Rightarrow> nat" where
  "sym_inputs (sy_const w n) = 0"
| "sym_inputs (sy_any w) = 1"
| "sym_inputs (sy_bin t a b) = sym_inputs a + sym_inputs b"
| "sym_inputs (sy_cast t a w) = sym_inputs a"

lemma sym_width_pos: "sym_width a w \<Longrightarrow> 0 < w"
  by (induction rule: sym_width.induct) auto

lemma bits_in_range:
  assumes "0 \<le> (x :: int)" "x < 2 ^ w" "0 \<le> y" "y < 2 ^ w"
  shows "and x y < 2 ^ w" "or x y < 2 ^ w" "xor x y < 2 ^ w" "0 \<le> and x y" "0 \<le> or x y" "0 \<le> xor x y"
proof -
  have x: "x = take_bit w x" and y: "y = take_bit w y" using assms by (simp_all add: take_bit_int_eq_self)
  show "and x y < 2 ^ w" "or x y < 2 ^ w" "xor x y < 2 ^ w"
    by (subst x, subst y, simp flip: take_bit_and take_bit_or take_bit_xor)+
  show "0 \<le> and x y" "0 \<le> or x y" "0 \<le> xor x y" using assms by simp_all
qed

lemma div_in_range: "0 \<le> (x :: int) \<Longrightarrow> x < m \<Longrightarrow> 0 < y \<Longrightarrow> 0 \<le> x div y \<and> x div y < m"
  using zdiv_mono2 [of x 1 y] by (simp add: pos_imp_zdiv_nonneg_iff)

lemma expr_num_codes:
  assumes "t \<in> set expr_num_ops" "map_of expr_bin_ops t = Some v"
  shows "v \<in> set [s_bv_add, s_bv_sub, s_bv_mul, s_bv_sdiv, s_bv_udiv, s_bv_srem, s_bv_urem, s_bv_shl, s_bv_ashr,
    s_bv_lshr, s_bv_and, s_bv_or, s_bv_xor]"
proof -
  have "list_all (\<lambda>t. case map_of expr_bin_ops t of None \<Rightarrow> False | Some v \<Rightarrow>
      List.member [s_bv_add, s_bv_sub, s_bv_mul, s_bv_sdiv, s_bv_udiv, s_bv_srem, s_bv_urem, s_bv_shl,
        s_bv_ashr, s_bv_lshr, s_bv_and, s_bv_or, s_bv_xor] v) expr_num_ops" by code_simp
  then show ?thesis using assms by (fastforce simp: list_all_iff)
qed

lemma expr_cmp_codes:
  assumes "t \<in> set expr_cmp_ops" "map_of expr_bin_ops t = Some v"
  shows "v \<in> set [s_eq, s_neq, s_bv_ugt, s_bv_uge, s_bv_ult, s_bv_ule, s_bv_sgt, s_bv_sge, s_bv_slt, s_bv_sle]"
proof -
  have "list_all (\<lambda>t. case map_of expr_bin_ops t of None \<Rightarrow> False | Some v \<Rightarrow>
      List.member [s_eq, s_neq, s_bv_ugt, s_bv_uge, s_bv_ult, s_bv_ule, s_bv_sgt, s_bv_sge, s_bv_slt, s_bv_sle] v)
      expr_cmp_ops" by code_simp
  then show ?thesis using assms by (fastforce simp: list_all_iff)
qed

lemma smt_bin_num:
  assumes xy: "0 \<le> x" "x < 2 ^ w" "0 \<le> y" "y < 2 ^ w" and w: "0 < w"
    and v: "v \<in> set [s_bv_add, s_bv_sub, s_bv_mul, s_bv_sdiv, s_bv_udiv, s_bv_srem, s_bv_urem, s_bv_shl, s_bv_ashr,
      s_bv_lshr, s_bv_and, s_bv_or, s_bv_xor]"
  shows "\<exists>z. smt_bin v w x y = Some z \<and> 0 \<le> z \<and> z < 2 ^ w"
proof -
  have "(2 :: int) ^ 1 \<le> 2 ^ w" using w by (intro power_increasing) auto
  then have one: "(1 :: int) < 2 ^ w" by simp
  consider (arith) "v \<in> {s_bv_add, s_bv_sub, s_bv_mul, s_bv_shl, s_bv_ashr}"
    | (div) "v \<in> {s_bv_udiv, s_bv_urem}" | (sdiv) "v \<in> {s_bv_sdiv, s_bv_srem}" | (shift) "v = s_bv_lshr"
    | (bits) "v \<in> {s_bv_and, s_bv_or, s_bv_xor}"
    using v by auto
  then show ?thesis
  proof cases
    case arith
    then show ?thesis by (elim insertE emptyE) (simp_all add: smt_bin_def Let_def)
  next
    case div
    have "x mod y < 2 ^ w" if "y \<noteq> 0" using xy that pos_mod_bound [of y x] by linarith
    moreover have "0 \<le> x mod y" if "y \<noteq> 0" using xy(3) that by simp
    ultimately show ?thesis
      using div div_in_range [OF xy(1,2), of y] xy one by (elim insertE emptyE) (simp_all add: smt_bin_def Let_def)
  next
    case sdiv
    then show ?thesis using one xy by (elim insertE emptyE) (simp_all add: smt_bin_def Let_def)
  next
    case shift
    then show ?thesis using div_in_range [OF xy(1,2), of "2 ^ nat y"] by (simp add: smt_bin_def Let_def)
  next
    case bits
    then show ?thesis
      using bits_in_range [OF xy] by (elim insertE emptyE) (simp_all add: smt_bin_def Let_def)
  qed
qed

lemma smt_bin_cmp:
  assumes "v \<in> set [s_eq, s_neq, s_bv_ugt, s_bv_uge, s_bv_ult, s_bv_ule, s_bv_sgt, s_bv_sge, s_bv_slt, s_bv_sle]"
  shows "\<exists>b. smt_bin v w x y = Some (of_bool b)"
  using assms unfolding list.set by (elim insertE emptyE) (simp_all add: smt_bin_def Let_def, blast+)

text \<open>Leaves.\<close>

lemma leaf_traits:
  "list_all (\<lambda>(w, v, k). smt_match_op smt_op_const w False = Some v \<and> v < 256 \<and>
      (\<exists>name \<in> set [tr_name (smt_traits v)]. smt_traits v = traits name 0 k w False smt_op_const))
    [(8, s_const_i8, 1), (16, s_const_i16, 2), (32, s_const_i32, 4), (64, s_const_i64, 8)]"
  "list_all (\<lambda>(w, v). smt_match_op smt_op_var w False = Some v \<and> v < 256 \<and>
      (\<exists>name \<in> set [tr_name (smt_traits v)]. smt_traits v = traits name 0 2 w False smt_op_var))
    [(1, s_var_i1), (8, s_var_i8), (16, s_var_i16), (32, s_var_i32), (64, s_var_i64)]"
  by code_simp+

lemma denote_lift:
  assumes "w \<in> {8, 16, 32, 64}"
  shows "\<exists>e. expr_lift (c_int False w n) = Ret e \<and> (\<forall>env. denote env e = Some (int w, n mod 2 ^ w))"
proof -
  obtain v name where v: "smt_match_op smt_op_const w False = Some v" "v < 256"
    "smt_traits v = traits name 0 (w div 8) w False smt_op_const"
    using leaf_traits(1) assms by auto
  let ?bs = "le_bytes (w div 8) n"
  have w: "0 < w" "w \<le> 64" "8 * (w div 8) = w"
    "w div 8 = (if w \<le> 8 then 1 else if w \<le> 16 then 2 else if w \<le> 32 then 4 else 8)"
    using assms by auto
  have "expr_lift (c_int False w n) = Ret (expr_storage [arg_atom \<lparr>at_op = v, at_imm = ?bs\<rparr>])"
    using v by (simp add: expr_lift_def expr_atom_def atom_of_number_def imm_set_def smt_imm_def traits_def)
  moreover have "denote env (expr_storage [arg_atom \<lparr>at_op = v, at_imm = ?bs\<rparr>]) = Some (int w, n mod 2 ^ w)" for env
    using denote_number_atom [OF v(3) _ v(2) w(1,2), of ?bs env] w(3,4) by simp
  ultimately show ?thesis by simp
qed

lemma denote_any:
  assumes "w \<in> {1, 8, 16, 32, 64}" "es_vars s + 1 < 2 ^ 31"
  shows "\<exists>e. expr_any w False s = Ret (e, s\<lparr>es_vars := es_vars s + 1\<rparr>) \<and>
    (\<forall>env. denote env e = Some (int w, env ((es_vars s + 1) mod 2 ^ 16) mod 2 ^ w))"
proof -
  obtain v name where v: "smt_match_op smt_op_var w False = Some v" "v < 256"
    "smt_traits v = traits name 0 2 w False smt_op_var"
    using leaf_traits(2) assms(1) by auto
  let ?bs = "le_bytes 2 (es_vars s + 1)"
  have w: "0 < w" "w \<le> 64" using assms(1) by auto
  have "expr_any w False s =
      Ret (expr_storage [arg_atom \<lparr>at_op = v, at_imm = ?bs\<rparr>], s\<lparr>es_vars := es_vars s + 1\<rparr>)"
    using v assms(2)
    by (simp add: expr_any_def expr_counter_def expr_atom_def atom_of_number_def imm_set_def smt_imm_def traits_def)
  moreover have "denote env (expr_storage [arg_atom \<lparr>at_op = v, at_imm = ?bs\<rparr>]) =
      Some (int w, env ((es_vars s + 1) mod 2 ^ 16) mod 2 ^ w)" for env
    using denote_number_atom [OF v(3) _ v(2) w, of ?bs env] by (simp del: le_bytes.simps)
  ultimately show ?thesis by blast
qed

text \<open>A tree of operations that has a width makes an expression of that width.\<close>

definition of_width :: "nat \<Rightarrow> smt_expr \<Rightarrow> bool" where
  "of_width w e \<longleftrightarrow> (\<forall>env. \<exists>x. denote env e = Some (int w, x) \<and> 0 \<le> x \<and> x < 2 ^ w)"

lemma of_width_bin:
  assumes "of_width w a" "of_width w b" "0 < w"
  shows "t \<in> set expr_num_ops \<Longrightarrow> \<exists>e. expr_bin t a b = Ret e \<and> of_width w e"
    and "t \<in> set expr_cmp_ops \<Longrightarrow> \<exists>e. expr_bin t a b = Ret e \<and> of_width 1 e"
proof -
  assume t: "t \<in> set expr_num_ops"
  from expr_op_found(1) [OF t] obtain v where v: "map_of expr_bin_ops t = Some v" "plain_op 0 v" by blast
  have "of_width w (expr_storage [arg_expr a, arg_expr b, arg_op v])"
    unfolding of_width_def
  proof
    fix env
    obtain x y where x: "denote env a = Some (int w, x)" "0 \<le> x" "x < 2 ^ w"
      and y: "denote env b = Some (int w, y)" "0 \<le> y" "y < 2 ^ w"
      using assms(1,2) unfolding of_width_def by blast
    from smt_bin_num [OF x(2,3) y(2,3) assms(3) expr_num_codes [OF t v(1)]]
    show "\<exists>z. denote env (expr_storage [arg_expr a, arg_expr b, arg_op v]) = Some (int w, z) \<and> 0 \<le> z \<and> z < 2 ^ w"
      using denote_plain [OF x(1) y(1) v(2)] by auto
  qed
  then show "\<exists>e. expr_bin t a b = Ret e \<and> of_width w e" using v(1) by (simp add: expr_bin_def)
next
  assume t: "t \<in> set expr_cmp_ops"
  from expr_op_found(2) [OF t] obtain v where v: "map_of expr_bin_ops t = Some v" "plain_op 1 v" by blast
  have "of_width 1 (expr_storage [arg_expr a, arg_expr b, arg_op v])"
    unfolding of_width_def
  proof
    fix env
    obtain x y where x: "denote env a = Some (int w, x)" and y: "denote env b = Some (int w, y)"
      using assms(1,2) unfolding of_width_def by blast
    obtain c where "smt_bin v w x y = Some (of_bool c)" using smt_bin_cmp [OF expr_cmp_codes [OF t v(1)]] by blast
    then show "\<exists>z. denote env (expr_storage [arg_expr a, arg_expr b, arg_op v]) = Some (int 1, z) \<and> 0 \<le> z \<and> z < 2 ^ 1"
      using denote_plain [OF x y v(2)] by simp
  qed
  then show "\<exists>e. expr_bin t a b = Ret e \<and> of_width 1 e" using v(1) by (simp add: expr_bin_def)
qed

lemma of_width_cast:
  assumes "t \<in> set expr_resize_ops" "w < 256" "of_width w' a"
  shows "\<exists>e. expr_cast t a w = Ret e \<and> of_width w e"
proof -
  obtain e where e: "expr_cast t a w = Ret e"
    using assms(3) denote_expr_cast [OF assms(1,2)] unfolding of_width_def by blast
  moreover have "of_width w e"
    using denote_expr_cast [OF assms(1,2)] assms(3) e unfolding of_width_def
    by (metis (no_types, lifting) outcome.inject pos_mod_bound pos_mod_sign zero_less_numeral zero_less_power)
  ultimately show ?thesis by blast
qed

lemma sym_expr_typed:
  assumes "sym_width a w" "es_vars s + int (sym_inputs a) < 2 ^ 31"
  shows "\<exists>e s'. sym_expr a s = Ret (e, s') \<and> es_vars s' = es_vars s + int (sym_inputs a) \<and> of_width w e"
  using assms
proof (induction arbitrary: s rule: sym_width.induct)
  case (const w n)
  then obtain e where "expr_lift (c_int False w n) = Ret e" "\<forall>env. denote env e = Some (int w, n mod 2 ^ w)"
    using denote_lift [OF const(1)] by blast
  then show ?case by (simp add: of_width_def)
next
  case (any w)
  then obtain e where "expr_any w False s = Ret (e, s\<lparr>es_vars := es_vars s + 1\<rparr>)"
    "\<forall>env. denote env e = Some (int w, env ((es_vars s + 1) mod 2 ^ 16) mod 2 ^ w)"
    using denote_any [OF any(1), of s] by auto
  then show ?case by (simp add: of_width_def)
next
  case (num t a w b)
  obtain x s1 where x: "sym_expr a s = Ret (x, s1)" "es_vars s1 = es_vars s + int (sym_inputs a)" "of_width w x"
    using num.IH(1) [of s] num.prems by auto
  obtain y s2 where y: "sym_expr b s1 = Ret (y, s2)" "es_vars s2 = es_vars s1 + int (sym_inputs b)" "of_width w y"
    using num.IH(2) [of s1] num.prems x(2) by auto
  obtain e where "expr_bin t x y = Ret e" "of_width w e"
    using of_width_bin(1) [OF x(3) y(3) sym_width_pos [OF num(2)] num(1)] by blast
  then show ?case using x y by simp
next
  case (cmp t a w b)
  obtain x s1 where x: "sym_expr a s = Ret (x, s1)" "es_vars s1 = es_vars s + int (sym_inputs a)" "of_width w x"
    using cmp.IH(1) [of s] cmp.prems by auto
  obtain y s2 where y: "sym_expr b s1 = Ret (y, s2)" "es_vars s2 = es_vars s1 + int (sym_inputs b)" "of_width w y"
    using cmp.IH(2) [of s1] cmp.prems x(2) by auto
  obtain e where "expr_bin t x y = Ret e" "of_width 1 e"
    using of_width_bin(2) [OF x(3) y(3) sym_width_pos [OF cmp(2)] cmp(1)] by blast
  then show ?case using x y by simp
next
  case (resize t a w' w)
  obtain x s1 where x: "sym_expr a s = Ret (x, s1)" "es_vars s1 = es_vars s + int (sym_inputs a)" "of_width w' x"
    using resize.IH [of s] resize.prems by auto
  then show ?case using of_width_cast [OF resize(1,4) x(3)] by auto
qed

text \<open>The numeric operations fulfil the contract of a forward domain, for each choice of inputs.\<close>

definition expr_gamma :: "(int \<Rightarrow> int) \<Rightarrow> smt_expr \<Rightarrow> 'w::len word set" where
  "expr_gamma env e = {x. denote env e = Some (int LENGTH('w), uint x)}"

interpretation expr_forward: forward_sound "expr_domain s bits" "expr_gamma env :: smt_expr \<Rightarrow> 'w::len word set"
  con_word "set expr_num_ops"
proof
  fix t a b and x y z :: "'w word"
  assume "t \<in> set expr_num_ops" "x \<in> expr_gamma env a" "y \<in> expr_gamma env b" "con_word t x y = Some z"
  then obtain e where "expr_bin t a b = Ret e" "denote env e = Some (int LENGTH('w), uint z)"
    using denote_expr_bin(1) [of env a x b y t z] unfolding expr_gamma_def by blast
  then show "osound (dom_bin (expr_domain s bits) t a b) (\<lambda>c. z \<in> expr_gamma env c)"
    by (simp add: expr_gamma_def expr_domain_def)
qed

section \<open>Properties\<close>

text \<open>
  Casts between integers and floating-point numbers make broken expressions: their operators have
  no operand in the table of traits, so evaluating the expression leaves two values on the stack,
  the operand and the result; every other cast leaves one.
\<close>

theorem expr_float_casts_leave_operand:
  assumes "t \<in> fst ` set expr_cast_ops" "expr_depth a = Some 1" "expr_cast t a w = Ret e"
  shows "expr_depth e = Some (if t \<in> {tag_sitofp, tag_uitofp, tag_fptosi, tag_fptoui} then 2 else 1)"
  using expr_depth_cast [OF assms] .

text \<open>
  C6: A symbolic operation denotes the concrete one: when two expressions denote machine numbers
  of one width for some values of the variables, the expression that the domain makes of them
  denotes the result of the operation, in that width for arithmetic and bitwise operations and in
  one bit for comparisons.
\<close>

theorem expr_operations_denote:
  fixes x y z :: "'w::len word"
  assumes "denote env a = Some (int LENGTH('w), uint x)" "denote env b = Some (int LENGTH('w), uint y)"
    and "con_word t x y = Some z" "t \<in> set (expr_num_ops @ expr_cmp_ops)"
  shows "\<exists>e. expr_bin t a b = Ret e \<and>
    denote env e = Some (if t \<in> set expr_cmp_ops then 1 else int LENGTH('w), uint z)"
proof (cases "t \<in> set expr_cmp_ops")
  case True
  with denote_expr_bin(2) [OF assms(1-3)] show ?thesis by simp
next
  case False
  with denote_expr_bin(1) [OF assms(1-3)] assms(4) show ?thesis by auto
qed

definition input_byte :: smt_expr where
  "input_byte = expr_storage [arg_atom \<lparr>at_op = s_var_i8, at_imm = [1, 0]\<rparr>]"

lemma input_byte_denotes: "denote (\<lambda>_. 200) input_byte = Some (8, 200)"
  by (simp add: input_byte_def denote_def expr_storage_def Let_def rpn_step_def rpn_meaning_def varid_def
    imm_get_def atom_bw_def smt_bw_def smt_imm_def smt_arity_def atom_bytes_def atom_size_def smt_traits_def
    smt_table_def traits_def)

theorem expr_operations_denote_witness:
  "(\<exists>e. expr_bin tag_add input_byte input_byte = Ret e \<and> denote (\<lambda>_. 200) e =
      Some (if tag_add \<in> set expr_cmp_ops then 1 else int LENGTH(8), uint (144 :: 8 word))) \<and>
    (\<exists>e. expr_bin tag_sle input_byte input_byte = Ret e \<and> denote (\<lambda>_. 200) e =
      Some (if tag_sle \<in> set expr_cmp_ops then 1 else int LENGTH(8), uint (1 :: 8 word)))"
  using expr_operations_denote [where 'w = 8 and x = 200 and y = 200 and z = 144 and t = tag_add
      and a = input_byte and b = input_byte and env = "\<lambda>_. 200"]
    expr_operations_denote [where 'w = 8 and x = 200 and y = 200 and z = 1 and t = tag_sle
      and a = input_byte and b = input_byte and env = "\<lambda>_. 200"]
  by (simp add: input_byte_denotes con_word_def conc_word_def expr_num_ops_def expr_cmp_ops_def)

text \<open>
  C15: Widths are types of symbolic programs: a tree of constants, inputs, arithmetic, comparisons
  and changes of width that is well typed makes, from any state of the counters with room for its
  inputs, an expression without failing, and for every choice of values the expression denotes one
  number of the width of the tree.
\<close>

theorem expr_well_typed:
  assumes "sym_width a w" "es_vars s + int (sym_inputs a) < 2 ^ 31"
  shows "\<exists>e s'. sym_expr a s = Ret (e, s') \<and> es_vars s' = es_vars s + int (sym_inputs a) \<and>
    (\<forall>env. \<exists>x. denote env e = Some (int w, x) \<and> 0 \<le> x \<and> x < 2 ^ w)"
  using sym_expr_typed [OF assms] by (auto simp: of_width_def)

theorem expr_well_typed_witness:
  "\<exists>e s'. sym_expr (sy_bin tag_ult (sy_cast tag_sext (sy_any 8) 32) (sy_const 32 7)) \<lparr>es_vars = 5, es_arrays = 0\<rparr> =
      Ret (e, s') \<and> es_vars s' = es_vars \<lparr>es_vars = 5, es_arrays = 0\<rparr> +
        int (sym_inputs (sy_bin tag_ult (sy_cast tag_sext (sy_any 8) 32) (sy_const 32 7))) \<and>
    (\<forall>env. \<exists>x. denote env e = Some (int 1, x) \<and> 0 \<le> x \<and> x < 2 ^ 1)"
proof (rule expr_well_typed)
  have "sym_width (sy_any 8) 8" by (rule sym_width.any) simp
  then have "sym_width (sy_cast tag_sext (sy_any 8) 32) 32"
    by (intro sym_width.resize) (simp_all add: expr_resize_ops_def)
  then show "sym_width (sy_bin tag_ult (sy_cast tag_sext (sy_any 8) 32) (sy_const 32 7)) 1"
    by (intro sym_width.cmp [where w = 32] sym_width.const) (simp_all add: expr_cmp_ops_def)
qed simp

lemma le_bytes_eq: "(le_bytes n u = le_bytes n v) = (u mod 2 ^ (8 * n) = v mod 2 ^ (8 * n))"
proof
  assume "le_bytes n u = le_bytes n v"
  then show "u mod 2 ^ (8 * n) = v mod 2 ^ (8 * n)" by (metis le_value_le_bytes)
next
  assume "u mod 2 ^ (8 * n) = v mod 2 ^ (8 * n)"
  then have "le_value (le_bytes n u) = le_value (le_bytes n v)" by simp
  then show "le_bytes n u = le_bytes n v" by (metis le_bytes_le_value length_le_bytes)
qed

lemma expr_any_bytes:
  assumes "w \<in> {1, 8, 16, 32, 64}" "es_vars s + 1 < 2 ^ 31"
  shows "expr_any w False s = Ret (vec_of (of_nat (the (smt_match_op smt_op_var w False)) # le_bytes 2 (es_vars s + 1)),
    s\<lparr>es_vars := es_vars s + 1\<rparr>)"
proof -
  obtain v name where v: "smt_match_op smt_op_var w False = Some v" "v < 256"
    "smt_traits v = traits name 0 2 w False smt_op_var"
    using leaf_traits(2) assms(1) by auto
  then show ?thesis
    using assms(2)
    by (simp add: expr_any_def expr_counter_def expr_atom_def atom_of_number_def imm_set_def smt_imm_def traits_def
      expr_storage_def atom_bytes_def atom_size_def del: le_bytes.simps)
qed

text \<open>
  C39: The number of an input is kept in 16 bits: two inputs of one width are the same variable
  exactly when their counters agree modulo 65536, so the first 65536 inputs are different
  variables and the next one is the first again.
\<close>

theorem expr_inputs_distinct:
  assumes "w \<in> {1, 8, 16, 32, 64}" "expr_any w False s1 = Ret (e1, s1')" "expr_any w False s2 = Ret (e2, s2')"
  shows "(e1 = e2) = (es_vars s1 mod 2 ^ 16 = es_vars s2 mod 2 ^ 16)"
proof -
  have "es_vars s1 + 1 < 2 ^ 31" "es_vars s2 + 1 < 2 ^ 31"
    using assms(2,3) by (auto simp: expr_any_def expr_counter_def split: option.splits if_splits)
  from expr_any_bytes [OF assms(1) this(1)] expr_any_bytes [OF assms(1) this(2)] assms(2,3)
  obtain v where "e1 = vec_of (of_nat v # le_bytes 2 (es_vars s1 + 1))" "e2 = vec_of (of_nat v # le_bytes 2 (es_vars s2 + 1))"
    by auto
  then have "(e1 = e2) = (le_bytes 2 (es_vars s1 + 1) = le_bytes 2 (es_vars s2 + 1))"
    by (simp add: inj_map_eq_map del: le_bytes.simps)
  also have "\<dots> = ((es_vars s1 + 1) mod 2 ^ 16 = (es_vars s2 + 1) mod 2 ^ 16)"
    using le_bytes_eq [of 2 "es_vars s1 + 1" "es_vars s2 + 1"] by (simp del: le_bytes.simps)
  also have "\<dots> = (es_vars s1 mod 2 ^ 16 = es_vars s2 mod 2 ^ 16)"
    using mod_diff_cong [of "es_vars s1 + 1" "2 ^ 16" "es_vars s2 + 1" 1 1]
      mod_add_cong [of "es_vars s1" "2 ^ 16" "es_vars s2" 1 1] by auto
  finally show ?thesis .
qed

theorem expr_inputs_distinct_witness:
  "\<exists>e1 e2 s1' s2'. expr_any 8 False \<lparr>es_vars = 0, es_arrays = 0\<rparr> = Ret (e1, s1') \<and>
    expr_any 8 False \<lparr>es_vars = 65536, es_arrays = 0\<rparr> = Ret (e2, s2') \<and>
    (e1 = e2) = ((0 :: int) mod 2 ^ 16 = 65536 mod 2 ^ 16)"
proof -
  obtain e1 s1' e2 s2' where "expr_any 8 False \<lparr>es_vars = 0, es_arrays = 0\<rparr> = Ret (e1, s1')"
    "expr_any 8 False \<lparr>es_vars = 65536, es_arrays = 0\<rparr> = Ret (e2, s2')"
    using denote_any [of 8 "\<lparr>es_vars = 0, es_arrays = 0\<rparr>"] denote_any [of 8 "\<lparr>es_vars = 65536, es_arrays = 0\<rparr>"]
    by auto
  with expr_inputs_distinct [OF _ this] show ?thesis by auto
qed

end
