(* ===== verification/Term_Domain.thy ===== *)
theory Term_Domain
  imports Expr_Domain
begin

text \<open>
  The term domain, \<open>lava/include/lava/term.hpp\<close>: values are expressions of the solver Z3, and
  \<open>assume\<close> adds a constraint to the solver and leaves the path when the constraints have no
  solution. Z3 is not part of the repository: its functions are the record \<open>z3\<close>, and \<open>z3_ok\<close>
  states what their documentation promises. Strings are printed by no operation modelled here.
\<close>

section \<open>What the domain uses of the solver\<close>

datatype z_sort = zs_bool | zs_bv nat | zs_fpa nat nat

datatype z_fun =
  z_add | z_sub | z_mul | z_udiv | z_sdiv | z_urem | z_srem | z_shl | z_lshr | z_ashr
  | z_and | z_or | z_xor | z_eq | z_ne | z_ugt | z_uge | z_ult | z_ule | z_sgt | z_sge | z_slt | z_sle
  | z_concat

datatype z_answer = z_sat | z_unsat | z_unknown

record 'e z3 =
  z_sort_of :: "'e \<Rightarrow> z_sort"
  z_bv_val :: "int \<Rightarrow> nat \<Rightarrow> 'e"
  z_bv_const :: "string \<Rightarrow> nat \<Rightarrow> 'e"
  z_fpa_const :: "string \<Rightarrow> nat \<Rightarrow> nat \<Rightarrow> 'e"
  z_bin :: "z_fun \<Rightarrow> 'e \<Rightarrow> 'e \<Rightarrow> 'e outcome"
  z_not :: "'e \<Rightarrow> 'e outcome"
  z_sext :: "'e \<Rightarrow> int \<Rightarrow> 'e outcome"
  z_zext :: "'e \<Rightarrow> int \<Rightarrow> 'e outcome"
  z_extract :: "'e \<Rightarrow> int \<Rightarrow> int \<Rightarrow> 'e outcome"
  z_check :: "'e list \<Rightarrow> z_answer"

text \<open>The size of a sort that is not one of bit vectors is an error of the solver.\<close>

definition z_bv_size :: "'e z3 \<Rightarrow> 'e \<Rightarrow> int outcome" where
  "z_bv_size Z e = (case z_sort_of Z e of zs_bv w \<Rightarrow> Ret (int w) | _ \<Rightarrow> Fault ''z3'')"

section \<open>The domain\<close>

text \<open>The constraints of the solver, and the static counter of variables.\<close>

record 'e term_state =
  ts_solver :: "'e list"
  ts_vars :: nat

definition var_name :: "nat \<Rightarrow> string" where
  "var_name n = ''var_'' @ nat_string n"

definition variable_counter :: "'e term_state \<Rightarrow> nat \<times> 'e term_state" where
  "variable_counter s = (let v = (ts_vars s + 1) mod 2 ^ 32 in (v, s\<lparr>ts_vars := v\<rparr>))"

definition term_lift :: "'e z3 \<Rightarrow> c_value \<Rightarrow> 'e outcome" where
  "term_lift Z value =
    (case value of c_bool b \<Rightarrow> Ret (z_bv_val Z (of_bool b) 1) | c_int sg w n \<Rightarrow> Ret (z_bv_val Z n w)
     | _ \<Rightarrow> Undef)"

definition term_any :: "'e z3 \<Rightarrow> nat \<Rightarrow> bool \<Rightarrow> 'e term_state \<Rightarrow> ('e \<times> 'e term_state) outcome" where
  "term_any Z bits floating s =
    (let (v, s') = variable_counter s; name = var_name v in
     if \<not> floating then Ret (z_bv_const Z name bits, s')
     else if bits = 32 then Ret (z_fpa_const Z name 8 24, s')
     else if bits = 64 then Ret (z_fpa_const Z name 11 53, s')
     else Undef)"

definition term_any_variadic :: "int list \<Rightarrow> 'e outcome" where
  "term_any_variadic args = Fault ''unsupported variadic any operation''"

definition term_any_range :: "int \<Rightarrow> int \<Rightarrow> 'e outcome" where
  "term_any_range from to = Fault ''unsupported range any operation''"

definition term_tobool :: "'e z3 \<Rightarrow> 'e \<Rightarrow> 'e outcome" where
  "term_tobool Z e =
    (case z_sort_of Z e of
       zs_bv w \<Rightarrow> if w = 1 then z_bin Z z_eq e (z_bv_val Z 1 1) else Fault ''assert''
     | _ \<Rightarrow> Fault ''assert'')"

definition term_assume :: "'e z3 \<Rightarrow> 'e \<Rightarrow> bool \<Rightarrow> 'e term_state \<Rightarrow> 'e term_state outcome" where
  "term_assume Z e expected s =
    obind (if z_sort_of Z e = zs_bool then Ret e else term_tobool Z e) (\<lambda>b.
    obind (if expected then Ret b else z_not Z b) (\<lambda>c.
      let s' = s\<lparr>ts_solver := ts_solver s @ [c]\<rparr> in
      if z_check Z (ts_solver s') = z_unsat then Cancel else Ret s'))"

definition term_to_tristate :: "'e \<Rightarrow> tristate outcome" where
  "term_to_tristate e = Ret maybe_value"

definition term_bin_funs :: "(op_tag \<times> z_fun) list" where
  "term_bin_funs =
    [(tag_add, z_add), (tag_sub, z_sub), (tag_mul, z_mul), (tag_udiv, z_udiv), (tag_sdiv, z_sdiv),
     (tag_urem, z_urem), (tag_srem, z_srem), (tag_shl, z_shl), (tag_lshr, z_lshr), (tag_ashr, z_ashr),
     (tag_op_and, z_and), (tag_op_or, z_or), (tag_op_xor, z_xor), (tag_eq, z_eq), (tag_ne, z_ne),
     (tag_ugt, z_ugt), (tag_uge, z_uge), (tag_ult, z_ult), (tag_ule, z_ule), (tag_sgt, z_sgt),
     (tag_sge, z_sge), (tag_slt, z_slt), (tag_sle, z_sle), (tag_concat, z_concat)]"

definition term_bin :: "'e z3 \<Rightarrow> op_tag \<Rightarrow> 'e \<Rightarrow> 'e \<Rightarrow> 'e outcome" where
  "term_bin Z t a b =
    (case map_of term_bin_funs t of Some f \<Rightarrow> z_bin Z f a b | None \<Rightarrow> mixin_bin t a b)"

text \<open>The number of bits to add is computed in unsigned 32-bit arithmetic.\<close>

definition term_cast :: "'e z3 \<Rightarrow> op_tag \<Rightarrow> 'e \<Rightarrow> nat \<Rightarrow> 'e outcome" where
  "term_cast Z t a b =
    (if t = tag_sext then obind (z_bv_size Z a) (\<lambda>n. z_sext Z a ((int b - n) mod 2 ^ 32))
     else if t = tag_zext then obind (z_bv_size Z a) (\<lambda>n. z_zext Z a ((int b - n) mod 2 ^ 32))
     else if t = tag_trunc then z_extract Z a ((int b - 1) mod 2 ^ 32) 0
     else mixin_cast t a b)"

section \<open>What the documentation of the solver promises\<close>

datatype z_value = zv_bool bool | zv_bv nat int | zv_float

text \<open>The operator of SMT-LIB that a function of the solver makes of two bit vectors.\<close>

definition z_smt :: "z_fun \<Rightarrow> smt_op" where
  "z_smt f =
    (case f of z_add \<Rightarrow> s_bv_add | z_sub \<Rightarrow> s_bv_sub | z_mul \<Rightarrow> s_bv_mul | z_udiv \<Rightarrow> s_bv_udiv
     | z_sdiv \<Rightarrow> s_bv_sdiv | z_urem \<Rightarrow> s_bv_urem | z_srem \<Rightarrow> s_bv_srem | z_shl \<Rightarrow> s_bv_shl
     | z_lshr \<Rightarrow> s_bv_lshr | z_ashr \<Rightarrow> s_bv_ashr | z_and \<Rightarrow> s_bv_and | z_or \<Rightarrow> s_bv_or
     | z_xor \<Rightarrow> s_bv_xor | z_eq \<Rightarrow> s_eq | z_ne \<Rightarrow> s_neq | z_ugt \<Rightarrow> s_bv_ugt | z_uge \<Rightarrow> s_bv_uge
     | z_ult \<Rightarrow> s_bv_ult | z_ule \<Rightarrow> s_bv_ule | z_sgt \<Rightarrow> s_bv_sgt | z_sge \<Rightarrow> s_bv_sge
     | z_slt \<Rightarrow> s_bv_slt | z_sle \<Rightarrow> s_bv_sle | z_concat \<Rightarrow> s_bv_concat)"

definition z_predicate :: "z_fun \<Rightarrow> bool" where
  "z_predicate f \<longleftrightarrow> f \<in> {z_eq, z_ne, z_ugt, z_uge, z_ult, z_ule, z_sgt, z_sge, z_slt, z_sle}"

definition z_result_sort :: "z_fun \<Rightarrow> nat \<Rightarrow> z_sort" where
  "z_result_sort f w = (if z_predicate f then zs_bool else zs_bv w)"

definition z_result :: "z_fun \<Rightarrow> nat \<Rightarrow> int \<Rightarrow> z_value" where
  "z_result f w n = (if z_predicate f then zv_bool (n = 1) else zv_bv w n)"

text \<open>
  \<open>val\<close> gives the value of an expression when its variables have the numbers \<open>env\<close>. An operation
  on bit vectors of one width makes an expression of its meaning. \<open>unsat\<close> is answered only when
  there is no solution.
\<close>

type_synonym 'e z_val = "(string \<Rightarrow> int) \<Rightarrow> 'e \<Rightarrow> z_value"

definition z3_leaves :: "'e z3 \<Rightarrow> 'e z_val \<Rightarrow> bool" where
  "z3_leaves Z val \<longleftrightarrow>
    (\<forall>n w. 0 < w \<longrightarrow> z_sort_of Z (z_bv_val Z n w) = zs_bv w \<and>
       (\<forall>env. val env (z_bv_val Z n w) = zv_bv w (n mod 2 ^ w))) \<and>
    (\<forall>x w. 0 < w \<longrightarrow> z_sort_of Z (z_bv_const Z x w) = zs_bv w \<and>
       (\<forall>env. val env (z_bv_const Z x w) = zv_bv w (env x mod 2 ^ w)))"

definition z3_binary :: "'e z3 \<Rightarrow> 'e z_val \<Rightarrow> bool" where
  "z3_binary Z val \<longleftrightarrow>
    (\<forall>f a b w. f \<noteq> z_concat \<longrightarrow> 0 < w \<longrightarrow> z_sort_of Z a = zs_bv w \<longrightarrow> z_sort_of Z b = zs_bv w \<longrightarrow>
      (\<exists>e. z_bin Z f a b = Ret e \<and> z_sort_of Z e = z_result_sort f w \<and>
        (\<forall>env x y n. val env a = zv_bv w x \<longrightarrow> val env b = zv_bv w y \<longrightarrow>
          smt_bin (z_smt f) w x y = Some n \<longrightarrow> val env e = z_result f w n)))"

definition z3_negation :: "'e z3 \<Rightarrow> 'e z_val \<Rightarrow> bool" where
  "z3_negation Z val \<longleftrightarrow>
    (\<forall>a. z_sort_of Z a = zs_bool \<longrightarrow>
      (\<exists>e. z_not Z a = Ret e \<and> z_sort_of Z e = zs_bool \<and>
        (\<forall>env b. val env a = zv_bool b \<longrightarrow> val env e = zv_bool (\<not> b))))"

definition z3_extend :: "'e z3 \<Rightarrow> 'e z_val \<Rightarrow> bool" where
  "z3_extend Z val \<longleftrightarrow>
    (\<forall>a w k. 0 < w \<longrightarrow> w + k < 256 \<longrightarrow> z_sort_of Z a = zs_bv w \<longrightarrow>
      (\<exists>e. z_sext Z a (int k) = Ret e \<and> z_sort_of Z e = zs_bv (w + k) \<and>
        (\<forall>env x. val env a = zv_bv w x \<longrightarrow> val env e = zv_bv (w + k) (to_signed w x mod 2 ^ (w + k)))) \<and>
      (\<exists>e. z_zext Z a (int k) = Ret e \<and> z_sort_of Z e = zs_bv (w + k) \<and>
        (\<forall>env x. val env a = zv_bv w x \<longrightarrow> val env e = zv_bv (w + k) (x mod 2 ^ (w + k)))))"

definition z3_truncate :: "'e z3 \<Rightarrow> 'e z_val \<Rightarrow> bool" where
  "z3_truncate Z val \<longleftrightarrow>
    (\<forall>a w k. 0 < k \<longrightarrow> k \<le> w \<longrightarrow> w < 256 \<longrightarrow> z_sort_of Z a = zs_bv w \<longrightarrow>
      (\<exists>e. z_extract Z a (int k - 1) 0 = Ret e \<and> z_sort_of Z e = zs_bv k \<and>
        (\<forall>env x. val env a = zv_bv w x \<longrightarrow> val env e = zv_bv k (x mod 2 ^ k))))"

definition z_holds :: "'e z_val \<Rightarrow> (string \<Rightarrow> int) \<Rightarrow> 'e list \<Rightarrow> bool" where
  "z_holds val env es \<longleftrightarrow> (\<forall>e \<in> set es. val env e = zv_bool True)"

definition z3_sound :: "'e z3 \<Rightarrow> 'e z_val \<Rightarrow> bool" where
  "z3_sound Z val \<longleftrightarrow> (\<forall>es env. z_check Z es = z_unsat \<longrightarrow> \<not> z_holds val env es)"

definition z3_ok :: "'e z3 \<Rightarrow> 'e z_val \<Rightarrow> bool" where
  "z3_ok Z val \<longleftrightarrow> z3_leaves Z val \<and> z3_binary Z val \<and> z3_negation Z val \<and> z3_extend Z val \<and>
    z3_truncate Z val \<and> z3_sound Z val"

section \<open>Paths\<close>

text \<open>
  A path of an instrumented program: operations on the values made before (by position), and the
  assumption of a condition at each branch.
\<close>

datatype t_instr =
  ti_const nat int | ti_input nat | ti_bin op_tag nat nat | ti_cast op_tag nat nat | ti_assume nat bool

definition reg_at :: "'a list \<Rightarrow> nat \<Rightarrow> 'a outcome" where
  "reg_at xs i = (if i < length xs then Ret (xs ! i) else Undef)"

fun term_instr :: "'e z3 \<Rightarrow> t_instr \<Rightarrow> 'e list \<times> 'e term_state \<Rightarrow> ('e list \<times> 'e term_state) outcome" where
  "term_instr Z (ti_const w n) (regs, s) = omap (\<lambda>e. (regs @ [e], s)) (term_lift Z (c_int False w n))"
| "term_instr Z (ti_input w) (regs, s) = omap (\<lambda>(e, s'). (regs @ [e], s')) (term_any Z w False s)"
| "term_instr Z (ti_bin t i j) (regs, s) =
    obind (reg_at regs i) (\<lambda>a. obind (reg_at regs j) (\<lambda>b. omap (\<lambda>e. (regs @ [e], s)) (term_bin Z t a b)))"
| "term_instr Z (ti_cast t i w) (regs, s) =
    obind (reg_at regs i) (\<lambda>a. omap (\<lambda>e. (regs @ [e], s)) (term_cast Z t a w))"
| "term_instr Z (ti_assume i expected) (regs, s) =
    obind (reg_at regs i) (\<lambda>a. omap (\<lambda>s'. (regs, s')) (term_assume Z a expected s))"

fun term_path :: "'e z3 \<Rightarrow> t_instr list \<Rightarrow> 'e list \<times> 'e term_state \<Rightarrow> ('e list \<times> 'e term_state) outcome" where
  "term_path Z [] st = Ret st"
| "term_path Z (i # is) st = obind (term_instr Z i st) (term_path Z is)"

text \<open>The program itself on numbers with their widths; an edge whose condition differs is not taken.\<close>

fun conc_instr ::
  "(string \<Rightarrow> int) \<Rightarrow> t_instr \<Rightarrow> (nat \<times> int) list \<times> nat \<Rightarrow> ((nat \<times> int) list \<times> nat) option" where
  "conc_instr env (ti_const w n) (regs, k) = Some (regs @ [(w, n mod 2 ^ w)], k)"
| "conc_instr env (ti_input w) (regs, k) =
    (let k' = (k + 1) mod 2 ^ 32 in Some (regs @ [(w, env (var_name k') mod 2 ^ w)], k'))"
| "conc_instr env (ti_bin t i j) (regs, k) =
    (case (regs ! i, regs ! j, map_of term_bin_funs t) of
       ((w, x), (w', y), Some f) \<Rightarrow>
         map_option (\<lambda>n. (regs @ [(if z_predicate f then 1 else w, n)], k)) (smt_bin (z_smt f) w x y)
     | _ \<Rightarrow> None)"
| "conc_instr env (ti_cast t i b) (regs, k) =
    (case regs ! i of (w, x) \<Rightarrow>
       Some (regs @ [(b, (if t = tag_sext then to_signed w x else x) mod 2 ^ b)], k))"
| "conc_instr env (ti_assume i expected) (regs, k) =
    (if (snd (regs ! i) = 1) = expected then Some (regs, k) else None)"

fun conc_path ::
  "(string \<Rightarrow> int) \<Rightarrow> t_instr list \<Rightarrow> (nat \<times> int) list \<times> nat \<Rightarrow> ((nat \<times> int) list \<times> nat) option" where
  "conc_path env [] st = Some st"
| "conc_path env (i # is) st = Option.bind (conc_instr env i st) (conc_path env is)"

text \<open>
  The sorts that a path gives its values. A comparison makes a boolean, which can only be assumed;
  widths are those that a byte can hold.
\<close>

inductive instr_sorts :: "z_sort list \<Rightarrow> t_instr \<Rightarrow> z_sort list \<Rightarrow> bool" where
  const: "\<lbrakk>0 < w; w < 256\<rbrakk> \<Longrightarrow> instr_sorts S (ti_const w n) (S @ [zs_bv w])"
| input: "\<lbrakk>0 < w; w < 256\<rbrakk> \<Longrightarrow> instr_sorts S (ti_input w) (S @ [zs_bv w])"
| num: "\<lbrakk>t \<in> set expr_num_ops; i < length S; j < length S; S ! i = zs_bv w; S ! j = zs_bv w\<rbrakk>
    \<Longrightarrow> instr_sorts S (ti_bin t i j) (S @ [zs_bv w])"
| cmp: "\<lbrakk>t \<in> set expr_cmp_ops; i < length S; j < length S; S ! i = zs_bv w; S ! j = zs_bv w\<rbrakk>
    \<Longrightarrow> instr_sorts S (ti_bin t i j) (S @ [zs_bool])"
| extend: "\<lbrakk>t \<in> {tag_sext, tag_zext}; i < length S; S ! i = zs_bv w; w \<le> b; b < 256\<rbrakk>
    \<Longrightarrow> instr_sorts S (ti_cast t i b) (S @ [zs_bv b])"
| trunc: "\<lbrakk>i < length S; S ! i = zs_bv w; 0 < b; b \<le> w\<rbrakk> \<Longrightarrow> instr_sorts S (ti_cast tag_trunc i b) (S @ [zs_bv b])"
| assume_bool: "\<lbrakk>i < length S; S ! i = zs_bool\<rbrakk> \<Longrightarrow> instr_sorts S (ti_assume i c) S"
| assume_bit: "\<lbrakk>i < length S; S ! i = zs_bv 1\<rbrakk> \<Longrightarrow> instr_sorts S (ti_assume i c) S"

inductive path_sorts :: "z_sort list \<Rightarrow> t_instr list \<Rightarrow> bool" where
  Nil: "path_sorts S []"
| Cons: "\<lbrakk>instr_sorts S i S'; path_sorts S' is\<rbrakk> \<Longrightarrow> path_sorts S (i # is)"

inductive_cases path_sorts_ConsE [elim!]: "path_sorts S (i # is)"

text \<open>A term stands for a number in an environment; a boolean stands for one bit.\<close>

fun sort_value :: "z_sort \<Rightarrow> nat \<times> int \<Rightarrow> z_value \<Rightarrow> bool" where
  "sort_value (zs_bv w) (w', x) v \<longleftrightarrow> w' = w \<and> 0 < w \<and> w < 256 \<and> 0 \<le> x \<and> x < 2 ^ w \<and> v = zv_bv w x"
| "sort_value zs_bool (w', x) v \<longleftrightarrow> w' = 1 \<and> (x = 0 \<or> x = 1) \<and> v = zv_bool (x = 1)"
| "sort_value (zs_fpa a b) x v \<longleftrightarrow> False"

definition stands_for :: "'e z3 \<Rightarrow> 'e z_val \<Rightarrow> (string \<Rightarrow> int) \<Rightarrow> 'e \<Rightarrow> nat \<times> int \<Rightarrow> bool" where
  "stands_for Z val env e x \<longleftrightarrow> sort_value (z_sort_of Z e) x (val env e)"

text \<open>
  The state of the domain describes the runs of the program on all inputs at once: the inputs that
  satisfy the constraints are those with a run, whose values the terms stand for.
\<close>

definition describes ::
  "'e z3 \<Rightarrow> 'e z_val \<Rightarrow> ((string \<Rightarrow> int) \<Rightarrow> ((nat \<times> int) list \<times> nat) option) \<Rightarrow> 'e list \<times> 'e term_state \<Rightarrow> bool" where
  "describes Z val run st \<longleftrightarrow>
    (\<forall>env. case run env of
       None \<Rightarrow> \<not> z_holds val env (ts_solver (snd st))
     | Some (xs, k) \<Rightarrow> z_holds val env (ts_solver (snd st)) \<and> k = ts_vars (snd st) \<and>
         list_all2 (stands_for Z val env) (fst st) xs)"

lemma z_holds_snoc [simp]: "z_holds val env (es @ [e]) \<longleftrightarrow> z_holds val env es \<and> val env e = zv_bool True"
  by (auto simp: z_holds_def)

lemma describes_append:
  assumes d: "describes Z val run (regs, s)" and s: "ts_solver s' = ts_solver s"
    and step: "\<And>env xs. \<lbrakk>run env = Some (xs, ts_vars s); list_all2 (stands_for Z val env) regs xs\<rbrakk>
      \<Longrightarrow> \<exists>x. instr env (xs, ts_vars s) = Some (xs @ [x], ts_vars s') \<and> stands_for Z val env e x"
  shows "describes Z val (\<lambda>env. Option.bind (run env) (instr env)) (regs @ [e], s')"
  unfolding describes_def
proof
  fix env
  show "case Option.bind (run env) (instr env) of
      None \<Rightarrow> \<not> z_holds val env (ts_solver (snd (regs @ [e], s')))
    | Some (xs, k) \<Rightarrow> z_holds val env (ts_solver (snd (regs @ [e], s'))) \<and> k = ts_vars (snd (regs @ [e], s')) \<and>
        list_all2 (stands_for Z val env) (fst (regs @ [e], s')) xs"
  proof (cases "run env")
    case None
    then show ?thesis using d [unfolded describes_def, THEN spec, of env] s by simp
  next
    case (Some r)
    then obtain xs where r: "run env = Some (xs, ts_vars s)" "list_all2 (stands_for Z val env) regs xs"
      "z_holds val env (ts_solver s)"
      using d [unfolded describes_def, THEN spec, of env] by (cases r) simp
    from step [OF r(1,2)] obtain x where "instr env (xs, ts_vars s) = Some (xs @ [x], ts_vars s')"
      "stands_for Z val env e x" by blast
    then show ?thesis using r s by (simp add: list_all2_appendI)
  qed
qed

lemma regs_of:
  assumes "list_all2 (stands_for Z val env) regs xs" "i < length regs" "z_sort_of Z (regs ! i) = zs_bv w"
  obtains x where "xs ! i = (w, x)" "0 \<le> x" "x < 2 ^ w" "0 < w" "w < 256" "val env (regs ! i) = zv_bv w x"
  using list_all2_nthD [OF assms(1,2)] assms(3) unfolding stands_for_def
  by (cases "xs ! i") auto

lemma reg_of_sorts:
  "map (z_sort_of Z) regs = S \<Longrightarrow> i < length S \<Longrightarrow> i < length regs \<and> z_sort_of Z (regs ! i) = S ! i"
  by auto

lemma z_bin_law:
  assumes "z3_ok Z val" "z_sort_of Z a = zs_bv w" "z_sort_of Z b = zs_bv w" "0 < w" "f \<noteq> z_concat"
  obtains e where "z_bin Z f a b = Ret e" "z_sort_of Z e = z_result_sort f w"
    "\<And>env x y n. \<lbrakk>val env a = zv_bv w x; val env b = zv_bv w y; smt_bin (z_smt f) w x y = Some n\<rbrakk>
      \<Longrightarrow> val env e = z_result f w n"
proof -
  have "z3_binary Z val" using assms(1) by (simp add: z3_ok_def)
  from this [unfolded z3_binary_def, rule_format, OF assms(5,4,2,3)] show thesis
    using that by (elim exE conjE) blast
qed

lemma z_bin_sort:
  assumes "z3_ok Z val" "z_sort_of Z a = zs_bv w" "z_sort_of Z b = zs_bv w" "0 < w" "f \<noteq> z_concat"
  obtains e where "z_bin Z f a b = Ret e" "z_sort_of Z e = z_result_sort f w"
  using z_bin_law [OF assms] by metis

lemma term_fun_of:
  "list_all (\<lambda>t. case map_of term_bin_funs t of None \<Rightarrow> False | Some f \<Rightarrow>
      f \<noteq> z_concat \<and> \<not> z_predicate f \<and> map_of expr_bin_ops t = Some (z_smt f)) expr_num_ops"
  "list_all (\<lambda>t. case map_of term_bin_funs t of None \<Rightarrow> False | Some f \<Rightarrow>
      f \<noteq> z_concat \<and> z_predicate f \<and> map_of expr_bin_ops t = Some (z_smt f)) expr_cmp_ops"
  by code_simp+

lemma term_num_fun:
  assumes "t \<in> set expr_num_ops"
  obtains f where "map_of term_bin_funs t = Some f" "f \<noteq> z_concat" "\<not> z_predicate f" "map_of expr_bin_ops t = Some (z_smt f)"
  using term_fun_of(1) assms by (force simp: list_all_iff split: option.splits)

lemma term_cmp_fun:
  assumes "t \<in> set expr_cmp_ops"
  obtains f where "map_of term_bin_funs t = Some f" "f \<noteq> z_concat" "z_predicate f" "map_of expr_bin_ops t = Some (z_smt f)"
  using term_fun_of(2) assms by (force simp: list_all_iff split: option.splits)

text \<open>A step of the domain on a path that has sorts, as a value of one of three kinds.\<close>

definition step_ok ::
  "'e z3 \<Rightarrow> 'e z_val \<Rightarrow> ((string \<Rightarrow> int) \<Rightarrow> ((nat \<times> int) list \<times> nat) option) \<Rightarrow> z_sort list \<Rightarrow>
    ('e list \<times> 'e term_state) outcome \<Rightarrow> bool" where
  "step_ok Z val run S r \<longleftrightarrow>
    (case r of Ret st \<Rightarrow> describes Z val run st \<and> map (z_sort_of Z) (fst st) = S
     | Cancel \<Rightarrow> (\<forall>env. run env = None) | _ \<Rightarrow> False)"

lemma step_bin:
  assumes ok: "z3_ok Z val" and d: "describes Z val run (regs, s)"
    and ij: "i < length regs" "j < length regs" "z_sort_of Z (regs ! i) = zs_bv w" "z_sort_of Z (regs ! j) = zs_bv w"
    and f: "map_of term_bin_funs t = Some f" "f \<noteq> z_concat"
    and range: "\<And>x y. \<lbrakk>0 \<le> x; x < 2 ^ w; 0 \<le> y; y < 2 ^ w; 0 < w; w < 256\<rbrakk> \<Longrightarrow> \<exists>n. smt_bin (z_smt f) w x y = Some n \<and>
      sort_value (z_result_sort f w) (if z_predicate f then 1 else w, n) (z_result f w n)"
    and w: "0 < w"
  shows "step_ok Z val (\<lambda>env. Option.bind (run env) (conc_instr env (ti_bin t i j)))
    (map (z_sort_of Z) regs @ [z_result_sort f w]) (term_instr Z (ti_bin t i j) (regs, s))"
proof -
  obtain e where e: "z_bin Z f (regs ! i) (regs ! j) = Ret e" "z_sort_of Z e = z_result_sort f w"
    "\<And>env x y n. \<lbrakk>val env (regs ! i) = zv_bv w x; val env (regs ! j) = zv_bv w y; smt_bin (z_smt f) w x y = Some n\<rbrakk>
      \<Longrightarrow> val env e = z_result f w n"
    using z_bin_law [OF ok ij(3,4) w f(2)] by blast
  have "describes Z val (\<lambda>env. Option.bind (run env) (conc_instr env (ti_bin t i j))) (regs @ [e], s)"
  proof (rule describes_append [OF d refl])
    fix env xs assume run: "list_all2 (stands_for Z val env) regs xs"
    obtain x where x: "xs ! i = (w, x)" "0 \<le> x" "x < 2 ^ w" "0 < w" "w < 256" "val env (regs ! i) = zv_bv w x"
      by (rule regs_of [OF run ij(1,3)])
    obtain y where y: "xs ! j = (w, y)" "0 \<le> y" "y < 2 ^ w" "0 < w" "w < 256" "val env (regs ! j) = zv_bv w y"
      by (rule regs_of [OF run ij(2,4)])
    from range [OF x(2,3) y(2,3) x(4,5)] obtain n where n: "smt_bin (z_smt f) w x y = Some n"
      "sort_value (z_result_sort f w) (if z_predicate f then 1 else w, n) (z_result f w n)" by blast
    have "stands_for Z val env e (if z_predicate f then 1 else w, n)"
      using n(2) e(2) e(3) [OF x(6) y(6) n(1)] by (simp add: stands_for_def)
    then show "\<exists>x. conc_instr env (ti_bin t i j) (xs, ts_vars s) = Some (xs @ [x], ts_vars s) \<and> stands_for Z val env e x"
      using x(1) y(1) f(1) n(1) by simp
  qed
  then show ?thesis
    using ij e f by (simp add: step_ok_def reg_at_def term_bin_def)
qed

lemma step_num:
  assumes ok: "z3_ok Z val" and d: "describes Z val run (regs, s)" and t: "t \<in> set expr_num_ops"
    and ij: "i < length regs" "j < length regs" "z_sort_of Z (regs ! i) = zs_bv w" "z_sort_of Z (regs ! j) = zs_bv w"
    and w: "0 < w"
  shows "step_ok Z val (\<lambda>env. Option.bind (run env) (conc_instr env (ti_bin t i j)))
    (map (z_sort_of Z) regs @ [zs_bv w]) (term_instr Z (ti_bin t i j) (regs, s))"
proof -
  obtain f where f: "map_of term_bin_funs t = Some f" "f \<noteq> z_concat" "\<not> z_predicate f"
    "map_of expr_bin_ops t = Some (z_smt f)" by (rule term_num_fun [OF t])
  have r: "z_result_sort f w = zs_bv w" using f(3) by (simp add: z_result_sort_def)
  have "step_ok Z val (\<lambda>env. Option.bind (run env) (conc_instr env (ti_bin t i j)))
    (map (z_sort_of Z) regs @ [z_result_sort f w]) (term_instr Z (ti_bin t i j) (regs, s))"
  proof (rule step_bin [OF ok d ij f(1,2) _ w])
    fix x y :: int assume xy: "0 \<le> x" "x < 2 ^ w" "0 \<le> y" "y < 2 ^ w" "0 < w" "w < 256"
    from smt_bin_num [OF xy(1-5) expr_num_codes [OF t f(4)]]
    show "\<exists>n. smt_bin (z_smt f) w x y = Some n \<and>
        sort_value (z_result_sort f w) (if z_predicate f then 1 else w, n) (z_result f w n)"
      using f(3) xy by (auto simp: z_result_sort_def z_result_def)
  qed
  then show ?thesis unfolding r .
qed

lemma step_cmp:
  assumes ok: "z3_ok Z val" and d: "describes Z val run (regs, s)" and t: "t \<in> set expr_cmp_ops"
    and ij: "i < length regs" "j < length regs" "z_sort_of Z (regs ! i) = zs_bv w" "z_sort_of Z (regs ! j) = zs_bv w"
    and w: "0 < w"
  shows "step_ok Z val (\<lambda>env. Option.bind (run env) (conc_instr env (ti_bin t i j)))
    (map (z_sort_of Z) regs @ [zs_bool]) (term_instr Z (ti_bin t i j) (regs, s))"
proof -
  obtain f where f: "map_of term_bin_funs t = Some f" "f \<noteq> z_concat" "z_predicate f"
    "map_of expr_bin_ops t = Some (z_smt f)" by (rule term_cmp_fun [OF t])
  have r: "z_result_sort f w = zs_bool" using f(3) by (simp add: z_result_sort_def)
  have "step_ok Z val (\<lambda>env. Option.bind (run env) (conc_instr env (ti_bin t i j)))
    (map (z_sort_of Z) regs @ [z_result_sort f w]) (term_instr Z (ti_bin t i j) (regs, s))"
  proof (rule step_bin [OF ok d ij f(1,2) _ w])
    fix x y :: int
    from smt_bin_cmp [OF expr_cmp_codes [OF t f(4)], of w x y]
    show "\<exists>n. smt_bin (z_smt f) w x y = Some n \<and>
        sort_value (z_result_sort f w) (if z_predicate f then 1 else w, n) (z_result f w n)"
      using f(3) by (auto simp: z_result_sort_def z_result_def)
  qed
  then show ?thesis unfolding r .
qed

lemma step_leaf:
  assumes "z3_ok Z val" "describes Z val run (regs, s)" "0 < w" "w < 256"
  shows "step_ok Z val (\<lambda>env. Option.bind (run env) (conc_instr env (ti_const w n)))
      (map (z_sort_of Z) regs @ [zs_bv w]) (term_instr Z (ti_const w n) (regs, s))"
    and "step_ok Z val (\<lambda>env. Option.bind (run env) (conc_instr env (ti_input w)))
      (map (z_sort_of Z) regs @ [zs_bv w]) (term_instr Z (ti_input w) (regs, s))"
proof -
  have leaves: "z3_leaves Z val" using assms(1) by (simp add: z3_ok_def)
  have "describes Z val (\<lambda>env. Option.bind (run env) (conc_instr env (ti_const w n))) (regs @ [z_bv_val Z n w], s)"
    by (rule describes_append [OF assms(2) refl])
      (use leaves assms(3,4) in \<open>auto simp: stands_for_def z3_leaves_def\<close>)
  then show "step_ok Z val (\<lambda>env. Option.bind (run env) (conc_instr env (ti_const w n)))
      (map (z_sort_of Z) regs @ [zs_bv w]) (term_instr Z (ti_const w n) (regs, s))"
    using leaves assms(3) by (simp add: step_ok_def term_lift_def z3_leaves_def)
  let ?k = "(ts_vars s + 1) mod 2 ^ 32" and ?s = "s\<lparr>ts_vars := (ts_vars s + 1) mod 2 ^ 32\<rparr>"
  have "describes Z val (\<lambda>env. Option.bind (run env) (conc_instr env (ti_input w)))
      (regs @ [z_bv_const Z (var_name ?k) w], ?s)"
    by (rule describes_append [OF assms(2)])
      (use leaves assms(3,4) in \<open>auto simp: stands_for_def z3_leaves_def Let_def\<close>)
  then show "step_ok Z val (\<lambda>env. Option.bind (run env) (conc_instr env (ti_input w)))
      (map (z_sort_of Z) regs @ [zs_bv w]) (term_instr Z (ti_input w) (regs, s))"
    using leaves assms(3) by (simp add: step_ok_def term_any_def variable_counter_def z3_leaves_def Let_def)
qed

text \<open>A cast, once the solver has made the term for it.\<close>

lemma step_cast:
  assumes d: "describes Z val run (regs, s)" and i: "i < length regs" "z_sort_of Z (regs ! i) = zs_bv w"
    and e: "term_cast Z t (regs ! i) b = Ret e" "z_sort_of Z e = zs_bv b" and b: "0 < b" "b < 256"
    and v: "\<And>env x. \<lbrakk>val env (regs ! i) = zv_bv w x; 0 \<le> x; x < 2 ^ w\<rbrakk>
      \<Longrightarrow> val env e = zv_bv b ((if t = tag_sext then to_signed w x else x) mod 2 ^ b)"
  shows "step_ok Z val (\<lambda>env. Option.bind (run env) (conc_instr env (ti_cast t i b)))
    (map (z_sort_of Z) regs @ [zs_bv b]) (term_instr Z (ti_cast t i b) (regs, s))"
proof -
  have "describes Z val (\<lambda>env. Option.bind (run env) (conc_instr env (ti_cast t i b))) (regs @ [e], s)"
  proof (rule describes_append [OF d refl])
    fix env xs assume run: "list_all2 (stands_for Z val env) regs xs"
    obtain x where x: "xs ! i = (w, x)" "0 \<le> x" "x < 2 ^ w" "val env (regs ! i) = zv_bv w x"
      by (rule regs_of [OF run i]) blast
    from v [OF x(4,2,3)] show "\<exists>x. conc_instr env (ti_cast t i b) (xs, ts_vars s) = Some (xs @ [x], ts_vars s) \<and>
        stands_for Z val env e x"
      using x(1) e(2) b by (simp add: stands_for_def)
  qed
  then show ?thesis using i e by (simp add: step_ok_def reg_at_def)
qed

lemma step_resize:
  assumes ok: "z3_ok Z val" and d: "describes Z val run (regs, s)"
    and i: "i < length regs" "z_sort_of Z (regs ! i) = zs_bv w" "0 < w" "w < 256"
  shows "\<lbrakk>t \<in> {tag_sext, tag_zext}; w \<le> b; b < 256\<rbrakk> \<Longrightarrow>
      step_ok Z val (\<lambda>env. Option.bind (run env) (conc_instr env (ti_cast t i b)))
        (map (z_sort_of Z) regs @ [zs_bv b]) (term_instr Z (ti_cast t i b) (regs, s))"
    and "\<lbrakk>0 < b; b \<le> w\<rbrakk> \<Longrightarrow>
      step_ok Z val (\<lambda>env. Option.bind (run env) (conc_instr env (ti_cast tag_trunc i b)))
        (map (z_sort_of Z) regs @ [zs_bv b]) (term_instr Z (ti_cast tag_trunc i b) (regs, s))"
proof -
  have ext: "z3_extend Z val" and trunc: "z3_truncate Z val" using ok by (simp_all add: z3_ok_def)
  {
    assume t: "t \<in> {tag_sext, tag_zext}" and b: "w \<le> b" "b < 256"
    have k: "(int b - int w) mod 2 ^ 32 = int (b - w)" using b by (simp add: of_nat_diff)
    note law = ext [unfolded z3_extend_def, rule_format, of w "b - w" "regs ! i"]
    have wb: "w + (b - w) = b" using b by simp
    from law i b obtain e1 e2 where e1: "z_sext Z (regs ! i) (int (b - w)) = Ret e1" "z_sort_of Z e1 = zs_bv b"
        "\<And>env x. val env (regs ! i) = zv_bv w x \<Longrightarrow> val env e1 = zv_bv b (to_signed w x mod 2 ^ b)"
      and e2: "z_zext Z (regs ! i) (int (b - w)) = Ret e2" "z_sort_of Z e2 = zs_bv b"
        "\<And>env x. val env (regs ! i) = zv_bv w x \<Longrightarrow> val env e2 = zv_bv b (x mod 2 ^ b)"
      unfolding wb by blast
    from t consider "t = tag_sext" | "t = tag_zext" by blast
    then show "step_ok Z val (\<lambda>env. Option.bind (run env) (conc_instr env (ti_cast t i b)))
        (map (z_sort_of Z) regs @ [zs_bv b]) (term_instr Z (ti_cast t i b) (regs, s))"
    proof cases
      case 1
      show ?thesis
        by (rule step_cast [OF d i(1,2) _ e1(2)])
          (use 1 e1 i b k in \<open>auto simp: term_cast_def z_bv_size_def\<close>)
    next
      case 2
      show ?thesis
        by (rule step_cast [OF d i(1,2) _ e2(2)])
          (use 2 e2 i b k in \<open>auto simp: term_cast_def z_bv_size_def\<close>)
    qed
  }
  assume b: "0 < b" "b \<le> w"
  from trunc [unfolded z3_truncate_def, rule_format, OF b i(4,2)]
  obtain e where e: "z_extract Z (regs ! i) (int b - 1) 0 = Ret e" "z_sort_of Z e = zs_bv b"
    "\<And>env x. val env (regs ! i) = zv_bv w x \<Longrightarrow> val env e = zv_bv b (x mod 2 ^ b)" by blast
  have k: "(int b - 1) mod 2 ^ 32 = int b - 1" using b i(4) by simp
  show "step_ok Z val (\<lambda>env. Option.bind (run env) (conc_instr env (ti_cast tag_trunc i b)))
        (map (z_sort_of Z) regs @ [zs_bv b]) (term_instr Z (ti_cast tag_trunc i b) (regs, s))"
    by (rule step_cast [OF d i(1,2) _ e(2)]) (use e b i k in \<open>auto simp: term_cast_def\<close>)
qed

lemma describes_constrain:
  assumes d: "describes Z val run (regs, s)" and i: "i < length regs"
    and c: "\<And>env xs. list_all2 (stands_for Z val env) regs xs \<Longrightarrow>
      val env c = zv_bool ((snd (xs ! i) = 1) = expected)"
  shows "describes Z val (\<lambda>env. Option.bind (run env) (conc_instr env (ti_assume i expected)))
    (regs, s\<lparr>ts_solver := ts_solver s @ [c]\<rparr>)"
  unfolding describes_def
proof
  fix env
  note d' = d [unfolded describes_def, THEN spec, of env]
  show "case Option.bind (run env) (conc_instr env (ti_assume i expected)) of
      None \<Rightarrow> \<not> z_holds val env (ts_solver (snd (regs, s\<lparr>ts_solver := ts_solver s @ [c]\<rparr>)))
    | Some (xs, k) \<Rightarrow> z_holds val env (ts_solver (snd (regs, s\<lparr>ts_solver := ts_solver s @ [c]\<rparr>))) \<and>
        k = ts_vars (snd (regs, s\<lparr>ts_solver := ts_solver s @ [c]\<rparr>)) \<and>
        list_all2 (stands_for Z val env) (fst (regs, s\<lparr>ts_solver := ts_solver s @ [c]\<rparr>)) xs"
  proof (cases "run env")
    case None
    then show ?thesis using d' by simp
  next
    case (Some r)
    then obtain xs where "run env = Some (xs, ts_vars s)" "list_all2 (stands_for Z val env) regs xs"
      "z_holds val env (ts_solver s)"
      using d' by (cases r) simp
    then show ?thesis using c [of env xs] by simp
  qed
qed

lemma step_assume:
  assumes ok: "z3_ok Z val" and d: "describes Z val run (regs, s)"
    and i: "i < length regs" "z_sort_of Z (regs ! i) = zs_bool \<or> z_sort_of Z (regs ! i) = zs_bv 1"
  shows "step_ok Z val (\<lambda>env. Option.bind (run env) (conc_instr env (ti_assume i expected)))
    (map (z_sort_of Z) regs) (term_instr Z (ti_assume i expected) (regs, s))"
proof -
  have leaves: "z3_leaves Z val" and neg: "z3_negation Z val" and sound: "z3_sound Z val"
    using ok by (simp_all add: z3_ok_def)
  let ?a = "regs ! i"
  obtain e where e: "(if z_sort_of Z ?a = zs_bool then Ret ?a else term_tobool Z ?a) = Ret e" "z_sort_of Z e = zs_bool"
    "\<And>env xs. list_all2 (stands_for Z val env) regs xs \<Longrightarrow> val env e = zv_bool (snd (xs ! i) = 1)"
  proof (cases "z_sort_of Z ?a = zs_bool")
    case True
    have "val env ?a = zv_bool (snd (xs ! i) = 1)" if "list_all2 (stands_for Z val env) regs xs" for env xs
      using list_all2_nthD [OF that i(1)] True by (cases "xs ! i") (simp add: stands_for_def)
    with True that [of ?a] show thesis by simp
  next
    case False
    with i(2) have sort: "z_sort_of Z ?a = zs_bv 1" by simp
    have one: "z_sort_of Z (z_bv_val Z 1 1) = zs_bv 1" "\<And>env. val env (z_bv_val Z 1 1) = zv_bv 1 1"
      using leaves by (simp_all add: z3_leaves_def)
    obtain e where e: "z_bin Z z_eq ?a (z_bv_val Z 1 1) = Ret e" "z_sort_of Z e = z_result_sort z_eq 1"
      "\<And>env x y n. \<lbrakk>val env ?a = zv_bv 1 x; val env (z_bv_val Z 1 1) = zv_bv 1 y;
        smt_bin (z_smt z_eq) 1 x y = Some n\<rbrakk> \<Longrightarrow> val env e = z_result z_eq 1 n"
      using z_bin_law [OF ok sort one(1), of z_eq] by auto
    have "val env e = zv_bool (snd (xs ! i) = 1)" if r: "list_all2 (stands_for Z val env) regs xs" for env xs
    proof -
      obtain x where x: "xs ! i = (1, x)" "val env ?a = zv_bv 1 x" by (rule regs_of [OF r i(1) sort])
      have "smt_bin (z_smt z_eq) 1 x 1 = Some (of_bool (x = 1))"
        by (simp add: smt_bin_def z_smt_def)
      from e(3) [OF x(2) one(2) this] x(1) show ?thesis by (simp add: z_result_def z_predicate_def)
    qed
    with e(1,2) sort that [of e] show thesis by (simp add: term_tobool_def z_result_sort_def z_predicate_def)
  qed
  obtain c where c: "(if expected then Ret e else z_not Z e) = Ret c"
    "\<And>env xs. list_all2 (stands_for Z val env) regs xs \<Longrightarrow> val env c = zv_bool ((snd (xs ! i) = 1) = expected)"
  proof (cases expected)
    case True
    with e(3) that [of e] show thesis by simp
  next
    case False
    from neg [unfolded z3_negation_def, rule_format, OF e(2)] obtain c where "z_not Z e = Ret c"
      "\<And>env b. val env e = zv_bool b \<Longrightarrow> val env c = zv_bool (\<not> b)" by blast
    with False e(3) that [of c] show thesis by simp
  qed
  let ?s = "s\<lparr>ts_solver := ts_solver s @ [c]\<rparr>"
  have d': "describes Z val (\<lambda>env. Option.bind (run env) (conc_instr env (ti_assume i expected))) (regs, ?s)"
    using describes_constrain [OF d i(1) c(2)] .
  have step: "term_instr Z (ti_assume i expected) (regs, s) =
      (if z_check Z (ts_solver ?s) = z_unsat then Cancel else Ret (regs, ?s))"
    using i(1) e(1) c(1) by (simp add: reg_at_def term_assume_def Let_def)
  show ?thesis
  proof (cases "z_check Z (ts_solver ?s) = z_unsat")
    case True
    then have "\<not> z_holds val env (ts_solver ?s)" for env using sound unfolding z3_sound_def by blast
    then have "Option.bind (run env) (conc_instr env (ti_assume i expected)) = None" for env
      using d' [unfolded describes_def, THEN spec, of env] by (auto split: option.splits)
    then show ?thesis using step True by (simp add: step_ok_def)
  next
    case False
    then show ?thesis using step d' by (simp add: step_ok_def)
  qed
qed

definition sorts_ok :: "z_sort list \<Rightarrow> bool" where
  "sorts_ok S \<longleftrightarrow> list_all (\<lambda>x. case x of zs_bool \<Rightarrow> True | zs_bv w \<Rightarrow> 0 < w \<and> w < 256 | zs_fpa a b \<Rightarrow> False) S"

lemma sorts_ok_nth: "sorts_ok S \<Longrightarrow> i < length S \<Longrightarrow> S ! i = zs_bv w \<Longrightarrow> 0 < w \<and> w < 256"
  by (auto simp: sorts_ok_def list_all_length dest: spec [of _ i])

lemma sorts_ok_snoc: "sorts_ok S \<Longrightarrow> x = zs_bool \<or> (\<exists>w. x = zs_bv w \<and> 0 < w \<and> w < 256) \<Longrightarrow> sorts_ok (S @ [x])"
  by (auto simp: sorts_ok_def)

lemma instr_sorts_ok: "instr_sorts S i S' \<Longrightarrow> sorts_ok S \<Longrightarrow> sorts_ok S'"
  by (induction rule: instr_sorts.induct) (fastforce intro: sorts_ok_snoc dest: sorts_ok_nth)+

lemma term_instr_ok:
  assumes "instr_sorts S i S'" "z3_ok Z val" "describes Z val run (regs, s)" "map (z_sort_of Z) regs = S" "sorts_ok S"
  shows "step_ok Z val (\<lambda>env. Option.bind (run env) (conc_instr env i)) S' (term_instr Z i (regs, s))"
  using assms(1,4,5)
proof (cases rule: instr_sorts.cases)
  case (const w n)
  with step_leaf(1) [OF assms(2,3)] assms(4) show ?thesis by simp
next
  case (input w)
  with step_leaf(2) [OF assms(2,3)] assms(4) show ?thesis by simp
next
  case (num t i j w)
  with sorts_ok_nth [OF assms(5) num(4,6)] step_num [OF assms(2,3) num(3)] assms(4) show ?thesis by auto
next
  case (cmp t i j w)
  with sorts_ok_nth [OF assms(5) cmp(4,6)] step_cmp [OF assms(2,3) cmp(3)] assms(4) show ?thesis by auto
next
  case (extend t i w b)
  with sorts_ok_nth [OF assms(5) extend(4,5)] step_resize(1) [OF assms(2,3)] assms(4) show ?thesis by auto
next
  case (trunc i w b)
  with sorts_ok_nth [OF assms(5) trunc(3,4)] step_resize(2) [OF assms(2,3)] assms(4) show ?thesis by auto
next
  case (assume_bool i c)
  with step_assume [OF assms(2,3)] assms(4) show ?thesis by auto
next
  case (assume_bit i c)
  with step_assume [OF assms(2,3)] assms(4) show ?thesis by auto
qed

lemma term_path_ok:
  assumes "path_sorts S is" "z3_ok Z val" "describes Z val run st" "map (z_sort_of Z) (fst st) = S" "sorts_ok S"
  shows "\<exists>S'. step_ok Z val (\<lambda>env. Option.bind (run env) (conc_path env is)) S' (term_path Z is st)"
  using assms(1,3-5)
proof (induction arbitrary: run st rule: path_sorts.induct)
  case (Nil S)
  have "Option.bind (run env) (conc_path env []) = run env" for env by (cases "run env") simp_all
  with Nil have "step_ok Z val (\<lambda>env. Option.bind (run env) (conc_path env [])) S (term_path Z [] st)"
    by (simp add: step_ok_def)
  then show ?case by blast
next
  case (Cons S i S' "is")
  obtain regs s where st: "st = (regs, s)" by (cases st)
  let ?run = "\<lambda>env. Option.bind (run env) (conc_instr env i)"
  have ok: "step_ok Z val ?run S' (term_instr Z i (regs, s))"
    using term_instr_ok [OF Cons(1) assms(2)] Cons.prems st by simp
  have assoc: "Option.bind (?run env) (conc_path env is) = Option.bind (run env) (conc_path env (i # is))" for env
    by (cases "run env") simp_all
  show ?case
  proof (cases "term_instr Z i (regs, s)")
    case (Ret st')
    with ok have "describes Z val ?run st'" "map (z_sort_of Z) (fst st') = S'" by (simp_all add: step_ok_def)
    from Cons.IH [OF this instr_sorts_ok [OF Cons(1) Cons.prems(3)]] show ?thesis
      using st Ret unfolding assoc by (simp del: conc_path.simps)
  next
    case Cancel
    then show ?thesis using ok st unfolding step_ok_def assoc [symmetric] by simp
  qed (use ok in \<open>simp_all add: step_ok_def\<close>)
qed

definition term_init :: "'e term_state" where
  "term_init = \<lparr>ts_solver = [], ts_vars = 0\<rparr>"

lemma describes_init: "describes Z val (\<lambda>env. Some ([], 0)) ([], term_init)"
  by (simp add: describes_def term_init_def z_holds_def)

text \<open>The names of the variables are different for different counters.\<close>

lemma var_name_inj: "inj var_name"
  by (rule injI) (metis nat_string_value same_append_eq var_name_def)

section \<open>A solver\<close>

text \<open>
  Expressions as functions of the variables, with a solver that never knows an answer: the promises
  of \<open>z3_ok\<close> can be kept.
\<close>

type_synonym fun_expr = "z_sort \<times> ((string \<Rightarrow> int) \<Rightarrow> z_value)"

definition fun_bin :: "z_fun \<Rightarrow> fun_expr \<Rightarrow> fun_expr \<Rightarrow> fun_expr outcome" where
  "fun_bin f a b =
    (case (fst a, fst b) of
       (zs_bv w, zs_bv w') \<Rightarrow>
         if w = w' then Ret (z_result_sort f w, \<lambda>env.
           case (snd a env, snd b env) of
             (zv_bv _ x, zv_bv _ y) \<Rightarrow> (case smt_bin (z_smt f) w x y of Some n \<Rightarrow> z_result f w n | None \<Rightarrow> zv_float)
           | _ \<Rightarrow> zv_float)
         else Fault ''z3''
     | _ \<Rightarrow> Fault ''z3'')"

definition fun_resize :: "(nat \<Rightarrow> int \<Rightarrow> int) \<Rightarrow> nat \<Rightarrow> fun_expr \<Rightarrow> fun_expr" where
  "fun_resize g b a =
    (zs_bv b, \<lambda>env. case snd a env of zv_bv w x \<Rightarrow> zv_bv b (g w x mod 2 ^ b) | _ \<Rightarrow> zv_float)"

definition fun_extend :: "(nat \<Rightarrow> int \<Rightarrow> int) \<Rightarrow> fun_expr \<Rightarrow> int \<Rightarrow> fun_expr outcome" where
  "fun_extend g a k =
    (case fst a of zs_bv w \<Rightarrow> if int w + k < 256 then Ret (fun_resize g (w + nat k) a) else Fault ''z3''
     | _ \<Rightarrow> Fault ''z3'')"

definition fun_z3 :: "fun_expr z3" where
  "fun_z3 =
    \<lparr>z_sort_of = fst,
     z_bv_val = (\<lambda>n w. (zs_bv w, \<lambda>_. zv_bv w (n mod 2 ^ w))),
     z_bv_const = (\<lambda>x w. (zs_bv w, \<lambda>env. zv_bv w (env x mod 2 ^ w))),
     z_fpa_const = (\<lambda>x e m. (zs_fpa e m, \<lambda>_. zv_float)),
     z_bin = fun_bin,
     z_not = (\<lambda>a. if fst a = zs_bool then Ret (zs_bool, \<lambda>env. case snd a env of zv_bool b \<Rightarrow> zv_bool (\<not> b) | v \<Rightarrow> v)
        else Fault ''z3''),
     z_sext = fun_extend to_signed, z_zext = fun_extend (\<lambda>w x. x),
     z_extract = (\<lambda>a to from. if from = 0 then Ret (fun_resize (\<lambda>w x. x) (nat (to + 1)) a) else Fault ''z3''),
     z_check = (\<lambda>es. z_unknown)\<rparr>"

definition fun_val :: "fun_expr z_val" where
  "fun_val env e = snd e env"

section \<open>Properties\<close>

text \<open>
  The result of a comparison cannot be widened: comparing two bit vectors makes a boolean term,
  and zero or sign extension of it asks the solver for the size of a bit vector, which ends the
  program with an error of the solver; the C expression that stores a comparison in an integer
  does exactly that.
\<close>

theorem term_widened_comparison_fails:
  assumes "z3_ok Z val" "t \<in> set expr_cmp_ops" "0 < w" "z_sort_of Z a = zs_bv w" "z_sort_of Z b = zs_bv w"
    and "c \<in> {tag_sext, tag_zext}"
  shows "obind (term_bin Z t a b) (\<lambda>e. term_cast Z c e n) = Fault ''z3''"
proof -
  obtain f where f: "map_of term_bin_funs t = Some f" "f \<noteq> z_concat" "z_predicate f" by (rule term_cmp_fun [OF assms(2)])
  obtain e where "z_bin Z f a b = Ret e" "z_sort_of Z e = z_result_sort f w"
    by (rule z_bin_sort [OF assms(1,4,5,3) f(2)])
  then show ?thesis
    using f assms(6) by (auto simp: term_bin_def term_cast_def z_bv_size_def z_result_sort_def)
qed

lemma fun_z3_ok: "z3_ok fun_z3 fun_val"
proof -
  have "z3_leaves fun_z3 fun_val" by (simp add: z3_leaves_def fun_z3_def fun_val_def)
  moreover have "z3_binary fun_z3 fun_val"
    unfolding z3_binary_def by (auto simp: fun_z3_def fun_val_def fun_bin_def)
  moreover have "z3_negation fun_z3 fun_val" by (simp add: z3_negation_def fun_z3_def fun_val_def)
  moreover have "z3_extend fun_z3 fun_val"
    unfolding z3_extend_def by (auto simp: fun_z3_def fun_val_def fun_extend_def fun_resize_def)
  moreover have "z3_truncate fun_z3 fun_val"
    unfolding z3_truncate_def by (auto simp: fun_z3_def fun_val_def fun_resize_def)
  moreover have "z3_sound fun_z3 fun_val" by (simp add: z3_sound_def fun_z3_def)
  ultimately show ?thesis by (simp add: z3_ok_def)
qed

lemma demo_path_sorts: "path_sorts [] [ti_input 8, ti_const 8 7, ti_bin tag_ult 0 1, ti_assume 2 True]"
proof (intro path_sorts.intros)
  show "instr_sorts [] (ti_input 8) ([] @ [zs_bv 8])" by (rule instr_sorts.input) simp_all
  show "instr_sorts ([] @ [zs_bv 8]) (ti_const 8 7) (([] @ [zs_bv 8]) @ [zs_bv 8])" by (rule instr_sorts.const) simp_all
  show "instr_sorts (([] @ [zs_bv 8]) @ [zs_bv 8]) (ti_bin tag_ult 0 1) ((([] @ [zs_bv 8]) @ [zs_bv 8]) @ [zs_bool])"
    by (rule instr_sorts.cmp [where w = 8]) (simp_all add: expr_cmp_ops_def)
  show "instr_sorts ((([] @ [zs_bv 8]) @ [zs_bv 8]) @ [zs_bool]) (ti_assume 2 True)
      ((([] @ [zs_bv 8]) @ [zs_bv 8]) @ [zs_bool])"
    by (rule instr_sorts.assume_bool) simp_all
qed



end
