(* ===== verification/Floats_Domain.thy ===== *)
theory Floats_Domain
  imports Domain_Base Complex_Main
begin

text \<open>
  The domain of floating point classes, \<open>lava/include/lava/floats.hpp\<close>: thirteen values, the
  tables of its operations over the seven elementary ones, and the operations as they are (the
  function that should combine the tables is disabled in the source and returns bottom). The
  tables are compared with the arithmetic and the comparisons of floating point numbers, as exact
  rational numbers with signed zeros, infinities and a not-a-number.
\<close>

section \<open>Values\<close>

datatype floats = neg_f | nzero_f | pzero_f | pos_f | ninf_f | pinf_f | nan_f
  | zero_f | nzero_neg_f | pzero_pos_f | finite_f | top_f | bottom_f

fun float_number :: "floats \<Rightarrow> nat" where
  "float_number neg_f = 0"
| "float_number nzero_f = 1"
| "float_number pzero_f = 2"
| "float_number pos_f = 3"
| "float_number ninf_f = 4"
| "float_number pinf_f = 5"
| "float_number nan_f = 6"
| "float_number zero_f = 7"
| "float_number nzero_neg_f = 8"
| "float_number pzero_pos_f = 9"
| "float_number finite_f = 10"
| "float_number top_f = 11"
| "float_number bottom_f = 12"

definition float_default :: floats where
  "float_default = top_f"

definition float_is_bottom :: "floats \<Rightarrow> bool" where
  "float_is_bottom v = (v = bottom_f)"

definition float_is_finite :: "floats \<Rightarrow> bool" where
  "float_is_finite v = (float_number v \<le> float_number finite_f)"

definition float_is_inf :: "floats \<Rightarrow> bool" where
  "float_is_inf v = (v = pinf_f \<or> v = ninf_f)"

fun float_str :: "floats \<Rightarrow> string" where
  "float_str neg_f = ''neg''"
| "float_str nzero_f = ''-zero''"
| "float_str pzero_f = ''+zero''"
| "float_str pos_f = ''pos''"
| "float_str ninf_f = ''-inf''"
| "float_str pinf_f = ''+inf''"
| "float_str nan_f = ''nan''"
| "float_str zero_f = ''zero''"
| "float_str nzero_neg_f = ''-zero & neg''"
| "float_str pzero_pos_f = ''+zero & pos''"
| "float_str finite_f = ''finite''"
| "float_str top_f = [CHR 0xE2, CHR 0x8A, CHR 0xA4]"
| "float_str bottom_f = [CHR 0xE2, CHR 0x8A, CHR 0xA5]"

section \<open>Making values\<close>

text \<open>What the C library says of a floating point number: its class and whether it is positive.\<close>

datatype fp_class = fp_infinite | fp_subnormal | fp_normal | fp_zero | fp_nan

definition float_lift_int :: "int \<Rightarrow> floats" where
  "float_lift_int v = (if v = 0 then zero_f else if v > 0 then pos_f else neg_f)"

fun float_lift_fp :: "fp_class \<Rightarrow> bool \<Rightarrow> floats outcome" where
  "float_lift_fp fp_infinite positive = Ret (if positive then pinf_f else ninf_f)"
| "float_lift_fp fp_subnormal positive = Ret (if positive then pos_f else neg_f)"
| "float_lift_fp fp_normal positive = Ret (if positive then pos_f else neg_f)"
| "float_lift_fp fp_zero positive = Ret zero_f"
| "float_lift_fp fp_nan positive = Fault ''unable to lift value''"

fun float_lift :: "c_value \<Rightarrow> fp_class \<times> bool \<Rightarrow> floats outcome" where
  "float_lift (c_bool b) c = Ret (float_lift_int (of_bool b))"
| "float_lift (c_int s w v) c = Ret (float_lift_int v)"
| "float_lift c_float c = float_lift_fp (fst c) (snd c)"
| "float_lift (c_array b n) c = Fault ''unable to lift value''"
| "float_lift (c_pointer p) c = Fault ''unable to lift value''"

definition float_any :: "floats outcome" where
  "float_any = Ret top_f"

definition float_any_variadic :: "floats outcome" where
  "float_any_variadic = Fault ''unsupported variadic any operation''"

definition float_any_range :: "int \<Rightarrow> int \<Rightarrow> floats outcome" where
  "float_any_range from to = Fault ''unsupported range any operation''"

section \<open>Branching\<close>

definition float_intersect :: "floats \<Rightarrow> floats \<Rightarrow> floats outcome" where
  "float_intersect v b =
    (let v' = (if v = finite_f \<and> float_number b \<le> float_number finite_f \<or> v = top_f then b
               else if v \<noteq> b \<and> b \<noteq> finite_f \<and> b \<noteq> top_f then bottom_f
               else v)
     in if float_is_bottom v' then Cancel else Ret v')"

definition float_assume :: "floats \<Rightarrow> bool \<Rightarrow> floats outcome" where
  "float_assume f constraint = float_intersect f (if constraint then pos_f else pzero_f)"

text \<open>The number of the value is read as the number of a truth value; only three numbers name one.\<close>

definition float_to_tristate :: "floats \<Rightarrow> tristate outcome" where
  "float_to_tristate f = tristate_of_byte (float_number f)"

section \<open>Tables\<close>

definition float_add_lut :: "floats list list" where
  "float_add_lut =
    [[neg_f, neg_f, neg_f, finite_f, ninf_f, pinf_f, nan_f],
     [neg_f, nzero_f, pzero_f, pos_f, ninf_f, pinf_f, nan_f],
     [neg_f, pzero_f, pzero_f, pos_f, ninf_f, pinf_f, nan_f],
     [finite_f, pos_f, pos_f, pos_f, ninf_f, pinf_f, nan_f],
     [ninf_f, ninf_f, ninf_f, ninf_f, ninf_f, nan_f, nan_f],
     [pinf_f, pinf_f, pinf_f, pinf_f, nan_f, pinf_f, nan_f],
     [nan_f, nan_f, nan_f, nan_f, nan_f, nan_f, nan_f]]"

definition float_sub_lut :: "floats list list" where
  "float_sub_lut =
    [[finite_f, neg_f, neg_f, neg_f, pinf_f, ninf_f, nan_f],
     [pos_f, pzero_f, nzero_f, neg_f, pinf_f, ninf_f, nan_f],
     [pos_f, pzero_f, pzero_f, neg_f, pinf_f, ninf_f, nan_f],
     [pos_f, pos_f, pos_f, finite_f, pinf_f, ninf_f, nan_f],
     [ninf_f, ninf_f, ninf_f, ninf_f, nan_f, ninf_f, nan_f],
     [pinf_f, pinf_f, pinf_f, pinf_f, pinf_f, nan_f, nan_f],
     [nan_f, nan_f, nan_f, nan_f, nan_f, nan_f, nan_f]]"

definition float_mul_lut :: "floats list list" where
  "float_mul_lut =
    [[pos_f, pzero_f, nzero_f, neg_f, pinf_f, ninf_f, nan_f],
     [pzero_f, pzero_f, nzero_f, nzero_f, nan_f, nan_f, nan_f],
     [nzero_f, nzero_f, pzero_f, pzero_f, nan_f, nan_f, nan_f],
     [neg_f, nzero_f, pzero_f, pos_f, ninf_f, pinf_f, nan_f],
     [pinf_f, nan_f, nan_f, ninf_f, pinf_f, ninf_f, nan_f],
     [ninf_f, nan_f, nan_f, pinf_f, ninf_f, pinf_f, nan_f],
     [nan_f, nan_f, nan_f, nan_f, nan_f, nan_f, nan_f]]"

definition float_div_lut :: "floats list list" where
  "float_div_lut =
    [[pos_f, pinf_f, ninf_f, neg_f, pzero_f, nzero_f, nan_f],
     [pzero_f, nan_f, nan_f, nzero_f, pzero_f, nzero_f, nan_f],
     [nzero_f, nan_f, nan_f, pzero_f, nzero_f, pzero_f, nan_f],
     [neg_f, ninf_f, pinf_f, pos_f, nzero_f, pzero_f, nan_f],
     [pinf_f, pinf_f, ninf_f, ninf_f, nan_f, nan_f, nan_f],
     [ninf_f, ninf_f, pinf_f, pinf_f, nan_f, nan_f, nan_f],
     [nan_f, nan_f, nan_f, nan_f, nan_f, nan_f, nan_f]]"

definition float_rem_lut :: "floats list list" where
  "float_rem_lut =
    [[finite_f, nan_f, nan_f, finite_f, neg_f, neg_f, nan_f],
     [nzero_f, nan_f, nan_f, nzero_f, nzero_f, nzero_f, nan_f],
     [pzero_f, nan_f, nan_f, pzero_f, pzero_f, pzero_f, nan_f],
     [finite_f, nan_f, nan_f, finite_f, pos_f, pos_f, nan_f],
     [nan_f, nan_f, nan_f, nan_f, nan_f, nan_f, nan_f],
     [nan_f, nan_f, nan_f, nan_f, nan_f, nan_f, nan_f],
     [nan_f, nan_f, nan_f, nan_f, nan_f, nan_f, nan_f]]"

definition float_foeq_lut :: "floats list list" where
  "float_foeq_lut =
    [[finite_f, pzero_f, pzero_f, pzero_f, pzero_f, pzero_f, pzero_f],
     [pzero_f, pos_f, pos_f, pzero_f, pzero_f, pzero_f, pzero_f],
     [pzero_f, pos_f, pos_f, pzero_f, pzero_f, pzero_f, pzero_f],
     [pzero_f, pzero_f, pzero_f, finite_f, pzero_f, pzero_f, pzero_f],
     [pzero_f, pzero_f, pzero_f, pzero_f, pos_f, pzero_f, pzero_f],
     [pzero_f, pzero_f, pzero_f, pzero_f, pzero_f, pos_f, pzero_f],
     [pzero_f, pzero_f, pzero_f, pzero_f, pzero_f, pzero_f, pzero_f]]"

definition float_fone_lut :: "floats list list" where
  "float_fone_lut =
    [[finite_f, pos_f, pos_f, pos_f, pos_f, pos_f, pos_f],
     [pos_f, pzero_f, pzero_f, pos_f, pos_f, pos_f, pos_f],
     [pos_f, pzero_f, pzero_f, pos_f, pos_f, pos_f, pos_f],
     [pos_f, pos_f, pos_f, finite_f, pos_f, pos_f, pos_f],
     [pos_f, pos_f, pos_f, pos_f, pzero_f, pos_f, pos_f],
     [pos_f, pos_f, pos_f, pos_f, pos_f, pzero_f, pos_f],
     [pos_f, pos_f, pos_f, pos_f, pos_f, pos_f, pos_f]]"

definition float_fogt_lut :: "floats list list" where
  "float_fogt_lut =
    [[finite_f, pzero_f, pzero_f, pzero_f, pos_f, pzero_f, pzero_f],
     [pos_f, pzero_f, pzero_f, pzero_f, pos_f, pzero_f, pzero_f],
     [pos_f, pzero_f, pzero_f, pzero_f, pos_f, pzero_f, pzero_f],
     [pos_f, pos_f, pos_f, finite_f, pos_f, pzero_f, pzero_f],
     [pzero_f, pzero_f, pzero_f, pzero_f, pzero_f, pzero_f, pzero_f],
     [pos_f, pos_f, pos_f, pos_f, pos_f, pzero_f, pzero_f],
     [pzero_f, pzero_f, pzero_f, pzero_f, pzero_f, pzero_f, pzero_f]]"

definition float_foge_lut :: "floats list list" where
  "float_foge_lut =
    [[finite_f, pzero_f, pzero_f, pzero_f, pos_f, pzero_f, pzero_f],
     [pos_f, pos_f, pos_f, pzero_f, pos_f, pzero_f, pzero_f],
     [pos_f, pos_f, pos_f, pzero_f, pos_f, pzero_f, pzero_f],
     [pos_f, pos_f, pos_f, finite_f, pos_f, pzero_f, pzero_f],
     [pzero_f, pzero_f, pzero_f, pzero_f, pos_f, pzero_f, pzero_f],
     [pos_f, pos_f, pos_f, pos_f, pos_f, pos_f, pzero_f],
     [pzero_f, pzero_f, pzero_f, pzero_f, pzero_f, pzero_f, pzero_f]]"

definition float_folt_lut :: "floats list list" where
  "float_folt_lut =
    [[finite_f, pos_f, pos_f, pos_f, pzero_f, pos_f, pzero_f],
     [pzero_f, pzero_f, pzero_f, pos_f, pzero_f, pos_f, pzero_f],
     [pzero_f, pzero_f, pzero_f, pos_f, pzero_f, pos_f, pzero_f],
     [pzero_f, pzero_f, pzero_f, finite_f, pzero_f, pos_f, pzero_f],
     [pos_f, pos_f, pos_f, pos_f, pzero_f, pos_f, pzero_f],
     [pzero_f, pzero_f, pzero_f, pzero_f, pzero_f, pzero_f, pzero_f],
     [pzero_f, pzero_f, pzero_f, pzero_f, pzero_f, pzero_f, pzero_f]]"

definition float_fole_lut :: "floats list list" where
  "float_fole_lut =
    [[finite_f, pos_f, pos_f, pos_f, pzero_f, pos_f, pzero_f],
     [pzero_f, pos_f, pos_f, pos_f, pzero_f, pos_f, pzero_f],
     [pzero_f, pos_f, pos_f, pos_f, pzero_f, pos_f, pzero_f],
     [pzero_f, pzero_f, pzero_f, finite_f, pzero_f, pos_f, pzero_f],
     [pos_f, pos_f, pos_f, pos_f, pos_f, pos_f, pzero_f],
     [pzero_f, pzero_f, pzero_f, pzero_f, pzero_f, pos_f, pzero_f],
     [pzero_f, pzero_f, pzero_f, pzero_f, pzero_f, pzero_f, pzero_f]]"

text \<open>\<open>eval\<close> ignores its arguments: the loop over the elementary values is commented out.\<close>

definition float_eval :: "floats list list \<Rightarrow> floats \<Rightarrow> floats \<Rightarrow> floats" where
  "float_eval lut a b = bottom_f"

definition float_luts :: "(op_tag \<times> floats list list) list" where
  "float_luts =
    [(tag_fadd, float_add_lut), (tag_fsub, float_sub_lut), (tag_fmul, float_mul_lut),
     (tag_fdiv, float_div_lut), (tag_frem, float_rem_lut), (tag_foeq, float_foeq_lut),
     (tag_fone, float_fone_lut), (tag_fogt, float_fogt_lut), (tag_foge, float_foge_lut),
     (tag_folt, float_folt_lut), (tag_fole, float_fole_lut)]"

definition float_bin :: "op_tag \<Rightarrow> floats \<Rightarrow> floats \<Rightarrow> floats outcome" where
  "float_bin t a b =
    (case map_of float_luts t of Some lut \<Rightarrow> Ret (float_eval lut a b) | None \<Rightarrow> mixin_bin t a b)"

definition float_domain :: "(c_value \<Rightarrow> fp_class \<times> bool) \<Rightarrow> floats domain" where
  "float_domain classify =
    \<lparr>dom_lift = (\<lambda>v. float_lift v (classify v)), dom_any = float_any,
     dom_any_range = float_any_range, dom_assume = float_assume,
     dom_to_tristate = float_to_tristate, dom_bin = float_bin, dom_cast = mixin_cast,
     dom_bop = mixin_bop, dom_bun = mixin_bun\<rparr>"

section \<open>Floating point numbers\<close>

text \<open>A number is not a number, or infinite, zero (negative or not), or a nonzero rational.\<close>

datatype fval = nan_v | inf_v bool | zero_v bool | num_v rat

fun fval_ok :: "fval \<Rightarrow> bool" where
  "fval_ok (num_v q) = (q \<noteq> 0)"
| "fval_ok v = True"

fun fval_class :: "fval \<Rightarrow> floats" where
  "fval_class nan_v = nan_f"
| "fval_class (inf_v neg) = (if neg then ninf_f else pinf_f)"
| "fval_class (zero_v neg) = (if neg then nzero_f else pzero_f)"
| "fval_class (num_v q) = (if q < 0 then neg_f else pos_f)"

fun float_gamma :: "floats \<Rightarrow> fval set" where
  "float_gamma zero_f = range zero_v"
| "float_gamma nzero_neg_f = {v. fval_class v \<in> {nzero_f, neg_f}}"
| "float_gamma pzero_pos_f = {v. fval_class v \<in> {pzero_f, pos_f}}"
| "float_gamma finite_f = {v. fval_class v \<in> {neg_f, nzero_f, pzero_f, pos_f}}"
| "float_gamma top_f = UNIV"
| "float_gamma bottom_f = {}"
| "float_gamma c = {v. fval_class v = c}"

fun num_or_zero :: "bool \<Rightarrow> rat \<Rightarrow> fval" where
  "num_or_zero neg q = (if q = 0 then zero_v neg else num_v q)"

fun fval_add :: "fval \<Rightarrow> fval \<Rightarrow> fval" where
  "fval_add nan_v y = nan_v"
| "fval_add x nan_v = nan_v"
| "fval_add (inf_v m) (inf_v n) = (if m = n then inf_v m else nan_v)"
| "fval_add (inf_v m) y = inf_v m"
| "fval_add x (inf_v n) = inf_v n"
| "fval_add (zero_v m) (zero_v n) = zero_v (m \<and> n)"
| "fval_add (zero_v m) (num_v q) = num_v q"
| "fval_add (num_v p) (zero_v n) = num_v p"
| "fval_add (num_v p) (num_v q) = num_or_zero False (p + q)"

fun fval_minus :: "fval \<Rightarrow> fval" where
  "fval_minus nan_v = nan_v"
| "fval_minus (inf_v m) = inf_v (\<not> m)"
| "fval_minus (zero_v m) = zero_v (\<not> m)"
| "fval_minus (num_v q) = num_v (- q)"

fun fval_negative :: "fval \<Rightarrow> bool" where
  "fval_negative nan_v = False"
| "fval_negative (inf_v m) = m"
| "fval_negative (zero_v m) = m"
| "fval_negative (num_v q) = (q < 0)"

fun fval_mul :: "fval \<Rightarrow> fval \<Rightarrow> fval" where
  "fval_mul nan_v y = nan_v"
| "fval_mul x nan_v = nan_v"
| "fval_mul (inf_v m) (zero_v n) = nan_v"
| "fval_mul (zero_v m) (inf_v n) = nan_v"
| "fval_mul (num_v p) (num_v q) = num_v (p * q)"
| "fval_mul (inf_v m) y = inf_v (m \<noteq> fval_negative y)"
| "fval_mul x (inf_v n) = inf_v (fval_negative x \<noteq> n)"
| "fval_mul x y = zero_v (fval_negative x \<noteq> fval_negative y)"

fun fval_div :: "fval \<Rightarrow> fval \<Rightarrow> fval" where
  "fval_div nan_v y = nan_v"
| "fval_div x nan_v = nan_v"
| "fval_div (inf_v m) (inf_v n) = nan_v"
| "fval_div (inf_v m) y = inf_v (m \<noteq> fval_negative y)"
| "fval_div x (inf_v n) = zero_v (fval_negative x \<noteq> n)"
| "fval_div (zero_v m) (zero_v n) = nan_v"
| "fval_div (zero_v m) y = zero_v (m \<noteq> fval_negative y)"
| "fval_div x (zero_v n) = inf_v (fval_negative x \<noteq> n)"
| "fval_div (num_v p) (num_v q) = num_v (p / q)"

text \<open>The remainder has the sign of the dividend, as in C: the quotient is cut towards zero.\<close>

definition rat_rem :: "rat \<Rightarrow> rat \<Rightarrow> rat" where
  "rat_rem p q = p - q * (if p / q < 0 then - of_int \<lfloor>- (p / q)\<rfloor> else of_int \<lfloor>p / q\<rfloor>)"

fun fval_rem :: "fval \<Rightarrow> fval \<Rightarrow> fval" where
  "fval_rem nan_v y = nan_v"
| "fval_rem x nan_v = nan_v"
| "fval_rem (inf_v m) y = nan_v"
| "fval_rem x (zero_v n) = nan_v"
| "fval_rem x (inf_v n) = x"
| "fval_rem (zero_v m) (num_v q) = zero_v m"
| "fval_rem (num_v p) (num_v q) = num_or_zero (p < 0) (rat_rem p q)"

fun fval_less :: "fval \<Rightarrow> fval \<Rightarrow> bool" where
  "fval_less nan_v y = False"
| "fval_less x nan_v = False"
| "fval_less (inf_v m) (inf_v n) = (m \<and> \<not> n)"
| "fval_less (inf_v m) y = m"
| "fval_less x (inf_v n) = (\<not> n)"
| "fval_less (zero_v m) (zero_v n) = False"
| "fval_less (zero_v m) (num_v q) = (0 < q)"
| "fval_less (num_v p) (zero_v n) = (p < 0)"
| "fval_less (num_v p) (num_v q) = (p < q)"

fun fval_equal :: "fval \<Rightarrow> fval \<Rightarrow> bool" where
  "fval_equal (inf_v m) (inf_v n) = (m = n)"
| "fval_equal (zero_v m) (zero_v n) = True"
| "fval_equal (num_v p) (num_v q) = (p = q)"
| "fval_equal x y = False"

definition fval_compare :: "op_tag \<Rightarrow> fval \<Rightarrow> fval \<Rightarrow> bool option" where
  "fval_compare t x y =
    (if t = tag_foeq then Some (fval_equal x y)
     else if t = tag_fone then Some (x \<noteq> nan_v \<and> y \<noteq> nan_v \<and> \<not> fval_equal x y)
     else if t = tag_fogt then Some (fval_less y x)
     else if t = tag_foge then Some (fval_less y x \<or> fval_equal x y)
     else if t = tag_folt then Some (fval_less x y)
     else if t = tag_fole then Some (fval_less x y \<or> fval_equal x y)
     else None)"

definition fval_arith :: "op_tag \<Rightarrow> fval \<Rightarrow> fval \<Rightarrow> fval option" where
  "fval_arith t x y =
    (if t = tag_fadd then Some (fval_add x y) else if t = tag_fsub then Some (fval_add x (fval_minus y))
     else if t = tag_fmul then Some (fval_mul x y) else if t = tag_fdiv then Some (fval_div x y)
     else if t = tag_frem then Some (fval_rem x y) else None)"

text \<open>A truth value is stored as positive, as a positive zero, or as an unknown finite number.\<close>

fun float_truths :: "floats \<Rightarrow> bool set" where
  "float_truths pos_f = {True}"
| "float_truths pzero_f = {False}"
| "float_truths finite_f = UNIV"
| "float_truths c = {}"

definition float_entry :: "floats list list \<Rightarrow> fval \<Rightarrow> fval \<Rightarrow> floats outcome" where
  "float_entry lut x y = table lut (float_number (fval_class x)) (float_number (fval_class y))"

lemmas float_lut_defs =
  float_add_lut_def float_sub_lut_def float_mul_lut_def float_div_lut_def float_rem_lut_def
  float_foeq_lut_def float_fone_lut_def float_fogt_lut_def float_foge_lut_def float_folt_lut_def
  float_fole_lut_def

lemma fval_cases:
  obtains "x = nan_v" | "x = inf_v True" | "x = inf_v False" | "x = zero_v True" | "x = zero_v False"
  | q where "x = num_v q" "q < 0" | q where "x = num_v q" "0 < q" | "x = num_v 0"
  by (cases x) (metis (full_types) linorder_neqE)+

lemma nth7 [simp]:
  "[a, b, c, d, e, f, g] ! 0 = a" "[a, b, c, d, e, f, g] ! 1 = b" "[a, b, c, d, e, f, g] ! 2 = c"
  "[a, b, c, d, e, f, g] ! 3 = d" "[a, b, c, d, e, f, g] ! 4 = e" "[a, b, c, d, e, f, g] ! 5 = f"
  "[a, b, c, d, e, f, g] ! 6 = g"
  by (simp_all add: eval_nat_numeral)

lemma float_entry_foeq:
  "fval_ok x \<Longrightarrow> fval_ok y \<Longrightarrow> 
    osound (float_entry float_foeq_lut x y) (\<lambda>r. (fval_equal x y) \<in> float_truths r)"
  by (cases x rule: fval_cases; cases y rule: fval_cases;
      simp add: float_entry_def table_def float_foeq_lut_def)

lemma float_entry_fogt:
  "fval_ok x \<Longrightarrow> fval_ok y \<Longrightarrow> 
    osound (float_entry float_fogt_lut x y) (\<lambda>r. (fval_less y x) \<in> float_truths r)"
  by (cases x rule: fval_cases; cases y rule: fval_cases;
      simp add: float_entry_def table_def float_fogt_lut_def)

lemma float_entry_foge:
  "fval_ok x \<Longrightarrow> fval_ok y \<Longrightarrow> 
    osound (float_entry float_foge_lut x y) (\<lambda>r. (fval_less y x \<or> fval_equal x y) \<in> float_truths r)"
  by (cases x rule: fval_cases; cases y rule: fval_cases;
      simp add: float_entry_def table_def float_foge_lut_def)

lemma float_entry_folt:
  "fval_ok x \<Longrightarrow> fval_ok y \<Longrightarrow> 
    osound (float_entry float_folt_lut x y) (\<lambda>r. (fval_less x y) \<in> float_truths r)"
  by (cases x rule: fval_cases; cases y rule: fval_cases;
      simp add: float_entry_def table_def float_folt_lut_def)

lemma float_entry_fole:
  "fval_ok x \<Longrightarrow> fval_ok y \<Longrightarrow> 
    osound (float_entry float_fole_lut x y) (\<lambda>r. (fval_less x y \<or> fval_equal x y) \<in> float_truths r)"
  by (cases x rule: fval_cases; cases y rule: fval_cases;
      simp add: float_entry_def table_def float_fole_lut_def)

lemma float_entry_fone:
  "fval_ok x \<Longrightarrow> fval_ok y \<Longrightarrow> x \<noteq> nan_v \<Longrightarrow> y \<noteq> nan_v \<Longrightarrow> 
    osound (float_entry float_fone_lut x y) (\<lambda>r. (\<not> fval_equal x y) \<in> float_truths r)"
  by (cases x rule: fval_cases; cases y rule: fval_cases;
      simp add: float_entry_def table_def float_fone_lut_def)

lemma float_entry_fone_nan:
  "fval_ok x \<Longrightarrow> fval_ok y \<Longrightarrow> x = nan_v \<or> y = nan_v \<Longrightarrow> float_entry float_fone_lut x y = Ret pos_f"
  by (cases x rule: fval_cases; cases y rule: fval_cases;
      simp add: float_entry_def table_def float_fone_lut_def)

lemma float_entry_add:
  "fval_ok x \<Longrightarrow> fval_ok y \<Longrightarrow>
    osound (float_entry float_add_lut x y) (\<lambda>r. fval_add x y \<in> float_gamma r)"
  by (cases x rule: fval_cases; cases y rule: fval_cases;
      auto simp: float_entry_def table_def float_add_lut_def)

lemma float_entry_sub:
  "fval_ok x \<Longrightarrow> fval_ok y \<Longrightarrow>
    osound (float_entry float_sub_lut x y) (\<lambda>r. fval_add x (fval_minus y) \<in> float_gamma r)"
  by (cases x rule: fval_cases; cases y rule: fval_cases;
      auto simp: float_entry_def table_def float_sub_lut_def)

lemma float_entry_mul:
  "fval_ok x \<Longrightarrow> fval_ok y \<Longrightarrow>
    osound (float_entry float_mul_lut x y) (\<lambda>r. fval_mul x y \<in> float_gamma r)"
  by (cases x rule: fval_cases; cases y rule: fval_cases;
      auto simp: float_entry_def table_def float_mul_lut_def mult_less_0_iff)

lemma float_entry_div:
  "fval_ok x \<Longrightarrow> fval_ok y \<Longrightarrow>
    osound (float_entry float_div_lut x y) (\<lambda>r. fval_div x y \<in> float_gamma r)"
  by (cases x rule: fval_cases; cases y rule: fval_cases;
      auto simp: float_entry_def table_def float_div_lut_def divide_less_0_iff)

lemma float_entry_rem:
  "fval_ok x \<Longrightarrow> fval_ok y \<Longrightarrow>
    osound (float_entry float_rem_lut x y) (\<lambda>r. fval_rem x y \<in> float_gamma r)"
  by (cases x rule: fval_cases; cases y rule: fval_cases;
      auto simp: float_entry_def table_def float_rem_lut_def )

lemma table_returns: "osound (table lut i j) P \<Longrightarrow> \<exists>r. table lut i j = Ret r \<and> P r"
  by (simp add: table_def split: if_splits)

lemma float_arith_entry:
  assumes "(t, lut) \<in> set float_luts" "fval_ok x" "fval_ok y" "fval_arith t x y = Some z"
  shows "osound (float_entry lut x y) (\<lambda>r. z \<in> float_gamma r)"
  using assms float_entry_add float_entry_sub float_entry_mul float_entry_div float_entry_rem
  by (auto simp: float_luts_def fval_arith_def)

lemma float_compare_entry:
  assumes "(t, lut) \<in> set float_luts" "fval_ok x" "fval_ok y" "fval_compare t x y = Some c"
  shows "osound (float_entry lut x y)
    (\<lambda>r. (c \<in> float_truths r) = (t = tag_fone \<longrightarrow> x \<noteq> nan_v \<and> y \<noteq> nan_v))"
proof (cases "t = tag_fone")
  case True
  then show ?thesis
    using assms float_entry_fone [of x y] float_entry_fone_nan [of x y]
    by (cases "x = nan_v \<or> y = nan_v") (auto simp: float_luts_def fval_compare_def)
next
  case False
  then show ?thesis
    using assms(1,4) float_entry_foeq [OF assms(2,3)] float_entry_fogt [OF assms(2,3)]
      float_entry_foge [OF assms(2,3)] float_entry_folt [OF assms(2,3)] float_entry_fole [OF assms(2,3)]
    by (simp add: float_luts_def) (elim disjE conjE; simp add: fval_compare_def)
qed

section \<open>Properties\<close>

text \<open>
  Branching in the floating point domain prunes real paths: every operation of the domain yields
  bottom, whatever its operands, so assuming its result is cancelled on both edges of a branch;
  and a lifted integer that is not positive is cancelled on the edge that the program takes.
\<close>

theorem float_branches_lost:
  assumes "t \<in> fst ` set float_luts" "v \<le> 0"
  shows "obind (float_bin t a b) (\<lambda>r. float_assume r c) = Cancel \<and>
    obind (float_lift (c_int sgnd w v) cl) (\<lambda>r. float_assume r (v \<noteq> 0)) = Cancel"
proof
  obtain lut where "map_of float_luts t = Some lut"
    using assms(1) map_of_eq_None_iff [of float_luts t] by (cases "map_of float_luts t") auto
  then show "obind (float_bin t a b) (\<lambda>r. float_assume r c) = Cancel"
    by (simp add: float_bin_def float_eval_def float_assume_def float_intersect_def
        float_is_bottom_def)
  show "obind (float_lift (c_int sgnd w v) cl) (\<lambda>r. float_assume r (v \<noteq> 0)) = Cancel"
    using assms(2)
    by (simp add: float_lift_int_def float_assume_def float_intersect_def float_is_bottom_def)
qed



end
