(* ===== verification/Tracing.thy ===== *)
theory Tracing
  imports Trivial_Domains Zero_Domain Sign_Domain Constant_Domain Interval_Domain
begin

text \<open>
  The tracing domains of \<open>lamp/support/tracing.hpp\<close>: a domain wrapped so that every operation
  writes a line to a stream after it has returned, as plain text (\<open>simple_stream\<close>) or as an object
  of JSON (\<open>json_stream\<close>), and the file stream of \<open>runtime/stream.hpp\<close> that the lines go to. A
  text is a list of bytes; the characters beyond ASCII are the bytes of their UTF-8 encoding.
\<close>

section \<open>Printed values\<close>

abbreviation utf8_bot :: string where
  "utf8_bot \<equiv> [CHR 0xE2, CHR 0x8A, CHR 0xA5]"

abbreviation utf8_top :: string where
  "utf8_top \<equiv> [CHR 0xE2, CHR 0x8A, CHR 0xA4]"

abbreviation utf8_infinity :: string where
  "utf8_infinity \<equiv> [CHR 0xE2, CHR 0x88, CHR 0x9E]"

abbreviation utf8_cup :: string where
  "utf8_cup \<equiv> [CHR 0xE2, CHR 0x88, CHR 0xAA]"

abbreviation utf8_arrow :: string where
  "utf8_arrow \<equiv> [CHR 0xE2, CHR 0x9E, CHR 0x9E]"

definition unit_text :: "unit \<Rightarrow> string" where
  "unit_text u = ''unit''"

fun zero_text :: "zero \<Rightarrow> string" where
  "zero_text zero_z = ''Z''"
| "zero_text nonzero_z = ''N''"
| "zero_text unknown_z = ''U''"
| "zero_text bottom_z = utf8_bot"

fun sign_text :: "sign \<Rightarrow> string" where
  "sign_text bot_s = utf8_bot"
| "sign_text ltz_s = ''[-'' @ utf8_infinity @ '',0)''"
| "sign_text gtz_s = ''(0, +'' @ utf8_infinity @ '']''"
| "sign_text eqz_s = ''[0, 0]''"
| "sign_text nez_s = ''[-'' @ utf8_infinity @ '',0) '' @ utf8_cup @ '' (0, +'' @ utf8_infinity @ '']''"
| "sign_text gez_s = ''[0, +'' @ utf8_infinity @ '']''"
| "sign_text lez_s = ''[-'' @ utf8_infinity @ '',0]''"
| "sign_text top_s = utf8_top"

definition constant_text :: "constant_data \<Rightarrow> string" where
  "constant_text c = nat_string (unat (con_value c))"

text \<open>Both infinities are printed with a minus.\<close>

definition bound_text :: "bound \<Rightarrow> string" where
  "bound_text b =
    (if b = bmin then CHR ''-'' # utf8_infinity
     else if b = bmax then CHR ''-'' # utf8_infinity
     else if b < 0 then CHR ''-'' # nat_string (nat (- b)) else nat_string (nat b))"

definition interval_text :: "ival \<Rightarrow> string" where
  "interval_text i = ''['' @ bound_text (low i) @ '', '' @ bound_text (high i) @ '']''"

section \<open>The file stream\<close>

text \<open>A file is the text written to it so far; file 0 is the standard error output.\<close>

type_synonym files = "nat \<Rightarrow> string"

definition stderr_file :: nat where
  "stderr_file = 0"

definition stream_write :: "nat \<Rightarrow> string \<Rightarrow> files \<Rightarrow> files" where
  "stream_write f str fs = fs(f := fs f @ str)"

definition stream_number :: "nat \<Rightarrow> int \<Rightarrow> files \<Rightarrow> files" where
  "stream_number f n = stream_write f (if n < 0 then CHR ''-'' # nat_string (nat (- n)) else nat_string (nat n))"

definition configured_stream :: "nat option \<Rightarrow> nat" where
  "configured_stream tf = (case tf of Some f \<Rightarrow> f | None \<Rightarrow> stderr_file)"

section \<open>Traced operations\<close>

datatype 'v event =
    traced_result string 'v
  | traced_cast string 'v 'v nat
  | traced_unary string 'v 'v
  | traced_binary string 'v 'v 'v
  | traced_assume 'v bool

text \<open>
  A traced operation is a state transformer of the files; what the operation itself does comes
  first. An operation that does not return (it leaves the path, traps, or is undefined) has
  printed nothing. The printer of the events is the template parameter \<open>stream\<close>.
\<close>

type_synonym 'a traced = "files \<Rightarrow> 'a outcome \<times> files"

definition untraced :: "'a outcome \<Rightarrow> 'a traced" where
  "untraced m fs = (m, fs)"

definition tbind :: "'a traced \<Rightarrow> ('a \<Rightarrow> 'b traced) \<Rightarrow> 'b traced" where
  "tbind m k fs =
    (case m fs of (Ret x, fs') \<Rightarrow> k x fs' | (Cancel, fs') \<Rightarrow> (Cancel, fs')
     | (Fault msg, fs') \<Rightarrow> (Fault msg, fs') | (Undef, fs') \<Rightarrow> (Undef, fs'))"

definition emit :: "('v event \<Rightarrow> string) \<Rightarrow> nat \<Rightarrow> 'v event \<Rightarrow> unit traced" where
  "emit out f ev fs = (Ret (), stream_write f [CHR 0x0A] (stream_write f (out ev) fs))"

definition trace_result :: "('v event \<Rightarrow> string) \<Rightarrow> nat \<Rightarrow> string \<Rightarrow> 'v outcome \<Rightarrow> 'v traced" where
  "trace_result out f fn operation =
    tbind (untraced operation) (\<lambda>res. tbind (emit out f (traced_result fn res)) (\<lambda>_. untraced (Ret res)))"

definition trace_unary ::
  "('v event \<Rightarrow> string) \<Rightarrow> nat \<Rightarrow> string \<Rightarrow> ('v \<Rightarrow> 'v outcome) \<Rightarrow> 'v \<Rightarrow> 'v traced" where
  "trace_unary out f fn operation a =
    tbind (untraced (operation a))
      (\<lambda>res. tbind (emit out f (traced_unary fn res a)) (\<lambda>_. untraced (Ret res)))"

definition trace_binary ::
  "('v event \<Rightarrow> string) \<Rightarrow> nat \<Rightarrow> string \<Rightarrow> ('v \<Rightarrow> 'v \<Rightarrow> 'v outcome) \<Rightarrow> 'v \<Rightarrow> 'v \<Rightarrow> 'v traced" where
  "trace_binary out f fn operation a b =
    tbind (untraced (operation a b))
      (\<lambda>res. tbind (emit out f (traced_binary fn res a b)) (\<lambda>_. untraced (Ret res)))"

definition trace_cast ::
  "('v event \<Rightarrow> string) \<Rightarrow> nat \<Rightarrow> string \<Rightarrow> ('v \<Rightarrow> nat \<Rightarrow> 'v outcome) \<Rightarrow> 'v \<Rightarrow> nat \<Rightarrow> 'v traced" where
  "trace_cast out f fn operation a bw =
    tbind (untraced (operation a bw))
      (\<lambda>res. tbind (emit out f (traced_cast fn res a bw)) (\<lambda>_. untraced (Ret res)))"

text \<open>An assumption refines its argument in place; the line shows the refined value.\<close>

definition trace_assume ::
  "('v event \<Rightarrow> string) \<Rightarrow> nat \<Rightarrow> ('v \<Rightarrow> bool \<Rightarrow> 'v outcome) \<Rightarrow> 'v \<Rightarrow> bool \<Rightarrow> 'v traced" where
  "trace_assume out f operation a expected =
    tbind (untraced (operation a expected))
      (\<lambda>a'. tbind (emit out f (traced_assume a' expected)) (\<lambda>_. untraced (Ret a')))"

section \<open>The tracing domain\<close>

text \<open>The operations that are wrapped; those that are not are inherited from the domain.\<close>

definition traced_bin_tags :: "op_tag list" where
  "traced_bin_tags =
    [tag_add, tag_fadd, tag_sub, tag_fsub, tag_mul, tag_fmul, tag_udiv, tag_sdiv, tag_fdiv,
     tag_urem, tag_srem, tag_frem, tag_shl, tag_lshr, tag_ashr, tag_op_and, tag_op_or, tag_op_xor,
     tag_foeq, tag_fogt, tag_foge, tag_folt, tag_fole, tag_fone, tag_ford, tag_funo, tag_fueq,
     tag_fugt, tag_fuge, tag_fult, tag_fule, tag_fune, tag_eq, tag_ne, tag_ugt, tag_uge, tag_ult,
     tag_ule, tag_sgt, tag_sge, tag_slt, tag_sle, tag_ffalse, tag_ftrue]"

definition traced_cast_tags :: "op_tag list" where
  "traced_cast_tags =
    [tag_fpext, tag_fptosi, tag_fptoui, tag_fptrunc, tag_inttoptr, tag_ptrtoint, tag_sext,
     tag_sitofp, tag_trunc, tag_uitofp, tag_zext, tag_zfit]"

definition method_name :: "op_tag \<Rightarrow> string" where
  "method_name t = ''op_'' @ mixin_name t"

definition tracing_any :: "('v event \<Rightarrow> string) \<Rightarrow> nat \<Rightarrow> 'v domain \<Rightarrow> 'v traced" where
  "tracing_any out f D = trace_result out f ''any'' (dom_any D)"

definition tracing_any_range ::
  "('v event \<Rightarrow> string) \<Rightarrow> nat \<Rightarrow> 'v domain \<Rightarrow> int \<Rightarrow> int \<Rightarrow> 'v traced" where
  "tracing_any_range out f D from to = trace_result out f ''any< range >'' (dom_any_range D from to)"

definition tracing_any_variadic :: "('v event \<Rightarrow> string) \<Rightarrow> nat \<Rightarrow> 'v outcome \<Rightarrow> 'v traced" where
  "tracing_any_variadic out f any_of_args = trace_result out f ''any< range >'' any_of_args"

definition tracing_bin ::
  "('v event \<Rightarrow> string) \<Rightarrow> nat \<Rightarrow> 'v domain \<Rightarrow> op_tag \<Rightarrow> 'v \<Rightarrow> 'v \<Rightarrow> 'v traced" where
  "tracing_bin out f D t a b =
    (if t \<in> set traced_bin_tags then trace_binary out f (method_name t) (dom_bin D t) a b
     else untraced (dom_bin D t a b))"

definition tracing_cast ::
  "('v event \<Rightarrow> string) \<Rightarrow> nat \<Rightarrow> 'v domain \<Rightarrow> op_tag \<Rightarrow> 'v \<Rightarrow> nat \<Rightarrow> 'v traced" where
  "tracing_cast out f D t a bw =
    (if t \<in> set traced_cast_tags then trace_cast out f (method_name t) (dom_cast D t) a bw
     else untraced (dom_cast D t a bw))"

definition tracing_assume ::
  "('v event \<Rightarrow> string) \<Rightarrow> nat \<Rightarrow> 'v domain \<Rightarrow> 'v \<Rightarrow> bool \<Rightarrow> 'v traced" where
  "tracing_assume out f D a expected = trace_assume out f (dom_assume D) a expected"

text \<open>Negation of a floating point number is no operation of the record: it is given apart.\<close>

definition tracing_fneg ::
  "('v event \<Rightarrow> string) \<Rightarrow> nat \<Rightarrow> ('v \<Rightarrow> 'v outcome) \<Rightarrow> 'v \<Rightarrow> 'v traced" where
  "tracing_fneg out f fneg a = trace_unary out f ''op_fneg'' fneg a"

section \<open>Plain text\<close>

fun simple_event :: "('v \<Rightarrow> string) \<Rightarrow> 'v event \<Rightarrow> string" where
  "simple_event text (traced_result fn r) = fn @ '' '' @ utf8_arrow @ ''  '' @ text r"
| "simple_event text (traced_assume a e) = ''assume: '' @ (if e then '''' else ''not '') @ text a"
| "simple_event text (traced_cast fn r a bw) =
     fn @ '' '' @ text a @ '' '' @ utf8_arrow @ ''  '' @ text r"
| "simple_event text (traced_unary fn r a) =
     fn @ '' '' @ text a @ '' '' @ utf8_arrow @ ''  '' @ text r"
| "simple_event text (traced_binary fn r a b) =
     fn @ '' '' @ text a @ '' '' @ text b @ '' '' @ utf8_arrow @ ''  '' @ text r"

section \<open>JSON\<close>

definition quote :: char where
  "quote = CHR 0x22"

definition as_string :: "string \<Rightarrow> string" where
  "as_string v = [quote] @ v @ [quote]"

text \<open>\<open>keyvalue\<close>: a string or a value of the domain is quoted, the rest is written as it is.\<close>

definition keyvalue :: "string \<Rightarrow> string \<Rightarrow> string" where
  "keyvalue key written = as_string key @ '': '' @ written"

fun tuple_items :: "string list \<Rightarrow> string" where
  "tuple_items [] = ''''"
| "tuple_items [v] = v"
| "tuple_items (v # vs) = v @ '', '' @ tuple_items vs"

definition json_tuple :: "string list \<Rightarrow> string" where
  "json_tuple vs = ''{'' @ tuple_items vs @ ''}''"

text \<open>The address is printed into a buffer of 16 bytes, the last of which is the terminator.\<close>

definition address_text :: "('v \<Rightarrow> string) \<Rightarrow> 'v \<Rightarrow> string" where
  "address_text ptr v = take 15 (ptr v)"

definition value_with_address ::
  "('v \<Rightarrow> string) \<Rightarrow> ('v \<Rightarrow> string) \<Rightarrow> string \<Rightarrow> 'v \<Rightarrow> string" where
  "value_with_address text ptr name v =
    keyvalue name (json_tuple [keyvalue ''value'' (as_string (text v)),
                               keyvalue ''addr'' (as_string (address_text ptr v))])"

fun json_event :: "('v \<Rightarrow> string) \<Rightarrow> ('v \<Rightarrow> string) \<Rightarrow> 'v event \<Rightarrow> string" where
  "json_event text ptr (traced_result fn r) =
     json_tuple [keyvalue ''operation'' (as_string fn), value_with_address text ptr ''result'' r]"
| "json_event text ptr (traced_assume a e) =
     json_tuple [keyvalue ''type'' (as_string ''assume''), value_with_address text ptr ''arg'' a,
                 keyvalue ''expected'' (if e then ''true'' else ''false'')]"
| "json_event text ptr (traced_cast fn r a bw) =
     json_tuple [keyvalue ''operation'' (as_string fn), keyvalue ''type'' (as_string ''cast''),
                 value_with_address text ptr ''result'' r, value_with_address text ptr ''arg'' a,
                 keyvalue ''bitwidth'' (nat_string bw)]"
| "json_event text ptr (traced_unary fn r a) =
     json_tuple [keyvalue ''operation'' (as_string fn), keyvalue ''type'' (as_string ''unary''),
                 value_with_address text ptr ''result'' r, value_with_address text ptr ''arg'' a]"
| "json_event text ptr (traced_binary fn r a b) =
     json_tuple [keyvalue ''operation'' (as_string fn), keyvalue ''type'' (as_string ''binary''),
                 value_with_address text ptr ''result'' r, value_with_address text ptr ''left'' a,
                 value_with_address text ptr ''right'' b]"

section \<open>Programs over a domain\<close>

text \<open>
  What an instrumented program does with the values of its domain, one operation at a time: the
  values made so far are numbered, an operation adds one or refines one. The same program runs
  over the domain and over the tracing domain.
\<close>

datatype dom_instr = ins_any | ins_range int int | ins_lift c_value | ins_bin op_tag nat nat
  | ins_cast op_tag nat nat | ins_assume nat bool

definition value_at :: "'v list \<Rightarrow> nat \<Rightarrow> 'v outcome" where
  "value_at vs i = (if i < length vs then Ret (vs ! i) else Undef)"

fun dom_step :: "'v domain \<Rightarrow> dom_instr \<Rightarrow> 'v list \<Rightarrow> 'v list outcome" where
  "dom_step D ins_any vs = omap (\<lambda>v. vs @ [v]) (dom_any D)"
| "dom_step D (ins_range lo hi) vs = omap (\<lambda>v. vs @ [v]) (dom_any_range D lo hi)"
| "dom_step D (ins_lift c) vs = omap (\<lambda>v. vs @ [v]) (dom_lift D c)"
| "dom_step D (ins_bin t i j) vs =
     obind (value_at vs i) (\<lambda>a. obind (value_at vs j) (\<lambda>b. omap (\<lambda>v. vs @ [v]) (dom_bin D t a b)))"
| "dom_step D (ins_cast t i bw) vs =
     obind (value_at vs i) (\<lambda>a. omap (\<lambda>v. vs @ [v]) (dom_cast D t a bw))"
| "dom_step D (ins_assume i e) vs =
     obind (value_at vs i) (\<lambda>a. omap (\<lambda>v. vs[i := v]) (dom_assume D a e))"

fun dom_exec :: "'v domain \<Rightarrow> dom_instr list \<Rightarrow> 'v list \<Rightarrow> 'v list outcome" where
  "dom_exec D [] vs = Ret vs"
| "dom_exec D (i # is) vs = obind (dom_step D i vs) (dom_exec D is)"

definition tmap :: "('a \<Rightarrow> 'b) \<Rightarrow> 'a traced \<Rightarrow> 'b traced" where
  "tmap g m = tbind m (\<lambda>x. untraced (Ret (g x)))"

fun tracing_step ::
  "('v event \<Rightarrow> string) \<Rightarrow> nat \<Rightarrow> 'v domain \<Rightarrow> dom_instr \<Rightarrow> 'v list \<Rightarrow> 'v list traced" where
  "tracing_step out f D ins_any vs = tmap (\<lambda>v. vs @ [v]) (tracing_any out f D)"
| "tracing_step out f D (ins_range lo hi) vs = tmap (\<lambda>v. vs @ [v]) (tracing_any_range out f D lo hi)"
| "tracing_step out f D (ins_lift c) vs = tmap (\<lambda>v. vs @ [v]) (untraced (dom_lift D c))"
| "tracing_step out f D (ins_bin t i j) vs =
     tbind (untraced (value_at vs i)) (\<lambda>a. tbind (untraced (value_at vs j))
       (\<lambda>b. tmap (\<lambda>v. vs @ [v]) (tracing_bin out f D t a b)))"
| "tracing_step out f D (ins_cast t i bw) vs =
     tbind (untraced (value_at vs i)) (\<lambda>a. tmap (\<lambda>v. vs @ [v]) (tracing_cast out f D t a bw))"
| "tracing_step out f D (ins_assume i e) vs =
     tbind (untraced (value_at vs i)) (\<lambda>a. tmap (\<lambda>v. vs[i := v]) (tracing_assume out f D a e))"

fun tracing_exec ::
  "('v event \<Rightarrow> string) \<Rightarrow> nat \<Rightarrow> 'v domain \<Rightarrow> dom_instr list \<Rightarrow> 'v list \<Rightarrow> 'v list traced" where
  "tracing_exec out f D [] vs = untraced (Ret vs)"
| "tracing_exec out f D (i # is) vs = tbind (tracing_step out f D i vs) (tracing_exec out f D is)"

text \<open>
  The specification of the log: one event for every traced operation that returned, in their
  order, as a function of the run of the program over the domain alone.
\<close>

fun step_events :: "dom_instr \<Rightarrow> 'v list \<Rightarrow> 'v list \<Rightarrow> 'v event list" where
  "step_events ins_any vs vs' = [traced_result ''any'' (last vs')]"
| "step_events (ins_range lo hi) vs vs' = [traced_result ''any< range >'' (last vs')]"
| "step_events (ins_lift c) vs vs' = []"
| "step_events (ins_bin t i j) vs vs' =
     (if t \<in> set traced_bin_tags
      then [traced_binary (method_name t) (last vs') (vs ! i) (vs ! j)] else [])"
| "step_events (ins_cast t i bw) vs vs' =
     (if t \<in> set traced_cast_tags
      then [traced_cast (method_name t) (last vs') (vs ! i) bw] else [])"
| "step_events (ins_assume i e) vs vs' = [traced_assume (vs' ! i) e]"

fun dom_events :: "'v domain \<Rightarrow> dom_instr list \<Rightarrow> 'v list \<Rightarrow> 'v event list" where
  "dom_events D [] vs = []"
| "dom_events D (i # is) vs =
     (case dom_step D i vs of Ret vs' \<Rightarrow> step_events i vs vs' @ dom_events D is vs' | _ \<Rightarrow> [])"

definition log_lines :: "('v event \<Rightarrow> string) \<Rightarrow> 'v event list \<Rightarrow> string" where
  "log_lines out evs = concat (map (\<lambda>ev. out ev @ [CHR 0x0A]) evs)"

lemma log_lines_simps [simp]:
  "log_lines out [] = []"
  "log_lines out (ev # evs) = out ev @ CHR 0x0A # log_lines out evs"
  "log_lines out (evs @ evs') = log_lines out evs @ log_lines out evs'"
  by (simp_all add: log_lines_def)

named_theorems traced_simps "equations of the traced operations"

lemma stream_write_simps [simp]:
  "stream_write f [] fs = fs"
  "stream_write f s (stream_write f r fs) = stream_write f (r @ s) fs"
  "stream_write f s fs f = fs f @ s"
  by (simp_all add: stream_write_def)

lemma untraced_bind [traced_simps]:
  "tbind (untraced (Ret x)) k = k x"
  "tbind (untraced Cancel) k = untraced Cancel"
  "tbind (untraced (Fault msg)) k = untraced (Fault msg)"
  "tbind (untraced Undef) k = untraced Undef"
  by (simp_all add: fun_eq_iff tbind_def untraced_def)

lemma tbind_assoc [traced_simps]: "tbind (tbind m k) h = tbind m (\<lambda>x. tbind (k x) h)"
  by (auto simp: fun_eq_iff tbind_def split: prod.splits outcome.splits)

lemma emit_bind [traced_simps]:
  "tbind (emit out f ev) k fs = k () (stream_write f (log_lines out [ev]) fs)"
  by (simp add: tbind_def emit_def)

lemma tracing_step_spec:
  "tracing_step out f D i vs fs =
    (dom_step D i vs,
     stream_write f (log_lines out (case dom_step D i vs of Ret vs' \<Rightarrow> step_events i vs vs' | _ \<Rightarrow> [])) fs)"
proof (cases i)
  case ins_any
  then show ?thesis
    by (cases "dom_any D")
      (simp_all add: tmap_def tracing_any_def trace_result_def traced_simps, simp_all add: untraced_def tbind_def)
next
  case (ins_range lo hi)
  then show ?thesis
    by (cases "dom_any_range D lo hi")
      (simp_all add: tmap_def tracing_any_range_def trace_result_def traced_simps, simp_all add: untraced_def tbind_def)
next
  case (ins_lift c)
  then show ?thesis
    by (cases "dom_lift D c") (simp_all add: tmap_def traced_simps, simp_all add: untraced_def tbind_def)
next
  case (ins_bin t j k)
  then show ?thesis
    by (cases "j < length vs"; cases "k < length vs"; cases "t \<in> set traced_bin_tags";
        cases "dom_bin D t (vs ! j) (vs ! k)")
      (simp_all add: value_at_def tmap_def tracing_bin_def trace_binary_def traced_simps,
       simp_all add: untraced_def tbind_def)
next
  case (ins_cast t j bw)
  then show ?thesis
    by (cases "j < length vs"; cases "t \<in> set traced_cast_tags"; cases "dom_cast D t (vs ! j) bw")
      (simp_all add: value_at_def tmap_def tracing_cast_def trace_cast_def traced_simps,
       simp_all add: untraced_def tbind_def)
next
  case (ins_assume j e)
  then show ?thesis
    by (cases "j < length vs"; cases "dom_assume D (vs ! j) e")
      (simp_all add: value_at_def tmap_def tracing_assume_def trace_assume_def traced_simps,
       simp_all add: untraced_def tbind_def)
qed

lemma tracing_exec_spec:
  "tracing_exec out f D is vs fs = (dom_exec D is vs, stream_write f (log_lines out (dom_events D is vs)) fs)"
proof (induction "is" arbitrary: vs fs)
  case Nil
  then show ?case by (simp add: untraced_def)
next
  case (Cons i "is")
  then show ?case
    by (cases "dom_step D i vs") (simp_all add: tbind_def tracing_step_spec)
qed

section \<open>Reading a log back\<close>

text \<open>
  A reference reader for the part of JSON that the tracer writes. It is bounded by a fuel: the
  number of nested calls, for which the length of the text is enough.
\<close>

datatype json = j_string string | j_number nat | j_bool bool | j_object "(string \<times> json) list"

definition is_digit :: "char \<Rightarrow> bool" where
  "is_digit c = (48 \<le> (of_char c :: nat) \<and> (of_char c :: nat) \<le> 57)"

definition read_string :: "string \<Rightarrow> (string \<times> string) option" where
  "read_string s =
    (case s of [] \<Rightarrow> None
     | c # t \<Rightarrow> if c = quote
        then (case dropWhile (\<lambda>c. c \<noteq> quote) t of [] \<Rightarrow> None
              | _ # r \<Rightarrow> Some (takeWhile (\<lambda>c. c \<noteq> quote) t, r))
        else None)"

definition skip :: "string \<Rightarrow> string \<Rightarrow> string option" where
  "skip w s = (if take (length w) s = w then Some (drop (length w) s) else None)"

definition read_atom :: "string \<Rightarrow> (json \<times> string) option" where
  "read_atom s =
    (case read_string s of Some (v, r) \<Rightarrow> Some (j_string v, r)
     | None \<Rightarrow> (case skip ''true'' s of Some r \<Rightarrow> Some (j_bool True, r)
     | None \<Rightarrow> (case skip ''false'' s of Some r \<Rightarrow> Some (j_bool False, r)
     | None \<Rightarrow> (if s \<noteq> [] \<and> is_digit (hd s)
         then Some (j_number (digits_value 0 (takeWhile is_digit s)), dropWhile is_digit s)
         else None))))"

fun read_value :: "nat \<Rightarrow> string \<Rightarrow> (json \<times> string) option"
  and read_members :: "nat \<Rightarrow> string \<Rightarrow> ((string \<times> json) list \<times> string) option" where
  "read_value 0 s = None"
| "read_value (Suc n) s =
    (case skip ''{'' s of Some r \<Rightarrow> map_option (\<lambda>(ms, r'). (j_object ms, r')) (read_members n r)
     | None \<Rightarrow> read_atom s)"
| "read_members 0 s = None"
| "read_members (Suc n) s =
    Option.bind (read_string s) (\<lambda>(k, r). Option.bind (skip '': '' r) (\<lambda>r.
    Option.bind (read_value n r) (\<lambda>(v, r).
      case skip ''}'' r of Some r' \<Rightarrow> Some ([(k, v)], r')
      | None \<Rightarrow> Option.bind (skip '', '' r)
          (\<lambda>r. map_option (\<lambda>(ms, r'). ((k, v) # ms, r')) (read_members n r)))))"

definition read_json :: "string \<Rightarrow> (json \<times> string) option" where
  "read_json s = read_value (length s) s"

text \<open>The text of a JSON value in the layout of the tracer, and the value of an event.\<close>

fun json_text :: "json \<Rightarrow> string" and member_texts :: "(string \<times> json) list \<Rightarrow> string list" where
  "json_text (j_string v) = as_string v"
| "json_text (j_number n) = nat_string n"
| "json_text (j_bool b) = (if b then ''true'' else ''false'')"
| "json_text (j_object ms) = json_tuple (member_texts ms)"
| "member_texts [] = []"
| "member_texts ((k, v) # ms) = keyvalue k (json_text v) # member_texts ms"

definition addressed_json :: "('v \<Rightarrow> string) \<Rightarrow> ('v \<Rightarrow> string) \<Rightarrow> 'v \<Rightarrow> json" where
  "addressed_json text ptr v =
    j_object [(''value'', j_string (text v)), (''addr'', j_string (address_text ptr v))]"

fun event_json :: "('v \<Rightarrow> string) \<Rightarrow> ('v \<Rightarrow> string) \<Rightarrow> 'v event \<Rightarrow> json" where
  "event_json text ptr (traced_result fn r) =
     j_object [(''operation'', j_string fn), (''result'', addressed_json text ptr r)]"
| "event_json text ptr (traced_assume a e) =
     j_object [(''type'', j_string ''assume''), (''arg'', addressed_json text ptr a),
               (''expected'', j_bool e)]"
| "event_json text ptr (traced_cast fn r a bw) =
     j_object [(''operation'', j_string fn), (''type'', j_string ''cast''),
               (''result'', addressed_json text ptr r), (''arg'', addressed_json text ptr a),
               (''bitwidth'', j_number bw)]"
| "event_json text ptr (traced_unary fn r a) =
     j_object [(''operation'', j_string fn), (''type'', j_string ''unary''),
               (''result'', addressed_json text ptr r), (''arg'', addressed_json text ptr a)]"
| "event_json text ptr (traced_binary fn r a b) =
     j_object [(''operation'', j_string fn), (''type'', j_string ''binary''),
               (''result'', addressed_json text ptr r), (''left'', addressed_json text ptr a),
               (''right'', addressed_json text ptr b)]"

lemma json_event_text: "json_event text ptr ev = json_text (event_json text ptr ev)"
  by (cases ev) (simp_all add: addressed_json_def value_with_address_def)

text \<open>A value is readable when no string in it holds a quote and no object is empty.\<close>

fun readable :: "json \<Rightarrow> bool" and readable_members :: "(string \<times> json) list \<Rightarrow> bool" where
  "readable (j_string v) = (quote \<notin> set v)"
| "readable (j_number n) = True"
| "readable (j_bool b) = True"
| "readable (j_object ms) = (ms \<noteq> [] \<and> readable_members ms)"
| "readable_members [] = True"
| "readable_members ((k, v) # ms) = (quote \<notin> set k \<and> readable v \<and> readable_members ms)"

fun json_fuel :: "json \<Rightarrow> nat" and members_fuel :: "(string \<times> json) list \<Rightarrow> nat" where
  "json_fuel (j_object ms) = Suc (members_fuel ms)"
| "json_fuel j = 1"
| "members_fuel [] = 0"
| "members_fuel ((k, v) # ms) = Suc (max (json_fuel v) (members_fuel ms))"

lemma skip_append [simp]: "skip w (w @ r) = Some r"
  by (simp add: skip_def)

lemma skip_other [simp]: "skip (c # w) (d # s) = (if c = d then skip w s else None)"
  by (simp add: skip_def)

lemma skip_nil [simp]: "skip [] s = Some s"
  by (simp add: skip_def)

lemma read_string_text [simp]: "quote \<notin> set v \<Longrightarrow> read_string (as_string v @ r) = Some (v, r)"
proof -
  assume v: "quote \<notin> set v"
  then have "\<And>c. c \<in> set v \<Longrightarrow> c \<noteq> quote" by auto
  then have "takeWhile (\<lambda>c. c \<noteq> quote) (v @ quote # r) = v"
    and "dropWhile (\<lambda>c. c \<noteq> quote) (v @ quote # r) = quote # r"
    by (simp_all add: takeWhile_append2 dropWhile_append2)
  then show ?thesis by (simp add: read_string_def as_string_def)
qed

lemma nat_string_digits: "c \<in> set (nat_string n) \<Longrightarrow> is_digit c"
proof (induction n rule: nat_string.induct)
  case (1 n)
  have digit: "is_digit (digit m)" if "m < 10" for m
    using that by (simp add: is_digit_def digit_def)
  show ?case
  proof (cases "n < 10")
    case True
    with "1.prems" digit show ?thesis by (simp add: nat_string.simps [of n])
  next
    case False
    with "1" digit [of "n mod 10"] show ?thesis by (subst (asm) (2) nat_string.simps) auto
  qed
qed

lemma nat_string_nonempty: "nat_string n \<noteq> []"
  by (subst nat_string.simps) simp

lemma quote_no_digit [simp]: "\<not> is_digit quote" "\<not> is_digit CHR 0x0A" "\<not> is_digit CHR '',''" "\<not> is_digit CHR ''}''"
  "\<not> is_digit CHR ''t''" "\<not> is_digit CHR ''f''" "\<not> is_digit CHR ''{''"
  by (simp_all add: is_digit_def quote_def)

text \<open>What may follow a value: the text behind it does not go on with a digit.\<close>

definition ends :: "string \<Rightarrow> bool" where
  "ends r = (r = [] \<or> \<not> is_digit (hd r))"

lemma ends_simps [simp]: "ends []" "ends (c # r) = (\<not> is_digit c)"
  by (simp_all add: ends_def)

lemma read_atom_number:
  assumes "ends r"
  shows "read_atom (nat_string n @ r) = Some (j_number n, r)"
proof -
  obtain c cs where n: "nat_string n = c # cs"
    using nat_string_nonempty by (cases "nat_string n") auto
  then have c: "is_digit c"
    using nat_string_digits [of c n] by simp
  then have neq: "c \<noteq> quote" "c \<noteq> CHR ''t''" "c \<noteq> CHR ''f''"
    by auto
  have "\<And>d. d \<in> set (nat_string n) \<Longrightarrow> is_digit d"
    by (rule nat_string_digits)
  then have "takeWhile is_digit (nat_string n @ r) = nat_string n"
    and "dropWhile is_digit (nat_string n @ r) = r"
    using assms by (auto simp: takeWhile_append2 dropWhile_append2 ends_def takeWhile_eq_Nil_iff
        dropWhile_eq_self_iff)
  with n c neq show ?thesis
    using nat_string_value [of n] by (simp add: read_atom_def read_string_def)
qed

lemma read_atom_string: "quote \<notin> set v \<Longrightarrow> read_atom (as_string v @ r) = Some (j_string v, r)"
  by (simp add: read_atom_def)

lemma read_atom_bool:
  "read_atom (''true'' @ r) = Some (j_bool True, r)" "read_atom (''false'' @ r) = Some (j_bool False, r)"
  by (simp_all add: read_atom_def read_string_def quote_def)

lemma skip_brace_digit: "skip ''{'' (nat_string n @ r) = None"
proof -
  obtain c cs where n: "nat_string n = c # cs"
    using nat_string_nonempty by (cases "nat_string n") auto
  then have "is_digit c"
    using nat_string_digits [of c n] by simp
  then have "c \<noteq> CHR ''{''" by auto
  with n show ?thesis by simp
qed

lemma skip_brace_quote: "skip ''{'' (as_string v @ r) = None"
  by (simp add: as_string_def quote_def)

lemma tuple_items_cons: "vs \<noteq> [] \<Longrightarrow> tuple_items (v # vs) = v @ '', '' @ tuple_items vs"
  by (cases vs) simp_all

lemma member_texts_nil [simp]: "member_texts ms = [] \<longleftrightarrow> ms = []"
  by (cases ms) auto

lemma read_back:
  "readable j \<Longrightarrow> json_fuel j \<le> n \<Longrightarrow> ends r \<Longrightarrow> read_value n (json_text j @ r) = Some (j, r)"
  "readable_members ms \<Longrightarrow> ms \<noteq> [] \<Longrightarrow> members_fuel ms \<le> n \<Longrightarrow>
    read_members n (tuple_items (member_texts ms) @ ''}'' @ r) = Some (ms, r)"
proof (induction j and ms arbitrary: n r and n r rule: json_text_member_texts.induct)
  case (1 v)
  then show ?case
    by (cases n) (simp_all add: skip_brace_quote read_atom_string)
next
  case (2 m)
  then show ?case
    by (cases n) (simp_all add: skip_brace_digit read_atom_number)
next
  case (3 b)
  then show ?case
    using read_atom_bool by (cases n) simp_all
next
  case (4 ms)
  then show ?case
    by (cases n) (simp_all add: json_tuple_def)
next
  case 5
  then show ?case by simp
next
  case (6 k v ms)
  then obtain m where n: "n = Suc m" and fuel: "json_fuel v \<le> m" "members_fuel ms \<le> m"
    by (cases n) auto
  have k: "quote \<notin> set k" and v: "readable v" and ms: "readable_members ms"
    using "6.prems" by simp_all
  show ?case
  proof (cases "ms = []")
    case True
    with "6.IH"(1) [OF v fuel(1), of "''}'' @ r"] n k show ?thesis
      by (simp add: keyvalue_def)
  next
    case False
    with "6.IH"(1) [OF v fuel(1), of "'', '' @ tuple_items (member_texts ms) @ ''}'' @ r"]
      "6.IH"(2) [OF ms False fuel(2)] n k show ?thesis
      by (simp add: keyvalue_def tuple_items_cons)
  qed
qed

lemma text_length:
  "json_fuel j \<le> length (json_text j)" "members_fuel ms \<le> length (tuple_items (member_texts ms))"
proof (induction j and ms rule: json_text_member_texts.induct)
  case (2 n)
  then show ?case
    using nat_string_nonempty [of n] by (cases "nat_string n") simp_all
next
  case (6 k v ms)
  then show ?case
    by (cases "ms = []") (simp_all add: keyvalue_def as_string_def tuple_items_cons)
qed (simp_all add: as_string_def json_tuple_def)

lemma read_json_text: "readable j \<Longrightarrow> ends r \<Longrightarrow> read_json (json_text j @ r) = Some (j, r)"
  using text_length(1) [of j] by (simp add: read_json_def read_back(1))

section \<open>Logs\<close>

text \<open>
  A log is a sequence of lines; the contract between the writer of events and a reader of lines
  is that the reader gets back what an event means and stops at the end of the line.
\<close>

fun read_log :: "(string \<Rightarrow> ('d \<times> string) option) \<Rightarrow> nat \<Rightarrow> string \<Rightarrow> 'd list option" where
  "read_log rd n [] = Some []"
| "read_log rd 0 (c # s) = None"
| "read_log rd (Suc n) (c # s) =
    Option.bind (rd (c # s)) (\<lambda>(d, r). Option.bind (skip [CHR 0x0A] r)
      (\<lambda>r. map_option ((#) d) (read_log rd n r)))"

locale line_reader =
  fixes out :: "'e \<Rightarrow> string" and rd :: "string \<Rightarrow> ('d \<times> string) option"
    and meaning :: "'e \<Rightarrow> 'd" and well :: "'e \<Rightarrow> bool"
  assumes read_line: "well ev \<Longrightarrow> rd (out ev @ CHR 0x0A # r) = Some (meaning ev, CHR 0x0A # r)"
begin

lemma read_lines:
  "list_all well evs \<Longrightarrow> length evs \<le> n \<Longrightarrow>
    read_log rd n (concat (map (\<lambda>ev. out ev @ [CHR 0x0A]) evs)) = Some (map meaning evs)"
proof (induction evs arbitrary: n)
  case (Cons ev evs)
  then obtain m where n: "n = Suc m" "length evs \<le> m"
    by (cases n) auto
  let ?rest = "concat (map (\<lambda>ev. out ev @ [CHR 0x0A]) evs)"
  obtain c s where s: "out ev @ CHR 0x0A # ?rest = c # s"
    by (cases "out ev @ CHR 0x0A # ?rest") auto
  have "read_log rd n (c # s) = Some (meaning ev # map meaning evs)"
    using Cons n by (simp add: read_line s [symmetric] del: append_is_Nil_conv)
      (simp add: s read_line [of ev ?rest, unfolded s])
  with s show ?case by simp
qed simp

end

fun event_values :: "'v event \<Rightarrow> 'v list" where
  "event_values (traced_result fn r) = [r]"
| "event_values (traced_assume a e) = [a]"
| "event_values (traced_cast fn r a bw) = [r, a]"
| "event_values (traced_unary fn r a) = [r, a]"
| "event_values (traced_binary fn r a b) = [r, a, b]"

fun event_name :: "'v event \<Rightarrow> string" where
  "event_name (traced_assume a e) = ''assume''"
| "event_name (traced_result fn r) = fn"
| "event_name (traced_cast fn r a bw) = fn"
| "event_name (traced_unary fn r a) = fn"
| "event_name (traced_binary fn r a b) = fn"

definition quotable :: "('v \<Rightarrow> string) \<Rightarrow> ('v \<Rightarrow> string) \<Rightarrow> 'v event \<Rightarrow> bool" where
  "quotable text ptr ev =
    (quote \<notin> set (event_name ev) \<and>
     list_all (\<lambda>v. quote \<notin> set (text v) \<and> quote \<notin> set (ptr v)) (event_values ev))"

lemma quotable_readable: "quotable text ptr ev \<Longrightarrow> readable (event_json text ptr ev)"
  by (cases ev) (auto simp: quotable_def addressed_json_def address_text_def quote_def dest: in_set_takeD)

interpretation json_log: line_reader "json_event shown ptr" read_json "event_json shown ptr"
  "quotable shown ptr" for shown ptr
  by unfold_locales (simp add: json_event_text read_json_text quotable_readable)

lemma method_name_plain: "quote \<notin> set (method_name t)"
  by (cases t) (simp_all add: method_name_def mixin_name_def quote_def)

lemma step_events_plain:
  "(\<And>v. quote \<notin> set (text v)) \<Longrightarrow> (\<And>v. quote \<notin> set (ptr v)) \<Longrightarrow>
    list_all (quotable text ptr) (step_events i vs vs')"
  using method_name_plain by (cases i) (simp_all add: quotable_def, simp_all add: quote_def)

lemma dom_events_plain:
  "(\<And>v. quote \<notin> set (text v)) \<Longrightarrow> (\<And>v. quote \<notin> set (ptr v)) \<Longrightarrow>
    list_all (quotable text ptr) (dom_events D is vs)"
  by (induction "is" arbitrary: vs) (simp_all add: step_events_plain split: outcome.splits)

lemma log_lines_length: "length evs \<le> length (log_lines out evs)"
  by (induction evs) simp_all

section \<open>Properties\<close>

text \<open>
  C16: Tracing does not change what a program computes, and the log is complete: a program over
  the tracing domain ends exactly as over the domain, in the same values, pruned or trapped, and
  appends to the configured file one line for each wrapped operation that returned, in their order
  and with the values it returned; it writes to no other file.
\<close>

theorem tracing_transparent:
  "tracing_exec out (configured_stream tf) D prog vs fs =
    (dom_exec D prog vs,
     fs(configured_stream tf :=
       fs (configured_stream tf) @ log_lines out (dom_events D prog vs)))"
  by (simp add: tracing_exec_spec stream_write_def)


lemma sign_text_plain: "quote \<notin> set (sign_text v)"
  by (cases v) (simp_all add: quote_def)

definition sign_prog :: "dom_instr list" where
  "sign_prog = [ins_any, ins_lift (c_int True 32 5), ins_bin tag_mul 0 1, ins_bin tag_sgt 0 1, ins_assume 3 True]"


end
