(* ===== verification/Domain_List.thy ===== *)
theory Domain_List
  imports Lart_Prelude
begin

text \<open>
  Lists of types, \<open>lamp/support/domain_list.hpp\<close>, from which a metadomain takes its domains and the
  tags it stores. The templates recurse over \<open>cons\<close> and \<open>nil\<close> as functions do over a list; a list
  with values is a list of pairs of a type and a value.
\<close>

section \<open>Types\<close>

fun dl_size :: "'t list \<Rightarrow> nat" where
  "dl_size [] = 0"
| "dl_size (a # b) = 1 + dl_size b"

text \<open>No type at an index out of the list is \<open>void\<close>.\<close>

fun dl_type_at :: "'t list \<Rightarrow> int \<Rightarrow> 't option" where
  "dl_type_at [] idx = None"
| "dl_type_at (a # b) idx = (if idx = 0 then Some a else dl_type_at b (idx - 1))"

fun index_of :: "'t list \<Rightarrow> 't \<Rightarrow> int \<Rightarrow> int" where
  "index_of [] t i = -1"
| "index_of (a # b) t i = (if t = a then i else index_of b t (i + 1))"

fun has_type :: "'t list \<Rightarrow> 't \<Rightarrow> bool" where
  "has_type [] t = False"
| "has_type (a # b) t = (t = a \<or> has_type b t)"

fun map_t :: "('t \<Rightarrow> 'u) \<Rightarrow> 't list \<Rightarrow> 'u list" where
  "map_t f [] = []"
| "map_t f (a # b) = f a # map_t f b"

fun unique_t :: "'t list \<Rightarrow> 't list" where
  "unique_t [] = []"
| "unique_t (a # b) = (if has_type (unique_t b) a then b else a # b)"

fun cat_t :: "'t list \<Rightarrow> 't list \<Rightarrow> 't list" where
  "cat_t [] l = l"
| "cat_t (a # b) l = a # cat_t b l"

fun cons_list_t :: "'t list \<Rightarrow> 't list" where
  "cons_list_t [] = []"
| "cons_list_t (t # ts) = t # cons_list_t ts"

text \<open>The index of a domain and the domain of an index, as the metadomains use them.\<close>

definition domain_idx :: "'t list \<Rightarrow> 't \<Rightarrow> int" where
  "domain_idx domains t = index_of (cons_list_t domains) t 0"

definition domain_type :: "'t list \<Rightarrow> int \<Rightarrow> 't option" where
  "domain_type domains idx = dl_type_at (cons_list_t domains) idx"

section \<open>Values\<close>

type_synonym ('t, 'v) cells = "('t \<times> 'v) list"

fun dl_each :: "('t \<times> 'v \<Rightarrow> 's \<Rightarrow> 's) \<Rightarrow> ('t, 'v) cells \<Rightarrow> 's \<Rightarrow> 's" where
  "dl_each f [] s = s"
| "dl_each f (a # b) s = dl_each f b (f a s)"

fun dl_map :: "('t \<times> 'v \<Rightarrow> 'u \<times> 'w) \<Rightarrow> ('t, 'v) cells \<Rightarrow> ('u, 'w) cells" where
  "dl_map f [] = []"
| "dl_map f (a # b) = f a # dl_map f b"

fun dl_cat :: "('t, 'v) cells \<Rightarrow> ('t, 'v) cells \<Rightarrow> ('t, 'v) cells" where
  "dl_cat [] l = l"
| "dl_cat (a # b) l = a # dl_cat b l"

fun cons_reverse :: "('t, 'v) cells \<Rightarrow> ('t, 'v) cells \<Rightarrow> ('t, 'v) cells" where
  "cons_reverse [] acc = acc"
| "cons_reverse (a # b) acc = cons_reverse b (a # acc)"

definition dl_reverse :: "('t, 'v) cells \<Rightarrow> ('t, 'v) cells" where
  "dl_reverse l = cons_reverse l []"

text \<open>A type that is not in the list has no value to get: the template has no instance.\<close>

fun dl_get :: "('t, 'v) cells \<Rightarrow> 't \<Rightarrow> 'v option" where
  "dl_get [] t = None"
| "dl_get (a # b) t = (if t = fst a then Some (snd a) else dl_get b t)"

fun dl_view :: "('t, 'v) cells \<Rightarrow> 't list \<Rightarrow> ('t, 'v) cells option" where
  "dl_view l [] = Some []"
| "dl_view l (t # ts) =
    (case (dl_get l t, dl_view l ts) of (Some v, Some tail) \<Rightarrow> Some ((t, v) # tail) | _ \<Rightarrow> None)"

fun dl_filter :: "('t \<Rightarrow> bool) \<Rightarrow> ('t, 'v) cells \<Rightarrow> ('t, 'v) cells" where
  "dl_filter P [] = []"
| "dl_filter P (a # b) = (if P (fst a) then a # dl_filter P b else dl_filter P b)"

text \<open>Every cell puts its value before the arguments collected so far.\<close>

fun dl_apply :: "('v list \<Rightarrow> 'r) \<Rightarrow> ('t, 'v) cells \<Rightarrow> 'v list \<Rightarrow> 'r" where
  "dl_apply f [] args = f args"
| "dl_apply f (a # b) args = dl_apply f b (snd a # args)"

section \<open>Lemmas\<close>

lemma has_type_set [simp]: "has_type l t \<longleftrightarrow> t \<in> set l"
  by (induction l) auto

lemma cons_list_t_id [simp]: "cons_list_t l = l"
  by (induction l) simp_all

lemma dl_type_at_nth: "dl_type_at l idx = (if 0 \<le> idx \<and> nat idx < length l then Some (l ! nat idx) else None)"
proof (induction l idx rule: dl_type_at.induct)
  case (2 a b idx)
  have "nat idx = Suc (nat (idx - 1))" if "0 < idx" using that by simp
  with 2 show ?case by (cases "0 < idx") auto
qed simp

lemma index_of_absent: "t \<notin> set l \<Longrightarrow> index_of l t i = -1"
  by (induction l t i rule: index_of.induct) auto

lemma index_of_nth:
  "t \<in> set l \<Longrightarrow> \<exists>n < length l. index_of l t i = i + int n \<and> l ! n = t \<and> (\<forall>j < n. l ! j \<noteq> t)"
proof (induction l t i rule: index_of.induct)
  case (2 a b t i)
  show ?case
  proof (cases "t = a")
    case True
    then show ?thesis by (intro exI [of _ 0]) simp
  next
    case False
    with 2 obtain n where n: "n < length b" "index_of b t (i + 1) = i + 1 + int n" "b ! n = t" "\<forall>j < n. b ! j \<noteq> t"
      by auto
    with False show ?thesis
      by (intro exI [of _ "Suc n"]) (auto simp: nth_Cons less_Suc_eq_0_disj split: nat.split)
  qed
qed simp

lemma set_unique_t: "set (unique_t l) = set l"
  by (induction l) auto

lemma unique_t_once: "unique_t (a # b) = (if a \<in> set b then b else a # b)"
  by (simp add: set_unique_t)

lemma cons_reverse_rev: "cons_reverse l acc = rev l @ acc"
  by (induction l acc rule: cons_reverse.induct) simp_all

lemma dl_apply_rev: "dl_apply f l args = f (rev (map snd l) @ args)"
  by (induction f l args rule: dl_apply.induct) simp_all

section \<open>Properties\<close>

text \<open>
  The tag of a domain is its position in the list of domains, and the two directions agree: the
  type at the index of a type is that type exactly when it is listed, and otherwise there is none;
  in a list without repetitions the index of the type at an index is that index. Removing
  repetitions keeps every type, but it removes at most the first one: the result repeats a type
  exactly when the tail of the list does.
\<close>

theorem domain_index_roundtrip:
  "domain_type ds (domain_idx ds t) = (if t \<in> set ds then Some t else None) \<and>
    (distinct ds \<and> domain_type ds i = Some t \<longrightarrow> domain_idx ds t = i) \<and>
    set (unique_t ds) = set ds \<and> distinct (unique_t ds) = distinct (tl ds)"
proof (intro conjI impI)
  show "domain_type ds (domain_idx ds t) = (if t \<in> set ds then Some t else None)"
    using index_of_nth [of t ds 0] index_of_absent [of t ds 0]
    by (cases "t \<in> set ds") (auto simp: domain_type_def domain_idx_def dl_type_at_nth)
  show "domain_idx ds t = i" if d: "distinct ds \<and> domain_type ds i = Some t"
  proof -
    have i: "0 \<le> i" "nat i < length ds" "ds ! nat i = t"
      using d by (auto simp: domain_type_def dl_type_at_nth split: if_splits)
    then have "t \<in> set ds" by (metis nth_mem)
    from index_of_nth [OF this, of 0] obtain n where n: "n < length ds" "index_of ds t 0 = int n" "ds ! n = t" by auto
    then have "n = nat i" using d i by (metis nth_eq_iff_index_eq)
    with n(2) i(1) show ?thesis by (simp add: domain_idx_def)
  qed
  show "set (unique_t ds) = set ds" by (rule set_unique_t)
  show "distinct (unique_t ds) = distinct (tl ds)"
    by (cases ds) (auto simp: set_unique_t unique_t_once)
qed

end
