(* ===== verification/Syntactic_Pass.thy ===== *)
theory Syntactic_Pass
  imports Instrumentation Dataflow
begin

text \<open>
  The pass that inserts the operations, \<open>lartcc/syntactic.cpp\<close> and \<open>taint.cpp\<close>: which operation a
  value of the module asks for, and the table of abstract values that the calls are linked by. A
  call is made with null pointers in the places of the abstractions of its arguments; a place is
  filled at once when the abstraction is known, or when the operation that makes it is processed.
  Values that are the same but for an identity cast share their abstraction.
\<close>

section \<open>The operations a module asks for\<close>

text \<open>What the pass reads of a module beside the records of the analysis: the lists of its parts.\<close>

record md =
  md_functions :: "nat list"
  md_stores :: "nat list"
  md_branches :: "nat list"
  md_calls :: "nat list"
  md_returns :: "nat list"
  md_conditional :: "nat \<Rightarrow> bool"
  md_call_arguments :: "nat \<Rightarrow> nat list"
  md_return_value :: "nat \<Rightarrow> nat option"
  md_values :: "nat list"

definition is_call_with_prefix :: "ir \<Rightarrow> string \<Rightarrow> nat \<Rightarrow> bool" where
  "is_call_with_prefix m pre call =
    (case ir_called m call of None \<Rightarrow> False | Some fn \<Rightarrow> prefix pre (ir_name m fn))"

definition is_lamp_call :: "ir \<Rightarrow> nat \<Rightarrow> bool" where
  "is_lamp_call m call = is_call_with_prefix m ''__lamp_'' call"

definition is_lart_call :: "ir \<Rightarrow> nat \<Rightarrow> bool" where
  "is_lart_call m call =
    (is_call_with_prefix m ''__lart_'' call \<or> is_call_with_prefix m ''lart.'' call)"

definition is_dump_call :: "ir \<Rightarrow> nat \<Rightarrow> bool" where
  "is_dump_call m call = is_call_with_prefix m ''__lamp_dump'' call"

definition is_identity_cast :: "code \<Rightarrow> nat \<Rightarrow> bool" where
  "is_identity_cast c v = (cd_opcode_name c v \<in> {''bitcast'', ''ptrtoint'', ''inttoptr''})"

definition abstract_value :: "type_map \<Rightarrow> nat \<Rightarrow> bool" where
  "abstract_value T v = (case T v of Some t \<Rightarrow> is_abstract t | None \<Rightarrow> False)"

definition abstract_content :: "type_map \<Rightarrow> nat \<Rightarrow> bool outcome" where
  "abstract_content T v = (case T v of Some t \<Rightarrow> omap is_abstract (peel t) | None \<Rightarrow> Ret False)"

definition pointer_abstract :: "type_map \<Rightarrow> nat \<Rightarrow> bool" where
  "pointer_abstract T v = (case T v of Some t \<Rightarrow> is_abstract_pointer t | None \<Rightarrow> False)"

definition value_maybe_abstract :: "type_map \<Rightarrow> nat \<Rightarrow> bool" where
  "value_maybe_abstract T v = (case T v of Some t \<Rightarrow> maybe_abstract t | None \<Rightarrow> False)"

text \<open>A value that is not in the map of types has no type to look at: the look-up throws.\<close>

definition type_at :: "type_map \<Rightarrow> nat \<Rightarrow> type_onion outcome" where
  "type_at T v = (case T v of Some t \<Rightarrow> Ret t | None \<Rightarrow> Fault ''out_of_range'')"

definition make_operation :: "ir \<Rightarrow> code \<Rightarrow> type_map \<Rightarrow> nat \<Rightarrow> operation option outcome" where
  "make_operation m c T v =
    (case ir_class m v of
       v_alloca \<Rightarrow> omap (\<lambda>t. if is_abstract_pointer t then Some (o_alloc v) else None) (type_at T v)
     | v_load \<Rightarrow>
         if pointer_abstract T (cd_pointer_operand c v) then Ret (Some (o_load v))
         else omap (\<lambda>t. if is_abstract t then Some (o_melt v) else None) (type_at T v)
     | v_store val ptr \<Rightarrow>
         if pointer_abstract T ptr then Ret (Some (o_store v))
         else if abstract_value T val then Ret (Some (o_freeze v))
         else omap (\<lambda>b. if b then Some (o_freeze v) else None) (abstract_content T ptr)
     | v_binop \<Rightarrow> Ret (Some (o_binary v))
     | v_cmp \<Rightarrow> Ret (Some (o_cmp v))
     | v_cast \<Rightarrow> Ret (Some (if is_identity_cast c v then o_identity v else o_cast v))
     | v_phi \<Rightarrow> Ret (Some (o_phi v))
     | _ \<Rightarrow> Ret None)"

definition made_operations :: "ir \<Rightarrow> code \<Rightarrow> type_map \<Rightarrow> nat list \<Rightarrow> operation list outcome" where
  "made_operations m c T =
    ocollect (\<lambda>v. omap (\<lambda>x. case x of None \<Rightarrow> [] | Some y \<Rightarrow> [y]) (make_operation m c T v))"

text \<open>A conditional branch on an abstract value: its lowering and the assumptions of both edges.\<close>

definition branch_operations :: "code \<Rightarrow> md \<Rightarrow> type_map \<Rightarrow> nat \<Rightarrow> operation list" where
  "branch_operations c M T br =
    (if md_conditional M br \<and> value_maybe_abstract T (cd_condition c br)
     then [o_tobool br, o_assume (cd_condition c br) True, o_assume (cd_condition c br) False]
     else [])"

definition has_abstract_arg :: "md \<Rightarrow> type_map \<Rightarrow> nat \<Rightarrow> bool" where
  "has_abstract_arg M T call = list_ex (value_maybe_abstract T) (md_call_arguments M call)"

definition call_operations :: "ir \<Rightarrow> md \<Rightarrow> type_map \<Rightarrow> nat \<Rightarrow> operation list outcome" where
  "call_operations m M T call =
    omap (\<lambda>dumps.
      (if \<not> is_lart_call m call \<and> \<not> is_lamp_call m call \<and> has_abstract_arg M T call
       then map o_stash (md_call_arguments M call) else []) @ dumps)
      (if is_dump_call m call
       then (case md_call_arguments M call of a # _ \<Rightarrow> Ret [o_dump a] | [] \<Rightarrow> Undef) else Ret [])"

definition return_operations :: "md \<Rightarrow> type_map \<Rightarrow> nat \<Rightarrow> operation list" where
  "return_operations M T ret =
    (case md_return_value M ret of
       Some v \<Rightarrow> if value_maybe_abstract T v then [o_stash v] else [] | None \<Rightarrow> [])"

definition toprocess :: "ir \<Rightarrow> code \<Rightarrow> md \<Rightarrow> type_map \<Rightarrow> operation list outcome" where
  "toprocess m c M T =
    obind (made_operations m c T (filter (\<lambda>v. T v \<noteq> None) (md_values M))) (\<lambda>ops.
    obind (made_operations m c T
      (filter (\<lambda>st. value_maybe_abstract T (cd_pointer_operand c st)) (md_stores M))) (\<lambda>stores.
    obind (ocollect (call_operations m M T) (md_calls M)) (\<lambda>called.
      Ret (ops @ stores @ concat (map (branch_operations c M T) (md_branches M)) @ called @
           concat (map (return_operations M T) (md_returns M))))))"

definition unstash_both_of :: "nat \<Rightarrow> operation list" where
  "unstash_both_of v = [o_unstash v, o_unstash_taint v]"

definition unstash_toprocess :: "ir \<Rightarrow> code \<Rightarrow> md \<Rightarrow> type_map \<Rightarrow> operation list outcome" where
  "unstash_toprocess m c M T =
    omap (\<lambda>ops.
      concat (map (\<lambda>fn. if list_ex (value_maybe_abstract T) (ir_args m fn)
        then concat (map unstash_both_of (ir_args m fn)) else []) (md_functions M)) @
      concat (map unstash_both_of (filter (value_maybe_abstract T) (md_calls M))) @
      concat (map (\<lambda>x. if o_returns_value x \<and> o_faultable c x then unstash_both_of (o_value x) else []) ops))
      (toprocess m c M T)"

section \<open>The arguments of a call, paired\<close>

text \<open>The positions of the operands of a call that belong to one argument of the operation.\<close>

datatype paired = pv_with_taint nat nat nat | pv_abstract nat nat | pv_concrete nat

fun paired_arguments :: "argument list \<Rightarrow> nat \<Rightarrow> paired list" where
  "paired_arguments [] pos = []"
| "paired_arguments (a # args) pos =
    (case arg_type a of
       at_abstract \<Rightarrow> pv_abstract pos (pos + 1) # paired_arguments args (pos + 2)
     | at_unpack \<Rightarrow> pv_with_taint pos (pos + 1) (pos + 2) # paired_arguments args (pos + 3)
     | at_with_taint \<Rightarrow> pv_with_taint pos (pos + 1) (pos + 2) # paired_arguments args (pos + 3)
     | at_test \<Rightarrow> pv_concrete pos # paired_arguments args (pos + 1)
     | at_concrete \<Rightarrow> pv_concrete pos # paired_arguments args (pos + 1))"

definition paired_view :: "code \<Rightarrow> operation \<Rightarrow> paired list outcome" where
  "paired_view c x =
    omap (\<lambda>args. paired_arguments args (if o_emit_test_taint x then 1 else 0)) (o_arguments c x)"

section \<open>The state of the pass\<close>

text \<open>A value of the module after the pass: a null pointer, a value it had, or a call made here.\<close>

datatype sval = s_null | s_value operand | s_call nat

datatype slot = sl_lifter | sl_taint sval | sl_concrete sval | sl_abstract sval

abbreviation s_ir :: "nat \<Rightarrow> sval" where
  "s_ir v \<equiv> s_value (op_value v)"

record syn =
  syn_abstract :: "sval \<Rightarrow> sval option"
  syn_identity :: "(nat \<times> nat) list"
  syn_places :: "sval \<Rightarrow> (nat \<times> nat) list"
  syn_shadows :: "sval \<Rightarrow> sval option"
  syn_calls :: "(operation \<times> slot list) list"
  syn_replaced :: "(nat \<times> nat) list"

definition syn_init :: syn where
  "syn_init = \<lparr>syn_abstract = (\<lambda>_. None), syn_identity = [], syn_places = (\<lambda>_. []),
     syn_shadows = (\<lambda>_. None), syn_calls = [], syn_replaced = []\<rparr>"

text \<open>A value without a shadow is not tainted.\<close>

definition shadow_get :: "(sval \<Rightarrow> sval option) \<Rightarrow> sval \<Rightarrow> sval" where
  "shadow_get sh v = (case sh v of Some t \<Rightarrow> t | None \<Rightarrow> s_value (op_i1 False))"

fun actual_slot :: "(sval \<Rightarrow> sval option) \<Rightarrow> actual \<Rightarrow> slot" where
  "actual_slot sh (taint_of v) = sl_taint (shadow_get sh (s_value v))"
| "actual_slot sh (concrete_of v) = sl_concrete (s_value v)"
| "actual_slot sh (abstract_of v) = sl_abstract s_null"

definition make_intrinsic :: "code \<Rightarrow> operation \<Rightarrow> syn \<Rightarrow> (nat \<times> syn) outcome" where
  "make_intrinsic c x s =
    omap (\<lambda>actuals.
      (length (syn_calls s),
       s\<lparr>syn_calls := syn_calls s @ [(x, (if o_emit_test_taint x then [sl_lifter] else []) @
           map (actual_slot (syn_shadows s)) actuals)]\<rparr>))
      (duplicated_arguments c x)"

definition set_place :: "sval \<Rightarrow> nat \<times> nat \<Rightarrow> (operation \<times> slot list) list \<Rightarrow> (operation \<times> slot list) list" where
  "set_place v pl cs =
    (case pl of (i, pos) \<Rightarrow> case cs ! i of (x, slots) \<Rightarrow> cs[i := (x, slots[pos := sl_abstract v])])"

text \<open>Reading a missing entry of the table of abstract values makes a null one.\<close>

definition update_places :: "sval \<Rightarrow> syn \<Rightarrow> syn" where
  "update_places v s =
    (let a = (case syn_abstract s v of Some a \<Rightarrow> a | None \<Rightarrow> s_null) in
     s\<lparr>syn_abstract := (syn_abstract s)(v \<mapsto> a),
       syn_calls := fold (set_place a) (syn_places s v) (syn_calls s),
       syn_places := (syn_places s)(v := [])\<rparr>)"

definition give :: "sval \<Rightarrow> sval \<Rightarrow> syn \<Rightarrow> syn" where
  "give v a s = update_places v (s\<lparr>syn_abstract := (syn_abstract s)(v \<mapsto> a)\<rparr>)"

lemma give_simps [simp]:
  "syn_identity (give v a s) = syn_identity s"
  "syn_abstract (give v a s) = (syn_abstract s)(v \<mapsto> a)"
  "syn_places (give v a s) = (syn_places s)(v := [])"
  "syn_calls (give v a s) = fold (set_place a) (syn_places s v) (syn_calls s)"
  "syn_shadows (give v a s) = syn_shadows s"
  by (simp_all add: give_def update_places_def)

definition unset_identities :: "syn \<Rightarrow> nat" where
  "unset_identities s = length (filter (\<lambda>(src, dst). syn_abstract s (s_ir dst) = None) (syn_identity s))"

lemma unset_identities_give:
  assumes "map_of (syn_identity s) v = Some dst" "syn_abstract s (s_ir dst) = None"
  shows "unset_identities (give (s_ir dst) a s) < unset_identities s"
proof -
  let ?P = "\<lambda>(s :: syn) (src, dst). syn_abstract s (s_ir dst) = None"
  have in_id: "(v, dst) \<in> set (syn_identity s)"
    using assms(1) by (rule map_of_SomeD)
  have "filter (?P (give (s_ir dst) a s)) (syn_identity s) =
      filter (?P (give (s_ir dst) a s)) (filter (?P s) (syn_identity s))"
    by (auto intro!: filter_cong)
  moreover have "length \<dots> < length (filter (?P s) (syn_identity s))"
    by (rule length_filter_less [of "(v, dst)"]) (use in_id assms(2) in auto)
  ultimately show ?thesis
    by (simp add: unset_identities_def)
qed

function propagate_identity :: "nat \<Rightarrow> syn \<Rightarrow> syn outcome" where
  "propagate_identity from s =
    (case map_of (syn_identity s) from of None \<Rightarrow> Ret s
     | Some dst \<Rightarrow>
         if syn_abstract s (s_ir dst) \<noteq> None then Fault ''assert''
         else (case syn_abstract s (s_ir from) of None \<Rightarrow> Ret s
               | Some a \<Rightarrow> propagate_identity dst (give (s_ir dst) a s)))"
  by pat_completeness auto

termination
  by (relation "measure (\<lambda>(v, s). unset_identities s)", simp) (auto intro: unset_identities_give)

declare propagate_identity.simps [simp del]

section \<open>Processing an operation\<close>

definition concrete_at :: "slot list \<Rightarrow> nat \<Rightarrow> sval" where
  "concrete_at slots pos = (case slots ! pos of sl_concrete v \<Rightarrow> v | _ \<Rightarrow> s_null)"

definition set_or_store_place :: "nat \<Rightarrow> sval \<Rightarrow> nat \<Rightarrow> syn \<Rightarrow> syn" where
  "set_or_store_place i con pos s =
    (case syn_abstract s con of
       Some a \<Rightarrow> s\<lparr>syn_calls := set_place a (i, pos) (syn_calls s)\<rparr>
     | None \<Rightarrow> s\<lparr>syn_places := (syn_places s)(con := syn_places s con @ [(i, pos)])\<rparr>)"

definition link_argument :: "nat \<Rightarrow> paired \<Rightarrow> syn \<Rightarrow> syn" where
  "link_argument i p s =
    (let slots = snd (syn_calls s ! i) in
     case p of pv_with_taint t c a \<Rightarrow> set_or_store_place i (concrete_at slots c) a s
     | pv_abstract c a \<Rightarrow> set_or_store_place i (concrete_at slots c) a s
     | pv_concrete c \<Rightarrow> s)"

definition process_identity :: "code \<Rightarrow> nat \<Rightarrow> syn \<Rightarrow> syn outcome" where
  "process_identity c v s =
    (let src = cd_operand c v 0 in
     propagate_identity src
       (s\<lparr>syn_identity := (src, v) # filter (\<lambda>p. fst p \<noteq> src) (syn_identity s)\<rparr>))"

definition give_result :: "code \<Rightarrow> operation \<Rightarrow> nat \<Rightarrow> syn \<Rightarrow> syn outcome" where
  "give_result c x i s =
    (if o_returns_value x \<and> (\<forall>v. x \<noteq> o_unstash_taint v) \<and> \<not> o_faultable c x
     then propagate_identity (o_value x) (give (s_ir (o_value x)) (s_call i) s) else Ret s)"

text \<open>A division is replaced by its call; the call has the taint and abstraction unstashed for it.\<close>

definition link_faultable :: "code \<Rightarrow> operation \<Rightarrow> nat \<Rightarrow> syn \<Rightarrow> syn" where
  "link_faultable c x i s =
    (if o_returns_value x \<and> o_faultable c x
     then (let v = s_ir (o_value x);
               a = (case syn_abstract s v of Some a \<Rightarrow> a | None \<Rightarrow> s_null);
               t = (case syn_shadows s v of Some t \<Rightarrow> t | None \<Rightarrow> s_null) in
       s\<lparr>syn_abstract := (syn_abstract s)(v \<mapsto> a, s_call i \<mapsto> a),
         syn_shadows := (syn_shadows s)(v \<mapsto> t, s_call i \<mapsto> t)\<rparr>)
     else s)"

definition note_taint :: "operation \<Rightarrow> nat \<Rightarrow> syn \<Rightarrow> syn" where
  "note_taint x i s =
    (case x of o_unstash_taint v \<Rightarrow> s\<lparr>syn_shadows := (syn_shadows s)(s_ir v \<mapsto> s_call i)\<rparr> | _ \<Rightarrow> s)"

definition link_arguments :: "code \<Rightarrow> operation \<Rightarrow> nat \<Rightarrow> syn \<Rightarrow> syn outcome" where
  "link_arguments c x i s =
    obind (if o_with_taints x then Ret True else o_with_abstract_arg c x) (\<lambda>linked.
      if linked then omap (\<lambda>view. fold (link_argument i) view s) (paired_view c x) else Ret s)"

definition note_replaced :: "code \<Rightarrow> operation \<Rightarrow> nat \<Rightarrow> syn \<Rightarrow> syn" where
  "note_replaced c x i s =
    (case o_replaces c x of Some v \<Rightarrow> s\<lparr>syn_replaced := syn_replaced s @ [(v, i)]\<rparr> | None \<Rightarrow> s)"

definition process_operation :: "code \<Rightarrow> operation \<Rightarrow> syn \<Rightarrow> syn outcome" where
  "process_operation c x s =
    (case x of
       o_identity v \<Rightarrow> process_identity c v s
     | o_phi v \<Rightarrow> Ret s
     | _ \<Rightarrow>
       obind (make_intrinsic c x s) (\<lambda>(i, s1).
       obind (give_result c x i (note_taint x i s1)) (\<lambda>s2.
       omap (note_replaced c x i) (link_arguments c x i (link_faultable c x i s2)))))"

fun process_all :: "code \<Rightarrow> operation list \<Rightarrow> syn \<Rightarrow> syn outcome" where
  "process_all c [] s = Ret s"
| "process_all c (x # xs) s = obind (process_operation c x s) (process_all c xs)"

section \<open>What the places of a call should hold\<close>

text \<open>
  The places of the abstractions among the operands of a call of \<open>x\<close>, each with the value whose
  abstraction belongs there: a function of the operation alone.
\<close>

fun abstract_places :: "argument list \<Rightarrow> nat \<Rightarrow> (nat \<times> sval) list" where
  "abstract_places [] pos = []"
| "abstract_places (a # args) pos =
    (case arg_type a of
       at_abstract \<Rightarrow> (pos + 1, s_value (arg_value a)) # abstract_places args (pos + 2)
     | at_unpack \<Rightarrow> (pos + 2, s_value (arg_value a)) # abstract_places args (pos + 3)
     | at_with_taint \<Rightarrow> (pos + 2, s_value (arg_value a)) # abstract_places args (pos + 3)
     | at_test \<Rightarrow> abstract_places args (pos + 1)
     | at_concrete \<Rightarrow> abstract_places args (pos + 1))"

definition places_of :: "code \<Rightarrow> operation \<Rightarrow> (nat \<times> sval) list" where
  "places_of c x =
    (case o_arguments c x of
       Ret args \<Rightarrow> abstract_places args (if o_emit_test_taint x then 1 else 0) | _ \<Rightarrow> [])"

lemma abstract_places_from: "(a, k) \<in> set (abstract_places args pos) \<Longrightarrow> pos \<le> a"
  by (induction args arbitrary: pos) (fastforce split: argtype.splits)+

lemma abstract_places_unique:
  "(a, k) \<in> set (abstract_places args pos) \<Longrightarrow> (a, k') \<in> set (abstract_places args pos) \<Longrightarrow> k = k'"
proof (induction args arbitrary: pos)
  case (Cons x args)
  then show ?case
    by (auto split: argtype.splits dest: abstract_places_from)
qed simp

lemma places_of_unique: "(a, k) \<in> set (places_of c x) \<Longrightarrow> (a, k') \<in> set (places_of c x) \<Longrightarrow> k = k'"
  by (cases "o_arguments c x") (auto simp: places_of_def dest: abstract_places_unique)

section \<open>The invariant of the places\<close>

text \<open>
  The first \<open>n\<close> calls are linked: a place holds the abstraction of its value if that is known, and
  null otherwise, and then it is remembered under that value; nothing else is remembered.
\<close>

definition place_holds :: "syn \<Rightarrow> nat \<Rightarrow> nat \<times> sval \<Rightarrow> bool" where
  "place_holds s i = (\<lambda>(a, k). a < length (snd (syn_calls s ! i)) \<and>
    snd (syn_calls s ! i) ! a = sl_abstract (case syn_abstract s k of Some v \<Rightarrow> v | None \<Rightarrow> s_null) \<and>
    (syn_abstract s k = None \<longrightarrow> (i, a) \<in> set (syn_places s k)))"

definition filled :: "code \<Rightarrow> nat \<Rightarrow> syn \<Rightarrow> bool" where
  "filled c n s \<longleftrightarrow> n \<le> length (syn_calls s) \<and>
    (\<forall>i<n. \<forall>p \<in> set (places_of c (fst (syn_calls s ! i))). place_holds s i p) \<and>
    (\<forall>k. \<forall>(i, a) \<in> set (syn_places s k). i < n \<and> (a, k) \<in> set (places_of c (fst (syn_calls s ! i))))"

lemma filledD:
  assumes "filled c n s"
  shows "n \<le> length (syn_calls s)"
    and "i < n \<Longrightarrow> (a, k) \<in> set (places_of c (fst (syn_calls s ! i))) \<Longrightarrow> place_holds s i (a, k)"
    and "(i, a) \<in> set (syn_places s k) \<Longrightarrow> i < n"
    and "(i, a) \<in> set (syn_places s k) \<Longrightarrow> (a, k) \<in> set (places_of c (fst (syn_calls s ! i)))"
  using assms by (auto simp: filled_def)

lemma filledI:
  assumes "n \<le> length (syn_calls s)"
    and "\<And>i a k. i < n \<Longrightarrow> (a, k) \<in> set (places_of c (fst (syn_calls s ! i))) \<Longrightarrow> place_holds s i (a, k)"
    and "\<And>i a k. (i, a) \<in> set (syn_places s k) \<Longrightarrow>
      i < n \<and> (a, k) \<in> set (places_of c (fst (syn_calls s ! i)))"
  shows "filled c n s"
  using assms by (auto simp: filled_def)

lemma set_place_simps [simp]:
  "length (set_place v pl cs) = length cs"
  "i < length cs \<Longrightarrow> fst (set_place v pl cs ! i) = fst (cs ! i)"
  "i < length cs \<Longrightarrow> length (snd (set_place v pl cs ! i)) = length (snd (cs ! i))"
  by (cases pl; cases "fst pl = i"; auto simp: set_place_def split: prod.splits)+

lemma set_place_slot:
  "i < length cs \<Longrightarrow> a < length (snd (cs ! i)) \<Longrightarrow>
    snd (set_place v pl cs ! i) ! a = (if pl = (i, a) then sl_abstract v else snd (cs ! i) ! a)"
  by (cases pl; cases "fst pl = i") (auto simp: set_place_def split: prod.splits)

lemma set_place_other: "i \<noteq> fst pl \<Longrightarrow> set_place v pl cs ! i = cs ! i"
  by (auto simp: set_place_def split: prod.splits)

lemma set_places_simps [simp]:
  "length (fold (set_place v) pls cs) = length cs"
  "i < length cs \<Longrightarrow> fst (fold (set_place v) pls cs ! i) = fst (cs ! i)"
  "i < length cs \<Longrightarrow> length (snd (fold (set_place v) pls cs ! i)) = length (snd (cs ! i))"
  by (induction pls arbitrary: cs) auto

lemma set_places_slot:
  "i < length cs \<Longrightarrow> a < length (snd (cs ! i)) \<Longrightarrow>
    snd (fold (set_place v) pls cs ! i) ! a = (if (i, a) \<in> set pls then sl_abstract v else snd (cs ! i) ! a)"
  by (induction pls arbitrary: cs) (auto simp: set_place_slot)

lemma set_places_other: "i \<notin> fst ` set pls \<Longrightarrow> fold (set_place v) pls cs ! i = cs ! i"
  by (induction pls arbitrary: cs) (auto simp: set_place_other)

lemma give_filled:
  assumes "filled c n s" "syn_abstract s k = None"
  shows "filled c n (give k v s)"
proof (rule filledI)
  note f = filledD [OF assms(1)]
  show "n \<le> length (syn_calls (give k v s))"
    using f(1) by simp
  show "i < n \<and> (a, k') \<in> set (places_of c (fst (syn_calls (give k v s) ! i)))"
    if "(i, a) \<in> set (syn_places (give k v s) k')" for i a k'
    using that f(1) f(3,4) [of i a k'] by (auto split: if_splits)
  show "place_holds (give k v s) i (a, k')"
    if i: "i < n" and a: "(a, k') \<in> set (places_of c (fst (syn_calls (give k v s) ! i)))" for i a k'
  proof -
    have len: "i < length (syn_calls s)" using i f(1) by simp
    with a have a': "(a, k') \<in> set (places_of c (fst (syn_calls s ! i)))" by simp
    have h: "place_holds s i (a, k')" using i a' by (rule f(2))
    have "(i, a) \<in> set (syn_places s k) \<longleftrightarrow> k' = k"
      using h assms(2) places_of_unique [OF a'] by (auto simp: place_holds_def dest: f(4))
    with h len show ?thesis
      by (auto simp: place_holds_def set_places_slot)
  qed
qed

lemma give_later: "filled c n s \<Longrightarrow> n \<le> i \<Longrightarrow> syn_calls (give k v s) ! i = syn_calls s ! i"
  using filledD(3) [of c n s] by (fastforce intro: set_places_other)

lemma give_length [simp]: "length (syn_calls (give k v s)) = length (syn_calls s)"
  by simp

section \<open>Linking the arguments of a new call\<close>

definition link_places :: "nat \<Rightarrow> (nat \<times> sval) list \<Rightarrow> syn \<Rightarrow> syn" where
  "link_places i qs s = fold (\<lambda>(a, k). set_or_store_place i k a) qs s"

lemma set_or_store_simps [simp]:
  "syn_abstract (set_or_store_place i k a s) = syn_abstract s"
  "syn_identity (set_or_store_place i k a s) = syn_identity s"
  "syn_shadows (set_or_store_place i k a s) = syn_shadows s"
  "length (syn_calls (set_or_store_place i k a s)) = length (syn_calls s)"
  "j \<noteq> i \<Longrightarrow> syn_calls (set_or_store_place i k a s) ! j = syn_calls s ! j"
  "i < length (syn_calls s) \<Longrightarrow> fst (syn_calls (set_or_store_place i k a s) ! i) = fst (syn_calls s ! i)"
  "i < length (syn_calls s) \<Longrightarrow>
    snd (syn_calls (set_or_store_place i k a s) ! i) =
      (case syn_abstract s k of Some v \<Rightarrow> (snd (syn_calls s ! i))[a := sl_abstract v]
       | None \<Rightarrow> snd (syn_calls s ! i))"
  by (auto simp: set_or_store_place_def set_place_other split: option.splits)
    (auto simp: set_place_def split: prod.splits)

lemma set_or_store_places:
  "set (syn_places (set_or_store_place i k a s) k') =
    set (syn_places s k') \<union> (if k' = k \<and> syn_abstract s k = None then {(i, a)} else {})"
  by (auto simp: set_or_store_place_def split: option.splits)

lemma link_places_simps [simp]:
  "syn_abstract (link_places i qs s) = syn_abstract s"
  "syn_identity (link_places i qs s) = syn_identity s"
  "syn_shadows (link_places i qs s) = syn_shadows s"
  "length (syn_calls (link_places i qs s)) = length (syn_calls s)"
  "j \<noteq> i \<Longrightarrow> syn_calls (link_places i qs s) ! j = syn_calls s ! j"
  "i < length (syn_calls s) \<Longrightarrow> fst (syn_calls (link_places i qs s) ! i) = fst (syn_calls s ! i)"
  "i < length (syn_calls s) \<Longrightarrow>
    length (snd (syn_calls (link_places i qs s) ! i)) = length (snd (syn_calls s ! i))"
  by (induction qs arbitrary: s) (auto simp: link_places_def split: option.splits)

lemma link_places_stored:
  "set (syn_places (link_places i qs s) k) =
    set (syn_places s k) \<union> {(i, a) | a. (a, k) \<in> set qs \<and> syn_abstract s k = None}"
  by (induction qs arbitrary: s) (auto simp: link_places_def set_or_store_places split: if_splits)

lemma link_places_slot:
  assumes "i < length (syn_calls s)" "a < length (snd (syn_calls s ! i))"
    and "\<And>k'. (a, k') \<in> set qs \<Longrightarrow> k' = k"
  shows "snd (syn_calls (link_places i qs s) ! i) ! a =
    (case syn_abstract s k of Some v \<Rightarrow> if (a, k) \<in> set qs then sl_abstract v else snd (syn_calls s ! i) ! a
     | None \<Rightarrow> snd (syn_calls s ! i) ! a)"
  using assms
proof (induction qs arbitrary: s)
  case Nil
  then show ?case by (simp add: link_places_def split: option.splits)
next
  case (Cons q qs)
  obtain b l where q: "q = (b, l)" by (cases q)
  let ?s = "set_or_store_place i l b s"
  have "snd (syn_calls (link_places i qs ?s) ! i) ! a =
    (case syn_abstract s k of Some v \<Rightarrow> if (a, k) \<in> set qs then sl_abstract v else snd (syn_calls ?s ! i) ! a
     | None \<Rightarrow> snd (syn_calls ?s ! i) ! a)"
    using Cons.IH [of ?s] Cons.prems by (auto split: option.splits)
  moreover have "snd (syn_calls ?s ! i) ! a =
    (case syn_abstract s k of Some v \<Rightarrow> if (a, k) = q then sl_abstract v else snd (syn_calls s ! i) ! a
     | None \<Rightarrow> snd (syn_calls s ! i) ! a)"
    using Cons.prems Cons.prems(3) [of l] q by (cases "b = a") (auto split: option.splits)
  ultimately show ?case
    by (auto simp: q link_places_def split: option.splits)
qed

lemma duplicated_argument_simps:
  "arg_type x = at_test \<Longrightarrow> duplicated_argument x = [taint_of (arg_value x)]"
  "arg_type x = at_concrete \<Longrightarrow> duplicated_argument x = [concrete_of (arg_value x)]"
  "arg_type x = at_abstract \<Longrightarrow> duplicated_argument x = [concrete_of (arg_value x), abstract_of (arg_value x)]"
  "arg_type x = at_with_taint \<Longrightarrow> duplicated_argument x =
    [taint_of (arg_value x), concrete_of (arg_value x), abstract_of (arg_value x)]"
  "arg_type x = at_unpack \<Longrightarrow> duplicated_argument x =
    [taint_of (arg_value x), concrete_of (arg_value x), abstract_of (arg_value x)]"
  by (simp_all add: duplicated_argument_def)

lemma link_argument_view:
  assumes "i < length (syn_calls s)"
    and "snd (syn_calls s ! i) = pre @ map (actual_slot sh) (concat (map duplicated_argument args))"
  shows "fold (link_argument i) (paired_arguments args (length pre)) s =
    link_places i (abstract_places args (length pre)) s"
  using assms
proof (induction args arbitrary: pre s)
  case Nil
  then show ?case by (simp add: link_places_def)
next
  case (Cons x args)
  note ih = Cons.IH
  have len: "i < length (syn_calls s)" by (rule Cons.prems)
  let ?rest = "map (actual_slot sh) (concat (map duplicated_argument args))"
  show ?case
  proof (cases "arg_type x")
    case at_test
    have "snd (syn_calls s ! i) = (pre @ [sl_taint (shadow_get sh (s_value (arg_value x)))]) @ ?rest"
      using Cons.prems at_test by (simp add: duplicated_argument_simps)
    from ih [OF len this] show ?thesis using at_test by (simp add: link_argument_def)
  next
    case at_concrete
    have "snd (syn_calls s ! i) = (pre @ [sl_concrete (s_value (arg_value x))]) @ ?rest"
      using Cons.prems at_concrete by (simp add: duplicated_argument_simps)
    from ih [OF len this] show ?thesis using at_concrete by (simp add: link_argument_def)
  next
    case at_abstract
    let ?k = "s_value (arg_value x)" and ?a = "length pre + 1"
    let ?s = "set_or_store_place i ?k ?a s"
    have slots: "snd (syn_calls s ! i) = pre @ [sl_concrete ?k, sl_abstract s_null] @ ?rest"
      using Cons.prems at_abstract by (simp add: duplicated_argument_simps)
    then have "\<exists>w. snd (syn_calls ?s ! i) = (pre @ [sl_concrete ?k, sl_abstract w]) @ ?rest"
      using len by (auto simp: list_update_append split: option.splits)
    then obtain w where "snd (syn_calls ?s ! i) = (pre @ [sl_concrete ?k, sl_abstract w]) @ ?rest" ..
    from ih [OF _ this] len slots at_abstract show ?thesis
      by (simp add: link_argument_def link_places_def concrete_at_def nth_append)
  next
    case at_with_taint
    let ?k = "s_value (arg_value x)" and ?a = "length pre + 2"
    let ?s = "set_or_store_place i ?k ?a s" and ?t = "sl_taint (shadow_get sh (s_value (arg_value x)))"
    have slots: "snd (syn_calls s ! i) = pre @ [?t, sl_concrete ?k, sl_abstract s_null] @ ?rest"
      using Cons.prems at_with_taint by (simp add: duplicated_argument_simps)
    then have "\<exists>w. snd (syn_calls ?s ! i) = (pre @ [?t, sl_concrete ?k, sl_abstract w]) @ ?rest"
      using len by (auto simp: list_update_append split: option.splits)
    then obtain w where "snd (syn_calls ?s ! i) = (pre @ [?t, sl_concrete ?k, sl_abstract w]) @ ?rest" ..
    from ih [OF _ this] len slots at_with_taint show ?thesis
      by (simp add: link_argument_def link_places_def concrete_at_def nth_append numeral_3_eq_3)
  next
    case at_unpack
    let ?k = "s_value (arg_value x)" and ?a = "length pre + 2"
    let ?s = "set_or_store_place i ?k ?a s" and ?t = "sl_taint (shadow_get sh (s_value (arg_value x)))"
    have slots: "snd (syn_calls s ! i) = pre @ [?t, sl_concrete ?k, sl_abstract s_null] @ ?rest"
      using Cons.prems at_unpack by (simp add: duplicated_argument_simps)
    then have "\<exists>w. snd (syn_calls ?s ! i) = (pre @ [?t, sl_concrete ?k, sl_abstract w]) @ ?rest"
      using len by (auto simp: list_update_append split: option.splits)
    then obtain w where "snd (syn_calls ?s ! i) = (pre @ [?t, sl_concrete ?k, sl_abstract w]) @ ?rest" ..
    from ih [OF _ this] len slots at_unpack show ?thesis
      by (simp add: link_argument_def link_places_def concrete_at_def nth_append numeral_3_eq_3)
  qed
qed

lemma fresh_slots:
  "(a, k) \<in> set (abstract_places args (length pre)) \<Longrightarrow>
    a < length (pre @ map (actual_slot sh) (concat (map duplicated_argument args))) \<and>
    (pre @ map (actual_slot sh) (concat (map duplicated_argument args))) ! a = sl_abstract s_null"
proof (induction args arbitrary: pre)
  case (Cons x args)
  let ?dup = "map (actual_slot sh) (duplicated_argument x)"
  have ih: "(a, k) \<in> set (abstract_places args (length pre + length ?dup)) \<Longrightarrow> ?case"
    using Cons.IH [of "pre @ ?dup"] by simp
  show ?case
    using Cons.prems ih
    by (cases "arg_type x") (auto simp: duplicated_argument_simps nth_append numeral_3_eq_3 numeral_2_eq_2)
qed simp

lemma link_filled:
  assumes f: "filled c i s" and len: "length (syn_calls s) = Suc i" and x: "syn_calls s ! i = (x, slots)"
    and fresh: "\<And>a k. (a, k) \<in> set (places_of c x) \<Longrightarrow> a < length slots \<and> slots ! a = sl_abstract s_null"
  shows "filled c (Suc i) (link_places i (places_of c x) s)"
proof (rule filledI)
  let ?s = "link_places i (places_of c x) s"
  note f = filledD [OF f]
  show "Suc i \<le> length (syn_calls ?s)"
    using len by simp
  show "j < Suc i \<and> (a, k) \<in> set (places_of c (fst (syn_calls ?s ! j)))"
    if "(j, a) \<in> set (syn_places ?s k)" for j a k
    using that len x f(3,4) [of j a k] by (cases "j = i") (auto simp: link_places_stored less_Suc_eq)
  show "place_holds ?s j (a, k)"
    if j: "j < Suc i" and a: "(a, k) \<in> set (places_of c (fst (syn_calls ?s ! j)))" for j a k
  proof (cases "j = i")
    case True
    with a x len have a: "(a, k) \<in> set (places_of c x)" by simp
    have slot: "a < length (snd (syn_calls s ! i))" "snd (syn_calls s ! i) ! a = sl_abstract s_null"
      using fresh [OF a] x by simp_all
    have "snd (syn_calls ?s ! i) ! a =
        (case syn_abstract s k of Some v \<Rightarrow> sl_abstract v | None \<Rightarrow> sl_abstract s_null)"
      using link_places_slot [of i s a "places_of c x" k, OF _ slot(1) places_of_unique [OF _ a]] len a slot(2)
      by (simp split: option.splits)
    with True len slot(1) a show ?thesis
      by (simp add: place_holds_def link_places_stored split: option.splits)
  next
    case False
    with j a have "place_holds s j (a, k)" by (intro f(2)) auto
    with False j show ?thesis by (auto simp: place_holds_def link_places_stored)
  qed
qed

section \<open>Whose abstraction a value has\<close>

text \<open>
  The specification of the table: an operation gives its value an abstraction, and an identity
  cast has the abstraction of its operand. The order of the operations plays no role.
\<close>

definition given :: "code \<Rightarrow> operation \<Rightarrow> nat list" where
  "given c x =
    (case x of o_identity v \<Rightarrow> [v] | o_phi v \<Rightarrow> []
     | _ \<Rightarrow> if o_returns_value x \<and> (\<forall>v. x \<noteq> o_unstash_taint v) \<and> \<not> o_faultable c x
           then [o_value x] else [])"

definition identity_sources :: "code \<Rightarrow> operation \<Rightarrow> nat list" where
  "identity_sources c x = (case x of o_identity v \<Rightarrow> [cd_operand c v 0] | _ \<Rightarrow> [])"

inductive derives :: "code \<Rightarrow> operation list \<Rightarrow> nat \<Rightarrow> operation \<Rightarrow> bool" for c ops where
  derives_made: "x \<in> set ops \<Longrightarrow> given c x = [v] \<Longrightarrow> \<forall>u. x \<noteq> o_identity u \<Longrightarrow> derives c ops v x"
| derives_cast: "o_identity v \<in> set ops \<Longrightarrow> derives c ops (cd_operand c v 0) x \<Longrightarrow> derives c ops v x"

lemma derives_given: "derives c ops v x \<Longrightarrow> \<exists>y \<in> set ops. v \<in> set (given c y)"
proof (induction rule: derives.induct)
  case (derives_made x v)
  then have "v \<in> set (given c x)" by simp
  with derives_made show ?case by blast
next
  case (derives_cast v x)
  have "v \<in> set (given c (o_identity v))" by (simp add: given_def)
  with derives_cast show ?case by blast
qed

lemma derives_mono: "derives c ops v x \<Longrightarrow> set ops \<subseteq> set ops' \<Longrightarrow> derives c ops' v x"
  by (induction rule: derives.induct) (auto intro: derives.intros)

definition pairs_ok :: "syn \<Rightarrow> bool" where
  "pairs_ok s \<longleftrightarrow> (\<forall>(u, v) \<in> set (syn_identity s). syn_abstract s (s_ir v) = syn_abstract s (s_ir u))"

text \<open>What propagation does, for a property \<open>Q\<close> of values that identity casts preserve.\<close>

definition propagated :: "nat \<Rightarrow> (nat \<Rightarrow> bool) \<Rightarrow> nat \<Rightarrow> syn \<Rightarrow> syn \<Rightarrow> bool" where
  "propagated n Q v s s' \<longleftrightarrow>
    syn_identity s' = syn_identity s \<and> length (syn_calls s') = length (syn_calls s) \<and>
    (\<forall>i \<ge> n. syn_calls s' ! i = syn_calls s ! i) \<and>
    (\<forall>i < length (syn_calls s). fst (syn_calls s' ! i) = fst (syn_calls s ! i)) \<and>
    (\<forall>k. syn_abstract s' k = syn_abstract s k \<or>
      syn_abstract s k = None \<and> syn_abstract s' k = syn_abstract s (s_ir v) \<and> (\<exists>w. k = s_ir w \<and> Q w))"

lemma propagated_refl: "propagated n Q v s s"
  by (simp add: propagated_def)

lemma propagated_step:
  assumes "filled c n s" "syn_abstract s (s_ir dst) = None" "syn_abstract s (s_ir v) = Some a" "Q dst"
    and p: "propagated n Q dst (give (s_ir dst) a s) s'"
  shows "propagated n Q v s s'"
proof -
  let ?s = "give (s_ir dst) a s"
  have "syn_abstract s' k = syn_abstract s k \<or> syn_abstract s k = None \<and>
      syn_abstract s' k = syn_abstract s (s_ir v) \<and> (\<exists>w. k = s_ir w \<and> Q w)" for k
  proof -
    have "syn_abstract s' k = syn_abstract ?s k \<or> syn_abstract ?s k = None \<and>
        syn_abstract s' k = syn_abstract ?s (s_ir dst) \<and> (\<exists>w. k = s_ir w \<and> Q w)"
      using p by (simp add: propagated_def)
    with assms(2-4) show ?thesis by (cases "k = s_ir dst") auto
  qed
  moreover have "syn_calls s' ! i = syn_calls s ! i" if "n \<le> i" for i
    using p that give_later [OF assms(1) that] by (simp add: propagated_def)
  moreover have "fst (syn_calls s' ! i) = fst (syn_calls s ! i)" if "i < length (syn_calls s)" for i
    using p that by (simp add: propagated_def)
  moreover have "syn_identity s' = syn_identity s" "length (syn_calls s') = length (syn_calls s)"
    using p by (simp_all add: propagated_def)
  ultimately show ?thesis
    by (simp add: propagated_def)
qed

lemma propagate_identity_spec:
  assumes "filled c n s" "distinct (map fst (syn_identity s))"
    and "\<And>u w. (u, w) \<in> set (syn_identity s) \<Longrightarrow> u = g w"
    and "\<And>u w. (u, w) \<in> set (syn_identity s) \<Longrightarrow> u \<noteq> v \<Longrightarrow> syn_abstract s (s_ir w) = syn_abstract s (s_ir u)"
    and "\<And>w. (v, w) \<in> set (syn_identity s) \<Longrightarrow> syn_abstract s (s_ir w) = None"
    and "Q v" "\<And>u w. (u, w) \<in> set (syn_identity s) \<Longrightarrow> Q u \<Longrightarrow> Q w"
  shows "\<exists>s'. propagate_identity v s = Ret s' \<and> filled c n s' \<and> pairs_ok s' \<and> propagated n Q v s s'"
  using assms
proof (induction v s rule: propagate_identity.induct)
  case (1 v s)
  note src = "1.prems"(3) and ok = "1.prems"(4) and unset = "1.prems"(5)
  show ?case
  proof (cases "map_of (syn_identity s) v")
    case None
    then have "\<And>w. (v, w) \<notin> set (syn_identity s)"
      by (auto simp: map_of_eq_None_iff image_iff)
    with ok have "pairs_ok s"
      by (fastforce simp: pairs_ok_def)
    with None "1.prems"(1) show ?thesis
      by (simp add: propagate_identity.simps [of v] propagated_refl)
  next
    case (Some dst)
    then have dst: "(v, dst) \<in> set (syn_identity s)" by (rule map_of_SomeD)
    have none: "syn_abstract s (s_ir dst) = None" using dst by (rule unset)
    show ?thesis
    proof (cases "syn_abstract s (s_ir v)")
      case None
      have "pairs_ok s"
        unfolding pairs_ok_def using ok unset None by fastforce
      with None Some none "1.prems"(1) show ?thesis
        by (simp add: propagate_identity.simps [of v] propagated_refl)
    next
      case a: (Some a)
      let ?s = "give (s_ir dst) a s"
      have only: "w = dst" if "(v, w) \<in> set (syn_identity s)" for w
        using map_of_is_SomeI [OF "1.prems"(2) that] Some by simp
      have neq: "v \<noteq> dst" using a none by auto
      have ok': "syn_abstract ?s (s_ir w) = syn_abstract ?s (s_ir u)"
        if "(u, w) \<in> set (syn_identity ?s)" "u \<noteq> dst" for u w
      proof (cases "u = v")
        case True
        with that only neq a show ?thesis by auto
      next
        case False
        have uw: "(u, w) \<in> set (syn_identity s)" using that(1) by simp
        have "w \<noteq> dst" using False src [OF dst] src [OF uw] by blast
        with that(2) ok [OF uw False] show ?thesis by simp
      qed
      have unset': "syn_abstract ?s (s_ir w) = None" if "(dst, w) \<in> set (syn_identity ?s)" for w
      proof -
        have dw: "(dst, w) \<in> set (syn_identity s)" using that by simp
        have "w \<noteq> dst" using src [OF dst] src [OF dw] neq by metis
        with ok [OF dw] neq none show ?thesis by simp
      qed
      have Q: "Q dst" using dst "1.prems"(6,7) by blast
      have "\<exists>s'. propagate_identity dst ?s = Ret s' \<and> filled c n s' \<and> pairs_ok s' \<and> propagated n Q dst ?s s'"
      proof (rule "1.IH" [OF Some _ a])
        show "\<not> syn_abstract s (s_ir dst) \<noteq> None" using none by simp
        show "filled c n ?s" using "1.prems"(1) none by (rule give_filled)
        show "distinct (map fst (syn_identity ?s))" using "1.prems"(2) by simp
        show "u = g w" if "(u, w) \<in> set (syn_identity ?s)" for u w using that src by simp
        show "Q dst" by (rule Q)
        show "Q w" if "(u, w) \<in> set (syn_identity ?s)" "Q u" for u w
          using that "1.prems"(7) by simp
      qed (fact ok' unset')+
      then obtain s' where s': "propagate_identity dst ?s = Ret s'" "filled c n s'" "pairs_ok s'"
          "propagated n Q dst ?s s'"
        by (elim exE conjE)
      have "propagate_identity v s = Ret s'"
        using s'(1) Some none a by (simp add: propagate_identity.simps [of v])
      with s'(2,3) propagated_step [OF "1.prems"(1) none a, OF Q s'(4)] show ?thesis
        by blast
    qed
  qed
qed

section \<open>The table after some operations\<close>

definition entries_ok :: "code \<Rightarrow> operation list \<Rightarrow> syn \<Rightarrow> bool" where
  "entries_ok c done s \<longleftrightarrow>
    (\<forall>x v. x \<in> set done \<and> given c x = [v] \<and> (\<forall>u. x \<noteq> o_identity u) \<longrightarrow>
      (\<exists>i < length (syn_calls s). syn_abstract s (s_ir v) = Some (s_call i) \<and> fst (syn_calls s ! i) = x)) \<and>
    (\<forall>k a. syn_abstract s k = Some a \<longrightarrow>
      (\<exists>v i. k = s_ir v \<and> a = s_call i \<and> i < length (syn_calls s) \<and>
        derives c done v (fst (syn_calls s ! i))))"

definition identities_ok :: "code \<Rightarrow> operation list \<Rightarrow> syn \<Rightarrow> bool" where
  "identities_ok c done s \<longleftrightarrow> distinct (map fst (syn_identity s)) \<and>
    set (syn_identity s) = {(cd_operand c v 0, v) | v. o_identity v \<in> set done}"

definition table_ok :: "code \<Rightarrow> operation list \<Rightarrow> syn \<Rightarrow> bool" where
  "table_ok c done s \<longleftrightarrow>
    filled c (length (syn_calls s)) s \<and> pairs_ok s \<and> identities_ok c done s \<and> entries_ok c done s"

lemma table_init: "table_ok c [] syn_init"
  by (simp add: table_ok_def syn_init_def filled_def pairs_ok_def identities_ok_def entries_ok_def)

lemma entries_derive:
  "entries_ok c done s \<Longrightarrow> syn_abstract s k = Some a \<Longrightarrow>
    \<exists>v i. k = s_ir v \<and> a = s_call i \<and> i < length (syn_calls s) \<and> derives c done v (fst (syn_calls s ! i))"
  unfolding entries_ok_def by blast

lemma table_derives:
  "table_ok c done s \<Longrightarrow> syn_abstract s k = Some a \<Longrightarrow>
    \<exists>v i. k = s_ir v \<and> a = s_call i \<and> i < length (syn_calls s) \<and> derives c done v (fst (syn_calls s ! i))"
  unfolding table_ok_def by (blast dest: entries_derive)

lemma entries_made:
  assumes "entries_ok c done s" "x \<in> set done" "given c x = [v]" "\<forall>u. x \<noteq> o_identity u"
  shows "\<exists>i < length (syn_calls s). syn_abstract s (s_ir v) = Some (s_call i) \<and> fst (syn_calls s ! i) = x"
  using assms unfolding entries_ok_def by blast

lemma entries_propagated:
  assumes e: "entries_ok c done s" and p: "propagated n Q v s s'"
    and Q: "\<And>w i. Q w \<Longrightarrow> syn_abstract s (s_ir v) = Some (s_call i) \<Longrightarrow>
      derives c done w (fst (syn_calls s ! i))"
  shows "entries_ok c done s'"
  unfolding entries_ok_def
proof (intro conjI allI impI)
  have len: "length (syn_calls s') = length (syn_calls s)"
    and ops: "\<And>i. i < length (syn_calls s) \<Longrightarrow> fst (syn_calls s' ! i) = fst (syn_calls s ! i)"
    and abs: "\<And>k. syn_abstract s' k = syn_abstract s k \<or> syn_abstract s k = None \<and>
      syn_abstract s' k = syn_abstract s (s_ir v) \<and> (\<exists>w. k = s_ir w \<and> Q w)"
    using p by (simp_all add: propagated_def)
  show "\<exists>i < length (syn_calls s'). syn_abstract s' (s_ir w) = Some (s_call i) \<and> fst (syn_calls s' ! i) = x"
    if x: "x \<in> set done \<and> given c x = [w] \<and> (\<forall>u. x \<noteq> o_identity u)" for x w
  proof -
    obtain i where i: "i < length (syn_calls s)" "syn_abstract s (s_ir w) = Some (s_call i)"
        "fst (syn_calls s ! i) = x"
      using entries_made [OF e, of x w] x by blast
    with abs [of "s_ir w"] ops [OF i(1)] len show ?thesis by (intro exI [of _ i]) auto
  qed
  show "\<exists>w i. k = s_ir w \<and> a = s_call i \<and> i < length (syn_calls s') \<and> derives c done w (fst (syn_calls s' ! i))"
    if a: "syn_abstract s' k = Some a" for k a
  proof (cases "syn_abstract s k")
    case (Some b)
    with abs [of k] a entries_derive [OF e, of k a] len ops show ?thesis by auto
  next
    case None
    with abs [of k] a obtain w where w: "syn_abstract s (s_ir v) = Some a" "k = s_ir w" "Q w" by auto
    then obtain i where i: "a = s_call i" "i < length (syn_calls s)"
      using entries_derive [OF e w(1)] by auto
    with w Q [OF w(3), of i] len ops show ?thesis by auto
  qed
qed

lemma table_unset:
  assumes "table_ok c done s" "\<And>y. y \<in> set done \<Longrightarrow> v \<notin> set (given c y)"
  shows "syn_abstract s (s_ir v) = None"
proof (cases "syn_abstract s (s_ir v)")
  case (Some a)
  then obtain i where "derives c done v (fst (syn_calls s ! i))"
    using table_derives [OF assms(1)] by blast
  with assms(2) show ?thesis by (blast dest: derives_given)
qed

lemma o_arguments_Ret:
  "(\<And>v. x \<noteq> o_identity v) \<Longrightarrow> (\<And>v. x \<noteq> o_phi v) \<Longrightarrow> \<exists>args. o_arguments c x = Ret args"
  by (cases x) auto

lemma places_untainted:
  "\<not> o_with_taints x \<Longrightarrow> (\<And>v. x \<noteq> o_identity v) \<Longrightarrow> (\<And>v. x \<noteq> o_phi v) \<Longrightarrow> places_of c x = []"
  by (cases x) (simp_all add: places_of_def o_with_taints_def o_emit_test_taint_def)

lemma no_abstract_args: "o_arguments c x = Ret args \<Longrightarrow> o_with_abstract_arg c x = Ret False"
  by (cases x) (auto simp: o_with_abstract_arg_def)

definition call_slots :: "operation \<Rightarrow> argument list \<Rightarrow> (sval \<Rightarrow> sval option) \<Rightarrow> slot list" where
  "call_slots x args sh = (if o_emit_test_taint x then [sl_lifter] else []) @
    map (actual_slot sh) (concat (map duplicated_argument args))"

lemma call_slots_fresh:
  assumes "o_arguments c x = Ret args" "(a, k) \<in> set (places_of c x)"
  shows "a < length (call_slots x args sh) \<and> call_slots x args sh ! a = sl_abstract s_null"
  using assms fresh_slots [of a k args "if o_emit_test_taint x then [sl_lifter] else []" sh]
  by (simp add: places_of_def call_slots_def split: if_splits)

lemma link_arguments_places:
  assumes "o_arguments c x = Ret args" "i < length (syn_calls s)"
    and "snd (syn_calls s ! i) = call_slots x args sh"
    and "\<And>v. x \<noteq> o_identity v" "\<And>v. x \<noteq> o_phi v"
  shows "link_arguments c x i s = Ret (link_places i (places_of c x) s)"
proof (cases "o_with_taints x")
  case True
  with link_argument_view [OF assms(2), of "if o_emit_test_taint x then [sl_lifter] else []" sh args] assms(1,3)
  show ?thesis
    by (simp add: link_arguments_def paired_view_def places_of_def call_slots_def split: if_splits)
next
  case False
  with places_untainted [OF False assms(4,5), of c] no_abstract_args [OF assms(1)] show ?thesis
    by (simp add: link_arguments_def link_places_def)
qed

lemma identities_source:
  "identities_ok c done s \<Longrightarrow> (u, w) \<in> set (syn_identity s) \<Longrightarrow>
    u = cd_operand c w 0 \<and> o_identity w \<in> set done"
  by (auto simp: identities_ok_def)

lemma filled_identity [simp]: "filled c n (s\<lparr>syn_identity := ps\<rparr>) = filled c n s"
  by (simp add: filled_def place_holds_def)

lemma entries_identity:
  assumes e: "entries_ok c done s"
  shows "entries_ok c (done @ [o_identity v]) (s\<lparr>syn_identity := ps\<rparr>)"
proof -
  let ?s = "s\<lparr>syn_identity := ps\<rparr>" and ?done = "done @ [o_identity v]"
  have "\<exists>i < length (syn_calls ?s). syn_abstract ?s (s_ir w) = Some (s_call i) \<and> fst (syn_calls ?s ! i) = x"
    if "x \<in> set ?done" "given c x = [w]" "\<forall>u. x \<noteq> o_identity u" for x w
    using that entries_made [OF e, of x w] by auto
  moreover have "\<exists>w i. k = s_ir w \<and> a = s_call i \<and> i < length (syn_calls ?s) \<and>
      derives c ?done w (fst (syn_calls ?s ! i))"
    if k: "syn_abstract ?s k = Some a" for k a
  proof -
    have "syn_abstract s k = Some a" using k by simp
    then obtain w i where w: "k = s_ir w" "a = s_call i" "i < length (syn_calls s)"
        "derives c done w (fst (syn_calls s ! i))"
      using entries_derive [OF e] by blast
    from w(4) have "derives c ?done w (fst (syn_calls s ! i))"
      by (rule derives_mono) auto
    with w show ?thesis by auto
  qed
  ultimately show ?thesis
    unfolding entries_ok_def by blast
qed

lemma process_identity_step:
  assumes T: "table_ok c done s"
    and fresh: "\<And>y. y \<in> set done \<Longrightarrow> v \<notin> set (given c y)"
    and source: "\<And>y. y \<in> set done \<Longrightarrow> cd_operand c v 0 \<notin> set (identity_sources c y)"
  shows "\<exists>s'. process_operation c (o_identity v) s = Ret s' \<and> table_ok c (done @ [o_identity v]) s'"
proof -
  let ?u = "cd_operand c v 0" and ?done = "done @ [o_identity v]"
  let ?s = "s\<lparr>syn_identity := (?u, v) # syn_identity s\<rparr>"
  have id: "identities_ok c done s" and e: "entries_ok c done s" and pairs: "pairs_ok s"
    and f: "filled c (length (syn_calls s)) s"
    using T by (simp_all add: table_ok_def)
  have new: "?u \<notin> fst ` set (syn_identity s)"
  proof
    assume "?u \<in> fst ` set (syn_identity s)"
    then obtain w where "?u = cd_operand c w 0" "o_identity w \<in> set done"
      using identities_source [OF id] by force
    with source [of "o_identity w"] show False by (simp add: identity_sources_def)
  qed
  have id': "identities_ok c ?done ?s"
    using id new by (auto simp: identities_ok_def)
  have e': "entries_ok c ?done ?s"
    using e by (rule entries_identity)
  let ?Q = "\<lambda>w. \<forall>i. syn_abstract s (s_ir ?u) = Some (s_call i) \<longrightarrow> derives c ?done w (fst (syn_calls s ! i))"
  have closed: "?Q w" if "(x, w) \<in> set (syn_identity ?s)" "?Q x" for x w
    using identities_source [OF id' that(1)] that(2) by (auto intro: derives_cast)
  have "\<exists>s'. propagate_identity ?u ?s = Ret s' \<and> filled c (length (syn_calls s)) s' \<and> pairs_ok s' \<and>
      propagated (length (syn_calls s)) ?Q ?u ?s s'"
  proof (rule propagate_identity_spec)
    show "filled c (length (syn_calls s)) ?s" using f by simp
    show "distinct (map fst (syn_identity ?s))" using id' by (simp add: identities_ok_def)
    show "x = cd_operand c w 0" if "(x, w) \<in> set (syn_identity ?s)" for x w
      using identities_source [OF id' that] by simp
    show "syn_abstract ?s (s_ir w) = syn_abstract ?s (s_ir x)"
      if "(x, w) \<in> set (syn_identity ?s)" "x \<noteq> ?u" for x w
      using that pairs by (auto simp: pairs_ok_def)
    show "syn_abstract ?s (s_ir w) = None" if "(?u, w) \<in> set (syn_identity ?s)" for w
      using that new table_unset [OF T fresh] by (force simp: image_iff)
    show "?Q ?u"
      using entries_derive [OF e'] by fastforce
  qed (rule closed)
  then obtain s' where s': "propagate_identity ?u ?s = Ret s'" "filled c (length (syn_calls s)) s'" "pairs_ok s'"
      "propagated (length (syn_calls s)) ?Q ?u ?s s'"
    by (elim exE conjE)
  have "entries_ok c ?done s'"
    by (rule entries_propagated [OF e' s'(4)]) simp
  moreover have "syn_identity s' = syn_identity ?s" "length (syn_calls s') = length (syn_calls s)"
    using s'(4) by (simp_all add: propagated_def)
  moreover have "filter (\<lambda>p. fst p \<noteq> ?u) (syn_identity s) = syn_identity s"
    using new by (auto simp: filter_id_conv image_iff)
  ultimately show ?thesis
    using s'(1-3) id' by (auto simp: process_operation_def process_identity_def table_ok_def identities_ok_def)
qed

lemma invariants_update [simp]:
  "filled c n (s\<lparr>syn_shadows := sh\<rparr>) = filled c n s"
  "filled c n (s\<lparr>syn_replaced := rs\<rparr>) = filled c n s"
  "pairs_ok (s\<lparr>syn_shadows := sh\<rparr>) = pairs_ok s"
  "pairs_ok (s\<lparr>syn_replaced := rs\<rparr>) = pairs_ok s"
  "entries_ok c done (s\<lparr>syn_shadows := sh\<rparr>) = entries_ok c done s"
  "entries_ok c done (s\<lparr>syn_replaced := rs\<rparr>) = entries_ok c done s"
  "identities_ok c done (s\<lparr>syn_replaced := rs\<rparr>) = identities_ok c done s"
  by (simp_all add: filled_def place_holds_def pairs_ok_def entries_ok_def identities_ok_def)

lemma filled_append:
  "filled c (length (syn_calls s)) s \<Longrightarrow> filled c (length (syn_calls s)) (s\<lparr>syn_calls := syn_calls s @ cs\<rparr>)"
  by (rule filledI) (auto simp: nth_append place_holds_def dest: filledD)

lemma entries_mono:
  assumes e: "entries_ok c done s" and "syn_abstract s' = syn_abstract s"
    and "length (syn_calls s) \<le> length (syn_calls s')"
    and "\<And>i. i < length (syn_calls s) \<Longrightarrow> fst (syn_calls s' ! i) = fst (syn_calls s ! i)"
  shows "entries_ok c done s'"
proof -
  have "\<exists>i < length (syn_calls s'). syn_abstract s' (s_ir w) = Some (s_call i) \<and> fst (syn_calls s' ! i) = x"
    if x: "x \<in> set done" "given c x = [w]" "\<forall>u. x \<noteq> o_identity u" for x w
  proof -
    obtain i where "i < length (syn_calls s)" "syn_abstract s (s_ir w) = Some (s_call i)" "fst (syn_calls s ! i) = x"
      using x entries_made [OF e, of x w] by blast
    with assms(2-4) show ?thesis by (intro exI [of _ i]) simp
  qed
  moreover have "\<exists>w i. k = s_ir w \<and> a = s_call i \<and> i < length (syn_calls s') \<and>
      derives c done w (fst (syn_calls s' ! i))"
    if "syn_abstract s' k = Some a" for k a
    using that entries_derive [OF e, of k a] assms(2-4) by fastforce
  ultimately show ?thesis
    unfolding entries_ok_def by blast
qed

text \<open>A new operation gives its value an entry; one that gives none changes nothing in the table.\<close>

lemma entries_give:
  assumes e: "entries_ok c done s" and x: "given c x = [v]" "\<And>u. x \<noteq> o_identity u"
    and fresh: "\<And>y. y \<in> set done \<Longrightarrow> v \<notin> set (given c y)"
    and i: "i < length (syn_calls s)" "fst (syn_calls s ! i) = x"
  shows "entries_ok c (done @ [x]) (give (s_ir v) (s_call i) s)"
proof -
  let ?s = "give (s_ir v) (s_call i) s" and ?done = "done @ [x]"
  have "\<exists>j < length (syn_calls ?s). syn_abstract ?s (s_ir w) = Some (s_call j) \<and> fst (syn_calls ?s ! j) = y"
    if y: "y \<in> set ?done" "given c y = [w]" "\<forall>u. y \<noteq> o_identity u" for y w
  proof (cases "y \<in> set done")
    case True
    with fresh [of y] y(2) have neq: "w \<noteq> v" by auto
    obtain j where "j < length (syn_calls s)" "syn_abstract s (s_ir w) = Some (s_call j)" "fst (syn_calls s ! j) = y"
      using True y entries_made [OF e, of y w] by blast
    with neq show ?thesis by (intro exI [of _ j]) simp
  next
    case False
    with y x i show ?thesis by (intro exI [of _ i]) simp
  qed
  moreover have "\<exists>w j. k = s_ir w \<and> a = s_call j \<and> j < length (syn_calls ?s) \<and>
      derives c ?done w (fst (syn_calls ?s ! j))"
    if a: "syn_abstract ?s k = Some a" for k a
  proof (cases "k = s_ir v")
    case True
    have "derives c ?done v x"
      using x by (intro derives_made) auto
    with True a i show ?thesis by auto
  next
    case False
    then obtain w j where w: "k = s_ir w" "a = s_call j" "j < length (syn_calls s)"
        "derives c done w (fst (syn_calls s ! j))"
      using a entries_derive [OF e, of k a] by auto
    from w(4) have "derives c ?done w (fst (syn_calls s ! j))"
      by (rule derives_mono) auto
    with w show ?thesis by auto
  qed
  ultimately show ?thesis
    unfolding entries_ok_def by blast
qed

lemma entries_none:
  assumes e: "entries_ok c done s" and x: "given c x = []"
  shows "entries_ok c (done @ [x]) s"
proof -
  have "\<exists>i < length (syn_calls s). syn_abstract s (s_ir w) = Some (s_call i) \<and> fst (syn_calls s ! i) = y"
    if "y \<in> set (done @ [x])" "given c y = [w]" "\<forall>u. y \<noteq> o_identity u" for y w
    using that x entries_made [OF e, of y w] by auto
  moreover have "\<exists>w i. k = s_ir w \<and> a = s_call i \<and> i < length (syn_calls s) \<and>
      derives c (done @ [x]) w (fst (syn_calls s ! i))"
    if a: "syn_abstract s k = Some a" for k a
  proof -
    obtain w i where w: "k = s_ir w" "a = s_call i" "i < length (syn_calls s)"
        "derives c done w (fst (syn_calls s ! i))"
      using a entries_derive [OF e, of k a] by blast
    from w(4) have "derives c (done @ [x]) w (fst (syn_calls s ! i))"
      by (rule derives_mono) auto
    with w show ?thesis by blast
  qed
  ultimately show ?thesis
    unfolding entries_ok_def by blast
qed

lemma note_taint_simps [simp]:
  "syn_abstract (note_taint x i s) = syn_abstract s" "syn_calls (note_taint x i s) = syn_calls s"
  "syn_identity (note_taint x i s) = syn_identity s"
  "filled c n (note_taint x i s) = filled c n s" "pairs_ok (note_taint x i s) = pairs_ok s"
  "entries_ok c done (note_taint x i s) = entries_ok c done s"
  by (simp_all add: note_taint_def split: operation.splits)

lemma given_made:
  "(\<And>v. x \<noteq> o_identity v) \<Longrightarrow> (\<And>v. x \<noteq> o_phi v) \<Longrightarrow> given c x =
    (if o_returns_value x \<and> (\<forall>v. x \<noteq> o_unstash_taint v) \<and> \<not> o_faultable c x then [o_value x] else [])"
  by (cases x) (auto simp: given_def)

lemma process_made:
  "(\<And>v. x \<noteq> o_identity v) \<Longrightarrow> (\<And>v. x \<noteq> o_phi v) \<Longrightarrow> process_operation c x s =
    obind (make_intrinsic c x s) (\<lambda>(i, s1).
    obind (give_result c x i (note_taint x i s1)) (\<lambda>s2.
    omap (note_replaced c x i) (link_arguments c x i (link_faultable c x i s2))))"
  by (cases x) (auto simp: process_operation_def)

text \<open>The result of an operation is entered, and what the identity casts derive from it.\<close>

lemma give_result_spec:
  assumes x: "\<And>v. x \<noteq> o_identity v" "\<And>v. x \<noteq> o_phi v" "\<not> o_faultable c x"
    and f: "filled c n s" and n: "length (syn_calls s) = Suc n" and op: "fst (syn_calls s ! n) = x"
    and pairs: "pairs_ok s" and id: "identities_ok c done s" and e: "entries_ok c done s"
    and fresh: "\<And>v y. v \<in> set (given c x) \<Longrightarrow> y \<in> set done \<Longrightarrow> v \<notin> set (given c y)"
    and unset: "\<And>v. v \<in> set (given c x) \<Longrightarrow> syn_abstract s (s_ir v) = None"
  shows "\<exists>s'. give_result c x n s = Ret s' \<and> filled c n s' \<and> pairs_ok s' \<and>
    syn_identity s' = syn_identity s \<and> entries_ok c (done @ [x]) s' \<and>
    length (syn_calls s') = Suc n \<and> syn_calls s' ! n = syn_calls s ! n"
proof (cases "o_returns_value x \<and> (\<forall>v. x \<noteq> o_unstash_taint v)")
  case False
  then have "given c x = []" using given_made [OF x(1,2), of c] by auto
  moreover have "give_result c x n s = Ret s"
    unfolding give_result_def using False by auto
  ultimately show ?thesis
    using f pairs n entries_none [OF e] by simp
next
  case True
  let ?v = "o_value x" and ?done = "done @ [x]"
  let ?s = "give (s_ir ?v) (s_call n) s"
  have g: "given c x = [?v]" using True x(3) given_made [OF x(1,2), of c] by simp
  have none: "syn_abstract s (s_ir ?v) = None" by (rule unset) (simp add: g)
  have e': "entries_ok c ?done ?s"
    by (rule entries_give [OF e g]) (use x(1) fresh g n op in auto)
  have f': "filled c n ?s" using f none by (rule give_filled)
  have target: "w \<noteq> ?v" if "(u, w) \<in> set (syn_identity s)" for u w
  proof -
    have "o_identity w \<in> set done" using identities_source [OF id that] by simp
    with fresh [of ?v "o_identity w"] g show ?thesis by (auto simp: given_def)
  qed
  let ?Q = "\<lambda>w. derives c ?done w x"
  have "\<exists>s'. propagate_identity ?v ?s = Ret s' \<and> filled c n s' \<and> pairs_ok s' \<and> propagated n ?Q ?v ?s s'"
  proof (rule propagate_identity_spec [OF f'])
    show "distinct (map fst (syn_identity ?s))" using id by (simp add: identities_ok_def)
    show "u = cd_operand c w 0" if "(u, w) \<in> set (syn_identity ?s)" for u w
      using identities_source [OF id, of u w] that by simp
    show "syn_abstract ?s (s_ir w) = syn_abstract ?s (s_ir u)"
      if "(u, w) \<in> set (syn_identity ?s)" "u \<noteq> ?v" for u w
      using that pairs target [of u w] by (auto simp: pairs_ok_def)
    show "syn_abstract ?s (s_ir w) = None" if "(?v, w) \<in> set (syn_identity ?s)" for w
      using that pairs target [of ?v w] none by (auto simp: pairs_ok_def)
    show "?Q ?v" using x(1) g by (intro derives_made) auto
    show "?Q w" if "(u, w) \<in> set (syn_identity ?s)" "?Q u" for u w
      using that identities_source [OF id, of u w] by (auto intro: derives_cast)
  qed
  then obtain s' where s': "propagate_identity ?v ?s = Ret s'" "filled c n s'" "pairs_ok s'"
      "propagated n ?Q ?v ?s s'"
    by (elim exE conjE)
  have "entries_ok c ?done s'"
  proof (rule entries_propagated [OF e' s'(4)])
    show "derives c ?done w (fst (syn_calls ?s ! i))"
      if "?Q w" "syn_abstract ?s (s_ir ?v) = Some (s_call i)" for w i
      using that n op by simp
  qed
  moreover have "syn_identity s' = syn_identity ?s" "length (syn_calls s') = length (syn_calls s)"
    "syn_calls s' ! n = syn_calls ?s ! n"
    using s'(4) by (simp_all add: propagated_def)
  ultimately show ?thesis
    using s'(1-3) True x(3) n give_later [OF f, of n] by (simp add: give_result_def)
qed

lemma process_made_step:
  assumes T: "table_ok c done s" and x: "\<And>v. x \<noteq> o_identity v" "\<And>v. x \<noteq> o_phi v" "\<not> o_faultable c x"
    and fresh: "\<And>v y. v \<in> set (given c x) \<Longrightarrow> y \<in> set done \<Longrightarrow> v \<notin> set (given c y)"
  shows "\<exists>s'. process_operation c x s = Ret s' \<and> table_ok c (done @ [x]) s'"
proof -
  have id: "identities_ok c done s" and e: "entries_ok c done s" and pairs: "pairs_ok s"
    and f: "filled c (length (syn_calls s)) s"
    using T by (simp_all add: table_ok_def)
  obtain args where args: "o_arguments c x = Ret args"
    using o_arguments_Ret [OF x(1,2)] by blast
  let ?n = "length (syn_calls s)" and ?slots = "call_slots x args (syn_shadows s)"
  let ?s1 = "s\<lparr>syn_calls := syn_calls s @ [(x, ?slots)]\<rparr>"
  have made: "make_intrinsic c x s = Ret (?n, ?s1)"
    using args by (simp add: make_intrinsic_def duplicated_arguments_def call_slots_def)
  have "\<exists>s2. give_result c x ?n (note_taint x ?n ?s1) = Ret s2 \<and> filled c ?n s2 \<and> pairs_ok s2 \<and>
      syn_identity s2 = syn_identity (note_taint x ?n ?s1) \<and> entries_ok c (done @ [x]) s2 \<and>
      length (syn_calls s2) = Suc ?n \<and> syn_calls s2 ! ?n = syn_calls (note_taint x ?n ?s1) ! ?n"
  proof (rule give_result_spec [OF x])
    show "filled c ?n (note_taint x ?n ?s1)" using filled_append [OF f] by simp
    show "pairs_ok (note_taint x ?n ?s1)" using pairs by (simp add: pairs_ok_def)
    show "identities_ok c done (note_taint x ?n ?s1)" using id by (simp add: identities_ok_def)
    have "entries_ok c done ?s1"
      by (rule entries_mono [OF e]) (auto simp: nth_append)
    then show "entries_ok c done (note_taint x ?n ?s1)" by simp
    show "syn_abstract (note_taint x ?n ?s1) (s_ir v) = None" if "v \<in> set (given c x)" for v
      using table_unset [OF T fresh [OF that]] by simp
  qed (use fresh in auto)
  then obtain s2 where s2: "give_result c x ?n (note_taint x ?n ?s1) = Ret s2" "filled c ?n s2" "pairs_ok s2"
      "syn_identity s2 = syn_identity s" "entries_ok c (done @ [x]) s2"
      "length (syn_calls s2) = Suc ?n" "syn_calls s2 ! ?n = (x, ?slots)"
    by auto
  let ?s3 = "link_places ?n (places_of c x) s2"
  have "link_faultable c x ?n s2 = s2"
    using x(3) by (simp add: link_faultable_def)
  moreover have "link_arguments c x ?n s2 = Ret ?s3"
    by (rule link_arguments_places [OF args]) (use s2(6,7) x(1,2) in auto)
  ultimately have "process_operation c x s = Ret (note_replaced c x ?n ?s3)"
    using made s2(1) process_made [OF x(1,2), of c s] by simp
  moreover have "table_ok c (done @ [x]) ?s3"
  proof -
    have "filled c (Suc ?n) ?s3"
      by (rule link_filled [OF s2(2,6,7) call_slots_fresh [OF args]])
    moreover have "pairs_ok ?s3" using s2(3) by (simp add: pairs_ok_def)
    moreover have "identities_ok c (done @ [x]) ?s3"
      using id s2(4) x(1) by (auto simp: identities_ok_def)
    moreover have "entries_ok c (done @ [x]) ?s3"
    proof (rule entries_mono [OF s2(5)])
      show "fst (syn_calls ?s3 ! i) = fst (syn_calls s2 ! i)" if "i < length (syn_calls s2)" for i
        using that s2(6) by (cases "i = ?n") simp_all
    qed simp_all
    ultimately show ?thesis
      using s2(6) by (simp add: table_ok_def)
  qed
  then have "table_ok c (done @ [x]) (note_replaced c x ?n ?s3)"
    by (simp add: table_ok_def note_replaced_def split: option.splits)
  ultimately show ?thesis by blast
qed

lemma process_phi_step: "table_ok c done s \<Longrightarrow> table_ok c (done @ [o_phi v]) s"
  using entries_none [of c "done" s "o_phi v"]
  by (simp add: table_ok_def identities_ok_def given_def)

text \<open>
  What the lists of the pass fulfil when the module has no division: an operation for a value is
  made once, and no value has two identity casts.
\<close>

definition ops_ok :: "code \<Rightarrow> operation list \<Rightarrow> bool" where
  "ops_ok c ops \<longleftrightarrow> list_all (\<lambda>x. \<not> o_faultable c x) ops \<and>
    distinct (concat (map (given c) ops)) \<and> distinct (concat (map (identity_sources c) ops))"

lemma process_all_ok:
  assumes "table_ok c done s" "ops_ok c (done @ ops)"
  shows "\<exists>s'. process_all c ops s = Ret s' \<and> table_ok c (done @ ops) s'"
  using assms
proof (induction ops arbitrary: "done" s)
  case Nil
  then show ?case by simp
next
  case (Cons x ops)
  have fresh: "v \<notin> set (given c y)" if "v \<in> set (given c x)" "y \<in> set done" for v y
    using Cons.prems(2) that by (auto simp: ops_ok_def)
  have source: "u \<notin> set (identity_sources c y)" if "u \<in> set (identity_sources c x)" "y \<in> set done" for u y
    using Cons.prems(2) that by (auto simp: ops_ok_def)
  have nf: "\<not> o_faultable c x"
    using Cons.prems(2) by (simp add: ops_ok_def)
  have "\<exists>s'. process_operation c x s = Ret s' \<and> table_ok c (done @ [x]) s'"
  proof (cases "\<exists>v. x = o_identity v")
    case True
    then obtain v where x: "x = o_identity v" ..
    show ?thesis
      unfolding x by (rule process_identity_step [OF Cons.prems(1)])
        (use fresh source x in \<open>auto simp: given_def identity_sources_def\<close>)
  next
    case no_identity: False
    show ?thesis
    proof (cases "\<exists>v. x = o_phi v")
      case True
      then show ?thesis
        using process_phi_step [OF Cons.prems(1)] by (auto simp: process_operation_def)
    next
      case False
      with no_identity nf fresh show ?thesis
        by (intro process_made_step [OF Cons.prems(1)]) auto
    qed
  qed
  then obtain s1 where s1: "process_operation c x s = Ret s1" "table_ok c (done @ [x]) s1" by blast
  with Cons.IH [OF s1(2)] Cons.prems(2) show ?case by simp
qed

lemma table_entries:
  assumes T: "table_ok c ops s"
  shows "derives c ops v x \<longleftrightarrow>
    (\<exists>i < length (syn_calls s). syn_abstract s (s_ir v) = Some (s_call i) \<and> fst (syn_calls s ! i) = x)"
proof
  have e: "entries_ok c ops s" and pairs: "pairs_ok s" and id: "identities_ok c ops s"
    using T by (simp_all add: table_ok_def)
  assume "derives c ops v x"
  then show "\<exists>i < length (syn_calls s). syn_abstract s (s_ir v) = Some (s_call i) \<and> fst (syn_calls s ! i) = x"
  proof (induction rule: derives.induct)
    case (derives_made x v)
    then show ?case by (rule entries_made [OF e])
  next
    case (derives_cast v x)
    have "(cd_operand c v 0, v) \<in> set (syn_identity s)"
      using id derives_cast(1) by (auto simp: identities_ok_def)
    with pairs have "syn_abstract s (s_ir v) = syn_abstract s (s_ir (cd_operand c v 0))"
      by (auto simp: pairs_ok_def)
    with derives_cast.IH show ?case by simp
  qed
next
  assume "\<exists>i < length (syn_calls s). syn_abstract s (s_ir v) = Some (s_call i) \<and> fst (syn_calls s ! i) = x"
  then show "derives c ops v x"
    using table_derives [OF T, of "s_ir v"] by auto
qed

section \<open>Passing of arguments\<close>

text \<open>
  A caller stashes its arguments in their order before the call. A callee unstashes its parameters
  at its entry: the point of insertion is the first instruction, looked up again for every
  parameter, so the code for a parameter stands before the code for the parameters to its left.
\<close>

definition entry_code :: "nat list \<Rightarrow> operation list" where
  "entry_code args = fold (\<lambda>a code. unstash_both_of a @ code) args []"

fun run_stashes :: "code \<Rightarrow> nat list \<Rightarrow> (nat \<Rightarrow> reg) \<Rightarrow> 'v lamp \<Rightarrow> 'v lamp outcome" where
  "run_stashes c [] env s = Ret s"
| "run_stashes c (v # vs) env s = obind (run_stash c v env s) (run_stashes c vs env)"

fun run_unstash_op ::
  "operation \<Rightarrow> (nat \<Rightarrow> reg) \<times> stash_state \<Rightarrow> ((nat \<Rightarrow> reg) \<times> stash_state) outcome" where
  "run_unstash_op (o_unstash v) (env, st) =
     (case lart_unstash st of (a, st') \<Rightarrow> Ret (env(v := (env v)\<lparr>reg_abs := a\<rparr>), st'))"
| "run_unstash_op (o_unstash_taint v) (env, st) =
     (case lart_unstash_taint st of (t, st') \<Rightarrow> Ret (env(v := (env v)\<lparr>reg_taint := t\<rparr>), st'))"
| "run_unstash_op x st = Undef"

fun run_unstashes ::
  "operation list \<Rightarrow> (nat \<Rightarrow> reg) \<times> stash_state \<Rightarrow> ((nat \<Rightarrow> reg) \<times> stash_state) outcome" where
  "run_unstashes [] st = Ret st"
| "run_unstashes (x # xs) st = obind (run_unstash_op x st) (run_unstashes xs)"

lemma entry_code_rev: "entry_code args = concat (map unstash_both_of (rev args))"
proof -
  have "fold (\<lambda>a code. unstash_both_of a @ code) args code = concat (map unstash_both_of (rev args)) @ code" for code
    by (induction args arbitrary: code) simp_all
  then show ?thesis by (simp add: entry_code_def)
qed

lemma run_stash_eval:
  "run_stash c v env s =
    Ret (s\<lparr>lamp_stash := lart_stash (reg_taint (env v)) (reg_abs (env v)) (lamp_stash s)\<rparr>)"
  by (simp add: run_stash_def duplicated_arguments_def duplicated_argument_def param_def)

lemma run_stashes_eval:
  "run_stashes c vs env s =
    Ret (s\<lparr>lamp_stash := args.push_all (map (\<lambda>v. (reg_taint (env v), reg_abs (env v))) vs) (lamp_stash s)\<rparr>)"
  by (induction vs arbitrary: s) (simp_all add: run_stash_eval args.push_all_def)

lemma run_unstashes_append:
  "run_unstashes (xs @ ys) st = obind (run_unstashes xs st) (run_unstashes ys)"
proof (induction xs arbitrary: st)
  case (Cons x xs)
  then show ?case by (cases "run_unstash_op x st") simp_all
qed simp

lemma unstash_both_of_spec:
  assumes "both_hold ((t, a) # xs) st"
  shows "\<exists>st'. run_unstashes (unstash_both_of v) (env, st) =
      Ret (env(v := (env v)\<lparr>reg_abs := a, reg_taint := t\<rparr>), st') \<and> both_hold xs st'"
proof -
  have h: "taint_holds (t # map fst xs) st" "value_holds (a # map snd xs) st"
    using assms by (simp_all add: both_hold_def)
  obtain b st1 where u: "unstash st = (b, st1)" by fastforce
  obtain r st2 where w: "unstash_taint st1 = (r, st2)" by fastforce
  have v: "b = a" "value_holds (map snd xs) st1"
    using value_pop [OF h(2)] u by simp_all
  have "taint_holds (t # map fst xs) st1"
    using h(1) stacks_apart(3) [of "t # map fst xs" st] u by simp
  from taint_pop [OF this] w have t: "r = t" "taint_holds (map fst xs) st2"
    by simp_all
  have "value_holds (map snd xs) st2"
    using v(2) stacks_apart(4) [of "map snd xs" st1] w by simp
  with u w v t show ?thesis
    by (simp add: unstash_both_of_def lart_unstash_def lart_unstash_taint_def both_hold_def)
qed

lemma run_unstashes_spec:
  assumes "both_hold (rs @ xs) st" "length vs = length rs" "distinct vs"
  shows "\<exists>env' st'. run_unstashes (concat (map unstash_both_of vs)) (env, st) = Ret (env', st') \<and>
    both_hold xs st' \<and> (\<forall>v. v \<notin> set vs \<longrightarrow> env' v = env v) \<and>
    (\<forall>i < length vs. reg_taint (env' (vs ! i)) = fst (rs ! i) \<and> reg_abs (env' (vs ! i)) = snd (rs ! i) \<and>
      reg_con (env' (vs ! i)) = reg_con (env (vs ! i)))"
  using assms
proof (induction vs arbitrary: rs env st)
  case Nil
  then show ?case by simp
next
  case (Cons v vs)
  then obtain t a rs' where rs: "rs = (t, a) # rs'" by (cases rs) auto
  let ?env = "env(v := (env v)\<lparr>reg_abs := a, reg_taint := t\<rparr>)"
  obtain st1 where st1: "run_unstashes (unstash_both_of v) (env, st) = Ret (?env, st1)" "both_hold (rs' @ xs) st1"
    using unstash_both_of_spec [of t a "rs' @ xs" st v env] Cons.prems(1) rs by auto
  have "\<exists>env' st'. run_unstashes (concat (map unstash_both_of vs)) (?env, st1) = Ret (env', st') \<and>
      both_hold xs st' \<and> (\<forall>w. w \<notin> set vs \<longrightarrow> env' w = ?env w) \<and>
      (\<forall>i < length vs. reg_taint (env' (vs ! i)) = fst (rs' ! i) \<and> reg_abs (env' (vs ! i)) = snd (rs' ! i) \<and>
        reg_con (env' (vs ! i)) = reg_con (?env (vs ! i)))"
    using Cons.prems(2,3) rs by (intro Cons.IH [OF st1(2)]) auto
  then obtain env' st' where e: "run_unstashes (concat (map unstash_both_of vs)) (?env, st1) = Ret (env', st')"
      "both_hold xs st'" "\<And>w. w \<notin> set vs \<Longrightarrow> env' w = ?env w"
      "\<And>i. i < length vs \<Longrightarrow> reg_taint (env' (vs ! i)) = fst (rs' ! i) \<and>
        reg_abs (env' (vs ! i)) = snd (rs' ! i) \<and> reg_con (env' (vs ! i)) = reg_con (?env (vs ! i))"
    by blast
  have "reg_taint (env' ((v # vs) ! i)) = fst (rs ! i) \<and> reg_abs (env' ((v # vs) ! i)) = snd (rs ! i) \<and>
      reg_con (env' ((v # vs) ! i)) = reg_con (env ((v # vs) ! i))" if "i < length (v # vs)" for i
  proof (cases i)
    case 0
    with e(3) [of v] Cons.prems(3) rs show ?thesis by simp
  next
    case (Suc j)
    with that e(4) [of j] Cons.prems(3) rs show ?thesis by auto
  qed
  with e(1-3) st1(1) show ?case
    by (intro exI [of _ env'] exI [of _ st']) (auto simp: run_unstashes_append)
qed

section \<open>Examples\<close>

text \<open>A sum of an argument and a cast of it; the registers of a caller and a callee.\<close>

definition cast_code :: code where
  "cast_code = \<lparr>cd_operand = (\<lambda>v i. if v = 2 then 1 else if i = 0 then 2 else 1), cd_pointer_operand = (\<lambda>_. 0),
     cd_value_operand = (\<lambda>_. 0), cd_condition = (\<lambda>_. 0), cd_opcode_name = (\<lambda>v. if v = 2 then ''bitcast'' else ''add''),
     cd_predicate_name = (\<lambda>_. []), cd_int_div_rem = (\<lambda>_. False), cd_element_bytes = (\<lambda>_. 4),
     cd_bits = (\<lambda>_. 32), cd_type = (\<lambda>_. ''i32'')\<rparr>"

lemma cast_ops_ok: "ops_ok cast_code [o_binary 3, o_identity 2, o_unstash 1]"
  by (simp add: ops_ok_def cast_code_def given_def identity_sources_def o_faultable_def
      o_returns_value_def o_default_value_def)

definition caller_env :: "nat \<Rightarrow> reg" where
  "caller_env v = \<lparr>reg_taint = (v = 6), reg_con = c_float, reg_abs = (if v = 6 then 9 else 0)\<rparr>"

definition callee_env :: "nat \<Rightarrow> reg" where
  "callee_env v = \<lparr>reg_taint = False, reg_con = c_bool True, reg_abs = 0\<rparr>"

definition empty_lamp :: "nat lamp" where
  "empty_lamp = \<lparr>lamp_heap = [], lamp_stash = stash_init, lamp_shadow = setup_shadow\<rparr>"

section \<open>Properties\<close>

text \<open>
  The pass links every call to the right abstractions whatever the order of the operations: it
  ends without a failed assertion; a value has the abstraction made by an operation exactly when
  that operation is its own or that of the value it is an identity cast of; and every place of an
  abstract argument, also of calls made before the argument was known, holds the abstraction of
  that argument, or null when it has none.
\<close>

theorem abstract_operands_linked:
  assumes "ops_ok c ops"
  shows "\<exists>s. process_all c ops syn_init = Ret s \<and>
    (\<forall>v x. derives c ops v x = (\<exists>i < length (syn_calls s).
      syn_abstract s (s_ir v) = Some (s_call i) \<and> fst (syn_calls s ! i) = x)) \<and>
    (\<forall>i < length (syn_calls s). \<forall>(a, k) \<in> set (places_of c (fst (syn_calls s ! i))).
      snd (syn_calls s ! i) ! a =
        sl_abstract (case syn_abstract s k of Some v \<Rightarrow> v | None \<Rightarrow> s_null))"
proof -
  obtain s where s: "process_all c ops syn_init = Ret s" "table_ok c ops s"
    using process_all_ok [OF table_init, of c ops] assms by auto
  have "place_holds s i (a, k)"
    if "i < length (syn_calls s)" "(a, k) \<in> set (places_of c (fst (syn_calls s ! i)))" for i a k
    using s(2) filledD(2) [of c "length (syn_calls s)" s i a k] that by (simp add: table_ok_def)
  with s table_entries [OF s(2)] show ?thesis
    by (intro exI [of _ s]) (auto simp: place_holds_def)
qed

text \<open>
  Two identity casts of one value: when both are processed before the operation that makes the
  abstraction of the value, the first one loses it, because the table remembers one cast of a
  value only; processed after it, both casts get the abstraction.
\<close>

theorem identity_cast_lost:
  assumes "cd_operand c y 0 = v" "cd_operand c z 0 = v" "v \<noteq> y" "v \<noteq> z" "y \<noteq> z"
  shows "omap (\<lambda>s. (syn_abstract s (s_ir y), syn_abstract s (s_ir z)))
      (process_all c [o_identity y, o_identity z, o_unstash v] syn_init) = Ret (None, Some (s_call 0)) \<and>
    omap (\<lambda>s. (syn_abstract s (s_ir y), syn_abstract s (s_ir z)))
      (process_all c [o_unstash v, o_identity y, o_identity z] syn_init) = Ret (Some (s_call 0), Some (s_call 0))"
  using assms
  by (simp add: process_operation_def process_identity_def propagate_identity.simps syn_init_def make_intrinsic_def
      duplicated_arguments_def give_result_def note_taint_def o_returns_value_def o_default_value_def
      o_faultable_def o_emit_test_taint_def give_def update_places_def link_faultable_def link_arguments_def
      o_with_taints_def o_with_abstract_arg_def note_replaced_def o_replaces_def)



end
