(* ===== verification/Shadow_Pass.thy ===== *)
theory Shadow_Pass
  imports Syntactic_Pass
begin

text \<open>
  The pass that gives values their taints, \<open>lartcc/shadow.cpp\<close>. The shadow of a value is a
  one-bit value of the program: unstashed for arguments and calls, read from the shadow memory for
  loads, and the disjunction of the shadows of the operands for other instructions. Here it is an
  expression over those leaves. The pass computes shadows on demand and remembers them.
\<close>

section \<open>Kinds of values\<close>

datatype shadow_op_kind =
  k_source | k_memory | k_global | k_forward | k_store | k_load | k_freeze | k_melt | k_arg | k_ret

fun kind_string :: "shadow_op_kind \<Rightarrow> string" where
  "kind_string k_source = ''source''"
| "kind_string k_memory = ''memory''"
| "kind_string k_forward = ''forward''"
| "kind_string k_store = ''store''"
| "kind_string k_load = ''load''"
| "kind_string k_freeze = ''freeze''"
| "kind_string k_melt = ''melt''"
| "kind_string k_arg = ''argument''"
| "kind_string k_ret = ''return''"
| "kind_string k_global = ''global''"

text \<open>A call through a pointer has no called function to ask for a name.\<close>

definition call_kind :: "ir \<Rightarrow> nat \<Rightarrow> shadow_op_kind option outcome" where
  "call_kind m v =
    (case ir_called m v of None \<Rightarrow> Undef
     | Some fn \<Rightarrow> Ret (Some (if prefix ''__lamp'' (ir_name m fn) then k_source else k_forward)))"

definition operation_kind :: "ir \<Rightarrow> code \<Rightarrow> type_map \<Rightarrow> nat \<Rightarrow> shadow_op_kind option outcome" where
  "operation_kind m c T v =
    (case ir_class m v of
       v_alloca \<Rightarrow> Ret (Some k_memory)
     | v_store val ptr \<Rightarrow>
         if pointer_abstract T ptr then Ret (Some k_store)
         else if abstract_value T val then Ret (Some k_freeze)
         else omap (\<lambda>b. if b then Some k_freeze else None) (abstract_content T ptr)
     | v_load \<Rightarrow>
         Ret (if pointer_abstract T (cd_pointer_operand c v) then Some k_load
              else if abstract_value T v then Some k_melt else None)
     | v_call \<Rightarrow> call_kind m v
     | v_intrinsic \<Rightarrow> call_kind m v
     | v_argument \<Rightarrow> Ret (Some k_arg)
     | v_global \<Rightarrow> Ret (Some k_global)
     | _ \<Rightarrow> Ret (Some k_forward))"

text \<open>The values of an abstract type in the order of the map, then all stores.\<close>

definition shadow_kinds :: "ir \<Rightarrow> code \<Rightarrow> type_map \<Rightarrow> nat list \<Rightarrow> (nat \<times> shadow_op_kind) list outcome" where
  "shadow_kinds m c T =
    ocollect (\<lambda>v. omap (\<lambda>k. case k of None \<Rightarrow> [] | Some k \<Rightarrow> [(v, k)]) (operation_kind m c T v))"

definition shadow_toprocess :: "ir \<Rightarrow> code \<Rightarrow> md \<Rightarrow> type_map \<Rightarrow> (nat \<times> shadow_op_kind) list outcome" where
  "shadow_toprocess m c M T =
    obind (shadow_kinds m c T (filter (abstract_value T) (md_values M))) (\<lambda>ops.
    omap (\<lambda>stores. ops @ stores) (shadow_kinds m c T (md_stores M)))"

section \<open>Shadows\<close>

datatype shadow_leaf = lf_unstashed nat | lf_memory nat | lf_melt nat nat | lf_global string

datatype shadow_value = sh_null | sh_const bool | sh_leaf shadow_leaf | sh_or shadow_value shadow_value

text \<open>Its value in an execution, given what the leaves are; a null pointer has none.\<close>

fun shadow_holds :: "(shadow_leaf \<Rightarrow> bool) \<Rightarrow> shadow_value \<Rightarrow> bool" where
  "shadow_holds \<rho> sh_null = False"
| "shadow_holds \<rho> (sh_const b) = b"
| "shadow_holds \<rho> (sh_leaf l) = \<rho> l"
| "shadow_holds \<rho> (sh_or s t) = (shadow_holds \<rho> s \<or> shadow_holds \<rho> t)"

type_synonym shadow_ops = "nat \<Rightarrow> shadow_value option"

text \<open>
  What the pass reads of an instruction beside the records of the other passes. A source is
  filled in by the syntactic pass; asking for one that is not makes a null entry.
\<close>

record inst_view =
  iv_is_inst :: "nat \<Rightarrow> bool"
  iv_operands :: "nat \<Rightarrow> nat list"
  iv_global_name :: "nat \<Rightarrow> string"

definition process_melt :: "code \<Rightarrow> nat \<Rightarrow> shadow_value" where
  "process_melt c v = sh_leaf (lf_melt (cd_pointer_operand c v) (cd_element_bytes c (cd_pointer_operand c v)))"

definition process_global :: "inst_view \<Rightarrow> nat \<Rightarrow> shadow_value" where
  "process_global iv v = sh_leaf (lf_global (iv_global_name iv v @ ''.lart.taint''))"

definition leaf_shadow :: "code \<Rightarrow> inst_view \<Rightarrow> shadow_op_kind \<Rightarrow> nat \<Rightarrow> shadow_value" where
  "leaf_shadow c iv k v =
    (case k of k_source \<Rightarrow> sh_null
     | k_memory \<Rightarrow> sh_leaf (lf_memory v)
     | k_store \<Rightarrow> sh_null
     | k_load \<Rightarrow> sh_const False
     | k_freeze \<Rightarrow> sh_null
     | k_melt \<Rightarrow> process_melt c v
     | k_arg \<Rightarrow> sh_const False
     | k_ret \<Rightarrow> sh_const False
     | k_global \<Rightarrow> process_global iv v
     | k_forward \<Rightarrow> sh_const False)"

text \<open>The builder cannot form a disjunction with a null pointer.\<close>

definition or_shadow :: "shadow_value \<Rightarrow> shadow_value \<Rightarrow> shadow_value outcome" where
  "or_shadow s t = (if s = sh_null \<or> t = sh_null then Undef else Ret (sh_or s t))"

text \<open>
  The recursion over the operands is bounded by a fuel; without it there is no result. An entry is
  made only when the shadow is complete.
\<close>

type_synonym 'a shadow_result = "('a \<times> shadow_ops) outcome option"

definition sbind :: "'a shadow_result \<Rightarrow> ('a \<Rightarrow> shadow_ops \<Rightarrow> 'b shadow_result) \<Rightarrow> 'b shadow_result" where
  "sbind m k =
    (case m of None \<Rightarrow> None | Some (Ret (x, ops)) \<Rightarrow> k x ops | Some Cancel \<Rightarrow> Some Cancel
     | Some (Fault msg) \<Rightarrow> Some (Fault msg) | Some Undef \<Rightarrow> Some Undef)"

fun shadow_process ::
  "ir \<Rightarrow> code \<Rightarrow> type_map \<Rightarrow> inst_view \<Rightarrow> nat \<Rightarrow> nat \<times> shadow_op_kind \<Rightarrow> shadow_ops \<Rightarrow> shadow_value shadow_result"
  and process_value ::
  "ir \<Rightarrow> code \<Rightarrow> type_map \<Rightarrow> inst_view \<Rightarrow> nat \<Rightarrow> nat \<Rightarrow> shadow_ops \<Rightarrow> shadow_value shadow_result"
  and process_operands ::
  "ir \<Rightarrow> code \<Rightarrow> type_map \<Rightarrow> inst_view \<Rightarrow> nat \<Rightarrow> nat list \<Rightarrow> shadow_value \<Rightarrow> shadow_ops \<Rightarrow> shadow_value shadow_result"
where
  "shadow_process m c T iv 0 o' ops = None"
| "shadow_process m c T iv (Suc n) (v, k) ops =
    (case ops v of Some r \<Rightarrow> Some (Ret (r, ops))
     | None \<Rightarrow>
        sbind
          (if k = k_forward \<and> iv_is_inst iv v then
             (case iv_operands iv v of [] \<Rightarrow> Some Undef
              | w # ws \<Rightarrow> sbind (process_value m c T iv n w ops) (\<lambda>s. process_operands m c T iv n ws s))
           else Some (Ret (leaf_shadow c iv k v, ops)))
          (\<lambda>r ops'. Some (Ret (r, ops'(v \<mapsto> r)))))"
| "process_value m c T iv n v ops =
    (case operation_kind m c T v of
       Ret (Some k) \<Rightarrow> (case n of 0 \<Rightarrow> None | Suc n' \<Rightarrow> shadow_process m c T iv n' (v, k) ops)
     | Ret None \<Rightarrow> Some (Ret (sh_const False, ops))
     | Cancel \<Rightarrow> Some Cancel | Fault msg \<Rightarrow> Some (Fault msg) | Undef \<Rightarrow> Some Undef)"
| "process_operands m c T iv n [] s ops = Some (Ret (s, ops))"
| "process_operands m c T iv n (w # ws) s ops =
    sbind (process_value m c T iv n w ops) (\<lambda>t ops'.
      case or_shadow s t of Ret r \<Rightarrow> process_operands m c T iv n ws r ops'
      | Cancel \<Rightarrow> Some Cancel | Fault msg \<Rightarrow> Some (Fault msg) | Undef \<Rightarrow> Some Undef)"

fun process_shadows ::
  "ir \<Rightarrow> code \<Rightarrow> type_map \<Rightarrow> inst_view \<Rightarrow> nat \<Rightarrow> (nat \<times> shadow_op_kind) list \<Rightarrow> shadow_ops \<Rightarrow> unit shadow_result"
where
  "process_shadows m c T iv n [] ops = Some (Ret ((), ops))"
| "process_shadows m c T iv n (x # xs) ops =
    sbind (shadow_process m c T iv n x ops) (\<lambda>_. process_shadows m c T iv n xs)"

text \<open>A value without an entry has the shadow false.\<close>

definition shadow_of :: "shadow_ops \<Rightarrow> nat \<Rightarrow> shadow_value" where
  "shadow_of ops v = (case ops v of Some r \<Rightarrow> r | None \<Rightarrow> sh_const False)"

section \<open>Which values are tainted\<close>

text \<open>
  The specification: taints start at the leaves and at the values unstashed before the pass, and
  flow from operands to results.
\<close>

inductive tainted ::
  "ir \<Rightarrow> code \<Rightarrow> type_map \<Rightarrow> inst_view \<Rightarrow> shadow_ops \<Rightarrow> (shadow_leaf \<Rightarrow> bool) \<Rightarrow> nat \<Rightarrow> bool"
  for m c T iv ops0 \<rho> where
  tainted_before: "ops0 v = Some r \<Longrightarrow> shadow_holds \<rho> r \<Longrightarrow> tainted m c T iv ops0 \<rho> v"
| tainted_leaf: "ops0 v = None \<Longrightarrow> operation_kind m c T v = Ret (Some k) \<Longrightarrow> k \<noteq> k_forward \<Longrightarrow>
    shadow_holds \<rho> (leaf_shadow c iv k v) \<Longrightarrow> tainted m c T iv ops0 \<rho> v"
| tainted_flow: "ops0 v = None \<Longrightarrow> operation_kind m c T v = Ret (Some k_forward) \<Longrightarrow> iv_is_inst iv v \<Longrightarrow>
    w \<in> set (iv_operands iv v) \<Longrightarrow> tainted m c T iv ops0 \<rho> w \<Longrightarrow> tainted m c T iv ops0 \<rho> v"

inductive_cases tainted_cases: "tainted m c T iv ops0 \<rho> v"

text \<open>The values whose shadow is a null pointer: stores, and sources no other pass filled in.\<close>

definition null_shadow :: "ir \<Rightarrow> code \<Rightarrow> type_map \<Rightarrow> shadow_ops \<Rightarrow> nat \<Rightarrow> bool" where
  "null_shadow m c T ops0 v \<longleftrightarrow> ops0 v = Some sh_null \<or>
    ops0 v = None \<and> operation_kind m c T v \<in> {Ret (Some k_source), Ret (Some k_store), Ret (Some k_freeze)}"

text \<open>
  A shadow of a value that is right: it holds where the value is tainted, and it is null only if it
  has to be.
\<close>

definition shadow_right ::
  "ir \<Rightarrow> code \<Rightarrow> type_map \<Rightarrow> inst_view \<Rightarrow> shadow_ops \<Rightarrow> nat \<Rightarrow> shadow_value \<Rightarrow> bool" where
  "shadow_right m c T iv ops0 v r \<longleftrightarrow>
    (\<forall>\<rho>. shadow_holds \<rho> r = tainted m c T iv ops0 \<rho> v) \<and> (null_shadow m c T ops0 v \<or> r \<noteq> sh_null)"

text \<open>The entries made by the pass are right; the ones it found are still there.\<close>

definition ops_right ::
  "ir \<Rightarrow> code \<Rightarrow> type_map \<Rightarrow> inst_view \<Rightarrow> shadow_ops \<Rightarrow> shadow_ops \<Rightarrow> bool" where
  "ops_right m c T iv ops0 ops \<longleftrightarrow>
    (\<forall>v. ops0 v \<noteq> None \<longrightarrow> ops v = ops0 v) \<and>
    (\<forall>v r. ops0 v = None \<longrightarrow> ops v = Some r \<longrightarrow> shadow_right m c T iv ops0 v r)"

lemma ops_right_refl: "ops_right m c T iv ops0 ops0"
  by (simp add: ops_right_def)

lemma ops_right_entry:
  "ops_right m c T iv ops0 ops \<Longrightarrow> ops v = Some r \<Longrightarrow> shadow_right m c T iv ops0 v r"
  by (cases "ops0 v")
    (auto simp: ops_right_def shadow_right_def null_shadow_def intro: tainted_before elim: tainted_cases)

lemma ops_right_add:
  "ops_right m c T iv ops0 ops \<Longrightarrow> ops0 v = None \<Longrightarrow> shadow_right m c T iv ops0 v r \<Longrightarrow>
    ops_right m c T iv ops0 (ops(v \<mapsto> r))"
  by (auto simp: ops_right_def)

lemma ops_right_unset: "ops_right m c T iv ops0 ops \<Longrightarrow> ops v = None \<Longrightarrow> ops0 v = None"
  by (cases "ops0 v") (auto simp: ops_right_def)

lemma tainted_leaf_iff:
  assumes "ops0 v = None" "operation_kind m c T v = Ret (Some k)" "k \<noteq> k_forward"
  shows "tainted m c T iv ops0 \<rho> v = shadow_holds \<rho> (leaf_shadow c iv k v)"
  using assms by (auto intro: tainted_leaf elim: tainted_cases)

lemma tainted_flow_iff:
  assumes "ops0 v = None" "operation_kind m c T v = Ret (Some k_forward)" "iv_is_inst iv v"
  shows "tainted m c T iv ops0 \<rho> v = (\<exists>w \<in> set (iv_operands iv v). tainted m c T iv ops0 \<rho> w)"
  using assms by (auto intro: tainted_flow elim: tainted_cases)

lemma tainted_constant:
  assumes "ops0 v = None" "operation_kind m c T v = Ret (Some k_forward)" "\<not> iv_is_inst iv v"
  shows "\<not> tainted m c T iv ops0 \<rho> v"
  using assms by (auto elim: tainted_cases)

lemma tainted_no_kind:
  assumes "ops0 v = None" "operation_kind m c T v = Ret None"
  shows "\<not> tainted m c T iv ops0 \<rho> v"
  using assms by (auto elim: tainted_cases)

text \<open>
  A module the pass can handle: every value has a kind or is known to have none, an instruction
  has operands, and the operands of an instruction that forwards have shadows and come before it in
  some order. A value that has an entry before the pass has a kind.
\<close>

definition shadows_acyclic :: "ir \<Rightarrow> code \<Rightarrow> type_map \<Rightarrow> inst_view \<Rightarrow> shadow_ops \<Rightarrow> (nat \<Rightarrow> nat) \<Rightarrow> bool" where
  "shadows_acyclic m c T iv ops0 rank \<longleftrightarrow>
    (\<forall>v. \<exists>k. operation_kind m c T v = Ret k \<and> (k = None \<longrightarrow> ops0 v = None)) \<and>
    (\<forall>v. operation_kind m c T v = Ret (Some k_forward) \<longrightarrow> iv_is_inst iv v \<longrightarrow> ops0 v = None \<longrightarrow>
      iv_operands iv v \<noteq> [] \<and>
      (\<forall>w \<in> set (iv_operands iv v). rank w < rank v \<and> \<not> null_shadow m c T ops0 w))"

definition processed_right ::
  "ir \<Rightarrow> code \<Rightarrow> type_map \<Rightarrow> inst_view \<Rightarrow> shadow_ops \<Rightarrow> (nat \<Rightarrow> nat) \<Rightarrow> nat \<Rightarrow> bool" where
  "processed_right m c T iv ops0 rank n \<longleftrightarrow>
    (\<forall>v k ops. operation_kind m c T v = Ret (Some k) \<longrightarrow> 2 * rank v < n \<longrightarrow> ops_right m c T iv ops0 ops \<longrightarrow>
      (\<exists>r ops'. shadow_process m c T iv n (v, k) ops = Some (Ret (r, ops')) \<and> ops_right m c T iv ops0 ops' \<and>
        ops' v = Some r \<and> shadow_right m c T iv ops0 v r))"

lemma process_value_right:
  assumes "shadows_acyclic m c T iv ops0 rank" "processed_right m c T iv ops0 rank n"
    and "2 * rank w < n" "ops_right m c T iv ops0 ops"
  shows "\<exists>r ops'. process_value m c T iv (Suc n) w ops = Some (Ret (r, ops')) \<and>
    ops_right m c T iv ops0 ops' \<and> shadow_right m c T iv ops0 w r"
proof -
  obtain k where k: "operation_kind m c T w = Ret k" "k = None \<Longrightarrow> ops0 w = None"
    using assms(1) unfolding shadows_acyclic_def by blast
  show ?thesis
  proof (cases k)
    case None
    with k assms(4) tainted_no_kind [of ops0 w m c T] show ?thesis by (simp add: shadow_right_def)
  next
    case (Some k')
    with k(1) assms(2-4) show ?thesis
      unfolding processed_right_def by fastforce
  qed
qed

lemma or_shadow_right:
  assumes "shadow_right m c T iv ops0 w t" "\<not> null_shadow m c T ops0 w" "s \<noteq> sh_null"
  shows "or_shadow s t = Ret (sh_or s t)"
  using assms by (auto simp: or_shadow_def shadow_right_def)

lemma process_operands_right:
  assumes "shadows_acyclic m c T iv ops0 rank" "processed_right m c T iv ops0 rank n"
    and "\<And>w. w \<in> set ws \<Longrightarrow> 2 * rank w < n \<and> \<not> null_shadow m c T ops0 w" "s \<noteq> sh_null"
    and "ops_right m c T iv ops0 ops"
  shows "\<exists>r ops'. process_operands m c T iv (Suc n) ws s ops = Some (Ret (r, ops')) \<and>
    ops_right m c T iv ops0 ops' \<and> r \<noteq> sh_null \<and>
    (\<forall>\<rho>. shadow_holds \<rho> r = (shadow_holds \<rho> s \<or> (\<exists>w \<in> set ws. tainted m c T iv ops0 \<rho> w)))"
  using assms(3-5)
proof (induction ws arbitrary: s ops)
  case Nil
  then show ?case by simp
next
  case (Cons w ws)
  obtain t ops1 where t: "process_value m c T iv (Suc n) w ops = Some (Ret (t, ops1))"
      "ops_right m c T iv ops0 ops1" "shadow_right m c T iv ops0 w t"
    using process_value_right [OF assms(1,2) _ Cons.prems(3), of w] Cons.prems(1) by auto
  have "or_shadow s t = Ret (sh_or s t)"
    using or_shadow_right [OF t(3)] Cons.prems(1,2) by simp
  with t Cons.IH [OF _ _ t(2), of "sh_or s t"] Cons.prems(1) show ?case
    by (auto simp: sbind_def shadow_right_def simp del: process_value.simps)
qed

lemma leaf_shadow_right:
  assumes "ops0 v = None" "operation_kind m c T v = Ret (Some k)" "\<not> (k = k_forward \<and> iv_is_inst iv v)"
  shows "shadow_right m c T iv ops0 v (leaf_shadow c iv k v)"
proof -
  have "leaf_shadow c iv k v = sh_null \<Longrightarrow> k \<in> {k_source, k_store, k_freeze}"
    by (cases k) (simp_all add: leaf_shadow_def process_melt_def process_global_def)
  then have null: "null_shadow m c T ops0 v \<or> leaf_shadow c iv k v \<noteq> sh_null"
    using assms by (auto simp: null_shadow_def)
  show ?thesis
  proof (cases "k = k_forward")
    case True
    with assms tainted_constant [of ops0 v m c T iv] null show ?thesis
      by (auto simp: shadow_right_def leaf_shadow_def)
  next
    case False
    with assms tainted_leaf_iff [of ops0 v m c T k iv] null show ?thesis
      by (auto simp: shadow_right_def)
  qed
qed

text \<open>The disjunction over the operands of an instruction, with the fuel it takes.\<close>

lemma forward_right:
  assumes "shadows_acyclic m c T iv ops0 rank" "processed_right m c T iv ops0 rank n"
    and "operation_kind m c T v = Ret (Some k_forward)" "iv_is_inst iv v" "ops0 v = None"
    and "2 * rank v \<le> Suc n" "ops_right m c T iv ops0 ops"
  obtains w ws s ops1 r ops2 where "iv_operands iv v = w # ws"
    "process_value m c T iv (Suc n) w ops = Some (Ret (s, ops1))"
    "process_operands m c T iv (Suc n) ws s ops1 = Some (Ret (r, ops2))"
    "ops_right m c T iv ops0 ops2" "shadow_right m c T iv ops0 v r"
proof -
  have "iv_operands iv v \<noteq> [] \<and>
      (\<forall>w \<in> set (iv_operands iv v). rank w < rank v \<and> \<not> null_shadow m c T ops0 w)"
    using assms(1,3-5) unfolding shadows_acyclic_def by blast
  then obtain w ws where ws: "iv_operands iv v = w # ws"
    and operands: "\<And>x. x \<in> set (w # ws) \<Longrightarrow> 2 * rank x < n \<and> \<not> null_shadow m c T ops0 x"
    using assms(6) by (cases "iv_operands iv v") fastforce+
  obtain s ops1 where s: "process_value m c T iv (Suc n) w ops = Some (Ret (s, ops1))"
      "ops_right m c T iv ops0 ops1" "shadow_right m c T iv ops0 w s"
    using process_value_right [OF assms(1,2) _ assms(7), of w] operands by auto
  have "s \<noteq> sh_null" using s(3) operands [of w] by (auto simp: shadow_right_def)
  with process_operands_right [OF assms(1,2) _ _ s(2), of ws s] operands
  obtain r ops2 where r: "process_operands m c T iv (Suc n) ws s ops1 = Some (Ret (r, ops2))"
      "ops_right m c T iv ops0 ops2" "r \<noteq> sh_null"
      "\<And>\<rho>. shadow_holds \<rho> r = (shadow_holds \<rho> s \<or> (\<exists>w \<in> set ws. tainted m c T iv ops0 \<rho> w))"
    by auto
  have "shadow_right m c T iv ops0 v r"
    using r(3,4) s(3) ws tainted_flow_iff [of ops0 v m c T iv] assms(3-5)
    by (simp add: shadow_right_def)
  with ws s(1) r(1,2) that show ?thesis by blast
qed

lemma shadow_process_right:
  assumes "shadows_acyclic m c T iv ops0 rank"
  shows "processed_right m c T iv ops0 rank n"
proof (induction n rule: less_induct)
  case (less n)
  show ?case
    unfolding processed_right_def
  proof (intro allI impI)
    fix v k ops
    assume k: "operation_kind m c T v = Ret (Some k)" and n: "2 * rank v < n" and ops: "ops_right m c T iv ops0 ops"
    then obtain n1 where n1: "n = Suc n1" by (cases n) auto
    show "\<exists>r ops'. shadow_process m c T iv n (v, k) ops = Some (Ret (r, ops')) \<and> ops_right m c T iv ops0 ops' \<and>
        ops' v = Some r \<and> shadow_right m c T iv ops0 v r"
    proof (cases "ops v")
      case (Some r)
      with ops_right_entry [OF ops Some] ops n1 show ?thesis by simp
    next
      case None
      have new: "ops0 v = None" using ops_right_unset [OF ops None] .
      show ?thesis
      proof (cases "k = k_forward \<and> iv_is_inst iv v")
        case False
        with None n1 ops_right_add [OF ops new] leaf_shadow_right [of ops0 v m c T k iv, OF new k] show ?thesis
          by (auto simp: sbind_def)
      next
        case True
        have "rank v \<noteq> 0"
          using assms True k new unfolding shadows_acyclic_def
          by (cases "iv_operands iv v") fastforce+
        with n n1 obtain n2 where n2: "n1 = Suc n2" by (cases n1) auto
        have IH: "processed_right m c T iv ops0 rank n2" using less.IH [of n2] n1 n2 by simp
        have kf: "operation_kind m c T v = Ret (Some k_forward)" and inst: "iv_is_inst iv v"
          and small: "2 * rank v \<le> Suc n2" using k True n n1 n2 by simp_all
        obtain w ws s ops1 r ops2 where forward: "iv_operands iv v = w # ws"
            "process_value m c T iv n1 w ops = Some (Ret (s, ops1))"
            "process_operands m c T iv n1 ws s ops1 = Some (Ret (r, ops2))"
            "ops_right m c T iv ops0 ops2" "shadow_right m c T iv ops0 v r"
          by (rule forward_right [OF assms IH kf inst new small ops]) (use n2 in blast)
        with None True n1 ops_right_add [OF forward(4) new forward(5)] show ?thesis
          by (auto simp: sbind_def simp del: process_value.simps)
      qed
    qed
  qed
qed

section \<open>All values of the worklist\<close>

text \<open>Entries stay: an entry is made where there was none, or overwrites itself.\<close>

lemma sbind_result: "sbind m k = Some (Ret z) \<Longrightarrow> \<exists>x ops. m = Some (Ret (x, ops)) \<and> k x ops = Some (Ret z)"
  by (auto simp: sbind_def split: option.splits outcome.splits prod.splits)

lemma or_shadow_result:
  "(case or_shadow s t of Ret r \<Rightarrow> f r | Cancel \<Rightarrow> Some Cancel | Fault msg \<Rightarrow> Some (Fault msg)
    | Undef \<Rightarrow> Some Undef) = Some (Ret z) \<Longrightarrow> f (sh_or s t) = Some (Ret z)"
  by (simp add: or_shadow_def split: if_splits)

lemma shadow_process_result:
  assumes "shadow_process m c T iv (Suc n) (v, k) ops = Some (Ret (r, ops'))" "ops v = None"
  obtains "\<not> (k = k_forward \<and> iv_is_inst iv v)" "ops' = ops(v \<mapsto> r)"
  | w ws s ops1 ops2 where "k = k_forward" "iv_is_inst iv v" "iv_operands iv v = w # ws"
      "process_value m c T iv n w ops = Some (Ret (s, ops1))"
      "process_operands m c T iv n ws s ops1 = Some (Ret (r, ops2))" "ops' = ops2(v \<mapsto> r)"
proof (cases "k = k_forward \<and> iv_is_inst iv v")
  case False
  with assms that(1) show ?thesis by (auto simp: sbind_def)
next
  case True
  with assms obtain x ops2 where x: "(case iv_operands iv v of [] \<Rightarrow> Some Undef
      | w # ws \<Rightarrow> sbind (process_value m c T iv n w ops) (\<lambda>s. process_operands m c T iv n ws s))
      = Some (Ret (x, ops2))" "x = r" "ops' = ops2(v \<mapsto> r)"
    by (auto dest!: sbind_result simp del: process_value.simps)
  obtain w ws where w: "iv_operands iv v = w # ws" using x(1) by (cases "iv_operands iv v") auto
  with x(1) obtain s ops1 where "process_value m c T iv n w ops = Some (Ret (s, ops1))"
      "process_operands m c T iv n ws s ops1 = Some (Ret (x, ops2))"
    by (auto dest!: sbind_result simp del: process_value.simps)
  with True w x(2,3) that(2) show ?thesis by blast
qed

lemma process_value_result:
  assumes "process_value m c T iv n v ops = Some (Ret (r, ops'))"
  obtains "operation_kind m c T v = Ret None" "ops' = ops"
  | k n' where "operation_kind m c T v = Ret (Some k)" "n = Suc n'"
      "shadow_process m c T iv n' (v, k) ops = Some (Ret (r, ops'))"
  using assms by (cases n; auto split: outcome.splits option.splits)

lemma process_operands_result:
  assumes "process_operands m c T iv n (w # ws) s ops = Some (Ret (r, ops'))"
  obtains t ops1 where "process_value m c T iv n w ops = Some (Ret (t, ops1))"
    "process_operands m c T iv n ws (sh_or s t) ops1 = Some (Ret (r, ops'))"
  using assms by (auto dest!: sbind_result or_shadow_result simp del: process_value.simps)

text \<open>The runs that end, as a relation of the tables before and after.\<close>

inductive visits :: "ir \<Rightarrow> code \<Rightarrow> type_map \<Rightarrow> inst_view \<Rightarrow> nat \<Rightarrow> shadow_ops \<Rightarrow> shadow_ops \<Rightarrow> bool"
  and visits_all :: "ir \<Rightarrow> code \<Rightarrow> type_map \<Rightarrow> inst_view \<Rightarrow> nat list \<Rightarrow> shadow_ops \<Rightarrow> shadow_ops \<Rightarrow> bool"
  for m c T iv where
  visits_none: "operation_kind m c T v = Ret None \<Longrightarrow> visits m c T iv v ops ops"
| visits_entry: "ops v = Some r \<Longrightarrow> visits m c T iv v ops ops"
| visits_leaf: "ops v = None \<Longrightarrow> operation_kind m c T v = Ret (Some k) \<Longrightarrow> \<not> (k = k_forward \<and> iv_is_inst iv v) \<Longrightarrow>
    visits m c T iv v ops (ops(v \<mapsto> r))"
| visits_forward: "ops v = None \<Longrightarrow> operation_kind m c T v = Ret (Some k_forward) \<Longrightarrow> iv_is_inst iv v \<Longrightarrow>
    visits_all m c T iv (iv_operands iv v) ops ops' \<Longrightarrow> visits m c T iv v ops (ops'(v \<mapsto> r))"
| visits_Nil: "visits_all m c T iv [] ops ops"
| visits_Cons: "visits m c T iv w ops ops1 \<Longrightarrow> visits_all m c T iv ws ops1 ops' \<Longrightarrow>
    visits_all m c T iv (w # ws) ops ops'"

definition visits_by :: "ir \<Rightarrow> code \<Rightarrow> type_map \<Rightarrow> inst_view \<Rightarrow> nat \<Rightarrow> bool" where
  "visits_by m c T iv n \<longleftrightarrow>
    (\<forall>v k ops r ops'. operation_kind m c T v = Ret (Some k) \<longrightarrow>
      shadow_process m c T iv n (v, k) ops = Some (Ret (r, ops')) \<longrightarrow> visits m c T iv v ops ops')"

lemma process_value_visits:
  assumes "process_value m c T iv n v ops = Some (Ret (r, ops'))" "\<And>n'. n = Suc n' \<Longrightarrow> visits_by m c T iv n'"
  shows "visits m c T iv v ops ops'"
  using assms(1)
proof (rule process_value_result)
  fix k n'
  assume "operation_kind m c T v = Ret (Some k)" "n = Suc n'"
    "shadow_process m c T iv n' (v, k) ops = Some (Ret (r, ops'))"
  with assms(2) [of n'] show ?thesis unfolding visits_by_def by blast
qed (simp add: visits_none)

lemma process_operands_visits:
  assumes "process_operands m c T iv n ws s ops = Some (Ret (r, ops'))"
    and "\<And>n'. n = Suc n' \<Longrightarrow> visits_by m c T iv n'"
  shows "visits_all m c T iv ws ops ops'"
  using assms(1)
proof (induction ws arbitrary: s ops)
  case Nil
  then show ?case by (simp add: visits_Nil)
next
  case (Cons w ws)
  from Cons.prems show ?case
  proof (rule process_operands_result)
    fix t ops1
    assume "process_value m c T iv n w ops = Some (Ret (t, ops1))"
      "process_operands m c T iv n ws (sh_or s t) ops1 = Some (Ret (r, ops'))"
    then show ?thesis by (intro visits_Cons [OF process_value_visits [OF _ assms(2)] Cons.IH])
  qed
qed

lemma shadow_process_visits: "visits_by m c T iv n"
proof (induction n rule: less_induct)
  case (less n)
  show ?case
    unfolding visits_by_def
  proof (intro allI impI)
    fix v k ops r ops'
    assume kind: "operation_kind m c T v = Ret (Some k)"
      and run: "shadow_process m c T iv n (v, k) ops = Some (Ret (r, ops'))"
    obtain n1 where n1: "n = Suc n1" using run by (cases n) auto
    have IH: "visits_by m c T iv n2" if "n1 = Suc n2" for n2 using less [of n2] that n1 by simp
    show "visits m c T iv v ops ops'"
    proof (cases "ops v")
      case (Some y)
      with run n1 show ?thesis by (simp add: visits_entry)
    next
      case None
      from run [unfolded n1] this show ?thesis
      proof (rule shadow_process_result)
        fix w ws s ops1 ops2
        assume r: "k = k_forward" "iv_is_inst iv v" "iv_operands iv v = w # ws"
          "process_value m c T iv n1 w ops = Some (Ret (s, ops1))"
          "process_operands m c T iv n1 ws s ops1 = Some (Ret (r, ops2))" "ops' = ops2(v \<mapsto> r)"
        have "visits_all m c T iv (iv_operands iv v) ops ops2"
          using process_value_visits [OF r(4) IH] process_operands_visits [OF r(5) IH] r(3)
          by (auto intro: visits_Cons)
        with kind None r(1,2,6) show ?thesis by (auto intro: visits_forward)
      qed (use kind None in \<open>auto intro: visits_leaf\<close>)
    qed
  qed
qed

lemma visits_stay:
  "visits m c T iv v ops ops' \<Longrightarrow> dom ops \<subseteq> dom ops'"
  "visits_all m c T iv ws ops ops' \<Longrightarrow> dom ops \<subseteq> dom ops'"
  by (induction rule: visits_visits_all.inducts) auto

text \<open>
  Instructions in a cycle: each of them has an operand among them. No run that ends visits one, or
  makes an entry for one.
\<close>

definition shadow_cycle :: "ir \<Rightarrow> code \<Rightarrow> type_map \<Rightarrow> inst_view \<Rightarrow> nat set \<Rightarrow> bool" where
  "shadow_cycle m c T iv C \<longleftrightarrow>
    (\<forall>v \<in> C. operation_kind m c T v = Ret (Some k_forward) \<and> iv_is_inst iv v \<and>
      set (iv_operands iv v) \<inter> C \<noteq> {})"

lemma visits_cycle:
  assumes "shadow_cycle m c T iv C"
  shows "visits m c T iv v ops ops' \<Longrightarrow> dom ops \<inter> C = {} \<Longrightarrow> v \<notin> C \<and> dom ops' \<inter> C = {}"
    and "visits_all m c T iv ws ops ops' \<Longrightarrow> dom ops \<inter> C = {} \<Longrightarrow> set ws \<inter> C = {} \<and> dom ops' \<inter> C = {}"
  using assms by (induction rule: visits_visits_all.inducts) (auto simp: shadow_cycle_def)

text \<open>The worklist.\<close>

lemma operation_kind_listed:
  assumes "shadow_kinds m c T vs = Ret xs" "(v, k) \<in> set xs"
  shows "operation_kind m c T v = Ret (Some k)"
proof -
  obtain w zs where "omap (\<lambda>k. case k of None \<Rightarrow> [] | Some k \<Rightarrow> [(w, k)]) (operation_kind m c T w) = Ret zs"
      "(v, k) \<in> set zs"
    using ocollect_Ret [OF assms [unfolded shadow_kinds_def]] by blast
  then show ?thesis
    by (cases "operation_kind m c T w") (auto split: option.splits)
qed

lemma toprocess_listed:
  assumes "shadow_toprocess m c M T = Ret xs" "(v, k) \<in> set xs"
  shows "operation_kind m c T v = Ret (Some k)"
proof -
  obtain as bs where "shadow_kinds m c T (filter (abstract_value T) (md_values M)) = Ret as"
      "shadow_kinds m c T (md_stores M) = Ret bs" "xs = as @ bs"
    using assms(1) unfolding shadow_toprocess_def by (auto simp: obind_eq_Ret omap_eq_Ret)
  with assms(2) operation_kind_listed show ?thesis by auto
qed

lemma process_shadows_right:
  assumes "shadows_acyclic m c T iv ops0 rank"
    and "\<And>v k. (v, k) \<in> set xs \<Longrightarrow> operation_kind m c T v = Ret (Some k) \<and> 2 * rank v < n"
    and "ops_right m c T iv ops0 ops"
  shows "\<exists>ops'. process_shadows m c T iv n xs ops = Some (Ret ((), ops')) \<and> ops_right m c T iv ops0 ops' \<and>
    dom ops \<union> fst ` set xs \<subseteq> dom ops'"
  using assms(2,3)
proof (induction xs arbitrary: ops)
  case Nil
  then show ?case by simp
next
  case (Cons x xs)
  obtain v k where x: "x = (v, k)" by (cases x)
  have kind: "operation_kind m c T v = Ret (Some k)" using Cons.prems(1) x by auto
  obtain r ops1 where r: "shadow_process m c T iv n (v, k) ops = Some (Ret (r, ops1))"
      "ops_right m c T iv ops0 ops1" "ops1 v = Some r"
    using shadow_process_right [OF assms(1), of n] Cons.prems x unfolding processed_right_def
    by (metis list.set_intros(1))
  have "dom ops \<subseteq> dom ops1"
    using shadow_process_visits [of m c T iv n] r(1) kind visits_stay(1)
    unfolding visits_by_def by blast
  moreover obtain ops' where "process_shadows m c T iv n xs ops1 = Some (Ret ((), ops'))"
      "ops_right m c T iv ops0 ops'" "dom ops1 \<union> fst ` set xs \<subseteq> dom ops'"
    using Cons.IH [OF _ r(2)] Cons.prems(1) by (meson list.set_intros(2))
  moreover have "v \<in> dom ops1" using r(3) by blast
  ultimately show ?case
    using r(1) x by (intro exI [of _ ops']) (auto simp: sbind_def)
qed

section \<open>Examples\<close>

text \<open>Two sums after one another, and the same two in a loop.\<close>

definition sum_ir :: ir where
  "sum_ir =
    \<lparr>ir_class = (\<lambda>v. if v = 0 then v_argument else if v = 1 \<or> v = 2 then v_binop else v_const_data),
     ir_uses = (\<lambda>_. []), ir_type = (\<lambda>_. ty_other), ir_return_type = (\<lambda>_. ty_other), ir_called_operand = (\<lambda>v. v),
     ir_called = (\<lambda>_. None), ir_name = (\<lambda>_. []), ir_function = (\<lambda>_. None), ir_vararg = (\<lambda>_. False),
     ir_args = (\<lambda>_. []), points_to = (\<lambda>_. [])\<rparr>"

definition sum_view :: inst_view where
  "sum_view = \<lparr>iv_is_inst = (\<lambda>v. v = 1 \<or> v = 2), iv_operands = (\<lambda>v. if v = 1 then [0, 9] else if v = 2 then [9, 1] else []),
     iv_global_name = (\<lambda>_. [])\<rparr>"

definition loop_view :: inst_view where
  "loop_view = sum_view\<lparr>iv_operands := \<lambda>v. if v = 1 then [9, 2] else if v = 2 then [1, 9] else []\<rparr>"

definition sum_types :: type_map where
  "sum_types v = (if v \<le> 2 then Some (make_abstract (onion_new 0)) else None)"

definition sum_md :: md where
  "sum_md = \<lparr>md_functions = [], md_stores = [], md_branches = [], md_calls = [], md_returns = [],
     md_conditional = (\<lambda>_. False), md_call_arguments = (\<lambda>_. []), md_return_value = (\<lambda>_. None), md_values = [2, 1]\<rparr>"

section \<open>Properties\<close>



text \<open>
  C36: The pass does not get through a loop: when instructions form a cycle of operands (the
  counter of a loop, its phi instruction and its increment) and none has a shadow yet, no bound on
  the depth of the recursion is enough for a worklist with one of them, because the shadow of an
  instruction is remembered only after those of its operands are made.
\<close>

theorem shadow_cycle_unresolved:
  assumes "shadow_cycle m c T iv C" "dom ops \<inter> C = {}" "shadow_kinds m c T vs = Ret xs" "fst ` set xs \<inter> C \<noteq> {}"
  shows "process_shadows m c T iv n xs ops \<noteq> Some (Ret ((), ops'))"
proof
  assume run: "process_shadows m c T iv n xs ops = Some (Ret ((), ops'))"
  have "fst ` set ys \<inter> C = {}"
    if "process_shadows m c T iv n ys ops = Some (Ret ((), ops'))" "dom ops \<inter> C = {}" "set ys \<subseteq> set xs" for ys ops
    using that
  proof (induction ys arbitrary: ops)
    case (Cons y ys)
    obtain v k where y: "y = (v, k)" by (cases y)
    obtain r ops1 where r: "shadow_process m c T iv n (v, k) ops = Some (Ret (r, ops1))"
        "process_shadows m c T iv n ys ops1 = Some (Ret ((), ops'))"
      using Cons.prems(1) y by (auto dest: sbind_result)
    have "visits m c T iv v ops ops1"
      using shadow_process_visits [of m c T iv n] operation_kind_listed [OF assms(3), of v k] r(1) Cons.prems(3) y
      unfolding visits_by_def by auto
    from visits_cycle(1) [OF assms(1) this Cons.prems(2)] Cons.IH [OF r(2)] Cons.prems(3) y show ?case by auto
  qed simp
  from this [OF run assms(2)] assms(4) show False by simp
qed

theorem shadow_cycle_unresolved_witness:
  "\<forall>n ops'. process_shadows sum_ir cast_code sum_types loop_view n [(2, k_forward), (1, k_forward)]
    [0 \<mapsto> sh_leaf (lf_unstashed 0)] \<noteq> Some (Ret ((), ops'))"
proof (intro allI, rule shadow_cycle_unresolved [of _ _ _ _ "{1, 2}" _ "[2, 1]"])
  show "shadow_cycle sum_ir cast_code sum_types loop_view {1, 2}"
    by (simp add: shadow_cycle_def operation_kind_def sum_ir_def loop_view_def sum_view_def)
  show "shadow_kinds sum_ir cast_code sum_types [2, 1] = Ret [(2, k_forward), (1, k_forward)]"
    by code_simp
qed simp_all

end
