(* ===== verification/Gep_Lowering.thy ===== *)
theory Gep_Lowering
  imports Dataflow "HOL-Library.Word"
begin

text \<open>
  Pointer arithmetic made explicit: the half of \<open>lartcc/preprocess.cpp\<close> that the driver runs between
  the analysis and the insertion of operations. A \<open>getelementptr\<close> instruction becomes a cast of the
  base to an integer, shifts, products and sums, and a cast back; the driver copies types to them.
  What LLVM says of the type behind every index (the size of an element, the offset of a member)
  is data of the index here; sizes and offsets are those of the data layout.
\<close>

section \<open>Instructions\<close>

text \<open>
  An index steps over elements of a size, or selects a member of a structure. A number in the
  program is kept as a natural number below the bound of its width.
\<close>

datatype gval = g_value nat | g_number nat | g_inst nat

datatype gep_index = sequential (index_value: gval) (index_bits: nat) (element_bytes: nat) | member nat nat

record gep =
  gep_self :: nat
  gep_base :: gval
  gep_base_constant :: bool
  gep_indices :: "gep_index list"

datatype ginst =
  gi_cast gval nat | gi_ptrtoint gval | gi_shl gval nat | gi_mul gval nat | gi_add gval gval | gi_inttoptr gval

text \<open>
  The instructions made so far, numbered in the order in which they are inserted before the
  \<open>getelementptr\<close>, and the dependences that were yielded.
\<close>

record lowering =
  lw_insts :: "ginst list"
  lw_deps :: "(gval \<times> nat) list"

definition emit_inst :: "ginst \<Rightarrow> lowering \<Rightarrow> gval \<times> lowering" where
  "emit_inst x s = (g_inst (length (lw_insts s)), s\<lparr>lw_insts := lw_insts s @ [x]\<rparr>)"

definition depend :: "gval \<Rightarrow> gval \<Rightarrow> lowering \<Rightarrow> lowering" where
  "depend src v s = (case v of g_inst i \<Rightarrow> s\<lparr>lw_deps := lw_deps s @ [(src, i)]\<rparr> | _ \<Rightarrow> s)"

section \<open>Lowering\<close>

text \<open>Indices over elements get the width of a pointer; a cast is made also of a constant.\<close>

fun canonicalize :: "nat \<Rightarrow> gep_index list \<Rightarrow> lowering \<Rightarrow> gep_index list \<times> lowering" where
  "canonicalize w [] s = ([], s)"
| "canonicalize w (sequential v n sz # is) s =
    (if n \<noteq> w
     then (let (v', s1) = emit_inst (gi_cast v n) s; (is', s2) = canonicalize w is s1 in (sequential v' w sz # is', s2))
     else (let (is', s2) = canonicalize w is s in (sequential v n sz # is', s2)))"
| "canonicalize w (member field off # is) s =
    (let (is', s2) = canonicalize w is s in (member field off # is', s2))"

fun accumulate_byte_offset :: "gep_index list \<Rightarrow> 64 word" where
  "accumulate_byte_offset [] = 0"
| "accumulate_byte_offset (sequential v n sz # is) = accumulate_byte_offset is"
| "accumulate_byte_offset (member field off # is) =
    (if field \<noteq> 0 then of_nat off else 0) + accumulate_byte_offset is"

definition power_log :: "nat \<Rightarrow> nat \<Rightarrow> nat option" where
  "power_log w sz = find (\<lambda>k. sz = 2 ^ k) [0..<w]"

text \<open>The builder computes operations on two numbers instead of making an instruction.\<close>

definition create_shl :: "nat \<Rightarrow> gval \<Rightarrow> nat \<Rightarrow> lowering \<Rightarrow> gval \<times> lowering" where
  "create_shl w v k s =
    (case v of g_number n \<Rightarrow> (g_number (push_bit k n mod 2 ^ w), s) | _ \<Rightarrow> emit_inst (gi_shl v k) s)"

definition create_mul :: "nat \<Rightarrow> gval \<Rightarrow> nat \<Rightarrow> lowering \<Rightarrow> gval \<times> lowering" where
  "create_mul w v sz s =
    (case v of g_number n \<Rightarrow> (g_number (n * sz mod 2 ^ w), s) | _ \<Rightarrow> emit_inst (gi_mul v sz) s)"

definition scale_index :: "nat \<Rightarrow> gval \<Rightarrow> nat \<Rightarrow> lowering \<Rightarrow> gval \<times> lowering" where
  "scale_index w idx bytes s =
    (let sz = bytes mod 2 ^ w in
     if sz = 1 then (idx, s)
     else (let (v, s1) = (case power_log w sz of Some k \<Rightarrow> create_shl w idx k s | None \<Rightarrow> create_mul w idx sz s)
           in (v, depend idx v s1)))"

fun lower_indices :: "nat \<Rightarrow> nat \<Rightarrow> gep_index list \<Rightarrow> gval \<Rightarrow> lowering \<Rightarrow> gval \<times> lowering" where
  "lower_indices w g [] res s = (res, s)"
| "lower_indices w g (sequential idx n bytes # is) res s =
    (if idx = g_number 0 then lower_indices w g is res s
     else (let (v, s1) = scale_index w idx bytes s; (res', s2) = emit_inst (gi_add res v) s1
           in lower_indices w g is res' (depend (g_value g) res' s2)))"
| "lower_indices w g (member field off # is) res s = lower_indices w g is res s"

definition add_offset :: "nat \<Rightarrow> nat \<Rightarrow> 64 word \<Rightarrow> gval \<Rightarrow> lowering \<Rightarrow> gval \<times> lowering" where
  "add_offset w g offset res s =
    (if offset \<noteq> 0
     then (let (res', s1) = emit_inst (gi_add res (g_number (unat offset mod 2 ^ w))) s in (res', depend (g_value g) res' s1))
     else (res, s))"

text \<open>
  The builder makes a constant of a constant base, which is not the instruction that the code
  casts it to. The result replaces all uses of the \<open>getelementptr\<close>.
\<close>

definition lower_to_arithmetic :: "nat \<Rightarrow> gep \<Rightarrow> gep_index list \<Rightarrow> 64 word \<Rightarrow> lowering \<Rightarrow> (gval \<times> lowering) outcome" where
  "lower_to_arithmetic w g is offset s =
    (if gep_base_constant g then Fault ''cast''
     else (let
       (res, s1) = emit_inst (gi_ptrtoint (gep_base g)) s;
       (sum, s2) = lower_indices w (gep_self g) is res (depend (g_value (gep_self g)) res s1);
       (total, s3) = add_offset w (gep_self g) offset sum s2;
       (ptr, s4) = emit_inst (gi_inttoptr total) s3
     in Ret (ptr, depend (g_value (gep_self g)) ptr s4)))"

definition lower_pointer_arithmetic :: "nat \<Rightarrow> gep \<Rightarrow> (gval \<times> lowering) outcome" where
  "lower_pointer_arithmetic w g =
    (let (is, s) = canonicalize w (gep_indices g) \<lparr>lw_insts = [], lw_deps = []\<rparr>
     in lower_to_arithmetic w g is (accumulate_byte_offset is) s)"

text \<open>
  What the driver does with a dependence: the new instruction gets the type of its source, if it
  has one. Here instructions have types in a map of their own.
\<close>

type_synonym inst_types = "nat \<Rightarrow> type_onion option"

fun copy_type :: "type_map \<Rightarrow> gval \<times> nat \<Rightarrow> inst_types \<Rightarrow> inst_types" where
  "copy_type T (g_value v, i) U = (case T v of Some t \<Rightarrow> U(i \<mapsto> t) | None \<Rightarrow> U)"
| "copy_type T (g_inst j, i) U = (case U j of Some t \<Rightarrow> U(i \<mapsto> t) | None \<Rightarrow> U)"
| "copy_type T (g_number n, i) U = U"

definition lower_gep :: "nat \<Rightarrow> type_map \<Rightarrow> gep \<Rightarrow> (gval \<times> ginst list \<times> inst_types) outcome" where
  "lower_gep w T g =
    omap (\<lambda>(r, s). (r, lw_insts s, fold (copy_type T) (lw_deps s) (\<lambda>_. None))) (lower_pointer_arithmetic w g)"

section \<open>What the instructions compute\<close>

text \<open>The values of the program are numbers of their width, addresses of the width of a pointer.\<close>

type_synonym genv = "nat \<Rightarrow> nat"

fun gval_raw :: "genv \<Rightarrow> 'w::len word list \<Rightarrow> gval \<Rightarrow> nat" where
  "gval_raw env rs (g_value v) = env v"
| "gval_raw env rs (g_number n) = n"
| "gval_raw env rs (g_inst i) = unat (rs ! i)"

abbreviation gval_word :: "genv \<Rightarrow> 'w::len word list \<Rightarrow> gval \<Rightarrow> 'w word" where
  "gval_word env rs v \<equiv> of_nat (gval_raw env rs v)"

definition signed_value :: "nat \<Rightarrow> nat \<Rightarrow> int" where
  "signed_value n v = signed_take_bit (n - 1) (int v)"

fun ginst_value :: "genv \<Rightarrow> 'w::len word list \<Rightarrow> ginst \<Rightarrow> 'w word" where
  "ginst_value env rs (gi_cast v n) = word_of_int (signed_value n (gval_raw env rs v))"
| "ginst_value env rs (gi_ptrtoint v) = gval_word env rs v"
| "ginst_value env rs (gi_shl v k) = push_bit k (gval_word env rs v)"
| "ginst_value env rs (gi_mul v sz) = gval_word env rs v * of_nat sz"
| "ginst_value env rs (gi_add a b) = gval_word env rs a + gval_word env rs b"
| "ginst_value env rs (gi_inttoptr v) = gval_word env rs v"

definition run_insts :: "genv \<Rightarrow> ginst list \<Rightarrow> 'w::len word list" where
  "run_insts env xs = fold (\<lambda>x rs. rs @ [ginst_value env rs x]) xs []"

text \<open>
  The address that LLVM's reference gives a \<open>getelementptr\<close>: the base, plus the indices as signed
  numbers times the sizes of their elements, plus the offsets of the members, wrapping around.
\<close>

fun index_bytes :: "genv \<Rightarrow> 'w::len word list \<Rightarrow> gep_index \<Rightarrow> 'w word" where
  "index_bytes env rs (sequential v n bytes) = word_of_int (signed_value n (gval_raw env rs v)) * of_nat bytes"
| "index_bytes env rs (member field off) = of_nat off"

definition gep_address :: "genv \<Rightarrow> gep \<Rightarrow> 'w::len word" where
  "gep_address env g = gval_word env [] (gep_base g) + sum_list (map (index_bytes env []) (gep_indices g))"

section \<open>Lowering computes the address\<close>

lemma run_insts_snoc [simp]:
  "run_insts env (xs @ [x]) = run_insts env xs @ [ginst_value env (run_insts env xs) x]"
  by (simp add: run_insts_def)

lemma length_run_insts [simp]: "length (run_insts env xs) = length xs"
  by (induction xs rule: rev_induct) (simp_all add: run_insts_def)

text \<open>Values of the first \<open>n\<close> instructions stay.\<close>

definition known :: "nat \<Rightarrow> gval \<Rightarrow> bool" where
  "known n v = (case v of g_inst i \<Rightarrow> i < n | _ \<Rightarrow> True)"

definition lw_extends :: "lowering \<Rightarrow> lowering \<Rightarrow> bool" where
  "lw_extends s s' \<longleftrightarrow> (\<exists>xs. lw_insts s' = lw_insts s @ xs)"

lemma lw_extends_refl [simp]: "lw_extends s s"
  by (simp add: lw_extends_def)

lemma lw_extends_trans: "lw_extends s1 s2 \<Longrightarrow> lw_extends s2 s3 \<Longrightarrow> lw_extends s1 s3"
  by (auto simp: lw_extends_def)

lemma run_insts_prefix:
  assumes "i < length xs"
  shows "run_insts env (xs @ ys) ! i = (run_insts env xs ! i :: 'w::len word)"
proof (induction ys rule: rev_induct)
  case (snoc y ys)
  have "run_insts env ((xs @ ys) @ [y]) ! i = (run_insts env (xs @ ys) ! i :: 'w word)"
    using assms by (simp add: nth_append del: append_assoc)
  with snoc show ?case by simp
qed simp

abbreviation values_of :: "genv \<Rightarrow> lowering \<Rightarrow> 'w::len word list" where
  "values_of env s \<equiv> run_insts env (lw_insts s)"

lemma gval_raw_extends:
  "lw_extends s s' \<Longrightarrow> known (length (lw_insts s)) v \<Longrightarrow>
    gval_raw env (values_of env s' :: 'w::len word list) v = gval_raw env (values_of env s :: 'w word list) v"
  by (cases v) (auto simp: lw_extends_def known_def run_insts_prefix)

lemma known_extends: "lw_extends s s' \<Longrightarrow> known (length (lw_insts s)) v \<Longrightarrow> known (length (lw_insts s')) v"
  by (cases v) (auto simp: lw_extends_def known_def)

lemma depend_insts [simp]: "lw_insts (depend src v s) = lw_insts s"
  by (simp add: depend_def split: gval.split)

lemma lw_extends_depend [simp]: "lw_extends s (depend src v s') = lw_extends s s'"
  by (simp add: lw_extends_def)

text \<open>A step makes a value that is known and has a word, and keeps what was made before.\<close>

definition makes_value :: "genv \<Rightarrow> lowering \<Rightarrow> gval \<times> lowering \<Rightarrow> 'w::len word \<Rightarrow> bool" where
  "makes_value env s p x \<longleftrightarrow> lw_extends s (snd p) \<and> known (length (lw_insts (snd p))) (fst p) \<and>
    gval_word env (values_of env (snd p) :: 'w word list) (fst p) = x"

lemma makes_emit:
  "ginst_value env (values_of env s) x = y \<Longrightarrow> makes_value env s (emit_inst x s) y"
  by (simp add: makes_value_def emit_inst_def lw_extends_def known_def nth_append)

lemma makes_depend: "makes_value env s (v, s') x \<Longrightarrow> makes_value env s (v, depend src u s') x"
  by (simp add: makes_value_def)

lemma makes_same: "known (length (lw_insts s)) v \<Longrightarrow> gval_word env (values_of env s) v = x \<Longrightarrow> makes_value env s (v, s) x"
  by (simp add: makes_value_def)

lemma power_log_Some: "power_log w sz = Some k \<Longrightarrow> sz = 2 ^ k \<and> k < w"
  by (auto simp: power_log_def find_Some_iff)

lemma of_nat_mod_width: "(of_nat (n mod 2 ^ LENGTH('w)) :: 'w::len word) = of_nat n"
  by (simp add: word_of_nat_eq_iff take_bit_eq_mod)

lemma makes_shl:
  assumes "known (length (lw_insts s)) v"
  shows "makes_value env s (create_shl LENGTH('w) v k s) (gval_word env (values_of env s) v * 2 ^ k :: 'w::len word)"
  using assms
  by (cases v) (auto simp: create_shl_def push_bit_eq_mult of_nat_mod_width intro!: makes_emit makes_same simp: known_def)

lemma makes_mul:
  assumes "known (length (lw_insts s)) v"
  shows "makes_value env s (create_mul LENGTH('w) v sz s) (gval_word env (values_of env s) v * of_nat sz :: 'w::len word)"
  using assms
  by (cases v) (auto simp: create_mul_def of_nat_mod_width intro!: makes_emit makes_same simp: known_def)

lemma makes_scaled:
  assumes "known (length (lw_insts s)) v"
  shows "makes_value env s (scale_index LENGTH('w) v bytes s) (gval_word env (values_of env s) v * of_nat bytes :: 'w::len word)"
proof -
  let ?sz = "bytes mod 2 ^ LENGTH('w)"
  have sz: "(of_nat ?sz :: 'w word) = of_nat bytes" by (rule of_nat_mod_width)
  show ?thesis
  proof (cases "?sz = 1")
    case True
    with sz have "(of_nat bytes :: 'w word) = 1" by simp
    with True assms show ?thesis by (simp add: scale_index_def makes_same Let_def)
  next
    case False
    show ?thesis
    proof (cases "power_log LENGTH('w) ?sz")
      case None
      from makes_mul [OF assms, of env ?sz, where 'w = 'w] False None sz show ?thesis
        by (auto simp: scale_index_def split_beta makes_value_def Let_def)
    next
      case (Some k)
      then have "(of_nat bytes :: 'w word) = 2 ^ k"
        using sz power_log_Some [OF Some] by simp
      with makes_shl [OF assms, of env k, where 'w = 'w] False Some show ?thesis
        by (auto simp: scale_index_def split_beta makes_value_def Let_def)
    qed
  qed
qed

lemma made_extends:
  assumes "makes_value env s p x"
  shows "lw_extends s (snd p)" "known (length (lw_insts (snd p))) (fst p)"
  using assms by (simp_all add: makes_value_def)

lemma makes_trans:
  "lw_extends s s1 \<Longrightarrow> makes_value env s1 p x \<Longrightarrow> makes_value env s p x"
  by (auto simp: makes_value_def intro: lw_extends_trans)

text \<open>An index of the width of a pointer stands for the bytes it steps over.\<close>

fun step_bytes :: "genv \<Rightarrow> 'w::len word list \<Rightarrow> gep_index \<Rightarrow> 'w word" where
  "step_bytes env rs (sequential v n bytes) = gval_word env rs v * of_nat bytes"
| "step_bytes env rs (member field off) = 0"

definition known_index :: "nat \<Rightarrow> gep_index \<Rightarrow> bool" where
  "known_index n i = (case i of sequential v b bytes \<Rightarrow> known n v | member field off \<Rightarrow> True)"

lemma step_bytes_extends:
  "lw_extends s s' \<Longrightarrow> known_index (length (lw_insts s)) i \<Longrightarrow>
    step_bytes env (values_of env s' :: 'w::len word list) i = step_bytes env (values_of env s) i"
  using gval_raw_extends [of s s' _ env, where 'w = 'w] by (cases i) (auto simp: known_index_def)

lemma known_index_extends:
  "lw_extends s s' \<Longrightarrow> known_index (length (lw_insts s)) i \<Longrightarrow> known_index (length (lw_insts s')) i"
  using known_extends by (cases i) (auto simp: known_index_def)

lemma makes_indices:
  assumes "\<forall>i \<in> set xs. known_index (length (lw_insts s)) i" "known (length (lw_insts s)) res"
  shows "makes_value env s (lower_indices LENGTH('w) g xs res s)
    (gval_word env (values_of env s) res + sum_list (map (step_bytes env (values_of env s)) xs) :: 'w::len word)"
  using assms
proof (induction xs arbitrary: res s)
  case Nil
  then show ?case by (simp add: makes_same)
next
  case (Cons x xs)
  consider (skip) field off where "x = member field off"
    | (zero) n bytes where "x = sequential (g_number 0) n bytes"
    | (step) idx n bytes where "x = sequential idx n bytes" "idx \<noteq> g_number 0"
    by (cases x) auto
  then show ?case
  proof cases
    case skip
    with Cons show ?thesis by simp
  next
    case zero
    with Cons show ?thesis by simp
  next
    case step
    obtain v s1 where v: "scale_index LENGTH('w) idx bytes s = (v, s1)" by fastforce
    obtain res' s2 where sum: "emit_inst (gi_add res v) s1 = (res', s2)" by fastforce
    have scaled: "makes_value env s (v, s1) (gval_word env (values_of env s) idx * of_nat bytes :: 'w word)"
      using makes_scaled [of s idx env bytes, where 'w = 'w] Cons.prems(1) step v by (simp add: known_index_def)
    note s1 = made_extends [OF scaled, simplified]
    have res: "gval_word env (values_of env s1) res = (gval_word env (values_of env s) res :: 'w word)"
      using gval_raw_extends [OF s1(1) Cons.prems(2), of env, where 'w = 'w] by simp
    have sum': "makes_value env s1 (res', s2)
        (gval_word env (values_of env s) res + gval_word env (values_of env s) idx * of_nat bytes :: 'w word)"
      unfolding sum [symmetric] by (rule makes_emit) (use res scaled in \<open>simp add: makes_value_def\<close>)
    let ?s2 = "depend (g_value g) res' s2"
    have ext: "lw_extends s ?s2"
      using lw_extends_trans [OF s1(1)] made_extends [OF sum'] by simp
    have steps: "step_bytes env (values_of env ?s2) i = (step_bytes env (values_of env s) i :: 'w word)"
      if "i \<in> set xs" for i
      using step_bytes_extends [OF ext, where 'w = 'w] Cons.prems(1) that by simp
    have "makes_value env ?s2 (lower_indices LENGTH('w) g xs res' ?s2)
        (gval_word env (values_of env ?s2) res' + sum_list (map (step_bytes env (values_of env ?s2)) xs) :: 'w word)"
      using Cons.prems(1) known_index_extends [OF ext] made_extends(2) [OF sum'] by (intro Cons.IH) auto
    also have "gval_word env (values_of env ?s2) res' + sum_list (map (step_bytes env (values_of env ?s2)) xs) =
        gval_word env (values_of env s) res +
        sum_list (map (step_bytes env (values_of env s)) (sequential idx n bytes # xs) :: 'w word list)"
    proof -
      have "map (step_bytes env (values_of env ?s2)) xs = (map (step_bytes env (values_of env s)) xs :: 'w word list)"
        using steps by simp
      moreover have "gval_word env (values_of env ?s2) res' =
          (gval_word env (values_of env s) res + gval_word env (values_of env s) idx * of_nat bytes :: 'w word)"
        using sum' by (simp add: makes_value_def)
      ultimately show ?thesis by (simp only: list.map sum_list.Cons step_bytes.simps add.assoc)
    qed
    finally have "makes_value env s (lower_indices LENGTH('w) g xs res' ?s2)
        (gval_word env (values_of env s) res +
         sum_list (map (step_bytes env (values_of env s)) (sequential idx n bytes # xs)) :: 'w word)"
      by (rule makes_trans [OF ext])
    with step v sum show ?thesis by simp
  qed
qed

text \<open>Indices are cast to the width of a pointer; members stay.\<close>

lemma word_of_signed_value: "word_of_int (signed_value LENGTH('w) n) = (of_nat n :: 'w::len word)"
proof -
  have "take_bit LENGTH('w) (signed_value LENGTH('w) n) = take_bit LENGTH('w) (int n)"
    by (simp add: signed_value_def take_bit_signed_take_bit)
  then have "word_of_int (signed_value LENGTH('w) n) = (word_of_int (int n) :: 'w word)"
    by (simp only: word_of_int_eq_iff)
  then show ?thesis by simp
qed

fun sequential_bytes :: "genv \<Rightarrow> 'w::len word list \<Rightarrow> gep_index \<Rightarrow> 'w word" where
  "sequential_bytes env rs (sequential v n bytes) = index_bytes env rs (sequential v n bytes)"
| "sequential_bytes env rs (member field off) = 0"

lemma sequential_bytes_extends:
  "lw_extends s s' \<Longrightarrow> known_index (length (lw_insts s)) i \<Longrightarrow>
    sequential_bytes env (values_of env s' :: 'w::len word list) i = sequential_bytes env (values_of env s) i"
  using gval_raw_extends [of s s' _ env, where 'w = 'w] by (cases i) (auto simp: known_index_def)

text \<open>What canonicalisation makes of the indices, with the steps they take.\<close>

definition canonical ::
  "genv \<Rightarrow> lowering \<Rightarrow> gep_index list \<Rightarrow> gep_index list \<times> lowering \<Rightarrow> 'w::len word \<Rightarrow> bool" where
  "canonical env s xs p x \<longleftrightarrow> lw_extends s (snd p) \<and>
    (\<forall>i \<in> set (fst p). known_index (length (lw_insts (snd p))) i) \<and>
    accumulate_byte_offset (fst p) = accumulate_byte_offset xs \<and>
    sum_list (map (step_bytes env (values_of env (snd p) :: 'w word list)) (fst p)) = x"

lemma canonical_Cons:
  assumes "canonical env s1 xs (ys, s2) x" "lw_extends s s1" "known_index (length (lw_insts s1)) i'"
    and "accumulate_byte_offset [i'] = accumulate_byte_offset [i]"
    and "step_bytes env (values_of env s1) i' = (y :: 'w::len word)"
  shows "canonical env s (i # xs) (i' # ys, s2) (y + x)"
  using assms known_index_extends [of s1 s2 i'] step_bytes_extends [of s1 s2 i' env, where 'w = 'w] lw_extends_trans
  by (cases i; cases i') (auto simp: canonical_def)

lemma canonicalize_steps:
  assumes "\<forall>i \<in> set xs. known_index (length (lw_insts s)) i"
  shows "canonical env s xs (canonicalize LENGTH('w) xs s)
    (sum_list (map (sequential_bytes env (values_of env s)) xs) :: 'w::len word)"
  using assms
proof (induction xs arbitrary: s)
  case Nil
  then show ?case by (simp add: canonical_def)
next
  case (Cons i xs)
  show ?case
  proof (cases i)
    case (member field off)
    obtain ys s2 where ys: "canonicalize LENGTH('w) xs s = (ys, s2)" by fastforce
    from Cons.IH [of s] Cons.prems
    have "canonical env s xs (ys, s2) (sum_list (map (sequential_bytes env (values_of env s)) xs) :: 'w word)"
      by (simp add: ys)
    from canonical_Cons [OF this lw_extends_refl, of i i 0] member ys show ?thesis
      by (simp add: known_index_def)
  next
    case (sequential v n bytes)
    show ?thesis
    proof (cases "n = LENGTH('w)")
      case True
      obtain ys s2 where ys: "canonicalize LENGTH('w) xs s = (ys, s2)" by fastforce
      from Cons.IH [of s] Cons.prems
      have "canonical env s xs (ys, s2) (sum_list (map (sequential_bytes env (values_of env s)) xs) :: 'w word)"
        by (simp add: ys)
      from canonical_Cons [OF this lw_extends_refl _ refl refl, of i] Cons.prems sequential True ys show ?thesis
        by (simp add: word_of_signed_value)
    next
      case False
      obtain v' s1 where v': "emit_inst (gi_cast v n) s = (v', s1)" by fastforce
      have cast: "makes_value env s (v', s1) (word_of_int (signed_value n (gval_raw env (values_of env s :: 'w word list) v)) :: 'w word)"
        unfolding v' [symmetric] by (rule makes_emit) simp
      note s1 = made_extends [OF cast, simplified]
      obtain ys s2 where ys: "canonicalize LENGTH('w) xs s1 = (ys, s2)" by fastforce
      have same: "map (sequential_bytes env (values_of env s1)) xs =
          (map (sequential_bytes env (values_of env s)) xs :: 'w word list)"
        using sequential_bytes_extends [OF s1(1), where 'w = 'w] Cons.prems by simp
      have "\<forall>i \<in> set xs. known_index (length (lw_insts s1)) i"
        using known_index_extends [OF s1(1)] Cons.prems by simp
      from Cons.IH [OF this]
      have "canonical env s1 xs (ys, s2) (sum_list (map (sequential_bytes env (values_of env s)) xs) :: 'w word)"
        by (simp add: ys same)
      from canonical_Cons [OF this s1(1), of "sequential v' LENGTH('w) bytes" i "sequential_bytes env (values_of env s) i"]
        s1(2) cast sequential False ys v' show ?thesis
        by (simp add: known_index_def makes_value_def)
    qed
  qed
qed

section \<open>The whole lowering\<close>

text \<open>
  A \<open>getelementptr\<close> before the pass: its operands are values of the program, and the first member
  of a structure is at its beginning.
\<close>

definition gep_ok :: "gep \<Rightarrow> bool" where
  "gep_ok g \<longleftrightarrow> known 0 (gep_base g) \<and> (\<forall>i \<in> set (gep_indices g). known_index 0 i) \<and>
    (\<forall>off. member 0 off \<in> set (gep_indices g) \<longrightarrow> off = 0)"

definition member_bytes :: "gep_index list \<Rightarrow> nat" where
  "member_bytes xs = sum_list (map (\<lambda>i. case i of sequential v n bytes \<Rightarrow> 0 | member field off \<Rightarrow> off) xs)"

lemma accumulate_byte_offset_sum:
  "(\<And>off. member 0 off \<in> set xs \<Longrightarrow> off = 0) \<Longrightarrow> accumulate_byte_offset xs = of_nat (member_bytes xs)"
proof (induction xs)
  case (Cons i xs)
  have "accumulate_byte_offset xs = of_nat (member_bytes xs)"
    by (rule Cons.IH) (simp add: Cons.prems)
  moreover have "off = 0" if "i = member 0 off" for off
    using Cons.prems that by simp
  ultimately show ?case
    by (cases i) (simp_all add: member_bytes_def)
qed (simp add: member_bytes_def)

lemma index_bytes_split:
  "sum_list (map (index_bytes env rs) xs) = sum_list (map (sequential_bytes env rs) xs) + of_nat (member_bytes xs)"
proof (induction xs)
  case (Cons i xs)
  then show ?case by (cases i) (simp_all add: member_bytes_def algebra_simps)
qed (simp add: member_bytes_def)

lemma narrowed_offset:
  assumes "LENGTH('w) \<le> 64"
  shows "(ucast (of_nat n :: 64 word) :: 'w::len word) = of_nat n"
proof -
  have "take_bit LENGTH('w) (take_bit 64 n) = take_bit LENGTH('w) n"
    using assms by (simp only: take_bit_take_bit min_absorb1)
  then show ?thesis by (simp add: word_of_nat_eq_iff unsigned_of_nat del: take_bit_take_bit)
qed

lemma makes_offset:
  assumes "known (length (lw_insts s)) res"
  shows "makes_value env s (add_offset LENGTH('w) g offset res s)
    (gval_word env (values_of env s) res + of_nat (unat offset) :: 'w::len word)"
proof (cases "offset = 0")
  case True
  with assms show ?thesis by (simp add: add_offset_def makes_same)
next
  case False
  obtain v s1 where v: "emit_inst (gi_add res (g_number (unat offset mod 2 ^ LENGTH('w)))) s = (v, s1)" by fastforce
  have "makes_value env s (v, s1) (gval_word env (values_of env s) res + of_nat (unat offset) :: 'w word)"
    unfolding v [symmetric] by (rule makes_emit) (simp add: of_nat_mod_width)
  with False v show ?thesis by (simp add: add_offset_def makes_depend)
qed

text \<open>The parts of the lowering after one another: the index sum, the offset and the cast back.\<close>

lemma makes_depend_start:
  "makes_value env (depend src u s) p x \<Longrightarrow> makes_value env s p x"
  by (simp add: makes_value_def lw_extends_def)

lemma gep_lowering_value:
  assumes "gep_ok g" "\<not> gep_base_constant g" "LENGTH('w) \<le> 64"
  shows "\<exists>p s. lower_pointer_arithmetic LENGTH('w) g = Ret (p, s) \<and>
    gval_word env (values_of env s) p = (gep_address env g :: 'w::len word)"
proof -
  let ?s0 = "\<lparr>lw_insts = [], lw_deps = []\<rparr>" and ?self = "g_value (gep_self g)"
  let ?off = "accumulate_byte_offset (gep_indices g)"
  obtain ys s1 where ys: "canonicalize LENGTH('w) (gep_indices g) ?s0 = (ys, s1)" by fastforce
  have can: "canonical env ?s0 (gep_indices g) (ys, s1)
      (sum_list (map (sequential_bytes env []) (gep_indices g)) :: 'w word)"
    using canonicalize_steps [of "gep_indices g" ?s0 env, where 'w = 'w] assms(1) ys
    by (simp add: gep_ok_def run_insts_def)
  obtain b s2 where b: "emit_inst (gi_ptrtoint (gep_base g)) s1 = (b, s2)" by fastforce
  have "gval_raw env (values_of env s1 :: 'w word list) (gep_base g) = gval_raw env ([] :: 'w word list) (gep_base g)"
    using assms(1) by (cases "gep_base g") (auto simp: gep_ok_def known_def)
  then have base: "makes_value env s1 (b, s2) (gval_word env ([] :: 'w word list) (gep_base g) :: 'w word)"
    unfolding b [symmetric] by (intro makes_emit) simp
  let ?s2 = "depend ?self b s2"
  have ext: "lw_extends s1 ?s2" using made_extends [OF base] by simp
  have known: "\<forall>i \<in> set ys. known_index (length (lw_insts ?s2)) i"
    using can known_index_extends [OF ext] by (auto simp: canonical_def)
  have "map (step_bytes env (values_of env ?s2)) ys = (map (step_bytes env (values_of env s1)) ys :: 'w word list)"
    using can step_bytes_extends [OF ext, where 'w = 'w] by (simp add: canonical_def del: depend_insts)
  then have steps: "sum_list (map (step_bytes env (values_of env ?s2)) ys) =
      (sum_list (map (sequential_bytes env []) (gep_indices g)) :: 'w word)"
    using can by (simp only: canonical_def fst_conv snd_conv)
  obtain sum s3 where sum: "lower_indices LENGTH('w) (gep_self g) ys b ?s2 = (sum, s3)" by fastforce
  have sum': "makes_value env ?s2 (sum, s3) (gval_word env ([] :: 'w word list) (gep_base g) +
      sum_list (map (sequential_bytes env []) (gep_indices g)) :: 'w word)"
    using makes_indices [OF known, of b env "gep_self g", where 'w = 'w] base can sum steps
    by (simp add: makes_value_def canonical_def)
  obtain total s4 where total: "add_offset LENGTH('w) (gep_self g) ?off sum s3 = (total, s4)" by fastforce
  have total': "makes_value env s3 (total, s4) (gep_address env g :: 'w word)"
    using makes_offset [OF made_extends(2) [OF sum', simplified], of env "gep_self g" ?off, where 'w = 'w] total sum'
      accumulate_byte_offset_sum [of "gep_indices g"] assms(1,3)
    by (simp add: makes_value_def gep_address_def index_bytes_split narrowed_offset gep_ok_def add.assoc)
  obtain ptr s5 where ptr: "emit_inst (gi_inttoptr total) s4 = (ptr, s5)" by fastforce
  have "makes_value env s4 (ptr, s5) (gep_address env g :: 'w word)"
    unfolding ptr [symmetric] by (rule makes_emit) (use total' in \<open>simp add: makes_value_def\<close>)
  moreover have "accumulate_byte_offset ys = ?off" using can by (simp add: canonical_def)
  ultimately show ?thesis
    using assms(2) ys b sum total ptr
    by (simp add: lower_pointer_arithmetic_def lower_to_arithmetic_def makes_value_def)
qed

section \<open>The types of the instructions\<close>

text \<open>
  The type every instruction has in the end: the arithmetic on the address that of the
  \<open>getelementptr\<close>, the scaling of an index that of the index, and a cast of an index none, and so
  its scaling neither.
\<close>

definition scaled_type :: "type_map \<Rightarrow> gval \<Rightarrow> type_onion option" where
  "scaled_type T v = (case v of g_value u \<Rightarrow> T u | _ \<Rightarrow> None)"

fun inst_type :: "type_map \<Rightarrow> nat \<Rightarrow> ginst \<Rightarrow> type_onion option" where
  "inst_type T g (gi_cast v n) = None"
| "inst_type T g (gi_shl v k) = scaled_type T v"
| "inst_type T g (gi_mul v sz) = scaled_type T v"
| "inst_type T g _ = T g"

definition types_after :: "type_map \<Rightarrow> lowering \<Rightarrow> inst_types" where
  "types_after T s = fold (copy_type T) (lw_deps s) (\<lambda>_. None)"

definition typed :: "type_map \<Rightarrow> nat \<Rightarrow> lowering \<Rightarrow> bool" where
  "typed T g s \<longleftrightarrow> types_after T s =
    (\<lambda>i. if i < length (lw_insts s) then inst_type T g (lw_insts s ! i) else None)"

definition source_type :: "type_map \<Rightarrow> gval \<Rightarrow> lowering \<Rightarrow> type_onion option" where
  "source_type T src s = (case src of g_value v \<Rightarrow> T v | g_inst j \<Rightarrow> types_after T s j | g_number n \<Rightarrow> None)"

lemma typed_emit: "typed T g s \<Longrightarrow> inst_type T g x = None \<Longrightarrow> typed T g (snd (emit_inst x s))"
  by (auto simp: typed_def emit_inst_def types_after_def nth_append fun_eq_iff)

lemma typed_emit_depend:
  assumes "typed T g s" "inst_type T g x = source_type T src s"
  shows "typed T g (depend src (fst (emit_inst x s)) (snd (emit_inst x s)))"
proof -
  have "types_after T (depend src (fst (emit_inst x s)) (snd (emit_inst x s))) =
      (case source_type T src s of Some t \<Rightarrow> (types_after T s)(length (lw_insts s) \<mapsto> t) | None \<Rightarrow> types_after T s)"
    by (cases src) (auto simp: types_after_def depend_def emit_inst_def source_type_def split: option.split)
  with assms show ?thesis
    by (auto simp: typed_def depend_def emit_inst_def nth_append fun_eq_iff split: option.split)
qed

text \<open>An index is a value of the program or a cast made by canonicalisation.\<close>

definition plain_index :: "lowering \<Rightarrow> gval \<Rightarrow> bool" where
  "plain_index s v = (case v of g_inst j \<Rightarrow> j < length (lw_insts s) \<and> (\<exists>u n. lw_insts s ! j = gi_cast u n) | _ \<Rightarrow> True)"

lemma plain_source: "typed T g s \<Longrightarrow> plain_index s v \<Longrightarrow> source_type T v s = scaled_type T v"
  by (cases v) (auto simp: plain_index_def source_type_def scaled_type_def typed_def)

lemma plain_extends: "lw_extends s s' \<Longrightarrow> plain_index s v \<Longrightarrow> plain_index s' v"
  by (cases v) (auto simp: plain_index_def lw_extends_def nth_append)

definition plain :: "lowering \<Rightarrow> gep_index list \<Rightarrow> bool" where
  "plain s xs \<longleftrightarrow> (\<forall>i \<in> set xs. case i of sequential v n bytes \<Rightarrow> plain_index s v | member field off \<Rightarrow> True)"

lemma plain_Cons: "plain s (sequential v n bytes # xs) = (plain_index s v \<and> plain s xs)" "plain s (member field off # xs) = plain s xs"
  by (simp_all add: plain_def)

lemma plain_list_extends: "lw_extends s s' \<Longrightarrow> plain s xs \<Longrightarrow> plain s' xs"
  using plain_extends by (auto simp: plain_def split: gep_index.splits)

lemma lw_extends_emit [simp]: "lw_extends s (snd (emit_inst x s))"
  by (simp add: lw_extends_def emit_inst_def)

lemma typed_canonicalize:
  assumes "typed T g s" "\<forall>i \<in> set xs. known_index 0 i"
  shows "typed T g (snd (canonicalize w xs s)) \<and> plain (snd (canonicalize w xs s)) (fst (canonicalize w xs s)) \<and>
    lw_extends s (snd (canonicalize w xs s))"
  using assms
proof (induction xs arbitrary: s)
  case Nil
  then show ?case by (simp add: plain_def)
next
  case (Cons i xs)
  consider (skip) field off where "i = member field off" | (wide) v bytes where "i = sequential v w bytes"
    | (narrow) v n bytes where "i = sequential v n bytes" "n \<noteq> w"
    by (cases i) auto
  then show ?case
  proof cases
    case skip
    with Cons show ?thesis by (simp add: split_beta plain_Cons)
  next
    case wide
    have "plain_index s' v" for s'
      using Cons.prems(2) wide by (cases v) (simp_all add: known_index_def known_def plain_index_def)
    with Cons wide show ?thesis by (simp add: split_beta plain_Cons)
  next
    case narrow
    let ?s1 = "snd (emit_inst (gi_cast v n) s)"
    have IH: "typed T g (snd (canonicalize w xs ?s1)) \<and>
        plain (snd (canonicalize w xs ?s1)) (fst (canonicalize w xs ?s1)) \<and> lw_extends ?s1 (snd (canonicalize w xs ?s1))"
      using Cons.IH [of ?s1] Cons.prems by (simp add: typed_emit)
    have "plain_index ?s1 (fst (emit_inst (gi_cast v n) s))"
      by (simp add: plain_index_def emit_inst_def)
    with IH narrow show ?thesis
      by (auto simp: split_beta plain_Cons intro: plain_extends lw_extends_trans [OF lw_extends_emit])
  qed
qed

text \<open>Steps that keep the types right.\<close>

definition keeps_types :: "type_map \<Rightarrow> nat \<Rightarrow> lowering \<Rightarrow> gval \<times> lowering \<Rightarrow> bool" where
  "keeps_types T g s p \<longleftrightarrow> typed T g (snd p) \<and> lw_extends s (snd p)"

lemma keeps_emit_depend:
  assumes "typed T g s" "inst_type T g x = source_type T src s"
  shows "keeps_types T g s (fst (emit_inst x s), depend src (fst (emit_inst x s)) (snd (emit_inst x s)))"
  using typed_emit_depend [OF assms] by (simp add: keeps_types_def)

lemma depend_number [simp]: "depend src (g_number n) s = s"
  by (simp add: depend_def)

lemma typed_scale:
  assumes "typed T g s" "plain_index s v"
  shows "keeps_types T g s (scale_index w v bytes s)"
proof -
  have shl: "keeps_types T g s (case create_shl w v k s of (u, s1) \<Rightarrow> (u, depend v u s1))" for k
    using keeps_emit_depend [OF assms(1), of "gi_shl v k" v] plain_source [OF assms] assms(1)
    by (cases v) (simp_all add: create_shl_def split_beta keeps_types_def)
  have mul: "keeps_types T g s (case create_mul w v b s of (u, s1) \<Rightarrow> (u, depend v u s1))" for b
    using keeps_emit_depend [OF assms(1), of "gi_mul v b" v] plain_source [OF assms] assms(1)
    by (cases v) (simp_all add: create_mul_def split_beta keeps_types_def)
  from shl mul assms(1) show ?thesis
    by (auto simp: scale_index_def Let_def keeps_types_def split: option.split)
qed

lemma typed_address:
  assumes "typed T g s" "\<forall>v k. x \<noteq> gi_shl v k \<and> x \<noteq> gi_mul v k \<and> x \<noteq> gi_cast v k"
  shows "keeps_types T g s (fst (emit_inst x s), depend (g_value g) (fst (emit_inst x s)) (snd (emit_inst x s)))"
proof (rule keeps_emit_depend [OF assms(1)])
  show "inst_type T g x = source_type T (g_value g) s"
    using assms(2) by (cases x) (auto simp: source_type_def)
qed

lemma typed_indices:
  assumes "typed T g s" "plain s xs"
  shows "keeps_types T g s (lower_indices w g xs res s)"
  using assms
proof (induction xs arbitrary: res s)
  case Nil
  then show ?case by (simp add: keeps_types_def)
next
  case (Cons i xs)
  show ?case
  proof (cases i)
    case (member field off)
    with Cons show ?thesis by (simp add: plain_Cons)
  next
    case (sequential v n bytes)
    let ?p = "scale_index w v bytes s"
    let ?x = "gi_add res (fst ?p)"
    let ?s2 = "depend (g_value g) (fst (emit_inst ?x (snd ?p))) (snd (emit_inst ?x (snd ?p)))"
    have v: "plain_index s v" "plain s xs" using Cons.prems(2) sequential by (simp_all add: plain_Cons)
    have p: "typed T g (snd ?p)" "lw_extends s (snd ?p)"
      using typed_scale [OF Cons.prems(1) v(1), of w bytes] by (simp_all add: keeps_types_def)
    have s2: "typed T g ?s2" "lw_extends (snd ?p) ?s2"
      using typed_address [OF p(1), of ?x] by (simp_all add: keeps_types_def)
    note ext = lw_extends_trans [OF p(2) s2(2)]
    let ?r = "lower_indices w g xs (fst (emit_inst ?x (snd ?p))) ?s2"
    have "keeps_types T g ?s2 ?r"
      by (rule Cons.IH [OF s2(1) plain_list_extends [OF ext v(2)]])
    then have "typed T g (snd ?r)" "lw_extends s (snd ?r)"
      using lw_extends_trans [OF ext] by (simp_all add: keeps_types_def)
    with Cons.IH [OF Cons.prems(1) v(2)] sequential show ?thesis
      by (simp add: split_beta keeps_types_def)
  qed
qed

lemma typed_offset:
  assumes "typed T g s"
  shows "keeps_types T g s (add_offset w g offset res s)"
  using typed_address [OF assms, of "gi_add res (g_number (unat offset mod 2 ^ w))"] assms
  by (simp add: add_offset_def split_beta keeps_types_def)

lemma gep_lowering_types:
  assumes "gep_ok g" "lower_pointer_arithmetic w g = Ret (p, s)"
  shows "typed T (gep_self g) s \<and>
    lw_extends (snd (canonicalize w (gep_indices g) \<lparr>lw_insts = [], lw_deps = []\<rparr>)) s"
proof -
  let ?g = "gep_self g" and ?s0 = "\<lparr>lw_insts = [], lw_deps = []\<rparr>"
  obtain ys s1 where ys: "canonicalize w (gep_indices g) ?s0 = (ys, s1)" by fastforce
  have "typed T ?g ?s0" by (simp add: typed_def types_after_def)
  with typed_canonicalize [of T ?g ?s0 "gep_indices g" w] assms(1) ys
  have s1: "typed T ?g s1" "plain s1 ys" by (simp_all add: gep_ok_def)
  let ?x = "gi_ptrtoint (gep_base g)"
  let ?b = "fst (emit_inst ?x s1)" and ?s2 = "depend (g_value ?g) (fst (emit_inst ?x s1)) (snd (emit_inst ?x s1))"
  have s2: "typed T ?g ?s2" "lw_extends s1 ?s2"
    using typed_address [OF s1(1), of ?x] by (simp_all add: keeps_types_def)
  let ?p = "lower_indices w ?g ys ?b ?s2"
  have s3: "typed T ?g (snd ?p)" "lw_extends ?s2 (snd ?p)"
    using typed_indices [OF s2(1) plain_list_extends [OF s2(2) s1(2)], of w ?b] by (simp_all add: keeps_types_def)
  let ?q = "add_offset w ?g (accumulate_byte_offset ys) (fst ?p) (snd ?p)"
  have s4: "typed T ?g (snd ?q)" "lw_extends (snd ?p) (snd ?q)"
    using typed_offset [OF s3(1)] by (simp_all add: keeps_types_def)
  let ?r = "emit_inst (gi_inttoptr (fst ?q)) (snd ?q)"
  let ?s5 = "depend (g_value ?g) (fst ?r) (snd ?r)"
  have s5: "typed T ?g ?s5" "lw_extends (snd ?q) ?s5"
    using typed_address [OF s4(1), of "gi_inttoptr (fst ?q)"] by (simp_all add: keeps_types_def)
  have "lw_extends s1 ?s5"
    by (rule lw_extends_trans [OF lw_extends_trans [OF lw_extends_trans [OF s2(2) s3(2)] s4(2)] s5(2)])
  with assms(2) ys s5(1) show ?thesis
    by (auto simp: lower_pointer_arithmetic_def lower_to_arithmetic_def split_beta split: if_splits)
qed

lemma canonicalize_keeps: "x \<in> set (lw_insts s) \<Longrightarrow> x \<in> set (lw_insts (snd (canonicalize w xs s)))"
proof (induction xs arbitrary: s)
  case (Cons i xs)
  have "x \<in> set (lw_insts (snd (emit_inst y s)))" for y
    using Cons.prems by (simp add: emit_inst_def)
  with Cons show ?case by (cases i) (simp_all add: split_beta)
qed simp

lemma cast_made:
  "sequential v n bytes \<in> set xs \<Longrightarrow> n \<noteq> w \<Longrightarrow> gi_cast v n \<in> set (lw_insts (snd (canonicalize w xs s)))"
proof (induction xs arbitrary: s)
  case (Cons i xs)
  show ?case
  proof (cases "i = sequential v n bytes")
    case True
    have "gi_cast v n \<in> set (lw_insts (snd (emit_inst (gi_cast v n) s)))" by (simp add: emit_inst_def)
    from canonicalize_keeps [OF this, of w xs] True Cons.prems(2) show ?thesis by (simp add: split_beta)
  next
    case False
    with Cons show ?thesis by (cases i) (auto simp: split_beta)
  qed
qed simp

text \<open>An element of a member of a row of a table.\<close>

definition row_gep :: gep where
  "row_gep = \<lparr>gep_self = 9, gep_base = g_value 1, gep_base_constant = False,
     gep_indices = [sequential (g_value 2) 32 24, member 1 8, sequential (g_value 3) 64 4, sequential (g_number 0) 64 4]\<rparr>"

lemma row_gep_ok: "gep_ok row_gep"
  by (simp add: gep_ok_def row_gep_def known_def known_index_def)

section \<open>Properties\<close>

text \<open>
  C17: Lowering a getelementptr to integer arithmetic keeps the address: at every width of
  pointers up to 64 bits, the casts, shifts, products and sums that are made compute the base plus
  the signed indices times their element sizes plus the offsets of the selected members, wrapping
  around; when the base is a constant there is no instruction to cast to and the compiler fails.
\<close>

theorem gep_lowering_exact:
  assumes "gep_ok g" "LENGTH('w::len) \<le> 64"
  shows "if gep_base_constant g then lower_gep LENGTH('w) T g = Fault ''cast''
    else (\<exists>p xs U. lower_gep LENGTH('w) T g = Ret (p, xs, U) \<and>
      (\<forall>env. gval_word env (run_insts env xs) p = (gep_address env g :: 'w word)))"
proof (cases "gep_base_constant g")
  case True
  then show ?thesis
    by (simp add: lower_gep_def lower_pointer_arithmetic_def lower_to_arithmetic_def split_beta)
next
  case False
  note lowered = gep_lowering_value [OF assms(1) False assms(2)]
  obtain p s where ps: "lower_pointer_arithmetic LENGTH('w) g = Ret (p, s)"
    using lowered [of "\<lambda>_. 0"] by blast
  have "gval_word env (run_insts env (lw_insts s)) p = (gep_address env g :: 'w word)" for env
    using lowered [of env] ps by simp
  with False ps show ?thesis by (simp add: lower_gep_def)
qed

theorem gep_lowering_exact_witness:
  "\<exists>p xs U. lower_gep 64 (\<lambda>_. None) row_gep = Ret (p, xs, U) \<and>
    (\<forall>env. gval_word env (run_insts env xs) p = (gep_address env row_gep :: 64 word))"
  using gep_lowering_exact [OF row_gep_ok, where 'w = 64] by (simp add: row_gep_def)

text \<open>
  C37: Which of the new instructions are known to be abstract: the arithmetic on the address has
  the type of the getelementptr and the scaling of an index that of the index; but the cast that
  widens an index to the width of a pointer has none, whatever the type of the index, and its
  scaling has none either, so an abstract index of fewer bits takes no abstraction into the
  address.
\<close>

theorem gep_index_abstraction_lost:
  assumes "gep_ok g" "lower_gep w T g = Ret (p, xs, U)"
  shows "(\<forall>i. U i = (if i < length xs then inst_type T (gep_self g) (xs ! i) else None)) \<and>
    (\<forall>v n bytes. sequential v n bytes \<in> set (gep_indices g) \<and> n \<noteq> w \<longrightarrow>
      (\<exists>i < length xs. xs ! i = gi_cast v n \<and> U i = None \<and>
        (\<forall>j k. j < length xs \<and> xs ! j \<in> {gi_shl (g_inst i) k, gi_mul (g_inst i) k} \<longrightarrow> U j = None)))"
proof -
  obtain s where s: "lower_pointer_arithmetic w g = Ret (p, s)" "xs = lw_insts s" "U = types_after T s"
    using assms(2) by (auto simp: lower_gep_def omap_eq_Ret types_after_def)
  have U: "U i = (if i < length xs then inst_type T (gep_self g) (xs ! i) else None)" for i
    using gep_lowering_types [OF assms(1) s(1), of T] s(2,3) by (simp add: typed_def)
  have "gi_cast v n \<in> set xs" if "sequential v n bytes \<in> set (gep_indices g)" "n \<noteq> w" for v n bytes
    using gep_lowering_types [OF assms(1) s(1)] cast_made [OF that] s(2)
    by (fastforce simp: lw_extends_def)
  then have "\<exists>i < length xs. xs ! i = gi_cast v n"
    if "sequential v n bytes \<in> set (gep_indices g)" "n \<noteq> w" for v n bytes
    using that by (metis in_set_conv_nth)
  with U show ?thesis by (fastforce simp: scaled_type_def)
qed

theorem gep_index_abstraction_lost_witness:
  "\<exists>p xs U. lower_gep 64 (\<lambda>v. Some [layer_of_bools False True]) row_gep = Ret (p, xs, U) \<and>
    xs ! 0 = gi_cast (g_value 2) 32 \<and> U 0 = None \<and> U 4 = Some [layer_of_bools False True]"
proof -
  have "\<exists>p xs U. lower_gep 64 (\<lambda>v. Some [layer_of_bools False True]) row_gep = Ret (p, xs, U) \<and> length xs = 8 \<and>
      xs ! 0 = gi_cast (g_value 2) 32 \<and> xs ! 4 = gi_shl (g_value 3) 2"
    by (simp add: lower_gep_def lower_pointer_arithmetic_def lower_to_arithmetic_def row_gep_def emit_inst_def depend_def
        scale_index_def power_log_def create_shl_def create_mul_def add_offset_def Let_def upt_rec)
  then obtain p xs U where run: "lower_gep 64 (\<lambda>v. Some [layer_of_bools False True]) row_gep = Ret (p, xs, U)"
      "length xs = 8" "xs ! 0 = gi_cast (g_value 2) 32" "xs ! 4 = gi_shl (g_value 3) 2" by blast
  with gep_index_abstraction_lost [OF row_gep_ok run(1)] show ?thesis
    by (auto simp: scaled_type_def)
qed

end
