(* ===== verification/Roots.thy ===== *)
theory Roots
  imports Dataflow "HOL-Library.Multiset"
begin

text \<open>
  Where the analysis starts, \<open>lartcc/include/cc/roots.hpp\<close>: functions with an annotation generate
  abstract values, and the calls that use such a function, directly or through casts, are the
  roots. The search is a queue over the users of values.
\<close>

section \<open>The search\<close>

record annotations =
  an_functions :: "nat list"
  an_scalar :: "nat \<Rightarrow> bool"
  an_pointer :: "nat \<Rightarrow> bool"

type_synonym roots_map = "nat \<Rightarrow> abstract_kind option"

definition get_abstract_kind :: "annotations \<Rightarrow> nat \<Rightarrow> abstract_kind option" where
  "get_abstract_kind A fn =
    (if an_scalar A fn then Some kind_scalar else if an_pointer A fn then Some kind_pointer else None)"

definition generators :: "annotations \<Rightarrow> (nat \<times> abstract_kind) list" where
  "generators A =
    concat (map (\<lambda>fn. case get_abstract_kind A fn of Some k \<Rightarrow> [(fn, k)] | None \<Rightarrow> []) (an_functions A))"

text \<open>A use is a user with the position of the operand; a user that uses a value twice comes twice.\<close>

definition transitive_users :: "ir \<Rightarrow> nat \<Rightarrow> nat list" where
  "transitive_users m v = map fst (ir_uses m v)"

definition root_step :: "ir \<Rightarrow> abstract_kind \<Rightarrow> nat \<Rightarrow> nat list \<Rightarrow> roots_map \<Rightarrow> nat list \<times> roots_map" where
  "root_step m k v rest R =
    (case ir_class m v of
       v_cast \<Rightarrow> (rest @ transitive_users m v, R)
     | v_cexpr \<Rightarrow> (rest @ transitive_users m v, R)
     | v_call \<Rightarrow> (rest, R(v \<mapsto> k))
     | v_intrinsic \<Rightarrow> (rest, R(v \<mapsto> k))
     | v_invoke \<Rightarrow> (rest, R(v \<mapsto> k))
     | _ \<Rightarrow> (rest, R))"

partial_function (option) root_loop ::
  "ir \<Rightarrow> abstract_kind \<Rightarrow> nat list \<Rightarrow> roots_map \<Rightarrow> roots_map option" where
  "root_loop m k work R =
    (case work of [] \<Rightarrow> Some R
     | v # rest \<Rightarrow> (case root_step m k v rest R of (work', R') \<Rightarrow> root_loop m k work' R'))"

fun gather_from :: "ir \<Rightarrow> (nat \<times> abstract_kind) list \<Rightarrow> roots_map \<Rightarrow> roots_map option" where
  "gather_from m [] R = Some R"
| "gather_from m ((g, k) # gs) R =
    (case root_loop m k (transitive_users m g) R of None \<Rightarrow> None | Some R' \<Rightarrow> gather_from m gs R')"

definition gather_roots :: "ir \<Rightarrow> annotations \<Rightarrow> roots_map option" where
  "gather_roots m A = gather_from m (generators A) (\<lambda>_. None)"

text \<open>
  The whole analysis of a module. The map of the roots is ordered by the addresses of the calls,
  an argument here.
\<close>

definition listed :: "nat list \<Rightarrow> roots_map \<Rightarrow> (nat \<times> abstract_kind) list" where
  "listed addresses R = concat (map (\<lambda>v. case R v of Some k \<Rightarrow> [(v, k)] | None \<Rightarrow> []) addresses)"

definition run_on :: "ir \<Rightarrow> annotations \<Rightarrow> nat list \<Rightarrow> type_map outcome option" where
  "run_on m A addresses =
    (case gather_roots m A of None \<Rightarrow> None | Some R \<Rightarrow> run_from m (listed addresses R))"

section \<open>What it finds\<close>

definition passes_on :: "ir \<Rightarrow> nat \<Rightarrow> bool" where
  "passes_on m v \<longleftrightarrow> ir_class m v \<in> {v_cast, v_cexpr}"

definition is_root :: "ir \<Rightarrow> nat \<Rightarrow> bool" where
  "is_root m v \<longleftrightarrow> ir_class m v \<in> {v_call, v_intrinsic, v_invoke}"

text \<open>The specification: the calls that use a value, directly or through casts of it.\<close>

inductive uses_value :: "ir \<Rightarrow> nat \<Rightarrow> nat \<Rightarrow> bool" for m where
  uses_here: "u \<in> set (transitive_users m v) \<Longrightarrow> is_root m u \<Longrightarrow> uses_value m v u"
| uses_through: "w \<in> set (transitive_users m v) \<Longrightarrow> passes_on m w \<Longrightarrow> uses_value m w u \<Longrightarrow> uses_value m v u"

inductive_simps uses_value_iff: "uses_value m v u"

definition found_from :: "ir \<Rightarrow> nat \<Rightarrow> nat \<Rightarrow> bool" where
  "found_from m w u \<longleftrightarrow> (is_root m w \<and> u = w) \<or> (passes_on m w \<and> uses_value m w u)"

lemma uses_value_found: "uses_value m v u = (\<exists>w \<in> set (transitive_users m v). found_from m w u)"
  by (subst uses_value_iff) (auto simp: found_from_def)

text \<open>Casts form no cycle, as definitions come before their uses.\<close>

definition casts_ordered :: "ir \<Rightarrow> (nat \<Rightarrow> nat) \<Rightarrow> bool" where
  "casts_ordered m rank \<longleftrightarrow> (\<forall>v. passes_on m v \<longrightarrow> (\<forall>u \<in> set (transitive_users m v). rank u < rank v))"

lemma root_step_cases:
  obtains "passes_on m v" "\<not> is_root m v" "root_step m k v rest R = (rest @ transitive_users m v, R)"
  | "is_root m v" "\<not> passes_on m v" "root_step m k v rest R = (rest, R(v \<mapsto> k))"
  | "\<not> is_root m v" "\<not> passes_on m v" "root_step m k v rest R = (rest, R)"
  by (cases "ir_class m v") (auto simp: root_step_def passes_on_def is_root_def)

definition root_measure :: "(nat \<Rightarrow> nat) \<Rightarrow> nat list \<Rightarrow> nat multiset" where
  "root_measure rank work = image_mset rank (mset work)"

lemma root_step_smaller:
  assumes "casts_ordered m rank" "root_step m k v rest R = (work', R')"
  shows "(root_measure rank work', root_measure rank (v # rest)) \<in> mult less_than"
proof -
  obtain us where us: "work' = rest @ us" "\<And>u. u \<in> set us \<Longrightarrow> rank u < rank v"
  proof (rule root_step_cases [of m v k rest R])
    assume "passes_on m v" "root_step m k v rest R = (rest @ transitive_users m v, R)"
    with assms that [of "transitive_users m v"] show ?thesis by (simp add: casts_ordered_def)
  qed (use assms(2) that [of "[]"] in simp_all)
  have "(image_mset rank (mset rest) + image_mset rank (mset us), image_mset rank (mset rest) + {#rank v#}) \<in> mult less_than"
    by (rule one_step_implies_mult) (use us(2) in auto)
  then show ?thesis by (simp add: root_measure_def us(1))
qed

lemma root_loop_finds:
  assumes "casts_ordered m rank"
  shows "\<exists>R'. root_loop m k work R = Some R' \<and>
    (\<forall>u. R' u = (if \<exists>w \<in> set work. found_from m w u then Some k else R u))"
proof (induction "root_measure rank work" arbitrary: work R rule: wf_induct_rule [OF wf_mult [OF wf_less_than]])
  case 1
  show ?case
  proof (cases work)
    case Nil
    then show ?thesis by (subst root_loop.simps) simp
  next
    case (Cons v rest)
    obtain work' R1 where step: "root_step m k v rest R = (work', R1)" by fastforce
    from 1 [OF root_step_smaller [OF assms step, folded Cons], of R1]
    obtain R' where R': "root_loop m k work' R1 = Some R'"
        "\<And>u. R' u = (if \<exists>w \<in> set work'. found_from m w u then Some k else R1 u)" by blast
    have "R' u = (if \<exists>w \<in> set work. found_from m w u then Some k else R u)" for u
    proof (rule root_step_cases [of m v k rest R])
      assume c: "passes_on m v" "\<not> is_root m v" "root_step m k v rest R = (rest @ transitive_users m v, R)"
      then have "found_from m v u = (\<exists>w \<in> set (transitive_users m v). found_from m w u)"
        by (simp add: found_from_def [of m v] uses_value_found)
      with c step Cons show ?thesis by (auto simp: R'(2))
    next
      assume c: "is_root m v" "\<not> passes_on m v" "root_step m k v rest R = (rest, R(v \<mapsto> k))"
      then have "found_from m v u = (u = v)" by (auto simp: found_from_def)
      with c step Cons show ?thesis by (auto simp: R'(2))
    next
      assume c: "\<not> is_root m v" "\<not> passes_on m v" "root_step m k v rest R = (rest, R)"
      then have "\<not> found_from m v u" by (simp add: found_from_def)
      with c step Cons show ?thesis by (auto simp: R'(2))
    qed
    with R'(1) step Cons show ?thesis by (subst root_loop.simps) simp
  qed
qed

text \<open>The kind of a root is that of the last generator it uses.\<close>

fun last_kind :: "(nat \<Rightarrow> bool) \<Rightarrow> (nat \<times> abstract_kind) list \<Rightarrow> abstract_kind option \<Rightarrow> abstract_kind option" where
  "last_kind used [] k = k"
| "last_kind used ((g, kind) # gs) k = last_kind used gs (if used g then Some kind else k)"

lemma gather_from_finds:
  assumes "casts_ordered m rank"
  shows "\<exists>R'. gather_from m gs R = Some R' \<and> (\<forall>u. R' u = last_kind (\<lambda>g. uses_value m g u) gs (R u))"
proof (induction gs arbitrary: R)
  case Nil
  then show ?case by simp
next
  case (Cons x gs)
  obtain g k where x: "x = (g, k)" by (cases x)
  obtain R1 where R1: "root_loop m k (transitive_users m g) R = Some R1"
      "\<And>u. R1 u = (if uses_value m g u then Some k else R u)"
    using root_loop_finds [OF assms, of k "transitive_users m g" R] unfolding uses_value_found by blast
  obtain R' where "gather_from m gs R1 = Some R'"
      "\<And>u. R' u = last_kind (\<lambda>g. uses_value m g u) gs (R1 u)"
    using Cons.IH [of R1] by blast
  with R1 x show ?case by simp
qed

lemma last_kind_None: "last_kind used gs k = None \<longleftrightarrow> k = None \<and> (\<forall>(g, kind) \<in> set gs. \<not> used g)"
  by (induction used gs k rule: last_kind.induct) auto

lemma uses_value_root: "uses_value m v u \<Longrightarrow> is_root m u"
  by (induction rule: uses_value.induct)

lemma gather_from_roots:
  assumes "casts_ordered m rank"
  shows "\<exists>R. gather_roots m A = Some R \<and>
    (\<forall>u. R u = last_kind (\<lambda>g. uses_value m g u) (generators A) None)"
  using gather_from_finds [OF assms, of "generators A" "\<lambda>_. None"] by (simp add: gather_roots_def)

lemma set_generators:
  "(g, k) \<in> set (generators A) \<longleftrightarrow> g \<in> set (an_functions A) \<and> get_abstract_kind A g = Some k"
  by (auto simp: generators_def split: option.splits)

lemma last_kind_generators:
  "last_kind used (generators A) None \<noteq> None \<longleftrightarrow>
    (\<exists>g \<in> set (an_functions A). get_abstract_kind A g \<noteq> None \<and> used g)"
proof
  assume "last_kind used (generators A) None \<noteq> None"
  then obtain g k where "(g, k) \<in> set (generators A)" "used g" by (auto simp: last_kind_None)
  then show "\<exists>g \<in> set (an_functions A). get_abstract_kind A g \<noteq> None \<and> used g" by (auto simp: set_generators)
next
  assume "\<exists>g \<in> set (an_functions A). get_abstract_kind A g \<noteq> None \<and> used g"
  then obtain g k where "(g, k) \<in> set (generators A)" "used g" by (auto simp: set_generators)
  then show "last_kind used (generators A) None \<noteq> None" by (auto simp: last_kind_None)
qed

lemma listed_roots: "fst ` set (listed addresses R) = {v \<in> set addresses. R v \<noteq> None}"
proof (induction addresses)
  case (Cons v vs)
  then show ?case by (cases "R v") (auto simp: listed_def)
qed (simp add: listed_def)

text \<open>A module whose annotated function is called directly and through a cast.\<close>

definition cast_module :: ir where
  "cast_module = loop_module\<lparr>ir_class := \<lambda>v. if v = 5 then v_function else if v = 6 then v_cast else if v \<in> {0, 7} then v_call else v_binop,
     ir_uses := \<lambda>v. if v = 5 then [(0, 1), (6, 0)] else if v = 6 then [(7, 0)] else if v = 0 then [(1, 0)] else []\<rparr>"

definition cast_annotations :: annotations where
  "cast_annotations = \<lparr>an_functions = [4, 5], an_scalar = (\<lambda>fn. fn = 5), an_pointer = (\<lambda>_. False)\<rparr>"

lemma cast_module_ordered: "casts_ordered cast_module (\<lambda>v. if v = 6 then 1 else 0)"
  by (simp add: casts_ordered_def cast_module_def passes_on_def transitive_users_def)

section \<open>Properties\<close>

text \<open>
  C14: The analysis of a whole module ends: the search for roots does, as casts form no cycle, and
  the worklist does, because each processed edge shortens it or makes the type of a value less
  definite; so from the annotated functions of the module the compiler gets types, or the failure
  of an unsupported instruction.
\<close>

theorem module_analysis_ends:
  assumes "casts_ordered m rank" "llvm_rules m" "closed_values m V" "\<forall>v. is_root m v \<longrightarrow> v \<in> V"
  shows "\<exists>r. run_on m A addresses = Some r"
proof -
  obtain R where R: "gather_roots m A = Some R"
      "\<And>u. R u = last_kind (\<lambda>g. uses_value m g u) (generators A) None"
    using gather_from_roots [OF assms(1)] by blast
  have "is_root m v" if "R v \<noteq> None" for v
    using that uses_value_root [of m _ v] by (auto simp: R(2) last_kind_None)
  then have "fst ` set (listed addresses R) \<subseteq> V"
    using assms(4) by (auto simp: listed_roots)
  with dataflow_terminates [OF assms(2,3)] R(1) show ?thesis by (simp add: run_on_def)
qed

theorem module_analysis_ends_witness: "\<exists>r. run_on cast_module cast_annotations [7, 0] = Some r"
  by (rule module_analysis_ends [OF cast_module_ordered, where V = "{0, 1, 7}"])
    (auto simp: llvm_rules_def closed_values_def edges_of_def own_stores_def out_edges_def loop_module_def cast_module_def
      forward_def calluse_def induced_edges_def is_root_def)

text \<open>
  C23: The search for roots finds them all and no others: when casts form no cycle it ends, a
  value is a root exactly when it is a call that uses an annotated function, directly or through
  casts and constant expressions of it, and its kind is that of the last such function of the
  module.
\<close>

theorem roots_exact:
  assumes "casts_ordered m rank"
  shows "\<exists>R. gather_roots m A = Some R \<and>
    (\<forall>u. R u \<noteq> None \<longleftrightarrow> is_root m u \<and>
      (\<exists>g \<in> set (an_functions A). get_abstract_kind A g \<noteq> None \<and> uses_value m g u)) \<and>
    (\<forall>u. R u = last_kind (\<lambda>g. uses_value m g u) (generators A) None)"
proof -
  obtain R where R: "gather_roots m A = Some R"
      "\<And>u. R u = last_kind (\<lambda>g. uses_value m g u) (generators A) None"
    using gather_from_roots [OF assms] by blast
  have "R u \<noteq> None \<longleftrightarrow> is_root m u \<and>
      (\<exists>g \<in> set (an_functions A). get_abstract_kind A g \<noteq> None \<and> uses_value m g u)" for u
    using uses_value_root [of m _ u] unfolding R(2) last_kind_generators by blast
  with R show ?thesis by blast
qed

theorem roots_exact_witness:
  "\<exists>R. gather_roots cast_module cast_annotations = Some R \<and> R 7 = Some kind_scalar \<and> R 1 = None"
proof -
  have "uses_value cast_module 6 7"
    by (rule uses_here) (simp_all add: transitive_users_def cast_module_def is_root_def)
  then have "uses_value cast_module 5 7"
    by (rule uses_through [of 6, rotated 2]) (simp_all add: transitive_users_def cast_module_def passes_on_def)
  moreover have "generators cast_annotations = [(5, kind_scalar)]"
    by (simp add: generators_def cast_annotations_def get_abstract_kind_def)
  moreover have "\<not> is_root cast_module 1" by (simp add: is_root_def cast_module_def)
  ultimately show ?thesis
    using roots_exact [OF cast_module_ordered, of cast_annotations] by force
qed

end
