(* ===== verification/Driver.thy ===== *)
theory Driver
  imports Shadow_Pass Gep_Lowering Roots
begin

text \<open>
  The passes of the compiler after one another, \<open>lartcc/driver.cpp\<close>, and the loop of
  \<open>lartcc/syntactic.cpp\<close> that puts a call in the place of the instruction it replaces. The driver
  processes the operations that unstash, then those made from the types, with one table of
  abstractions; at the end it erases the divisions that were replaced.
\<close>

section \<open>The operations of a module\<close>

definition run_syntactic :: "ir \<Rightarrow> code \<Rightarrow> md \<Rightarrow> type_map \<Rightarrow> syn outcome" where
  "run_syntactic m c M T =
    obind (unstash_toprocess m c M T) (\<lambda>us.
    obind (process_all c us syn_init) (\<lambda>s.
    obind (toprocess m c M T) (\<lambda>ops. process_all c ops s)))"

lemma process_all_append: "process_all c (xs @ ys) s = obind (process_all c xs s) (process_all c ys)"
proof (induction xs arbitrary: s)
  case (Cons x xs)
  then show ?case by (cases "process_operation c x s") simp_all
qed simp

lemma run_syntactic_all:
  assumes "unstash_toprocess m c M T = Ret us" "toprocess m c M T = Ret ops"
  shows "run_syntactic m c M T = process_all c (us @ ops) syn_init"
  using assms by (simp add: run_syntactic_def process_all_append)

text \<open>The values that have a type.\<close>

definition typed_values :: "md \<Rightarrow> type_map \<Rightarrow> nat list" where
  "typed_values M T = filter (\<lambda>v. T v \<noteq> None) (md_values M)"

text \<open>
  A module as LLVM keeps it: its lists name each part once, and a part is of one class.
\<close>

definition module_listed :: "ir \<Rightarrow> md \<Rightarrow> bool" where
  "module_listed m M \<longleftrightarrow>
    distinct (concat (map (ir_args m) (md_functions M))) \<and> distinct (md_calls M) \<and> distinct (md_values M) \<and>
    distinct (md_branches M) \<and>
    (\<forall>fn \<in> set (md_functions M). \<forall>a \<in> set (ir_args m fn). ir_class m a = v_argument) \<and>
    (\<forall>v \<in> set (md_calls M). ir_class m v \<in> {v_call, v_intrinsic}) \<and>
    (\<forall>v \<in> set (md_branches M). ir_class m v = v_branch) \<and>
    (\<forall>v \<in> set (md_stores M). \<exists>val ptr. ir_class m v = v_store val ptr)"

text \<open>
  What the pass asks for beside that: pointers that are stored to have types that can be peeled,
  dumps have an argument, no division is abstract, no value has two abstract identity casts.
\<close>

definition pass_ready :: "ir \<Rightarrow> code \<Rightarrow> md \<Rightarrow> type_map \<Rightarrow> bool" where
  "pass_ready m c M T \<longleftrightarrow>
    (\<forall>v val ptr. ir_class m v = v_store val ptr \<longrightarrow> (\<exists>b. abstract_content T ptr = Ret b)) \<and>
    (\<forall>v \<in> set (md_calls M). is_dump_call m v \<longrightarrow> md_call_arguments M v \<noteq> []) \<and>
    (\<forall>v \<in> set (typed_values M T). ir_class m v = v_binop \<longrightarrow> \<not> cd_int_div_rem c v) \<and>
    distinct (map (\<lambda>v. cd_operand c v 0)
      (filter (\<lambda>v. ir_class m v = v_cast \<and> is_identity_cast c v) (typed_values M T)))"

lemma ocollect_total: "(\<And>x. x \<in> set xs \<Longrightarrow> f x = Ret (g x)) \<Longrightarrow> ocollect f xs = Ret (concat (map g xs))"
  by (induction xs) simp_all

lemma make_operation_total:
  assumes "pass_ready m c M T" "T v \<noteq> None \<or> (\<exists>val ptr. ir_class m v = v_store val ptr)"
  shows "\<exists>x. make_operation m c T v = Ret x"
proof (cases "\<exists>val ptr. ir_class m v = v_store val ptr")
  case True
  with assms(1) show ?thesis by (fastforce simp: make_operation_def pass_ready_def)
next
  case False
  with assms(2) obtain t where "T v = Some t" by auto
  with False show ?thesis by (cases "ir_class m v") (auto simp: make_operation_def type_at_def)
qed

definition made_from :: "ir \<Rightarrow> code \<Rightarrow> type_map \<Rightarrow> nat \<Rightarrow> operation list" where
  "made_from m c T v = (case make_operation m c T v of Ret (Some x) \<Rightarrow> [x] | _ \<Rightarrow> [])"

lemma made_operations_list:
  assumes "\<And>v. v \<in> set vs \<Longrightarrow> \<exists>x. make_operation m c T v = Ret x"
  shows "made_operations m c T vs = Ret (concat (map (made_from m c T) vs))"
  using assms
proof (induction vs)
  case (Cons v vs)
  obtain x where "make_operation m c T v = Ret x" using Cons.prems [of v] by auto
  with Cons show ?case by (cases x) (auto simp: made_operations_def made_from_def)
qed (simp add: made_operations_def)

text \<open>What the operations of a part of the module give, and what casts they hold.\<close>

definition gives :: "code \<Rightarrow> operation list \<Rightarrow> nat list" where
  "gives c xs = concat (map (given c) xs)"

definition casts_of :: "code \<Rightarrow> operation list \<Rightarrow> nat list" where
  "casts_of c xs = concat (map (identity_sources c) xs)"

lemma gives_simps [simp]:
  "gives c [] = []" "gives c (x # xs) = given c x @ gives c xs" "gives c (xs @ ys) = gives c xs @ gives c ys"
  by (simp_all add: gives_def)

lemma casts_of_simps [simp]:
  "casts_of c [] = []" "casts_of c (x # xs) = identity_sources c x @ casts_of c xs"
  "casts_of c (xs @ ys) = casts_of c xs @ casts_of c ys"
  by (simp_all add: casts_of_def)

lemma gives_concat: "gives c (concat xss) = concat (map (gives c) xss)"
  by (induction xss) simp_all

lemma casts_of_concat: "casts_of c (concat xss) = concat (map (casts_of c) xss)"
  by (induction xss) simp_all

lemma given_simps [simp]:
  "given c (o_stash v) = []" "given c (o_unstash v) = [v]" "given c (o_unstash_taint v) = []"
  "given c (o_dump v) = []" "given c (o_tobool v) = [v]" "given c (o_assume v e) = []"
  by (simp_all add: given_def o_returns_value_def o_default_value_def o_faultable_def)

lemma identity_sources_simps [simp]:
  "identity_sources c (o_stash v) = []" "identity_sources c (o_unstash v) = []"
  "identity_sources c (o_unstash_taint v) = []" "identity_sources c (o_dump v) = []"
  "identity_sources c (o_tobool v) = []" "identity_sources c (o_assume v e) = []"
  by (simp_all add: identity_sources_def)

text \<open>An operation made from a value gives that value or nothing, and only values of some classes.\<close>

definition made_class :: "ir \<Rightarrow> nat \<Rightarrow> bool" where
  "made_class m v \<longleftrightarrow> ir_class m v \<in> {v_alloca, v_load, v_binop, v_cmp, v_cast}"

lemma gives_made_from: "gives c (made_from m c T v) = [] \<or> gives c (made_from m c T v) = [v] \<and> made_class m v"
proof (cases "made_from m c T v")
  case (Cons x xs)
  then have x: "make_operation m c T v = Ret (Some x)" "xs = []"
    by (auto simp: made_from_def split: outcome.splits option.splits)
  have "given c x = [] \<or> given c x = [v] \<and> made_class m v"
    using x(1)
    by (cases "ir_class m v")
      (auto simp: make_operation_def made_class_def given_def o_returns_value_def o_default_value_def o_faultable_def
        omap_eq_Ret split: if_splits)
  with x(2) Cons show ?thesis by simp
qed simp

lemma casts_made_from:
  "casts_of c (made_from m c T v) =
    (if ir_class m v = v_cast \<and> is_identity_cast c v then [cd_operand c v 0] else [])"
proof (cases "\<exists>val ptr. ir_class m v = v_store val ptr")
  case True
  then obtain val ptr where "ir_class m v = v_store val ptr" by blast
  then show ?thesis
    by (cases "abstract_content T ptr") (auto simp: made_from_def make_operation_def identity_sources_def)
next
  case False
  then show ?thesis
    by (cases "ir_class m v")
      (auto simp: made_from_def make_operation_def identity_sources_def type_at_def split: option.splits)
qed

lemma faultable_made_from:
  "x \<in> set (made_from m c T v) \<Longrightarrow> o_faultable c x \<Longrightarrow> ir_class m v = v_binop \<and> cd_int_div_rem c v"
proof -
  assume "x \<in> set (made_from m c T v)" "o_faultable c x"
  then have x: "make_operation m c T v = Ret (Some x)" "\<exists>w. x = o_binary w \<and> cd_int_div_rem c w"
    by (auto simp: made_from_def o_faultable_def split: outcome.splits option.splits operation.splits)
  then show ?thesis
    by (cases "ir_class m v") (auto simp: make_operation_def omap_eq_Ret split: if_splits)
qed

text \<open>Lists of parts that give at most themselves.\<close>

lemma distinct_parts:
  assumes "distinct xs" "\<And>x. x \<in> set xs \<Longrightarrow> f x = [] \<or> f x = [x] \<and> P x"
  shows "distinct (concat (map f xs)) \<and> set (concat (map f xs)) \<subseteq> {x \<in> set xs. P x}"
  using assms
proof (induction xs)
  case (Cons x xs)
  have "distinct (concat (map f xs)) \<and> set (concat (map f xs)) \<subseteq> {x \<in> set xs. P x}"
    using Cons.prems by (intro Cons.IH) auto
  moreover have "f x = [] \<or> f x = [x] \<and> P x" by (rule Cons.prems(2)) simp
  ultimately show ?case using Cons.prems(1) by auto
qed simp

lemma distinct_selected:
  "distinct (concat (map f xs)) \<Longrightarrow> distinct (concat (map (\<lambda>x. if P x then f x else []) xs)) \<and>
    set (concat (map (\<lambda>x. if P x then f x else []) xs)) \<subseteq> set (concat (map f xs))"
  by (induction xs) auto

section \<open>The operations are ready for the pass\<close>

definition abstract_stores :: "code \<Rightarrow> md \<Rightarrow> type_map \<Rightarrow> nat list" where
  "abstract_stores c M T = filter (\<lambda>st. value_maybe_abstract T (cd_pointer_operand c st)) (md_stores M)"

definition called_operations :: "ir \<Rightarrow> md \<Rightarrow> type_map \<Rightarrow> nat \<Rightarrow> operation list" where
  "called_operations m M T v = (case call_operations m M T v of Ret xs \<Rightarrow> xs | _ \<Rightarrow> [])"

definition listed_operations :: "ir \<Rightarrow> code \<Rightarrow> md \<Rightarrow> type_map \<Rightarrow> operation list" where
  "listed_operations m c M T =
    concat (map (made_from m c T) (typed_values M T)) @ concat (map (made_from m c T) (abstract_stores c M T)) @
    concat (map (branch_operations c M T) (md_branches M)) @ concat (map (called_operations m M T) (md_calls M)) @
    concat (map (return_operations M T) (md_returns M))"

lemma call_operations_total:
  assumes "is_dump_call m v \<longrightarrow> md_call_arguments M v \<noteq> []"
  shows "\<exists>xs. call_operations m M T v = Ret xs"
  using assms by (cases "md_call_arguments M v") (auto simp: call_operations_def)

lemma call_operations_give:
  assumes "call_operations m M T v = Ret xs"
  shows "gives c xs = []" "casts_of c xs = []" "list_all (\<lambda>x. \<not> o_faultable c x) xs"
proof -
  have stashes: "gives c (map o_stash vs) = []" "casts_of c (map o_stash vs) = []"
    "list_all (\<lambda>x. \<not> o_faultable c x) (map o_stash vs)" for vs
    by (induction vs) (simp_all add: o_faultable_def)
  show "gives c xs = []" "casts_of c xs = []" "list_all (\<lambda>x. \<not> o_faultable c x) xs"
    using assms stashes [of "md_call_arguments M v"]
    by (auto simp: call_operations_def o_faultable_def split: list.splits if_splits)
qed

lemma toprocess_operations:
  assumes "module_listed m M" "pass_ready m c M T"
  shows "toprocess m c M T = Ret (listed_operations m c M T)"
proof -
  have made: "made_operations m c T (typed_values M T) = Ret (concat (map (made_from m c T) (typed_values M T)))"
    by (rule made_operations_list) (rule make_operation_total [OF assms(2)], simp add: typed_values_def)
  have stores: "made_operations m c T (abstract_stores c M T) = Ret (concat (map (made_from m c T) (abstract_stores c M T)))"
    by (rule made_operations_list, rule make_operation_total [OF assms(2)])
      (use assms(1) in \<open>auto simp: abstract_stores_def module_listed_def\<close>)
  have "call_operations m M T v = Ret (called_operations m M T v)" if "v \<in> set (md_calls M)" for v
    using call_operations_total [of m v M T] assms(2) that by (auto simp: pass_ready_def called_operations_def)
  then have "ocollect (call_operations m M T) (md_calls M) = Ret (concat (map (called_operations m M T) (md_calls M)))"
    by (rule ocollect_total)
  with made stores show ?thesis
    unfolding toprocess_def listed_operations_def typed_values_def [symmetric] abstract_stores_def [symmetric]
    by simp
qed

text \<open>What the listed operations give: values of the classes they are made from, and branches.\<close>

definition quiet :: "code \<Rightarrow> operation list \<Rightarrow> bool" where
  "quiet c xs \<longleftrightarrow> gives c xs = [] \<and> casts_of c xs = [] \<and> list_all (\<lambda>x. \<not> o_faultable c x) xs"

lemma quiet_concat: "(\<And>x. x \<in> set xs \<Longrightarrow> quiet c (f x)) \<Longrightarrow> quiet c (concat (map f xs))"
  by (induction xs) (simp_all add: quiet_def)

lemma quiet_called: "quiet c (called_operations m M T v)"
  using call_operations_give [of m M T v]
  by (cases "call_operations m M T v") (simp_all add: called_operations_def quiet_def)

lemma quiet_returns: "quiet c (return_operations M T v)"
  by (simp add: return_operations_def quiet_def o_faultable_def split: option.split)

lemma quiet_store:
  assumes "\<exists>val ptr. ir_class m v = v_store val ptr"
  shows "quiet c (made_from m c T v)"
  using gives_made_from [of c m T v] casts_made_from [of c m T v] faultable_made_from [of _ m c T v] assms
  by (auto simp: quiet_def made_class_def list_all_iff)

lemma quiet_rest:
  assumes "module_listed m M"
  shows "quiet c (concat (map (made_from m c T) (abstract_stores c M T)))"
    "quiet c (concat (map (called_operations m M T) (md_calls M)))"
    "quiet c (concat (map (return_operations M T) (md_returns M)))"
  using assms
  by (auto simp: module_listed_def abstract_stores_def intro!: quiet_concat quiet_called quiet_returns quiet_store)

lemma made_part:
  assumes "module_listed m M" "pass_ready m c M T"
  shows "distinct (gives c (concat (map (made_from m c T) (typed_values M T))))"
    and "set (gives c (concat (map (made_from m c T) (typed_values M T)))) \<subseteq> {v. made_class m v}"
    and "distinct (casts_of c (concat (map (made_from m c T) (typed_values M T))))"
    and "list_all (\<lambda>x. \<not> o_faultable c x) (concat (map (made_from m c T) (typed_values M T)))"
proof -
  let ?vs = "typed_values M T"
  have "distinct ?vs" using assms(1) by (simp add: module_listed_def typed_values_def)
  from distinct_parts [OF this, of "\<lambda>v. gives c (made_from m c T v)" "made_class m"] gives_made_from [of c m T]
  show "distinct (gives c (concat (map (made_from m c T) ?vs)))"
    and "set (gives c (concat (map (made_from m c T) ?vs))) \<subseteq> {v. made_class m v}"
    by (auto simp: gives_concat comp_def)
  have "casts_of c (concat (map (made_from m c T) vs)) = map (\<lambda>v. cd_operand c v 0)
      (filter (\<lambda>v. ir_class m v = v_cast \<and> is_identity_cast c v) vs)" for vs
    by (induction vs) (simp_all add: casts_made_from)
  with assms(2) show "distinct (casts_of c (concat (map (made_from m c T) ?vs)))"
    by (simp add: pass_ready_def)
  show "list_all (\<lambda>x. \<not> o_faultable c x) (concat (map (made_from m c T) ?vs))"
    using assms(2) faultable_made_from [of _ m c T] by (fastforce simp: list_all_iff pass_ready_def)
qed

lemma branch_part:
  assumes "module_listed m M"
  shows "distinct (gives c (concat (map (branch_operations c M T) (md_branches M))))"
    and "set (gives c (concat (map (branch_operations c M T) (md_branches M)))) \<subseteq> {v. ir_class m v = v_branch}"
    and "casts_of c (concat (map (branch_operations c M T) (md_branches M))) = []"
    and "list_all (\<lambda>x. \<not> o_faultable c x) (concat (map (branch_operations c M T) (md_branches M)))"
proof -
  have dist: "distinct (md_branches M)" using assms by (simp add: module_listed_def)
  have "gives c (branch_operations c M T v) = [] \<or> gives c (branch_operations c M T v) = [v] \<and> ir_class m v = v_branch"
    if "v \<in> set (md_branches M)" for v
    using assms that by (simp add: branch_operations_def module_listed_def)
  from distinct_parts [OF dist, of "\<lambda>v. gives c (branch_operations c M T v)" "\<lambda>v. ir_class m v = v_branch", OF this]
  show "distinct (gives c (concat (map (branch_operations c M T) (md_branches M))))"
    and "set (gives c (concat (map (branch_operations c M T) (md_branches M)))) \<subseteq> {v. ir_class m v = v_branch}"
    by (auto simp: gives_concat comp_def)
  show "casts_of c (concat (map (branch_operations c M T) (md_branches M))) = []"
    by (simp add: casts_of_concat branch_operations_def)
  show "list_all (\<lambda>x. \<not> o_faultable c x) (concat (map (branch_operations c M T) (md_branches M)))"
    by (auto simp: list_all_iff branch_operations_def o_faultable_def)
qed

lemma listed_ready:
  assumes "module_listed m M" "pass_ready m c M T"
  shows "distinct (gives c (listed_operations m c M T))"
    and "set (gives c (listed_operations m c M T)) \<subseteq> {v. made_class m v \<or> ir_class m v = v_branch}"
    and "distinct (casts_of c (listed_operations m c M T))"
    and "list_all (\<lambda>x. \<not> o_faultable c x) (listed_operations m c M T)"
proof -
  note rest = quiet_rest [OF assms(1), unfolded quiet_def, of c T]
  note made = made_part [OF assms] and branches = branch_part [OF assms(1), of c T]
  have "\<not> (made_class m v \<and> ir_class m v = v_branch)" for v
    by (auto simp: made_class_def)
  then have "set (gives c (concat (map (made_from m c T) (typed_values M T)))) \<inter>
      set (gives c (concat (map (branch_operations c M T) (md_branches M)))) = {}"
    using made(2) branches(2) by blast
  with made(1) branches(1) rest show "distinct (gives c (listed_operations m c M T))"
    by (simp add: listed_operations_def)
  show "set (gives c (listed_operations m c M T)) \<subseteq> {v. made_class m v \<or> ir_class m v = v_branch}"
    using made(2) branches(2) rest by (auto simp: listed_operations_def)
  show "distinct (casts_of c (listed_operations m c M T))"
    using made(3) branches(3) rest by (simp add: listed_operations_def)
  show "list_all (\<lambda>x. \<not> o_faultable c x) (listed_operations m c M T)"
    using made(4) branches(4) rest by (simp only: listed_operations_def list_all_append)
qed

text \<open>The operations that unstash: the arguments of functions and the abstract calls.\<close>

definition unstash_list :: "ir \<Rightarrow> md \<Rightarrow> type_map \<Rightarrow> operation list" where
  "unstash_list m M T =
    concat (map (\<lambda>fn. if list_ex (value_maybe_abstract T) (ir_args m fn)
      then concat (map unstash_both_of (ir_args m fn)) else []) (md_functions M)) @
    concat (map unstash_both_of (filter (value_maybe_abstract T) (md_calls M)))"

lemma unstash_both_facts:
  "gives c (concat (map unstash_both_of vs)) = vs" "casts_of c (concat (map unstash_both_of vs)) = []"
  "list_all (\<lambda>x. \<not> o_faultable c x) (concat (map unstash_both_of vs))"
  by (induction vs) (simp_all add: unstash_both_of_def o_faultable_def)

lemma unstash_listed:
  assumes "module_listed m M" "pass_ready m c M T"
  shows "unstash_toprocess m c M T = Ret (unstash_list m M T)"
proof -
  have "concat (map (\<lambda>x. if o_returns_value x \<and> o_faultable c x then unstash_both_of (o_value x) else [])
      (listed_operations m c M T)) = []"
    using listed_ready(4) [OF assms] by (auto simp: list_all_iff)
  then show ?thesis
    by (simp add: unstash_toprocess_def unstash_list_def toprocess_operations [OF assms])
qed

lemma unstash_ready:
  assumes "module_listed m M"
  shows "distinct (gives c (unstash_list m M T))"
    and "set (gives c (unstash_list m M T)) \<subseteq> {v. ir_class m v \<in> {v_argument, v_call, v_intrinsic}}"
    and "casts_of c (unstash_list m M T) = []" "list_all (\<lambda>x. \<not> o_faultable c x) (unstash_list m M T)"
proof -
  let ?sel = "\<lambda>fn. if list_ex (value_maybe_abstract T) (ir_args m fn) then ir_args m fn else []"
  have gives: "gives c (unstash_list m M T) =
      concat (map ?sel (md_functions M)) @ filter (value_maybe_abstract T) (md_calls M)"
  proof -
    have "gives c (if list_ex (value_maybe_abstract T) (ir_args m fn)
        then concat (map unstash_both_of (ir_args m fn)) else []) = ?sel fn" for fn
      by (simp add: unstash_both_facts)
    then show ?thesis by (simp add: unstash_list_def gives_concat [of c "map _ (md_functions M)"] unstash_both_facts comp_def)
  qed
  have args: "distinct (concat (map ?sel (md_functions M)))"
      "set (concat (map ?sel (md_functions M))) \<subseteq> {v. ir_class m v = v_argument}"
    using distinct_selected [of "ir_args m" "md_functions M"] assms by (auto simp: module_listed_def)
  have calls: "distinct (filter (value_maybe_abstract T) (md_calls M))"
      "set (filter (value_maybe_abstract T) (md_calls M)) \<subseteq> {v. ir_class m v \<in> {v_call, v_intrinsic}}"
    using assms by (auto simp: module_listed_def)
  from args(2) calls(2) have "set (concat (map ?sel (md_functions M))) \<inter>
      set (filter (value_maybe_abstract T) (md_calls M)) = {}" by fastforce
  with args(1) calls(1) show "distinct (gives c (unstash_list m M T))"
    unfolding gives by (simp only: distinct_append)
  show "set (gives c (unstash_list m M T)) \<subseteq> {v. ir_class m v \<in> {v_argument, v_call, v_intrinsic}}"
    using args(2) calls(2) unfolding gives by (simp only: set_append) blast
  show "casts_of c (unstash_list m M T) = []"
    by (auto simp: unstash_list_def casts_of_concat [of c "map _ (md_functions M)"] unstash_both_facts)
  show "list_all (\<lambda>x. \<not> o_faultable c x) (unstash_list m M T)"
    using unstash_both_facts(3) [of c] by (simp add: unstash_list_def list_all_iff) fastforce
qed

lemma driver_ops_ok:
  assumes "module_listed m M" "pass_ready m c M T"
  shows "ops_ok c (unstash_list m M T @ listed_operations m c M T)"
proof -
  note un = unstash_ready [OF assms(1), of c T] and li = listed_ready [OF assms]
  have "\<not> (ir_class m v \<in> {v_argument, v_call, v_intrinsic} \<and> (made_class m v \<or> ir_class m v = v_branch))" for v
    by (auto simp: made_class_def)
  then have "set (gives c (unstash_list m M T)) \<inter> set (gives c (listed_operations m c M T)) = {}"
    using un(2) li(2) by blast
  with un li have "distinct (gives c (unstash_list m M T @ listed_operations m c M T))"
      "distinct (casts_of c (unstash_list m M T @ listed_operations m c M T))" by simp_all
  with un(4) li(4) show ?thesis by (simp add: ops_ok_def gives_def casts_of_def)
qed

section \<open>Replacing the uses of an instruction\<close>

text \<open>
  A value has a list of its uses, and the loop goes from a use to the one behind it in the list it
  is in; setting a use to another value moves it to the list of that value. The lists and the
  operation are LLVM's: arguments here, with what they do as a predicate.
\<close>

fun following :: "nat \<Rightarrow> nat list \<Rightarrow> nat option" where
  "following u [] = None"
| "following u (x # xs) = (if x = u then (case xs of [] \<Rightarrow> None | y # _ \<Rightarrow> Some y) else following u xs)"

text \<open>The use \<open>cur\<close> is one of the value \<open>v\<close>.\<close>

partial_function (option) replace_loop ::
  "('st \<Rightarrow> nat \<Rightarrow> nat list) \<Rightarrow> (nat \<Rightarrow> nat \<Rightarrow> 'st \<Rightarrow> 'st) \<Rightarrow> (nat \<Rightarrow> nat) \<Rightarrow> nat \<Rightarrow> nat \<Rightarrow> nat option \<Rightarrow> 'st \<Rightarrow> 'st option"
where
  "replace_loop uses_of set_use user call v cur st =
    (case cur of None \<Rightarrow> Some st
     | Some u \<Rightarrow>
         if user u \<noteq> call
         then (let st' = set_use u call st in
           replace_loop uses_of set_use user call call (following u (uses_of st' call)) st')
         else replace_loop uses_of set_use user call v (following u (uses_of st v)) st)"

definition replace_uses ::
  "('st \<Rightarrow> nat \<Rightarrow> nat list) \<Rightarrow> (nat \<Rightarrow> nat \<Rightarrow> 'st \<Rightarrow> 'st) \<Rightarrow> (nat \<Rightarrow> nat) \<Rightarrow> nat \<Rightarrow> nat \<Rightarrow> 'st \<Rightarrow> 'st option"
where
  "replace_uses uses_of set_use user call v st =
    replace_loop uses_of set_use user call v (case uses_of st v of [] \<Rightarrow> None | u # _ \<Rightarrow> Some u) st"

text \<open>The driver erases the divisions that were replaced; a value that is erased may not be used.\<close>

fun erase_replaced :: "('st \<Rightarrow> nat \<Rightarrow> nat list) \<Rightarrow> (nat \<Rightarrow> 'st \<Rightarrow> 'st) \<Rightarrow> nat list \<Rightarrow> 'st \<Rightarrow> 'st outcome" where
  "erase_replaced uses_of erase [] st = Ret st"
| "erase_replaced uses_of erase (v # vs) st =
    (if uses_of st v = [] then erase_replaced uses_of erase vs (erase v st) else Fault ''uses remain'')"

definition use_lists_ok :: "('st \<Rightarrow> nat \<Rightarrow> nat list) \<Rightarrow> (nat \<Rightarrow> nat \<Rightarrow> 'st \<Rightarrow> 'st) \<Rightarrow> bool" where
  "use_lists_ok uses_of set_use \<longleftrightarrow>
    (\<forall>st u w. uses_of (set_use u w st) w = u # removeAll u (uses_of st w)) \<and>
    (\<forall>st u w v. v \<noteq> w \<longrightarrow> uses_of (set_use u w st) v = removeAll u (uses_of st v))"

lemma following_append: "u \<notin> set pre \<Longrightarrow> following u (pre @ u # xs) = (case xs of [] \<Rightarrow> None | y # _ \<Rightarrow> Some y)"
  by (induction pre) auto

definition first_other :: "(nat \<Rightarrow> nat) \<Rightarrow> nat \<Rightarrow> nat list \<Rightarrow> nat option" where
  "first_other user call us = find (\<lambda>u. user u \<noteq> call) us"

lemma replace_loop_once:
  assumes "use_lists_ok uses_of set_use" "uses_of st call = []" "uses_of st v = pre @ us" "distinct (pre @ us)"
  shows "replace_loop uses_of set_use user call v (case us of [] \<Rightarrow> None | u # _ \<Rightarrow> Some u) st =
    Some (case first_other user call us of None \<Rightarrow> st | Some u \<Rightarrow> set_use u call st)"
  using assms(3,4)
proof (induction us arbitrary: pre)
  case Nil
  then show ?case by (subst replace_loop.simps) (simp add: first_other_def)
next
  case (Cons u us)
  show ?case
  proof (cases "user u \<noteq> call")
    case True
    let ?st = "set_use u call st"
    have "uses_of ?st call = [u]" using assms(1,2) by (simp add: use_lists_ok_def)
    then have "replace_loop uses_of set_use user call call (following u (uses_of ?st call)) ?st = Some ?st"
      by (subst replace_loop.simps) simp
    with True show ?thesis by (subst replace_loop.simps) (simp add: first_other_def Let_def)
  next
    case False
    have "following u (uses_of st v) = (case us of [] \<Rightarrow> None | y # _ \<Rightarrow> Some y)"
      using Cons.prems following_append [of u pre us] by simp
    with False Cons.IH [of "pre @ [u]"] Cons.prems show ?thesis
      by (subst replace_loop.simps) (simp add: first_other_def)
  qed
qed

lemma replace_uses_once:
  assumes "use_lists_ok uses_of set_use" "uses_of st call = []" "distinct (uses_of st v)"
  shows "replace_uses uses_of set_use user call v st =
    Some (case first_other user call (uses_of st v) of None \<Rightarrow> st | Some u \<Rightarrow> set_use u call st)"
  using replace_loop_once [OF assms(1,2), of v "[]" "uses_of st v" user] assms(3) by (simp add: replace_uses_def)

text \<open>The lists of uses as lists, and the sums of the pass as a module.\<close>

definition list_set_use :: "nat \<Rightarrow> nat \<Rightarrow> (nat \<Rightarrow> nat list) \<Rightarrow> nat \<Rightarrow> nat list" where
  "list_set_use u w st v = (if v = w then u # removeAll u (st w) else removeAll u (st v))"

lemma list_uses_ok: "use_lists_ok (\<lambda>st v. st v) list_set_use"
  by (simp add: use_lists_ok_def list_set_use_def)

definition sum_code :: code where
  "sum_code = cast_code\<lparr>cd_opcode_name := \<lambda>_. ''add'', cd_operand := \<lambda>v i. if i = 0 then v - 1 else 9\<rparr>"

definition sum_parts :: md where
  "sum_parts = sum_md\<lparr>md_functions := [7]\<rparr>"

definition sum_module :: ir where
  "sum_module = sum_ir\<lparr>ir_args := \<lambda>fn. if fn = 7 then [0] else []\<rparr>"

section \<open>Properties\<close>



text \<open>
  C29: The loop that puts a call in the place of an instruction replaces a single use: setting a
  use moves it out of the list the loop goes through, so the loop ends after the first use by
  another instruction. When the driver then erases a replaced division, the division is out of use
  exactly when it had at most one use.
\<close>

theorem replaced_uses_remain:
  assumes "use_lists_ok uses_of set_use" "uses_of st call = []" "distinct (uses_of st v)" "v \<noteq> call"
    and "\<forall>u \<in> set (uses_of st v). user u \<noteq> call"
  shows "\<exists>st'. replace_uses uses_of set_use user call v st = Some st' \<and>
    uses_of st' v = tl (uses_of st v) \<and> uses_of st' call = take 1 (uses_of st v) \<and>
    erase_replaced uses_of erase [v] st' = (if length (uses_of st v) \<le> 1 then Ret (erase v st') else Fault ''uses remain'')"
proof (cases "uses_of st v")
  case Nil
  with replace_uses_once [OF assms(1-3), of user] assms(2) show ?thesis by (simp add: first_other_def)
next
  case (Cons u us)
  have "replace_uses uses_of set_use user call v st = Some (set_use u call st)"
    using replace_uses_once [OF assms(1-3), of user] assms(5) Cons by (simp add: first_other_def)
  moreover have "uses_of (set_use u call st) v = us" "uses_of (set_use u call st) call = [u]"
    using assms(1-4) Cons by (simp_all add: use_lists_ok_def)
  ultimately show ?thesis using Cons by (cases us) simp_all
qed

theorem replaced_uses_remain_witness:
  "\<exists>st'. replace_uses (\<lambda>st v. st v) list_set_use (\<lambda>u. u + 10) 5 3 ((\<lambda>_. [])(3 := [1, 2])) = Some st' \<and> st' 3 = [2] \<and>
    erase_replaced (\<lambda>st v. st v) (\<lambda>v st. st) [3] st' = Fault ''uses remain''"
  using replaced_uses_remain [OF list_uses_ok, of "(\<lambda>_. [])(3 := [1, 2])" 5 3 "\<lambda>u. u + 10" "\<lambda>v st. st"] by fastforce

end
