(* ===== verification/Runtime_Symbols.thy ===== *)
theory Runtime_Symbols
  imports Instrumentation
begin

text \<open>
  The functions of the runtime that the compiler declares in a module before it looks for any:
  \<open>lartcc/runtime.cpp\<close> and \<open>lartcc/include/cc/runtime.hpp\<close>. A module is the table of its functions,
  by name, with their types and the annotation that makes a function a root of the analysis.
\<close>

section \<open>Declarations\<close>

text \<open>\<open>st_abstract\<close> is \<open>i8*\<close>, the type of the abstract values; \<open>st_pointer\<close> a pointer to another type.\<close>

datatype sym_type = st_int nat | st_float nat | st_abstract | st_pointer | st_void

record symbol =
  sym_return :: sym_type
  sym_args :: "sym_type list"
  sym_scalar :: bool

type_synonym symbols = "string \<Rightarrow> symbol option"

abbreviation bitwidth_type :: sym_type where
  "bitwidth_type \<equiv> st_int 64"

text \<open>
  A function that the module has with the type is the one; with another type the module answers
  with a cast of it, which is not a function. An annotation is added to either.
\<close>

definition same_type :: "symbol \<Rightarrow> symbol \<Rightarrow> bool" where
  "same_type s t \<longleftrightarrow> sym_return s = sym_return t \<and> sym_args s = sym_args t"

definition insert_operation :: "string \<Rightarrow> string \<times> symbol \<Rightarrow> symbols \<Rightarrow> symbols outcome" where
  "insert_operation pre d S =
    (let name = pre @ fst d; s = snd d in
     case S name of
       None \<Rightarrow> Ret (S(name \<mapsto> s))
     | Some s' \<Rightarrow>
         if same_type s' s
         then Ret (S(name \<mapsto> s'\<lparr>sym_scalar := sym_scalar s' \<or> sym_scalar s\<rparr>))
         else Fault ''cast'')"

definition plain_symbol :: "sym_type \<Rightarrow> sym_type list \<Rightarrow> symbol" where
  "plain_symbol r as = \<lparr>sym_return = r, sym_args = as, sym_scalar = False\<rparr>"

definition annotated_symbol :: "sym_type \<Rightarrow> sym_type list \<Rightarrow> symbol" where
  "annotated_symbol r as = \<lparr>sym_return = r, sym_args = as, sym_scalar = True\<rparr>"

definition register_binary :: "string \<Rightarrow> string \<times> symbol" where
  "register_binary name = (name, plain_symbol st_abstract (replicate 2 st_abstract))"

definition register_any :: "string \<Rightarrow> sym_type \<Rightarrow> string \<times> symbol" where
  "register_any name t = (''any_'' @ name, annotated_symbol t [])"

definition register_range_any :: "string \<Rightarrow> sym_type \<Rightarrow> string \<times> symbol" where
  "register_range_any name t = (''any_range_'' @ name, annotated_symbol t (replicate 2 t))"

definition register_lift :: "string \<Rightarrow> sym_type \<Rightarrow> string \<times> symbol" where
  "register_lift name t = (''lift_'' @ name, annotated_symbol t [t])"

definition register_wrap :: "string \<Rightarrow> sym_type \<Rightarrow> string \<times> symbol" where
  "register_wrap name t = (''wrap_'' @ name, plain_symbol st_abstract [t])"

definition register_operation :: "string \<Rightarrow> sym_type \<Rightarrow> sym_type list \<Rightarrow> string \<times> symbol" where
  "register_operation name r as = (name, plain_symbol r as)"

definition register_cast :: "string \<Rightarrow> string \<times> symbol" where
  "register_cast name = (name, plain_symbol st_abstract [st_abstract, bitwidth_type])"

definition register_lart_api :: "string \<Rightarrow> sym_type \<Rightarrow> sym_type list \<Rightarrow> string \<times> symbol" where
  "register_lart_api name r as = (name, plain_symbol r as)"

definition primitives :: "(string \<times> sym_type) list" where
  "primitives = [(''i1'', st_int 1), (''i8'', st_int 8), (''i16'', st_int 16), (''i32'', st_int 32), (''i64'', st_int 64)]"

definition register_for_primitives :: "(string \<Rightarrow> sym_type \<Rightarrow> string \<times> symbol) \<Rightarrow> (string \<times> symbol) list" where
  "register_for_primitives reg = map (\<lambda>(name, t). reg name t) primitives"

text \<open>The last name is that of two literals after one another.\<close>

definition binary_names :: "string list" where
  "binary_names =
    [''add'', ''sub'', ''mul'', ''sdiv'', ''udiv'', ''srem'', ''urem'',
     ''fadd'', ''fsub'', ''fmul'', ''fdiv'', ''frem'',
     ''shl'', ''ashr'', ''lshr'', ''and'', ''or'', ''xor'',
     ''eq'', ''ne'', ''ugt'', ''uge'', ''ult'', ''ule'', ''sgt'', ''sge'', ''slt'', ''sle'',
     ''foeq'', ''fogt'', ''foge'', ''folt'', ''fole'', ''fone'', ''ford'', ''funo'',
     ''fueq'', ''fugt'', ''fuge'', ''fult'', ''fule'', ''fune'', ''ffalse'', ''ftrue'' @ ''concat'']"

definition cast_names :: "string list" where
  "cast_names = [''trunc'', ''fptrunc'', ''sitofp'', ''uitofp'', ''zext'', ''sext'', ''fpext'', ''fptosi'', ''fptoui'']"

definition lamp_declarations :: "(string \<times> symbol) list" where
  "lamp_declarations =
    register_for_primitives register_any @ register_for_primitives register_range_any @
    register_for_primitives register_lift @ register_for_primitives register_wrap @
    map register_binary binary_names @ map register_cast cast_names @
    [register_operation ''freeze'' st_void [st_abstract, st_abstract, bitwidth_type],
     register_operation ''melt'' st_abstract [st_abstract, bitwidth_type],
     register_operation ''store'' st_void [st_abstract, st_abstract, bitwidth_type],
     register_operation ''load'' st_abstract [st_abstract, bitwidth_type],
     register_operation ''to_tristate'' (st_int 8) [st_abstract],
     register_operation ''to_bool'' (st_int 1) [st_abstract],
     register_operation ''assume'' st_void [st_abstract, st_int 1],
     register_operation ''extract'' st_abstract [st_abstract, bitwidth_type, bitwidth_type],
     register_operation ''dump'' st_void [st_abstract]]"

definition lart_declarations :: "(string \<times> symbol) list" where
  "lart_declarations =
    [register_lart_api ''unstash'' st_abstract [],
     register_lart_api ''unstash_taint'' (st_int 1) [],
     register_lart_api ''stash'' st_void [st_int 1, st_abstract],
     register_lart_api ''test_taint'' (st_int 1) [st_abstract, bitwidth_type],
     register_lart_api ''entry_frame'' st_void [],
     register_lart_api ''exit_frame'' st_void []]"

fun insert_all :: "string \<Rightarrow> (string \<times> symbol) list \<Rightarrow> symbols \<Rightarrow> symbols outcome" where
  "insert_all pre [] S = Ret S"
| "insert_all pre (d # ds) S = obind (insert_operation pre d S) (insert_all pre ds)"

definition initialize :: "symbols \<Rightarrow> symbols outcome" where
  "initialize S =
    obind (insert_all ''__lamp_'' lamp_declarations S) (insert_all ''__lart_'' lart_declarations)"

section \<open>The table after the declarations\<close>

definition declared :: "(string \<times> symbol) list" where
  "declared = map (\<lambda>d. (''__lamp_'' @ fst d, snd d)) lamp_declarations @
    map (\<lambda>d. (''__lart_'' @ fst d, snd d)) lart_declarations"

lemma declared_distinct: "distinct (map fst declared)"
  by code_simp

text \<open>The symbol a declaration leaves where there may be one of the same type already.\<close>

definition merged :: "symbol option \<Rightarrow> symbol \<Rightarrow> symbol" where
  "merged old s = (case old of None \<Rightarrow> s | Some s' \<Rightarrow> s\<lparr>sym_scalar := sym_scalar s' \<or> sym_scalar s\<rparr>)"

definition declare_in :: "(string \<times> symbol) list \<Rightarrow> symbols \<Rightarrow> symbols" where
  "declare_in ds S = (\<lambda>n. case map_of ds n of None \<Rightarrow> S n | Some s \<Rightarrow> Some (merged (S n) s))"

definition compatible :: "(string \<times> symbol) list \<Rightarrow> symbols \<Rightarrow> bool" where
  "compatible ds S \<longleftrightarrow> list_all (\<lambda>d. case S (fst d) of None \<Rightarrow> True | Some s \<Rightarrow> same_type s (snd d)) ds"

lemma declare_in_other [simp]: "n \<notin> fst ` set ds \<Longrightarrow> declare_in ds S n = S n"
  by (auto simp: declare_in_def map_of_eq_None_iff [symmetric])

lemma declare_in_mem: "distinct (map fst ds) \<Longrightarrow> (n, s) \<in> set ds \<Longrightarrow> declare_in ds S n = Some (merged (S n) s)"
  by (simp add: declare_in_def)

lemma merged_type [simp]: "sym_args (merged old s) = sym_args s"
  by (simp add: merged_def split: option.splits)

lemma compatible_Cons:
  "compatible (d # ds) S \<longleftrightarrow>
    (case S (fst d) of None \<Rightarrow> True | Some s \<Rightarrow> same_type s (snd d)) \<and> compatible ds S"
  by (simp add: compatible_def)

lemma compatible_cong:
  assumes "\<And>n. n \<in> fst ` set ds \<Longrightarrow> S n = S' n"
  shows "compatible ds S = compatible ds S'"
  using assms by (auto simp: compatible_def list_all_iff)

lemma declare_in_append:
  assumes "fst ` set ds \<inter> fst ` set es = {}"
  shows "declare_in es (declare_in ds S) = declare_in (ds @ es) S"
proof
  fix n
  show "declare_in es (declare_in ds S) n = declare_in (ds @ es) S n"
  proof (cases "n \<in> fst ` set ds")
    case True
    then have "map_of es n = None" using assms by (auto simp: map_of_eq_None_iff)
    then show ?thesis by (simp add: declare_in_def map_add_def split: option.splits)
  next
    case False
    then have "map_of ds n = None" by (simp add: map_of_eq_None_iff)
    then show ?thesis by (simp add: declare_in_def map_add_def split: option.splits)
  qed
qed

definition prefixed :: "string \<Rightarrow> (string \<times> symbol) list \<Rightarrow> (string \<times> symbol) list" where
  "prefixed pre ds = map (\<lambda>d. (pre @ fst d, snd d)) ds"

lemma prefixed_simps [simp]:
  "prefixed pre [] = []" "prefixed pre (d # ds) = (pre @ fst d, snd d) # prefixed pre ds"
  by (simp_all add: prefixed_def)

lemma prefixed_names: "fst ` set (prefixed pre ds) = (@) pre ` fst ` set ds"
  by (simp add: prefixed_def image_image)

lemma insert_all_exact:
  assumes "distinct (map fst ds)"
  shows "insert_all pre ds S =
    (if compatible (prefixed pre ds) S then Ret (declare_in (prefixed pre ds) S) else Fault ''cast'')"
  using assms
proof (induction ds arbitrary: S)
  case (Cons d ds)
  let ?n = "pre @ fst d"
  let ?S = "S(?n \<mapsto> merged (S ?n) (snd d))"
  have fresh: "?n \<notin> fst ` set (prefixed pre ds)" using Cons.prems by (auto simp: prefixed_names)
  have "S n = ?S n" if "n \<in> fst ` set (prefixed pre ds)" for n
  proof -
    from that fresh have "n \<noteq> ?n" by blast
    then show ?thesis by simp
  qed
  then have same: "compatible (prefixed pre ds) ?S = compatible (prefixed pre ds) S"
    using compatible_cong by metis
  have step: "insert_operation pre d S =
      (if case S ?n of None \<Rightarrow> True | Some s \<Rightarrow> same_type s (snd d) then Ret ?S else Fault ''cast'')"
    by (auto simp: insert_operation_def merged_def same_type_def split: option.splits)
  have "declare_in (prefixed pre ds) ?S = declare_in (prefixed pre (d # ds)) S"
    using fresh [folded map_of_eq_None_iff]
    by (auto simp: declare_in_def fun_eq_iff split: option.splits)
  then show ?case
    using Cons.IH [of ?S] Cons.prems step same
    by (simp add: compatible_Cons del: fun_upd_apply split: option.splits)
qed (simp add: declare_in_def compatible_def)

lemma initialize_exact:
  "initialize S = (if compatible declared S then Ret (declare_in declared S) else Fault ''cast'')"
proof -
  let ?la = "prefixed ''__lamp_'' lamp_declarations" and ?lr = "prefixed ''__lart_'' lart_declarations"
  have d: "distinct (map fst lamp_declarations)" "distinct (map fst lart_declarations)"
    by code_simp+
  have split: "declared = ?la @ ?lr" by (simp only: declared_def prefixed_def)
  have dist: "fst ` set ?la \<inter> fst ` set ?lr = {}" using declared_distinct by (simp add: split)
  have both: "compatible declared S \<longleftrightarrow> compatible ?la S \<and> compatible ?lr S"
    by (simp add: split compatible_def)
  have "S n = declare_in ?la S n" if "n \<in> fst ` set ?lr" for n
  proof -
    from that dist have "n \<notin> fst ` set ?la" by blast
    then show ?thesis by (rule declare_in_other [symmetric])
  qed
  then have "compatible ?lr (declare_in ?la S) = compatible ?lr S"
    using compatible_cong [of ?lr S "declare_in ?la S"] by blast
  then show ?thesis
    using both dist
    by (simp add: initialize_def insert_all_exact d declare_in_append split)
qed

section \<open>The call of the lifter\<close>

text \<open>
  \<open>final_args\<close> of \<open>lifter.cpp\<close> on the types of the values (\<open>ty\<close> of the values of the program): what
  is passed for an argument, cast to the type of the parameter when it is a pointer of another
  type. Only pointers can be cast. A function that is not found is a null pointer.
\<close>

fun operand_type :: "(nat \<Rightarrow> sym_type) \<Rightarrow> operand \<Rightarrow> sym_type" where
  "operand_type ty (op_value v) = ty v"
| "operand_type ty (op_i64 n) = st_int 64"
| "operand_type ty (op_i8 w) = st_int 8"
| "operand_type ty (op_i1 b) = st_int 1"
| "operand_type ty abstract_pointer = st_abstract"

fun final_types :: "(nat \<Rightarrow> sym_type) \<Rightarrow> argument list \<Rightarrow> sym_type list" where
  "final_types ty [] = []"
| "final_types ty (a # as) =
    (case arg_type a of
       at_test \<Rightarrow> final_types ty as
     | at_concrete \<Rightarrow> operand_type ty (arg_value a) # final_types ty as
     | _ \<Rightarrow> st_abstract # final_types ty as)"

fun is_pointer_type :: "sym_type \<Rightarrow> bool" where
  "is_pointer_type st_abstract = True" | "is_pointer_type st_pointer = True" | "is_pointer_type _ = False"

fun cast_args :: "sym_type list \<Rightarrow> sym_type list \<Rightarrow> sym_type list outcome" where
  "cast_args [] ps = Ret []"
| "cast_args (t # ts) [] = Undef"
| "cast_args (t # ts) (p # ps) =
    (if t = p \<or> is_pointer_type t \<and> p \<noteq> st_void \<and> (\<forall>n. p \<noteq> st_float n)
     then omap (Cons p) (cast_args ts ps) else Undef)"

definition lifter_call :: "code \<Rightarrow> (nat \<Rightarrow> sym_type) \<Rightarrow> symbols \<Rightarrow> operation \<Rightarrow> string outcome" where
  "lifter_call c ty S x =
    obind (o_arguments c x) (\<lambda>args. obind (o_impl c x) (\<lambda>name.
      case S name of
        None \<Rightarrow> Undef
      | Some s \<Rightarrow> obind (cast_args (final_types ty args) (sym_args s))
          (\<lambda>as. if as = sym_args s then Ret name else Undef)))"

text \<open>The names LLVM has for the instructions an operation can stand for.\<close>

definition llvm_binaries :: "string list" where
  "llvm_binaries =
    [''add'', ''fadd'', ''sub'', ''fsub'', ''mul'', ''fmul'', ''udiv'', ''sdiv'', ''fdiv'', ''urem'', ''srem'',
     ''frem'', ''shl'', ''lshr'', ''ashr'', ''and'', ''or'', ''xor'']"

definition llvm_casts :: "string list" where
  "llvm_casts =
    [''trunc'', ''zext'', ''sext'', ''fptrunc'', ''fpext'', ''fptoui'', ''fptosi'', ''uitofp'', ''sitofp'',
     ''ptrtoint'', ''inttoptr'', ''bitcast'', ''addrspacecast'']"

definition llvm_predicates :: "string list" where
  "llvm_predicates = map fst icmp_predicates @ map fst fcmp_predicates"

definition llvm_named :: "code \<Rightarrow> operation \<Rightarrow> bool" where
  "llvm_named c x =
    (case x of o_binary v \<Rightarrow> cd_opcode_name c v \<in> set llvm_binaries
     | o_cast v \<Rightarrow> cd_opcode_name c v \<in> set llvm_casts
     | o_cmp v \<Rightarrow> cd_predicate_name c v \<in> set llvm_predicates
     | _ \<Rightarrow> True)"

text \<open>The operations that get a call of the right type.\<close>

definition callable :: "code \<Rightarrow> operation \<Rightarrow> bool" where
  "callable c x =
    (case x of o_melt v \<Rightarrow> True | o_binary v \<Rightarrow> True | o_tobool v \<Rightarrow> True | o_assume v e \<Rightarrow> True
     | o_cmp v \<Rightarrow> cd_predicate_name c v \<in> set (map fst icmp_predicates)
     | _ \<Rightarrow> False)"

abbreviation declared_args :: "string \<Rightarrow> sym_type list option" where
  "declared_args n \<equiv> map_option sym_args (map_of declared n)"

lemma declared_tables:
  "list_all (\<lambda>n. declared_args (''__lamp_'' @ n) = Some [st_abstract, st_abstract]) llvm_binaries"
  "list_all (\<lambda>n. declared_args (''__lamp_'' @ n) \<in> {None, Some [st_abstract, st_int 64]}) llvm_casts"
  "list_all (\<lambda>n. declared_args (''__lamp_'' @ n) =
    (if n \<in> set (map fst icmp_predicates) then Some [st_abstract, st_abstract] else None)) llvm_predicates"
  "declared_args ''__lamp_melt'' = Some [st_abstract, st_int 64]"
  "declared_args ''__lamp_to_bool'' = Some [st_abstract]"
  "declared_args ''__lamp_assume'' = Some [st_abstract, st_int 1]"
  "declared_args ''__lamp_load'' = Some [st_abstract, st_int 64]"
  "declared_args ''__lamp_store'' = Some [st_abstract, st_abstract, st_int 64]"
  "declared_args ''__lamp_alloca'' = None"
  by code_simp+

lemma declare_in_args:
  assumes "declared_args n = Some as"
  obtains s where "declare_in declared S n = Some s" "sym_args s = as"
  using assms that by (auto simp: declare_in_def)

lemma declare_in_absent: "declared_args n = None \<Longrightarrow> S n = None \<Longrightarrow> declare_in declared S n = None"
  by (simp add: declare_in_def)

lemma lifter_call_found:
  assumes "o_arguments c x = Ret args" "o_impl c x = Ret name" "declared_args name = Some as"
  shows "lifter_call c ty (declare_in declared S) x =
    obind (cast_args (final_types ty args) as) (\<lambda>as'. if as' = as then Ret name else Undef)"
proof -
  obtain s where "declare_in declared S name = Some s" "sym_args s = as" by (rule declare_in_args [OF assms(3)])
  then show ?thesis using assms(1,2) by (simp add: lifter_call_def)
qed

lemma lifter_call_absent:
  assumes "o_arguments c x = Ret args" "o_impl c x = Ret name" "declared_args name = None" "S name = None"
  shows "lifter_call c ty (declare_in declared S) x = Undef"
  using assms declare_in_absent [of name S] by (simp add: lifter_call_def)

lemma lifter_call_binary:
  assumes "cd_opcode_name c v \<in> set llvm_binaries"
  shows "lifter_call c ty (declare_in declared S) (o_binary v) = o_impl c (o_binary v)"
proof -
  have "declared_args (''__lamp_'' @ cd_opcode_name c v) = Some [st_abstract, st_abstract]"
    using declared_tables(1) assms unfolding list_all_iff by blast
  from lifter_call_found [where x = "o_binary v" and name = "''__lamp_'' @ cd_opcode_name c v", OF _ _ this]
  show ?thesis by (simp add: mk_arg_def del: append.simps)
qed

lemma lifter_call_cast:
  assumes "cd_opcode_name c v \<in> set llvm_casts" "S (''__lamp_'' @ cd_opcode_name c v) = None \<or>
    ''__lamp_'' @ cd_opcode_name c v \<in> fst ` set declared"
  shows "lifter_call c ty (declare_in declared S) (o_cast v) = Undef"
proof -
  let ?n = "''__lamp_'' @ cd_opcode_name c v"
  have "declared_args ?n \<in> {None, Some [st_abstract, st_int 64]}"
    using bspec [OF declared_tables(2) [unfolded list_all_iff] assms(1)] .
  then have "declared_args ?n = None \<or> declared_args ?n = Some [st_abstract, st_int 64]"
    by (simp only: insert_iff empty_iff simp_thms)
  then consider "declared_args ?n = None" | "declared_args ?n = Some [st_abstract, st_int 64]" by (rule disjE)
  then show ?thesis
  proof cases
    case 1
    then have "map_of declared ?n = None" by simp
    then have "?n \<notin> fst ` set declared" by (simp only: map_of_eq_None_iff not_False_eq_True)
    then have "S ?n = None" using assms(2) by blast
    with 1 show ?thesis
      by (intro lifter_call_absent [where name = ?n]) (simp_all only: o_impl.simps o_name.simps o_arguments.simps)
  next
    case 2
    from lifter_call_found [where x = "o_cast v" and name = ?n, OF _ _ this]
    show ?thesis by (simp add: mk_arg_def del: append.simps)
  qed
qed

lemma lifter_call_cmp:
  assumes "cd_predicate_name c v \<in> set llvm_predicates" "S (''__lamp_'' @ cd_predicate_name c v) = None \<or>
    ''__lamp_'' @ cd_predicate_name c v \<in> fst ` set declared"
  shows "lifter_call c ty (declare_in declared S) (o_cmp v) =
    (if callable c (o_cmp v) then o_impl c (o_cmp v) else Undef)"
proof -
  let ?n = "''__lamp_'' @ cd_predicate_name c v"
  have d: "declared_args ?n = (if callable c (o_cmp v) then Some [st_abstract, st_abstract] else None)"
    using declared_tables(3) assms(1) unfolding list_all_iff callable_def by auto
  show ?thesis
  proof (cases "callable c (o_cmp v)")
    case True
    with d have "declared_args ?n = Some [st_abstract, st_abstract]" by simp
    from lifter_call_found [where x = "o_cmp v" and name = ?n, OF _ _ this] True
    show ?thesis by (simp add: mk_arg_def del: append.simps)
  next
    case False
    with d have n: "declared_args ?n = None" by simp
    then have "map_of declared ?n = None" by simp
    then have "?n \<notin> fst ` set declared" by (simp only: map_of_eq_None_iff not_False_eq_True)
    then have "S ?n = None" using assms(2) by blast
    with n have "lifter_call c ty (declare_in declared S) (o_cmp v) = Undef"
      by (intro lifter_call_absent [where name = ?n]) (simp_all only: o_impl.simps o_name.simps o_arguments.simps)
    with False show ?thesis by simp
  qed
qed

lemma lifter_call_alloc:
  assumes "S ''__lamp_alloca'' = None \<or> ''__lamp_alloca'' \<in> fst ` set declared"
  shows "lifter_call c ty (declare_in declared S) (o_alloc v) = Undef"
proof -
  have "map_of declared ''__lamp_alloca'' = None" using declared_tables(9) by simp
  then have "''__lamp_alloca'' \<notin> fst ` set declared" by (simp only: map_of_eq_None_iff not_False_eq_True)
  with assms have "S ''__lamp_alloca'' = None" by blast
  then show ?thesis
    using lifter_call_absent [where x = "o_alloc v" and name = "''__lamp_alloca''" and S = S, OF _ _ declared_tables(9)]
    by simp
qed

lemma lifter_call_melt:
  assumes "is_pointer_type (ty (cd_pointer_operand c v))"
  shows "lifter_call c ty (declare_in declared S) (o_melt v) = Ret ''__lamp_melt''"
  using assms
  by (simp add: mk_arg_def lifter_call_found [where x = "o_melt v" and name = "''__lamp_melt''", OF _ _ declared_tables(4)])

lemma lifter_call_fixed:
  shows "lifter_call c ty (declare_in declared S) (o_tobool v) = Ret ''__lamp_to_bool''"
    and "lifter_call c ty (declare_in declared S) (o_assume v e) = Ret ''__lamp_assume''"
    and "lifter_call c ty (declare_in declared S) (o_load v) = Undef"
    and "lifter_call c ty (declare_in declared S) (o_store v) = Undef"
  by (simp_all add: mk_arg_def
      lifter_call_found [where x = "o_tobool v" and name = "''__lamp_to_bool''", OF _ _ declared_tables(5)]
      lifter_call_found [where x = "o_assume v e" and name = "''__lamp_assume''", OF _ _ declared_tables(6)]
      lifter_call_found [where x = "o_load v" and name = "''__lamp_load''", OF _ _ declared_tables(7)]
      lifter_call_found [where x = "o_store v" and name = "''__lamp_store''", OF _ _ declared_tables(8)])

text \<open>Without a comma between them two names are one.\<close>

lemma names_run_together:
  "list_all (\<lambda>n. map_of declared n = None) [''__lamp_ftrue'', ''__lamp_concat'']"
  "map_of declared ''__lamp_ftrueconcat'' = Some (plain_symbol st_abstract [st_abstract, st_abstract])"
  by code_simp+

text \<open>The lifter wraps an operand by the name of its type.\<close>

lemma wraps_declared:
  "list_all (\<lambda>n. map_of declared (''__lamp_wrap_'' @ n) \<noteq> None) [''i1'', ''i8'', ''i16'', ''i32'', ''i64'']"
  "list_all (\<lambda>n. map_of declared (''__lamp_wrap_'' @ n) = None) [''ptr'', ''float'', ''double'', ''i128'']"
  by code_simp+

text \<open>A program that makes one abstract value.\<close>

definition any_module :: symbols where
  "any_module = [''main'' \<mapsto> plain_symbol (st_int 32) [], ''__lamp_any_i32'' \<mapsto> plain_symbol (st_int 32) []]"

lemma any_module_compatible: "compatible declared any_module"
  by code_simp

section \<open>Properties\<close>



end
