(* ===== verification/Cfg.thy ===== *)
theory Cfg
  imports Lart_Prelude "HOL-Library.Multiset"
begin

text \<open>
  Functions as graphs of basic blocks, as far as the passes that split blocks and edges look at
  them, and what running one does. A block is its position in the list of blocks. Values are
  numbered; a value that is not computed yet has no value, and values are never poison. The
  instructions that the passes do not look at, calls and accesses to memory among them, act on a
  state through a parameter.
\<close>

section \<open>Functions\<close>

datatype 'v bval = b_reg nat | b_const 'v

datatype 'v binst =
    bi_select nat "'v bval" "'v bval" "'v bval"
  | bi_cmp nat nat "'v bval list"
  | bi_other nat nat "'v bval list"

text \<open>\<open>bt_other\<close> is a switch, or any other instruction that ends a block and has successors.\<close>

datatype 'v bterm =
    bt_br nat | bt_condbr "'v bval" nat nat | bt_other nat "'v bval list" "nat list"
  | bt_ret "'v bval list"

type_synonym 'v phi = "nat \<times> (nat \<times> 'v bval) list"

record 'v block =
  bk_phis :: "'v phi list"
  bk_insts :: "'v binst list"
  bk_term :: "'v bterm"

text \<open>\<open>cf_values\<close> is the least number that names no value.\<close>

record 'v cfg =
  cf_blocks :: "'v block list"
  cf_entry :: nat
  cf_values :: nat

fun inst_dest :: "'v binst \<Rightarrow> nat" where
  "inst_dest (bi_select d c a b) = d" | "inst_dest (bi_cmp d k xs) = d" | "inst_dest (bi_other d k xs) = d"

fun inst_vals :: "'v binst \<Rightarrow> 'v bval list" where
  "inst_vals (bi_select d c a b) = [c, a, b]" | "inst_vals (bi_cmp d k xs) = xs"
| "inst_vals (bi_other d k xs) = xs"

fun term_vals :: "'v bterm \<Rightarrow> 'v bval list" where
  "term_vals (bt_br l) = []" | "term_vals (bt_condbr c l m) = [c]" | "term_vals (bt_other k xs ls) = xs"
| "term_vals (bt_ret xs) = xs"

fun succs :: "'v bterm \<Rightarrow> nat list" where
  "succs (bt_br l) = [l]" | "succs (bt_condbr c l m) = [l, m]" | "succs (bt_other k xs ls) = ls"
| "succs (bt_ret xs) = []"

definition block_defs :: "'v block \<Rightarrow> nat list" where
  "block_defs bk = map fst (bk_phis bk) @ map inst_dest (bk_insts bk)"

text \<open>Every name is below the bounds, and every value is defined once.\<close>

fun val_below :: "nat \<Rightarrow> 'v bval \<Rightarrow> bool" where
  "val_below V (b_reg u) = (u < V)" | "val_below V (b_const c) = True"

definition phi_ok :: "nat \<Rightarrow> nat \<Rightarrow> 'v phi \<Rightarrow> bool" where
  "phi_ok N V ph \<longleftrightarrow> list_all (\<lambda>(l, x). l < N \<and> val_below V x) (snd ph)"

definition inst_below :: "nat \<Rightarrow> 'v binst \<Rightarrow> bool" where
  "inst_below V i \<longleftrightarrow> list_all (val_below V) (inst_vals i) \<and> inst_dest i < V"

definition term_below :: "nat \<Rightarrow> nat \<Rightarrow> 'v bterm \<Rightarrow> bool" where
  "term_below N V t \<longleftrightarrow> list_all (val_below V) (term_vals t) \<and> list_all (\<lambda>l. l < N) (succs t)"

definition block_below :: "nat \<Rightarrow> nat \<Rightarrow> 'v block \<Rightarrow> bool" where
  "block_below N V bk \<longleftrightarrow> list_all (\<lambda>ph. phi_ok N V ph \<and> fst ph < V) (bk_phis bk) \<and>
    list_all (inst_below V) (bk_insts bk) \<and> term_below N V (bk_term bk)"

lemma block_below_parts:
  "block_below N V bk \<longleftrightarrow>
    list_all (\<lambda>(d, ins). list_all (\<lambda>(l, x). l < N \<and> val_below V x) ins) (bk_phis bk) \<and>
    list_all (\<lambda>i. list_all (val_below V) (inst_vals i)) (bk_insts bk) \<and>
    list_all (val_below V) (term_vals (bk_term bk)) \<and> list_all (\<lambda>l. l < N) (succs (bk_term bk)) \<and>
    list_all (\<lambda>d. d < V) (block_defs bk)"
  by (auto simp: block_below_def phi_ok_def inst_below_def term_below_def block_defs_def list_all_iff split_beta)

definition all_defs :: "'v cfg \<Rightarrow> nat multiset" where
  "all_defs f = sum_list (map (\<lambda>bk. mset (block_defs bk)) (cf_blocks f))"

definition cfg_ok :: "'v cfg \<Rightarrow> bool" where
  "cfg_ok f \<longleftrightarrow> list_all (block_below (length (cf_blocks f)) (cf_values f)) (cf_blocks f) \<and>
    distinct (concat (map block_defs (cf_blocks f))) \<and> cf_entry f < length (cf_blocks f)"

section \<open>Running a function\<close>

record ('v, 's) sem =
  sem_truth :: "'v \<Rightarrow> bool"
  sem_bool :: "bool \<Rightarrow> 'v"
  sem_cmp :: "nat \<Rightarrow> 'v list \<Rightarrow> bool outcome"
  sem_exec :: "nat \<Rightarrow> 'v list \<Rightarrow> 's \<Rightarrow> ('v \<times> 's) outcome"
  sem_pick :: "nat \<Rightarrow> 'v list \<Rightarrow> nat"

type_synonym 'v env = "nat \<Rightarrow> 'v option"

fun bget :: "'v env \<Rightarrow> 'v bval \<Rightarrow> 'v outcome" where
  "bget e (b_reg u) = (case e u of Some x \<Rightarrow> Ret x | None \<Rightarrow> Undef)"
| "bget e (b_const c) = Ret c"

fun bgets :: "'v env \<Rightarrow> 'v bval list \<Rightarrow> 'v list outcome" where
  "bgets e [] = Ret []"
| "bgets e (x # xs) = obind (bget e x) (\<lambda>y. omap (Cons y) (bgets e xs))"

text \<open>The phis at the start of a block take their values at once.\<close>

definition phi_value :: "'v env \<Rightarrow> nat option \<Rightarrow> (nat \<times> 'v bval) list \<Rightarrow> 'v outcome" where
  "phi_value e q ins =
    (case q of None \<Rightarrow> Undef | Some l \<Rightarrow> (case map_of ins l of None \<Rightarrow> Undef | Some x \<Rightarrow> bget e x))"

fun enter :: "'v env \<Rightarrow> nat option \<Rightarrow> 'v phi list \<Rightarrow> 'v env \<Rightarrow> 'v env outcome" where
  "enter e q [] e' = Ret e'"
| "enter e q ((d, ins) # phis) e' = obind (phi_value e q ins) (\<lambda>x. enter e q phis (e'(d \<mapsto> x)))"

fun exec_inst :: "('v, 's) sem \<Rightarrow> 'v binst \<Rightarrow> 'v env \<times> 's \<Rightarrow> ('v env \<times> 's) outcome" where
  "exec_inst M (bi_select d c a b) (e, s) =
    obind (bget e c) (\<lambda>x. obind (bget e (if sem_truth M x then a else b)) (\<lambda>y. Ret (e(d \<mapsto> y), s)))"
| "exec_inst M (bi_cmp d k xs) (e, s) =
    obind (bgets e xs) (\<lambda>ys. obind (sem_cmp M k ys) (\<lambda>b. Ret (e(d \<mapsto> sem_bool M b), s)))"
| "exec_inst M (bi_other d k xs) (e, s) =
    obind (bgets e xs) (\<lambda>ys. obind (sem_exec M k ys s) (\<lambda>(y, s'). Ret (e(d \<mapsto> y), s')))"

fun exec_insts :: "('v, 's) sem \<Rightarrow> 'v binst list \<Rightarrow> 'v env \<times> 's \<Rightarrow> ('v env \<times> 's) outcome" where
  "exec_insts M [] c = Ret c"
| "exec_insts M (i # is) c = obind (exec_inst M i c) (exec_insts M is)"

text \<open>The values returned, or the next block.\<close>

fun exec_term :: "('v, 's) sem \<Rightarrow> 'v bterm \<Rightarrow> 'v env \<Rightarrow> ('v list + nat) outcome" where
  "exec_term M (bt_br l) e = Ret (Inr l)"
| "exec_term M (bt_condbr c l m) e = obind (bget e c) (\<lambda>x. Ret (Inr (if sem_truth M x then l else m)))"
| "exec_term M (bt_other k xs ls) e =
    obind (bgets e xs) (\<lambda>ys. let i = sem_pick M k ys in if i < length ls then Ret (Inr (ls ! i)) else Undef)"
| "exec_term M (bt_ret xs) e = omap Inl (bgets e xs)"

text \<open>A configuration: the block that control comes from, the block it enters, values, state.\<close>

type_synonym ('v, 's) config = "nat option \<times> nat \<times> 'v env \<times> 's"

definition block_at :: "'v cfg \<Rightarrow> nat \<Rightarrow> 'v block option" where
  "block_at f l = (if l < length (cf_blocks f) then Some (cf_blocks f ! l) else None)"

definition run_block ::
  "('v, 's) sem \<Rightarrow> 'v block \<Rightarrow> ('v, 's) config \<Rightarrow> ('v list \<times> 's + ('v, 's) config) outcome" where
  "run_block M bk c = (case c of (q, m, e, s) \<Rightarrow>
    obind (enter e q (bk_phis bk) e) (\<lambda>e1.
    obind (exec_insts M (bk_insts bk) (e1, s)) (\<lambda>(e2, s2).
    obind (exec_term M (bk_term bk) e2) (\<lambda>t.
      Ret (case t of Inl rs \<Rightarrow> Inl (rs, s2) | Inr m' \<Rightarrow> Inr (Some m, m', e2, s2))))))"

definition step :: "('v, 's) sem \<Rightarrow> 'v cfg \<Rightarrow> ('v, 's) config \<Rightarrow> ('v list \<times> 's + ('v, 's) config) outcome" where
  "step M f c = (case block_at f (fst (snd c)) of None \<Rightarrow> Undef | Some bk \<Rightarrow> run_block M bk c)"

fun steps :: "('v, 's) sem \<Rightarrow> 'v cfg \<Rightarrow> nat \<Rightarrow> ('v, 's) config \<Rightarrow> ('v list \<times> 's + ('v, 's) config) outcome" where
  "steps M f 0 c = Ret (Inr c)"
| "steps M f (Suc k) c = obind (step M f c) (\<lambda>x. case x of Inl r \<Rightarrow> Ret (Inl r) | Inr c' \<Rightarrow> steps M f k c')"

text \<open>The result of a run of at most so many blocks.\<close>

fun result_of :: "('r + 'c) outcome \<Rightarrow> 'r outcome option" where
  "result_of (Ret (Inl r)) = Some (Ret r)"
| "result_of (Ret (Inr c)) = None"
| "result_of Cancel = Some Cancel"
| "result_of (Fault m) = Some (Fault m)"
| "result_of Undef = Some Undef"

definition run_cfg :: "('v, 's) sem \<Rightarrow> 'v cfg \<Rightarrow> nat \<Rightarrow> ('v, 's) config \<Rightarrow> ('v list \<times> 's) outcome option" where
  "run_cfg M f k c = result_of (steps M f k c)"

definition start :: "'v cfg \<Rightarrow> 'v env \<Rightarrow> 's \<Rightarrow> ('v, 's) config" where
  "start f e s = (None, cf_entry f, e, s)"

definition ends_with :: "('v, 's) sem \<Rightarrow> 'v cfg \<Rightarrow> ('v, 's) config \<Rightarrow> ('v list \<times> 's) outcome \<Rightarrow> bool" where
  "ends_with M f c r \<longleftrightarrow> (\<exists>k. run_cfg M f k c = Some r)"

text \<open>Before a function runs only its arguments have values.\<close>

definition args_only :: "'v cfg \<Rightarrow> 'v env \<Rightarrow> bool" where
  "args_only f e \<longleftrightarrow> (\<forall>u. u \<in># all_defs f \<or> cf_values f \<le> u \<longrightarrow> e u = None)"

definition same_results :: "('v, 's) sem \<Rightarrow> 'v cfg \<Rightarrow> 'v cfg \<Rightarrow> bool" where
  "same_results M f g \<longleftrightarrow>
    (\<forall>e s r. args_only f e \<longrightarrow> ends_with M f (start f e s) r = ends_with M g (start g e s) r)"

section \<open>Simulation\<close>

lemma rel_outcome_obind:
  assumes "rel_outcome R a b" "\<And>x y. R x y \<Longrightarrow> rel_outcome S (f x) (g y)"
  shows "rel_outcome S (obind a f) (obind b g)"
  using assms by (cases a; cases b) auto

lemma rel_outcome_omap:
  assumes "rel_outcome R a b" "\<And>x y. R x y \<Longrightarrow> S (f x) (g y)"
  shows "rel_outcome S (omap f a) (omap g b)"
  using assms by (cases a; cases b) auto

lemma steps_add:
  "steps M f (j + k) c = obind (steps M f j c) (\<lambda>x. case x of Inl r \<Rightarrow> Ret (Inl r) | Inr c' \<Rightarrow> steps M f k c')"
proof (induction j arbitrary: c)
  case (Suc j)
  then show ?case by (auto simp: obind_assoc intro!: arg_cong2 [where f = obind] split: sum.split)
qed simp

lemma run_cfg_mono:
  assumes "run_cfg M f j c = Some r" "j \<le> k"
  shows "run_cfg M f k c = Some r"
proof -
  obtain i where k: "k = j + i" using assms(2) le_Suc_ex by blast
  show ?thesis
  proof (cases "steps M f j c")
    case (Ret x)
    then show ?thesis using assms(1) by (cases x) (auto simp: k run_cfg_def steps_add)
  qed (use assms(1) in \<open>simp_all add: k run_cfg_def steps_add\<close>)
qed

lemma rel_step_next:
  assumes "rel_outcome (rel_sum (=) R) (Ret (Inr c)) b"
  obtains d where "b = Ret (Inr d)" "R c d"
proof (cases b)
  case (Ret x)
  then show ?thesis using assms that by (cases x) auto
qed (use assms in auto)

lemma rel_step_ends:
  assumes "\<not> (\<exists>c. a = Ret (Inr c))"
  obtains x where "result_of a = Some x"
proof (cases a)
  case (Ret y)
  then show ?thesis using assms that by (cases y) auto
qed (use that in auto)

lemma rel_step_result:
  assumes "rel_outcome (rel_sum (=) R) a b"
  shows "result_of b = result_of a"
proof (cases a)
  case (Ret x)
  then obtain y where "b = Ret y" "rel_sum (=) R x y" using assms by (cases b) auto
  with Ret show ?thesis by (cases x; cases y) auto
qed (use assms in \<open>cases b; auto\<close>)+

text \<open>
  When every step of one function is matched by one or more steps of the other, the two have the
  same results: neither can stop, fail or go on without the other.
\<close>

lemma simulation_results:
  assumes sim: "\<And>c d. R c d \<Longrightarrow> \<exists>j. rel_outcome (rel_sum (=) R) (step M f c) (steps M g (Suc j) d)"
    and "R c d"
  shows "ends_with M f c r = ends_with M g d r"
proof
  have fwd: "\<exists>k'. run_cfg M g k' d = Some r" if "run_cfg M f k c = Some r" "R c d" for k c d
    using that
  proof (induction k arbitrary: c d)
    case (Suc k)
    obtain j where j: "rel_outcome (rel_sum (=) R) (step M f c) (steps M g (Suc j) d)"
      using sim [OF Suc.prems(2)] by blast
    show ?case
    proof (cases "\<exists>c'. step M f c = Ret (Inr c')")
      case True
      then obtain c' where c': "step M f c = Ret (Inr c')" by blast
      obtain d' where d': "steps M g (Suc j) d = Ret (Inr d')" "R c' d'"
        using rel_step_next [OF j [unfolded c']] by blast
      have "run_cfg M f k c' = Some r" using Suc.prems(1) c' by (simp add: run_cfg_def)
      then obtain k' where "run_cfg M g k' d' = Some r" using Suc.IH d'(2) by blast
      then have "run_cfg M g (Suc j + k') d = Some r"
        unfolding run_cfg_def steps_add using d'(1) by simp
      then show ?thesis by blast
    next
      case False
      then have "run_cfg M f (Suc k) c = result_of (step M f c)"
        by (cases "step M f c") (auto simp: run_cfg_def split: sum.split)
      moreover have "result_of (steps M g (Suc j) d) = result_of (step M f c)"
        by (rule rel_step_result [OF j])
      ultimately have "run_cfg M g (Suc j) d = Some r" using Suc.prems(1) by (simp add: run_cfg_def)
      then show ?thesis by blast
    qed
  qed (simp add: run_cfg_def)
  have bwd: "\<exists>k'. run_cfg M f k' c = Some r" if "run_cfg M g k d = Some r" "R c d" for k c d
    using that
  proof (induction k arbitrary: c d rule: less_induct)
    case (less k)
    obtain j where j: "rel_outcome (rel_sum (=) R) (step M f c) (steps M g (Suc j) d)"
      using sim [OF less.prems(2)] by blast
    show ?case
    proof (cases "\<exists>c'. step M f c = Ret (Inr c')")
      case True
      then obtain c' where c': "step M f c = Ret (Inr c')" by blast
      obtain d' where d': "steps M g (Suc j) d = Ret (Inr d')" "R c' d'"
        using rel_step_next [OF j [unfolded c']] by blast
      have k: "Suc j < k \<or> k \<le> Suc j" by auto
      have "\<not> k \<le> Suc j"
      proof
        assume "k \<le> Suc j"
        from run_cfg_mono [OF less.prems(1) this] d'(1) show False by (simp add: run_cfg_def)
      qed
      then have k: "k = Suc j + (k - Suc j)" "k - Suc j < k" by auto
      have "run_cfg M g (k - Suc j) d' = Some r"
        using less.prems(1) d'(1) steps_add [of M g "Suc j" "k - Suc j" d] k(1) by (simp add: run_cfg_def)
      then obtain k' where "run_cfg M f k' c' = Some r" using less.IH [OF k(2)] d'(2) by blast
      then have "run_cfg M f (Suc k') c = Some r" using c' by (simp add: run_cfg_def)
      then show ?thesis by blast
    next
      case False
      then have f: "run_cfg M f 1 c = result_of (step M f c)"
        by (cases "step M f c") (auto simp: run_cfg_def split: sum.split)
      moreover have "result_of (steps M g (Suc j) d) = result_of (step M f c)"
        by (rule rel_step_result [OF j])
      moreover obtain x where x: "result_of (step M f c) = Some x"
        using False by (rule rel_step_ends)
      ultimately have "run_cfg M g (Suc j) d = Some x" by (simp add: run_cfg_def)
      from run_cfg_mono [OF this, of "max k (Suc j)"] run_cfg_mono [OF less.prems(1), of "max k (Suc j)"]
      have "x = r" by (simp del: steps.simps)
      then show ?thesis using f x by auto
    qed
  qed
  show "ends_with M f c r \<Longrightarrow> ends_with M g d r" using fwd assms(2) unfolding ends_with_def by blast
  show "ends_with M g d r \<Longrightarrow> ends_with M f c r" using bwd assms(2) unfolding ends_with_def by blast
qed

end
