(* ===== verification/Branch_Lowering.thy ===== *)
theory Branch_Lowering
  imports Cfg
begin

text \<open>
  Before the analysis looks at a function it turns its selects into branches, and the comparisons
  that are used by anything but branches: \<open>lartcc/preprocess.cpp\<close>, \<open>lower_selects\<close> and
  \<open>lower_cmps\<close>. \<open>splitBasicBlock\<close> of LLVM is the parameter \<open>split\<close>, which is given a block and the
  position of an instruction; \<open>split_ok\<close> says what it returns.
\<close>

section \<open>Changes of a function\<close>

text \<open>\<open>replaceAllUsesWith\<close>.\<close>

fun bsub :: "nat \<Rightarrow> nat \<Rightarrow> 'v bval \<Rightarrow> 'v bval" where
  "bsub v p (b_reg u) = b_reg (if u = v then p else u)"
| "bsub v p (b_const c) = b_const c"

definition phi_sub :: "nat \<Rightarrow> nat \<Rightarrow> 'v phi \<Rightarrow> 'v phi" where
  "phi_sub v p ph = (fst ph, map (\<lambda>(l, x). (l, bsub v p x)) (snd ph))"

fun inst_sub :: "nat \<Rightarrow> nat \<Rightarrow> 'v binst \<Rightarrow> 'v binst" where
  "inst_sub v p (bi_select d c a b) = bi_select d (bsub v p c) (bsub v p a) (bsub v p b)"
| "inst_sub v p (bi_cmp d k xs) = bi_cmp d k (map (bsub v p) xs)"
| "inst_sub v p (bi_other d k xs) = bi_other d k (map (bsub v p) xs)"

fun term_sub :: "nat \<Rightarrow> nat \<Rightarrow> 'v bterm \<Rightarrow> 'v bterm" where
  "term_sub v p (bt_br l) = bt_br l"
| "term_sub v p (bt_condbr c l m) = bt_condbr (bsub v p c) l m"
| "term_sub v p (bt_other k xs ls) = bt_other k (map (bsub v p) xs) ls"
| "term_sub v p (bt_ret xs) = bt_ret (map (bsub v p) xs)"

definition block_sub :: "nat \<Rightarrow> nat \<Rightarrow> 'v block \<Rightarrow> 'v block" where
  "block_sub v p bk = \<lparr>bk_phis = map (phi_sub v p) (bk_phis bk), bk_insts = map (inst_sub v p) (bk_insts bk),
    bk_term = term_sub v p (bk_term bk)\<rparr>"

definition replace_all_uses :: "nat \<Rightarrow> nat \<Rightarrow> 'v cfg \<Rightarrow> 'v cfg" where
  "replace_all_uses v p f = f\<lparr>cf_blocks := map (block_sub v p) (cf_blocks f)\<rparr>"

definition change_block :: "nat \<Rightarrow> ('v block \<Rightarrow> 'v block) \<Rightarrow> 'v cfg \<Rightarrow> 'v cfg" where
  "change_block l h f = f\<lparr>cf_blocks := (cf_blocks f)[l := h (cf_blocks f ! l)]\<rparr>"

definition set_term :: "nat \<Rightarrow> 'v bterm \<Rightarrow> 'v cfg \<Rightarrow> 'v cfg" where
  "set_term l t = change_block l (\<lambda>bk. bk\<lparr>bk_term := t\<rparr>)"

definition erase_inst :: "nat \<Rightarrow> nat \<Rightarrow> 'v cfg \<Rightarrow> 'v cfg" where
  "erase_inst l n = change_block l (\<lambda>bk. bk\<lparr>bk_insts := take n (bk_insts bk) @ drop (Suc n) (bk_insts bk)\<rparr>)"

text \<open>A block that only jumps, and a phi as the first of its block: both are new.\<close>

definition add_jump :: "nat \<Rightarrow> 'v cfg \<Rightarrow> 'v cfg \<times> nat" where
  "add_jump l f = (f\<lparr>cf_blocks := cf_blocks f @ [\<lparr>bk_phis = [], bk_insts = [], bk_term = bt_br l\<rparr>]\<rparr>,
    length (cf_blocks f))"

definition add_phi :: "nat \<Rightarrow> (nat \<times> 'v bval) list \<Rightarrow> 'v cfg \<Rightarrow> 'v cfg \<times> nat" where
  "add_phi l ins f =
    ((change_block l (\<lambda>bk. bk\<lparr>bk_phis := (cf_values f, ins) # bk_phis bk\<rparr>) f)\<lparr>cf_values := Suc (cf_values f)\<rparr>,
     cf_values f)"

text \<open>
  The instructions from a position on move to a new block with the end of the block; the phis of
  the successors then name the new block.
\<close>

definition rename_phi :: "nat \<Rightarrow> nat \<Rightarrow> 'v phi \<Rightarrow> 'v phi" where
  "rename_phi l l' ph = (fst ph, map (\<lambda>(k, x). (if k = l then l' else k, x)) (snd ph))"

definition rename_phis :: "nat \<Rightarrow> nat \<Rightarrow> 'v block \<Rightarrow> 'v block" where
  "rename_phis l l' bk = bk\<lparr>bk_phis := map (rename_phi l l') (bk_phis bk)\<rparr>"

definition moved :: "nat \<Rightarrow> nat \<Rightarrow> nat list \<Rightarrow> nat \<Rightarrow> 'v block \<Rightarrow> 'v block" where
  "moved l l' ls m bk = (if m \<in> set ls then rename_phis l l' bk else bk)"

definition split_block :: "'v cfg \<Rightarrow> nat \<Rightarrow> nat \<Rightarrow> 'v cfg \<times> nat" where
  "split_block f l n =
    (let bk = cf_blocks f ! l; l' = length (cf_blocks f);
         bs = (cf_blocks f)[l := bk\<lparr>bk_insts := take n (bk_insts bk), bk_term := bt_br l'\<rparr>];
         rest = \<lparr>bk_phis = [], bk_insts = drop n (bk_insts bk), bk_term = bk_term bk\<rparr>
     in (f\<lparr>cf_blocks := map (\<lambda>m. moved l l' (succs (bk_term bk)) m (bs ! m)) [0..<l'] @ [rest]\<rparr>, l'))"

type_synonym 'v splitter = "'v cfg \<Rightarrow> nat \<Rightarrow> nat \<Rightarrow> 'v cfg \<times> nat"

definition split_ok :: "'v splitter \<Rightarrow> bool" where
  "split_ok split \<longleftrightarrow> (\<forall>f l n. l < length (cf_blocks f) \<and> n \<le> length (bk_insts (cf_blocks f ! l)) \<longrightarrow>
    split f l n = split_block f l n)"

section \<open>Lowering\<close>

text \<open>The block of an instruction and its position there.\<close>

definition find_inst :: "'v cfg \<Rightarrow> nat \<Rightarrow> (nat \<times> nat) outcome" where
  "find_inst f v =
    (case filter (\<lambda>(l, n). inst_dest (bk_insts (cf_blocks f ! l) ! n) = v)
       (concat (map (\<lambda>l. map (Pair l) [0..<length (bk_insts (cf_blocks f ! l))]) [0..<length (cf_blocks f)])) of
       [] \<Rightarrow> Undef | x # _ \<Rightarrow> Ret x)"

definition lower_select :: "'v splitter \<Rightarrow> 'v cfg \<Rightarrow> nat \<Rightarrow> 'v cfg outcome" where
  "lower_select split f v =
    obind (find_inst f v) (\<lambda>(l, n).
      case bk_insts (cf_blocks f ! l) ! n of
        bi_select d c a b \<Rightarrow>
          (let (f1, cont) = split f l n;
               (f2, tru) = add_jump cont f1;
               f3 = set_term l (bt_condbr c tru cont) f2;
               (f4, p) = add_phi cont [(tru, a), (l, b)] f3;
               f5 = replace_all_uses v p f4
           in Ret (erase_inst cont 0 f5))
      | _ \<Rightarrow> Undef)"

text \<open>\<open>tt\<close> and \<open>ff\<close> are the constants of \<open>irb.getTrue\<close> and \<open>irb.getFalse\<close>.\<close>

definition lower_cmp :: "'v splitter \<Rightarrow> (bool \<Rightarrow> 'v) \<Rightarrow> 'v cfg \<Rightarrow> nat \<Rightarrow> 'v cfg outcome" where
  "lower_cmp split boolean f v =
    obind (find_inst f v) (\<lambda>(l, n).
      case bk_insts (cf_blocks f ! l) ! n of
        bi_cmp d k xs \<Rightarrow>
          (let (f1, dst) = split f l (Suc n);
               (f2, tbb) = add_jump dst f1;
               (f3, fbb) = add_jump dst f2;
               (f4, p) = add_phi dst [(tbb, b_const (boolean True)), (fbb, b_const (boolean False))] f3;
               f5 = replace_all_uses v p f4
           in Ret (set_term l (bt_condbr (b_reg v) tbb fbb) f5))
      | _ \<Rightarrow> Undef)"

text \<open>A user of the value that is not a branch.\<close>

fun branch_term :: "'v bterm \<Rightarrow> bool" where
  "branch_term (bt_br l) = True" | "branch_term (bt_condbr c l m) = True" | "branch_term _ = False"

definition nonbranch_uses :: "'v block \<Rightarrow> 'v bval list" where
  "nonbranch_uses bk = concat (map (map snd \<circ> snd) (bk_phis bk)) @ concat (map inst_vals (bk_insts bk)) @
    (if branch_term (bk_term bk) then [] else term_vals (bk_term bk))"

definition nonbr :: "'v cfg \<Rightarrow> nat \<Rightarrow> bool" where
  "nonbr f v = list_ex (\<lambda>bk. \<exists>x \<in> set (nonbranch_uses bk). case x of b_reg u \<Rightarrow> u = v | b_const c \<Rightarrow> False) (cf_blocks f)"

fun lower_selects :: "'v splitter \<Rightarrow> 'v cfg \<Rightarrow> nat list \<Rightarrow> 'v cfg outcome" where
  "lower_selects split f [] = Ret f"
| "lower_selects split f (v # vs) = obind (lower_select split f v) (\<lambda>g. lower_selects split g vs)"

fun lower_cmps :: "'v splitter \<Rightarrow> (bool \<Rightarrow> 'v) \<Rightarrow> 'v cfg \<Rightarrow> nat list \<Rightarrow> 'v cfg outcome" where
  "lower_cmps split boolean f [] = Ret f"
| "lower_cmps split boolean f (v # vs) =
    (if nonbr f v then obind (lower_cmp split boolean f v) (\<lambda>g. lower_cmps split boolean g vs)
     else lower_cmps split boolean f vs)"

text \<open>What the query finds: the instructions of a kind.\<close>

definition block_selects :: "'v block \<Rightarrow> nat list" where
  "block_selects bk = map inst_dest (filter (\<lambda>i. case i of bi_select d c a b \<Rightarrow> True | _ \<Rightarrow> False) (bk_insts bk))"

definition block_cmps :: "'v block \<Rightarrow> nat list" where
  "block_cmps bk = map inst_dest (filter (\<lambda>i. case i of bi_cmp d k xs \<Rightarrow> True | _ \<Rightarrow> False) (bk_insts bk))"

definition selects :: "'v cfg \<Rightarrow> nat list" where
  "selects f = concat (map block_selects (cf_blocks f))"

definition comparisons :: "'v cfg \<Rightarrow> nat list" where
  "comparisons f = concat (map block_cmps (cf_blocks f))"

definition query_ok :: "(nat list \<Rightarrow> nat list) \<Rightarrow> bool" where
  "query_ok query \<longleftrightarrow> (\<forall>xs. mset (query xs) = mset xs)"

text \<open>\<open>run\<close> of the preprocessor on a function that is not tagged yet; a query returns its answers in some order.\<close>

definition preprocess ::
  "'v splitter \<Rightarrow> (bool \<Rightarrow> 'v) \<Rightarrow> (nat list \<Rightarrow> nat list) \<Rightarrow> 'v cfg \<Rightarrow> 'v cfg outcome" where
  "preprocess split boolean query f =
    obind (lower_selects split f (query (selects f))) (\<lambda>g. lower_cmps split boolean g (query (comparisons g)))"

section \<open>The shape of the results\<close>

lemma distinct_concat_nth:
  assumes "distinct (concat xss)" "i < length xss" "i' < length xss" "j < length (xss ! i)" "j' < length (xss ! i')"
    and "xss ! i ! j = xss ! i' ! j'"
  shows "i = i' \<and> j = j'"
  using assms
proof (induction xss arbitrary: i i')
  case (Cons xs xss)
  have disj: "set xs \<inter> set (concat xss) = {}" using Cons.prems(1) by simp
  have mem: "xss ! k ! m \<in> set (concat xss)" if "k < length xss" "m < length (xss ! k)" for k m
    using that by (metis UN_I nth_mem set_concat)
  show ?case
  proof (cases i; cases i')
    fix k k' assume "i = Suc k" "i' = Suc k'"
    then show ?thesis using Cons.IH [of k k'] Cons.prems by simp
  next
    fix k' assume "i = 0" "i' = Suc k'"
    then show ?thesis using Cons.prems mem [of k' j'] disj nth_mem [of j xs] by (auto simp del: set_concat)
  next
    fix k assume k: "i = Suc k" "i' = 0"
    then have "xs ! j' \<in> set (concat xss)" "xs ! j' \<in> set xs"
      using Cons.prems mem [of k j] nth_mem [of j' xs] by (simp_all del: set_concat)
    then show ?thesis using disj by blast
  next
    assume "i = 0" "i' = 0"
    then show ?thesis using Cons.prems nth_eq_iff_index_eq [of xs] by auto
  qed
qed simp

definition inst_at :: "'v cfg \<Rightarrow> nat \<Rightarrow> nat \<Rightarrow> 'v binst \<Rightarrow> bool" where
  "inst_at f l n i \<longleftrightarrow> l < length (cf_blocks f) \<and> n < length (bk_insts (cf_blocks f ! l)) \<and>
    bk_insts (cf_blocks f ! l) ! n = i"

lemma inst_def_once:
  assumes "distinct (concat (map block_defs (cf_blocks f)))" "inst_at f l n i"
    and "m < length (cf_blocks f)" "k < length (block_defs (cf_blocks f ! m))" "block_defs (cf_blocks f ! m) ! k = inst_dest i"
  shows "m = l \<and> k = length (bk_phis (cf_blocks f ! l)) + n"
  using distinct_concat_nth [OF assms(1), of m l k "length (bk_phis (cf_blocks f ! l)) + n"] assms(2-)
  by (auto simp: inst_at_def block_defs_def nth_append)

lemma find_inst_unique:
  assumes "distinct (concat (map block_defs (cf_blocks f)))" "inst_at f l n i"
  shows "find_inst f (inst_dest i) = Ret (l, n)"
proof -
  let ?all = "concat (map (\<lambda>l. map (Pair l) [0..<length (bk_insts (cf_blocks f ! l))]) [0..<length (cf_blocks f)])"
    and ?P = "\<lambda>(l, n). inst_dest (bk_insts (cf_blocks f ! l) ! n) = inst_dest i"
  have one: "(m, k) = (l, n)" if "m < length (cf_blocks f)" "k < length (bk_insts (cf_blocks f ! m))" "?P (m, k)" for m k
  proof -
    have "m = l \<and> length (bk_phis (cf_blocks f ! m)) + k = length (bk_phis (cf_blocks f ! l)) + n"
      by (rule inst_def_once [OF assms]) (use that in \<open>simp_all add: block_defs_def nth_append\<close>)
    then show ?thesis by auto
  qed
  have "(l, n) \<in> set (filter ?P ?all)" using assms(2) by (force simp: inst_at_def)
  moreover have "x = (l, n)" if "x \<in> set (filter ?P ?all)" for x
    using that one [of "fst x" "snd x"] by force
  ultimately have "\<exists>xs. filter ?P ?all = (l, n) # xs" by (cases "filter ?P ?all") (simp, metis list.set_intros(1))
  then show ?thesis by (auto simp: find_inst_def)
qed

text \<open>
  What both passes make of a function: the block of the instruction ends in a branch on \<open>t\<close>, a new
  block goes on after it with the phi for the value, and there are blocks between them.
\<close>

definition lowered :: "'v cfg \<Rightarrow> nat \<Rightarrow> nat \<Rightarrow> 'v binst list \<Rightarrow> 'v bterm \<Rightarrow> (nat \<times> 'v bval) list \<Rightarrow>
    nat \<Rightarrow> nat \<Rightarrow> nat \<Rightarrow> 'v cfg \<Rightarrow> bool" where
  "lowered f l v is1 t ins k n2 p g \<longleftrightarrow>
    (let N = length (cf_blocks f); bk = cf_blocks f ! l in
     cf_entry g = cf_entry f \<and> cf_values f = p \<and> cf_values g = Suc p \<and>
     cf_blocks g = map (\<lambda>m. let b = block_sub v p (moved l N (succs (bk_term bk)) m (cf_blocks f ! m)) in
         if m = l then b\<lparr>bk_insts := map (inst_sub v p) is1, bk_term := t\<rparr> else b) [0..<N] @
       \<lparr>bk_phis = [phi_sub v p (p, ins)], bk_insts = map (inst_sub v p) (drop n2 (bk_insts bk)),
         bk_term = term_sub v p (bk_term bk)\<rparr> #
       replicate k \<lparr>bk_phis = [], bk_insts = [], bk_term = bt_br N\<rparr>)"

lemma map_upt_update: "l < N \<Longrightarrow> (map h [0..<N])[l := y] = map (h(l := y)) [0..<N]"
  by (auto simp: list_eq_iff_nth_eq nth_list_update)

lemma moved_simps [simp]:
  "moved l l' ls m (bk\<lparr>bk_insts := is\<rparr>) = (moved l l' ls m bk)\<lparr>bk_insts := is\<rparr>"
  "moved l l' ls m (bk\<lparr>bk_term := t\<rparr>) = (moved l l' ls m bk)\<lparr>bk_term := t\<rparr>"
  "bk_insts (moved l l' ls m bk) = bk_insts bk" "bk_term (moved l l' ls m bk) = bk_term bk"
  by (simp_all add: moved_def rename_phis_def)

lemma lower_select_shape:
  assumes "split_ok split" "distinct (concat (map block_defs (cf_blocks f)))" "inst_at f l n (bi_select v c a b)"
  obtains g where "lower_select split f v = Ret g"
    and "lowered f l v (take n (bk_insts (cf_blocks f ! l)))
      (bt_condbr (bsub v (cf_values f) c) (Suc (length (cf_blocks f))) (length (cf_blocks f)))
      [(Suc (length (cf_blocks f)), a), (l, b)] 1 (Suc n) (cf_values f) g"
proof -
  have find: "find_inst f v = Ret (l, n)" using find_inst_unique [OF assms(2,3)] by simp
  have l: "l < length (cf_blocks f)" "n < length (bk_insts (cf_blocks f ! l))"
    "bk_insts (cf_blocks f ! l) ! n = bi_select v c a b"
    using assms(3) by (simp_all add: inst_at_def)
  have split: "split f l n = split_block f l n" using assms(1) l by (simp add: split_ok_def)
  show ?thesis
  proof (rule that)
    show "lowered f l v (take n (bk_insts (cf_blocks f ! l)))
      (bt_condbr (bsub v (cf_values f) c) (Suc (length (cf_blocks f))) (length (cf_blocks f)))
      [(Suc (length (cf_blocks f)), a), (l, b)] 1 (Suc n) (cf_values f)
      (case lower_select split f v of Ret g \<Rightarrow> g)"
      using l
      by (auto simp: lowered_def lower_select_def find split split_block_def Let_def add_jump_def set_term_def
          change_block_def add_phi_def replace_all_uses_def erase_inst_def list_update_append nth_append
          map_upt_update block_sub_def phi_sub_def drop_map nth_list_update)
    show "lower_select split f v = Ret (case lower_select split f v of Ret g \<Rightarrow> g)"
      using l by (simp add: lower_select_def find split_beta Let_def)
  qed
qed

lemma lower_cmp_shape:
  assumes "split_ok split" "distinct (concat (map block_defs (cf_blocks f)))" "inst_at f l n (bi_cmp v k xs)"
  obtains g where "lower_cmp split boolean f v = Ret g"
    and "lowered f l v (take (Suc n) (bk_insts (cf_blocks f ! l)))
      (bt_condbr (b_reg v) (Suc (length (cf_blocks f))) (Suc (Suc (length (cf_blocks f)))))
      [(Suc (length (cf_blocks f)), b_const (boolean True)), (Suc (Suc (length (cf_blocks f))), b_const (boolean False))]
      2 (Suc n) (cf_values f) g"
proof -
  have find: "find_inst f v = Ret (l, n)" using find_inst_unique [OF assms(2,3)] by simp
  have l: "l < length (cf_blocks f)" "n < length (bk_insts (cf_blocks f ! l))"
    "bk_insts (cf_blocks f ! l) ! n = bi_cmp v k xs"
    using assms(3) by (simp_all add: inst_at_def)
  have split: "split f l (Suc n) = split_block f l (Suc n)" using assms(1) l by (simp add: split_ok_def)
  show ?thesis
  proof (rule that)
    show "lowered f l v (take (Suc n) (bk_insts (cf_blocks f ! l)))
      (bt_condbr (b_reg v) (Suc (length (cf_blocks f))) (Suc (Suc (length (cf_blocks f)))))
      [(Suc (length (cf_blocks f)), b_const (boolean True)), (Suc (Suc (length (cf_blocks f))), b_const (boolean False))]
      2 (Suc n) (cf_values f) (case lower_cmp split boolean f v of Ret g \<Rightarrow> g)"
      using l
      by (auto simp: lowered_def lower_cmp_def find split split_block_def Let_def add_jump_def set_term_def
          change_block_def add_phi_def replace_all_uses_def list_update_append nth_append
          map_upt_update block_sub_def phi_sub_def drop_map nth_list_update numeral_2_eq_2)
    show "lower_cmp split boolean f v = Ret (case lower_cmp split boolean f v of Ret g \<Rightarrow> g)"
      using l by (simp add: lower_cmp_def find split_beta Let_def)
  qed
qed

section \<open>Values of the lowered function\<close>

text \<open>The phi has the value that the instruction has in the function as it was.\<close>

definition env_rel :: "nat \<Rightarrow> nat \<Rightarrow> 'v env \<Rightarrow> 'v env \<Rightarrow> bool" where
  "env_rel v p e e' \<longleftrightarrow> (\<forall>u. u \<noteq> v \<and> u \<noteq> p \<longrightarrow> e' u = e u) \<and> e' p = e v"

definition state_rel :: "nat \<Rightarrow> nat \<Rightarrow> 'v env \<times> 's \<Rightarrow> 'v env \<times> 's \<Rightarrow> bool" where
  "state_rel v p c d \<longleftrightarrow> env_rel v p (fst c) (fst d) \<and> snd d = snd c"

lemma state_rel_pair [simp]: "state_rel v p (e, s) (e', s') \<longleftrightarrow> env_rel v p e e' \<and> s' = s"
  by (simp add: state_rel_def)

lemma env_rel_upd: "env_rel v p e e' \<Longrightarrow> d \<noteq> v \<Longrightarrow> d \<noteq> p \<Longrightarrow> env_rel v p (e(d \<mapsto> x)) (e'(d \<mapsto> x))"
  by (simp add: env_rel_def)

lemma bget_sub:
  assumes "env_rel v p e e'" "val_below p x"
  shows "bget e' (bsub v p x) = bget e x"
  using assms by (cases x) (auto simp: env_rel_def)

lemma bgets_sub:
  assumes "env_rel v p e e'" "list_all (val_below p) xs"
  shows "bgets e' (map (bsub v p) xs) = bgets e xs"
  using assms(2) by (induction xs) (simp_all add: bget_sub [OF assms(1)])

lemma rel_outcome_refl: "(\<And>x. a = Ret x \<Longrightarrow> R x x) \<Longrightarrow> rel_outcome R a a"
  by (cases a) auto

lemma exec_inst_sub:
  assumes "env_rel v p e e'" "list_all (val_below p) (inst_vals i)" "inst_dest i \<noteq> v" "inst_dest i \<noteq> p"
  shows "rel_outcome (state_rel v p) (exec_inst M i (e, s)) (exec_inst M (inst_sub v p i) (e', s))"
proof (cases i)
  case (bi_select d c a b)
  have "bget e' (if t then bsub v p a else bsub v p b) = bget e (if t then a else b)" for t
    using assms(2) bi_select by (simp add: bget_sub [OF assms(1)])
  then show ?thesis using assms bi_select
    by (auto simp: bget_sub [OF assms(1)] env_rel_upd intro!: rel_outcome_obind [where R = "(=)"] outcome.rel_refl)
next
  case (bi_cmp d k xs)
  then show ?thesis using assms
    by (auto simp: bgets_sub [OF assms(1)] env_rel_upd intro!: rel_outcome_obind [where R = "(=)"] outcome.rel_refl)
next
  case (bi_other d k xs)
  then show ?thesis using assms
    by (auto simp: bgets_sub [OF assms(1)] env_rel_upd intro!: rel_outcome_obind [where R = "(=)"] outcome.rel_refl)
qed

lemma exec_insts_sub:
  assumes "env_rel v p e e'" "list_all (\<lambda>i. list_all (val_below p) (inst_vals i)) is"
    and "v \<notin> inst_dest ` set is" "p \<notin> inst_dest ` set is"
  shows "rel_outcome (state_rel v p) (exec_insts M is (e, s)) (exec_insts M (map (inst_sub v p) is) (e', s))"
  using assms
proof (induction "is" arbitrary: e e' s)
  case (Cons i "is")
  have "rel_outcome (state_rel v p) (exec_inst M i (e, s)) (exec_inst M (inst_sub v p i) (e', s))"
    using Cons.prems by (intro exec_inst_sub) auto
  then show ?case
    using Cons.prems by (auto intro!: rel_outcome_obind Cons.IH)
qed simp

lemma exec_term_sub:
  assumes "env_rel v p e e'" "list_all (val_below p) (term_vals t)"
  shows "exec_term M (term_sub v p t) e' = exec_term M t e"
  using assms(2) by (cases t) (simp_all add: bget_sub [OF assms(1)] bgets_sub [OF assms(1)])

text \<open>Phis, with the block that control comes from renamed or not.\<close>

lemma map_of_sub: "map_of (map (\<lambda>(l, x). (l, bsub v p x)) ins) q = map_option (bsub v p) (map_of ins q)"
  by (induction ins) auto

lemma map_of_renamed:
  assumes "list_all (\<lambda>(k, x). k < (N :: nat)) ins" "q < N"
  shows "map_of (map (\<lambda>(k, x). (if k = l then N else k, x)) ins) (if q = l then N else q) = map_of ins q"
  using assms(1,2) by (induction ins) auto

lemma phi_value_sub:
  assumes "env_rel v p e e'" "list_all (\<lambda>(l, x). l < N \<and> val_below p x) ins" "\<And>k. q = Some k \<Longrightarrow> k < N"
    and "q = Some l \<longrightarrow> renamed"
  shows "phi_value e' (if q = Some l then Some N else q)
      (snd (phi_sub v p ((if renamed then rename_phi l N else id) (d, ins)))) = phi_value e q ins"
proof (cases q)
  case (Some k)
  let ?k = "if k = l then N else k"
    and ?ins = "snd ((if renamed then rename_phi l N else id) (d, ins))"
  have k: "k < N" using assms(3) Some by simp
  have "list_all (\<lambda>(k, x). k < N) ins" using assms(2) by (auto simp: list_all_iff)
  then have "map_of ?ins ?k = map_of ins k"
    using assms(4) Some map_of_renamed [of N ins k l] k by (auto simp: rename_phi_def)
  then have "map_of (snd (phi_sub v p (d', ?ins))) ?k = map_option (bsub v p) (map_of ins k)" for d' :: nat
    by (simp add: phi_sub_def map_of_sub)
  moreover have "bget e' (bsub v p x) = bget e x" if "map_of ins k = Some x" for x
    using assms(2) map_of_SomeD [OF that] by (intro bget_sub [OF assms(1)]) (auto simp: list_all_iff)
  ultimately show ?thesis using Some
    by (auto simp: phi_value_def phi_sub_def map_of_sub rename_phi_def split: option.splits)
qed (simp add: phi_value_def)

lemma enter_sub:
  assumes "env_rel v p e e'" "list_all (phi_ok N p) phis" "\<And>k. q = Some k \<Longrightarrow> k < N" "q = Some l \<longrightarrow> renamed"
    and "v \<notin> fst ` set phis" "p \<notin> fst ` set phis" "env_rel v p e1 e1'"
  shows "rel_outcome (env_rel v p) (enter e q phis e1)
    (enter e' (if q = Some l then Some N else q)
      (map (\<lambda>ph. phi_sub v p ((if renamed then rename_phi l N else id) ph)) phis) e1')"
  using assms(2,5-)
proof (induction phis arbitrary: e1 e1')
  case (Cons ph phis)
  obtain d ins where ph: "ph = (d, ins)" by (cases ph)
  let ?ph = "phi_sub v p ((if renamed then rename_phi l N else id) (d, ins))"
  have d: "fst ?ph = d" by (simp add: phi_sub_def rename_phi_def)
  have "phi_value e' (if q = Some l then Some N else q) (snd ?ph) = phi_value e q ins"
    using Cons.prems(1) ph assms(1,3,4) by (intro phi_value_sub) (auto simp: phi_ok_def)
  then have "enter e' (if q = Some l then Some N else q) (?ph # phis') e1' =
      obind (phi_value e q ins) (\<lambda>x. enter e' (if q = Some l then Some N else q) phis' (e1'(d \<mapsto> x)))" for phis'
    using d by (cases ?ph) simp
  note step = this
  have IH: "rel_outcome (env_rel v p) (enter e q phis (e1(d \<mapsto> x)))
      (enter e' (if q = Some l then Some N else q)
        (map (\<lambda>ph. phi_sub v p ((if renamed then rename_phi l N else id) ph)) phis) (e1'(d \<mapsto> x)))" for x
    using Cons.prems ph by (intro Cons.IH) (auto simp: env_rel_upd simp del: fun_upd_apply)
  show ?case
    unfolding ph list.map enter.simps step
    by (rule rel_outcome_obind [where R = "(=)"]) (simp_all only: IH outcome.rel_refl)
qed simp

text \<open>A block that the instruction is not in.\<close>

lemma run_block_sub:
  assumes "env_rel v p e e'" "block_below N p bk" "v \<notin> set (block_defs bk)" "\<And>k. q = Some k \<Longrightarrow> k < N"
    and "q = Some l \<longrightarrow> m \<in> set ls"
  shows "rel_outcome (rel_sum (=) (\<lambda>(q1, m1, e1, s1) (q2, m2, e2, s2). q1 = Some m \<and> q2 = Some m \<and>
      m1 = m2 \<and> m1 \<in> set (succs (bk_term bk)) \<and> env_rel v p e1 e2 \<and> s1 = s2))
    (run_block M bk (q, m, e, s))
    (run_block M (block_sub v p (moved l N ls m bk)) (if q = Some l then Some N else q, m, e', s))"
proof -
  note b = assms(2) [unfolded block_below_parts]
  have defs: "v \<notin> fst ` set (bk_phis bk)" "v \<notin> inst_dest ` set (bk_insts bk)" "p \<notin> fst ` set (bk_phis bk)"
      "p \<notin> inst_dest ` set (bk_insts bk)"
    using assms(3) b by (auto simp: block_defs_def list_all_iff)
  have phis: "bk_phis (block_sub v p (moved l N ls m bk)) =
      map (\<lambda>ph. phi_sub v p ((if m \<in> set ls then rename_phi l N else id) ph)) (bk_phis bk)"
    by (simp add: block_sub_def moved_def rename_phis_def comp_def)
  have enter: "rel_outcome (env_rel v p) (enter e q (bk_phis bk) e)
      (enter e' (if q = Some l then Some N else q) (bk_phis (block_sub v p (moved l N ls m bk))) e')"
    unfolding phis using b defs assms by (intro enter_sub) (auto simp: phi_ok_def list_all_iff split_beta)
  have insts: "rel_outcome (state_rel v p) (exec_insts M (bk_insts bk) (e1, s))
      (exec_insts M (bk_insts (block_sub v p (moved l N ls m bk))) (e1', s))" if "env_rel v p e1 e1'" for e1 e1'
    using b defs that by (simp add: block_sub_def exec_insts_sub)
  have last: "exec_term M (bk_term (block_sub v p (moved l N ls m bk))) e2' = exec_term M (bk_term bk) e2"
    if "env_rel v p e2 e2'" for e2 e2'
    using b that by (simp add: block_sub_def exec_term_sub)
  have succ: "m' \<in> set (succs t)" if "exec_term M t e2 = Ret (Inr m')" for t e2 m'
    using that by (cases t) (auto simp: obind_eq_Ret omap_eq_Ret Let_def split: if_splits)
  show ?thesis
    unfolding run_block_def prod.case
    by (rule rel_outcome_obind [OF enter], rule rel_outcome_obind [OF insts], assumption,
      auto simp: last split_beta intro!: rel_outcome_obind [where R = "\<lambda>x y. x = y \<and> (\<forall>m'. x = Inr m' \<longrightarrow> m' \<in> set (succs (bk_term bk)))"] rel_outcome_refl dest: succ split: sum.split)
qed

section \<open>Running the lowered function\<close>

lemma exec_insts_append: "exec_insts M (is @ js) c = obind (exec_insts M is c) (exec_insts M js)"
proof (induction "is" arbitrary: c)
  case (Cons i "is")
  then have "exec_insts M (is @ js) = (\<lambda>c. obind (exec_insts M is c) (exec_insts M js))" by (simp add: fun_eq_iff)
  then show ?case by (simp add: obind_assoc)
qed simp

definition config_rel :: "'v cfg \<Rightarrow> nat \<Rightarrow> nat \<Rightarrow> nat \<Rightarrow> ('v, 's) config \<Rightarrow> ('v, 's) config \<Rightarrow> bool" where
  "config_rel f l v p c d \<longleftrightarrow>
    (case (c, d) of ((q, m, e, s), (q', m', e', s')) \<Rightarrow>
      q' = (if q = Some l then Some (length (cf_blocks f)) else q) \<and> m' = m \<and> s' = s \<and> env_rel v p e e' \<and>
      m < length (cf_blocks f) \<and> (\<forall>k. q = Some k \<longrightarrow> k < length (cf_blocks f)) \<and>
      (q = Some l \<longrightarrow> m \<in> set (succs (bk_term (cf_blocks f ! l)))))"

lemma lowered_block:
  assumes "lowered f l v is1 t ins k n2 p g" "m < length (cf_blocks f)"
  shows "block_at g m = Some (let b = block_sub v p (moved l (length (cf_blocks f)) (succs (bk_term (cf_blocks f ! l))) m
      (cf_blocks f ! m)) in if m = l then b\<lparr>bk_insts := map (inst_sub v p) is1, bk_term := t\<rparr> else b)"
  using assms by (simp add: lowered_def block_at_def Let_def nth_append)

lemma lowered_rest:
  assumes "lowered f l v is1 t ins k n2 p g"
  shows "block_at g (length (cf_blocks f)) = Some \<lparr>bk_phis = [phi_sub v p (p, ins)],
      bk_insts = map (inst_sub v p) (drop n2 (bk_insts (cf_blocks f ! l))),
      bk_term = term_sub v p (bk_term (cf_blocks f ! l))\<rparr>"
  using assms by (simp add: lowered_def block_at_def Let_def nth_append)

lemma lowered_jump:
  assumes "lowered f l v is1 t ins k n2 p g" "j < k"
  shows "block_at g (Suc (length (cf_blocks f) + j)) =
    Some \<lparr>bk_phis = [], bk_insts = [], bk_term = bt_br (length (cf_blocks f))\<rparr>"
  using assms by (simp add: lowered_def block_at_def Let_def nth_append)

lemma step_moved:
  assumes block: "block_at g m = Some (block_sub v p (moved l (length (cf_blocks f)) (succs (bk_term (cf_blocks f ! l))) m
      (cf_blocks f ! m)))"
    and rel: "config_rel f l v p (q, m, e, s) d" and m: "m \<noteq> l"
    and below: "list_all (block_below (length (cf_blocks f)) p) (cf_blocks f)"
    and v: "v \<notin> set (block_defs (cf_blocks f ! m))"
  shows "rel_outcome (rel_sum (=) (config_rel f l v p)) (step M f (q, m, e, s)) (steps M g 1 d)"
proof -
  let ?N = "length (cf_blocks f)" and ?bk = "cf_blocks f ! m"
  obtain e' where d: "d = (if q = Some l then Some ?N else q, m, e', s)" "env_rel v p e e'"
    using rel by (cases d) (auto simp: config_rel_def)
  have mN: "m < ?N" using rel by (simp add: config_rel_def split: prod.splits)
  have bk: "block_below ?N p ?bk" using below mN by (simp add: list_all_length)
  then have succ: "x < ?N" if "x \<in> set (succs (bk_term ?bk))" for x
    using that by (auto simp: block_below_parts list_all_iff)
  have "rel_outcome (rel_sum (=) (\<lambda>(q1, m1, e1, s1) (q2, m2, e2, s2). q1 = Some m \<and> q2 = Some m \<and>
      m1 = m2 \<and> m1 \<in> set (succs (bk_term ?bk)) \<and> env_rel v p e1 e2 \<and> s1 = s2))
    (run_block M ?bk (q, m, e, s)) (run_block M (block_sub v p (moved l ?N (succs (bk_term (cf_blocks f ! l))) m ?bk)) d)"
    unfolding d(1) using rel by (intro run_block_sub [OF d(2) bk v]) (auto simp: config_rel_def split: prod.splits)
  then have "rel_outcome (rel_sum (=) (config_rel f l v p)) (run_block M ?bk (q, m, e, s))
      (run_block M (block_sub v p (moved l ?N (succs (bk_term (cf_blocks f ! l))) m ?bk)) d)"
    by (rule outcome.rel_mono_strong) (auto elim!: sum.rel_mono_strong simp: config_rel_def m succ mN)
  moreover have "steps M g 1 d = step M g d"
    by (cases "step M g d") (auto split: sum.split)
  ultimately show ?thesis
    using mN m block d(1) by (simp add: step_def block_at_def Let_def)
qed

lemma step_other:
  assumes low: "lowered f l v is1 t ins k n2 p g" and rel: "config_rel f l v p (q, m, e, s) d" and m: "m \<noteq> l"
    and below: "list_all (block_below (length (cf_blocks f)) p) (cf_blocks f)"
    and v: "v \<notin> set (block_defs (cf_blocks f ! m))"
  shows "rel_outcome (rel_sum (=) (config_rel f l v p)) (step M f (q, m, e, s)) (steps M g 1 d)"
proof (rule step_moved [OF _ rel m below v])
  have "m < length (cf_blocks f)" using rel by (simp add: config_rel_def split: prod.splits)
  then show "block_at g m = Some (block_sub v p (moved l (length (cf_blocks f)) (succs (bk_term (cf_blocks f ! l))) m
      (cf_blocks f ! m)))"
    using lowered_block [OF low] m by (simp add: Let_def)
qed

text \<open>A block is its phis with the instructions up to a position, the rest of them, and its end.\<close>

definition head_of :: "('v, 's) sem \<Rightarrow> 'v block \<Rightarrow> 'v binst list \<Rightarrow> nat option \<Rightarrow> 'v env \<Rightarrow> 's \<Rightarrow> ('v env \<times> 's) outcome" where
  "head_of M bk is q e s = obind (enter e q (bk_phis bk) e) (\<lambda>e1. exec_insts M is (e1, s))"

definition finish :: "('v, 's) sem \<Rightarrow> nat \<Rightarrow> 'v binst list \<Rightarrow> 'v bterm \<Rightarrow> 'v env \<times> 's \<Rightarrow>
    ('v list \<times> 's + ('v, 's) config) outcome" where
  "finish M m is t c = obind (exec_insts M is c) (\<lambda>(e2, s2). obind (exec_term M t e2) (\<lambda>t.
      Ret (case t of Inl rs \<Rightarrow> Inl (rs, s2) | Inr m' \<Rightarrow> Inr (Some m, m', e2, s2))))"

lemma run_block_head:
  assumes "bk_insts bk = is @ js"
  shows "run_block M bk (q, m, e, s) = obind (head_of M bk is q e s) (finish M m js (bk_term bk))"
proof -
  have "finish M m js (bk_term bk) = (\<lambda>c. finish M m js (bk_term bk) c)" by simp
  then show ?thesis
    by (simp add: run_block_def head_of_def finish_def assms exec_insts_append obind_assoc cong: )
qed

lemma finish_Cons: "finish M m (i # is) t c = obind (exec_inst M i c) (finish M m is t)"
  by (cases "exec_inst M i c") (simp_all add: finish_def)

lemma block_below_fresh:
  assumes "block_below N p bk"
  shows "p \<notin> fst ` set (bk_phis bk)" "i \<in> set (bk_insts bk) \<Longrightarrow> inst_dest i \<noteq> p"
proof -
  have "d < p" if "d \<in> set (block_defs bk)" for d
    using assms that by (simp add: block_below_parts list_all_iff)
  then show "p \<notin> fst ` set (bk_phis bk)" "i \<in> set (bk_insts bk) \<Longrightarrow> inst_dest i \<noteq> p"
    unfolding block_defs_def by force+
qed

lemma head_sub:
  assumes "env_rel v p e e'" "block_below N p bk" "set is \<subseteq> set (bk_insts bk)" "v \<notin> fst ` set (bk_phis bk)"
    and "v \<notin> inst_dest ` set is" "\<And>k. q = Some k \<Longrightarrow> k < N" "q = Some l \<longrightarrow> m \<in> set ls"
  shows "rel_outcome (state_rel v p) (head_of M bk is q e s)
    (head_of M (block_sub v p (moved l N ls m bk)) (map (inst_sub v p) is) (if q = Some l then Some N else q) e' s)"
proof -
  note b = assms(2) [unfolded block_below_parts]
  have defs: "p \<notin> fst ` set (bk_phis bk)" "p \<notin> inst_dest ` set is"
    using block_below_fresh [OF assms(2)] assms(3) by blast+
  have phis: "bk_phis (block_sub v p (moved l N ls m bk)) =
      map (\<lambda>ph. phi_sub v p ((if m \<in> set ls then rename_phi l N else id) ph)) (bk_phis bk)"
    by (simp add: block_sub_def moved_def rename_phis_def comp_def)
  have "rel_outcome (env_rel v p) (enter e q (bk_phis bk) e)
      (enter e' (if q = Some l then Some N else q) (bk_phis (block_sub v p (moved l N ls m bk))) e')"
    unfolding phis using b defs assms by (intro enter_sub) (auto simp: phi_ok_def list_all_iff split_beta)
  moreover have "rel_outcome (state_rel v p) (exec_insts M is (e1, s)) (exec_insts M (map (inst_sub v p) is) (e1', s))"
    if "env_rel v p e1 e1'" for e1 e1'
    using b defs assms(3,5) by (intro exec_insts_sub that) (auto simp: list_all_iff)
  ultimately show ?thesis unfolding head_of_def by (rule rel_outcome_obind)
qed

lemma exec_term_succ: "exec_term M t e = Ret (Inr m) \<Longrightarrow> m \<in> set (succs t)"
  by (cases t) (auto simp: obind_eq_Ret omap_eq_Ret Let_def split: if_splits)

lemma finish_sub:
  fixes M :: "('v, 's) sem" and s :: 's
  assumes below: "block_below (length (cf_blocks f)) p (cf_blocks f ! l)" and l: "l < length (cf_blocks f)"
    and v: "v \<notin> inst_dest ` set (drop n (bk_insts (cf_blocks f ! l)))" and r: "env_rel v p e e'"
  shows "rel_outcome (rel_sum (=) (config_rel f l v p))
    (finish M l (drop n (bk_insts (cf_blocks f ! l))) (bk_term (cf_blocks f ! l)) (e, s))
    (finish M (length (cf_blocks f)) (map (inst_sub v p) (drop n (bk_insts (cf_blocks f ! l))))
      (term_sub v p (bk_term (cf_blocks f ! l))) (e', s))"
proof -
  let ?N = "length (cf_blocks f)" and ?bk = "cf_blocks f ! l"
  let ?is = "drop n (bk_insts ?bk)"
  note b = below [unfolded block_below_parts]
  have vals: "list_all (\<lambda>i. list_all (val_below p) (inst_vals i)) ?is" "p \<notin> inst_dest ` set ?is"
    using b block_below_fresh [OF below] by (auto simp: list_all_iff dest!: in_set_dropD)
  have "rel_outcome (state_rel v p) (exec_insts M ?is (e, s)) (exec_insts M (map (inst_sub v p) ?is) (e', s))"
    using vals v r by (intro exec_insts_sub)
  then show ?thesis unfolding finish_def
  proof (rule rel_outcome_obind, clarify)
    fix e2 e2' :: "'v env" and s2 s2' :: 's
    assume "state_rel v p (e2, s2) (e2', s2')"
    then have r: "env_rel v p e2 e2'" "s2' = s2" by simp_all
    then have t: "exec_term M (term_sub v p (bk_term ?bk)) e2' = exec_term M (bk_term ?bk) e2"
      using b by (intro exec_term_sub) auto
    have "m < ?N" if "m \<in> set (succs (bk_term ?bk))" for m
      using that b by (auto simp: list_all_iff)
    then show "rel_outcome (rel_sum (=) (config_rel f l v p))
        (obind (exec_term M (bk_term ?bk) e2) (\<lambda>t. Ret (case t of Inl rs \<Rightarrow> Inl (rs, s2) | Inr m' \<Rightarrow> Inr (Some l, m', e2, s2))))
        (obind (exec_term M (term_sub v p (bk_term ?bk)) e2') (\<lambda>t. Ret (case t of Inl rs \<Rightarrow> Inl (rs, s2') | Inr m' \<Rightarrow> Inr (Some ?N, m', e2', s2'))))"
      unfolding t using r l
      by (cases "exec_term M (bk_term ?bk) e2") (auto simp: config_rel_def dest: exec_term_succ split: sum.split)
  qed
qed

lemma cont_step:
  fixes M :: "('v, 's) sem" and s :: 's
  assumes low: "lowered f l v is1 t ins k n2 p g" and below: "block_below (length (cf_blocks f)) p (cf_blocks f ! l)"
    and l: "l < length (cf_blocks f)" and v: "v \<notin> inst_dest ` set (drop n2 (bk_insts (cf_blocks f ! l)))"
    and agree: "\<forall>u. u \<noteq> v \<and> u \<noteq> p \<longrightarrow> e' u = e u" and x: "map_of ins j = Some x"
  shows "rel_outcome (rel_sum (=) (config_rel f l v p))
    (obind (bget e' (bsub v p x)) (\<lambda>y. finish M l (drop n2 (bk_insts (cf_blocks f ! l))) (bk_term (cf_blocks f ! l)) (e(v \<mapsto> y), s)))
    (step M g (Some j, length (cf_blocks f), e', s))"
proof -
  let ?N = "length (cf_blocks f)" and ?bk = "cf_blocks f ! l"
  let ?is = "drop n2 (bk_insts ?bk)"
  have phi: "phi_value e' (Some j) (snd (phi_sub v p (p, ins))) = bget e' (bsub v p x)"
    using x by (simp add: phi_value_def phi_sub_def map_of_sub)
  have step: "step M g (Some j, ?N, e', s) =
      obind (bget e' (bsub v p x)) (\<lambda>y. finish M ?N (map (inst_sub v p) ?is) (term_sub v p (bk_term ?bk)) (e'(p \<mapsto> y), s))"
    using phi by (cases "phi_sub v p (p, ins)")
      (simp add: step_def lowered_rest [OF low] run_block_def finish_def obind_assoc phi_sub_def)
  have fin: "rel_outcome (rel_sum (=) (config_rel f l v p)) (finish M l ?is (bk_term ?bk) (e(v \<mapsto> y), s))
      (finish M ?N (map (inst_sub v p) ?is) (term_sub v p (bk_term ?bk)) (e'(p \<mapsto> y), s))" for y
    using finish_sub [OF below l v, where e = "e(v \<mapsto> y)" and e' = "e'(p \<mapsto> y)"] agree by (simp add: env_rel_def)
  show ?thesis unfolding step by (rule rel_outcome_obind [where R = "(=)"]) (simp_all add: fin outcome.rel_refl)
qed

lemma distinct_place:
  assumes "distinct (concat (map block_defs (cf_blocks f)))" "inst_at f l n i"
  shows "m < length (cf_blocks f) \<Longrightarrow> m \<noteq> l \<Longrightarrow> inst_dest i \<notin> set (block_defs (cf_blocks f ! m))"
    and "inst_dest i \<notin> fst ` set (bk_phis (cf_blocks f ! l))"
    and "inst_dest i \<notin> inst_dest ` set (take n (bk_insts (cf_blocks f ! l)))"
    and "inst_dest i \<notin> inst_dest ` set (drop (Suc n) (bk_insts (cf_blocks f ! l)))"
proof -
  have i: "l < length (cf_blocks f)" "n < length (bk_insts (cf_blocks f ! l))"
    "bk_insts (cf_blocks f ! l) ! n = i" using assms(2) by (simp_all add: inst_at_def)
  show "inst_dest i \<notin> set (block_defs (cf_blocks f ! m))" if "m < length (cf_blocks f)" "m \<noteq> l"
    using inst_def_once [OF assms that(1)] that(2) by (auto simp: in_set_conv_nth)
  have "distinct (block_defs (cf_blocks f ! l))"
    using assms(1) i(1) by (auto simp: distinct_concat_iff)
  moreover have "block_defs (cf_blocks f ! l) = map fst (bk_phis (cf_blocks f ! l)) @
      map inst_dest (take n (bk_insts (cf_blocks f ! l))) @ inst_dest i # map inst_dest (drop (Suc n) (bk_insts (cf_blocks f ! l)))"
    using id_take_nth_drop [OF i(2)] i(3) by (simp add: block_defs_def) (metis list.simps(9) map_append)
  ultimately have d: "distinct (map fst (bk_phis (cf_blocks f ! l)) @
      map inst_dest (take n (bk_insts (cf_blocks f ! l))) @ inst_dest i # map inst_dest (drop (Suc n) (bk_insts (cf_blocks f ! l))))"
    by simp
  show "inst_dest i \<notin> fst ` set (bk_phis (cf_blocks f ! l))"
    "inst_dest i \<notin> inst_dest ` set (take n (bk_insts (cf_blocks f ! l)))"
    "inst_dest i \<notin> inst_dest ` set (drop (Suc n) (bk_insts (cf_blocks f ! l)))"
    using d by auto
qed

lemma steps_once: "steps M g 1 d = step M g d"
  by (cases "step M g d") (auto split: sum.split)

lemma steps_Suc_next: "step M g d = Ret (Inr d') \<Longrightarrow> steps M g (Suc k) d = steps M g k d'"
  by simp

lemma rel_outcome_cases:
  assumes "rel_outcome R a b"
  obtains x y where "a = Ret x" "b = Ret y" "R x y" | "a = Cancel" "b = Cancel" | m where "a = Fault m" "b = Fault m"
    | "a = Undef" "b = Undef"
  using assms by (cases a; cases b) auto

text \<open>The block of the instruction up to the new branch.\<close>

lemma step_head:
  assumes low: "lowered f l v is1 t ins k n2 p g" and l: "l < length (cf_blocks f)"
  shows "step M g (q, l, e', s) = obind (head_of M (block_sub v p (moved l (length (cf_blocks f))
      (succs (bk_term (cf_blocks f ! l))) l (cf_blocks f ! l))) (map (inst_sub v p) is1) q e' s)
    (\<lambda>(e2, s2). obind (exec_term M t e2) (\<lambda>t. Ret (case t of Inl rs \<Rightarrow> Inl (rs, s2) | Inr m' \<Rightarrow> Inr (Some l, m', e2, s2))))"
  by (simp add: step_def lowered_block [OF low l] Let_def run_block_def head_of_def obind_assoc)

lemma step_block:
  assumes "l < length (cf_blocks f)" "bk_insts (cf_blocks f ! l) = is @ js"
  shows "step M f (q, l, e, s) = obind (head_of M (cf_blocks f ! l) is q e s) (finish M l js (bk_term (cf_blocks f ! l)))"
  using assms by (simp add: step_def block_at_def run_block_head)

lemma select_step:
  assumes low: "lowered f l v (take n (bk_insts (cf_blocks f ! l)))
      (bt_condbr (bsub v p c) (Suc (length (cf_blocks f))) (length (cf_blocks f)))
      [(Suc (length (cf_blocks f)), a), (l, b)] 1 (Suc n) p g"
    and d: "distinct (concat (map block_defs (cf_blocks f)))" and at: "inst_at f l n (bi_select v c a b)"
    and below: "list_all (block_below (length (cf_blocks f)) p) (cf_blocks f)"
    and rel: "config_rel f l v p (q, l, e, s) d"
  shows "\<exists>j. rel_outcome (rel_sum (=) (config_rel f l v p)) (step M f (q, l, e, s)) (steps M g (Suc j) d)"
proof -
  let ?N = "length (cf_blocks f)" and ?bk = "cf_blocks f ! l"
  let ?bk' = "block_sub v p (moved l ?N (succs (bk_term ?bk)) l ?bk)" and ?is = "take n (bk_insts ?bk)"
  have l: "l < ?N" "n < length (bk_insts ?bk)" "bk_insts ?bk ! n = bi_select v c a b"
    using at by (simp_all add: inst_at_def)
  have insts: "bk_insts ?bk = ?is @ bi_select v c a b # drop (Suc n) (bk_insts ?bk)"
    using id_take_nth_drop [OF l(2)] l(3) by simp
  have bk: "block_below ?N p ?bk" using below l(1) by (simp add: list_all_length)
  have sel: "val_below p c" "val_below p a" "val_below p b"
    using bk nth_mem [OF l(2)] l(3) by (force simp: block_below_parts list_all_iff)+
  note once = distinct_place [OF d at, simplified]
  obtain e' where dd: "d = (if q = Some l then Some ?N else q, l, e', s)" "env_rel v p e e'"
    using rel by (cases d) (auto simp: config_rel_def)
  let ?q = "if q = Some l then Some ?N else q"
  have head: "rel_outcome (state_rel v p) (head_of M ?bk ?is q e s) (head_of M ?bk' (map (inst_sub v p) ?is) ?q e' s)"
    using once rel by (intro head_sub [OF dd(2) bk]) (auto simp: config_rel_def dest: in_set_takeD split: prod.splits)
  from head show ?thesis
  proof (cases rule: rel_outcome_cases)
    case (1 x y)
    obtain e2 s2 e2' where x: "x = (e2, s2)" and y: "y = (e2', s2)" and r: "env_rel v p e2 e2'"
      using 1(3) by (cases x; cases y) auto
    have f: "step M f (q, l, e, s) = obind (bget e2 c) (\<lambda>z. obind (bget e2 (if sem_truth M z then a else b))
        (\<lambda>y. finish M l (drop (Suc n) (bk_insts ?bk)) (bk_term ?bk) (e2(v \<mapsto> y), s2)))"
      using step_block [OF l(1) insts, of M q e s] 1(1) x by (simp add: finish_Cons obind_assoc)
    have g: "step M g d = obind (bget e2 c) (\<lambda>z. Ret (Inr (Some l, if sem_truth M z then Suc ?N else ?N, e2', s2)))"
      using step_head [OF low l(1), of M ?q e' s] 1(2) y dd(1) by (simp add: obind_assoc bget_sub [OF r sel(1)])
    show ?thesis
    proof (cases "bget e2 c")
      case (Ret z)
      have agree: "\<forall>u. u \<noteq> v \<and> u \<noteq> p \<longrightarrow> e2' u = e2 u" using r by (simp add: env_rel_def)
      note cont = cont_step [OF low bk l(1) once(4) agree]
      show ?thesis
      proof (cases "sem_truth M z")
        case True
        have "step M g (Some l, Suc ?N, e2', s2) = Ret (Inr (Some (Suc ?N), ?N, e2', s2))"
          using lowered_jump [OF low, where j = 0] by (simp add: step_def run_block_def)
        then have "steps M g 3 d = step M g (Some (Suc ?N), ?N, e2', s2)"
          using g Ret True steps_once [of M g] by (simp add: numeral_3_eq_3)
        moreover have "rel_outcome (rel_sum (=) (config_rel f l v p)) (step M f (q, l, e, s))
            (step M g (Some (Suc ?N), ?N, e2', s2))"
          using cont [where j = "Suc ?N" and x = a and s = s2] f Ret True bget_sub [OF r sel(2)] by simp
        ultimately show ?thesis by (metis numeral_3_eq_3)
      next
        case False
        then have "steps M g 2 d = step M g (Some l, ?N, e2', s2)"
          using g Ret steps_once [of M g] by (simp add: numeral_2_eq_2)
        moreover have "rel_outcome (rel_sum (=) (config_rel f l v p)) (step M f (q, l, e, s))
            (step M g (Some l, ?N, e2', s2))"
          using cont [where j = l and x = b and s = s2] f Ret False bget_sub [OF r sel(3)] l(1) by simp
        ultimately show ?thesis by (metis numeral_2_eq_2)
      qed
    qed (use f g steps_once [of M g d] in \<open>auto intro!: exI [of _ 0]\<close>)
  qed (use step_block [OF l(1) insts, of M q e s] step_head [OF low l(1), of M ?q e' s] dd(1) in \<open>auto intro!: exI [of _ 0]\<close>)
qed

lemma head_of_append: "head_of M bk (is @ js) q e s = obind (head_of M bk is q e s) (exec_insts M js)"
proof -
  have "exec_insts M (is @ js) = (\<lambda>c. obind (exec_insts M is c) (exec_insts M js))"
    by (simp add: fun_eq_iff exec_insts_append)
  then show ?thesis by (simp add: head_of_def obind_assoc)
qed

definition sem_ok :: "('v, 's) sem \<Rightarrow> bool" where
  "sem_ok M \<longleftrightarrow> sem_truth M (sem_bool M True) \<and> \<not> sem_truth M (sem_bool M False)"

lemma cmp_step:
  assumes low: "lowered f l v (take (Suc n) (bk_insts (cf_blocks f ! l)))
      (bt_condbr (b_reg v) (Suc (length (cf_blocks f))) (Suc (Suc (length (cf_blocks f)))))
      [(Suc (length (cf_blocks f)), b_const (sem_bool M True)), (Suc (Suc (length (cf_blocks f))), b_const (sem_bool M False))]
      2 (Suc n) p g"
    and d: "distinct (concat (map block_defs (cf_blocks f)))" and at: "inst_at f l n (bi_cmp v k xs)"
    and below: "list_all (block_below (length (cf_blocks f)) p) (cf_blocks f)" and M: "sem_ok M"
    and rel: "config_rel f l v p (q, l, e, s) d"
  shows "\<exists>j. rel_outcome (rel_sum (=) (config_rel f l v p)) (step M f (q, l, e, s)) (steps M g (Suc j) d)"
proof -
  let ?N = "length (cf_blocks f)" and ?bk = "cf_blocks f ! l"
  let ?bk' = "block_sub v p (moved l ?N (succs (bk_term ?bk)) l ?bk)" and ?is = "take n (bk_insts ?bk)"
    and ?rest = "drop (Suc n) (bk_insts ?bk)"
  have l: "l < ?N" "n < length (bk_insts ?bk)" "bk_insts ?bk ! n = bi_cmp v k xs"
    using at by (simp_all add: inst_at_def)
  have insts: "bk_insts ?bk = ?is @ bi_cmp v k xs # ?rest"
    using id_take_nth_drop [OF l(2)] l(3) by simp
  have is1: "map (inst_sub v p) (take (Suc n) (bk_insts ?bk)) = map (inst_sub v p) ?is @ [bi_cmp v k (map (bsub v p) xs)]"
    using l by (simp add: take_Suc_conv_app_nth)
  have bk: "block_below ?N p ?bk" using below l(1) by (simp add: list_all_length)
  have xs: "list_all (val_below p) xs"
    using bk nth_mem [OF l(2)] l(3) by (force simp: block_below_parts list_all_iff)
  have truth: "sem_truth M (sem_bool M b) = b" for b using M by (cases b) (simp_all add: sem_ok_def)
  note once = distinct_place [OF d at, simplified]
  obtain e' where dd: "d = (if q = Some l then Some ?N else q, l, e', s)" "env_rel v p e e'"
    using rel by (cases d) (auto simp: config_rel_def)
  let ?q = "if q = Some l then Some ?N else q"
  have head: "rel_outcome (state_rel v p) (head_of M ?bk ?is q e s) (head_of M ?bk' (map (inst_sub v p) ?is) ?q e' s)"
    using once rel by (intro head_sub [OF dd(2) bk]) (auto simp: config_rel_def dest: in_set_takeD split: prod.splits)
  from head show ?thesis
  proof (cases rule: rel_outcome_cases)
    case (1 x y)
    obtain e2 s2 e2' where x: "x = (e2, s2)" and y: "y = (e2', s2)" and r: "env_rel v p e2 e2'"
      using 1(3) by (cases x; cases y) auto
    have f: "step M f (q, l, e, s) = obind (bgets e2 xs) (\<lambda>ys. obind (sem_cmp M k ys)
        (\<lambda>b. finish M l ?rest (bk_term ?bk) (e2(v \<mapsto> sem_bool M b), s2)))"
      using step_block [OF l(1) insts, of M q e s] 1(1) x by (simp add: finish_Cons obind_assoc)
    have g: "step M g d = obind (bgets e2 xs) (\<lambda>ys. obind (sem_cmp M k ys)
        (\<lambda>b. Ret (Inr (Some l, if b then Suc ?N else Suc (Suc ?N), e2'(v \<mapsto> sem_bool M b), s2))))"
      using step_head [OF low l(1), of M ?q e' s, unfolded is1 head_of_append] 1(2) y dd(1) truth
      by (simp add: obind_assoc bgets_sub [OF r xs])
    show ?thesis
    proof (cases "obind (bgets e2 xs) (sem_cmp M k)")
      case (Ret b)
      let ?e = "e2'(v \<mapsto> sem_bool M b)" and ?m = "if b then Suc ?N else Suc (Suc ?N)"
      obtain ys where ys: "bgets e2 xs = Ret ys" "sem_cmp M k ys = Ret b"
        using Ret by (auto simp: obind_eq_Ret)
      have agree: "\<forall>u. u \<noteq> v \<and> u \<noteq> p \<longrightarrow> ?e u = e2 u" using r by (simp add: env_rel_def)
      have "step M g (Some l, ?m, ?e, s2) = Ret (Inr (Some ?m, ?N, ?e, s2))"
        using lowered_jump [OF low, where j = 0] lowered_jump [OF low, where j = 1]
        by (simp add: step_def run_block_def)
      then have "steps M g 3 d = step M g (Some ?m, ?N, ?e, s2)"
        using g ys steps_once [of M g] by (simp add: numeral_3_eq_3 del: fun_upd_apply)
      moreover have "map_of [(Suc ?N, b_const (sem_bool M True)), (Suc (Suc ?N), b_const (sem_bool M False))] ?m =
          Some (b_const (sem_bool M b))" by (cases b) simp_all
      from cont_step [OF low bk l(1) once(4) agree this, where s = s2 and M = M]
      have "rel_outcome (rel_sum (=) (config_rel f l v p)) (step M f (q, l, e, s))
          (step M g (Some ?m, ?N, ?e, s2))"
        using f ys by (simp del: fun_upd_apply)
      ultimately show ?thesis by (metis numeral_3_eq_3)
    qed (use f g steps_once [of M g d] in \<open>cases "bgets e2 xs"; auto intro!: exI [of _ 0]\<close>)+
  qed (use step_block [OF l(1) insts, of M q e s] step_head [OF low l(1), of M ?q e' s, unfolded is1 head_of_append] dd(1)
      in \<open>auto intro!: exI [of _ 0]\<close>)
qed

lemma all_defs_mset: "all_defs f = mset (concat (map block_defs (cf_blocks f)))"
  by (simp add: all_defs_def mset_concat comp_def)

lemma lowered_results:
  fixes M :: "('v, 's) sem" and f g :: "'v cfg"
  assumes low: "lowered f l v is1 t ins k n2 p g" and d: "distinct (concat (map block_defs (cf_blocks f)))"
    and at: "inst_at f l n i" "inst_dest i = v" and ok: "cfg_ok f"
    and at_l: "\<And>q e s d. config_rel f l v p (q, l, e, s) d \<Longrightarrow>
      \<exists>j. rel_outcome (rel_sum (=) (config_rel f l v p)) (step M f (q, l, e, s)) (steps M g (Suc j) d)"
  shows "same_results M f g"
  unfolding same_results_def
proof (intro allI impI)
  fix e :: "'v env" and s :: 's and r
  assume e: "args_only f e"
  have p: "p = cf_values f" "cf_entry g = cf_entry f" using low by (simp_all add: lowered_def Let_def)
  have below: "list_all (block_below (length (cf_blocks f)) p) (cf_blocks f)" using ok p by (simp add: cfg_ok_def)
  have "v \<in> set (block_defs (cf_blocks f ! l))" "l < length (cf_blocks f)"
    using at by (auto simp: inst_at_def block_defs_def)
  then have "v \<in># all_defs f" by (auto simp: all_defs_mset intro!: bexI [of _ "cf_blocks f ! l"])
  then have "e v = None" "e p = None" using e p by (simp_all add: args_only_def)
  then have start: "config_rel f l v p (start f e s) (start g e s)"
    using p ok by (simp add: config_rel_def start_def env_rel_def cfg_ok_def)
  show "ends_with M f (start f e s) r = ends_with M g (start g e s) r"
  proof (rule simulation_results [where R = "config_rel f l v p", OF _ start])
    fix c d :: "('v, 's) config"
    assume rel: "config_rel f l v p c d"
    obtain q m e s where c: "c = (q, m, e, s)" by (cases c)
    show "\<exists>j. rel_outcome (rel_sum (=) (config_rel f l v p)) (step M f c) (steps M g (Suc j) d)"
    proof (cases "m = l")
      case True
      then show ?thesis using at_l rel c by simp
    next
      case False
      have "m < length (cf_blocks f)" using rel c by (simp add: config_rel_def split: prod.splits)
      then have "v \<notin> set (block_defs (cf_blocks f ! m))" using distinct_place(1) [OF d at(1)] at(2) False by simp
      from step_other [OF low rel [unfolded c] False below this] c show ?thesis
        by (metis One_nat_def)
    qed
  qed
qed

section \<open>What stays well formed\<close>

text \<open>Counting what blocks define or contain, by phis and by instructions.\<close>

definition count_block :: "(nat \<Rightarrow> nat multiset) \<Rightarrow> ('v binst \<Rightarrow> nat multiset) \<Rightarrow> 'v block \<Rightarrow> nat multiset" where
  "count_block a b bk = sum_list (map (\<lambda>ph. a (fst ph)) (bk_phis bk)) + sum_list (map b (bk_insts bk))"

definition count_cfg :: "(nat \<Rightarrow> nat multiset) \<Rightarrow> ('v binst \<Rightarrow> nat multiset) \<Rightarrow> 'v cfg \<Rightarrow> nat multiset" where
  "count_cfg a b f = sum_list (map (count_block a b) (cf_blocks f))"

lemma count_sub:
  assumes "\<And>i. b (inst_sub v p i) = b i"
  shows "count_block a b (block_sub v p (moved l N ls m bk)) = count_block a b bk"
proof -
  have "map (\<lambda>ph. a (fst ph)) (bk_phis (block_sub v p (moved l N ls m bk))) = map (\<lambda>ph. a (fst ph)) (bk_phis bk)"
    by (simp add: block_sub_def moved_def rename_phis_def phi_sub_def rename_phi_def comp_def)
  moreover have "map b (bk_insts (block_sub v p (moved l N ls m bk))) = map b (bk_insts bk)"
    using assms by (simp add: block_sub_def comp_def)
  ultimately show ?thesis by (simp add: count_block_def)
qed

lemma count_lowered:
  assumes low: "lowered f l v is1 t ins k n2 p g" and l: "l < length (cf_blocks f)"
    and b: "\<And>i. b (inst_sub v p i) = b i"
  shows "count_cfg a b g + sum_list (map b (bk_insts (cf_blocks f ! l))) =
    count_cfg a b f + sum_list (map b is1) + sum_list (map b (drop n2 (bk_insts (cf_blocks f ! l)))) + a p"
proof -
  let ?N = "length (cf_blocks f)" and ?bk = "cf_blocks f ! l"
  define F where "F m = (let b = block_sub v p (moved l ?N (succs (bk_term ?bk)) m (cf_blocks f ! m)) in
         if m = l then b\<lparr>bk_insts := map (inst_sub v p) is1, bk_term := t\<rparr> else b)" for m
  have bs: "cf_blocks g = map F [0..<?N] @
       \<lparr>bk_phis = [phi_sub v p (p, ins)], bk_insts = map (inst_sub v p) (drop n2 (bk_insts ?bk)),
         bk_term = term_sub v p (bk_term ?bk)\<rparr> #
       replicate k \<lparr>bk_phis = [], bk_insts = [], bk_term = bt_br ?N\<rparr>"
    using low unfolding lowered_def F_def Let_def by blast
  have jumps: "sum_list (map (count_block a b) (replicate k \<lparr>bk_phis = [], bk_insts = [], bk_term = bt_br ?N\<rparr>)) = {#}"
    by (induction k) (simp_all add: count_block_def)
  have other: "count_block a b (F m) = count_block a b (cf_blocks f ! m)" if "m \<noteq> l" for m
    using that by (simp add: F_def count_sub [of b v p, OF b] Let_def)
  have phis: "sum_list (map (\<lambda>ph. a (fst ph)) (bk_phis (F l))) = sum_list (map (\<lambda>ph. a (fst ph)) (bk_phis ?bk))"
    by (simp add: F_def block_sub_def moved_def rename_phis_def phi_sub_def rename_phi_def comp_def Let_def)
  have at: "count_block a b (F l) + sum_list (map b (bk_insts ?bk)) = count_block a b ?bk + sum_list (map b is1)"
    using phis b by (simp add: count_block_def F_def Let_def comp_def)
  have "sum_list (map (count_block a b) (map F [0..<?N])) = (\<Sum>m \<in> {0..<?N}. count_block a b (F m))"
    by (simp add: interv_sum_list_conv_sum_set_nat comp_def)
  also have "\<dots> = count_block a b (F l) + (\<Sum>m \<in> {0..<?N} - {l}. count_block a b (F m))"
    using l by (simp add: sum.remove)
  also have "(\<Sum>m \<in> {0..<?N} - {l}. count_block a b (F m)) = (\<Sum>m \<in> {0..<?N} - {l}. count_block a b (cf_blocks f ! m))"
    using other by (intro sum.cong) auto
  finally have g: "sum_list (map (count_block a b) (map F [0..<?N])) =
      count_block a b (F l) + (\<Sum>m \<in> {0..<?N} - {l}. count_block a b (cf_blocks f ! m))" .
  have "count_cfg a b f = (\<Sum>m \<in> {0..<?N}. count_block a b (cf_blocks f ! m))"
    by (simp add: count_cfg_def sum_list_sum_nth)
  also have "\<dots> = count_block a b ?bk + (\<Sum>m \<in> {0..<?N} - {l}. count_block a b (cf_blocks f ! m))"
    using l by (simp add: sum.remove)
  finally have f: "count_cfg a b f = count_block a b ?bk + (\<Sum>m \<in> {0..<?N} - {l}. count_block a b (cf_blocks f ! m))" .
  have "count_cfg a b g = count_block a b (F l) + (\<Sum>m \<in> {0..<?N} - {l}. count_block a b (cf_blocks f ! m)) +
      (a p + sum_list (map b (drop n2 (bk_insts ?bk))))"
    using g jumps b by (simp add: count_cfg_def bs count_block_def [of a b "\<lparr>bk_phis = _, bk_insts = _, bk_term = _\<rparr>"] phi_sub_def comp_def)
  then show ?thesis using at f by (simp add: ac_simps)
qed

lemma all_defs_count: "all_defs f = count_cfg (\<lambda>d. {#d#}) (\<lambda>i. {#inst_dest i#}) f"
proof -
  have "mset xs = sum_list (map (\<lambda>x. {#x#}) xs)" for xs :: "nat list" by (induction xs) auto
  then have "mset (block_defs bk) = count_block (\<lambda>d. {#d#}) (\<lambda>i. {#inst_dest i#}) bk" for bk :: "'a block"
    by (simp add: block_defs_def count_block_def comp_def)
  then show ?thesis by (simp add: all_defs_def count_cfg_def)
qed

fun is_select :: "'v binst \<Rightarrow> bool" where
  "is_select (bi_select d c a b) = True" | "is_select _ = False"

fun is_cmp :: "'v binst \<Rightarrow> bool" where
  "is_cmp (bi_cmp d k xs) = True" | "is_cmp _ = False"

lemma mset_filtered: "mset (map h (filter P xs)) = sum_list (map (\<lambda>i. if P i then {#h i#} else {#}) xs)"
  by (induction xs) auto

lemma selects_count: "mset (selects f) = count_cfg (\<lambda>d. {#}) (\<lambda>i. if is_select i then {#inst_dest i#} else {#}) f"
proof -
  have "(\<lambda>i. case i of bi_select d c a b \<Rightarrow> True | _ \<Rightarrow> False) = (is_select :: 'a binst \<Rightarrow> bool)"
    by (auto simp: fun_eq_iff split: binst.split)
  then have "mset (block_selects bk) = count_block (\<lambda>d. {#}) (\<lambda>i. if is_select i then {#inst_dest i#} else {#}) bk"
    for bk :: "'a block"
    by (simp add: block_selects_def count_block_def mset_filtered del: mset_map)
  then show ?thesis by (simp add: selects_def count_cfg_def mset_concat comp_def)
qed

lemma comparisons_count: "mset (comparisons f) = count_cfg (\<lambda>d. {#}) (\<lambda>i. if is_cmp i then {#inst_dest i#} else {#}) f"
proof -
  have "(\<lambda>i. case i of bi_cmp d k xs \<Rightarrow> True | _ \<Rightarrow> False) = (is_cmp :: 'a binst \<Rightarrow> bool)"
    by (auto simp: fun_eq_iff split: binst.split)
  then have "mset (block_cmps bk) = count_block (\<lambda>d. {#}) (\<lambda>i. if is_cmp i then {#inst_dest i#} else {#}) bk"
    for bk :: "'a block"
    by (simp add: block_cmps_def count_block_def mset_filtered del: mset_map)
  then show ?thesis by (simp add: comparisons_def count_cfg_def mset_concat comp_def)
qed

lemma val_below_sub: "val_below p x \<Longrightarrow> val_below (Suc p) (bsub v p x)"
  by (cases x) auto

lemma phi_sub_dest [simp]: "fst (phi_sub v p ph) = fst ph" "fst (rename_phi l l' ph) = fst ph"
  by (simp_all add: phi_sub_def rename_phi_def)

lemma phi_ok_sub:
  assumes "phi_ok N p ph" "N < N'"
  shows "phi_ok N' (Suc p) (phi_sub v p ph)" "phi_ok N' (Suc p) (phi_sub v p (rename_phi l N ph))"
  using assms by (force simp: phi_ok_def phi_sub_def rename_phi_def list_all_iff val_below_sub)+

lemma inst_below_sub: "inst_below p i \<Longrightarrow> inst_below (Suc p) (inst_sub v p i)"
  by (cases i) (auto simp: inst_below_def list_all_iff val_below_sub)

lemma term_below_sub: "term_below N p t \<Longrightarrow> N < N' \<Longrightarrow> term_below N' (Suc p) (term_sub v p t)"
  by (cases t) (auto simp: term_below_def list_all_iff val_below_sub)

lemma block_below_sub:
  assumes "block_below N p bk" "N < N'"
  shows "block_below N' (Suc p) (block_sub v p (moved l N ls m bk))"
proof -
  have "phi_ok N' (Suc p) (phi_sub v p ph) \<and> fst (phi_sub v p ph) < Suc p"
    "phi_ok N' (Suc p) (phi_sub v p (rename_phi l N ph)) \<and> fst (phi_sub v p (rename_phi l N ph)) < Suc p"
    if "ph \<in> set (bk_phis bk)" for ph
    using assms that by (simp_all add: block_below_def list_all_iff phi_ok_sub [of N p _ N'] less_SucI)
  moreover have "inst_below (Suc p) (inst_sub v p i)" if "i \<in> set (bk_insts bk)" for i
    using assms that by (simp add: block_below_def list_all_iff inst_below_sub)
  moreover have "term_below N' (Suc p) (term_sub v p (bk_term bk))"
    using assms by (simp add: block_below_def term_below_sub [of N p _ N'])
  ultimately show ?thesis
    by (auto simp: block_below_def block_sub_def moved_def rename_phis_def list_all_iff)
qed

lemma lowered_ok:
  assumes low: "lowered f l v (take n1 (bk_insts (cf_blocks f ! l))) t ins k n2 p g" and n: "n1 \<le> n2"
    and ok: "cfg_ok f" and l: "l < length (cf_blocks f)"
    and t: "term_below (Suc (length (cf_blocks f)) + k) (Suc p) t"
    and ins: "phi_ok (Suc (length (cf_blocks f)) + k) p (p, ins)"
  shows "cfg_ok g"
    and "\<And>a b. (\<And>i. b (inst_sub v p i) = b i) \<Longrightarrow> count_cfg a b g +
      sum_list (map b (drop n1 (take n2 (bk_insts (cf_blocks f ! l))))) = count_cfg a b f + a p"
    and "all_defs g \<subseteq># add_mset p (all_defs f)"
proof -
  let ?N = "length (cf_blocks f)" and ?bk = "cf_blocks f ! l"
  have p: "p = cf_values f" "cf_entry g = cf_entry f" "cf_values g = Suc p" using low by (simp_all add: lowered_def Let_def)
  have len: "length (cf_blocks g) = Suc ?N + k" using low by (simp add: lowered_def Let_def)
  show count: "count_cfg a b g + sum_list (map b (drop n1 (take n2 (bk_insts ?bk)))) = count_cfg a b f + a p"
    if "\<And>i. b (inst_sub v p i) = b i" for a b
  proof -
    have "bk_insts ?bk = take n1 (bk_insts ?bk) @ drop n1 (take n2 (bk_insts ?bk)) @ drop n2 (bk_insts ?bk)"
      using n by (metis append.assoc append_take_drop_id min.absorb1 take_take)
    then have "sum_list (map b (bk_insts ?bk)) = sum_list (map b (take n1 (bk_insts ?bk))) +
        sum_list (map b (drop n1 (take n2 (bk_insts ?bk)))) + sum_list (map b (drop n2 (bk_insts ?bk)))"
      by (metis map_append sum_list_append add.assoc)
    then show ?thesis using count_lowered [OF low l, of b a, OF that] by simp
  qed
  have "inst_dest (inst_sub v p i) = inst_dest i" for i :: "'a binst" by (cases i) auto
  from count [of "\<lambda>i. {#inst_dest i#}" "\<lambda>d. {#d#}", simplified this]
  have "all_defs g + sum_list (map (\<lambda>i. {#inst_dest i#}) (drop n1 (take n2 (bk_insts ?bk)))) = add_mset p (all_defs f)"
    by (simp add: all_defs_count)
  then show sub: "all_defs g \<subseteq># add_mset p (all_defs f)" by (metis mset_subset_eq_add_left)
  have below: "block_below ?N p b" if "b \<in> set (cf_blocks f)" for b
    using ok that p by (simp add: cfg_ok_def list_all_iff)
  have "p \<notin># all_defs f"
    using below block_below_fresh by (fastforce simp: all_defs_mset block_defs_def)
  moreover have "distinct (concat (map block_defs (cf_blocks f)))" using ok by (simp add: cfg_ok_def)
  ultimately have "count (add_mset p (all_defs f)) x \<le> 1" for x
    using distinct_count_atmost_1 [of "concat (map block_defs (cf_blocks f))"]
    by (auto simp: all_defs_mset count_eq_zero_iff split: if_splits)
  then have "count (all_defs g) x \<le> 1" for x using sub by (metis le_trans subseteq_mset_def)
  then have dist: "distinct (concat (map block_defs (cf_blocks g)))"
    using distinct_count_atmost_1 [of "concat (map block_defs (cf_blocks g))"]
    by (auto simp: all_defs_mset le_Suc_eq count_eq_zero_iff)
  have blocks: "block_below (length (cf_blocks g)) (Suc p) b" if "b \<in> set (cf_blocks g)" for b
  proof -
    have old: "block_below (length (cf_blocks g)) (Suc p) (block_sub v p (moved l ?N ls m (cf_blocks f ! m)))"
      if "m < ?N" for m ls
      using that by (intro block_below_sub below) (simp_all add: len)
    have bk: "block_below ?N p ?bk" using below l by simp
    have first: "block_below (length (cf_blocks g)) (Suc p) ((block_sub v p (moved l ?N ls l ?bk))
        \<lparr>bk_insts := map (inst_sub v p) (take n1 (bk_insts ?bk)), bk_term := t\<rparr>)" for ls
      using old [OF l, of ls] bk t
      by (auto simp: block_below_def list_all_iff len inst_below_sub dest: in_set_takeD)
    have "phi_ok (length (cf_blocks g)) (Suc p) (phi_sub v p (p, ins))"
      using ins by (force simp: phi_ok_def phi_sub_def list_all_iff val_below_sub len)
    then have rest: "block_below (length (cf_blocks g)) (Suc p) \<lparr>bk_phis = [phi_sub v p (p, ins)],
        bk_insts = map (inst_sub v p) (drop n2 (bk_insts ?bk)), bk_term = term_sub v p (bk_term ?bk)\<rparr>"
      using bk by (auto simp: block_below_def list_all_iff len inst_below_sub term_below_sub phi_sub_def dest: in_set_dropD)
    have jump: "block_below (length (cf_blocks g)) (Suc p) \<lparr>bk_phis = [], bk_insts = [], bk_term = bt_br ?N\<rparr>"
      by (simp add: block_below_def term_below_def len)
    from that show ?thesis
      using low old first rest jump by (auto simp: lowered_def Let_def split: if_splits)
  qed
  then show "cfg_ok g" using dist ok p len by (simp add: cfg_ok_def list_all_iff)
qed

lemma selects_at:
  assumes "v \<in> set (selects f)"
  obtains l n c a b where "inst_at f l n (bi_select v c a b)"
proof -
  obtain bk i where i: "bk \<in> set (cf_blocks f)" "i \<in> set (bk_insts bk)" "inst_dest i = v"
      "case i of bi_select d c a b \<Rightarrow> True | _ \<Rightarrow> False"
    using assms by (auto simp: selects_def block_selects_def)
  then obtain c a b where "i = bi_select v c a b" by (cases i) auto
  then show ?thesis using i that by (auto simp: in_set_conv_nth inst_at_def)
qed

lemma comparisons_at:
  assumes "v \<in> set (comparisons f)"
  obtains l n k xs where "inst_at f l n (bi_cmp v k xs)"
proof -
  obtain bk i where i: "bk \<in> set (cf_blocks f)" "i \<in> set (bk_insts bk)" "inst_dest i = v"
      "case i of bi_cmp d k xs \<Rightarrow> True | _ \<Rightarrow> False"
    using assms by (auto simp: comparisons_def block_cmps_def)
  then obtain k xs where "i = bi_cmp v k xs" by (cases i) auto
  then show ?thesis using i that by (auto simp: in_set_conv_nth inst_at_def)
qed

lemma inst_sub_kind [simp]:
  "inst_dest (inst_sub v p i) = inst_dest i" "is_select (inst_sub v p i) = is_select i"
  "is_cmp (inst_sub v p i) = is_cmp i"
  by (cases i; simp)+

lemma results_trans:
  assumes "same_results M f g" "same_results M g h" "\<And>e. args_only f e \<Longrightarrow> args_only g e"
  shows "same_results M f h"
  using assms unfolding same_results_def by blast

lemma args_kept:
  assumes "all_defs g \<subseteq># add_mset (cf_values f) (all_defs f)" "cf_values f \<le> cf_values g" "args_only f e"
  shows "args_only g e"
proof -
  have "u \<in># all_defs f \<or> cf_values f \<le> u" if "u \<in># all_defs g \<or> cf_values g \<le> u" for u
    using that mset_subset_eqD [OF assms(1), of u] assms(2) by auto
  then show ?thesis using assms(3) unfolding args_only_def by blast
qed

lemma inst_at_below:
  assumes "cfg_ok f" "inst_at f l n i"
  shows "inst_below (cf_values f) i"
proof -
  have "cf_blocks f ! l \<in> set (cf_blocks f)" "i \<in> set (bk_insts (cf_blocks f ! l))"
    using assms(2) by (auto simp: inst_at_def)
  then show ?thesis using assms(1) by (auto simp: cfg_ok_def block_below_def list_all_iff)
qed

text \<open>One select, and one comparison.\<close>

lemma lower_select_right:
  assumes "split_ok split" "cfg_ok f" "v \<in> set (selects f)"
  obtains g where "lower_select split f v = Ret g" "cfg_ok g" "same_results M f g"
    "\<And>e. args_only f e \<Longrightarrow> args_only g e" "add_mset v (mset (selects g)) = mset (selects f)"
    "mset (comparisons g) = mset (comparisons f)"
proof -
  obtain l n c a b where at: "inst_at f l n (bi_select v c a b)" using selects_at [OF assms(3)] .
  have d: "distinct (concat (map block_defs (cf_blocks f)))" using assms(2) by (simp add: cfg_ok_def)
  let ?N = "length (cf_blocks f)" and ?p = "cf_values f" and ?bk = "cf_blocks f ! l"
  obtain g where g: "lower_select split f v = Ret g"
    and low: "lowered f l v (take n (bk_insts ?bk)) (bt_condbr (bsub v ?p c) (Suc ?N) ?N) [(Suc ?N, a), (l, b)] 1 (Suc n) ?p g"
    using lower_select_shape [OF assms(1) d at] by blast
  have l: "l < ?N" "n < length (bk_insts ?bk)" "bk_insts ?bk ! n = bi_select v c a b" using at by (simp_all add: inst_at_def)
  have below: "list_all (block_below ?N ?p) (cf_blocks f)" using assms(2) by (simp add: cfg_ok_def)
  from inst_at_below [OF assms(2) at] have abc: "val_below ?p a" "val_below ?p b" "val_below ?p c" by (simp_all add: inst_below_def)
  have t: "term_below (Suc ?N + 1) (Suc ?p) (bt_condbr (bsub v ?p c) (Suc ?N) ?N)"
    using abc by (simp add: term_below_def val_below_sub)
  have ins: "phi_ok (Suc ?N + 1) ?p (?p, [(Suc ?N, a), (l, b)])" using abc l(1) by (simp add: phi_ok_def)
  note ok = lowered_ok [OF low le_SucI [OF order_refl] assms(2) l(1) t ins]
  have mid: "drop n (take (Suc n) (bk_insts ?bk)) = [bi_select v c a b]"
    using l by (simp add: take_Suc_conv_app_nth)
  have res: "same_results M f g"
    by (rule lowered_results [OF low d at _ assms(2) select_step [OF low d at below]]) simp_all
  have vals: "?p \<le> cf_values g" using low by (simp add: lowered_def Let_def)
  show ?thesis
    using that [OF g ok(1) res args_kept [OF ok(3) vals]] ok(2) [of "\<lambda>i. if is_select i then {#inst_dest i#} else {#}" "\<lambda>d. {#}"]
      ok(2) [of "\<lambda>i. if is_cmp i then {#inst_dest i#} else {#}" "\<lambda>d. {#}"]
    by (simp add: mid selects_count comparisons_count)
qed

lemma bsub_reg: "bsub v p x = b_reg w \<Longrightarrow> w \<noteq> p \<Longrightarrow> x = b_reg w \<and> w \<noteq> v"
  by (cases x) (auto split: if_splits)

lemma nonbr_iff: "nonbr f w \<longleftrightarrow> (\<exists>bk \<in> set (cf_blocks f). b_reg w \<in> set (nonbranch_uses bk))"
proof -
  have "(case x of b_reg u \<Rightarrow> u = w | b_const c \<Rightarrow> False) \<longleftrightarrow> x = b_reg w" for x :: "'a bval"
    by (cases x) auto
  then show ?thesis by (simp add: nonbr_def list_ex_iff)
qed

lemma nonbranch_uses_iff: "x \<in> set (nonbranch_uses bk) \<longleftrightarrow>
    (\<exists>ph \<in> set (bk_phis bk). x \<in> snd ` set (snd ph)) \<or> (\<exists>i \<in> set (bk_insts bk). x \<in> set (inst_vals i)) \<or>
    \<not> branch_term (bk_term bk) \<and> x \<in> set (term_vals (bk_term bk))"
  by (force simp: nonbranch_uses_def)

lemma sub_uses:
  "b_reg w \<in> snd ` set (snd (phi_sub v p ph)) \<Longrightarrow> w \<noteq> p \<Longrightarrow> b_reg w \<in> snd ` set (snd ph) \<and> w \<noteq> v"
  "b_reg w \<in> set (inst_vals (inst_sub v p i)) \<Longrightarrow> w \<noteq> p \<Longrightarrow> b_reg w \<in> set (inst_vals i) \<and> w \<noteq> v"
  "b_reg w \<in> set (term_vals (term_sub v p t)) \<Longrightarrow> w \<noteq> p \<Longrightarrow> b_reg w \<in> set (term_vals t) \<and> w \<noteq> v"
  "branch_term (term_sub v p t) = branch_term t"
  subgoal by (force simp: phi_sub_def dest: sym [THEN bsub_reg])
  subgoal by (cases i) (auto dest: sym [THEN bsub_reg])
  subgoal by (cases t) (auto dest: sym [THEN bsub_reg])
  by (cases t) simp_all

lemma rename_uses: "snd ` set (snd (rename_phi l l' ph)) = snd ` set (snd ph)"
  by (force simp: rename_phi_def)

lemma nonbranch_sub:
  assumes "b_reg w \<in> set (nonbranch_uses (block_sub v p (moved l N ls m bk)))" "w \<noteq> p"
  shows "b_reg w \<in> set (nonbranch_uses bk) \<and> w \<noteq> v"
proof -
  from assms(1) consider ph where "ph \<in> set (bk_phis bk)" "b_reg w \<in> snd ` set (snd (phi_sub v p ph)) \<or>
      b_reg w \<in> snd ` set (snd (phi_sub v p (rename_phi l N ph)))"
    | i where "i \<in> set (bk_insts bk)" "b_reg w \<in> set (inst_vals (inst_sub v p i))"
    | "\<not> branch_term (bk_term bk)" "b_reg w \<in> set (term_vals (term_sub v p (bk_term bk)))"
    unfolding nonbranch_uses_iff
    by (auto simp: block_sub_def moved_def rename_phis_def sub_uses(4) split: if_splits)
  then show ?thesis
  proof cases
    case (1 ph)
    then have "b_reg w \<in> snd ` set (snd ph) \<and> w \<noteq> v"
      using sub_uses(1) [OF _ assms(2)] rename_uses [of l N ph] by metis
    with 1 show ?thesis unfolding nonbranch_uses_iff by blast
  next
    case (2 i)
    then show ?thesis using sub_uses(2) [OF _ assms(2)] unfolding nonbranch_uses_iff by blast
  next
    case 3
    then show ?thesis using sub_uses(3) [OF _ assms(2)] unfolding nonbranch_uses_iff by blast
  qed
qed

lemma nonbr_lowered:
  assumes low: "lowered f l v is1 t ins k n2 p g" and l: "l < length (cf_blocks f)"
    and is1: "set is1 \<subseteq> set (bk_insts (cf_blocks f ! l))" and t: "branch_term t"
    and ins: "b_reg w \<notin> snd ` set ins" and w: "w \<noteq> p" and g: "nonbr g w"
  shows "nonbr f w \<and> w \<noteq> v"
proof -
  let ?N = "length (cf_blocks f)" and ?bk = "cf_blocks f ! l"
  obtain b where b: "b \<in> set (cf_blocks g)" "b_reg w \<in> set (nonbranch_uses b)" using g by (auto simp: nonbr_iff)
  have "\<exists>m < ?N. b_reg w \<in> set (nonbranch_uses (cf_blocks f ! m)) \<and> w \<noteq> v"
  proof -
    consider m where "m < ?N" "m \<noteq> l" "b = block_sub v p (moved l ?N (succs (bk_term ?bk)) m (cf_blocks f ! m))"
      | "b = (block_sub v p (moved l ?N (succs (bk_term ?bk)) l ?bk))\<lparr>bk_insts := map (inst_sub v p) is1, bk_term := t\<rparr>"
      | "b = \<lparr>bk_phis = [phi_sub v p (p, ins)], bk_insts = map (inst_sub v p) (drop n2 (bk_insts ?bk)),
         bk_term = term_sub v p (bk_term ?bk)\<rparr>"
      | "b = \<lparr>bk_phis = [], bk_insts = [], bk_term = bt_br ?N\<rparr>"
      using low b(1) by (auto simp: lowered_def Let_def split: if_splits)
    then show ?thesis
    proof cases
      case 1
      then show ?thesis using nonbranch_sub b(2) w by blast
    next
      case 2
      have "b_reg w \<in> set (nonbranch_uses (block_sub v p (moved l ?N (succs (bk_term ?bk)) l ?bk)))"
        using b(2) t is1 unfolding 2 by (auto simp: nonbranch_uses_iff block_sub_def)
      then show ?thesis using nonbranch_sub w l by blast
    next
      case 3
      have "b_reg w \<notin> snd ` set (snd (phi_sub v p (p, ins)))" using ins sub_uses(1) w by fastforce
      then have "b_reg w \<in> set (nonbranch_uses (block_sub v p ?bk))"
        using b(2) unfolding 3 by (auto simp: nonbranch_uses_iff block_sub_def dest!: in_set_dropD)
      moreover have "?bk = moved l ?N [] l ?bk" by (simp add: moved_def)
      ultimately show ?thesis using nonbranch_sub w l by metis
    next
      case 4
      then show ?thesis using b(2) by (simp add: nonbranch_uses_def)
    qed
  qed
  then show ?thesis by (auto simp: nonbr_iff)
qed

lemma lower_cmp_right:
  assumes "split_ok split" "cfg_ok f" "v \<in> set (comparisons f)" "sem_ok M"
  obtains g where "lower_cmp split (sem_bool M) f v = Ret g" "cfg_ok g" "same_results M f g"
    "\<And>e. args_only f e \<Longrightarrow> args_only g e" "mset (selects g) = mset (selects f)"
    "mset (comparisons g) = mset (comparisons f)" "\<And>w. w < cf_values f \<Longrightarrow> nonbr g w \<Longrightarrow> nonbr f w \<and> w \<noteq> v"
    "cf_values f \<le> cf_values g"
proof -
  obtain l n k xs where at: "inst_at f l n (bi_cmp v k xs)" using comparisons_at [OF assms(3)] .
  have d: "distinct (concat (map block_defs (cf_blocks f)))" using assms(2) by (simp add: cfg_ok_def)
  let ?N = "length (cf_blocks f)" and ?p = "cf_values f" and ?bk = "cf_blocks f ! l"
  let ?t = "bt_condbr (b_reg v) (Suc ?N) (Suc (Suc ?N)) :: 'a bterm"
    and ?ins = "[(Suc ?N, b_const (sem_bool M True)), (Suc (Suc ?N), b_const (sem_bool M False))]"
  obtain g where g: "lower_cmp split (sem_bool M) f v = Ret g"
    and low: "lowered f l v (take (Suc n) (bk_insts ?bk)) ?t ?ins 2 (Suc n) ?p g"
    using lower_cmp_shape [OF assms(1) d at] by blast
  have l: "l < ?N" "n < length (bk_insts ?bk)" "bk_insts ?bk ! n = bi_cmp v k xs" using at by (simp_all add: inst_at_def)
  have below: "list_all (block_below ?N ?p) (cf_blocks f)" using assms(2) by (simp add: cfg_ok_def)
  from inst_at_below [OF assms(2) at] have v: "v < ?p" by (simp add: inst_below_def)
  have t: "term_below (Suc ?N + 2) (Suc ?p) ?t" using v by (simp add: term_below_def)
  have ins: "phi_ok (Suc ?N + 2) ?p (?p, ?ins)" by (simp add: phi_ok_def)
  note ok = lowered_ok [OF low order_refl assms(2) l(1) t ins]
  have res: "same_results M f g"
    by (rule lowered_results [OF low d at _ assms(2) cmp_step [OF low d at below assms(4)]]) simp_all
  have vals: "?p \<le> cf_values g" using low by (simp add: lowered_def Let_def)
  have uses: "nonbr f w \<and> w \<noteq> v" if "w < ?p" "nonbr g w" for w
    using nonbr_lowered [OF low l(1) set_take_subset _ _ _ that(2)] that(1) by simp
  show ?thesis
    using that [OF g ok(1) res args_kept [OF ok(3) vals] _ _ uses vals]
      ok(2) [of "\<lambda>i. if is_select i then {#inst_dest i#} else {#}" "\<lambda>d. {#}"]
      ok(2) [of "\<lambda>i. if is_cmp i then {#inst_dest i#} else {#}" "\<lambda>d. {#}"]
    by (simp add: selects_count comparisons_count)
qed

text \<open>All of them.\<close>

lemma lower_selects_right:
  assumes "split_ok split" "cfg_ok f" "mset vs \<subseteq># mset (selects f)"
  obtains g where "lower_selects split f vs = Ret g" "cfg_ok g" "same_results M f g"
    "\<And>e. args_only f e \<Longrightarrow> args_only g e" "mset vs + mset (selects g) = mset (selects f)"
    "mset (comparisons g) = mset (comparisons f)"
  using assms(2,3)
proof (induction vs arbitrary: f thesis)
  case Nil
  then show ?case by (simp add: same_results_def)
next
  case (Cons v vs)
  have "v \<in> set (selects f)" using Cons.prems(3) by (metis mset_subset_eqD set_mset_mset list.set_intros(1))
  then obtain h where h: "lower_select split f v = Ret h" "cfg_ok h" "same_results M f h"
    "\<And>e. args_only f e \<Longrightarrow> args_only h e" "add_mset v (mset (selects h)) = mset (selects f)"
    "mset (comparisons h) = mset (comparisons f)"
    using lower_select_right [OF assms(1) Cons.prems(2)] by blast
  have "mset vs \<subseteq># mset (selects h)" using Cons.prems(3) h(5) by (metis mset.simps(2) mset_subset_eq_add_mset_cancel)
  from Cons.IH [OF _ h(2) this] obtain g where g: "lower_selects split h vs = Ret g" "cfg_ok g" "same_results M h g"
    "\<And>e. args_only h e \<Longrightarrow> args_only g e" "mset vs + mset (selects g) = mset (selects h)"
    "mset (comparisons g) = mset (comparisons h)" by blast
  show ?case
  proof (rule Cons.prems(1))
    show "lower_selects split f (v # vs) = Ret g" using h(1) g(1) by simp
    show "cfg_ok g" by (rule g(2))
    show "same_results M f g" by (rule results_trans [OF h(3) g(3) h(4)])
    show "args_only g e" if "args_only f e" for e using that h(4) g(4) by blast
    show "mset (v # vs) + mset (selects g) = mset (selects f)" using g(5) h(5) by simp
    show "mset (comparisons g) = mset (comparisons f)" using g(6) h(6) by simp
  qed
qed

lemma lower_cmps_right:
  assumes "split_ok split" "cfg_ok f" "set vs \<subseteq> set (comparisons f)" "sem_ok M"
  obtains g where "lower_cmps split (sem_bool M) f vs = Ret g" "cfg_ok g" "same_results M f g"
    "mset (selects g) = mset (selects f)" "mset (comparisons g) = mset (comparisons f)"
    "\<And>w. w < cf_values f \<Longrightarrow> nonbr g w \<Longrightarrow> nonbr f w \<and> w \<notin> set vs"
  using assms(2,3)
proof (induction vs arbitrary: f thesis)
  case Nil
  then show ?case by (simp add: same_results_def)
next
  case (Cons v vs)
  show ?case
  proof (cases "nonbr f v")
    case True
    have "v \<in> set (comparisons f)" using Cons.prems(3) by simp
    then obtain h where h: "lower_cmp split (sem_bool M) f v = Ret h" "cfg_ok h" "same_results M f h"
      "\<And>e. args_only f e \<Longrightarrow> args_only h e" "mset (selects h) = mset (selects f)"
      "mset (comparisons h) = mset (comparisons f)" "\<And>w. w < cf_values f \<Longrightarrow> nonbr h w \<Longrightarrow> nonbr f w \<and> w \<noteq> v"
      "cf_values f \<le> cf_values h"
      using lower_cmp_right [OF assms(1) Cons.prems(2) _ assms(4)] by blast
    have "set vs \<subseteq> set (comparisons h)" using Cons.prems(3) h(6) by (metis mset_eq_setD set_subset_Cons subset_trans)
    from Cons.IH [OF _ h(2) this] obtain g where g: "lower_cmps split (sem_bool M) h vs = Ret g" "cfg_ok g" "same_results M h g"
      "mset (selects g) = mset (selects h)" "mset (comparisons g) = mset (comparisons h)"
      "\<And>w. w < cf_values h \<Longrightarrow> nonbr g w \<Longrightarrow> nonbr h w \<and> w \<notin> set vs" by blast
    show ?thesis
    proof (rule Cons.prems(1))
      show "lower_cmps split (sem_bool M) f (v # vs) = Ret g" using True h(1) g(1) by simp
      show "cfg_ok g" by (rule g(2))
      show "same_results M f g" by (rule results_trans [OF h(3) g(3) h(4)])
      show "mset (selects g) = mset (selects f)" using g(4) h(5) by simp
      show "mset (comparisons g) = mset (comparisons f)" using g(5) h(6) by simp
      show "nonbr f w \<and> w \<notin> set (v # vs)" if "w < cf_values f" "nonbr g w" for w
        using g(6) [of w] h(7) [of w] h(8) that by auto
    qed
  next
    case False
    have "set vs \<subseteq> set (comparisons f)" using Cons.prems(3) by simp
    from Cons.IH [OF _ Cons.prems(2) this] obtain g where g: "lower_cmps split (sem_bool M) f vs = Ret g" "cfg_ok g" "same_results M f g"
      "mset (selects g) = mset (selects f)" "mset (comparisons g) = mset (comparisons f)"
      "\<And>w. w < cf_values f \<Longrightarrow> nonbr g w \<Longrightarrow> nonbr f w \<and> w \<notin> set vs" by blast
    show ?thesis using False g by (intro Cons.prems(1) [of g]) auto
  qed
qed

section \<open>An example\<close>

text \<open>
  Numbers, and a function that returns its argument or a hundred, whichever is less, with whether
  it was less; the state counts the calls of an instruction that adds one.
\<close>

definition int_sem :: "(int, nat) sem" where
  "int_sem = \<lparr>sem_truth = (\<lambda>x. x \<noteq> 0), sem_bool = (\<lambda>b. if b then 1 else 0),
    sem_cmp = (\<lambda>k xs. case xs of [x, y] \<Rightarrow> Ret (x < y) | _ \<Rightarrow> Undef),
    sem_exec = (\<lambda>k xs s. case xs of [x] \<Rightarrow> Ret (x + 1, Suc s) | _ \<Rightarrow> Undef), sem_pick = (\<lambda>k xs. 0)\<rparr>"

definition clamp_cfg :: "int cfg" where
  "clamp_cfg = \<lparr>cf_blocks =
    [\<lparr>bk_phis = [], bk_insts = [bi_other 1 0 [b_reg 0], bi_cmp 2 0 [b_reg 1, b_const 100],
        bi_select 3 (b_reg 2) (b_reg 1) (b_const 100)],
      bk_term = bt_ret [b_reg 3, b_reg 2]\<rparr>], cf_entry = 0, cf_values = 4\<rparr>"

lemma clamp_lowered:
  "(case preprocess split_block (sem_bool int_sem) rev clamp_cfg of
     Ret g \<Rightarrow> map (\<lambda>x. run_cfg int_sem g 5 (start g [0 \<mapsto> x] 0)) [7, 200] | _ \<Rightarrow> []) =
    [Some (Ret ([8, 1], 1)), Some (Ret ([100, 0], 1))]"
  by code_simp

section \<open>Properties\<close>

text \<open>
  C8: Turning selects and comparisons into branches changes no result of a function: from the same
  arguments and state it returns the same values in the same state, fails the same way, and runs
  on forever exactly when it did. Afterwards there is no select, the comparisons are those there
  were, and no comparison is used by anything but branches.
\<close>

theorem preprocess_exact:
  assumes "split_ok split" "query_ok query" "cfg_ok f" "sem_ok M"
  shows "\<exists>g. preprocess split (sem_bool M) query f = Ret g \<and> same_results M f g \<and> cfg_ok g \<and> selects g = [] \<and>
    mset (comparisons g) = mset (comparisons f) \<and> (\<forall>w \<in> set (comparisons g). \<not> nonbr g w)"
proof -
  have q: "mset (query xs) = mset xs" for xs using assms(2) by (simp add: query_ok_def)
  obtain h where h: "lower_selects split f (query (selects f)) = Ret h" "cfg_ok h" "same_results M f h"
    "\<And>e. args_only f e \<Longrightarrow> args_only h e" "mset (query (selects f)) + mset (selects h) = mset (selects f)"
    "mset (comparisons h) = mset (comparisons f)"
    using lower_selects_right [OF assms(1,3), of "query (selects f)"] q by auto
  have qc: "set (query (comparisons h)) = set (comparisons h)" by (rule mset_eq_setD [OF q])
  then obtain g where g: "lower_cmps split (sem_bool M) h (query (comparisons h)) = Ret g" "cfg_ok g" "same_results M h g"
    "mset (selects g) = mset (selects h)" "mset (comparisons g) = mset (comparisons h)"
    "\<And>w. w < cf_values h \<Longrightarrow> nonbr g w \<Longrightarrow> nonbr h w \<and> w \<notin> set (query (comparisons h))"
    using lower_cmps_right [OF assms(1) h(2) _ assms(4), of "query (comparisons h)"] by auto
  have "\<not> nonbr g w" if "w \<in> set (comparisons g)" for w
  proof -
    have w: "w \<in> set (comparisons h)" using that mset_eq_setD [OF g(5)] by simp
    then obtain l n k xs where "inst_at h l n (bi_cmp w k xs)" by (rule comparisons_at)
    from inst_at_below [OF h(2) this] have "w < cf_values h" by (simp add: inst_below_def)
    then show ?thesis using g(6) w qc by blast
  qed
  moreover have "selects g = []" using h(5) g(4) q by simp
  ultimately show ?thesis
    using h(1,6) g(1,2,5) results_trans [OF h(3) g(3) h(4)] by (auto simp: preprocess_def)
qed

theorem preprocess_exact_witness:
  "\<exists>g. preprocess split_block (sem_bool int_sem) rev clamp_cfg = Ret g \<and> same_results int_sem clamp_cfg g \<and>
    cfg_ok g \<and> selects g = [] \<and> mset (comparisons g) = mset (comparisons clamp_cfg) \<and>
    (\<forall>w \<in> set (comparisons g). \<not> nonbr g w)"
proof (rule preprocess_exact)
  show "split_ok split_block" by (simp add: split_ok_def)
  show "query_ok rev" by (simp add: query_ok_def)
  show "cfg_ok clamp_cfg" by code_simp
  show "sem_ok int_sem" by (simp add: sem_ok_def int_sem_def)
qed

end
