(* ===== verification/Assume_Edges.thy ===== *)
theory Assume_Edges
  imports Branch_Lowering
begin

text \<open>
  The places of assumptions: \<open>lartcc/assume.cpp\<close>. For a branch on an abstract condition the pass
  splits its two edges, and on each puts the assumption that the condition has the value with which
  that edge is taken. \<open>SplitEdge\<close> of LLVM is the parameter \<open>split_edge\<close>; \<open>split_edge_ok\<close> says what it
  returns.
\<close>

section \<open>Edges\<close>

definition edges_into :: "'v cfg \<Rightarrow> nat \<Rightarrow> nat" where
  "edges_into f t = sum_list (map (\<lambda>bk. count_list (succs (bk_term bk)) t) (cf_blocks f))"

text \<open>The first entry of a phi for a block gets another block.\<close>

fun rename_entry :: "nat \<Rightarrow> nat \<Rightarrow> (nat \<times> 'v bval) list \<Rightarrow> (nat \<times> 'v bval) list" where
  "rename_entry l l' [] = []"
| "rename_entry l l' ((k, x) # ins) = (if k = l then (l', x) # ins else (k, x) # rename_entry l l' ins)"

definition replace_phis_incoming :: "nat \<Rightarrow> nat \<Rightarrow> 'v block \<Rightarrow> 'v block" where
  "replace_phis_incoming l l' bk = bk\<lparr>bk_phis := map (\<lambda>(d, ins). (d, rename_entry l l' ins)) (bk_phis bk)\<rparr>"

fun set_succ :: "nat \<Rightarrow> nat \<Rightarrow> 'v bterm \<Rightarrow> 'v bterm" where
  "set_succ i e (bt_br a) = bt_br e"
| "set_succ i e (bt_condbr c a b) = (if i = 0 then bt_condbr c e b else bt_condbr c a e)"
| "set_succ i e (bt_other k xs ls) = bt_other k xs (ls[i := e])"
| "set_succ i e (bt_ret xs) = bt_ret xs"

text \<open>
  An edge from a block with several successors to one with several predecessors gets a block of its
  own, and the phis get it in the place of the predecessor, which they must list. A block with one
  predecessor is itself the edge: what follows its phis moves to a new block.
\<close>

definition split_critical :: "'v cfg \<Rightarrow> nat \<Rightarrow> nat \<Rightarrow> 'v cfg outcome" where
  "split_critical f l i =
    (let N = length (cf_blocks f); t = succs (bk_term (cf_blocks f ! l)) ! i in
     if list_all (\<lambda>(d, ins). l \<in> fst ` set ins) (bk_phis (cf_blocks f ! t))
     then Ret (f\<lparr>cf_blocks := map (\<lambda>m.
         let b = (if m = t then replace_phis_incoming l N (cf_blocks f ! m) else cf_blocks f ! m) in
         if m = l then b\<lparr>bk_term := set_succ i N (bk_term b)\<rparr> else b) [0..<N] @
       [\<lparr>bk_phis = [], bk_insts = [], bk_term = bt_br t\<rparr>]\<rparr>)
     else Undef)"

fun first_index :: "'a list \<Rightarrow> 'a \<Rightarrow> nat" where
  "first_index [] x = 0" | "first_index (y # ys) x = (if y = x then 0 else Suc (first_index ys x))"

definition split_edge_spec :: "'v cfg \<Rightarrow> nat \<Rightarrow> nat \<Rightarrow> 'v cfg outcome" where
  "split_edge_spec f l t =
    (if edges_into f t = 1 then Ret (fst (split_block f t 0))
     else split_critical f l (first_index (succs (bk_term (cf_blocks f ! l))) t))"

type_synonym 'v edge_splitter = "'v cfg \<Rightarrow> nat \<Rightarrow> nat \<Rightarrow> 'v cfg outcome"

definition split_edge_ok :: "'v edge_splitter \<Rightarrow> bool" where
  "split_edge_ok split_edge \<longleftrightarrow> (\<forall>f l t. l < length (cf_blocks f) \<and> t \<in> set (succs (bk_term (cf_blocks f ! l))) \<and>
      1 < length (succs (bk_term (cf_blocks f ! l))) \<longrightarrow> split_edge f l t = split_edge_spec f l t)"

section \<open>Assumptions\<close>

text \<open>The condition, the value it is assumed to have, and the block at whose start it is assumed.\<close>

type_synonym 'v assumption = "'v bval \<times> bool \<times> nat"

definition succ_idx :: "'v cfg \<Rightarrow> nat \<Rightarrow> nat \<Rightarrow> nat outcome" where
  "succ_idx f l t = (let ls = succs (bk_term (cf_blocks f ! l)) in
    if t \<in> set ls then Ret (first_index ls t) else Undef)"

definition assume_edge :: "'v edge_splitter \<Rightarrow> 'v cfg \<Rightarrow> nat \<Rightarrow> nat \<Rightarrow> 'v bval \<Rightarrow> bool \<Rightarrow>
    ('v cfg \<times> 'v assumption) outcome" where
  "assume_edge split_edge f l t cond expect =
    obind (succ_idx f l t) (\<lambda>i. obind (split_edge f l t) (\<lambda>f1.
      let edge = succs (bk_term (cf_blocks f1 ! l)) ! i in
      case succs (bk_term (cf_blocks f1 ! edge)) of
        [t'] \<Rightarrow> Ret (change_block t' (replace_phis_incoming l edge) f1, (cond, expect, edge))
      | _ \<Rightarrow> Undef))"

definition assume_branch :: "'v edge_splitter \<Rightarrow> 'v cfg \<Rightarrow> nat \<Rightarrow> 'v bval \<Rightarrow> ('v cfg \<times> 'v assumption list) outcome" where
  "assume_branch split_edge f l cond =
    (case succs (bk_term (cf_blocks f ! l)) of
       [a, b] \<Rightarrow> obind (assume_edge split_edge f l a cond True) (\<lambda>(f1, x).
         obind (assume_edge split_edge f1 l (succs (bk_term (cf_blocks f1 ! l)) ! 1) cond False) (\<lambda>(f2, y).
           Ret (f2, [x, y])))
     | _ \<Rightarrow> Undef)"

section \<open>Splitting a block\<close>

definition phis_distinct :: "'v cfg \<Rightarrow> bool" where
  "phis_distinct f \<longleftrightarrow> list_all (\<lambda>bk. list_all (\<lambda>ph. distinct (map fst (snd ph))) (bk_phis bk)) (cf_blocks f)"

lemma bsub_same [simp]: "bsub p p x = x"
  by (cases x) auto

lemma bsub_same_id: "bsub p p = id"
  by (simp add: fun_eq_iff)

lemma phi_sub_same [simp]: "phi_sub p p ph = ph"
  by (simp add: phi_sub_def case_prod_unfold)

lemma inst_sub_same [simp]: "inst_sub p p i = i"
  by (cases i) (simp_all add: bsub_same_id)

lemma term_sub_same [simp]: "term_sub p p t = t"
  by (cases t) (simp_all add: bsub_same_id)

lemma map_same: "(\<And>x. h x = x) \<Longrightarrow> map h xs = xs"
  by (induction xs) auto

lemma block_sub_same [simp]: "block_sub p p bk = bk"
  by (simp add: block_sub_def map_same)

lemma env_rel_same: "env_rel p p e e' \<longleftrightarrow> e' = e"
  by (auto simp: env_rel_def)

lemma split_block_blocks:
  assumes "t < length (cf_blocks f)"
  shows "cf_blocks (fst (split_block f t n)) =
    map (\<lambda>m. let b = moved t (length (cf_blocks f)) (succs (bk_term (cf_blocks f ! t))) m (cf_blocks f ! m) in
        if m = t then b\<lparr>bk_insts := take n (bk_insts (cf_blocks f ! t)), bk_term := bt_br (length (cf_blocks f))\<rparr> else b)
      [0..<length (cf_blocks f)] @
    [\<lparr>bk_phis = [], bk_insts = drop n (bk_insts (cf_blocks f ! t)), bk_term = bk_term (cf_blocks f ! t)\<rparr>]"
  using assms by (auto simp: split_block_def Let_def nth_list_update)

lemma split_block_rest [simp]:
  "cf_entry (fst (split_block f t n)) = cf_entry f" "cf_values (fst (split_block f t n)) = cf_values f"
  by (simp_all add: split_block_def Let_def)

lemma block_below_values: "block_below N V bk \<Longrightarrow> V \<notin> set (block_defs bk)"
  by (auto simp: block_below_parts list_all_iff)

lemma run_block_jump:
  "run_block M (bk\<lparr>bk_insts := is, bk_term := bt_br l\<rparr>) (q, m, e, s) =
    obind (head_of M bk is q e s) (\<lambda>(e2, s2). Ret (Inr (Some m, l, e2, s2)))"
  by (simp add: run_block_def head_of_def obind_assoc split_beta)

lemma split_block_results:
  fixes M :: "('v, 's) sem"
  assumes ok: "cfg_ok f" and t: "t < length (cf_blocks f)"
  shows "same_results M f (fst (split_block f t n))"
  unfolding same_results_def
proof (intro allI impI)
  fix e :: "'v env" and s :: 's and r
  let ?g = "fst (split_block f t n)" and ?N = "length (cf_blocks f)" and ?p = "cf_values f" and ?bk = "cf_blocks f ! t"
  let ?R = "config_rel f t ?p ?p :: ('v, 's) config \<Rightarrow> ('v, 's) config \<Rightarrow> bool"
  have below: "list_all (block_below ?N ?p) (cf_blocks f)" using ok by (simp add: cfg_ok_def)
  then have bk: "block_below ?N ?p ?bk" using t by (simp add: list_all_length)
  have at: "block_at ?g m = Some (let b = moved t ?N (succs (bk_term ?bk)) m (cf_blocks f ! m) in
      if m = t then b\<lparr>bk_insts := take n (bk_insts ?bk), bk_term := bt_br ?N\<rparr> else b)" if "m < ?N" for m
    using that t by (simp add: block_at_def split_block_blocks nth_append Let_def)
  have rest: "block_at ?g ?N = Some \<lparr>bk_phis = [], bk_insts = drop n (bk_insts ?bk), bk_term = bk_term ?bk\<rparr>"
    using t by (simp add: block_at_def split_block_blocks nth_append)
  have start: "?R (start f e s) (start ?g e s)"
    using ok by (simp add: config_rel_def start_def env_rel_same cfg_ok_def)
  show "ends_with M f (start f e s) r = ends_with M ?g (start ?g e s) r"
  proof (rule simulation_results [where R = ?R, OF _ start])
    fix c d :: "('v, 's) config"
    assume rel: "?R c d"
    obtain q m e s where c: "c = (q, m, e, s)" by (cases c)
    have m: "m < ?N" using rel c by (simp add: config_rel_def split: prod.splits)
    have v: "?p \<notin> set (block_defs (cf_blocks f ! m))" using below m by (simp add: list_all_length block_below_values [of ?N])
    show "\<exists>j. rel_outcome (rel_sum (=) ?R) (step M f c) (steps M ?g (Suc j) d)"
    proof (cases "m = t")
      case False
      then have "block_at ?g m = Some (block_sub ?p ?p (moved t ?N (succs (bk_term ?bk)) m (cf_blocks f ! m)))"
        using at [OF m] by simp
      from step_moved [OF this rel [unfolded c] False below v] c show ?thesis by (metis One_nat_def)
    next
      case True
      let ?q = "if q = Some t then Some ?N else q"
      have d: "d = (?q, t, e, s)" using rel c True by (cases d) (auto simp: config_rel_def env_rel_same)
      have insts: "bk_insts ?bk = take n (bk_insts ?bk) @ drop n (bk_insts ?bk)" by simp
      have p: "?p \<notin> fst ` set (bk_phis ?bk)" by (rule block_below_fresh(1) [OF bk])
      have p1: "?p \<notin> inst_dest ` set (take n (bk_insts ?bk))"
        using block_below_fresh(2) [OF bk] by (metis imageE in_set_takeD)
      have p2: "?p \<notin> inst_dest ` set (drop n (bk_insts ?bk))"
        using block_below_fresh(2) [OF bk] by (metis imageE in_set_dropD)
      have "rel_outcome (state_rel ?p ?p) (head_of M ?bk (take n (bk_insts ?bk)) q e s)
        (head_of M (block_sub ?p ?p (moved t ?N (succs (bk_term ?bk)) t ?bk)) (map (inst_sub ?p ?p) (take n (bk_insts ?bk))) ?q e s)"
        using rel c True p p1
        by (intro head_sub [OF _ bk]) (auto simp: env_rel_same config_rel_def dest: in_set_takeD split: prod.splits)
      then have head: "head_of M (moved t ?N (succs (bk_term ?bk)) t ?bk) (take n (bk_insts ?bk)) ?q e s =
          head_of M ?bk (take n (bk_insts ?bk)) q e s"
        by (auto elim!: rel_outcome_cases simp: env_rel_same state_rel_def map_same prod_eq_iff)
      have f: "step M f c = obind (head_of M ?bk (take n (bk_insts ?bk)) q e s) (finish M t (drop n (bk_insts ?bk)) (bk_term ?bk))"
        unfolding c True by (rule step_block [OF t insts])
      have g: "step M ?g d = obind (head_of M ?bk (take n (bk_insts ?bk)) q e s) (\<lambda>(e2, s2). Ret (Inr (Some t, ?N, e2, s2)))"
        using at [OF t] unfolding d
        by (simp only: step_def fst_conv snd_conv option.case Let_def if_True simp_thms run_block_jump head)
      show ?thesis
      proof (cases "head_of M ?bk (take n (bk_insts ?bk)) q e s")
        case (Ret x)
        obtain e2 s2 where x: "x = (e2, s2)" by (cases x)
        have "steps M ?g 2 d = step M ?g (Some t, ?N, e2, s2)"
          using g Ret x steps_once [of M ?g] by (simp add: numeral_2_eq_2)
        also have "\<dots> = finish M ?N (drop n (bk_insts ?bk)) (bk_term ?bk) (e2, s2)"
          using rest by (simp add: step_def run_block_def finish_def)
        finally have g2: "steps M ?g 2 d = finish M ?N (drop n (bk_insts ?bk)) (bk_term ?bk) (e2, s2)" .
        have "rel_outcome (rel_sum (=) ?R) (step M f c) (steps M ?g 2 d)"
          using finish_sub [OF bk t p2, of e2 e2 M s2] f Ret x g2 by (simp add: env_rel_same map_same)
        then show ?thesis by (metis numeral_2_eq_2)
      qed (use f g steps_once [of M ?g d] in \<open>auto intro!: exI [of _ 0]\<close>)
    qed
  qed
qed

text \<open>What stays as it was.\<close>

lemma block_below_mono:
  assumes "block_below N V bk" "N \<le> N'"
  shows "block_below N' V bk"
proof -
  have "phi_ok N' V ph" if "phi_ok N V ph" for ph :: "'a phi"
    using that assms(2) by (auto simp: phi_ok_def list_all_iff)
  then show ?thesis using assms by (auto simp: block_below_def term_below_def list_all_iff)
qed

lemma block_below_rename:
  assumes "block_below N V bk" "N < N'"
  shows "block_below N' V (rename_phis l N bk)"
proof -
  have "phi_ok N' V (rename_phi l N ph)" if "phi_ok N V ph" for ph :: "'a phi"
    using that assms(2) by (force simp: phi_ok_def rename_phi_def list_all_iff)
  then show ?thesis using block_below_mono [OF assms(1) less_imp_le [OF assms(2)]] assms(1)
    by (auto simp: block_below_def rename_phis_def list_all_iff)
qed

lemma block_below_moved: "block_below N V bk \<Longrightarrow> N < N' \<Longrightarrow> block_below N' V (moved l N ls m bk)"
  by (simp add: moved_def block_below_rename block_below_mono [of N])

lemma moved_defs [simp]: "block_defs (moved l l' ls m bk) = block_defs bk" "map fst (bk_phis (moved l l' ls m bk)) = map fst (bk_phis bk)"
  by (simp_all add: block_defs_def moved_def rename_phis_def comp_def)

text \<open>Sums over blocks of which one is changed and one is new.\<close>

lemma sum_blocks_changed:
  fixes h :: "'v block \<Rightarrow> 'm::comm_monoid_add"
  assumes "l < length bs" "\<And>m. m < length bs \<Longrightarrow> m \<noteq> l \<Longrightarrow> h (F m) = h (bs ! m)"
  shows "sum_list (map h (map F [0..<length bs] @ [b])) + h (bs ! l) = sum_list (map h bs) + h (F l) + h b"
proof -
  let ?S = "\<Sum>m \<in> {0..<length bs} - {l}. h (bs ! m)"
  have "sum_list (map h (map F [0..<length bs])) = (\<Sum>m \<in> {0..<length bs}. h (F m))"
    by (simp add: interv_sum_list_conv_sum_set_nat comp_def)
  also have "\<dots> = h (F l) + (\<Sum>m \<in> {0..<length bs} - {l}. h (F m))"
    using assms(1) by (simp add: sum.remove)
  also have "(\<Sum>m \<in> {0..<length bs} - {l}. h (F m)) = ?S"
    using assms(2) by (intro sum.cong) auto
  finally have g: "sum_list (map h (map F [0..<length bs])) = h (F l) + ?S" .
  have "sum_list (map h bs) = (\<Sum>m \<in> {0..<length bs}. h (bs ! m))" by (simp add: sum_list_sum_nth)
  also have "\<dots> = h (bs ! l) + ?S" using assms(1) by (simp add: sum.remove)
  finally show ?thesis using g by (simp add: ac_simps)
qed

lemma distinct_all_defs:
  assumes "all_defs g = all_defs f"
  shows "distinct (concat (map block_defs (cf_blocks g))) = distinct (concat (map block_defs (cf_blocks f)))"
  using mset_eq_imp_distinct_iff assms unfolding all_defs_mset by blast

lemma phi_keys:
  assumes "cfg_ok f" "phis_distinct f" "m < length (cf_blocks f)" "ph \<in> set (bk_phis (cf_blocks f ! m))"
  shows "distinct (map fst (snd ph))" "length (cf_blocks f) \<notin> fst ` set (snd ph)"
proof -
  have m: "cf_blocks f ! m \<in> set (cf_blocks f)" using assms(3) by simp
  then show "distinct (map fst (snd ph))" using assms(2,4) by (auto simp: phis_distinct_def list_all_iff)
  have "phi_ok (length (cf_blocks f)) (cf_values f) ph"
    using assms(1,4) m by (auto simp: cfg_ok_def block_below_def list_all_iff)
  then show "length (cf_blocks f) \<notin> fst ` set (snd ph)" by (auto simp: phi_ok_def list_all_iff)
qed

lemma rename_keys:
  assumes "distinct (map fst (snd ph))" "N \<notin> fst ` set (snd ph)"
  shows "distinct (map fst (snd (rename_phi l N ph)))"
proof -
  have "map fst (snd (rename_phi l N ph)) = map (\<lambda>k. if k = l then N else k) (map fst (snd ph))"
    by (simp add: rename_phi_def comp_def case_prod_unfold)
  moreover have "inj_on (\<lambda>k. if k = l then N else k) (fst ` set (snd ph))"
    using assms(2) by (auto simp: inj_on_def)
  ultimately show ?thesis using assms(1) by (simp only: distinct_map list.set_map)
qed

lemma succs_below:
  assumes "cfg_ok f" "m < length (cf_blocks f)" "u \<in> set (succs (bk_term (cf_blocks f ! m)))"
  shows "u < length (cf_blocks f)"
proof -
  have "block_below (length (cf_blocks f)) (cf_values f) (cf_blocks f ! m)"
    using assms(1,2) by (simp add: cfg_ok_def list_all_length)
  then show ?thesis using assms(3) by (simp add: block_below_def term_below_def list_all_iff)
qed

lemma edges_into_0: "edges_into f u = 0 \<longleftrightarrow> (\<forall>m < length (cf_blocks f). u \<notin> set (succs (bk_term (cf_blocks f ! m))))"
  by (simp add: edges_into_def count_list_0_iff) (metis in_set_conv_nth)

lemma edges_into_new: "cfg_ok f \<Longrightarrow> edges_into f (length (cf_blocks f)) = 0"
  using succs_below unfolding edges_into_0 by blast

lemma split_block_ok:
  assumes ok: "cfg_ok f" and t: "t < length (cf_blocks f)"
  shows "cfg_ok (fst (split_block f t n))" "all_defs (fst (split_block f t n)) = all_defs f"
    "length (cf_blocks (fst (split_block f t n))) = Suc (length (cf_blocks f))"
    "phis_distinct f \<Longrightarrow> phis_distinct (fst (split_block f t n))"
    "u < length (cf_blocks f) \<Longrightarrow> edges_into (fst (split_block f t n)) u = edges_into f u"
    "edges_into (fst (split_block f t n)) (length (cf_blocks f)) = 1"
proof -
  let ?g = "fst (split_block f t n)" and ?N = "length (cf_blocks f)" and ?bk = "cf_blocks f ! t"
  define F where "F m = (let b = moved t ?N (succs (bk_term ?bk)) m (cf_blocks f ! m) in
        if m = t then b\<lparr>bk_insts := take n (bk_insts ?bk), bk_term := bt_br ?N\<rparr> else b)" for m
  let ?rest = "\<lparr>bk_phis = [], bk_insts = drop n (bk_insts ?bk), bk_term = bk_term ?bk\<rparr>"
  have g: "cf_blocks ?g = map F [0..<?N] @ [?rest]" using split_block_blocks [OF t] unfolding F_def .
  show len: "length (cf_blocks ?g) = Suc ?N" by (simp add: g)
  have below: "block_below ?N (cf_values f) (cf_blocks f ! m)" if "m < ?N" for m
    using ok that by (simp add: cfg_ok_def list_all_length)
  have F: "block_below (Suc ?N) (cf_values f) (F m)" if "m < ?N" for m
    using block_below_moved [OF below [OF that], of "Suc ?N" t "succs (bk_term ?bk)" m] below [OF t]
    by (auto simp: F_def Let_def block_below_def term_below_def list_all_iff dest: in_set_takeD)
  have rest: "block_below (Suc ?N) (cf_values f) ?rest"
    using block_below_mono [OF below [OF t], of "Suc ?N"] by (auto simp: block_below_def list_all_iff dest: in_set_dropD)
  have "mset (block_defs (F t)) + mset (block_defs ?rest) = mset (block_defs ?bk)"
    by (simp add: F_def Let_def block_defs_def moved_defs(2) flip: mset_append map_append drop_map take_map)
  then show defs: "all_defs ?g = all_defs f"
    using sum_blocks_changed [OF t, of "\<lambda>bk. mset (block_defs bk)" F ?rest]
    by (simp add: all_defs_def g F_def Let_def add.assoc)
  show "cfg_ok ?g"
    using ok F rest distinct_all_defs [OF defs] by (auto simp: cfg_ok_def g list_all_iff)
  show "phis_distinct ?g" if "phis_distinct f"
  proof -
    have "distinct (map fst (snd (rename_phi t ?N ph)))" if "m < ?N" "ph \<in> set (bk_phis (cf_blocks f ! m))" for m ph
      using phi_keys [OF ok \<open>phis_distinct f\<close> that] by (simp add: rename_keys)
    then show ?thesis
      using that by (auto simp: phis_distinct_def list_all_length g F_def Let_def moved_def rename_phis_def nth_append split_beta)
  qed
  have e: "edges_into ?g u + count_list (succs (bk_term ?bk)) u = edges_into f u + (if u = ?N then 1 else 0) +
      count_list (succs (bk_term ?bk)) u" for u
    using sum_blocks_changed [OF t, of "\<lambda>bk. count_list (succs (bk_term bk)) u" F ?rest]
    by (simp add: edges_into_def g F_def Let_def)
  show "edges_into ?g u = edges_into f u" if "u < ?N" using e [of u] that by simp
  have "edges_into f ?N = 0" by (rule edges_into_new [OF ok])
  then show "edges_into ?g ?N = 1" using e [of ?N] by simp
qed

section \<open>Splitting an edge\<close>

text \<open>The functions here end the block in question in a branch to two different blocks.\<close>

definition branches_to :: "'v cfg \<Rightarrow> nat \<Rightarrow> 'v bval \<Rightarrow> nat \<Rightarrow> nat \<Rightarrow> bool" where
  "branches_to f l c a b \<longleftrightarrow> l < length (cf_blocks f) \<and> bk_term (cf_blocks f ! l) = bt_condbr c a b"

lemma rename_entry_all:
  assumes "distinct (map fst ins)"
  shows "rename_entry l l' ins = map (\<lambda>(k, x). (if k = l then l' else k, x)) ins"
proof -
  have "map (\<lambda>(k, x). (if k = l then l' else k, x)) ins' = ins'" if "l \<notin> fst ` set ins'" for ins' :: "(nat \<times> 'a bval) list"
    using that by (induction ins') auto
  then show ?thesis using assms by (induction ins) auto
qed

lemma rename_entry_none: "l \<notin> fst ` set ins \<Longrightarrow> rename_entry l l' ins = ins"
  by (induction ins) auto

lemma replace_phis_all:
  assumes "\<And>ph. ph \<in> set (bk_phis bk) \<Longrightarrow> distinct (map fst (snd ph))"
  shows "replace_phis_incoming l l' bk = rename_phis l l' bk"
proof -
  have "map (\<lambda>(d, ins). (d, rename_entry l l' ins)) (bk_phis bk) = map (rename_phi l l') (bk_phis bk)"
    using assms by (intro map_cong) (auto simp: rename_phi_def rename_entry_all)
  then show ?thesis by (simp add: replace_phis_incoming_def rename_phis_def)
qed

lemma replace_phis_none:
  assumes "\<And>ph. ph \<in> set (bk_phis bk) \<Longrightarrow> l \<notin> fst ` set (snd ph)"
  shows "replace_phis_incoming l l' bk = bk"
proof -
  have "map (\<lambda>(d, ins). (d, rename_entry l l' ins)) (bk_phis bk) = bk_phis bk"
    using assms by (intro map_idI) (auto simp: rename_entry_none)
  then show ?thesis by (simp add: replace_phis_incoming_def)
qed

lemma change_block_none:
  assumes "\<And>ph. ph \<in> set (bk_phis (cf_blocks f ! t)) \<Longrightarrow> l \<notin> fst ` set (snd ph)"
  shows "change_block t (replace_phis_incoming l l') f = f"
  using replace_phis_none [OF assms] by (simp add: change_block_def)

text \<open>The blocks of a split edge.\<close>

definition critical_blocks :: "'v cfg \<Rightarrow> nat \<Rightarrow> nat \<Rightarrow> nat \<Rightarrow> nat \<Rightarrow> 'v block" where
  "critical_blocks f l t i m =
    (let b = (if m = t then rename_phis l (length (cf_blocks f)) (cf_blocks f ! m) else cf_blocks f ! m) in
     if m = l then b\<lparr>bk_term := set_succ i (length (cf_blocks f)) (bk_term b)\<rparr> else b)"

lemma critical_parts:
  "bk_term (critical_blocks f l t i m) =
    (if m = l then set_succ i (length (cf_blocks f)) (bk_term (cf_blocks f ! m)) else bk_term (cf_blocks f ! m))"
  "bk_phis (critical_blocks f l t i m) =
    (if m = t then map (rename_phi l (length (cf_blocks f))) (bk_phis (cf_blocks f ! m)) else bk_phis (cf_blocks f ! m))"
  "bk_insts (critical_blocks f l t i m) = bk_insts (cf_blocks f ! m)"
  by (simp_all add: critical_blocks_def Let_def rename_phis_def)

lemma split_critical_blocks:
  assumes "cfg_ok f" "phis_distinct f" "t < length (cf_blocks f)" "succs (bk_term (cf_blocks f ! l)) ! i = t"
    and "\<And>d ins. (d, ins) \<in> set (bk_phis (cf_blocks f ! t)) \<Longrightarrow> l \<in> fst ` set ins"
  obtains g where "split_critical f l i = Ret g" "cf_entry g = cf_entry f" "cf_values g = cf_values f"
    "cf_blocks g = map (critical_blocks f l t i) [0..<length (cf_blocks f)] @ [\<lparr>bk_phis = [], bk_insts = [], bk_term = bt_br t\<rparr>]"
proof -
  have r: "replace_phis_incoming l (length (cf_blocks f)) (cf_blocks f ! t) = rename_phis l (length (cf_blocks f)) (cf_blocks f ! t)"
    using phi_keys(1) [OF assms(1-3)] by (rule replace_phis_all)
  show ?thesis
  proof (rule that)
    show "split_critical f l i = Ret (f\<lparr>cf_blocks := map (critical_blocks f l t i) [0..<length (cf_blocks f)] @
        [\<lparr>bk_phis = [], bk_insts = [], bk_term = bt_br t\<rparr>]\<rparr>)"
    proof -
      have "(if m = t then replace_phis_incoming l (length (cf_blocks f)) (cf_blocks f ! m) else cf_blocks f ! m) =
          (if m = t then rename_phis l (length (cf_blocks f)) (cf_blocks f ! m) else cf_blocks f ! m)" for m
        using r by (cases "m = t") simp_all
      moreover have "list_all (\<lambda>(d, ins). l \<in> fst ` set ins) (bk_phis (cf_blocks f ! t))"
        using assms(5) by (auto simp: list_all_iff)
      ultimately show ?thesis
        by (simp only: split_critical_def Let_def assms(4) critical_blocks_def [abs_def] if_True)
    qed
  qed simp_all
qed

definition edge_rel :: "'v cfg \<Rightarrow> nat \<Rightarrow> nat \<Rightarrow> ('v, 's) config \<Rightarrow> ('v, 's) config \<Rightarrow> bool" where
  "edge_rel f l t c d \<longleftrightarrow> (case c of (q, m, e, s) \<Rightarrow>
    d = (if q = Some l \<and> m = t then Some (length (cf_blocks f)) else q, m, e, s) \<and>
    m < length (cf_blocks f) \<and> (\<forall>k. q = Some k \<longrightarrow> k < length (cf_blocks f)))"

lemma enter_renamed:
  assumes "list_all (phi_ok N V) phis" "\<And>k. q = Some k \<Longrightarrow> k < N"
  shows "enter e (if q = Some l then Some N else q) (map (rename_phi l N) phis) e1 = enter e q phis e1"
  using assms(1)
proof (induction phis arbitrary: e1)
  case (Cons ph phis)
  obtain d ins where ph: "ph = (d, ins)" by (cases ph)
  have "list_all (\<lambda>(k, x). k < N) ins" using Cons.prems ph by (auto simp: phi_ok_def list_all_iff)
  then have "phi_value e (if q = Some l then Some N else q) (map (\<lambda>(k, x). (if k = l then N else k, x)) ins) = phi_value e q ins"
  proof (cases q)
    case (Some k)
    then show ?thesis using map_of_renamed [of N ins k l] assms(2) \<open>list_all (\<lambda>(k, x). k < N) ins\<close>
      by (cases "k = l") (simp_all add: phi_value_def)
  qed (simp add: phi_value_def)
  then show ?case using Cons ph by (simp add: rename_phi_def)
qed simp

lemma finish_end: "finish M m [] t = (\<lambda>(e2, s2). obind (exec_term M t e2) (\<lambda>t.
    Ret (case t of Inl rs \<Rightarrow> Inl (rs, s2) | Inr m' \<Rightarrow> Inr (Some m, m', e2, s2))))"
  by (simp add: finish_def fun_eq_iff)

lemma run_block_term:
  assumes "enter e q' (bk_phis bk') e = enter e q (bk_phis bk) e" "bk_insts bk' = bk_insts bk"
  shows "run_block M bk' (q', m, e, s) = obind (head_of M bk (bk_insts bk) q e s) (finish M m [] (bk_term bk'))"
    and "run_block M bk (q, m, e, s) = obind (head_of M bk (bk_insts bk) q e s) (finish M m [] (bk_term bk))"
  using assms by (simp_all add: run_block_def head_of_def finish_end obind_assoc)

lemma split_critical_results:
  fixes M :: "('v, 's) sem"
  assumes ok: "cfg_ok f" and br: "branches_to f l c a b" and ab: "a \<noteq> b" and t: "t = (if i = 0 then a else b)"
    and g: "cf_entry g = cf_entry f"
      "cf_blocks g = map (critical_blocks f l t i) [0..<length (cf_blocks f)] @ [\<lparr>bk_phis = [], bk_insts = [], bk_term = bt_br t\<rparr>]"
  shows "same_results M f g"
  unfolding same_results_def
proof (intro allI impI)
  fix e :: "'v env" and s :: 's and r
  let ?N = "length (cf_blocks f)"
  let ?R = "edge_rel f l t :: ('v, 's) config \<Rightarrow> ('v, 's) config \<Rightarrow> bool"
  have l: "l < ?N" "bk_term (cf_blocks f ! l) = bt_condbr c a b" using br by (simp_all add: branches_to_def)
  have start: "?R (start f e s) (start g e s)" using ok g by (simp add: edge_rel_def start_def cfg_ok_def)
  show "ends_with M f (start f e s) r = ends_with M g (start g e s) r"
  proof (rule simulation_results [where R = ?R, OF _ start])
    fix x d :: "('v, 's) config"
    assume rel: "?R x d"
    obtain q m e s where x: "x = (q, m, e, s)" by (cases x)
    let ?q = "if q = Some l \<and> m = t then Some ?N else q" and ?bk = "cf_blocks f ! m" and ?bk' = "critical_blocks f l t i m"
    have d: "d = (?q, m, e, s)" and m: "m < ?N" and q: "\<And>k. q = Some k \<Longrightarrow> k < ?N"
      using rel x by (simp_all add: edge_rel_def)
    have bk: "block_below ?N (cf_values f) ?bk" using ok m by (simp add: cfg_ok_def list_all_length)
    then have phis: "list_all (phi_ok ?N (cf_values f)) (bk_phis ?bk)" by (auto simp: block_below_def list_all_iff)
    have renamed: "enter e (if q = Some l then Some ?N else q) (map (rename_phi l ?N) (bk_phis ?bk)) e = enter e q (bk_phis ?bk) e"
      using q by (rule enter_renamed [OF phis])
    have enter: "enter e ?q (bk_phis ?bk') e = enter e q (bk_phis ?bk) e"
      using renamed by (auto simp: critical_blocks_def Let_def rename_phis_def)
    have insts: "bk_insts ?bk' = bk_insts ?bk" by (simp add: critical_blocks_def Let_def rename_phis_def)
    have f: "step M f x = obind (head_of M ?bk (bk_insts ?bk) q e s) (finish M m [] (bk_term ?bk))"
      using m x run_block_term(2) [OF enter insts] by (simp add: step_def block_at_def)
    have gd: "step M g d = obind (head_of M ?bk (bk_insts ?bk) q e s) (finish M m [] (bk_term ?bk'))"
    proof -
      have "block_at g m = Some ?bk'" using m by (simp add: block_at_def g nth_append)
      then show ?thesis
        unfolding d step_def fst_conv snd_conv by (simp only: option.case run_block_term(1) [OF enter insts])
    qed
    have next_ok: "u < ?N" if "u \<in> set (succs (bk_term ?bk))" for u using succs_below [OF ok m that] .
    show "\<exists>j. rel_outcome (rel_sum (=) ?R) (step M f x) (steps M g (Suc j) d)"
    proof (cases "m = l")
      case False
      then have tm: "bk_term ?bk' = bk_term ?bk" by (simp add: critical_blocks_def Let_def rename_phis_def)
      have "rel_outcome (rel_sum (=) ?R) (finish M m [] (bk_term ?bk) y) (finish M m [] (bk_term ?bk) y)" for y
        using False m next_ok
        by (cases y; cases "exec_term M (bk_term ?bk) (fst y)")
          (auto simp: finish_def edge_rel_def dest: exec_term_succ split: sum.split)
      then have "rel_outcome (rel_sum (=) ?R) (step M f x) (step M g d)"
        unfolding f gd tm by (intro rel_outcome_obind [where R = "(=)"]) (auto simp: outcome.rel_refl)
      then show ?thesis using steps_once [of M g d] by (metis One_nat_def)
    next
      case True
      have tm: "bk_term ?bk' = set_succ i ?N (bt_condbr c a b)"
        using True l by (simp add: critical_parts)
      have ab_ok: "a < ?N" "b < ?N" using next_ok l True by simp_all
      show ?thesis
      proof (cases "head_of M ?bk (bk_insts ?bk) q e s")
        case (Ret y)
        obtain e2 s2 where y: "y = (e2, s2)" by (cases y)
        show ?thesis
        proof (cases "bget e2 c")
          case z: (Ret z)
          let ?n = "if sem_truth M z then a else b"
          have fz: "step M f x = Ret (Inr (Some l, ?n, e2, s2))"
            using f Ret y z True l by (simp add: finish_def)
          have gz: "step M g d = Ret (Inr (Some l, if ?n = t then ?N else ?n, e2, s2))"
            using gd Ret y z True tm t ab by (auto simp: finish_def)
          show ?thesis
          proof (cases "?n = t")
            case True
            have "step M g (Some l, ?N, e2, s2) = Ret (Inr (Some ?N, t, e2, s2))"
              by (simp add: step_def block_at_def g run_block_def nth_append)
            then have "steps M g 2 d = Ret (Inr (Some ?N, t, e2, s2))"
              using gz True by (simp add: numeral_2_eq_2)
            moreover have "?R (Some l, ?n, e2, s2) (Some ?N, t, e2, s2)"
              using True ab_ok l(1) by (auto simp: edge_rel_def)
            ultimately have "rel_outcome (rel_sum (=) ?R) (step M f x) (steps M g 2 d)" by (simp add: fz)
            then show ?thesis by (metis numeral_2_eq_2)
          next
            case False
            then have "?R (Some l, ?n, e2, s2) (Some l, ?n, e2, s2)"
              using ab_ok l(1) by (auto simp: edge_rel_def)
            then have "rel_outcome (rel_sum (=) ?R) (step M f x) (steps M g 1 d)"
              unfolding steps_once using fz gz False by simp
            then show ?thesis by (metis One_nat_def)
          qed
        qed (use f gd Ret y True l tm steps_once [of M g d] in \<open>auto simp: finish_def intro!: exI [of _ 0]\<close>)
      qed (use f gd steps_once [of M g d] in \<open>auto intro!: exI [of _ 0]\<close>)
    qed
  qed
qed

lemma split_critical_ok:
  assumes ok: "cfg_ok f" and ds: "phis_distinct f" and br: "branches_to f l c a b" and ab: "a \<noteq> b"
    and t: "t = (if i = 0 then a else b)" and i: "i < 2"
    and g: "cf_entry g = cf_entry f" "cf_values g = cf_values f"
      "cf_blocks g = map (critical_blocks f l t i) [0..<length (cf_blocks f)] @ [\<lparr>bk_phis = [], bk_insts = [], bk_term = bt_br t\<rparr>]"
  shows "cfg_ok g" "all_defs g = all_defs f" "phis_distinct g" "length (cf_blocks g) = Suc (length (cf_blocks f))"
    "u < length (cf_blocks f) \<Longrightarrow> edges_into g u = edges_into f u" "edges_into g (length (cf_blocks f)) = 1"
    "branches_to g l c (if i = 0 then length (cf_blocks f) else a) (if i = 0 then b else length (cf_blocks f))"
proof -
  let ?N = "length (cf_blocks f)" and ?rest = "\<lparr>bk_phis = [], bk_insts = [], bk_term = bt_br t\<rparr>"
  have l: "l < ?N" "bk_term (cf_blocks f ! l) = bt_condbr c a b" using br by (simp_all add: branches_to_def)
  show len: "length (cf_blocks g) = Suc ?N" by (simp add: g)
  have below: "block_below ?N (cf_values f) (cf_blocks f ! m)" if "m < ?N" for m
    using ok that by (simp add: cfg_ok_def list_all_length)
  have tN: "t < ?N" using succs_below [OF ok l(1), of t] l(2) t by (simp split: if_splits)
  have defs_m: "block_defs (critical_blocks f l t i m) = block_defs (cf_blocks f ! m)" for m
    by (simp add: block_defs_def critical_parts comp_def)
  show defs: "all_defs g = all_defs f"
    using sum_blocks_changed [OF l(1), of "\<lambda>bk. mset (block_defs bk)" "critical_blocks f l t i" ?rest] defs_m
    by (simp add: all_defs_def g block_defs_def [of ?rest])
  have term_ok: "term_below (Suc ?N) (cf_values f) (bk_term (critical_blocks f l t i m))" if "m < ?N" for m
    using below [OF that] l by (auto simp: critical_parts block_below_def term_below_def list_all_iff)
  have F: "block_below (Suc ?N) (cf_values f) (critical_blocks f l t i m)" if "m < ?N" for m
    using term_ok [OF that] block_below_mono [OF below [OF that], of "Suc ?N"]
      block_below_rename [OF below [OF that], of "Suc ?N" l]
    by (cases "m = t") (simp_all add: block_below_def critical_parts rename_phis_def)
  show "cfg_ok g"
    using ok F tN distinct_all_defs [OF defs]
    by (auto simp: cfg_ok_def g list_all_iff block_below_def [of _ _ ?rest] term_below_def)
  show "phis_distinct g"
  proof -
    have "distinct (map fst (snd ph))" if m: "m < ?N" "ph \<in> set (bk_phis (critical_blocks f l t i m))" for m ph
    proof -
      obtain ph' where ph': "ph' \<in> set (bk_phis (cf_blocks f ! m))" "ph = ph' \<or> ph = rename_phi l ?N ph'"
        using m(2) by (auto simp: critical_parts split: if_splits)
      note keys = phi_keys [OF ok ds m(1) ph'(1)]
      from ph'(2) show ?thesis using keys(1) rename_keys [OF keys] by (elim disjE) simp_all
    qed
    then show ?thesis by (auto simp: phis_distinct_def g list_all_iff)
  qed
  have e: "edges_into g u + count_list [a, b] u = edges_into f u + count_list (if i = 0 then [?N, b] else [a, ?N]) u +
      count_list [t] u" for u
    using sum_blocks_changed [OF l(1), of "\<lambda>bk. count_list (succs (bk_term bk)) u" "critical_blocks f l t i" ?rest] l(2) i
    by (simp add: edges_into_def g critical_parts less_2_cases_iff)
  show "edges_into g u = edges_into f u" if "u < ?N" using e [of u] that t by (auto split: if_splits)
  have "a < ?N" "b < ?N" using succs_below [OF ok l(1)] l(2) by simp_all
  then show "edges_into g ?N = 1" using e [of ?N] edges_into_new [OF ok] tN by (auto split: if_splits)
  show "branches_to g l c (if i = 0 then ?N else a) (if i = 0 then b else ?N)"
    using l i by (simp add: branches_to_def g nth_append critical_parts)
qed

text \<open>A block with the only edge into another is not that block: control would never reach it.\<close>

definition no_trap :: "'v cfg \<Rightarrow> nat \<Rightarrow> nat \<Rightarrow> bool" where
  "no_trap f l t \<longleftrightarrow> edges_into f t = 1 \<longrightarrow> t \<noteq> l"

definition phis_list :: "'v cfg \<Rightarrow> nat \<Rightarrow> nat \<Rightarrow> bool" where
  "phis_list f l t \<longleftrightarrow> list_all (\<lambda>ph. l \<in> fst ` set (snd ph)) (bk_phis (cf_blocks f ! t))"

lemma first_index_branch: "a \<noteq> b \<Longrightarrow> (i :: nat) < 2 \<Longrightarrow> t = (if i = 0 then a else b) \<Longrightarrow> first_index [a, b] t = i"
  by (auto simp: less_2_cases_iff)

lemma assume_edge_right:
  fixes M :: "('v, 's) sem" and i :: nat
  assumes sp: "split_edge_ok split_edge" and ok: "cfg_ok f" and ds: "phis_distinct f" and br: "branches_to f l c a b"
    and ab: "a \<noteq> b" and i: "i < 2" and t: "t = (if i = 0 then a else b)" and no: "no_trap f l t" and ph: "phis_list f l t"
  obtains g x where "assume_edge split_edge f l t cond ex = Ret (g, (cond, ex, x))" "same_results M f g" "cfg_ok g"
    "phis_distinct g" "all_defs g = all_defs f" "cf_values g = cf_values f" "length (cf_blocks f) < length (cf_blocks g)"
    "branches_to g l c (if i = 0 then x else a) (if i = 0 then b else x)" "edges_into g x = 1"
    "\<And>u. u < length (cf_blocks f) \<Longrightarrow> edges_into g u = edges_into f u"
    "\<And>u. u < length (cf_blocks f) \<Longrightarrow> u \<noteq> t \<Longrightarrow> phis_list f l u \<Longrightarrow> phis_list g l u"
    "x = t \<or> x = length (cf_blocks f)"
proof -
  let ?N = "length (cf_blocks f)"
  have l: "l < ?N" "bk_term (cf_blocks f ! l) = bt_condbr c a b" using br by (simp_all add: branches_to_def)
  have tN: "t < ?N" using succs_below [OF ok l(1), of t] l(2) t by (simp split: if_splits)
  have idx: "succ_idx f l t = Ret i"
    using first_index_branch [OF ab i t] t l(2) i by (auto simp: succ_idx_def less_2_cases_iff)
  have spec: "split_edge f l t = split_edge_spec f l t"
    using sp l t by (auto simp: split_edge_ok_def split: if_splits)
  show ?thesis
  proof (cases "edges_into f t = 1")
    case True
    let ?g = "fst (split_block f t 0)"
    note sb = split_block_ok [OF ok tN, where n = 0]
    have tl: "t \<noteq> l" using no True by (simp add: no_trap_def)
    have at: "cf_blocks ?g ! l = moved t ?N (succs (bk_term (cf_blocks f ! t))) l (cf_blocks f ! l)"
      "bk_term (cf_blocks ?g ! t) = bt_br ?N" "bk_phis (cf_blocks ?g ! ?N) = []"
      using tl l(1) tN by (simp_all add: split_block_blocks [OF tN] nth_append Let_def)
    have same: "change_block ?N (replace_phis_incoming l t) ?g = ?g"
      using at(3) by (intro change_block_none) simp
    have edge: "(if i = 0 then a else b) = t" "[a, b] ! i = t" using t i by (auto simp: less_2_cases_iff)
    have run: "assume_edge split_edge f l t cond ex = Ret (?g, (cond, ex, t))"
      using idx spec True at l(2) edge(2) same by (simp add: assume_edge_def split_edge_spec_def Let_def)
    have br': "branches_to ?g l c (if i = 0 then t else a) (if i = 0 then b else t)"
      using at(1) l t sb(3) by (auto simp: branches_to_def)
    have keep: "phis_list ?g l u" if "u < ?N" "u \<noteq> t" "phis_list f l u" for u
    proof -
      have "l \<in> fst ` set (snd (rename_phi t ?N ph))" if "l \<in> fst ` set (snd ph)" for ph :: "'v phi"
        using that tl by (force simp: rename_phi_def)
      then show ?thesis
        using that by (auto simp: phis_list_def split_block_blocks [OF tN] nth_append Let_def moved_def rename_phis_def list_all_iff)
    qed
    show ?thesis
      using sb(3) sb(5) [OF tN] True
      by (intro that [OF run split_block_results [OF ok tN] sb(1) sb(4) [OF ds] sb(2) _ _ br' _ sb(5) keep]) simp_all
  next
    case False
    have "succs (bk_term (cf_blocks f ! l)) ! i = t" using l t i by (auto simp: less_2_cases_iff)
    moreover have "l \<in> fst ` set ins" if "(d, ins) \<in> set (bk_phis (cf_blocks f ! t))" for d ins
      using ph that unfolding phis_list_def list_all_iff by force
    ultimately obtain g where g: "split_critical f l i = Ret g" "cf_entry g = cf_entry f" "cf_values g = cf_values f"
      "cf_blocks g = map (critical_blocks f l t i) [0..<?N] @ [\<lparr>bk_phis = [], bk_insts = [], bk_term = bt_br t\<rparr>]"
      using split_critical_blocks [OF ok ds tN] by blast
    note sc = split_critical_ok [OF ok ds br ab t i g(2-4)]
    have spec': "split_edge f l t = Ret g"
      using spec False g(1) l(2) first_index_branch [OF ab i t] by (simp add: split_edge_spec_def)
    have edge: "succs (bk_term (cf_blocks g ! l)) ! i = ?N" using sc(7) i by (auto simp: branches_to_def less_2_cases_iff)
    have jump: "bk_term (cf_blocks g ! ?N) = bt_br t" by (simp add: g(4) nth_append)
    have "l \<notin> fst ` set (snd ph)" if "ph \<in> set (bk_phis (cf_blocks g ! t))" for ph
      using that tN phi_keys(2) [OF ok ds tN] l(1)
      by (auto simp: g(4) nth_append critical_parts rename_phi_def split: if_splits)
    then have same: "change_block t (replace_phis_incoming l ?N) g = g"
      by (rule change_block_none)
    have run: "assume_edge split_edge f l t cond ex = Ret (g, (cond, ex, ?N))"
      using idx spec' edge jump same by (simp add: assume_edge_def Let_def)
    have keep: "phis_list g l u" if "u < ?N" "u \<noteq> t" "phis_list f l u" for u
      using that by (simp add: phis_list_def g(4) nth_append critical_parts)
    show ?thesis
      using sc(4)
      by (intro that [OF run split_critical_results [OF ok br ab t g(2,4)] sc(1) sc(3) sc(2) g(3) _ sc(7) sc(6) sc(5) keep]) simp_all
  qed
qed

section \<open>When an assumption is made\<close>

lemma one_edge:
  assumes "edges_into g x = 1" "l < length (cf_blocks g)" "x \<in> set (succs (bk_term (cf_blocks g ! l)))"
    and "m < length (cf_blocks g)" "x \<in> set (succs (bk_term (cf_blocks g ! m)))"
  shows "m = l"
proof (rule ccontr)
  assume ml: "m \<noteq> l"
  let ?h = "\<lambda>k. count_list (succs (bk_term (cf_blocks g ! k))) x" and ?N = "length (cf_blocks g)"
  have "edges_into g x = (\<Sum>k \<in> {0..<?N}. ?h k)" by (simp add: edges_into_def sum_list_sum_nth)
  also have "\<dots> = ?h l + (?h m + (\<Sum>k \<in> {0..<?N} - {l} - {m}. ?h k))"
    using assms(2,4) ml by (simp add: sum.remove)
  finally have "?h l + ?h m \<le> 1" using assms(1) by simp
  moreover have "?h l \<noteq> 0" "?h m \<noteq> 0" using assms(3,5) by (simp_all add: count_list_0_iff)
  ultimately show False by linarith
qed

lemma step_next:
  assumes "step M g (q, m, e, s) = Ret (Inr (q1, m1, e1, s1))"
  shows "m < length (cf_blocks g)" "exec_term M (bk_term (cf_blocks g ! m)) e1 = Ret (Inr m1)"
proof -
  show m: "m < length (cf_blocks g)" using assms by (simp add: step_def block_at_def split: if_splits)
  obtain e0 e2 s2 t where "exec_term M (bk_term (cf_blocks g ! m)) e2 = Ret t"
    "(case t of Inl rs \<Rightarrow> Inl (rs, s2) | Inr m' \<Rightarrow> Inr (Some m, m', e2, s2)) = Inr (q1, m1, e1, s1)"
    using assms m by (auto simp: step_def block_at_def run_block_def obind_eq_Ret)
  then show "exec_term M (bk_term (cf_blocks g ! m)) e1 = Ret (Inr m1)" by (cases t) auto
qed

lemma edge_taken:
  assumes br: "branches_to g l c x y" and xy: "x \<noteq> y" and one: "edges_into g x = 1" "edges_into g y = 1"
    and st: "step M g (q, m, e, s) = Ret (Inr (q1, m1, e1, s1))"
  shows "(m1 = x \<longleftrightarrow> m = l \<and> (\<exists>v. bget e1 c = Ret v \<and> sem_truth M v)) \<and>
    (m1 = y \<longleftrightarrow> m = l \<and> (\<exists>v. bget e1 c = Ret v \<and> \<not> sem_truth M v))"
proof -
  note nx = step_next [OF st]
  have l: "l < length (cf_blocks g)" "bk_term (cf_blocks g ! l) = bt_condbr c x y"
    using br by (simp_all add: branches_to_def)
  have "m1 \<in> set (succs (bk_term (cf_blocks g ! m)))" using exec_term_succ [OF nx(2)] .
  then have from_l: "m = l" if "m1 = x \<or> m1 = y"
    using that one_edge [OF one(1) l(1) _ nx(1)] one_edge [OF one(2) l(1) _ nx(1)] l(2) by auto
  show ?thesis
  proof (cases "m = l")
    case True
    then have "\<exists>v. bget e1 c = Ret v \<and> m1 = (if sem_truth M v then x else y)"
      using nx(2) l(2) by (auto simp: obind_eq_Ret)
    then show ?thesis using True xy by (auto split: if_splits)
  next
    case False
    then show ?thesis using from_l by auto
  qed
qed

text \<open>Both edges, one after the other.\<close>

lemma assume_branch_right:
  fixes M :: "('v, 's) sem"
  assumes sp: "split_edge_ok split_edge" and ok: "cfg_ok f" "phis_distinct f" and br: "branches_to f l c a b" "a \<noteq> b"
    and no: "no_trap f l a" "no_trap f l b" and ph: "phis_list f l a" "phis_list f l b"
  obtains g x y where "assume_branch split_edge f l cond = Ret (g, [(cond, True, x), (cond, False, y)])"
    "same_results M f g" "cfg_ok g" "branches_to g l c x y" "x \<noteq> y" "edges_into g x = 1" "edges_into g y = 1"
proof -
  have l: "l < length (cf_blocks f)" "bk_term (cf_blocks f ! l) = bt_condbr c a b" using br(1) by (simp_all add: branches_to_def)
  have ab: "a < length (cf_blocks f)" "b < length (cf_blocks f)" using succs_below [OF ok(1) l(1)] l(2) by simp_all
  obtain g1 x where g1: "assume_edge split_edge f l a cond True = Ret (g1, (cond, True, x))" "same_results M f g1" "cfg_ok g1"
    "phis_distinct g1" "all_defs g1 = all_defs f" "cf_values g1 = cf_values f" "length (cf_blocks f) < length (cf_blocks g1)"
    "branches_to g1 l c x b" "edges_into g1 x = 1"
    "\<And>u. u < length (cf_blocks f) \<Longrightarrow> edges_into g1 u = edges_into f u"
    "\<And>u. u < length (cf_blocks f) \<Longrightarrow> u \<noteq> a \<Longrightarrow> phis_list f l u \<Longrightarrow> phis_list g1 l u" "x = a \<or> x = length (cf_blocks f)"
    using assume_edge_right [OF sp ok br, of 0 a cond True M] no(1) ph(1) by auto
  have xb: "x \<noteq> b" using g1(12) br(2) ab by auto
  have no1: "no_trap g1 l b" using no(2) g1(10) [OF ab(2)] by (simp add: no_trap_def)
  have ph1: "phis_list g1 l b" using g1(11) [OF ab(2) _ ph(2)] br(2) by simp
  have x: "x < length (cf_blocks g1)" using g1(7,12) ab(1) by auto
  have args: "args_only g1 e" if "args_only f e" for e using that g1(5,6) by (simp add: args_only_def)
  show ?thesis
  proof (rule assume_edge_right [OF sp g1(3,4,8) xb _ _ no1 ph1, where i = 1 and cond = cond and ex = False and M = M])
    fix g y
    assume g: "assume_edge split_edge g1 l b cond False = Ret (g, cond, False, y)" "same_results M g1 g" "cfg_ok g"
      "branches_to g l c (if (1 :: nat) = 0 then y else x) (if (1 :: nat) = 0 then b else y)" "edges_into g y = 1"
      "\<And>u. u < length (cf_blocks g1) \<Longrightarrow> edges_into g u = edges_into g1 u" "y = b \<or> y = length (cf_blocks g1)"
    show ?thesis
    proof (rule that)
      show "assume_branch split_edge f l cond = Ret (g, [(cond, True, x), (cond, False, y)])"
        using g1(1,8) g(1) l(2) by (simp add: assume_branch_def branches_to_def)
      show "same_results M f g" by (rule results_trans [OF g1(2) g(2) args])
      show "x \<noteq> y" using g(7) xb x by auto
      show "edges_into g x = 1" using g(6) [OF x] g1(9) by simp
    qed (use g in simp_all)
  qed simp_all
qed

section \<open>Examples\<close>

text \<open>A loop that counts to a hundred: one of its edges is critical, the other is not.\<close>

definition count_cfg_loop :: "int cfg" where
  "count_cfg_loop = \<lparr>cf_blocks =
    [\<lparr>bk_phis = [], bk_insts = [], bk_term = bt_br 1\<rparr>,
     \<lparr>bk_phis = [(1, [(0, b_reg 0), (1, b_reg 2)])],
      bk_insts = [bi_other 2 0 [b_reg 1], bi_cmp 3 0 [b_reg 2, b_const 100]], bk_term = bt_condbr (b_reg 3) 1 2\<rparr>,
     \<lparr>bk_phis = [], bk_insts = [], bk_term = bt_ret [b_reg 2]\<rparr>], cf_entry = 0, cf_values = 4\<rparr>"

text \<open>
  When both edges of a branch go to one block with phis, the first split leaves no entry for the
  block of the branch, which the second needs.
\<close>

definition same_target :: "int cfg" where
  "same_target = \<lparr>cf_blocks =
    [\<lparr>bk_phis = [], bk_insts = [bi_cmp 1 0 [b_reg 0, b_const 100]], bk_term = bt_condbr (b_reg 1) 1 1\<rparr>,
     \<lparr>bk_phis = [(2, [(0, b_reg 0), (0, b_reg 0)])], bk_insts = [], bk_term = bt_ret [b_reg 2]\<rparr>],
    cf_entry = 0, cf_values = 3\<rparr>"

lemma same_target_breaks:
  "cfg_ok same_target" "run_cfg int_sem same_target 2 (start same_target [0 \<mapsto> 7] 0) = Some (Ret ([7], 0))"
  "case assume_branch split_edge_spec same_target 0 (b_reg 1) of Undef \<Rightarrow> True | _ \<Rightarrow> False"
  by code_simp+

section \<open>Properties\<close>

text \<open>
  C13: Making the places for the assumptions of a branch to two blocks changes no result of the
  function, and the places are right: whenever control moves on, it moves to the place of an
  assumption exactly if it comes from the branch and the condition has the value that is assumed
  there.
\<close>

theorem assumptions_on_edges:
  fixes M :: "('v, 's) sem"
  assumes "split_edge_ok split_edge" "cfg_ok f" "phis_distinct f" "branches_to f l c a b" "a \<noteq> b"
    and "no_trap f l a" "no_trap f l b" "phis_list f l a" "phis_list f l b"
  shows "\<exists>g x y. assume_branch split_edge f l cond = Ret (g, [(cond, True, x), (cond, False, y)]) \<and>
    same_results M f g \<and> cfg_ok g \<and>
    (\<forall>p q m e s. step M g p = Ret (Inr (q, m, e, s)) \<longrightarrow>
      (m = x \<longleftrightarrow> fst (snd p) = l \<and> (\<exists>v. bget e c = Ret v \<and> sem_truth M v)) \<and>
      (m = y \<longleftrightarrow> fst (snd p) = l \<and> (\<exists>v. bget e c = Ret v \<and> \<not> sem_truth M v)))"
proof -
  obtain g x y where g: "assume_branch split_edge f l cond = Ret (g, [(cond, True, x), (cond, False, y)])"
    "same_results M f g" "cfg_ok g" "branches_to g l c x y" "x \<noteq> y" "edges_into g x = 1" "edges_into g y = 1"
    by (rule assume_branch_right [OF assms])
  have "(m = x \<longleftrightarrow> fst (snd p) = l \<and> (\<exists>v. bget e c = Ret v \<and> sem_truth M v)) \<and>
      (m = y \<longleftrightarrow> fst (snd p) = l \<and> (\<exists>v. bget e c = Ret v \<and> \<not> sem_truth M v))"
    if "step M g p = Ret (Inr (q, m, e, s))" for p q m e s
    using edge_taken [OF g(4-7), of M "fst p" "fst (snd p)" "fst (snd (snd p))" "snd (snd (snd p))" q m e s] that by simp
  with g(1-3) show ?thesis by blast
qed

theorem assumptions_on_edges_witness:
  "\<exists>g x y. assume_branch split_edge_spec count_cfg_loop 1 (b_reg 3) = Ret (g, [(b_reg 3, True, x), (b_reg 3, False, y)]) \<and>
    same_results int_sem count_cfg_loop g \<and> cfg_ok g \<and>
    (\<forall>p q m e s. step int_sem g p = Ret (Inr (q, m, e, s)) \<longrightarrow>
      (m = x \<longleftrightarrow> fst (snd p) = 1 \<and> (\<exists>v. bget e (b_reg 3) = Ret v \<and> sem_truth int_sem v)) \<and>
      (m = y \<longleftrightarrow> fst (snd p) = 1 \<and> (\<exists>v. bget e (b_reg 3) = Ret v \<and> \<not> sem_truth int_sem v)))"
proof (rule assumptions_on_edges)
  show "split_edge_ok split_edge_spec" by (simp add: split_edge_ok_def)
  show "cfg_ok count_cfg_loop" by code_simp
  show "phis_distinct count_cfg_loop" by code_simp
  show "branches_to count_cfg_loop 1 (b_reg 3) 1 2" by (simp add: branches_to_def count_cfg_loop_def)
  show "(1 :: nat) \<noteq> 2" by simp
  show "no_trap count_cfg_loop 1 1" by code_simp
  show "no_trap count_cfg_loop 1 2" by code_simp
  show "phis_list count_cfg_loop 1 1" by code_simp
  show "phis_list count_cfg_loop 1 2" by code_simp
qed

end
