(* ===== verification/Spec2Isabelle.thy ===== *)
theory Spec2Isabelle
  imports Relational Array_Map Runtime_Stash Shadow_Memory Constant_Domain Dataflow Instrumentation
    Term_Domain Floats_Domain Tracing Domain_List Driver Runtime_Symbols Assume_Edges
begin

text \<open>
  LART transforms a program so that some of its values are abstract: the compiler \<open>lartcc\<close> finds
  the values that may be abstract, replaces the operations on them by calls that test their taints
  and call an abstract domain (\<open>lamp\<close> picks one of the domains of the header library \<open>lava\<close> and
  exports its operations as C functions), and links a runtime that explores the branches by
  forking (\<open>runtime/native\<close>). This development models the domains, the metadomains that combine
  them, their exported operations, the runtime, and the stages of the compiler: the data-flow
  analysis with its roots, the lowering of pointer arithmetic, the insertion of operations, the
  taints, and the code that is generated.

  Theories, from the bottom up, with the sources they translate:

  \<^item> \<open>Lart_Prelude\<close>: outcomes of a path (a value, a cancelled path, a trap, undefined behaviour),
    runs (the outcomes of all paths, one per choice), soundness of runs, look-up tables.
  \<^item> \<open>Runtime_Choose\<close>: \<open>runtime/native/choose.cpp\<close>, choices by \<open>fork\<close>. A process is its depth
    and its trace of choices; the continuation of a choice is the rest of the program.
  \<^item> \<open>Tristate\<close>: \<open>lava/support/tristate.hpp\<close>. \<open>Op_Tag\<close>: the operation tags of
    \<open>lava/support/operations.hpp\<close> and the tag domain of \<open>op.hpp\<close>.
  \<^item> \<open>Domain_Base\<close>: \<open>lava/support/base.hpp\<close>, the numeric casts, the dispatch on a width, the default
    operations; a domain as a record of operations; the contracts \<open>forward_sound\<close>,
    \<open>branch_sound\<close> and \<open>backward_sound\<close> that a domain promises, as locales.
  \<^item> \<open>Sign_Domain\<close>, \<open>Zero_Domain\<close>, \<open>Constant_Domain\<close>, \<open>Trivial_Domains\<close>: the files of the same
    names under \<open>lava\<close>; each interprets the contracts it fulfils on its own definitions.
  \<^item> \<open>Floats_Domain\<close>: \<open>lava/floats.hpp\<close>, the classes of floating point numbers.
  \<^item> \<open>Runtime_Vector\<close>: \<open>runtime/vector.hpp\<close>. \<open>Smt_Expr\<close>: \<open>lava/support/smt.hpp\<close>, expressions in
    reverse Polish notation as vectors of bytes. \<open>Expr_Domain\<close>: \<open>lava/expr.hpp\<close>, the domain of such
    expressions, with their meaning and their types. \<open>Term_Domain\<close>: \<open>lava/term.hpp\<close>, terms of a
    solver and the constraints of the path.
  \<^item> \<open>Interval_Arith\<close> and \<open>Interval_Domain\<close>: \<open>lava/support/interval.hpp\<close> (saturating bounds and
    interval arithmetic) and \<open>lava/interval.hpp\<close> (the domain and its backward operations).
  \<^item> \<open>Product_Domain\<close> and \<open>Relational\<close>: \<open>lava/support/product.hpp\<close>, \<open>history.hpp\<close>,
    \<open>relational.hpp\<close>. A heap of cells, each with a value, the tag of the operation that made it
    and its operands; assuming a condition propagates it backwards over that graph. The client
    of the three contracts is proved once in a locale and interpreted for three domains.
  \<^item> \<open>Scalar_Ops\<close>: \<open>lava/support/scalar.hpp\<close>, the C++ operators on abstract values.
    \<open>Pointer_Arith\<close>: \<open>lava/pointer_arith.hpp\<close>, pointers with an abstract number, and the numbers
    given to objects, kept in the array map of the runtime.
  \<^item> \<open>Domain_List\<close>: \<open>lamp/support/domain_list.hpp\<close>, lists of domains and their tags.
  \<^item> \<open>Metadomain\<close>: \<open>lamp/support/semilattice.hpp\<close>, \<open>storage.hpp\<close>, \<open>trivial.cpp\<close> and
    \<open>adaptor/pa.hpp\<close>. A value carries the tag of its domain; an operation joins the tags, lifts its
    operands to the joined domain and runs there.
  \<^item> \<open>Array_Map\<close>: \<open>runtime/map.hpp\<close>, the sorted array map. \<open>Runtime_Stash\<close>: \<open>stash.cpp\<close>, the
    argument stacks. \<open>Shadow_Memory\<close>: \<open>shadow.cpp\<close>, labels of bytes and their frames.
  \<^item> \<open>Tracing\<close>: \<open>lamp/support/tracing.hpp\<close>, \<open>runtime/stream.hpp\<close>. A domain that prints a line
    after every operation, and a reader of the lines.
  \<^item> \<open>Lamp_Wrapper\<close>: \<open>lamp/wrapper.hpp\<close>, \<open>memory.hpp\<close>. The state is the heap of abstract values
    (an address is a position), the stash and the shadow memory; the exported functions act on it.
  \<^item> \<open>Onion_Types\<close> and \<open>Dataflow\<close>: \<open>lartcc/include/cc/tristate.hpp\<close>, \<open>dfa.hpp\<close>, \<open>lartcc/dfa.cpp\<close>.
    The types of values by levels of pointers, the edges along which they flow, the worklist.
    \<open>Roots\<close>: \<open>roots.hpp\<close>, the search for the calls where the analysis starts.
  \<^item> \<open>Cfg\<close>: functions as graphs of blocks, what running one does, and simulation of one by another.
    \<open>Branch_Lowering\<close>: \<open>lartcc/preprocess.cpp\<close>, selects and comparisons as branches.
    \<open>Assume_Edges\<close>: \<open>lartcc/assume.cpp\<close>, the edges that carry the assumptions of a branch.
  \<^item> \<open>Gep_Lowering\<close>: \<open>lartcc/preprocess.cpp\<close> and its use in \<open>driver.cpp\<close>, pointer arithmetic as
    integer instructions with types.
  \<^item> \<open>Operations\<close>: \<open>lartcc/include/cc/operation.hpp\<close>, \<open>arguments.hpp\<close>. \<open>Instrumentation\<close>:
    \<open>lartcc/lifter.cpp\<close>, \<open>backend/native/native.cpp\<close>, and what becomes of binary instructions and
    branches. Generation gives a description of the code
    (which parameters are tested, lifted, passed on); running it is a function of the state of
    \<open>Lamp_Wrapper\<close>. The locale \<open>instrumented\<close> asks a domain for the forward contract and that
    lifting describes the lifted number; the trivial metadomain and the zero domain interpret it.
  \<^item> \<open>Syntactic_Pass\<close>: \<open>lartcc/syntactic.cpp\<close>, \<open>taint.cpp\<close>. The operations that a module needs, and the
    tables by which calls find the abstractions of their arguments, whichever is made first.
    \<open>Shadow_Pass\<close>: \<open>lartcc/shadow.cpp\<close>. The taint of a value as an expression over what is unstashed
    or read from the shadow memory. \<open>Driver\<close>: \<open>lartcc/driver.cpp\<close>. The passes after one another,
    and the replacement of instructions by calls. \<open>Runtime_Symbols\<close>: \<open>lartcc/runtime.cpp\<close>, \<open>runtime.hpp\<close>,
    the functions that are declared for the calls, against the arguments that \<open>lifter.cpp\<close> passes.

  What the properties show. A domain is sound when every concrete execution is described by some
  explored path; where the code falls short of that, the property states for which inputs it
  does (multiplication of the zero domain, one entry of the sign tables, the equality refinement
  of intervals, the width of cast constants). Code generated for straight lines of instructions
  and for branches simulates the original code, for every domain that fulfils the contract. The
  analysis finds all roots and ends with the least solution of its edges. Turning selects and
  comparisons into branches, and splitting edges, change no result of a function. The operations made from
  the types link every call to the abstractions of its arguments, and the taints computed for
  values are those that flow to them, except where operands form a cycle. Data structures are related to their abstract
  specification: the stash to a list, the array map to a finite map, the shadow to a map from
  bytes to labels, a symbolic expression to the sequence of its atoms. Symbolic execution follows a
  path exactly when some input takes it. Tracing changes no result, and its log determines the
  events. Loops end: the propagation, the choices, the reader of shadow labels, the
  worklist of the analysis.

  Parameters. LLVM's module is the record \<open>ir\<close> of the analysis and the record \<open>code\<close> of the
  operations; what a pointer may point to is SVF's answer, a field of \<open>ir\<close>. The meaning of the
  instruction that is kept on the concrete path is the argument \<open>exec\<close>, assumed to compute the
  operation of the instruction. The bytes of the memory of the program are the argument \<open>memory\<close>.
  The solver behind the terms is the record \<open>z3\<close>; \<open>z3_ok\<close> says what its operations mean and that
  it answers unsatisfiable only when no valuation satisfies the constraints. The lists of the uses of a value are LLVM's: \<open>use_lists_ok\<close> says
  that a use that is set moves to the front of the list of its new value. The types behind the
  indices of a \<open>getelementptr\<close> are data of the indices. Splitting a block and splitting an edge are
  LLVM's: the arguments \<open>split\<close> and \<open>split_edge\<close>, with \<open>split_ok\<close> and \<open>split_edge_ok\<close> for what it
  documents of them; what the instructions of a function do is the record \<open>sem\<close>. The address that a
  trace prints and the class that the C library gives a floating point number are arguments.

  Bounds. The recursion of the backward propagation takes a bound on its depth; the number of the
  starting cell plus one is enough, because operands are older than what they make, and a deeper
  bound gives the same run. Soundness of the backward interval operations is stated for bounds of
  at most two to the sixtieth in size, where the bounds of the code do not saturate. A choice has
  at most two to the thirty-first alternatives. A failing \<open>fork\<close> is not modelled. The loops of the
  analysis and of the search for roots are partial functions that are shown to return. A run of a function takes a
  bound on the number of its blocks; two functions have the same results when each result of one,
  for some bound, is a result of the other, for some bound. The
  recursion over the operands of a shadow takes a bound; twice the depth of the operands is enough.

  Not modelled. Input and output of the runtime (configuration from the environment, signal
  handlers); printing of symbolic expressions and of the model of the solver; rounding of
  floating point numbers; the reference-counted storage behind the values, which the models replace
  by the values or by cells; \<open>term-cvc.hpp\<close>, which does not compile. Of the compiler:
  where calls are inserted, the calls that open and close frames;
  operands that are replaced are recorded, and the loop that replaces them is modelled on its own;
  phi nodes, allocation and stores through abstract pointers are listed but not executed.
\<close>

end
